(* ===== verification/Prelude.thy ===== *)
theory Prelude
  imports Main "HOL-Library.Word" "HOL-Library.Monad_Syntax"
begin

unbundle bit_operations_syntax

text \<open>
  Shared vocabulary of the development: machine types, byte buffers with
  bounds-checked accesses, network byte order, unsigned subtraction with its
  wrap-around, and the lemmas the component theories have in common.

  A C buffer (\<^verbatim>\<open>uint8_t *\<close>) is the list of the bytes that may be accessed through
  the pointer.  An access outside the list is undefined behaviour in C; here the
  accessor returns \<^term>\<open>None\<close>, so a statement of the form \<open>f \<dots> = Some r\<close> includes that
  no access of \<open>f\<close> was out of bounds.
\<close>

type_synonym byte = "8 word"
type_synonym u16 = "16 word"
type_synonym u32 = "32 word"
type_synonym u64 = "64 word"
type_synonym buf = "byte list"

named_theorems mem_defs \<open>definitions of the buffer accessors\<close>
named_theorems len_dests \<open>lengths of buffers after an access\<close>

section \<open>Buffers\<close>

definition rd :: "buf \<Rightarrow> nat \<Rightarrow> byte option" where
  "rd b i = (if i < length b then Some (b ! i) else None)"

definition wr :: "buf \<Rightarrow> nat \<Rightarrow> byte \<Rightarrow> buf option" where
  "wr b i x = (if i < length b then Some (b[i := x]) else None)"

text \<open>Reading \<open>n\<close> bytes at an offset, the source side of \<^verbatim>\<open>memcpy\<close>.\<close>

definition rdn :: "buf \<Rightarrow> nat \<Rightarrow> nat \<Rightarrow> buf option" where
  "rdn b off n = (if off + n \<le> length b then Some (take n (drop off b)) else None)"

text \<open>Overwriting the bytes at an offset, the destination side of \<^verbatim>\<open>memcpy\<close>.\<close>

definition wrn :: "buf \<Rightarrow> nat \<Rightarrow> buf \<Rightarrow> buf option" where
  "wrn b off xs = (if off + length xs \<le> length b
     then Some (take off b @ xs @ drop (off + length xs) b) else None)"

text \<open>\<^verbatim>\<open>memmove\<close> within one buffer (regions may overlap).\<close>

definition mem_move :: "buf \<Rightarrow> nat \<Rightarrow> nat \<Rightarrow> nat \<Rightarrow> buf option" where
  "mem_move b dst src n = do { xs \<leftarrow> rdn b src n; wrn b dst xs }"

declare rd_def [mem_defs] wr_def [mem_defs] rdn_def [mem_defs] wrn_def [mem_defs]
  mem_move_def [mem_defs]

lemma rd_Some [simp]: "i < length b \<Longrightarrow> rd b i = Some (b ! i)"
  by (simp add: rd_def)

lemma wr_Some [simp]: "i < length b \<Longrightarrow> wr b i x = Some (b[i := x])"
  by (simp add: wr_def)

lemma rdn_Some [simp]: "off + n \<le> length b \<Longrightarrow> rdn b off n = Some (take n (drop off b))"
  by (simp add: rdn_def)

lemma wrn_Some [simp]:
  "off + length xs \<le> length b \<Longrightarrow> wrn b off xs = Some (take off b @ xs @ drop (off + length xs) b)"
  by (simp add: wrn_def)

lemma rd_eq_Some_iff: "rd b i = Some x \<longleftrightarrow> i < length b \<and> b ! i = x"
  by (auto simp: rd_def)

lemma wr_eq_Some_iff: "wr b i x = Some b' \<longleftrightarrow> i < length b \<and> b' = b[i := x]"
  by (auto simp: wr_def)

lemma rdn_eq_Some_iff: "rdn b off n = Some xs \<longleftrightarrow> off + n \<le> length b \<and> xs = take n (drop off b)"
  by (auto simp: rdn_def)

lemma wrn_eq_Some_iff:
  "wrn b off xs = Some b' \<longleftrightarrow>
     off + length xs \<le> length b \<and> b' = take off b @ xs @ drop (off + length xs) b"
  by (auto simp: wrn_def)

lemmas mem_iffs = rd_eq_Some_iff wr_eq_Some_iff rdn_eq_Some_iff wrn_eq_Some_iff

lemma rdn_length [len_dests]: "rdn b off n = Some xs \<Longrightarrow> length xs = n"
  by (auto simp: mem_iffs)

lemma wr_length [len_dests]: "wr b i x = Some b' \<Longrightarrow> length b' = length b"
  by (auto simp: mem_iffs)

lemma wrn_length [len_dests]: "wrn b off xs = Some b' \<Longrightarrow> length b' = length b"
  by (auto simp: mem_iffs)

lemma mem_move_length [len_dests]: "mem_move b d s n = Some b' \<Longrightarrow> length b' = length b"
  by (auto simp: mem_move_def bind_eq_Some_conv mem_iffs)

lemma wrn_nth:
  "wrn b off xs = Some b' \<Longrightarrow> i < length b \<Longrightarrow>
     b' ! i = (if off \<le> i \<and> i < off + length xs then xs ! (i - off) else b ! i)"
  by (auto simp: mem_iffs nth_append)

text \<open>What was copied to a place is read back from it; other places keep their bytes.\<close>

lemma rdn_wrn_same: "wrn b off xs = Some b' \<Longrightarrow> rdn b' off (length xs) = Some xs"
  by (auto simp: mem_iffs)

lemma rdn_wrn_other:
  assumes "wrn b off xs = Some b'" and "i + n \<le> off \<or> off + length xs \<le> i"
  shows "rdn b' i n = rdn b i n"
proof -
  have len: "length b' = length b" using assms(1) by (rule wrn_length)
  have "take n (drop i b') = take n (drop i b)" if "i + n \<le> length b"
  proof (rule nth_equalityI)
    show "length (take n (drop i b')) = length (take n (drop i b))" by (simp add: len)
  next
    fix j assume "j < length (take n (drop i b'))"
    then have j: "j < n" "i + j < length b" using that by (auto simp: len)
    then have "b' ! (i + j) = b ! (i + j)"
      using wrn_nth [OF assms(1), of "i + j"] assms(2) by auto
    then show "take n (drop i b') ! j = take n (drop i b) ! j" using j that by (simp add: len)
  qed
  then show ?thesis by (simp add: rdn_def len)
qed

section \<open>Sixteen-bit fields in network byte order\<close>

definition hi8 :: "u16 \<Rightarrow> byte" where
  "hi8 v = ucast (drop_bit 8 v)"

definition lo8 :: "u16 \<Rightarrow> byte" where
  "lo8 v = ucast v"

definition be16 :: "byte \<Rightarrow> byte \<Rightarrow> u16" where
  "be16 h l = push_bit 8 (ucast h) OR ucast l"

definition rd16 :: "buf \<Rightarrow> nat \<Rightarrow> u16 option" where
  "rd16 b i = do { h \<leftarrow> rd b i; l \<leftarrow> rd b (i + 1); Some (be16 h l) }"

definition wr16 :: "buf \<Rightarrow> nat \<Rightarrow> u16 \<Rightarrow> buf option" where
  "wr16 b i v = do { b \<leftarrow> wr b i (hi8 v); wr b (i + 1) (lo8 v) }"

lemma be16_hi_lo [simp]: "be16 (hi8 v) (lo8 v) = v"
  by (rule bit_word_eqI) (auto simp: be16_def hi8_def lo8_def bit_simps)

lemma hi8_be16 [simp]: "hi8 (be16 h l) = h"
  by (rule bit_word_eqI) (auto simp: be16_def hi8_def bit_simps dest: bit_imp_le_length)

lemma lo8_be16 [simp]: "lo8 (be16 h l) = l"
  by (rule bit_word_eqI) (auto simp: be16_def lo8_def bit_simps)

lemma rd16_Some [simp]: "i + 1 < length b \<Longrightarrow> rd16 b i = Some (be16 (b ! i) (b ! (i + 1)))"
  by (simp add: rd16_def)

lemma wr16_Some [simp]:
  "i + 1 < length b \<Longrightarrow> wr16 b i v = Some (b[i := hi8 v, i + 1 := lo8 v])"
  by (simp add: wr16_def)

lemma wr16_length [len_dests]: "wr16 b i v = Some b' \<Longrightarrow> length b' = length b"
  by (auto simp: wr16_def bind_eq_Some_conv mem_iffs)

lemma rd16_wr16: "wr16 b i v = Some b' \<Longrightarrow> rd16 b' i = Some v"
  by (auto simp: wr16_def bind_eq_Some_conv mem_iffs)

lemma split_at_two: "a \<le> b \<Longrightarrow> xs = take a xs @ drop a (take b xs) @ drop b xs"
proof -
  assume "a \<le> b"
  then have "take a xs @ drop a (take b xs) = take b xs"
    using append_take_drop_id [of a "take b xs"] by (simp add: min_absorb1)
  then show ?thesis by (metis append.assoc append_take_drop_id)
qed

text \<open>Indexing an array of other elements; \<^term>\<open>None\<close> when the index is out of range.\<close>

definition at :: "'a list \<Rightarrow> nat \<Rightarrow> 'a option" where
  "at xs i = (if i < length xs then Some (xs ! i) else None)"

lemma at_Some [simp]: "i < length xs \<Longrightarrow> at xs i = Some (xs ! i)"
  by (simp add: at_def)

lemma at_eq_Some_iff: "at xs i = Some x \<longleftrightarrow> i < length xs \<and> xs ! i = x"
  by (auto simp: at_def)

text \<open>Accesses to a buffer whose parts are known.\<close>

lemma rdn_at: "off = length a \<Longrightarrow> n = length x \<Longrightarrow> rdn (a @ x @ c) off n = Some x"
  by simp

lemma wrn_at: "off = length a \<Longrightarrow> length y = length x \<Longrightarrow> wrn (a @ y @ c) off x = Some (a @ x @ c)"
  by simp

lemma wrn_end: "off = length a \<Longrightarrow> length x \<le> length c \<Longrightarrow> wrn (a @ c) off x = Some (a @ x @ drop (length x) c)"
  by simp

lemma rd_append1 [simp]: "i < length a \<Longrightarrow> rd (a @ c) i = rd a i"
  by (simp add: rd_def nth_append)

lemma rdn_append1 [simp]: "off + n \<le> length a \<Longrightarrow> rdn (a @ c) off n = rdn a off n"
  by (simp add: rdn_def)

lemma wr_append1 [simp]: "i < length a \<Longrightarrow> wr (a @ c) i x = map_option (\<lambda>a. a @ c) (wr a i x)"
  by (simp add: wr_def list_update_append)

lemma rd16_append1 [simp]: "Suc i < length a \<Longrightarrow> rd16 (a @ c) i = rd16 a i"
  by (simp add: nth_append)

lemma wr16_append1 [simp]: "Suc i < length a \<Longrightarrow> wr16 (a @ c) i v = map_option (\<lambda>a. a @ c) (wr16 a i v)"
  by (simp add: list_update_append)

lemma unat_byte_less: "unat (x :: byte) < 256"
  using unsigned_less [of x] by simp

lemma unat_be16: "unat (be16 h l) = 256 * unat h + unat l"
proof -
  have "be16 h l = push_bit 8 (ucast h) + ucast l"
    unfolding be16_def
    by (rule disjunctive_add [symmetric]) (auto simp: bit_simps dest: bit_imp_le_length)
  moreover have h: "unat h < 256" and l: "unat l < 256"
    by (rule unat_byte_less)+
  moreover have "unat (push_bit 8 (ucast h :: u16)) = 256 * unat h"
    using h by (simp add: push_bit_eq_mult unat_word_ariths unsigned_ucast_eq take_bit_nat_eq_self)
  moreover have "unat (ucast l :: u16) = unat l"
    using l by (simp add: unsigned_ucast_eq take_bit_nat_eq_self)
  ultimately show ?thesis
    by (simp add: unat_word_ariths)
qed

section \<open>Host and network byte order\<close>

text \<open>
  \<^verbatim>\<open>htonl\<close> and \<^verbatim>\<open>ntohl\<close> on a little-endian host (the code targets x86-64), and the value
  of a 32-bit field that is read in place from four packet bytes.
\<close>

definition host32 :: "byte \<Rightarrow> byte \<Rightarrow> byte \<Rightarrow> byte \<Rightarrow> u32" where
  "host32 b0 b1 b2 b3 =
     ucast b0 OR push_bit 8 (ucast b1) OR push_bit 16 (ucast b2) OR push_bit 24 (ucast b3)"

definition htonl :: "u32 \<Rightarrow> u32" where
  "htonl x = host32 (ucast (drop_bit 24 x)) (ucast (drop_bit 16 x)) (ucast (drop_bit 8 x)) (ucast x)"

abbreviation ntohl :: "u32 \<Rightarrow> u32" where
  "ntohl \<equiv> htonl"

lemma bit_host32:
  "bit (host32 b0 b1 b2 b3) n \<longleftrightarrow>
     (if n < 8 then bit b0 n else if n < 16 then bit b1 (n - 8)
      else if n < 24 then bit b2 (n - 16) else n < 32 \<and> bit b3 (n - 24))"
  by (auto simp: host32_def bit_simps dest: bit_imp_le_length)

lemma bit_htonl:
  "bit (htonl x) n \<longleftrightarrow>
     (if n < 8 then bit x (n + 24) else if n < 16 then bit x (n + 8)
      else if n < 24 then bit x (n - 8) else n < 32 \<and> bit x (n - 24))"
  by (auto simp: htonl_def bit_host32 bit_simps algebra_simps)

lemma htonl_htonl [simp]: "htonl (htonl x) = x"
  by (rule bit_word_eqI) (auto simp: bit_htonl)

lemma htonl_eq_iff [simp]: "htonl x = htonl y \<longleftrightarrow> x = y"
  by (metis htonl_htonl)

lemma htonl_and: "htonl (x AND y) = htonl x AND htonl y"
  by (rule bit_word_eqI) (auto simp: bit_htonl bit_simps)

definition rd32 :: "buf \<Rightarrow> nat \<Rightarrow> u32 option" where
  "rd32 b i = do { b0 \<leftarrow> rd b i; b1 \<leftarrow> rd b (i + 1); b2 \<leftarrow> rd b (i + 2); b3 \<leftarrow> rd b (i + 3);
     Some (host32 b0 b1 b2 b3) }"

section \<open>Unsigned subtraction\<close>

text \<open>Subtraction of \<^verbatim>\<open>uint32_t\<close> and \<^verbatim>\<open>size_t\<close> values wraps around.\<close>

definition sub32 :: "nat \<Rightarrow> nat \<Rightarrow> nat" where
  "sub32 a b = (if b \<le> a then a - b else 2 ^ 32 + a - b)"

definition sub64 :: "nat \<Rightarrow> nat \<Rightarrow> nat" where
  "sub64 a b = (if b \<le> a then a - b else 2 ^ 64 + a - b)"

lemma sub32_le [simp]: "b \<le> a \<Longrightarrow> sub32 a b = a - b"
  by (simp add: sub32_def)

lemma sub64_le [simp]: "b \<le> a \<Longrightarrow> sub64 a b = a - b"
  by (simp add: sub64_def)

text \<open>C's remainder truncates towards zero.\<close>

definition c_rem :: "int \<Rightarrow> int \<Rightarrow> int" where
  "c_rem a b = sgn a * (\<bar>a\<bar> mod \<bar>b\<bar>)"

lemma c_rem_nonneg [simp]: "0 \<le> a \<Longrightarrow> 0 < b \<Longrightarrow> c_rem a b = a mod b"
  by (cases "a = 0") (simp_all add: c_rem_def)

section \<open>First-match loops\<close>

text \<open>
  A C loop that returns the first index that satisfies a test is \<^term>\<open>find\<close> over
  the indices.
\<close>

lemma find_upt_Some_iff:
  "find P [0..<n] = Some i \<longleftrightarrow> i < n \<and> P i \<and> (\<forall>j < i. \<not> P j)"
proof -
  have "find P [0..<n] = Some i \<longleftrightarrow>
      (\<exists>k < n. P ([0..<n] ! k) \<and> i = [0..<n] ! k \<and> (\<forall>j < k. \<not> P ([0..<n] ! j)))"
    by (simp add: find_Some_iff)
  also have "\<dots> \<longleftrightarrow> i < n \<and> P i \<and> (\<forall>j < i. \<not> P j)"
    by auto
  finally show ?thesis .
qed

lemma find_upt_None_iff: "find P [0..<n] = None \<longleftrightarrow> (\<forall>i < n. \<not> P i)"
  by (auto simp: find_None_iff)

lemma find_SomeD: "find P xs = Some x \<Longrightarrow> x \<in> set xs \<and> P x"
  by (auto simp: find_Some_iff)

section \<open>Weighted choice\<close>

text \<open>
  Two loops of the program choose an element by walking over weights and accumulating
  them until the accumulator passes a slot number.  Entries of non-positive weight are
  skipped.  The reference is the list in which each element is repeated weight times.
\<close>

fun weighted_scan :: "int \<Rightarrow> int \<Rightarrow> ('a \<times> int) list \<Rightarrow> 'a option" where
  "weighted_scan acc r [] = None"
| "weighted_scan acc r ((x, w) # xs) =
     (if w \<le> 0 then weighted_scan acc r xs
      else if r < acc + w then Some x
      else weighted_scan (acc + w) r xs)"

fun pos_sum :: "int list \<Rightarrow> int" where
  "pos_sum [] = 0"
| "pos_sum (w # ws) = (if w > 0 then w + pos_sum ws else pos_sum ws)"

definition weighted_expand :: "('a \<times> int) list \<Rightarrow> 'a list" where
  "weighted_expand xs = concat (map (\<lambda>(x, w). replicate (nat w) x) xs)"

lemma weighted_expand_simps [simp]:
  "weighted_expand [] = []"
  "weighted_expand ((x, w) # xs) = replicate (nat w) x @ weighted_expand xs"
  by (simp_all add: weighted_expand_def)

lemma pos_sum_nonneg [simp]: "0 \<le> pos_sum ws"
  by (induction ws) auto

lemma length_weighted_expand: "int (length (weighted_expand xs)) = pos_sum (map snd xs)"
  by (induction xs) auto

lemma weighted_scan_expand:
  assumes "acc \<le> r" and "r < acc + pos_sum (map snd xs)"
  shows "weighted_scan acc r xs = Some (weighted_expand xs ! nat (r - acc))"
  using assms
proof (induction xs arbitrary: acc)
  case Nil
  then show ?case by simp
next
  case (Cons p xs)
  obtain x w where p: "p = (x, w)" by (cases p)
  show ?case
  proof (cases "w \<le> 0 \<or> r < acc + w")
    case True
    then show ?thesis using Cons p by (auto simp: nth_append)
  next
    case False
    then have "weighted_scan (acc + w) r xs = Some (weighted_expand xs ! nat (r - (acc + w)))"
      using Cons p by auto
    moreover have "nat (r - acc) - nat w = nat (r - (acc + w))" using False by arith
    ultimately show ?thesis using False p by (simp add: nth_append)
  qed
qed

lemma weighted_scan_mem: "weighted_scan acc r xs = Some x \<Longrightarrow> \<exists>w > 0. (x, w) \<in> set xs"
proof (induction acc r xs rule: weighted_scan.induct)
  case (2 acc r y w xs)
  then show ?case by (cases "w \<le> 0"; cases "r < acc + w") (auto intro: exI [of _ w])
qed simp

lemma count_list_replicate: "count_list (replicate n y) x = (if y = x then n else 0)"
  by (induction n) auto

lemma weighted_expand_count:
  "count_list (weighted_expand xs) x = nat (pos_sum (map snd (filter (\<lambda>p. fst p = x) xs)))"
  by (induction xs) (auto simp: count_list_replicate nat_add_distrib)

section \<open>Chains\<close>

text \<open>
  Walking a singly linked chain and modifying the first entry that satisfies a test: the
  modified entry and the new chain, or nothing when no entry satisfies it.
\<close>

fun upd_first :: "('a \<Rightarrow> bool) \<Rightarrow> ('a \<Rightarrow> 'a) \<Rightarrow> 'a list \<Rightarrow> ('a \<times> 'a list) option" where
  "upd_first P f [] = None"
| "upd_first P f (x # xs) =
     (if P x then Some (f x, f x # xs)
      else map_option (\<lambda>(y, ys). (y, x # ys)) (upd_first P f xs))"

lemma upd_first_None_iff: "upd_first P f xs = None \<longleftrightarrow> (\<forall>x \<in> set xs. \<not> P x)"
  by (induction xs) auto

lemma upd_first_SomeE:
  assumes "upd_first P f xs = Some (y, ys)"
  obtains us x vs where "xs = us @ x # vs" and "\<forall>u \<in> set us. \<not> P u" and "P x"
    and "y = f x" and "ys = us @ f x # vs"
  using assms
proof (induction xs arbitrary: ys thesis)
  case Nil
  then show ?case by simp
next
  case (Cons z zs)
  show ?case
  proof (cases "P z")
    case True
    then show ?thesis using Cons.prems(1) [of "[]" z zs] Cons.prems(2) by auto
  next
    case False
    then obtain ys' where ys: "upd_first P f zs = Some (y, ys')" "ys = z # ys'"
      using Cons.prems(2) by auto
    obtain us x vs where "zs = us @ x # vs" "\<forall>u \<in> set us. \<not> P u" "P x" "y = f x"
      "ys' = us @ f x # vs" by (rule Cons.IH [OF _ ys(1)])
    then show ?thesis using Cons.prems(1) [of "z # us" x vs] False ys(2) by auto
  qed
qed

lemma upd_first_append:
  "\<forall>u \<in> set us. \<not> P u \<Longrightarrow> P x \<Longrightarrow> upd_first P f (us @ x # vs) = Some (f x, us @ f x # vs)"
  by (induction us) auto

lemma upd_first_map_key:
  assumes "upd_first P f xs = Some (y, ys)" and "\<And>x. k (f x) = k x"
  shows "map k ys = map k xs"
  using assms(1) by (rule upd_first_SomeE) (simp add: assms(2))

text \<open>Unlinking the first entry that satisfies a test.\<close>

fun del_first :: "('a \<Rightarrow> bool) \<Rightarrow> 'a list \<Rightarrow> 'a list" where
  "del_first P [] = []"
| "del_first P (x # xs) = (if P x then xs else x # del_first P xs)"

lemma set_del_first_subset: "set (del_first P xs) \<subseteq> set xs"
  by (induction xs) auto

lemma distinct_map_del_first: "distinct (map k xs) \<Longrightarrow> distinct (map k (del_first P xs))"
  using set_del_first_subset [of P] by (induction xs) auto

lemma find_del_first_other:
  "(\<And>x. P x \<Longrightarrow> \<not> Q x) \<Longrightarrow> find Q (del_first P xs) = find Q xs"
  by (induction xs) auto

text \<open>Finding the entry of a key in a chain without duplicate keys.\<close>

lemma find_key_eq_Some:
  "distinct (map k xs) \<Longrightarrow> find (\<lambda>x. k x = a) xs = Some x \<longleftrightarrow> x \<in> set xs \<and> k x = a"
  by (induction xs) (auto simp: rev_image_eqI)

lemma find_key_del_first:
  "distinct (map k xs) \<Longrightarrow> find (\<lambda>x. k x = a) (del_first (\<lambda>x. k x = a) xs) = None"
  by (induction xs) (auto simp: find_None_iff rev_image_eqI)

lemma find_key_upd_first:
  assumes "upd_first (\<lambda>x. k x = a) f xs = Some (y, ys)" and "\<And>x. k (f x) = k x"
  shows "find (\<lambda>x. k x = a) ys = Some y \<and> (\<forall>b. b \<noteq> a \<longrightarrow> find (\<lambda>x. k x = b) ys = find (\<lambda>x. k x = b) xs)"
proof -
  obtain us x vs where "xs = us @ x # vs" "\<forall>u\<in>set us. k u \<noteq> a" "k x = a" "y = f x" "ys = us @ f x # vs"
    using assms(1) by (rule upd_first_SomeE) auto
  then show ?thesis using assms(2) by (induction us arbitrary: xs ys) auto
qed

lemma find_key_filter:
  assumes "distinct (map k xs)"
  shows "find (\<lambda>x. k x = a) (filter P xs) = (case find (\<lambda>x. k x = a) xs of
    None \<Rightarrow> None | Some x \<Rightarrow> if P x then Some x else None)"
  using assms by (induction xs) (auto simp: find_None_iff rev_image_eqI dest!: find_SomeD split: option.split)

end
