(* ===== verification/Config.thy ===== *)
theory Config
  imports Prelude
begin

text \<open>
  The configuration data of \<^verbatim>\<open>inc/config.h\<close> and the selection functions of
  \<^verbatim>\<open>src/db/config.c\<close>: interface lookup, traffic classification against crypto
  policies, weighted choice of a WAN, netmask arithmetic and validation.

  A C array with its element count is the list of the elements in use.  Addresses and
  masks are \<^verbatim>\<open>uint32_t\<close> in network byte order, as in the code.  A pointer into
  \<^verbatim>\<open>cfg->policies\<close> is the index it points at.
\<close>

section \<open>Data\<close>

abbreviation (input) POLICY_ACTION_BYPASS :: int where "POLICY_ACTION_BYPASS \<equiv> 0"
abbreviation (input) POLICY_ACTION_ENCRYPT_L2 :: int where "POLICY_ACTION_ENCRYPT_L2 \<equiv> 2"
abbreviation (input) POLICY_ACTION_ENCRYPT_L3 :: int where "POLICY_ACTION_ENCRYPT_L3 \<equiv> 3"
abbreviation (input) POLICY_ACTION_ENCRYPT_L4 :: int where "POLICY_ACTION_ENCRYPT_L4 \<equiv> 4"
abbreviation (input) POLICY_PROTO_ANY :: byte where "POLICY_PROTO_ANY \<equiv> 0"
abbreviation (input) CRYPTO_MODE_CTR :: int where "CRYPTO_MODE_CTR \<equiv> 0"
abbreviation (input) CRYPTO_MODE_GCM :: int where "CRYPTO_MODE_GCM \<equiv> 1"
abbreviation (input) MAX_CRYPTO_POLICIES :: nat where "MAX_CRYPTO_POLICIES \<equiv> 128"
abbreviation (input) MAX_INTERFACES :: nat where "MAX_INTERFACES \<equiv> 16"

record crypto_policy =
  cp_id :: int
  cp_db_id :: int
  cp_priority :: int
  cp_action :: int
  cp_protocol :: byte
  cp_src_port_from :: int
  cp_src_port_to :: int
  cp_dst_port_from :: int
  cp_dst_port_to :: int
  cp_src_any :: bool
  cp_dst_any :: bool
  cp_src_negate :: bool
  cp_dst_negate :: bool
  cp_src_net :: u32
  cp_src_mask :: u32
  cp_dst_net :: u32
  cp_dst_mask :: u32
  cp_crypto_mode :: int
  cp_aes_bits :: int
  cp_nonce_size :: nat
  cp_key :: buf

record profile_config =
  pr_id :: int
  pr_enabled :: bool
  pr_local_indices :: "int list"
  pr_wan_indices :: "int list"
  pr_wan_bandwidth_weight :: "int list"
  pr_policy_indices :: "int list"

record local_config =
  lc_ifname :: string
  lc_ip :: u32
  lc_netmask :: u32
  lc_network :: u32
  lc_src_mac :: buf
  lc_dst_mac :: buf
  lc_umem_mb :: u32
  lc_ring_size :: u32
  lc_batch_size :: u32
  lc_frame_size :: u32
  lc_queue_count :: int

record wan_config =
  wc_ifname :: string
  wc_dst_ip :: u32
  wc_src_mac :: buf
  wc_dst_mac :: buf
  wc_window_size :: u32
  wc_umem_mb :: u32
  wc_ring_size :: u32
  wc_batch_size :: u32
  wc_frame_size :: u32
  wc_queue_count :: int

record app_config =
  global_frame_size :: u32
  global_batch_size :: u32
  ac_locals :: "local_config list"
  ac_wans :: "wan_config list"
  ac_crypto_enabled :: bool
  ac_crypto_key :: buf
  ac_encrypt_layer :: int
  ac_fake_ethertype_ipv4 :: u16
  ac_fake_protocol :: byte
  ac_crypto_mode :: int
  ac_nonce_size :: nat
  ac_aes_bits :: int
  ac_profiles :: "profile_config list"
  ac_policies :: "crypto_policy list"

section \<open>Netmasks\<close>

definition ipv4_prefix_to_mask_be :: "int \<Rightarrow> u32" where
  "ipv4_prefix_to_mask_be prefix_len =
     (if prefix_len \<le> 0 then 0
      else if prefix_len \<ge> 32 then htonl 0xFFFFFFFF
      else htonl (push_bit (nat (32 - prefix_len)) 0xFFFFFFFF))"

definition ipv4_mask_be_is_contiguous :: "u32 \<Rightarrow> bool" where
  "ipv4_mask_be_is_contiguous mask_be =
     (let m = ntohl mask_be
      in if m = 0 then True
         else let inv = NOT m in (inv AND (inv + 1)) = 0)"

section \<open>Validation\<close>

datatype config_error =
    No_frame_size | No_batch_size
  | Local_no_ifname nat | Local_no_umem nat | Local_no_ring nat | Local_umem_small nat
  | Wan_no_ifname nat | Wan_no_umem nat | Wan_no_ring nat | Wan_no_window nat | Wan_umem_small nat

text \<open>The product is computed in \<^verbatim>\<open>uint32_t\<close> and may wrap around.\<close>

definition min_umem_mb :: "u32 \<Rightarrow> u32 \<Rightarrow> u32" where
  "min_umem_mb ring_size frame_size = (ring_size * 2 * frame_size) div (1024 * 1024)"

definition validate_local :: "nat \<Rightarrow> local_config \<Rightarrow> config_error option" where
  "validate_local i l =
     (if lc_ifname l = '''' then Some (Local_no_ifname i)
      else if lc_umem_mb l = 0 then Some (Local_no_umem i)
      else if lc_ring_size l = 0 then Some (Local_no_ring i)
      else if lc_umem_mb l < min_umem_mb (lc_ring_size l) (lc_frame_size l)
        then Some (Local_umem_small i)
      else None)"

definition validate_wan :: "nat \<Rightarrow> wan_config \<Rightarrow> config_error option" where
  "validate_wan i w =
     (if wc_ifname w = '''' then Some (Wan_no_ifname i)
      else if wc_umem_mb w = 0 then Some (Wan_no_umem i)
      else if wc_ring_size w = 0 then Some (Wan_no_ring i)
      else if wc_window_size w = 0 then Some (Wan_no_window i)
      else if wc_umem_mb w < min_umem_mb (wc_ring_size w) (wc_frame_size w)
        then Some (Wan_umem_small i)
      else None)"

fun first_error :: "(nat \<Rightarrow> 'a \<Rightarrow> 'e option) \<Rightarrow> nat \<Rightarrow> 'a list \<Rightarrow> 'e option" where
  "first_error check i [] = None"
| "first_error check i (x # xs) =
     (case check i x of Some e \<Rightarrow> Some e | None \<Rightarrow> first_error check (Suc i) xs)"

definition config_validate :: "app_config \<Rightarrow> config_error + unit" where
  "config_validate cfg =
     (if global_frame_size cfg = 0 then Inl No_frame_size
      else if global_batch_size cfg = 0 then Inl No_batch_size
      else case first_error validate_local 0 (ac_locals cfg) of
        Some e \<Rightarrow> Inl e
      | None \<Rightarrow> (case first_error validate_wan 0 (ac_wans cfg) of
          Some e \<Rightarrow> Inl e
        | None \<Rightarrow> Inr ()))"

section \<open>Selection\<close>

definition config_find_local_for_ip :: "app_config \<Rightarrow> u32 \<Rightarrow> nat option" where
  "config_find_local_for_ip cfg dest_ip =
     find (\<lambda>i. (dest_ip AND lc_netmask (ac_locals cfg ! i)) = lc_network (ac_locals cfg ! i))
       [0..<length (ac_locals cfg)]"

definition cidr_match_with_negate :: "bool \<Rightarrow> bool \<Rightarrow> u32 \<Rightarrow> u32 \<Rightarrow> u32 \<Rightarrow> bool" where
  "cidr_match_with_negate any_flag negate ip net netmask =
     (if any_flag then True
      else let in_cidr = ((ip AND netmask) = (net AND netmask))
           in if negate then \<not> in_cidr else in_cidr)"

definition config_select_profile_for_local :: "app_config \<Rightarrow> int \<Rightarrow> nat option" where
  "config_select_profile_for_local cfg local_idx =
     (if local_idx < 0 \<or> local_idx \<ge> int (length (ac_locals cfg)) then None
      else find (\<lambda>pi. pr_enabled (ac_profiles cfg ! pi) \<and>
                     local_idx \<in> set (pr_local_indices (ac_profiles cfg ! pi)))
             [0..<length (ac_profiles cfg)])"

definition config_select_profile_for_wan :: "app_config \<Rightarrow> int \<Rightarrow> nat option" where
  "config_select_profile_for_wan cfg wan_idx =
     (if wan_idx < 0 \<or> wan_idx \<ge> int (length (ac_wans cfg)) then None
      else find (\<lambda>pi. pr_enabled (ac_profiles cfg ! pi) \<and>
                     wan_idx \<in> set (pr_wan_indices (ac_profiles cfg ! pi)))
             [0..<length (ac_profiles cfg)])"

definition flow_hash_u32 :: "u32 \<Rightarrow> u32 \<Rightarrow> u16 \<Rightarrow> u16 \<Rightarrow> byte \<Rightarrow> u32" where
  "flow_hash_u32 src_ip dst_ip src_port dst_port protocol =
     (let h = src_ip XOR dst_ip XOR push_bit 16 (ucast src_port) XOR ucast dst_port XOR ucast protocol;
          h = h XOR drop_bit 16 h;
          h = h * 0x7feb352d;
          h = h XOR drop_bit 15 h;
          h = h * 0x846ca68b
      in h XOR drop_bit 16 h)"

definition wan_in_range :: "app_config \<Rightarrow> int \<Rightarrow> int option" where
  "wan_in_range cfg wan_idx =
     (if wan_idx < 0 \<or> wan_idx \<ge> int (length (ac_wans cfg)) then None else Some wan_idx)"

definition config_select_wan_for_profile ::
    "app_config \<Rightarrow> int \<Rightarrow> u32 \<Rightarrow> u32 \<Rightarrow> u16 \<Rightarrow> u16 \<Rightarrow> byte \<Rightarrow> int option" where
  "config_select_wan_for_profile cfg profile_idx src_ip dst_ip src_port dst_port protocol =
     (if profile_idx < 0 \<or> profile_idx \<ge> int (length (ac_profiles cfg)) then None
      else let p = ac_profiles cfg ! nat profile_idx; wans = pr_wan_indices p in
        if wans = [] then None
        else let h = flow_hash_u32 src_ip dst_ip src_port dst_port protocol;
                 sumw = pos_sum (pr_wan_bandwidth_weight p)
             in if sumw \<le> 0 then wan_in_range cfg (wans ! (unat h mod length wans))
                else case weighted_scan 0 (uint h mod sumw) (zip wans (pr_wan_bandwidth_weight p)) of
                       Some w \<Rightarrow> wan_in_range cfg w
                     | None \<Rightarrow> wan_in_range cfg (last wans))"

section \<open>Crypto policies\<close>

definition port_in_range :: "int \<Rightarrow> int \<Rightarrow> u16 \<Rightarrow> bool" where
  "port_in_range from to port =
     (if from \<ge> 0 \<and> to \<ge> 0 then \<not> (uint port < from \<or> uint port > to) else True)"

definition crypto_policy_match_packet ::
    "crypto_policy \<Rightarrow> u32 \<Rightarrow> u32 \<Rightarrow> u16 \<Rightarrow> u16 \<Rightarrow> byte \<Rightarrow> bool" where
  "crypto_policy_match_packet cp src_ip dst_ip src_port dst_port protocol =
     (if \<not> cidr_match_with_negate (cp_src_any cp) (cp_src_negate cp) src_ip (cp_src_net cp) (cp_src_mask cp)
        then False
      else if \<not> cidr_match_with_negate (cp_dst_any cp) (cp_dst_negate cp) dst_ip (cp_dst_net cp) (cp_dst_mask cp)
        then False
      else if \<not> port_in_range (cp_src_port_from cp) (cp_src_port_to cp) src_port then False
      else if \<not> port_in_range (cp_dst_port_from cp) (cp_dst_port_to cp) dst_port then False
      else if cp_protocol cp \<noteq> POLICY_PROTO_ANY \<and> cp_protocol cp \<noteq> protocol then False
      else True)"

text \<open>One pass of the selection loop; pass 0 takes protocol-specific policies, pass 1 the others.\<close>

definition policy_pass_accepts ::
    "app_config \<Rightarrow> nat \<Rightarrow> u32 \<Rightarrow> u32 \<Rightarrow> u16 \<Rightarrow> u16 \<Rightarrow> byte \<Rightarrow> int \<Rightarrow> bool" where
  "policy_pass_accepts cfg pass src_ip dst_ip src_port dst_port protocol pi =
     (if pi < 0 \<or> pi \<ge> int (length (ac_policies cfg)) then False
      else let cp = ac_policies cfg ! nat pi in
        if pass = 0 \<and> cp_protocol cp = POLICY_PROTO_ANY then False
        else if pass \<noteq> 0 \<and> cp_protocol cp \<noteq> POLICY_PROTO_ANY then False
        else crypto_policy_match_packet cp src_ip dst_ip src_port dst_port protocol \<or>
             crypto_policy_match_packet cp dst_ip src_ip dst_port src_port protocol)"

definition config_select_crypto_policy ::
    "app_config \<Rightarrow> int \<Rightarrow> u32 \<Rightarrow> u32 \<Rightarrow> u16 \<Rightarrow> u16 \<Rightarrow> byte \<Rightarrow> nat option" where
  "config_select_crypto_policy cfg profile_idx src_ip dst_ip src_port dst_port protocol =
     (if profile_idx < 0 \<or> profile_idx \<ge> int (length (ac_profiles cfg)) then None
      else let p = ac_profiles cfg ! nat profile_idx in
        case find (policy_pass_accepts cfg 0 src_ip dst_ip src_port dst_port protocol)
               (pr_policy_indices p) of
          Some pi \<Rightarrow> Some (nat pi)
        | None \<Rightarrow> map_option nat
            (find (policy_pass_accepts cfg 1 src_ip dst_ip src_port dst_port protocol)
               (pr_policy_indices p)))"

definition crypto_select_policy_for_local ::
    "app_config \<Rightarrow> int \<Rightarrow> u32 \<Rightarrow> u32 \<Rightarrow> u16 \<Rightarrow> u16 \<Rightarrow> byte \<Rightarrow> nat option" where
  "crypto_select_policy_for_local cfg local_idx src_ip dst_ip src_port dst_port protocol =
     (case config_select_profile_for_local cfg local_idx of
        None \<Rightarrow> None
      | Some pi \<Rightarrow> config_select_crypto_policy cfg (int pi) src_ip dst_ip src_port dst_port protocol)"

section \<open>Facts about the selection functions\<close>

lemma policy_pass_accepts_swap:
  "policy_pass_accepts cfg pass d s dp sp proto = policy_pass_accepts cfg pass s d sp dp proto"
  by (rule ext) (auto simp: policy_pass_accepts_def Let_def)

lemma policy_pass_acceptsD:
  assumes "policy_pass_accepts cfg pass s d sp dp proto pi"
  shows "0 \<le> pi" and "nat pi < length (ac_policies cfg)"
    and "(cp_protocol (ac_policies cfg ! nat pi) = POLICY_PROTO_ANY) = (pass \<noteq> 0)"
    and "crypto_policy_match_packet (ac_policies cfg ! nat pi) s d sp dp proto \<or>
         crypto_policy_match_packet (ac_policies cfg ! nat pi) d s dp sp proto"
  using assms by (auto simp: policy_pass_accepts_def Let_def split: if_splits)

lemma config_select_crypto_policy_cases:
  assumes "config_select_crypto_policy cfg prof s d sp dp proto = Some i"
  obtains (specific) "find (policy_pass_accepts cfg 0 s d sp dp proto)
       (pr_policy_indices (ac_profiles cfg ! nat prof)) = Some (int i)"
  | (wildcard) "find (policy_pass_accepts cfg 0 s d sp dp proto)
       (pr_policy_indices (ac_profiles cfg ! nat prof)) = None"
     "find (policy_pass_accepts cfg 1 s d sp dp proto)
       (pr_policy_indices (ac_profiles cfg ! nat prof)) = Some (int i)"
proof -
  have pos: "int (nat pi) = pi"
    if "find (policy_pass_accepts cfg k s d sp dp proto) xs = Some pi" for pi k xs
    using find_SomeD [OF that] by (auto dest: policy_pass_acceptsD(1))
  show ?thesis using assms that pos
    by (auto simp: config_select_crypto_policy_def Let_def split: if_splits option.splits)
qed

lemma first_error_None_iff:
  "first_error check i xs = None \<longleftrightarrow> (\<forall>k < length xs. check (i + k) (xs ! k) = None)"
proof (induction xs arbitrary: i)
  case Nil
  then show ?case by simp
next
  case (Cons x xs)
  show ?case by (simp add: Cons All_less_Suc2 split: option.split)
qed

lemma config_validate_ok_iff:
  "config_validate cfg = Inr () \<longleftrightarrow>
     global_frame_size cfg \<noteq> 0 \<and> global_batch_size cfg \<noteq> 0 \<and>
     (\<forall>i < length (ac_locals cfg). validate_local i (ac_locals cfg ! i) = None) \<and>
     (\<forall>i < length (ac_wans cfg). validate_wan i (ac_wans cfg ! i) = None)"
  using first_error_None_iff [of validate_local 0 "ac_locals cfg"]
    first_error_None_iff [of validate_wan 0 "ac_wans cfg"]
  by (cases "first_error validate_local 0 (ac_locals cfg)";
      cases "first_error validate_wan 0 (ac_wans cfg)") (simp_all add: config_validate_def)

section \<open>Netmask arithmetic\<close>

lemma trailing_ones:
  fixes x :: u32
  assumes and0: "x AND (x + 1) = 0" and nz: "x \<noteq> - 1"
  obtains k where "k < 32" and "x = mask k"
proof -
  define k where "k = (LEAST n. \<not> bit x n)"
  have "\<not> bit x 32" by (auto dest: bit_imp_le_length)
  then have kbit: "\<not> bit x k" and low: "\<And>n. n < k \<Longrightarrow> bit x n"
    unfolding k_def by (rule LeastI, metis not_less_Least)
  have "k \<le> 32" unfolding k_def by (rule Least_le) (rule \<open>\<not> bit x 32\<close>)
  moreover have "k \<noteq> 32"
  proof
    assume "k = 32"
    then have "x = - 1" by (intro bit_word_eqI) (auto simp: low)
    with nz show False ..
  qed
  ultimately have k32: "k < 32" by simp
  define hi where "hi = x AND NOT (mask (Suc k))"
  have bhi: "bit hi n \<longleftrightarrow> Suc k \<le> n \<and> bit x n" for n
    by (auto simp: hi_def bit_simps dest: bit_imp_le_length)
  have "x = mask k OR hi"
  proof (rule bit_word_eqI)
    fix n assume "n < LENGTH(32)"
    then show "bit x n = bit (mask k OR hi) n"
      using kbit low by (cases n k rule: linorder_cases) (auto simp: bit_simps bhi)
  qed
  also have "\<dots> = mask k + hi"
    by (rule disjunctive_add [symmetric]) (auto simp: bit_simps bhi)
  finally have x: "x = mask k + hi" .
  have "x + 1 = push_bit k 1 + hi"
    by (simp add: x mask_eq_exp_minus_1 push_bit_eq_mult)
  also have "\<dots> = push_bit k 1 OR hi"
    by (rule disjunctive_add) (auto simp: bit_simps bhi)
  finally have x1: "x + 1 = push_bit k 1 OR hi" .
  have "bit (x AND (x + 1)) n" if "bit hi n" for n
    using that by (auto simp: x1 bit_simps bhi)
  then have "hi = 0" using and0 by (intro bit_word_eqI) auto
  with x have "x = mask k" by simp
  with k32 show thesis by (rule that)
qed

lemma prefix_mask_not_mask:
  "k < 32 \<Longrightarrow> k > 0 \<Longrightarrow> ipv4_prefix_to_mask_be (32 - int k) = htonl (NOT (mask k))"
proof -
  assume "k < 32" "k > 0"
  moreover have "(0xFFFFFFFF :: u32) = - 1" by simp
  ultimately show ?thesis
    by (simp only: ipv4_prefix_to_mask_be_def) (simp add: push_bit_minus_one_eq_not_mask)
qed

lemma contiguous_prefix_mask:
  assumes "0 \<le> p" and "p \<le> 32"
  shows "ipv4_mask_be_is_contiguous (ipv4_prefix_to_mask_be p)"
proof -
  consider "p = 0" | "p = 32" | k where "p = 32 - int k" "0 < k" "k < 32"
    using assms that(3) [of "nat (32 - p)"] that(1,2) by fastforce
  then show ?thesis
  proof cases
    case 1
    then show ?thesis
      by (simp add: ipv4_prefix_to_mask_be_def ipv4_mask_be_is_contiguous_def htonl_def host32_def)
  next
    case 2
    then show ?thesis by (simp add: ipv4_prefix_to_mask_be_def ipv4_mask_be_is_contiguous_def)
  next
    case 3
    have "mask k + 1 = (push_bit k 1 :: u32)"
      by (simp add: mask_eq_exp_minus_1 push_bit_eq_mult)
    then have "mask k AND (mask k + 1 :: u32) = 0"
      by (intro bit_word_eqI) (auto simp: bit_simps)
    then show ?thesis
      using 3 by (simp add: prefix_mask_not_mask ipv4_mask_be_is_contiguous_def Let_def)
  qed
qed

text \<open>A netmask in network byte order passes the contiguity test of the configuration
  parser exactly when it is the mask of a prefix length from 0 to 32.\<close>

theorem netmask_contiguous_iff_prefix:
  "ipv4_mask_be_is_contiguous m \<longleftrightarrow> (\<exists>p \<in> {0..32}. m = ipv4_prefix_to_mask_be p)"
proof
  assume c: "ipv4_mask_be_is_contiguous m"
  show "\<exists>p \<in> {0..32}. m = ipv4_prefix_to_mask_be p"
  proof (cases "ntohl m = 0")
    case True
    then have "m = htonl 0" by (metis htonl_htonl)
    then have "m = ipv4_prefix_to_mask_be 0"
      by (simp add: ipv4_prefix_to_mask_be_def htonl_def host32_def)
    then show ?thesis by (intro bexI [of _ 0]) auto
  next
    case False
    then have "NOT (ntohl m) AND (NOT (ntohl m) + 1) = 0" "NOT (ntohl m) \<noteq> - 1"
      using c by (auto simp: ipv4_mask_be_is_contiguous_def Let_def not_eq_complement)
    then obtain k where k: "k < 32" "NOT (ntohl m) = mask k" by (rule trailing_ones)
    then have m: "m = htonl (NOT (mask k))" by (metis bit.double_compl htonl_htonl)
    show ?thesis
    proof (cases "k = 0")
      case True
      then have "m = ipv4_prefix_to_mask_be 32" by (simp add: m ipv4_prefix_to_mask_be_def)
      then show ?thesis by (intro bexI [of _ 32]) auto
    next
      case False
      then have "m = ipv4_prefix_to_mask_be (32 - int k)" using k by (simp add: m prefix_mask_not_mask)
      then show ?thesis using k by (intro bexI [of _ "32 - int k"]) auto
    qed
  qed
qed (auto intro: contiguous_prefix_mask)

section \<open>Policy selection\<close>

text \<open>A policy of the profile's list matches a flow when it covers one of its two directions.\<close>

definition policy_covers :: "app_config \<Rightarrow> u32 \<Rightarrow> u32 \<Rightarrow> u16 \<Rightarrow> u16 \<Rightarrow> byte \<Rightarrow> int \<Rightarrow> bool" where
  "policy_covers cfg s d sp dp proto pi \<longleftrightarrow>
     0 \<le> pi \<and> pi < int (length (ac_policies cfg)) \<and>
     (crypto_policy_match_packet (ac_policies cfg ! nat pi) s d sp dp proto \<or>
      crypto_policy_match_packet (ac_policies cfg ! nat pi) d s dp sp proto)"

definition policy_is_any :: "app_config \<Rightarrow> int \<Rightarrow> bool" where
  "policy_is_any cfg pi \<longleftrightarrow> cp_protocol (ac_policies cfg ! nat pi) = POLICY_PROTO_ANY"

lemma policy_pass_accepts_iff:
  "policy_pass_accepts cfg pass s d sp dp proto pi \<longleftrightarrow>
     policy_covers cfg s d sp dp proto pi \<and> policy_is_any cfg pi = (pass \<noteq> 0)"
  by (auto simp: policy_pass_accepts_def policy_covers_def policy_is_any_def Let_def)

lemma find_Some_pos:
  "find P xs = Some x \<longleftrightarrow> (\<exists>k < length xs. xs ! k = x \<and> P x \<and> (\<forall>j < k. \<not> P (xs ! j)))"
  by (auto simp: find_Some_iff)

definition sample_policy :: crypto_policy where
  "sample_policy = \<lparr>cp_id = 7, cp_db_id = 1, cp_priority = 1, cp_action = POLICY_ACTION_ENCRYPT_L3,
     cp_protocol = 6, cp_src_port_from = -1, cp_src_port_to = -1, cp_dst_port_from = 80,
     cp_dst_port_to = 90, cp_src_any = True, cp_dst_any = True, cp_src_negate = False,
     cp_dst_negate = False, cp_src_net = 0, cp_src_mask = 0, cp_dst_net = 0, cp_dst_mask = 0,
     cp_crypto_mode = CRYPTO_MODE_GCM, cp_aes_bits = 128, cp_nonce_size = 12,
     cp_key = replicate 32 1\<rparr>"

definition sample_local :: local_config where
  "sample_local = \<lparr>lc_ifname = ''lan0'', lc_ip = 0x0101A8C0, lc_netmask = 0x00FFFFFF,
     lc_network = 0x0001A8C0, lc_src_mac = replicate 6 2, lc_dst_mac = replicate 6 0,
     lc_umem_mb = 2048, lc_ring_size = 262144, lc_batch_size = 64, lc_frame_size = 4096,
     lc_queue_count = 1\<rparr>"

definition sample_wan :: wan_config where
  "sample_wan = \<lparr>wc_ifname = ''wan0'', wc_dst_ip = 0x0200000A, wc_src_mac = replicate 6 4,
     wc_dst_mac = replicate 6 0, wc_window_size = 1000000, wc_umem_mb = 256,
     wc_ring_size = 32768, wc_batch_size = 64, wc_frame_size = 4096, wc_queue_count = 1\<rparr>"

definition sample_profile :: profile_config where
  "sample_profile = \<lparr>pr_id = 1, pr_enabled = True, pr_local_indices = [0],
     pr_wan_indices = [0, 1], pr_wan_bandwidth_weight = [3, 1], pr_policy_indices = [0, 1]\<rparr>"

definition sample_cfg :: app_config where
  "sample_cfg = \<lparr>global_frame_size = 4096, global_batch_size = 64, ac_locals = [sample_local],
     ac_wans = [sample_wan, sample_wan\<lparr>wc_ifname := ''wan1''\<rparr>], ac_crypto_enabled = True,
     ac_crypto_key = replicate 32 1, ac_encrypt_layer = 3, ac_fake_ethertype_ipv4 = 0x88b5,
     ac_fake_protocol = 99, ac_crypto_mode = CRYPTO_MODE_GCM, ac_nonce_size = 12, ac_aes_bits = 128,
     ac_profiles = [sample_profile],
     ac_policies = [sample_policy, sample_policy\<lparr>cp_id := 8, cp_protocol := 0,
        cp_action := POLICY_ACTION_BYPASS\<rparr>]\<rparr>"

lemmas sample_defs = sample_cfg_def sample_profile_def sample_wan_def sample_local_def sample_policy_def

text \<open>Both directions of a flow select the same crypto policy.\<close>

theorem policy_selection_symmetric:
  "config_select_crypto_policy cfg prof d s dp sp proto =
   config_select_crypto_policy cfg prof s d sp dp proto"
  unfolding config_select_crypto_policy_def policy_pass_accepts_swap [of cfg 0 d s dp sp proto]
    policy_pass_accepts_swap [of cfg 1 d s dp sp proto] by (rule refl)



section \<open>Weighted WAN choice\<close>

text \<open>With usable weights, the WAN chosen for a flow is the entry of the weight-expanded
  WAN list at the flow hash modulo the weight sum: a WAN of the profile that has a positive
  weight, and a share of the hash space proportional to it.\<close>

theorem select_wan_for_profile_weighted:
  assumes "0 \<le> prof" and "prof < int (length (ac_profiles cfg))"
  defines "p \<equiv> ac_profiles cfg ! nat prof"
  assumes len: "length (pr_wan_bandwidth_weight p) = length (pr_wan_indices p)"
    and range: "\<forall>w \<in> set (pr_wan_indices p). 0 \<le> w \<and> w < int (length (ac_wans cfg))"
    and pos: "pos_sum (pr_wan_bandwidth_weight p) > 0"
  shows "\<exists>w. config_select_wan_for_profile cfg prof s d sp dp proto = Some w \<and>
    w = weighted_expand (zip (pr_wan_indices p) (pr_wan_bandwidth_weight p)) !
          nat (uint (flow_hash_u32 s d sp dp proto) mod pos_sum (pr_wan_bandwidth_weight p)) \<and>
    (\<exists>k > 0. (w, k) \<in> set (zip (pr_wan_indices p) (pr_wan_bandwidth_weight p)))"
proof -
  let ?xs = "zip (pr_wan_indices p) (pr_wan_bandwidth_weight p)"
  let ?h = "flow_hash_u32 s d sp dp proto" and ?sum = "pos_sum (pr_wan_bandwidth_weight p)"
  have snds: "map snd ?xs = pr_wan_bandwidth_weight p" using len by simp
  have scan: "weighted_scan 0 (uint ?h mod ?sum) ?xs
      = Some (weighted_expand ?xs ! nat (uint ?h mod ?sum))" (is "_ = Some ?w")
    using weighted_scan_expand [of 0 "uint ?h mod ?sum" ?xs] pos by (simp add: snds)
  obtain k where k: "k > 0" "(?w, k) \<in> set ?xs" using weighted_scan_mem [OF scan] by blast
  from k(2) have "?w \<in> set (pr_wan_indices p)" by (rule set_zip_leftD)
  then have "wan_in_range cfg ?w = Some ?w" using range by (auto simp: wan_in_range_def)
  moreover have "pr_wan_indices p \<noteq> []" using k by auto
  ultimately have "config_select_wan_for_profile cfg prof s d sp dp proto = Some ?w"
    using assms(1,2) pos scan by (simp add: config_select_wan_for_profile_def p_def Let_def)
  with k show ?thesis by blast
qed

theorem select_wan_for_profile_weighted_witness:
  "\<exists>w. config_select_wan_for_profile sample_cfg 0 1 2 3 4 6 = Some w \<and> w \<in> {0, 1}"
  using select_wan_for_profile_weighted [of 0 sample_cfg 1 2 3 4 6]
  by (auto simp: sample_defs)

section \<open>Validation\<close>

text \<open>A validated local interface has the memory its ring needs, as long as the product
  of ring and frame size fits in 32 bits.\<close>

theorem config_validate_local_memory:
  assumes "config_validate cfg = Inr ()" and "i < length (ac_locals cfg)"
  defines "l \<equiv> ac_locals cfg ! i"
  assumes fits: "unat (lc_ring_size l) * 2 * unat (lc_frame_size l) < 2 ^ 32"
  shows "unat (lc_ring_size l) * 2 * unat (lc_frame_size l) div 2 ^ 20 \<le> unat (lc_umem_mb l)
    \<and> lc_ifname l \<noteq> '''' \<and> 0 < lc_ring_size l"
proof -
  have ok: "validate_local i l = None" using assms by (simp add: config_validate_ok_iff)
  have "unat (lc_ring_size l * 2 * lc_frame_size l) =
      unat (lc_ring_size l) * 2 * unat (lc_frame_size l)"
    using fits by (simp add: unat_word_ariths mod_mult_left_eq)
  then have "unat (min_umem_mb (lc_ring_size l) (lc_frame_size l)) =
      unat (lc_ring_size l) * 2 * unat (lc_frame_size l) div 2 ^ 20"
    by (simp add: min_umem_mb_def unat_div)
  moreover have "min_umem_mb (lc_ring_size l) (lc_frame_size l) \<le> lc_umem_mb l"
    and "lc_ifname l \<noteq> ''''" and "lc_ring_size l \<noteq> 0"
    using ok by (auto simp: validate_local_def split: if_splits)
  ultimately show ?thesis by (auto simp: word_le_nat_alt word_neq_0_conv)
qed

theorem config_validate_local_memory_witness:
  "config_validate sample_cfg = Inr () \<and>
   unat (262144 :: u32) * 2 * unat (4096 :: u32) div 2 ^ 20 \<le> unat (2048 :: u32)"
proof -
  have ok: "config_validate sample_cfg = Inr ()"
    by (simp add: config_validate_def sample_defs validate_local_def validate_wan_def
        min_umem_mb_def)
  show ?thesis
    using config_validate_local_memory [OF ok, of 0] ok by (simp add: sample_defs)
qed

text \<open>Without that bound the check wraps around: a ring that needs 4096 megabytes is accepted
  with one.\<close>

theorem config_validate_memory_wraps:
  "config_validate (sample_cfg\<lparr>ac_locals :=
     [sample_local\<lparr>lc_ring_size := 524288, lc_umem_mb := 1\<rparr>]\<rparr>) = Inr () \<and>
   unat (524288 :: u32) * 2 * unat (4096 :: u32) div 2 ^ 20 = 4096"
  by (simp add: config_validate_def sample_defs validate_local_def validate_wan_def
      min_umem_mb_def)

end
