(* ===== verification/FlowTable.thy ===== *)
theory FlowTable
  imports Config
begin

text \<open>
  The flow table of \<^verbatim>\<open>src/core/flow_table.c\<close>: a chained hash table that gives every flow a
  WAN, moves it to another one when its byte window is used up, and forgets idle flows;
  and the weighted round-robin that spreads packets without a table.

  A bucket is the list of its chain, head first.  Every operation runs under the lock of
  the bucket it works on, so an operation is one step on the state.  The clock, the
  success of \<^verbatim>\<open>malloc\<close> and the address of the counters are inputs or fields of the state.
  A result \<^term>\<open>None\<close> stands for undefined behaviour.
\<close>

section \<open>State\<close>

abbreviation (input) FLOW_TABLE_SIZE :: nat where "FLOW_TABLE_SIZE \<equiv> 16384"
abbreviation (input) FLOW_TIMEOUT_SEC :: u64 where "FLOW_TIMEOUT_SEC \<equiv> 60"

record flow_key =
  fk_src_ip :: u32
  fk_dst_ip :: u32
  fk_src_port :: u16
  fk_dst_port :: u16
  fk_protocol :: byte

record flow_entry =
  fe_key :: flow_key
  fe_byte_count :: u32
  fe_current_wan :: int
  fe_wrr_slot :: int
  fe_last_seen :: u64
  fe_valid :: bool
  fe_ip_only_key :: bool
  fe_profile_wan_pool :: bool

record flow_table =
  ft_buckets :: "nat \<Rightarrow> flow_entry list"
  ft_wan_count :: int
  ft_wan_window_sizes :: "u32 list"
  ft_next_wan :: u32
  ft_pkt_wrr_seq :: u64

section \<open>Keys and hashes\<close>

definition normalize_flow_5tuple :: "u32 \<Rightarrow> u32 \<Rightarrow> u16 \<Rightarrow> u16 \<Rightarrow> u32 \<times> u32 \<times> u16 \<times> u16" where
  "normalize_flow_5tuple src_ip dst_ip src_port dst_port =
     (let a = ntohl src_ip; b = ntohl dst_ip
      in if a > b \<or> (a = b \<and> src_port > dst_port)
         then (dst_ip, src_ip, dst_port, src_port)
         else (src_ip, dst_ip, src_port, dst_port))"

definition normalize_flow_ips :: "u32 \<Rightarrow> u32 \<Rightarrow> u32 \<times> u32" where
  "normalize_flow_ips src_ip dst_ip =
     (let a = ntohl src_ip; b = ntohl dst_ip
      in if a > b then (dst_ip, src_ip) else (src_ip, dst_ip))"

definition flow_hash :: "u32 \<Rightarrow> u32 \<Rightarrow> u16 \<Rightarrow> u16 \<Rightarrow> byte \<Rightarrow> nat" where
  "flow_hash src_ip dst_ip src_port dst_port protocol =
     (let hash = src_ip XOR dst_ip;
          hash = hash XOR (push_bit 16 (ucast src_port) OR ucast dst_port);
          hash = hash XOR ucast protocol;
          hash = hash XOR drop_bit 16 hash;
          hash = hash * 0x85ebca6b;
          hash = hash XOR drop_bit 13 hash;
          hash = hash * 0xc2b2ae35;
          hash = hash XOR drop_bit 16 hash
      in unat hash mod FLOW_TABLE_SIZE)"

definition flow_hash_ips :: "u32 \<Rightarrow> u32 \<Rightarrow> nat" where
  "flow_hash_ips src_ip dst_ip =
     (let hash = src_ip XOR dst_ip;
          hash = hash XOR drop_bit 16 hash;
          hash = hash * 0x85ebca6b;
          hash = hash XOR drop_bit 13 hash;
          hash = hash * 0xc2b2ae35;
          hash = hash XOR drop_bit 16 hash
      in unat hash mod FLOW_TABLE_SIZE)"

section \<open>Setting up and tearing down\<close>

definition flow_table_init :: "u32 list option \<Rightarrow> int \<Rightarrow> u32 \<Rightarrow> flow_table" where
  "flow_table_init wan_window_sizes wan_count next_wan =
     \<lparr>ft_buckets = (\<lambda>_. []), ft_wan_count = wan_count,
      ft_wan_window_sizes = (case wan_window_sizes of
          None \<Rightarrow> replicate MAX_INTERFACES 0 | Some ws \<Rightarrow> take MAX_INTERFACES ws),
      ft_next_wan = next_wan, ft_pkt_wrr_seq = 0\<rparr>"

definition flow_table_cleanup :: "flow_table \<Rightarrow> flow_table" where
  "flow_table_cleanup ft = ft\<lparr>ft_buckets := (\<lambda>i. if i < FLOW_TABLE_SIZE then [] else ft_buckets ft i)\<rparr>"

section \<open>Choosing a WAN\<close>

text \<open>
  \<^verbatim>\<open>next_wan\<close> is a signed counter; negating its least value overflows.
\<close>

definition get_next_wan :: "int \<Rightarrow> flow_table \<Rightarrow> (int \<times> flow_table) option" where
  "get_next_wan wan_count ft =
     (if wan_count \<le> 0 then Some (0, ft)
      else let wan = sint (ft_next_wan ft); ft = ft\<lparr>ft_next_wan := ft_next_wan ft + 1\<rparr>
        in if wan = - (2 ^ 31) then None
           else let wan = (if wan < 0 then - wan else wan)
             in Some (c_rem wan wan_count, ft))"

definition cur_limit :: "flow_table \<Rightarrow> int \<Rightarrow> u32" where
  "cur_limit ft w =
     (if 0 \<le> w \<and> w < ft_wan_count ft then ft_wan_window_sizes ft ! nat w else 0)"

definition get_wan_touch :: "flow_table \<Rightarrow> u64 \<Rightarrow> u32 \<Rightarrow> flow_entry \<Rightarrow> flow_entry" where
  "get_wan_touch ft now pkt_len e =
     (let e = e\<lparr>fe_last_seen := now, fe_byte_count := fe_byte_count e + pkt_len\<rparr>;
          limit = cur_limit ft (fe_current_wan e)
      in if limit > 0 \<and> fe_byte_count e \<ge> limit
         then e\<lparr>fe_byte_count := 0,
                fe_current_wan := c_rem (fe_current_wan e + 1) (ft_wan_count ft)\<rparr>
         else e)"

definition ip_entry_matches :: "u32 \<Rightarrow> u32 \<Rightarrow> flow_entry \<Rightarrow> bool" where
  "ip_entry_matches src_ip dst_ip e \<longleftrightarrow>
     fe_ip_only_key e \<and> fk_src_ip (fe_key e) = src_ip \<and> fk_dst_ip (fe_key e) = dst_ip"

definition flow_table_get_wan ::
    "u64 \<Rightarrow> bool \<Rightarrow> flow_table \<Rightarrow> u32 \<Rightarrow> u32 \<Rightarrow> u16 \<Rightarrow> u16 \<Rightarrow> byte \<Rightarrow> u32 \<Rightarrow> (int \<times> flow_table) option" where
  "flow_table_get_wan now malloc_ok ft src_ip dst_ip src_port dst_port protocol pkt_len =
     (let (src_ip, dst_ip) = normalize_flow_ips src_ip dst_ip;
          idx = flow_hash_ips src_ip dst_ip
      in case upd_first (ip_entry_matches src_ip dst_ip) (get_wan_touch ft now pkt_len)
                (ft_buckets ft idx) of
           Some (e, chain) \<Rightarrow>
             Some (fe_current_wan e, ft\<lparr>ft_buckets := (ft_buckets ft)(idx := chain)\<rparr>)
         | None \<Rightarrow>
             if \<not> malloc_ok then Some (0, ft)
             else do {
               (w, ft) \<leftarrow> get_next_wan (ft_wan_count ft) ft;
               let e = \<lparr>fe_key = \<lparr>fk_src_ip = src_ip, fk_dst_ip = dst_ip, fk_src_port = src_port,
                          fk_dst_port = dst_port, fk_protocol = protocol\<rparr>,
                        fe_byte_count = pkt_len, fe_current_wan = w, fe_wrr_slot = 0,
                        fe_last_seen = now, fe_valid = True, fe_ip_only_key = True,
                        fe_profile_wan_pool = False\<rparr>;
               Some (w, ft\<lparr>ft_buckets := (ft_buckets ft)(idx := e # ft_buckets ft idx)\<rparr>)
             })"

section \<open>Weighted round-robin\<close>

definition wan_allowed_pos :: "int \<Rightarrow> int list \<Rightarrow> nat option" where
  "wan_allowed_pos wan_idx allowed_wans =
     find (\<lambda>i. allowed_wans ! i = wan_idx) [0..<length allowed_wans]"

text \<open>A null weight array is \<^term>\<open>None\<close>.\<close>

definition weights_sum_positive :: "int list option \<Rightarrow> int" where
  "weights_sum_positive allowed_weights =
     (case allowed_weights of None \<Rightarrow> 0 | Some ws \<Rightarrow> pos_sum ws)"

definition wrr_slot_to_wan :: "int \<Rightarrow> int list \<Rightarrow> int list option \<Rightarrow> int \<Rightarrow> int" where
  "wrr_slot_to_wan slot allowed_wans allowed_weights sumw =
     (case allowed_weights of
        None \<Rightarrow> if allowed_wans = [] then 0 else hd allowed_wans
      | Some weights \<Rightarrow>
          if allowed_wans = [] then 0
          else if sumw \<le> 0 then hd allowed_wans
          else let s = c_rem (c_rem slot sumw + sumw) sumw
            in case weighted_scan 0 s (zip allowed_wans weights) of
                 Some w \<Rightarrow> w
               | None \<Rightarrow> last allowed_wans)"

definition flow_table_pick_wan_per_packet ::
    "flow_table \<Rightarrow> int list \<Rightarrow> int list option \<Rightarrow> int \<times> flow_table" where
  "flow_table_pick_wan_per_packet ft allowed_wans allowed_weights =
     (if allowed_wans = [] then (0, ft)
      else if length allowed_wans = 1 then (allowed_wans ! 0, ft)
      else let sumw = weights_sum_positive allowed_weights;
               n = ft_pkt_wrr_seq ft;
               ft = ft\<lparr>ft_pkt_wrr_seq := n + 1\<rparr>
        in if sumw > 0
           then (wrr_slot_to_wan (uint n mod sumw) allowed_wans allowed_weights sumw, ft)
           else (allowed_wans ! (unat n mod length allowed_wans), ft))"

section \<open>Flows pinned to a profile's WAN pool\<close>

definition exact_key_matches :: "u32 \<Rightarrow> u32 \<Rightarrow> u16 \<Rightarrow> u16 \<Rightarrow> byte \<Rightarrow> flow_entry \<Rightarrow> bool" where
  "exact_key_matches src_ip dst_ip src_port dst_port protocol e \<longleftrightarrow>
     fk_src_ip (fe_key e) = src_ip \<and> fk_dst_ip (fe_key e) = dst_ip \<and>
     fk_src_port (fe_key e) = src_port \<and> fk_dst_port (fe_key e) = dst_port \<and>
     fk_protocol (fe_key e) = protocol"

definition profile_touch ::
    "flow_table \<Rightarrow> u64 \<Rightarrow> u32 \<Rightarrow> int list \<Rightarrow> int list option \<Rightarrow> flow_entry \<Rightarrow> flow_entry" where
  "profile_touch ft now pkt_len allowed_wans allowed_weights e =
     (let e = (case wan_allowed_pos (fe_current_wan e) allowed_wans of
                 None \<Rightarrow> e\<lparr>fe_current_wan := allowed_wans ! 0, fe_byte_count := 0, fe_wrr_slot := 0\<rparr>
               | Some _ \<Rightarrow> e);
          e = e\<lparr>fe_last_seen := now, fe_byte_count := fe_byte_count e + pkt_len\<rparr>;
          limit = cur_limit ft (fe_current_wan e);
          sumw = weights_sum_positive allowed_weights
      in if limit > 0 \<and> fe_byte_count e \<ge> limit
         then let e = e\<lparr>fe_byte_count := 0\<rparr>
           in if sumw > 0
              then let slot = c_rem (fe_wrr_slot e + 1) sumw
                in e\<lparr>fe_wrr_slot := slot,
                     fe_current_wan := wrr_slot_to_wan slot allowed_wans allowed_weights sumw\<rparr>
              else let pos = (case wan_allowed_pos (fe_current_wan e) allowed_wans of
                                None \<Rightarrow> 0 | Some i \<Rightarrow> i)
                in e\<lparr>fe_current_wan := allowed_wans ! ((pos + 1) mod length allowed_wans)\<rparr>
         else e)"

definition flow_table_get_wan_profile ::
    "u64 \<Rightarrow> bool \<Rightarrow> flow_table \<Rightarrow> u32 \<Rightarrow> u32 \<Rightarrow> u16 \<Rightarrow> u16 \<Rightarrow> byte \<Rightarrow> u32 \<Rightarrow>
     int list \<Rightarrow> int list option \<Rightarrow> (int \<times> flow_table) option" where
  "flow_table_get_wan_profile now malloc_ok ft src_ip dst_ip src_port dst_port protocol pkt_len
       allowed_wans allowed_weights =
     (if allowed_wans = []
        then flow_table_get_wan now malloc_ok ft src_ip dst_ip src_port dst_port protocol pkt_len
      else if length allowed_wans = 1 then Some (allowed_wans ! 0, ft)
      else let (src_ip, dst_ip, src_port, dst_port) =
                 normalize_flow_5tuple src_ip dst_ip src_port dst_port;
               idx = flow_hash src_ip dst_ip src_port dst_port protocol
      in case upd_first (\<lambda>e. \<not> fe_ip_only_key e \<and> fe_profile_wan_pool e \<and>
                            exact_key_matches src_ip dst_ip src_port dst_port protocol e)
                (profile_touch ft now pkt_len allowed_wans allowed_weights)
                (ft_buckets ft idx) of
           Some (e, chain) \<Rightarrow>
             Some (fe_current_wan e, ft\<lparr>ft_buckets := (ft_buckets ft)(idx := chain)\<rparr>)
         | None \<Rightarrow>
             if \<not> malloc_ok then Some (0, ft)
             else let sumw = weights_sum_positive allowed_weights
               in do {
                 (slot, w, ft) \<leftarrow>
                   (if sumw > 0
                    then let slot = int idx mod sumw
                      in Some (slot, wrr_slot_to_wan slot allowed_wans allowed_weights sumw, ft)
                    else do {
                      (pick, ft) \<leftarrow> get_next_wan (int (length allowed_wans)) ft;
                      let pick = (if pick < 0 then 0 else pick);
                      Some (0, allowed_wans ! (nat pick mod length allowed_wans), ft)
                    });
                 let e = \<lparr>fe_key = \<lparr>fk_src_ip = src_ip, fk_dst_ip = dst_ip, fk_src_port = src_port,
                            fk_dst_port = dst_port, fk_protocol = protocol\<rparr>,
                          fe_byte_count = pkt_len, fe_current_wan = w, fe_wrr_slot = slot,
                          fe_last_seen = now, fe_valid = True, fe_ip_only_key = False,
                          fe_profile_wan_pool = True\<rparr>;
                 Some (w, ft\<lparr>ft_buckets := (ft_buckets ft)(idx := e # ft_buckets ft idx)\<rparr>)
               })"

section \<open>Accounting for extra bytes, and garbage collection\<close>

definition add_bytes_exact :: "flow_table \<Rightarrow> u32 \<Rightarrow> flow_entry \<Rightarrow> flow_entry" where
  "add_bytes_exact ft extra_bytes e =
     (let e = e\<lparr>fe_byte_count := fe_byte_count e + extra_bytes\<rparr>
      in if fe_profile_wan_pool e then e
         else let limit = cur_limit ft (fe_current_wan e)
           in if limit > 0 \<and> fe_byte_count e \<ge> limit
              then e\<lparr>fe_byte_count := 0,
                     fe_current_wan := c_rem (fe_current_wan e + 1) (ft_wan_count ft)\<rparr>
              else e)"

definition add_bytes_ip :: "u32 \<Rightarrow> flow_entry \<Rightarrow> flow_entry" where
  "add_bytes_ip extra_bytes e = e\<lparr>fe_byte_count := fe_byte_count e + extra_bytes\<rparr>"

text \<open>The walk over a bucket that holds both kinds of entries; it stops at the exact match.\<close>

fun add_bytes_walk ::
    "flow_table \<Rightarrow> u32 \<Rightarrow> u32 \<Rightarrow> u16 \<Rightarrow> u16 \<Rightarrow> byte \<Rightarrow> u32 \<Rightarrow> flow_entry list \<Rightarrow> flow_entry list" where
  "add_bytes_walk ft s d sp dp proto extra [] = []"
| "add_bytes_walk ft s d sp dp proto extra (e # es) =
     (if fe_ip_only_key e then
        (if ip_entry_matches s d e then add_bytes_ip extra e else e) #
          add_bytes_walk ft s d sp dp proto extra es
      else if exact_key_matches s d sp dp proto e then add_bytes_exact ft extra e # es
      else e # add_bytes_walk ft s d sp dp proto extra es)"

definition flow_table_add_bytes ::
    "flow_table \<Rightarrow> u32 \<Rightarrow> u32 \<Rightarrow> u16 \<Rightarrow> u16 \<Rightarrow> byte \<Rightarrow> u32 \<Rightarrow> flow_table" where
  "flow_table_add_bytes ft src_ip dst_ip src_port dst_port protocol extra_bytes =
     (let (s, d, sp, dp) = normalize_flow_5tuple src_ip dst_ip src_port dst_port;
          idx_exact = flow_hash s d sp dp protocol;
          idx_ip = flow_hash_ips s d
      in if idx_exact = idx_ip
         then ft\<lparr>ft_buckets := (ft_buckets ft)(idx_exact :=
                add_bytes_walk ft s d sp dp protocol extra_bytes (ft_buckets ft idx_exact))\<rparr>
         else
           let ft = (case upd_first (\<lambda>e. \<not> fe_ip_only_key e \<and> exact_key_matches s d sp dp protocol e)
                       (add_bytes_exact ft extra_bytes) (ft_buckets ft idx_exact) of
                       Some (_, chain) \<Rightarrow> ft\<lparr>ft_buckets := (ft_buckets ft)(idx_exact := chain)\<rparr>
                     | None \<Rightarrow> ft)
           in (case upd_first (ip_entry_matches s d) (add_bytes_ip extra_bytes)
                      (ft_buckets ft idx_ip) of
                 Some (_, chain) \<Rightarrow> ft\<lparr>ft_buckets := (ft_buckets ft)(idx_ip := chain)\<rparr>
               | None \<Rightarrow> ft))"

definition flow_table_gc :: "u64 \<Rightarrow> flow_table \<Rightarrow> flow_table" where
  "flow_table_gc now ft =
     ft\<lparr>ft_buckets := (\<lambda>i. if i < FLOW_TABLE_SIZE
          then filter (\<lambda>e. \<not> (now - fe_last_seen e > FLOW_TIMEOUT_SEC)) (ft_buckets ft i)
          else ft_buckets ft i)\<rparr>"

section \<open>Normalisation\<close>

lemma normalize_flow_5tuple_swap:
  "normalize_flow_5tuple d s dp sp = normalize_flow_5tuple s d sp dp"
  by (cases "ntohl s" "ntohl d" rule: linorder_cases; cases sp dp rule: linorder_cases)
     (auto simp: normalize_flow_5tuple_def Let_def)

lemma normalize_flow_ips_swap: "normalize_flow_ips d s = normalize_flow_ips s d"
  by (cases "ntohl s" "ntohl d" rule: linorder_cases) (auto simp: normalize_flow_ips_def Let_def)

text \<open>Once a profile has WANs, a packet of a flow and a packet of its reverse direction are
  handled by the same table entry: same WAN, same new table.\<close>

theorem get_wan_profile_symmetric:
  assumes "allowed \<noteq> []"
  shows "flow_table_get_wan_profile now ok ft d s dp sp proto len allowed weights =
         flow_table_get_wan_profile now ok ft s d sp dp proto len allowed weights"
  using assms by (simp add: flow_table_get_wan_profile_def normalize_flow_5tuple_swap [of d s dp sp])

theorem get_wan_profile_symmetric_witness:
  "flow_table_get_wan_profile 5 True (flow_table_init None 2 0) 9 8 7 6 17 100 [0, 1] (Some [1, 1]) =
   flow_table_get_wan_profile 5 True (flow_table_init None 2 0) 8 9 6 7 17 100 [0, 1] (Some [1, 1])"
  by (rule get_wan_profile_symmetric) simp

section \<open>The table as a map from flows to entries\<close>

text \<open>The entry that an address pair finds, ignoring ports: the abstraction of the table.\<close>

definition flow_abs :: "flow_table \<Rightarrow> u32 \<times> u32 \<Rightarrow> flow_entry option" where
  "flow_abs ft k = find (ip_entry_matches (fst k) (snd k)) (ft_buckets ft (flow_hash_ips (fst k) (snd k)))"

lemma get_wan_touch_frame [simp]:
  "fe_key (get_wan_touch ft now len e) = fe_key e"
  "fe_ip_only_key (get_wan_touch ft now len e) = fe_ip_only_key e"
  "fe_last_seen (get_wan_touch ft now len e) = now"
  by (simp_all add: get_wan_touch_def Let_def)

lemma find_upd_other:
  assumes "upd_first P f xs = Some (y, ys)" and "\<And>x. P x \<Longrightarrow> \<not> Q x \<and> \<not> Q (f x)"
  shows "find Q ys = find Q xs"
  using assms(1)
proof (rule upd_first_SomeE)
  fix us x vs assume "xs = us @ x # vs" "P x" "ys = us @ f x # vs"
  then show ?thesis using assms(2) by (induction us arbitrary: xs ys) auto
qed

lemma find_upd_same:
  assumes "upd_first P f xs = Some (y, ys)" and "\<And>x. P x \<Longrightarrow> P (f x)"
  shows "find P ys = Some y \<and> (\<exists>x. find P xs = Some x \<and> y = f x)"
  using assms(1)
proof (rule upd_first_SomeE)
  fix us x vs assume "xs = us @ x # vs" "\<forall>u \<in> set us. \<not> P u" "P x" "y = f x" "ys = us @ f x # vs"
  then show ?thesis using assms(2) by (induction us arbitrary: xs ys) auto
qed

lemma ip_entry_matches_touch [simp]:
  "ip_entry_matches s d (get_wan_touch ft now len e) = ip_entry_matches s d e"
  by (simp add: ip_entry_matches_def)

lemma ip_entry_matches_unique:
  "ip_entry_matches s d e \<Longrightarrow> ip_entry_matches s' d' e \<longleftrightarrow> s' = s \<and> d' = d"
  by (auto simp: ip_entry_matches_def)

definition fresh_ip_entry :: "u64 \<Rightarrow> u32 \<Rightarrow> flow_entry \<Rightarrow> bool" where
  "fresh_ip_entry now len e \<longleftrightarrow>
     fe_byte_count e = len \<and> fe_last_seen e = now \<and> fe_valid e \<and> fe_ip_only_key e"

lemma get_next_wan_SomeD:
  assumes "get_next_wan n ft = Some (w, ft')"
  shows "ft_buckets ft' = ft_buckets ft" and "ft_wan_count ft' = ft_wan_count ft"
    and "ft_wan_window_sizes ft' = ft_wan_window_sizes ft"
    and "0 < n \<Longrightarrow> 0 \<le> w \<and> w < n"
  using assms by (auto simp: get_next_wan_def Let_def split: if_splits)

text \<open>C9: Looking a flow up in the table is an update of one entry of the abstract map: the
  flow's entry is created with the packet's bytes or touched, its WAN is returned, and no
  other flow is affected.\<close>

theorem get_wan_refines_map:
  assumes "flow_table_get_wan now True ft s d sp dp proto len = Some (w, ft')"
  defines "k \<equiv> normalize_flow_ips s d"
  shows "\<exists>e. flow_abs ft' = (flow_abs ft)(k \<mapsto> e) \<and> w = fe_current_wan e \<and>
    (case flow_abs ft k of
       Some e0 \<Rightarrow> e = get_wan_touch ft now len e0
     | None \<Rightarrow> fresh_ip_entry now len e)"
proof -
  obtain a b where k: "k = (a, b)" by (cases k)
  let ?i = "flow_hash_ips a b" and ?P = "ip_entry_matches a b"
  note def = flow_table_get_wan_def k [unfolded k_def]
  show ?thesis
  proof (cases "upd_first ?P (get_wan_touch ft now len) (ft_buckets ft ?i)")
    case (Some r)
    then obtain e ch where r: "upd_first ?P (get_wan_touch ft now len) (ft_buckets ft ?i) = Some (e, ch)"
      by (cases r) auto
    then have res: "w = fe_current_wan e" "ft' = ft\<lparr>ft_buckets := (ft_buckets ft)(?i := ch)\<rparr>"
      using assms(1) by (simp_all add: def)
    have other: "find (ip_entry_matches a' b') ch = find (ip_entry_matches a' b') (ft_buckets ft ?i)"
      if "(a', b') \<noteq> (a, b)" for a' b'
      by (rule find_upd_other [OF r]) (use that in \<open>auto simp: ip_entry_matches_unique\<close>)
    have "find ?P ch = Some e \<and> (\<exists>x. find ?P (ft_buckets ft ?i) = Some x \<and> e = get_wan_touch ft now len x)"
      using r by (rule find_upd_same) simp
    then have "flow_abs ft' = (flow_abs ft)(k \<mapsto> e)"
      and "\<exists>x. flow_abs ft k = Some x \<and> e = get_wan_touch ft now len x"
      using other by (auto simp: flow_abs_def res k fun_eq_iff)
    with res show ?thesis by auto
  next
    case None
    then obtain ft1 where nw: "get_next_wan (ft_wan_count ft) ft = Some (w, ft1)"
      and ft': "\<exists>e. ft' = ft1\<lparr>ft_buckets := (ft_buckets ft1)(?i := e # ft_buckets ft1 ?i)\<rparr> \<and>
        ?P e \<and> fe_current_wan e = w \<and> fresh_ip_entry now len e"
      using assms(1)
      by (fastforce simp: def Let_def bind_eq_Some_conv fresh_ip_entry_def ip_entry_matches_def)
    then obtain e where e: "ft' = ft1\<lparr>ft_buckets := (ft_buckets ft1)(?i := e # ft_buckets ft1 ?i)\<rparr>"
      "?P e" "fe_current_wan e = w" "fresh_ip_entry now len e" by blast
    have "flow_abs ft' = (flow_abs ft)(k \<mapsto> e)"
      using e by (auto simp: flow_abs_def k fun_eq_iff get_next_wan_SomeD(1) [OF nw]
          ip_entry_matches_unique)
    moreover have "flow_abs ft k = None"
      using None by (auto simp: flow_abs_def k upd_first_None_iff find_None_iff)
    ultimately show ?thesis using e by auto
  qed
qed

theorem get_wan_refines_map_witness:
  "\<exists>ft'. flow_table_get_wan 5 True (flow_table_init None 2 1) 8 9 6 7 17 100 = Some (1, ft') \<and>
     (\<exists>e. flow_abs ft' = (flow_abs (flow_table_init None 2 1))(normalize_flow_ips 8 9 \<mapsto> e))"
proof -
  have "\<exists>ft'. flow_table_get_wan 5 True (flow_table_init None 2 1) 8 9 6 7 17 100 = Some (1, ft')"
    by (simp add: flow_table_get_wan_def flow_table_init_def get_next_wan_def c_rem_def
        split: prod.split)
  then obtain ft' where "flow_table_get_wan 5 True (flow_table_init None 2 1) 8 9 6 7 17 100
      = Some (1, ft')" by blast
  then show ?thesis using get_wan_refines_map by blast
qed

section \<open>Fairness of the weighted round-robin\<close>

fun pick_run :: "nat \<Rightarrow> flow_table \<Rightarrow> int list \<Rightarrow> int list option \<Rightarrow> int list" where
  "pick_run 0 ft wans weights = []"
| "pick_run (Suc n) ft wans weights =
     (let (w, ft') = flow_table_pick_wan_per_packet ft wans weights
      in w # pick_run n ft' wans weights)"

lemma wrr_slot_to_wan_expand:
  assumes "length ws = length wans" and "wans \<noteq> []" and "0 \<le> s" and "s < pos_sum ws"
  shows "wrr_slot_to_wan s wans (Some ws) (pos_sum ws) = weighted_expand (zip wans ws) ! nat s"
proof -
  have "c_rem (c_rem s (pos_sum ws) + pos_sum ws) (pos_sum ws) = s" using assms by simp
  moreover have "weighted_scan 0 s (zip wans ws) = Some (weighted_expand (zip wans ws) ! nat s)"
    using weighted_scan_expand [of 0 s "zip wans ws"] assms by simp
  ultimately show ?thesis using assms by (simp add: wrr_slot_to_wan_def)
qed

lemma pick_run_nth:
  assumes "length ws = length wans" and "1 < length wans" and "pos_sum ws > 0"
    and "unat (ft_pkt_wrr_seq ft) + n < 2 ^ 64"
  shows "pick_run n ft wans (Some ws) =
    map (\<lambda>j. weighted_expand (zip wans ws) ! ((unat (ft_pkt_wrr_seq ft) + j) mod nat (pos_sum ws)))
      [0..<n]"
  using assms(4)
proof (induction n arbitrary: ft)
  case 0
  then show ?case by simp
next
  case (Suc n)
  let ?ft' = "ft\<lparr>ft_pkt_wrr_seq := ft_pkt_wrr_seq ft + 1\<rparr>"
  have seq: "unat (ft_pkt_wrr_seq ft + 1) = Suc (unat (ft_pkt_wrr_seq ft))"
    using Suc.prems by (simp add: unat_word_ariths)
  have "wans \<noteq> []" using assms(2) by auto
  have "nat (uint (ft_pkt_wrr_seq ft) mod pos_sum ws) = unat (ft_pkt_wrr_seq ft) mod nat (pos_sum ws)"
    using assms(3) by (simp add: nat_mod_distrib)
  then have "flow_table_pick_wan_per_packet ft wans (Some ws) =
      (weighted_expand (zip wans ws) ! (unat (ft_pkt_wrr_seq ft) mod nat (pos_sum ws)), ?ft')"
    using assms(1,2,3) \<open>wans \<noteq> []\<close>
    by (simp add: flow_table_pick_wan_per_packet_def weights_sum_positive_def Let_def
        wrr_slot_to_wan_expand)
  moreover have "pick_run n ?ft' wans (Some ws) =
     map (\<lambda>j. weighted_expand (zip wans ws) ! ((Suc (unat (ft_pkt_wrr_seq ft)) + j) mod nat (pos_sum ws)))
      [0..<n]"
    using Suc.IH [of ?ft'] Suc.prems seq by simp
  ultimately show ?case by (simp add: upt_conv_Cons map_Suc_upt [symmetric] comp_def del: upt_Suc)
qed

lemma map_mod_rotate: "map (\<lambda>j. xs ! ((a + j) mod length xs)) [0..<length xs] = rotate a xs"
  by (rule nth_equalityI) (auto simp: nth_rotate)

lemma count_list_rotate: "count_list (rotate a xs) x = count_list xs x"
  by (simp add: rotate_drop_take) (metis add.commute append_take_drop_id count_list_append)

text \<open>C11: Over any full cycle of the per-packet round-robin (as many consecutive packets as the
  sum of the positive weights) every WAN is used exactly as often as its weight says,
  wherever in the cycle the sequence starts.\<close>

theorem wrr_cycle_fair:
  assumes "length ws = length wans" and "1 < length wans" and "pos_sum ws > 0"
    and "unat (ft_pkt_wrr_seq ft) + nat (pos_sum ws) < 2 ^ 64"
  shows "count_list (pick_run (nat (pos_sum ws)) ft wans (Some ws)) w =
    nat (pos_sum (map snd (filter (\<lambda>p. fst p = w) (zip wans ws))))"
proof -
  let ?xs = "weighted_expand (zip wans ws)"
  have "int (length ?xs) = pos_sum ws" using assms(1) by (simp add: length_weighted_expand)
  then have len: "nat (pos_sum ws) = length ?xs" by simp
  have "pick_run (nat (pos_sum ws)) ft wans (Some ws) = rotate (unat (ft_pkt_wrr_seq ft)) ?xs"
    using assms by (simp add: pick_run_nth len map_mod_rotate)
  then show ?thesis by (simp add: count_list_rotate weighted_expand_count)
qed

theorem wrr_cycle_fair_witness:
  "count_list (pick_run 4 (flow_table_init None 2 0) [0, 1] (Some [3, 1])) 0 = 3"
  using wrr_cycle_fair [of "[3, 1]" "[0, 1]" "flow_table_init None 2 0" 0]
  by (simp add: flow_table_init_def)

section \<open>The table invariant\<close>

text \<open>
  Every entry hangs in the bucket of its own hash, points at an existing WAN, and is the
  only entry of its flow.
\<close>

definition fe_home :: "flow_entry \<Rightarrow> nat" where
  "fe_home e = (let k = fe_key e in
     if fe_ip_only_key e then flow_hash_ips (fk_src_ip k) (fk_dst_ip k)
     else flow_hash (fk_src_ip k) (fk_dst_ip k) (fk_src_port k) (fk_dst_port k) (fk_protocol k))"

definition fe_ident :: "flow_entry \<Rightarrow> bool \<times> u32 \<times> u32 \<times> u16 \<times> u16 \<times> byte" where
  "fe_ident e = (let k = fe_key e in
     if fe_ip_only_key e then (True, fk_src_ip k, fk_dst_ip k, 0, 0, 0)
     else (False, fk_src_ip k, fk_dst_ip k, fk_src_port k, fk_dst_port k, fk_protocol k))"

definition entry_ok :: "int \<Rightarrow> nat \<Rightarrow> flow_entry \<Rightarrow> bool" where
  "entry_ok n i e \<longleftrightarrow> fe_home e = i \<and> 0 \<le> fe_current_wan e \<and> fe_current_wan e < n \<and>
     (fe_profile_wan_pool e \<longleftrightarrow> \<not> fe_ip_only_key e)"

definition chain_ok :: "int \<Rightarrow> nat \<Rightarrow> flow_entry list \<Rightarrow> bool" where
  "chain_ok n i es \<longleftrightarrow> (\<forall>e \<in> set es. entry_ok n i e) \<and> distinct (map fe_ident es)"

definition flow_inv :: "flow_table \<Rightarrow> bool" where
  "flow_inv ft \<longleftrightarrow> 0 < ft_wan_count ft \<and> ft_wan_count ft \<le> int (length (ft_wan_window_sizes ft)) \<and>
     (\<forall>i. chain_ok (ft_wan_count ft) i (ft_buckets ft i))"

text \<open>A modification of an entry that keeps its identity and a valid WAN.\<close>

definition keeps_entry :: "int \<Rightarrow> (flow_entry \<Rightarrow> bool) \<Rightarrow> (flow_entry \<Rightarrow> flow_entry) \<Rightarrow> bool" where
  "keeps_entry n P f \<longleftrightarrow> (\<forall>i e. P e \<longrightarrow> entry_ok n i e \<longrightarrow> entry_ok n i (f e) \<and> fe_ident (f e) = fe_ident e)"

lemma chain_ok_upd_first:
  assumes "chain_ok n i es" and "upd_first P f es = Some (y, ys)" and "keeps_entry n P f"
  shows "chain_ok n i ys \<and> entry_ok n i y"
  using assms(2)
proof (rule upd_first_SomeE)
  fix us x vs assume x: "es = us @ x # vs" "P x" "y = f x" "ys = us @ f x # vs"
  then have "entry_ok n i (f x) \<and> fe_ident (f x) = fe_ident x"
    using assms(1,3) by (auto simp: chain_ok_def keeps_entry_def)
  then show ?thesis using assms(1) x by (auto simp: chain_ok_def)
qed

lemma chain_ok_Cons:
  "chain_ok n i es \<Longrightarrow> entry_ok n i e \<Longrightarrow> fe_ident e \<notin> fe_ident ` set es \<Longrightarrow> chain_ok n i (e # es)"
  by (auto simp: chain_ok_def)

lemma flow_inv_set_bucket:
  "flow_inv ft \<Longrightarrow> chain_ok (ft_wan_count ft) i es \<Longrightarrow>
     flow_inv (ft\<lparr>ft_buckets := (ft_buckets ft)(i := es)\<rparr>)"
  by (auto simp: flow_inv_def)

lemma keeps_entry_wan:
  assumes "\<And>e. fe_key (f e) = fe_key e \<and> fe_ip_only_key (f e) = fe_ip_only_key e \<and>
      fe_profile_wan_pool (f e) = fe_profile_wan_pool e"
    and "\<And>e. P e \<Longrightarrow> 0 \<le> fe_current_wan e \<and> fe_current_wan e < n \<Longrightarrow>
      0 \<le> fe_current_wan (f e) \<and> fe_current_wan (f e) < n"
  shows "keeps_entry n P f"
  using assms by (auto simp: keeps_entry_def entry_ok_def fe_home_def fe_ident_def)

lemma keeps_entry_get_wan_touch:
  "ft_wan_count ft = n \<Longrightarrow> 0 < n \<Longrightarrow> keeps_entry n P (get_wan_touch ft now len)"
  by (rule keeps_entry_wan) (auto simp: get_wan_touch_def Let_def)

lemma keeps_entry_add_bytes:
  "ft_wan_count ft = n \<Longrightarrow> 0 < n \<Longrightarrow> keeps_entry n P (add_bytes_exact ft x)"
  "keeps_entry n P (add_bytes_ip x)"
  by (rule keeps_entry_wan; auto simp: add_bytes_exact_def add_bytes_ip_def Let_def)+

text \<open>The WANs a profile allows, with weights for all of them or none at all.\<close>

definition allowed_ok :: "int \<Rightarrow> int list \<Rightarrow> int list option \<Rightarrow> bool" where
  "allowed_ok n wans weights \<longleftrightarrow> (\<forall>w \<in> set wans. 0 \<le> w \<and> w < n) \<and>
     (case weights of None \<Rightarrow> True | Some ws \<Rightarrow> length ws = length wans)"

lemma wrr_slot_to_wan_mem: "wans \<noteq> [] \<Longrightarrow> wrr_slot_to_wan slot wans weights sumw \<in> set wans"
  by (auto simp: wrr_slot_to_wan_def Let_def split: option.split
      dest!: weighted_scan_mem dest: set_zip_leftD)

lemma keeps_entry_profile_touch:
  assumes "allowed_ok n wans weights" and "wans \<noteq> []"
  shows "keeps_entry n P (profile_touch ft now len wans weights)"
proof (rule keeps_entry_wan)
  fix e
  have mem: "w \<in> set wans \<Longrightarrow> 0 \<le> w \<and> w < n" for w using assms(1) by (auto simp: allowed_ok_def)
  have "wans ! k \<in> set wans" if "k < length wans" for k using that by simp
  moreover have "(k + 1) mod length wans < length wans" for k using assms(2) by simp
  ultimately show "0 \<le> fe_current_wan e \<and> fe_current_wan e < n \<Longrightarrow>
      0 \<le> fe_current_wan (profile_touch ft now len wans weights e) \<and>
      fe_current_wan (profile_touch ft now len wans weights e) < n"
    using assms(2) mem [OF wrr_slot_to_wan_mem [OF assms(2)]] mem
    by (auto simp: profile_touch_def Let_def split: option.split)
qed (auto simp: profile_touch_def Let_def split: option.split)

lemma flow_table_get_wan_inv:
  assumes inv: "flow_inv ft" and ok: "flow_table_get_wan now m ft s d sp dp proto len = Some (w, ft')"
  shows "flow_inv ft' \<and> 0 \<le> w \<and> w < ft_wan_count ft \<and> ft_wan_count ft' = ft_wan_count ft"
proof -
  obtain a b where k: "normalize_flow_ips s d = (a, b)" by (cases "normalize_flow_ips s d")
  let ?i = "flow_hash_ips a b" and ?P = "ip_entry_matches a b"
  have pos: "0 < ft_wan_count ft" and ch: "chain_ok (ft_wan_count ft) ?i (ft_buckets ft ?i)"
    using inv by (auto simp: flow_inv_def)
  show ?thesis
  proof (cases "upd_first ?P (get_wan_touch ft now len) (ft_buckets ft ?i)")
    case (Some r)
    obtain e es where r: "r = (e, es)" by (cases r)
    have "chain_ok (ft_wan_count ft) ?i es \<and> entry_ok (ft_wan_count ft) ?i e"
      by (rule chain_ok_upd_first [OF ch Some [unfolded r]]) (simp add: keeps_entry_get_wan_touch pos)
    then show ?thesis using ok inv Some
      by (auto simp: flow_table_get_wan_def k r entry_ok_def intro: flow_inv_set_bucket)
  next
    case None
    then have nomatch: "\<forall>x \<in> set (ft_buckets ft ?i). \<not> ?P x" by (simp add: upd_first_None_iff)
    show ?thesis
    proof (cases m)
      case False
      then show ?thesis using ok None inv pos by (auto simp: flow_table_get_wan_def k Let_def)
    next
      case True
      then obtain ft1 e where nw: "get_next_wan (ft_wan_count ft) ft = Some (w, ft1)"
        and ft': "ft' = ft1\<lparr>ft_buckets := (ft_buckets ft1)(?i := e # ft_buckets ft1 ?i)\<rparr>"
        and e: "?P e" "fe_current_wan e = w" "\<not> fe_profile_wan_pool e"
        using ok None by (fastforce simp: flow_table_get_wan_def k Let_def bind_eq_Some_conv
            ip_entry_matches_def)
      note nwD = get_next_wan_SomeD [OF nw]
      have "fe_ident e \<notin> fe_ident ` set (ft_buckets ft ?i)"
        using nomatch e(1) by (auto simp: fe_ident_def ip_entry_matches_def Let_def split: if_splits)
      then have "chain_ok (ft_wan_count ft) ?i (e # ft_buckets ft ?i)"
        using ch e nwD(4) [OF pos]
        by (intro chain_ok_Cons) (auto simp: entry_ok_def fe_home_def ip_entry_matches_def Let_def)
      then show ?thesis using inv nwD(1-3) nwD(4) [OF pos] by (auto simp: flow_inv_def ft')
    qed
  qed
qed

lemma flow_table_get_wan_profile_inv:
  assumes inv: "flow_inv ft" and allowed: "allowed_ok (ft_wan_count ft) wans weights"
    and ok: "flow_table_get_wan_profile now m ft s d sp dp proto len wans weights = Some (w, ft')"
  shows "flow_inv ft' \<and> ft_wan_count ft' = ft_wan_count ft \<and> 0 \<le> w \<and> w < ft_wan_count ft"
proof -
  consider "wans = []" | "length wans = 1" | "1 < length wans" by (metis length_0_conv less_one linorder_neqE_nat)
  then show ?thesis
  proof cases
    case 1
    then show ?thesis using flow_table_get_wan_inv [OF inv] ok
      by (auto simp: flow_table_get_wan_profile_def)
  next
    case 2
    then show ?thesis using inv ok allowed
      by (auto simp: flow_table_get_wan_profile_def allowed_ok_def length_Suc_conv)
  next
    case 3
    then have ne: "wans \<noteq> []" by auto
    have mem: "x \<in> set wans \<Longrightarrow> 0 \<le> x \<and> x < ft_wan_count ft" for x
      using allowed by (auto simp: allowed_ok_def)
    obtain a b ap bp where k: "normalize_flow_5tuple s d sp dp = (a, b, ap, bp)"
      by (cases "normalize_flow_5tuple s d sp dp")
    let ?i = "flow_hash a b ap bp proto"
    let ?P = "\<lambda>e. \<not> fe_ip_only_key e \<and> fe_profile_wan_pool e \<and> exact_key_matches a b ap bp proto e"
    have pos: "0 < ft_wan_count ft" and ch: "chain_ok (ft_wan_count ft) ?i (ft_buckets ft ?i)"
      using inv by (auto simp: flow_inv_def)
    show ?thesis
    proof (cases "upd_first ?P (profile_touch ft now len wans weights) (ft_buckets ft ?i)")
      case (Some r)
      obtain e es where r: "r = (e, es)" by (cases r)
      have "chain_ok (ft_wan_count ft) ?i es \<and> entry_ok (ft_wan_count ft) ?i e"
        by (rule chain_ok_upd_first [OF ch Some [unfolded r]])
           (rule keeps_entry_profile_touch [OF allowed ne])
      then show ?thesis using ok inv Some 3 ne
        by (auto simp: flow_table_get_wan_profile_def k r entry_ok_def intro: flow_inv_set_bucket)
    next
      case None
      then have nomatch: "\<forall>x \<in> set (ft_buckets ft ?i). \<not> ?P x" by (simp add: upd_first_None_iff)
      show ?thesis
      proof (cases m)
        case False
        then show ?thesis using ok None inv pos 3 ne
          by (auto simp: flow_table_get_wan_profile_def k Let_def)
      next
        case True
        have pick: "wans ! (j mod length wans) \<in> set wans" for j using ne by simp
        obtain ft1 e where ft1: "ft_buckets ft1 = ft_buckets ft" "ft_wan_count ft1 = ft_wan_count ft"
            "ft_wan_window_sizes ft1 = ft_wan_window_sizes ft" "w \<in> set wans"
          and ft': "ft' = ft1\<lparr>ft_buckets := (ft_buckets ft1)(?i := e # ft_buckets ft1 ?i)\<rparr>"
          and e: "?P e" "fe_current_wan e = w"
        proof (cases "weights_sum_positive weights > 0")
          case p: True
          show thesis by (rule that [of ft]) (use ok None True 3 ne p in
              \<open>auto simp: flow_table_get_wan_profile_def k Let_def exact_key_matches_def
                wrr_slot_to_wan_mem\<close>)
        next
          case False
          then obtain q ft1 where nw: "get_next_wan (int (length wans)) ft = Some (q, ft1)"
            using ok None True 3 ne
            by (auto simp: flow_table_get_wan_profile_def k Let_def bind_eq_Some_conv)
          show thesis by (rule that [of ft1]) (use ok None True 3 ne False nw pick
              get_next_wan_SomeD(1-3) [OF nw] in
              \<open>auto simp: flow_table_get_wan_profile_def k Let_def exact_key_matches_def\<close>)
        qed
        have "fe_ident e \<notin> fe_ident ` set (ft_buckets ft ?i)"
        proof
          assume "fe_ident e \<in> fe_ident ` set (ft_buckets ft ?i)"
          then obtain x where x: "x \<in> set (ft_buckets ft ?i)" "fe_ident x = fe_ident e" by auto
          moreover have "fe_profile_wan_pool x \<longleftrightarrow> \<not> fe_ip_only_key x"
            using x(1) ch by (auto simp: chain_ok_def entry_ok_def)
          ultimately have "?P x" using e(1)
            by (auto simp: fe_ident_def exact_key_matches_def Let_def split: if_splits)
          then show False using nomatch x(1) by auto
        qed
        then have "chain_ok (ft_wan_count ft) ?i (e # ft_buckets ft ?i)"
          using ch e mem [OF ft1(4)]
          by (intro chain_ok_Cons) (auto simp: entry_ok_def fe_home_def exact_key_matches_def Let_def)
        then show ?thesis using inv ft1 mem [OF ft1(4)] by (auto simp: flow_inv_def ft')
      qed
    qed
  qed
qed

lemma add_bytes_walk_chain_ok:
  assumes "0 < ft_wan_count ft" and "\<forall>e \<in> set es. entry_ok (ft_wan_count ft) i e"
  shows "(\<forall>e \<in> set (add_bytes_walk ft s d sp dp proto x es). entry_ok (ft_wan_count ft) i e) \<and>
    map fe_ident (add_bytes_walk ft s d sp dp proto x es) = map fe_ident es"
  using assms(2)
proof (induction es)
  case Nil
  then show ?case by simp
next
  case (Cons e es)
  have "entry_ok (ft_wan_count ft) i (add_bytes_exact ft x e) \<and>
      fe_ident (add_bytes_exact ft x e) = fe_ident e"
    and "entry_ok (ft_wan_count ft) i (add_bytes_ip x e) \<and> fe_ident (add_bytes_ip x e) = fe_ident e"
    using keeps_entry_add_bytes(1) [OF refl assms(1), of "\<lambda>_. True" x] Cons.prems
      keeps_entry_add_bytes(2) [of "ft_wan_count ft" "\<lambda>_. True" x] by (auto simp: keeps_entry_def)
  then show ?case using Cons by simp
qed

definition upd_bucket ::
    "(flow_entry \<Rightarrow> bool) \<Rightarrow> (flow_entry \<Rightarrow> flow_entry) \<Rightarrow> nat \<Rightarrow> flow_table \<Rightarrow> flow_table" where
  "upd_bucket P f i ft = (case upd_first P f (ft_buckets ft i) of
     Some (_, chain) \<Rightarrow> ft\<lparr>ft_buckets := (ft_buckets ft)(i := chain)\<rparr> | None \<Rightarrow> ft)"

lemma upd_bucket_inv:
  assumes "flow_inv ft" and "keeps_entry (ft_wan_count ft) P f"
  shows "flow_inv (upd_bucket P f i ft) \<and> ft_wan_count (upd_bucket P f i ft) = ft_wan_count ft"
proof -
  have "chain_ok (ft_wan_count ft) i (ft_buckets ft i)" using assms(1) by (simp add: flow_inv_def)
  then show ?thesis using assms chain_ok_upd_first [of "ft_wan_count ft" i "ft_buckets ft i" P f]
    by (auto simp: upd_bucket_def intro!: flow_inv_set_bucket split: option.split)
qed

lemma flow_table_add_bytes_inv:
  assumes inv: "flow_inv ft"
  shows "flow_inv (flow_table_add_bytes ft s d sp dp proto x) \<and>
    ft_wan_count (flow_table_add_bytes ft s d sp dp proto x) = ft_wan_count ft"
proof -
  obtain a b ap bp where k: "normalize_flow_5tuple s d sp dp = (a, b, ap, bp)"
    by (cases "normalize_flow_5tuple s d sp dp")
  let ?i = "flow_hash a b ap bp proto" and ?j = "flow_hash_ips a b"
  have pos: "0 < ft_wan_count ft" and ch: "chain_ok (ft_wan_count ft) i (ft_buckets ft i)" for i
    using inv by (auto simp: flow_inv_def)
  show ?thesis
  proof (cases "?i = ?j")
    case True
    have "chain_ok (ft_wan_count ft) ?j
        (add_bytes_walk ft a b ap bp proto x (ft_buckets ft ?j))"
      using ch [of ?j] add_bytes_walk_chain_ok [OF pos, of "ft_buckets ft ?j" ?j a b ap bp proto x]
      by (simp add: chain_ok_def)
    then show ?thesis using inv True
      by (simp add: flow_table_add_bytes_def k flow_inv_set_bucket Let_def)
  next
    case False
    let ?g = "upd_bucket (\<lambda>e. \<not> fe_ip_only_key e \<and> exact_key_matches a b ap bp proto e)
      (add_bytes_exact ft x) ?i ft"
    have g: "flow_inv ?g" "ft_wan_count ?g = ft_wan_count ft"
      using upd_bucket_inv [OF inv keeps_entry_add_bytes(1) [OF refl pos]] by blast+
    have "flow_table_add_bytes ft s d sp dp proto x = upd_bucket (ip_entry_matches a b) (add_bytes_ip x) ?j ?g"
      using False by (simp add: flow_table_add_bytes_def k Let_def upd_bucket_def)
    then show ?thesis using upd_bucket_inv [OF g(1) keeps_entry_add_bytes(2)] g(2) by simp
  qed
qed

lemma flow_table_gc_inv: "flow_inv ft \<Longrightarrow> flow_inv (flow_table_gc now ft)"
  by (auto simp: flow_inv_def flow_table_gc_def chain_ok_def distinct_map_filter)

lemma flow_table_cleanup_inv: "flow_inv ft \<Longrightarrow> flow_inv (flow_table_cleanup ft)"
  by (auto simp: flow_inv_def flow_table_cleanup_def chain_ok_def)

section \<open>Reachable tables\<close>

text \<open>Any interleaving of the operations, each one atomic under its bucket's lock.\<close>

inductive flow_reachable :: "int \<Rightarrow> flow_table \<Rightarrow> bool" for n where
  init: "length ws \<ge> MAX_INTERFACES \<Longrightarrow> flow_reachable n (flow_table_init (Some ws) n next)"
| get_wan: "flow_reachable n ft \<Longrightarrow>
    flow_table_get_wan now m ft s d sp dp proto len = Some (w, ft') \<Longrightarrow> flow_reachable n ft'"
| get_wan_profile: "flow_reachable n ft \<Longrightarrow> allowed_ok n wans weights \<Longrightarrow>
    flow_table_get_wan_profile now m ft s d sp dp proto len wans weights = Some (w, ft') \<Longrightarrow>
    flow_reachable n ft'"
| pick: "flow_reachable n ft \<Longrightarrow> flow_table_pick_wan_per_packet ft wans weights = (w, ft') \<Longrightarrow>
    flow_reachable n ft'"
| add_bytes: "flow_reachable n ft \<Longrightarrow> flow_reachable n (flow_table_add_bytes ft s d sp dp proto x)"
| gc: "flow_reachable n ft \<Longrightarrow> flow_reachable n (flow_table_gc now ft)"
| cleanup: "flow_reachable n ft \<Longrightarrow> flow_reachable n (flow_table_cleanup ft)"

lemma flow_reachable_inv:
  "flow_reachable n ft \<Longrightarrow> 0 < n \<Longrightarrow> n \<le> int MAX_INTERFACES \<Longrightarrow> flow_inv ft \<and> ft_wan_count ft = n"
proof (induction rule: flow_reachable.induct)
  case (init ws nxt)
  then show ?case by (simp add: flow_table_init_def flow_inv_def chain_ok_def)
next
  case (get_wan ft now m s d sp dp proto len w ft')
  then show ?case using flow_table_get_wan_inv by metis
next
  case (get_wan_profile ft wans weights now m s d sp dp proto len w ft')
  then show ?case using flow_table_get_wan_profile_inv by metis
next
  case (pick ft wans weights w ft')
  then show ?case
    by (auto simp: flow_table_pick_wan_per_packet_def Let_def flow_inv_def split: if_splits)
next
  case (add_bytes ft s d sp dp proto x)
  then show ?case using flow_table_add_bytes_inv by simp
next
  case (gc ft now)
  then show ?case using flow_table_gc_inv by (simp add: flow_table_gc_def)
next
  case (cleanup ft)
  then show ?case using flow_table_cleanup_inv by (simp add: flow_table_cleanup_def)
qed

text \<open>C10: In every reachable flow table each flow has one entry, in its own bucket, on an
  existing WAN; and whatever WAN the table hands out next exists.\<close>

theorem flow_table_reachable_safe:
  assumes "flow_reachable n ft" and "0 < n" and "n \<le> int MAX_INTERFACES"
  shows "flow_inv ft \<and> (\<forall>now m s d sp dp proto len w ft'.
    flow_table_get_wan now m ft s d sp dp proto len = Some (w, ft') \<longrightarrow> 0 \<le> w \<and> w < n)"
  using flow_reachable_inv [OF assms] flow_table_get_wan_inv [of ft] by blast

theorem flow_table_reachable_safe_witness:
  "flow_inv (flow_table_gc 100 (flow_table_add_bytes
     (flow_table_init (Some (replicate 16 1000)) 2 0) 1 2 3 4 6 1500))"
  using flow_table_reachable_safe [of 2, OF flow_reachable.gc [OF flow_reachable.add_bytes
      [OF flow_reachable.init [of "replicate 16 1000"]]]] by simp

end
