(* ===== verification/Checksum.thy ===== *)
theory Checksum
  imports Prelude "HOL-Library.While_Combinator"
begin

text \<open>
  The Internet checksums of \<^verbatim>\<open>src/crypto/packet_crypto.c\<close>: the sum of sixteen-bit words in a
  \<^verbatim>\<open>uint32_t\<close>, the loop that folds the carries back in, and the IP, TCP and UDP
  checksums built on them.  A segment or header is the list of the bytes the C loop reads.
\<close>

section \<open>Definitions\<close>

text \<open>The summation loop; an odd last byte is padded with zero.\<close>

fun sum16 :: "buf \<Rightarrow> u32" where
  "sum16 [] = 0"
| "sum16 [x] = ucast (be16 x 0)"
| "sum16 (x # y # xs) = ucast (be16 x y) + sum16 xs"

lemma unat_and_ffff: "unat ((s :: u32) AND 0xFFFF) = unat s mod 65536"
proof -
  have "s AND 0xFFFF = take_bit 16 s" by (simp add: take_bit_eq_mask mask_eq_exp_minus_1)
  then have "s AND 0xFFFF = s mod 65536" by (simp add: take_bit_eq_mod)
  then show ?thesis by (simp add: unat_mod)
qed

lemma unat_drop16: "unat (drop_bit 16 (s :: u32)) = unat s div 65536"
  by (simp add: drop_bit_eq_div unat_div)

lemma carry_fold_decreases:
  assumes "drop_bit 16 s \<noteq> (0 :: u32)"
  shows "unat ((s AND 0xFFFF) + drop_bit 16 s) < unat s"
proof -
  define q r where "q = unat s div 65536" and "r = unat s mod 65536"
  have s: "unat s < 2 ^ 32" using unsigned_less [of s] by simp
  have "q \<noteq> 0" using assms unat_drop16 [of s] by (metis q_def unsigned_eq_0_iff)
  moreover have "unat s = 65536 * q + r" by (simp add: q_def r_def)
  ultimately have "r + q < unat s" by linarith
  then show ?thesis using s by (simp add: unat_word_ariths unat_and_ffff unat_drop16 q_def r_def)
qed

text \<open>\<^verbatim>\<open>while (sum >> 16) sum = (sum & 0xFFFF) + (sum >> 16)\<close>.\<close>

function fold_carries :: "u32 \<Rightarrow> u32" where
  "fold_carries s = (if drop_bit 16 s = 0 then s else fold_carries ((s AND 0xFFFF) + drop_bit 16 s))"
  by pat_completeness auto
termination by (relation "measure unat") (use carry_fold_decreases in auto)

declare fold_carries.simps [simp del]

definition crypto_calc_ip_checksum :: "buf \<Rightarrow> u16" where
  "crypto_calc_ip_checksum ip_hdr = NOT (ucast (fold_carries (sum16 ip_hdr)))"

text \<open>Source and destination address of an IP header, summed for the pseudo header.\<close>

definition pseudo_sum :: "buf \<Rightarrow> u32" where
  "pseudo_sum ip_hdr =
     ucast (be16 (ip_hdr ! 12) (ip_hdr ! 13)) + ucast (be16 (ip_hdr ! 14) (ip_hdr ! 15)) +
     ucast (be16 (ip_hdr ! 16) (ip_hdr ! 17)) + ucast (be16 (ip_hdr ! 18) (ip_hdr ! 19))"

text \<open>The TCP loop reads its own checksum word as zero.\<close>

definition crypto_calc_tcp_checksum :: "buf \<Rightarrow> buf \<Rightarrow> u16" where
  "crypto_calc_tcp_checksum ip_hdr tcp_seg =
     (if length ip_hdr < 20 \<or> length tcp_seg < 20 then 0
      else NOT (ucast (fold_carries
        (pseudo_sum ip_hdr + 6 + ucast (of_nat (length tcp_seg) :: u16) +
         sum16 (tcp_seg[16 := 0, 17 := 0])))))"

definition udp_checksum_len :: "buf \<Rightarrow> nat" where
  "udp_checksum_len udp_seg =
     (let udp_len = be16 (udp_seg ! 4) (udp_seg ! 5);
          udp_len = (if udp_len < 8 then 8 else udp_len);
          udp_len = (if udp_len > of_nat (length udp_seg) then of_nat (length udp_seg) else udp_len)
      in unat udp_len)"

definition crypto_calc_udp_checksum :: "buf \<Rightarrow> buf \<Rightarrow> u16" where
  "crypto_calc_udp_checksum ip_hdr udp_seg =
     (if length ip_hdr < 20 \<or> length udp_seg < 8 then 0
      else let udp_len = udp_checksum_len udp_seg
        in NOT (ucast (fold_carries
             (pseudo_sum ip_hdr + 17 + of_nat udp_len + sum16 (take udp_len udp_seg)))))"

section \<open>Folding computes a remainder modulo 65535\<close>

lemma fold_step_mod:
  "unat ((s AND 0xFFFF) + drop_bit 16 (s :: u32)) mod 65535 = unat s mod 65535"
proof -
  have s: "unat s < 2 ^ 32" using unsigned_less [of s] by simp
  have "unat ((s AND 0xFFFF) + drop_bit 16 s) = unat s mod 65536 + unat s div 65536"
    using s by (simp add: unat_word_ariths unat_and_ffff unat_drop16)
  moreover have "unat s = 65536 * (unat s div 65536) + unat s mod 65536" by simp
  moreover have "(65536 * q + r) mod 65535 = (r + q) mod (65535 :: nat)" for q r
  proof -
    have "65536 * q + r = 65535 * q + (r + q)" by simp
    then show ?thesis by (metis mod_mult_self4)
  qed
  ultimately show ?thesis by metis
qed

lemma fold_step_zero_iff: "(s AND 0xFFFF) + drop_bit 16 (s :: u32) = 0 \<longleftrightarrow> s = 0"
proof
  assume "(s AND 0xFFFF) + drop_bit 16 s = 0"
  moreover have s: "unat s < 2 ^ 32" using unsigned_less [of s] by simp
  then have "unat ((s AND 0xFFFF) + drop_bit 16 s) = unat s mod 65536 + unat s div 65536"
    by (simp add: unat_word_ariths unat_and_ffff unat_drop16)
  ultimately have "unat s mod 65536 + unat s div 65536 = 0" by simp
  then have "unat s = 0" by (metis add_is_0 div_mult_mod_eq mult_is_0)
  then show "s = 0" by (metis unsigned_eq_0_iff)
qed simp

lemma fold_carries_spec:
  "unat (fold_carries s) < 65536 \<and> unat (fold_carries s) mod 65535 = unat s mod 65535 \<and>
    (fold_carries s = 0 \<longleftrightarrow> s = 0)"
proof (induction s rule: fold_carries.induct)
  case (1 s)
  show ?case
  proof (cases "drop_bit 16 s = 0")
    case True
    then have "unat s div 65536 = 0" using unat_drop16 [of s] by simp
    then show ?thesis using True by (simp add: fold_carries.simps [of s] div_eq_0_iff)
  next
    case False
    then show ?thesis using 1 by (simp add: fold_carries.simps [of s] fold_step_mod fold_step_zero_iff)
  qed
qed

section \<open>The sum as a natural number\<close>

fun nsum16 :: "buf \<Rightarrow> nat" where
  "nsum16 [] = 0"
| "nsum16 [x] = unat (be16 x 0)"
| "nsum16 (x # y # xs) = unat (be16 x y) + nsum16 xs"

lemma unat_be16_less: "unat (be16 x y) < 65536"
  using unsigned_less [of "be16 x y"] by simp

lemma nsum16_bound: "nsum16 xs \<le> 65535 * ((length xs + 1) div 2)"
proof (induction xs rule: nsum16.induct)
  case (2 x)
  then show ?case using unat_be16_less [of x 0] by simp
next
  case (3 x y xs)
  then show ?case using unat_be16_less [of x y] by simp
qed simp

lemma nsum16_less: "length xs \<le> 131070 \<Longrightarrow> nsum16 xs \<le> 65535 * 65535"
  using nsum16_bound [of xs] by (rule order_trans) simp

lemma unat_ucast_16_32: "unat (ucast (v :: u16) :: u32) = unat v"
  by (simp add: unsigned_ucast_eq take_bit_nat_eq_self order_less_le_trans [OF unsigned_less])

lemma unat_sum16: "length xs \<le> 131070 \<Longrightarrow> unat (sum16 xs) = nsum16 xs"
proof (induction xs rule: sum16.induct)
  case (3 x y xs)
  then have "unat (be16 x y) + nsum16 xs \<le> 65535 * 65535"
    using nsum16_less [of "x # y # xs"] by simp
  then show ?case using 3 by (simp add: unat_word_ariths unat_ucast_16_32)
qed (simp_all add: unat_ucast_16_32)

lemma nsum16_append: "even (length xs) \<Longrightarrow> nsum16 (xs @ ys) = nsum16 xs + nsum16 ys"
  by (induction xs rule: nsum16.induct) auto

lemma split_pair_at:
  assumes "Suc k < length h"
  shows "h = take k h @ h ! k # h ! Suc k # drop (k + 2) h"
  using id_take_nth_drop [of k h] Cons_nth_drop_Suc [of "Suc k" h] assms by simp

lemma upd_pair_at:
  assumes "Suc k < length h"
  shows "h[k := a, Suc k := b] = take k h @ a # b # drop (k + 2) h"
proof -
  have "h[k := a, Suc k := b] = (take k h @ h ! k # h ! Suc k # drop (k + 2) h)[k := a, Suc k := b]"
    using split_pair_at [OF assms] by simp
  then show ?thesis using assms by (simp add: list_update_append)
qed

lemma nsum16_upd_pair:
  assumes "Suc k < length h" and "even k"
  shows "nsum16 (h[k := hi8 c, Suc k := lo8 c]) = nsum16 (h[k := 0, Suc k := 0]) + unat c"
proof -
  have "be16 0 0 = 0" by (rule bit_word_eqI) (simp add: be16_def)
  then show ?thesis using assms by (simp add: upd_pair_at nsum16_append)
qed

section \<open>A written checksum verifies\<close>

lemma unat_ucast_32_16: "unat (s :: u32) < 65536 \<Longrightarrow> unat (ucast s :: u16) = unat s"
  by (simp add: unsigned_ucast_eq take_bit_nat_eq_self)

lemma neg_mod_65536:
  assumes "0 \<le> x" and "x < (65536 :: int)"
  shows "(- x - 1) mod 65536 = 65535 - x"
proof -
  have "(- x - 1) mod 65536 = ((- x - 1) + 65536) mod 65536" by (rule mod_add_self2 [symmetric])
  also have "(- x - 1) + 65536 = 65535 - x" by simp
  also have "(65535 - x) mod 65536 = 65535 - x" using assms by (intro mod_pos_pos_trivial) auto
  finally show ?thesis .
qed

lemma unat_not16: "unat (NOT (v :: u16)) = 65535 - unat v"
proof -
  have v: "0 \<le> uint v" "uint v < 65536" using uint_lt2p [of v] by simp_all
  have "uint (NOT v) = take_bit 16 (NOT (uint v))" by (subst unsigned_not_eq) simp
  also have "\<dots> = (- uint v - 1) mod 65536" by (simp add: take_bit_eq_mod not_eq_complement)
  also have "\<dots> = 65535 - uint v" using v by (rule neg_mod_65536)
  finally show ?thesis unfolding uint_nat by linarith
qed

text \<open>
  Adding the complement of the folded sum of \<open>s\<close> to \<open>s\<close> gives a sum that folds to all ones,
  which is what a receiver checks.
\<close>

lemma fold_carries_complement:
  assumes "unat t = unat s + unat (NOT (ucast (fold_carries s) :: u16))"
  shows "fold_carries t = 0xFFFF"
proof -
  have s: "unat (fold_carries s) < 65536" "unat (fold_carries s) mod 65535 = unat s mod 65535"
    "fold_carries s = 0 \<longleftrightarrow> s = 0" using fold_carries_spec [of s] by auto
  have t: "unat (fold_carries t) < 65536" "unat (fold_carries t) mod 65535 = unat t mod 65535"
    "fold_carries t = 0 \<longleftrightarrow> t = 0" using fold_carries_spec [of t] by auto
  have sum: "unat t = unat s + (65535 - unat (fold_carries s))"
    using assms s(1) by (simp add: unat_not16 unat_ucast_32_16)
  have "unat t mod 65535 = (unat (fold_carries s) + (65535 - unat (fold_carries s))) mod 65535"
    unfolding sum by (metis mod_add_left_eq s(2))
  then have z: "unat t mod 65535 = 0" using s(1) by simp
  have "t \<noteq> 0"
  proof
    assume "t = 0"
    then have "unat s = 0" "unat (fold_carries s) = 65535" using sum s(1) by auto
    then show False using s(3) by (metis unsigned_0 unsigned_eq_0_iff zero_neq_numeral)
  qed
  then have "unat (fold_carries t) \<noteq> 0" using t(3) by (metis unsigned_eq_0_iff)
  moreover have "unat (fold_carries t) mod 65535 = 0" using t(2) z by simp
  ultimately have "unat (fold_carries t) = 65535" using t(1) by (auto elim!: dvdE simp: mod_eq_0_iff_dvd)
  then show ?thesis by (simp add: word_unat_eq_iff)
qed

lemma ip_checksum_verifies:
  assumes "12 \<le> length h" and "length h \<le> 60"
  defines "c \<equiv> crypto_calc_ip_checksum (h[10 := 0, 11 := 0])"
  shows "crypto_calc_ip_checksum (h[10 := hi8 c, 11 := lo8 c]) = 0"
proof -
  let ?s = "sum16 (h[10 := 0, 11 := 0])" and ?t = "sum16 (h[10 := hi8 c, 11 := lo8 c])"
  have "unat ?t = unat ?s + unat c"
    using nsum16_upd_pair [of 10 h c] assms(1,2) by (simp add: unat_sum16)
  then have "fold_carries ?t = 0xFFFF"
    by (intro fold_carries_complement [of _ ?s]) (simp add: c_def crypto_calc_ip_checksum_def)
  then show ?thesis by (simp add: crypto_calc_ip_checksum_def)
qed

section \<open>The loop ends\<close>

text \<open>One round of the loop that folds the carries; two rounds are enough for any sum.\<close>

definition carry_step :: "u32 \<Rightarrow> u32" where
  "carry_step s = (s AND 0xFFFF) + drop_bit 16 s"

lemma unat_carry_step: "unat (carry_step s) = unat s mod 65536 + unat s div 65536"
proof -
  have "unat s < 2 ^ 32" using unsigned_less [of s] by simp
  then show ?thesis by (simp add: carry_step_def unat_word_ariths unat_and_ffff unat_drop16)
qed

lemma no_carry_iff: "drop_bit 16 (s :: u32) = 0 \<longleftrightarrow> unat s < 65536"
  using unat_drop16 [of s] by (metis div_eq_0_iff unsigned_eq_0_iff zero_neq_numeral)

lemma carry_step_twice: "unat (carry_step (carry_step s)) < 65536"
proof -
  define a b where "a = unat s mod 65536" and "b = unat s div 65536"
  have "unat s < 2 ^ 32" using unsigned_less [of s] by simp
  then have "a < 65536" "b < 65536" by (auto simp: a_def b_def)
  then show ?thesis unfolding unat_carry_step a_def [symmetric] b_def [symmetric]
    by (cases "a + b < 65536") (auto simp: mod_if div_if)
qed

lemma fold_carries_steps:
  "fold_carries s = (if unat s < 65536 then s else if unat (carry_step s) < 65536 then carry_step s else carry_step (carry_step s))"
  using carry_step_twice [of s]
  by (simp add: fold_carries.simps [of s] fold_carries.simps [of "carry_step s"] fold_carries.simps [of "carry_step (carry_step s)"]
      no_carry_iff carry_step_def [symmetric])

lemma carry_loop: "while_option (\<lambda>s. drop_bit 16 s \<noteq> 0) carry_step s = Some (fold_carries s)"
  using carry_step_twice [of s]
  by (simp add: fold_carries_steps while_option_unfold [of _ _ s] while_option_unfold [of _ _ "carry_step s"]
      while_option_unfold [of _ _ "carry_step (carry_step s)"] no_carry_iff)

text \<open>C19: The loop that folds the carries of a checksum ends for every 32-bit sum, after at most two
  rounds, with a 16-bit value that is congruent to the sum modulo 65535 and zero only for the
  sum zero.\<close>

theorem checksum_loop_ends:
  "while_option (\<lambda>s. drop_bit 16 s \<noteq> 0) (\<lambda>s. (s AND 0xFFFF) + drop_bit 16 s) s = Some (fold_carries s) \<and>
   (\<exists>k \<le> 2. fold_carries s = ((\<lambda>s. (s AND 0xFFFF) + drop_bit 16 s) ^^ k) s) \<and>
   unat (fold_carries s) < 65536 \<and> unat (fold_carries s) mod 65535 = unat s mod 65535 \<and> (fold_carries s = 0 \<longleftrightarrow> s = 0)"
proof -
  have f: "(\<lambda>s. (s AND 0xFFFF) + drop_bit 16 s) = carry_step" by (simp add: fun_eq_iff carry_step_def)
  have "(carry_step ^^ 0) s = s" "(carry_step ^^ 1) s = carry_step s" "(carry_step ^^ 2) s = carry_step (carry_step s)"
    by (simp_all add: numeral_2_eq_2)
  then have "\<exists>k \<le> 2. fold_carries s = (carry_step ^^ k) s"
    using fold_carries_steps [of s] by (metis le_refl one_le_numeral zero_le)
  then show ?thesis using carry_loop [of s] fold_carries_spec [of s] by (simp only: f)
qed

end
