(* ===== verification/PacketCrypto.thy ===== *)
theory PacketCrypto
  imports Checksum Config
begin

text \<open>
  The shared crypto primitives of \<^verbatim>\<open>src/crypto/packet_crypto.c\<close>: per-thread settings, the
  nonce counter, nonce construction, key slots, the cached GCM contexts, and the tunnel
  headers.

  OpenSSL is a parameter: the record \<open>evp\<close> holds the functions the code calls, as
  mathematical functions of cipher width, key, nonce and data.  The predicate \<open>evp_ok\<close> states
  what the code relies on.  A C function that may fail returns its error as a value; \<^term>\<open>None\<close>
  is reserved for accesses out of bounds.
\<close>

section \<open>OpenSSL\<close>

record evp =
  evp_ctx_new :: bool
  evp_ctr :: "int \<Rightarrow> buf \<Rightarrow> buf \<Rightarrow> buf \<Rightarrow> buf"
  evp_gcm_seal :: "int \<Rightarrow> buf \<Rightarrow> buf \<Rightarrow> buf \<Rightarrow> buf \<times> buf"
  evp_gcm_open :: "int \<Rightarrow> buf \<Rightarrow> buf \<Rightarrow> buf \<Rightarrow> buf \<Rightarrow> buf \<times> bool"
  evp_hmac :: "buf \<Rightarrow> buf \<Rightarrow> buf"
  evp_rand :: buf

abbreviation (input) AES128_IV_SIZE :: nat where "AES128_IV_SIZE \<equiv> 16"
abbreviation (input) AES128_GCM_TAG_SIZE :: nat where "AES128_GCM_TAG_SIZE \<equiv> 16"
abbreviation (input) AES_MAX_KEY_SIZE :: nat where "AES_MAX_KEY_SIZE \<equiv> 32"
abbreviation (input) ETH_HEADER_SIZE :: nat where "ETH_HEADER_SIZE \<equiv> 14"
abbreviation (input) KEY_SLOT_PREV :: int where "KEY_SLOT_PREV \<equiv> 0"
abbreviation (input) KEY_SLOT_CURRENT :: int where "KEY_SLOT_CURRENT \<equiv> 1"
abbreviation (input) KEY_SLOT_NEXT :: int where "KEY_SLOT_NEXT \<equiv> 2"
abbreviation (input) KEY_SLOT_COUNT :: int where "KEY_SLOT_COUNT \<equiv> 3"
abbreviation (input) PROTO_FLAG_IPV4 :: byte where "PROTO_FLAG_IPV4 \<equiv> 0"

text \<open>
  Documented behaviour: contexts can be allocated; CTR mode is a stream cipher that keeps the
  length and is its own inverse under the same key and counter block; GCM keeps the length,
  has a sixteen-byte tag and opens what it sealed under the same key and nonce.
\<close>

definition evp_ok :: "evp \<Rightarrow> bool" where
  "evp_ok E \<longleftrightarrow> evp_ctx_new E \<and>
     (\<forall>bits k iv d. length (evp_ctr E bits k iv d) = length d \<and>
        evp_ctr E bits k iv (evp_ctr E bits k iv d) = d) \<and>
     (\<forall>bits k n d. length (fst (evp_gcm_seal E bits k n d)) = length d \<and>
        length (snd (evp_gcm_seal E bits k n d)) = AES128_GCM_TAG_SIZE \<and>
        evp_gcm_open E bits k n (fst (evp_gcm_seal E bits k n d)) (snd (evp_gcm_seal E bits k n d))
          = (d, True)) \<and>
     (\<forall>bits k n d t. length (fst (evp_gcm_open E bits k n d t)) = length d) \<and>
     (\<forall>k m. length (evp_hmac E k m) = 32) \<and> length (evp_rand E) = 16"

section \<open>State\<close>

text \<open>
  A cached GCM context: the key bytes and nonce length that the code compares against, and
  the cipher and key that the OpenSSL context really holds.
\<close>

record gcm_cache =
  gc_cached_key :: buf
  gc_key_cached :: bool
  gc_cached_nonce_len :: nat
  gc_ctx_bits :: int
  gc_ctx_key :: buf

definition gcm_cache_init :: gcm_cache where
  "gcm_cache_init = \<lparr>gc_cached_key = replicate AES_MAX_KEY_SIZE 0, gc_key_cached = False,
     gc_cached_nonce_len = 0, gc_ctx_bits = 0, gc_ctx_key = []\<rparr>"

record crypto_state =
  g_fake_ethertype_ipv4 :: u16
  g_fake_protocol :: byte
  g_encrypt_layer :: int
  g_crypto_mode :: int
  g_nonce_size :: nat
  g_aes_bits :: int
  g_policy_id :: byte
  g_nonce_counter :: u64
  tls_enc :: gcm_cache
  tls_dec :: gcm_cache
  tls_nonce_salt :: "buf option"

definition crypto_state_init :: crypto_state where
  "crypto_state_init = \<lparr>g_fake_ethertype_ipv4 = 0, g_fake_protocol = 99, g_encrypt_layer = 0,
     g_crypto_mode = 0, g_nonce_size = 12, g_aes_bits = 128, g_policy_id = 0, g_nonce_counter = 0,
     tls_enc = gcm_cache_init, tls_dec = gcm_cache_init, tls_nonce_salt = None\<rparr>"

record packet_crypto_ctx =
  pc_master_key :: buf
  pc_keys :: "buf list"
  pc_initialized :: bool

text \<open>The conversion of a \<^verbatim>\<open>size_t\<close> to \<^verbatim>\<open>int\<close>.\<close>

definition c_int :: "nat \<Rightarrow> int" where
  "c_int n = sint (of_nat n :: u32)"

lemma c_int_small [simp]: "n < 2 ^ 31 \<Longrightarrow> c_int n = int n"
  by (simp add: c_int_def signed_of_nat signed_take_bit_int_eq_self)

section \<open>Settings and keys\<close>

definition packet_crypto_get_tunnel_hdr_size :: "crypto_state \<Rightarrow> nat" where
  "packet_crypto_get_tunnel_hdr_size st = g_nonce_size st + 2"

definition is_gcm_mode :: "crypto_state \<Rightarrow> bool" where
  "is_gcm_mode st \<longleftrightarrow> g_crypto_mode st = CRYPTO_MODE_GCM"

definition get_key_size :: "int \<Rightarrow> nat" where
  "get_key_size aes_bits = (if aes_bits = 256 then 32 else 16)"

definition cipher_bits :: "int \<Rightarrow> int" where
  "cipher_bits aes_bits = (if aes_bits = 256 then 256 else 128)"

definition packet_crypto_next_counter :: "crypto_state \<Rightarrow> u32 \<times> crypto_state" where
  "packet_crypto_next_counter st =
     (ucast (g_nonce_counter st) AND 0x7FFFFFFF, st\<lparr>g_nonce_counter := g_nonce_counter st + 1\<rparr>)"

definition packet_crypto_reset_counter :: "crypto_state \<Rightarrow> crypto_state" where
  "packet_crypto_reset_counter st = st\<lparr>g_nonce_counter := 0\<rparr>"

definition derive_key :: "evp \<Rightarrow> crypto_state \<Rightarrow> buf \<Rightarrow> u64 \<Rightarrow> buf \<Rightarrow> buf" where
  "derive_key E st master epoch out_key =
     (let key_size = get_key_size (g_aes_bits st);
          epoch_buf = map (\<lambda>i. ucast (drop_bit (8 * i) epoch)) [0..<8];
          hmac_out = evp_hmac E (take key_size master) epoch_buf
      in take key_size hmac_out @ drop key_size out_key)"

definition packet_crypto_get_key :: "packet_crypto_ctx \<Rightarrow> int \<Rightarrow> buf option" where
  "packet_crypto_get_key ctx slot =
     (if slot < 0 \<or> slot \<ge> KEY_SLOT_COUNT then None else Some (pc_keys ctx ! nat slot))"

definition packet_crypto_init ::
    "evp \<Rightarrow> crypto_state \<Rightarrow> buf \<Rightarrow> int \<times> packet_crypto_ctx \<times> crypto_state" where
  "packet_crypto_init E st master_key =
     (let key_size = get_key_size (g_aes_bits st);
          zero = replicate AES_MAX_KEY_SIZE 0;
          master = take key_size master_key @ drop key_size zero;
          key = derive_key E st master 0 zero;
          ctx = \<lparr>pc_master_key = master, pc_keys = [key, key, key], pc_initialized = True\<rparr>;
          st = packet_crypto_reset_counter st
      in if evp_ctx_new E then (0, ctx, st) else (-1, ctx, st))"

definition packet_crypto_cleanup ::
    "packet_crypto_ctx \<Rightarrow> crypto_state \<Rightarrow> packet_crypto_ctx \<times> crypto_state" where
  "packet_crypto_cleanup ctx st =
     (let zero = replicate AES_MAX_KEY_SIZE 0
      in (\<lparr>pc_master_key = zero, pc_keys = [zero, zero, zero], pc_initialized = False\<rparr>,
          st\<lparr>tls_enc := (tls_enc st)\<lparr>gc_cached_key := zero, gc_key_cached := False,
                              gc_ctx_bits := 0, gc_ctx_key := []\<rparr>,
             tls_dec := (tls_dec st)\<lparr>gc_cached_key := zero, gc_key_cached := False,
                              gc_ctx_bits := 0, gc_ctx_key := []\<rparr>\<rparr>))"

definition crypto_apply_default_from_cfg :: "app_config \<Rightarrow> crypto_state \<Rightarrow> crypto_state" where
  "crypto_apply_default_from_cfg cfg st =
     (let st = st\<lparr>g_crypto_mode := ac_crypto_mode cfg, g_aes_bits := ac_aes_bits cfg,
                   g_nonce_size := ac_nonce_size cfg\<rparr>;
          st = (if ac_encrypt_layer cfg = 3 then st\<lparr>g_fake_protocol := ac_fake_protocol cfg\<rparr> else st)
      in st\<lparr>g_policy_id := 0, g_encrypt_layer := ac_encrypt_layer cfg\<rparr>)"

text \<open>\<^verbatim>\<open>(uint8_t)cp->id\<close>.\<close>

definition wire_id :: "crypto_policy \<Rightarrow> byte" where
  "wire_id cp = word_of_int (cp_id cp)"

definition crypto_apply_from_policy :: "crypto_policy \<Rightarrow> crypto_state \<Rightarrow> crypto_state" where
  "crypto_apply_from_policy cp st =
     (let st = st\<lparr>g_crypto_mode := cp_crypto_mode cp, g_aes_bits := cp_aes_bits cp,
                   g_nonce_size := cp_nonce_size cp\<rparr>;
          st = (if cp_action cp = POLICY_ACTION_ENCRYPT_L2 then st\<lparr>g_encrypt_layer := 2\<rparr>
                else if cp_action cp = POLICY_ACTION_ENCRYPT_L3 then st\<lparr>g_encrypt_layer := 3\<rparr>
                else if cp_action cp = POLICY_ACTION_ENCRYPT_L4 then st\<lparr>g_encrypt_layer := 4\<rparr>
                else st);
          st = (if cp_action cp = POLICY_ACTION_ENCRYPT_L3
                then st\<lparr>g_fake_protocol := (if g_fake_protocol st \<noteq> 0 then g_fake_protocol st else 99)\<rparr>
                else st)
      in st\<lparr>g_policy_id := wire_id cp\<rparr>)"

section \<open>Nonces\<close>

text \<open>
  The first four bytes carry the direction flag and 31 bits of the counter; the rest is a
  salt drawn once per thread.  The buffers hold sixteen bytes.
\<close>

definition nonce_head :: "u32 \<Rightarrow> byte \<Rightarrow> buf" where
  "nonce_head counter proto_flag =
     [push_bit 7 proto_flag OR (ucast (drop_bit 24 counter) AND 0x7F),
      ucast (drop_bit 16 counter), ucast (drop_bit 8 counter), ucast counter]"

definition crypto_generate_nonce ::
    "evp \<Rightarrow> crypto_state \<Rightarrow> u32 \<Rightarrow> byte \<Rightarrow> (buf \<times> crypto_state) option" where
  "crypto_generate_nonce E st counter proto_flag =
     (let ns = g_nonce_size st; head = nonce_head counter proto_flag
      in if ns > 4
         then let salt = (case tls_nonce_salt st of None \<Rightarrow> evp_rand E | Some s \<Rightarrow> s)
           in if ns \<le> 16
              then Some (head @ take (ns - 4) salt, st\<lparr>tls_nonce_salt := Some salt\<rparr>)
              else None
         else Some (head, st))"

definition crypto_nonce_to_iv :: "buf \<Rightarrow> nat \<Rightarrow> buf option" where
  "crypto_nonce_to_iv nonce nonce_size =
     (if nonce_size \<le> AES128_IV_SIZE
      then Some (take nonce_size nonce @ replicate (AES128_IV_SIZE - nonce_size) 0) else None)"

text \<open>\<^verbatim>\<open>memcpy(nonce, packet + off, nonce_size)\<close> into a buffer of sixteen bytes.\<close>

definition read_nonce :: "buf \<Rightarrow> nat \<Rightarrow> nat \<Rightarrow> buf option" where
  "read_nonce packet off nonce_size = (if nonce_size \<le> 16 then rdn packet off nonce_size else None)"

section \<open>Ciphers\<close>

definition crypto_aes_ctr_with_key :: "evp \<Rightarrow> crypto_state \<Rightarrow> buf \<Rightarrow> buf \<Rightarrow> buf \<Rightarrow> int \<times> buf" where
  "crypto_aes_ctr_with_key E st key iv data =
     (if c_int (length data) \<le> 0 then (0, data)
      else if \<not> evp_ctx_new E then (-1, data)
      else (0, evp_ctr E (cipher_bits (g_aes_bits st)) (take (get_key_size (g_aes_bits st)) key) iv data))"

text \<open>
  Selecting the cached context.  The cache is consulted with the key bytes and the nonce
  length; setting an IV length of zero is refused by OpenSSL.
\<close>

definition gcm_select :: "int \<Rightarrow> buf \<Rightarrow> nat \<Rightarrow> gcm_cache \<Rightarrow> gcm_cache option" where
  "gcm_select aes_bits key nonce_len c =
     (let key_size = get_key_size aes_bits;
          key_changed = (\<not> gc_key_cached c \<or> take key_size (gc_cached_key c) \<noteq> take key_size key \<or>
                         gc_cached_nonce_len c \<noteq> nonce_len)
      in if key_changed
         then (if nonce_len = 0 then None
               else Some (c\<lparr>gc_cached_key := take key_size key @ drop key_size (gc_cached_key c),
                            gc_key_cached := True, gc_cached_nonce_len := nonce_len,
                            gc_ctx_bits := cipher_bits aes_bits, gc_ctx_key := take key_size key\<rparr>))
         else Some c)"

text \<open>The tag is \<^term>\<open>None\<close> when the function returns without writing it.\<close>

definition crypto_aes_gcm_encrypt ::
    "evp \<Rightarrow> crypto_state \<Rightarrow> buf \<Rightarrow> buf \<Rightarrow> nat \<Rightarrow> buf \<Rightarrow> int \<times> buf \<times> buf option \<times> crypto_state" where
  "crypto_aes_gcm_encrypt E st key nonce nonce_len data =
     (if c_int (length data) \<le> 0 then (0, data, None, st)
      else if \<not> evp_ctx_new E then (-1, data, None, st)
      else case gcm_select (g_aes_bits st) key nonce_len (tls_enc st) of
        None \<Rightarrow> (-1, data, None, st)
      | Some c \<Rightarrow>
          let (ct, tag) = evp_gcm_seal E (gc_ctx_bits c) (gc_ctx_key c) (take nonce_len nonce) data
          in (0, ct, Some tag, st\<lparr>tls_enc := c\<rparr>))"

text \<open>The plaintext is written before the tag is verified.\<close>

definition crypto_aes_gcm_decrypt ::
    "evp \<Rightarrow> crypto_state \<Rightarrow> buf \<Rightarrow> buf \<Rightarrow> nat \<Rightarrow> buf \<Rightarrow> buf \<Rightarrow> int \<times> buf \<times> crypto_state" where
  "crypto_aes_gcm_decrypt E st key nonce nonce_len data tag =
     (if c_int (length data) \<le> 0 then (0, data, st)
      else if \<not> evp_ctx_new E then (-1, data, st)
      else case gcm_select (g_aes_bits st) key nonce_len (tls_dec st) of
        None \<Rightarrow> (-1, data, st)
      | Some c \<Rightarrow>
          let (pt, ok) = evp_gcm_open E (gc_ctx_bits c) (gc_ctx_key c) (take nonce_len nonce) data tag
          in (if ok then 0 else -1, pt, st\<lparr>tls_dec := c\<rparr>))"

section \<open>Tunnel headers\<close>

definition crypto_write_l3_tunnel_header ::
    "buf \<Rightarrow> nat \<Rightarrow> buf \<Rightarrow> nat \<Rightarrow> byte \<Rightarrow> byte \<Rightarrow> buf option" where
  "crypto_write_l3_tunnel_header b off nonce nonce_size policy_id orig_proto = do {
     b \<leftarrow> wrn b off (take nonce_size nonce);
     b \<leftarrow> wr b (off + nonce_size) policy_id;
     wr b (off + nonce_size + 1) orig_proto
   }"

definition crypto_read_l3_tunnel_header ::
    "buf \<Rightarrow> nat \<Rightarrow> nat \<Rightarrow> (buf \<times> byte \<times> byte) option" where
  "crypto_read_l3_tunnel_header b off nonce_size = do {
     nonce \<leftarrow> read_nonce b off nonce_size;
     policy_id \<leftarrow> rd b (off + nonce_size);
     orig_proto \<leftarrow> rd b (off + nonce_size + 1);
     Some (nonce, policy_id, orig_proto)
   }"

definition crypto_write_counter :: "buf \<Rightarrow> buf \<Rightarrow> nat \<Rightarrow> byte \<Rightarrow> byte \<Rightarrow> buf option" where
  "crypto_write_counter packet nonce nonce_size marker_byte policy_id = do {
     packet \<leftarrow> wr packet 12 marker_byte;
     packet \<leftarrow> wr packet 13 policy_id;
     wrn packet 14 (take nonce_size nonce)
   }"

definition crypto_read_counter :: "buf \<Rightarrow> nat \<Rightarrow> (buf \<times> byte) option" where
  "crypto_read_counter packet nonce_size = do {
     policy_id \<leftarrow> rd packet 13;
     nonce \<leftarrow> read_nonce packet 14 nonce_size;
     Some (nonce, policy_id)
   }"

definition crypto_restore_ipv4_header :: "buf \<Rightarrow> buf option" where
  "crypto_restore_ipv4_header packet = do { packet \<leftarrow> wr packet 12 0x08; wr packet 13 0x00 }"

text \<open>The four-byte fragment tag, shared by the three layers.\<close>

definition write_frag_tag :: "buf \<Rightarrow> nat \<Rightarrow> u16 \<Rightarrow> byte \<Rightarrow> buf option" where
  "write_frag_tag b off pkt_id frag_index = do {
     b \<leftarrow> wr16 b off pkt_id;
     b \<leftarrow> wr b (off + 2) frag_index;
     wr b (off + 3) 0
   }"

definition read_frag_tag :: "buf \<Rightarrow> nat \<Rightarrow> (u16 \<times> byte) option" where
  "read_frag_tag b off = do { pkt_id \<leftarrow> rd16 b off; i \<leftarrow> rd b (off + 2); Some (pkt_id, i) }"

text \<open>\<^verbatim>\<open>(byte & 0x0F) * 4\<close>.\<close>

definition ihl_bytes :: "byte \<Rightarrow> nat" where
  "ihl_bytes b = unat (b AND 0x0F) * 4"

type_synonym crypto_result = "(int \<times> buf \<times> crypto_state) option"

text \<open>
  Writing a new total length into an IPv4 header and recomputing its checksum
  (\<^verbatim>\<open>l3_patch_ipv4\<close>, and the same statements in \<^verbatim>\<open>l4_fix_ipv4_totlen_and_cksum\<close>).
\<close>

definition l3_patch_ipv4 :: "buf \<Rightarrow> nat \<Rightarrow> nat \<Rightarrow> u16 \<Rightarrow> buf option" where
  "l3_patch_ipv4 b off ip_hdr_len ip_total = do {
     b \<leftarrow> wr16 b (off + 2) ip_total;
     b \<leftarrow> wr16 b (off + 10) 0;
     ip \<leftarrow> rdn b off ip_hdr_len;
     wr16 b (off + 10) (crypto_calc_ip_checksum ip)
   }"

section \<open>One authenticated or plain encryption of a payload\<close>

text \<open>
  The mode switch that every encrypting function repeats: GCM gives a tag to append, CTR
  derives its counter block from the nonce and appends nothing.
\<close>

definition seal_data ::
    "evp \<Rightarrow> crypto_state \<Rightarrow> buf \<Rightarrow> buf \<Rightarrow> buf \<Rightarrow> ((buf \<times> buf) option \<times> crypto_state) option" where
  "seal_data E st key nonce data =
     (if is_gcm_mode st
      then let (rc, ct, tag, st) = crypto_aes_gcm_encrypt E st key nonce (g_nonce_size st) data
        in if rc \<noteq> 0 then Some (None, st)
           else do { tag \<leftarrow> tag; Some (Some (ct, tag), st) }
      else do {
        iv \<leftarrow> crypto_nonce_to_iv nonce (g_nonce_size st);
        let (rc, ct) = crypto_aes_ctr_with_key E st key iv data;
        if rc \<noteq> 0 then Some (None, st) else Some (Some (ct, []), st)
      })"

definition open_data ::
    "evp \<Rightarrow> crypto_state \<Rightarrow> buf \<Rightarrow> buf \<Rightarrow> buf \<Rightarrow> buf \<Rightarrow> (bool \<times> buf \<times> crypto_state) option" where
  "open_data E st key nonce tag data =
     (if is_gcm_mode st
      then let (rc, pt, st) = crypto_aes_gcm_decrypt E st key nonce (g_nonce_size st) data tag
        in Some (rc = 0, pt, st)
      else do {
        iv \<leftarrow> crypto_nonce_to_iv nonce (g_nonce_size st);
        let (rc, pt) = crypto_aes_ctr_with_key E st key iv data;
        Some (rc = 0, pt, st)
      })"

definition tag_size :: "crypto_state \<Rightarrow> nat" where
  "tag_size st = (if is_gcm_mode st then AES128_GCM_TAG_SIZE else 0)"

text \<open>
  The loop over the key slots.  A copy of the ciphertext is kept when it fits in 2048 bytes
  and is restored before every further attempt; a longer one is decrypted again in place.
\<close>

fun try_keys ::
    "evp \<Rightarrow> packet_crypto_ctx \<Rightarrow> (buf \<Rightarrow> bool) \<Rightarrow> buf \<Rightarrow> buf \<Rightarrow> buf \<Rightarrow> bool \<Rightarrow> int list \<Rightarrow> buf \<Rightarrow> crypto_state \<Rightarrow>
     (buf option \<times> buf \<times> crypto_state) option" where
  "try_keys E ctx verify nonce tag backup first [] data st = Some (None, data, st)"
| "try_keys E ctx verify nonce tag backup first (slot # slots) data st =
     (case packet_crypto_get_key ctx slot of
        None \<Rightarrow> try_keys E ctx verify nonce tag backup False slots data st
      | Some key \<Rightarrow> do {
          let work = (if \<not> first \<and> length backup \<le> 2048 then backup else data);
          (ok, work, st) \<leftarrow> open_data E st key nonce tag work;
          if ok \<and> verify work then Some (Some work, work, st)
          else try_keys E ctx verify nonce tag backup False slots work st
        })"

definition key_order :: "int list" where
  "key_order = [KEY_SLOT_CURRENT, KEY_SLOT_PREV, KEY_SLOT_NEXT]"

section \<open>Searching the policies\<close>

text \<open>
  The loops that look for a policy test at most \<^verbatim>\<open>MAX_CRYPTO_POLICIES\<close> entries and stop at
  the first that passes; the test reads the packet.
\<close>

fun first_policy :: "(crypto_policy \<Rightarrow> bool option) \<Rightarrow> crypto_policy list \<Rightarrow> crypto_policy option option" where
  "first_policy P [] = Some None"
| "first_policy P (cp # cps) = do { m \<leftarrow> P cp; if m then Some (Some cp) else first_policy P cps }"

text \<open>
  The test that finds the policy of a tunnel header at \<open>tunnel_off\<close>: a policy of the layer with
  a nonce, whose nonce size puts the magic byte and its own wire id in the right places.
\<close>

definition tunnel_match :: "int \<Rightarrow> byte \<Rightarrow> buf \<Rightarrow> nat \<Rightarrow> nat \<Rightarrow> crypto_policy \<Rightarrow> bool option" where
  "tunnel_match action magic pkt pkt_len tunnel_off cp =
     (if cp_action cp \<noteq> action \<or> cp_nonce_size cp = 0 then Some False
      else if tunnel_off + cp_nonce_size cp + 1 \<ge> pkt_len then Some False
      else do {
        m \<leftarrow> rd pkt (tunnel_off + cp_nonce_size cp + 1);
        i \<leftarrow> rd pkt (tunnel_off + cp_nonce_size cp);
        Some (m = magic \<and> i = wire_id cp)
      })"

section \<open>The cached GCM contexts\<close>

text \<open>The reference: every packet initialises a fresh context with its own key.\<close>

definition cipher_of :: "int \<Rightarrow> buf \<Rightarrow> int \<times> buf" where
  "cipher_of aes_bits key = (cipher_bits aes_bits, take (get_key_size aes_bits) key)"

text \<open>The context of a cache agrees with the bytes it is compared by, at one key width.\<close>

definition cache_ok :: "int \<Rightarrow> gcm_cache \<Rightarrow> bool" where
  "cache_ok aes_bits c \<longleftrightarrow>
     (gc_key_cached c \<longrightarrow> (gc_ctx_bits c, gc_ctx_key c) = cipher_of aes_bits (gc_cached_key c))"

lemma cache_ok_init [simp]: "cache_ok bits gcm_cache_init"
  by (simp add: cache_ok_def gcm_cache_init_def)

lemma gcm_select_ok:
  assumes "cache_ok bits c" and "0 < n" and "get_key_size bits \<le> length key"
  shows "\<exists>c'. gcm_select bits key n c = Some c' \<and> cache_ok bits c' \<and>
    (gc_ctx_bits c', gc_ctx_key c') = cipher_of bits key"
  using assms by (auto simp: gcm_select_def cache_ok_def cipher_of_def Let_def)

text \<open>
  The comparison looks at the key bytes and the nonce length and not at the cipher width:
  after a 256-bit key, a 128-bit key with the same first sixteen bytes runs in the AES-256
  context.
\<close>

theorem gcm_cache_ignores_key_width:
  assumes "length k256 = 32" and "take 16 k128 = take 16 k256" and "0 < n"
    and "gcm_select 256 k256 n gcm_cache_init = Some c"
  shows "gcm_select 128 k128 n c = Some c \<and> (gc_ctx_bits c, gc_ctx_key c) = (256, k256) \<and>
    (gc_ctx_bits c, gc_ctx_key c) \<noteq> cipher_of 128 k128"
  using assms by (auto simp: gcm_select_def gcm_cache_init_def cipher_of_def get_key_size_def
      cipher_bits_def Let_def)

section \<open>Encryption and decryption of a payload\<close>

text \<open>What sealing and opening compute when no cache is in the way.\<close>

definition iv_of :: "buf \<Rightarrow> nat \<Rightarrow> buf" where
  "iv_of nonce ns = take ns nonce @ replicate (AES128_IV_SIZE - ns) 0"

definition seal_ref :: "evp \<Rightarrow> crypto_state \<Rightarrow> buf \<Rightarrow> buf \<Rightarrow> buf \<Rightarrow> buf \<times> buf" where
  "seal_ref E st key nonce data =
     (let (bits, k) = cipher_of (g_aes_bits st) key; ns = g_nonce_size st
      in if is_gcm_mode st then evp_gcm_seal E bits k (take ns nonce) data
         else (evp_ctr E bits k (iv_of nonce ns) data, []))"

definition open_ref :: "evp \<Rightarrow> crypto_state \<Rightarrow> buf \<Rightarrow> buf \<Rightarrow> buf \<Rightarrow> buf \<Rightarrow> buf \<times> bool" where
  "open_ref E st key nonce tag data =
     (let (bits, k) = cipher_of (g_aes_bits st) key; ns = g_nonce_size st
      in if is_gcm_mode st then evp_gcm_open E bits k (take ns nonce) data tag
         else (evp_ctr E bits k (iv_of nonce ns) data, True))"

text \<open>A thread that is set up for a policy: a usable nonce size and consistent caches.\<close>

definition crypto_ready :: "evp \<Rightarrow> crypto_state \<Rightarrow> bool" where
  "crypto_ready E st \<longleftrightarrow> evp_ok E \<and> 4 \<le> g_nonce_size st \<and> g_nonce_size st \<le> 16 \<and>
     cache_ok (g_aes_bits st) (tls_enc st) \<and> cache_ok (g_aes_bits st) (tls_dec st) \<and>
     (\<forall>s. tls_nonce_salt st = Some s \<longrightarrow> length s = 16)"

lemma key_size_le: "length key = 32 \<Longrightarrow> get_key_size bits \<le> length key"
  by (simp add: get_key_size_def)

lemma c_int_le_0_iff: "n < 2 ^ 31 \<Longrightarrow> c_int n \<le> 0 \<longleftrightarrow> n = 0"
  by simp

lemma seal_data_ref:
  assumes "crypto_ready E st" and "length key = 32" and "data \<noteq> []" and "length data < 2 ^ 31"
  shows "\<exists>c. seal_data E st key nonce data = Some (Some (seal_ref E st key nonce data), st\<lparr>tls_enc := c\<rparr>) \<and>
    cache_ok (g_aes_bits st) c"
proof (cases "is_gcm_mode st")
  case True
  obtain c where c: "gcm_select (g_aes_bits st) key (g_nonce_size st) (tls_enc st) = Some c"
    "cache_ok (g_aes_bits st) c" "(gc_ctx_bits c, gc_ctx_key c) = cipher_of (g_aes_bits st) key"
    using gcm_select_ok [of "g_aes_bits st" "tls_enc st" "g_nonce_size st" key] assms(1)
      key_size_le [OF assms(2), of "g_aes_bits st"] by (auto simp: crypto_ready_def)
  then show ?thesis using assms True
    by (auto simp: seal_data_def crypto_aes_gcm_encrypt_def seal_ref_def crypto_ready_def evp_ok_def
        c_int_le_0_iff cipher_of_def split: prod.splits)
next
  case False
  then show ?thesis using assms
    by (auto simp: seal_data_def crypto_aes_ctr_with_key_def seal_ref_def crypto_ready_def evp_ok_def
        c_int_le_0_iff cipher_of_def crypto_nonce_to_iv_def iv_of_def Let_def intro!: exI [of _ "tls_enc st"])
qed

lemma open_data_ref:
  assumes "crypto_ready E st" and "length key = 32" and "data \<noteq> []" and "length data < 2 ^ 31"
  shows "\<exists>c. open_data E st key nonce tag data =
      Some (snd (open_ref E st key nonce tag data), fst (open_ref E st key nonce tag data), st\<lparr>tls_dec := c\<rparr>) \<and>
    cache_ok (g_aes_bits st) c"
proof (cases "is_gcm_mode st")
  case True
  obtain c where c: "gcm_select (g_aes_bits st) key (g_nonce_size st) (tls_dec st) = Some c"
    "cache_ok (g_aes_bits st) c" "(gc_ctx_bits c, gc_ctx_key c) = cipher_of (g_aes_bits st) key"
    using gcm_select_ok [of "g_aes_bits st" "tls_dec st" "g_nonce_size st" key] assms(1)
      key_size_le [OF assms(2), of "g_aes_bits st"] by (auto simp: crypto_ready_def)
  then show ?thesis using assms True
    by (auto simp: open_data_def crypto_aes_gcm_decrypt_def open_ref_def crypto_ready_def evp_ok_def
        c_int_le_0_iff cipher_of_def split: prod.splits)
next
  case False
  then show ?thesis using assms
    by (auto simp: open_data_def crypto_aes_ctr_with_key_def open_ref_def crypto_ready_def evp_ok_def
        c_int_le_0_iff cipher_of_def crypto_nonce_to_iv_def iv_of_def Let_def intro!: exI [of _ "tls_dec st"])
qed

text \<open>Two threads that use the same policy, whatever their counters, salts and caches are.\<close>

definition same_policy :: "crypto_state \<Rightarrow> crypto_state \<Rightarrow> bool" where
  "same_policy st st' \<longleftrightarrow> g_crypto_mode st' = g_crypto_mode st \<and> g_nonce_size st' = g_nonce_size st \<and>
     g_aes_bits st' = g_aes_bits st \<and> g_fake_protocol st' = g_fake_protocol st \<and>
     g_fake_ethertype_ipv4 st' = g_fake_ethertype_ipv4 st"

lemma mode_updates [simp]:
  "is_gcm_mode (st\<lparr>tls_dec := c\<rparr>) = is_gcm_mode st" "is_gcm_mode (st\<lparr>tls_enc := c\<rparr>) = is_gcm_mode st"
  "is_gcm_mode (st\<lparr>g_nonce_counter := n\<rparr>) = is_gcm_mode st"
  by (simp_all add: is_gcm_mode_def)

lemma same_policyD:
  assumes "same_policy st st'"
  shows "is_gcm_mode st' = is_gcm_mode st" and "g_nonce_size st' = g_nonce_size st"
    and "g_aes_bits st' = g_aes_bits st" and "g_fake_protocol st' = g_fake_protocol st"
    and "g_fake_ethertype_ipv4 st' = g_fake_ethertype_ipv4 st" and "tag_size st' = tag_size st"
    and "packet_crypto_get_tunnel_hdr_size st' = packet_crypto_get_tunnel_hdr_size st"
    and "open_ref E st' = open_ref E st" and "seal_ref E st' = seal_ref E st"
  using assms by (auto simp: same_policy_def is_gcm_mode_def tag_size_def seal_ref_def open_ref_def
      packet_crypto_get_tunnel_hdr_size_def fun_eq_iff Let_def)

lemma open_seal_ref:
  "evp_ok E \<Longrightarrow> open_ref E st key nonce (snd (seal_ref E st key nonce d)) (fst (seal_ref E st key nonce d))
     = (d, True)"
  by (cases "is_gcm_mode st") (simp_all add: open_ref_def seal_ref_def evp_ok_def cipher_of_def Let_def)

lemma seal_ref_lengths:
  assumes "evp_ok E"
  shows "length (fst (seal_ref E st key nonce d)) = length d"
    and "length (snd (seal_ref E st key nonce d)) = tag_size st"
  using assms by (simp_all add: seal_ref_def evp_ok_def cipher_of_def tag_size_def Let_def)

section \<open>Keys of a context\<close>

definition ctx_ok :: "packet_crypto_ctx \<Rightarrow> bool" where
  "ctx_ok ctx \<longleftrightarrow> pc_initialized ctx \<and> length (pc_keys ctx) = 3 \<and> (\<forall>k \<in> set (pc_keys ctx). length k = 32)"

abbreviation (input) current_key :: "packet_crypto_ctx \<Rightarrow> buf" where
  "current_key ctx \<equiv> pc_keys ctx ! 1"

lemma ctx_ok_current:
  "ctx_ok ctx \<Longrightarrow> packet_crypto_get_key ctx KEY_SLOT_CURRENT = Some (current_key ctx) \<and>
     length (current_key ctx) = 32"
  by (auto simp: ctx_ok_def packet_crypto_get_key_def)

lemma packet_crypto_init_ok:
  assumes "evp_ok E" and "length master = 32"
  shows "ctx_ok (fst (snd (packet_crypto_init E st master)))"
  using assms by (auto simp: packet_crypto_init_def ctx_ok_def derive_key_def evp_ok_def
      get_key_size_def Let_def)

text \<open>The loop over the key slots succeeds at once when the sender used the current key.\<close>

lemma try_keys_current:
  fixes nonce :: buf
  assumes "crypto_ready E st" and "ctx_ok ctx" and "d \<noteq> []" and "length d < 2 ^ 31" and "verify d"
  defines "s \<equiv> seal_ref E st (current_key ctx) nonce d"
  shows "\<exists>c. try_keys E ctx verify nonce (snd s) backup True key_order (fst s) st =
      Some (Some d, d, st\<lparr>tls_dec := c\<rparr>) \<and> cache_ok (g_aes_bits st) c"
proof -
  have E: "evp_ok E" using assms(1) by (simp add: crypto_ready_def)
  have len: "length (fst s) = length d" by (simp add: s_def seal_ref_lengths [OF E])
  then have "fst s \<noteq> []" using assms(3) by (metis length_0_conv)
  then obtain c where "open_data E st (current_key ctx) nonce (snd s) (fst s) =
      Some (True, d, st\<lparr>tls_dec := c\<rparr>)" "cache_ok (g_aes_bits st) c"
    using open_data_ref [OF assms(1), of "current_key ctx" "fst s" nonce "snd s"] assms(2,4) len
      open_seal_ref [OF E, of st "current_key ctx" nonce d] ctx_ok_current [OF assms(2)]
    by (auto simp: s_def)
  then show ?thesis using ctx_ok_current [OF assms(2)] assms(5) by (auto simp: key_order_def)
qed

section \<open>Nonces\<close>

lemma generate_nonce_ready:
  assumes "crypto_ready E st"
  shows "\<exists>nonce st'. crypto_generate_nonce E st counter flag = Some (nonce, st') \<and>
    length nonce = g_nonce_size st \<and> take 4 nonce = nonce_head counter flag \<and>
    crypto_ready E st' \<and> same_policy st st' \<and> g_policy_id st' = g_policy_id st"
proof (cases "g_nonce_size st > 4")
  case True
  then show ?thesis using assms
    by (auto simp: crypto_generate_nonce_def crypto_ready_def evp_ok_def nonce_head_def same_policy_def
        Let_def split: option.split)
next
  case False
  then have "g_nonce_size st = 4" using assms by (simp add: crypto_ready_def)
  then show ?thesis using assms
    by (auto simp: crypto_generate_nonce_def nonce_head_def same_policy_def Let_def)
qed

section \<open>Writing headers\<close>

lemma write_tunnel_header_at:
  assumes "off = length a" and "length j = ns + 2" and "length nonce = ns"
  shows "crypto_write_l3_tunnel_header (a @ j @ c) off nonce ns pid m =
    Some (a @ nonce @ [pid, m] @ c)"
proof -
  have "drop ns j = j ! ns # drop (Suc ns) j" using assms(2) by (simp add: Cons_nth_drop_Suc)
  also have "drop (Suc ns) j = [j ! Suc ns]" using assms(2) by (simp add: Cons_nth_drop_Suc [symmetric])
  finally have "j = take ns j @ [j ! ns, j ! Suc ns]" by (metis append_take_drop_id)
  then obtain j1 x y where "j = j1 @ [x, y]" "length j1 = ns" using assms(2) by auto
  then show ?thesis using assms
    by (simp add: crypto_write_l3_tunnel_header_def list_update_append)
qed

text \<open>The bytes of a header after \<^verbatim>\<open>l3_patch_ipv4\<close>.\<close>

definition patched :: "buf \<Rightarrow> nat \<Rightarrow> nat \<Rightarrow> u16 \<Rightarrow> buf" where
  "patched b off n t =
     (let z = b[off + 2 := hi8 t, off + 3 := lo8 t, off + 10 := 0, off + 11 := 0];
          c = crypto_calc_ip_checksum (take n (drop off z))
      in z[off + 10 := hi8 c, off + 11 := lo8 c])"

lemma hi_lo_zero [simp]: "hi8 0 = 0" "lo8 0 = 0"
  by (simp_all add: hi8_def lo8_def)

lemma l3_patch_ipv4_patched:
  "12 \<le> n \<Longrightarrow> off + n \<le> length b \<Longrightarrow> l3_patch_ipv4 b off n t = Some (patched b off n t)"
  by (simp add: l3_patch_ipv4_def patched_def Let_def numeral_eq_Suc)

lemma length_patched [simp]: "length (patched b off n t) = length b"
  by (simp add: patched_def Let_def)

lemma patched_nth:
  "i \<notin> {off + 2, off + 3, off + 10, off + 11} \<Longrightarrow> patched b off n t ! i = b ! i"
  by (auto simp: patched_def Let_def)

lemma patched_append:
  "12 \<le> n \<Longrightarrow> off + n \<le> length b \<Longrightarrow> patched (b @ c) off n t = patched b off n t @ c"
  by (simp add: patched_def Let_def list_update_append)

lemma patched_patched:
  "12 \<le> n \<Longrightarrow> off + n \<le> length b \<Longrightarrow> patched (patched b off n t) off n u = patched b off n u"
proof -
  assume "12 \<le> n" "off + n \<le> length b"
  then have "(patched b off n t)[off + 2 := hi8 u, off + 3 := lo8 u, off + 10 := 0, off + 11 := 0] =
      b[off + 2 := hi8 u, off + 3 := lo8 u, off + 10 := 0, off + 11 := 0]"
    by (intro nth_equalityI) (auto simp: patched_def Let_def nth_list_update)
  then show ?thesis by (simp add: patched_def Let_def)
qed

lemma patched_upd_patched:
  assumes "12 \<le> n" and "off + n \<le> length b" and "i \<notin> {off + 2, off + 3, off + 10, off + 11}"
  shows "patched ((patched b off n t)[i := x]) off n u = patched (b[i := x]) off n u"
proof -
  have "((patched b off n t)[i := x])[off + 2 := hi8 u, off + 3 := lo8 u, off + 10 := 0, off + 11 := 0] =
      (b[i := x])[off + 2 := hi8 u, off + 3 := lo8 u, off + 10 := 0, off + 11 := 0]"
  proof (rule nth_equalityI)
    fix j
    assume "j < length (((patched b off n t)[i := x])[off + 2 := hi8 u, off + 3 := lo8 u, off + 10 := 0, off + 11 := 0])"
    then show "((patched b off n t)[i := x])[off + 2 := hi8 u, off + 3 := lo8 u, off + 10 := 0, off + 11 := 0] ! j =
        (b[i := x])[off + 2 := hi8 u, off + 3 := lo8 u, off + 10 := 0, off + 11 := 0] ! j"
      using assms by (cases "i = j") (simp_all add: nth_list_update patched_nth)
  qed simp
  then show ?thesis by (simp add: patched_def Let_def)
qed

text \<open>A patched header has a checksum that verifies.\<close>

lemma patched_checksum:
  assumes "12 \<le> n" and "n \<le> 60" and "off + n \<le> length b"
  shows "crypto_calc_ip_checksum (take n (drop off (patched b off n t))) = 0"
proof -
  let ?z = "b[off + 2 := hi8 t, off + 3 := lo8 t, off + 10 := 0, off + 11 := 0]"
  let ?h = "take n (drop off ?z)"
  have h0: "?h[10 := 0, 11 := 0] = ?h"
    using assms by (intro nth_equalityI) (auto simp: nth_list_update)
  have "take n (drop off (patched b off n t)) =
      ?h[10 := hi8 (crypto_calc_ip_checksum ?h), 11 := lo8 (crypto_calc_ip_checksum ?h)]"
    using assms by (intro nth_equalityI) (auto simp: patched_def Let_def nth_list_update)
  then show ?thesis using ip_checksum_verifies [of ?h] assms h0 by simp
qed

section \<open>Layout of sealed packets\<close>

text \<open>
  The in-place steps that the layers 3 and 4 share: the plaintext at \<open>off\<close> is replaced by the
  ciphertext, shifted to make room for the tunnel header, and followed by the tag.
\<close>

lemma seal_layout:
  assumes "off = length H" and "length ct = n" and "length plain = n" and "length nonce = ns"
    and "ns + 2 + length tag \<le> length slack"
  shows "do { p \<leftarrow> wrn (H @ plain @ slack) off ct;
              p \<leftarrow> mem_move p (off + (ns + 2)) off n;
              p \<leftarrow> wrn p (off + (ns + 2) + n) tag;
              crypto_write_l3_tunnel_header p off nonce ns pid m } =
    Some (H @ nonce @ [pid, m] @ ct @ tag @ drop (ns + 2 + length tag) slack)"
proof -
  define th where "th = ns + 2"
  define J where "J = take th (ct @ slack)"
  define T where "T = take (length tag) (drop th slack)"
  have slack: "drop th slack = T @ drop (th + length tag) slack"
    by (metis T_def add.commute append_take_drop_id drop_drop)
  have lens: "length J = th" "length T = length tag" "th \<le> length slack"
    using assms(5) by (simp_all add: J_def T_def th_def)
  have 1: "wrn (H @ plain @ slack) off ct = Some (H @ ct @ slack)"
    using assms by (intro wrn_at) auto
  have "take (off + th) (H @ ct @ slack) = H @ J" using assms(1) by (simp add: J_def)
  moreover have "drop (off + th + n) (H @ ct @ slack) = drop th slack" using assms(1,2) by simp
  moreover have "rdn (H @ ct @ slack) off n = Some ct" using assms by (intro rdn_at) auto
  moreover have "off + th + n \<le> length (H @ ct @ slack)" using assms lens(3) by simp
  ultimately have 2: "mem_move (H @ ct @ slack) (off + th) off n = Some (H @ J @ ct @ drop th slack)"
    using assms(2) by (simp add: mem_move_def wrn_def)
  have 3: "wrn (H @ J @ ct @ drop th slack) (off + th + n) tag =
      Some (H @ J @ ct @ tag @ drop (th + length tag) slack)"
    using wrn_at [of "off + th + n" "H @ J @ ct" T tag "drop (th + length tag) slack"] assms lens
    by (simp add: slack)
  have 4: "crypto_write_l3_tunnel_header (H @ J @ ct @ tag @ drop (th + length tag) slack) off nonce ns pid m =
      Some (H @ nonce @ [pid, m] @ ct @ tag @ drop (th + length tag) slack)"
    using assms lens by (intro write_tunnel_header_at) (auto simp: th_def)
  show ?thesis using 1 2 3 4 by (simp add: th_def)
qed

text \<open>Moving the decrypted data back over the tunnel header.\<close>

lemma unseal_layout:
  assumes "off = length H" and "length th_hdr = th" and "length plain = n" and "length ct = n"
  shows "\<exists>R. do { p \<leftarrow> wrn (H @ th_hdr @ ct @ rest) (off + th) plain; mem_move p off (off + th) n } =
    Some (H @ plain @ R) \<and> length R = th + length rest"
proof -
  have 1: "wrn (H @ th_hdr @ ct @ rest) (off + th) plain = Some (H @ th_hdr @ plain @ rest)"
    using wrn_at [of "off + th" "H @ th_hdr" ct plain rest] assms by simp
  have "rdn (H @ th_hdr @ plain @ rest) (off + th) n = Some plain"
    using rdn_at [of "off + th" "H @ th_hdr" n plain rest] assms by simp
  moreover have "wrn (H @ th_hdr @ plain @ rest) off plain =
      Some (H @ plain @ drop n (th_hdr @ plain @ rest))"
    using assms by simp
  ultimately have "mem_move (H @ th_hdr @ plain @ rest) off (off + th) n =
      Some (H @ plain @ drop n (th_hdr @ plain @ rest))"
    by (simp add: mem_move_def)
  moreover have "length (drop n (th_hdr @ plain @ rest)) = th + length rest" using assms by simp
  ultimately show ?thesis using 1 by auto
qed

text \<open>Fragments are built in a frame of their own, with a tag between header and ciphertext.\<close>

lemma split_lengths:
  assumes "a + b + c + d \<le> length X"
  obtains A B C D where "X = A @ B @ C @ D @ drop (a + b + c + d) X"
    and "length A = a" and "length B = b" and "length C = c" and "length D = d"
proof -
  have "X = take a X @ drop a X" by simp
  also have "drop a X = take b (drop a X) @ drop (a + b) X"
    by (metis add.commute append_take_drop_id drop_drop)
  also have "drop (a + b) X = take c (drop (a + b) X) @ drop (a + b + c) X"
    by (metis add.commute append_take_drop_id drop_drop)
  also have "drop (a + b + c) X = take d (drop (a + b + c) X) @ drop (a + b + c + d) X"
    by (metis add.commute append_take_drop_id drop_drop)
  finally show ?thesis using that assms by simp
qed

lemma write_frag_tag_at:
  assumes "off = length a" and "length j = 4"
  shows "write_frag_tag (a @ j @ c) off pkt_id i = Some (a @ [hi8 pkt_id, lo8 pkt_id, i, 0] @ c)"
proof -
  obtain w x y z where j: "j = [w, x, y, z]"
    using assms(2) by (auto simp: numeral_eq_Suc length_Suc_conv)
  show ?thesis using assms(1)
    by (simp add: j write_frag_tag_def list_update_append numeral_eq_Suc)
qed

lemma read_frag_tag_at:
  "off = length a \<Longrightarrow> read_frag_tag (a @ [hi8 pkt_id, lo8 pkt_id, i, 0] @ c) off = Some (pkt_id, i)"
  by (simp add: read_frag_tag_def rd16_def nth_append numeral_eq_Suc)

text \<open>The common end of the two fragment builders: seal in place and append the tag.\<close>

lemma frag_layout:
  fixes H nonce :: buf and pid m i :: byte and pkt_id :: u16
  assumes "off = length H" and "length nonce = ns" and "length plain = n" and "length ct = n"
    and th: "th = ns + 2" and room: "th + 4 + n + length tag \<le> length X"
  defines "F \<equiv> H @ nonce @ [pid, m] @ [hi8 pkt_id, lo8 pkt_id, i, 0]"
  shows "do { q \<leftarrow> wrn (H @ X) (off + th + 4) plain;
              q \<leftarrow> crypto_write_l3_tunnel_header q off nonce ns pid m;
              q \<leftarrow> write_frag_tag q (off + th) pkt_id i;
              q \<leftarrow> wrn q (off + th + 4) ct;
              wrn q (off + th + 4 + n) tag } =
      Some (F @ ct @ tag @ drop (th + 4 + n + length tag) X)"
    and "do { q \<leftarrow> crypto_write_l3_tunnel_header (H @ X) off nonce ns pid m;
              q \<leftarrow> write_frag_tag q (off + th) pkt_id i;
              q \<leftarrow> wrn q (off + th + 4) plain;
              q \<leftarrow> wrn q (off + th + 4) ct;
              wrn q (off + th + 4 + n) tag } =
      Some (F @ ct @ tag @ drop (th + 4 + n + length tag) X)"
proof -
  obtain A B C D where X: "X = A @ B @ C @ D @ drop (th + 4 + n + length tag) X"
    and l: "length A = th" "length B = 4" "length C = n" "length D = length tag"
    using split_lengths [OF room] by blast
  define R where "R = drop (th + 4 + n + length tag) X"
  have X: "X = A @ B @ C @ D @ R" using X unfolding R_def .
  let ?T = "[hi8 pkt_id, lo8 pkt_id, i, 0]"
  have w: "wrn (H @ A @ B @ Z @ D @ R) (off + th + 4) Z' = Some (H @ A @ B @ Z' @ D @ R)"
    if "length Z = n" "length Z' = n" for Z Z'
    using wrn_at [of "off + th + 4" "H @ A @ B" Z Z' "D @ R"] assms(1) l that by simp
  have h: "crypto_write_l3_tunnel_header (H @ A @ Y) off nonce ns pid m = Some (H @ nonce @ [pid, m] @ Y)" for Y
    using assms(1,2) th l by (intro write_tunnel_header_at) auto
  have t: "write_frag_tag (H @ nonce @ [pid, m] @ B @ Y) (off + th) pkt_id i =
      Some (H @ nonce @ [pid, m] @ ?T @ Y)" for Y
    using write_frag_tag_at [of "off + th" "H @ nonce @ [pid, m]" B Y pkt_id i] assms(1-4) th l by simp
  have c: "wrn (H @ nonce @ [pid, m] @ ?T @ Z @ D @ R) (off + th + 4) Z' =
      Some (H @ nonce @ [pid, m] @ ?T @ Z' @ D @ R)" if "length Z = n" "length Z' = n" for Z Z'
    using wrn_at [of "off + th + 4" "H @ nonce @ [pid, m] @ ?T" Z Z' "D @ R"] assms(1-4) th l that by simp
  have g: "wrn (H @ nonce @ [pid, m] @ ?T @ ct @ D @ R) (off + th + 4 + n) tag =
      Some (H @ nonce @ [pid, m] @ ?T @ ct @ tag @ R)"
    using wrn_at [of "off + th + 4 + n" "H @ nonce @ [pid, m] @ ?T @ ct" D tag R] assms(1-4) th l by simp
  show "do { q \<leftarrow> wrn (H @ X) (off + th + 4) plain;
              q \<leftarrow> crypto_write_l3_tunnel_header q off nonce ns pid m;
              q \<leftarrow> write_frag_tag q (off + th) pkt_id i;
              q \<leftarrow> wrn q (off + th + 4) ct;
              wrn q (off + th + 4 + n) tag } =
      Some (F @ ct @ tag @ drop (th + 4 + n + length tag) X)"
    using w [of C plain] h t c [of plain ct] g assms(3,4) l
    by (simp add: X F_def del: wrn_Some)
  show "do { q \<leftarrow> crypto_write_l3_tunnel_header (H @ X) off nonce ns pid m;
              q \<leftarrow> write_frag_tag q (off + th) pkt_id i;
              q \<leftarrow> wrn q (off + th + 4) plain;
              q \<leftarrow> wrn q (off + th + 4) ct;
              wrn q (off + th + 4 + n) tag } =
      Some (F @ ct @ tag @ drop (th + 4 + n + length tag) X)"
    using h t c [of C plain] c [of plain ct] g assms(3,4) l
    by (simp add: X F_def del: wrn_Some)
qed

section \<open>Sealing one packet\<close>

lemma crypto_ready_updates:
  "crypto_ready E (st\<lparr>g_nonce_counter := n\<rparr>) = crypto_ready E st"
  "crypto_ready E st \<Longrightarrow> cache_ok (g_aes_bits st) c \<Longrightarrow> crypto_ready E (st\<lparr>tls_enc := c\<rparr>)"
  "crypto_ready E st \<Longrightarrow> cache_ok (g_aes_bits st) c \<Longrightarrow> crypto_ready E (st\<lparr>tls_dec := c\<rparr>)"
  by (auto simp: crypto_ready_def)

lemma same_policy_updates [simp]:
  "same_policy st (st'\<lparr>g_nonce_counter := n\<rparr>) = same_policy st st'"
  "same_policy (st\<lparr>g_nonce_counter := n\<rparr>) st' = same_policy st st'"
  "same_policy st (st'\<lparr>tls_enc := c\<rparr>) = same_policy st st'"
  "same_policy st (st'\<lparr>tls_dec := c\<rparr>) = same_policy st st'"
  "same_policy st st"
  by (auto simp: same_policy_def)

lemma same_policy_sym: "same_policy a b \<Longrightarrow> same_policy b a"
  by (simp add: same_policy_def)

lemma same_policy_trans: "same_policy a b \<Longrightarrow> same_policy b c \<Longrightarrow> same_policy a c"
  by (simp add: same_policy_def)

text \<open>Counter, nonce and cipher, as every encrypting function of the program calls them.\<close>

lemma fresh_seal:
  assumes "crypto_ready E st" and "length key = 32" and "plain \<noteq> []" and "length plain < 2 ^ 31"
    and cnt: "packet_crypto_next_counter st = (counter, st0)"
  shows "\<exists>nonce st1 st2. crypto_generate_nonce E st0 counter PROTO_FLAG_IPV4 = Some (nonce, st1) \<and>
    seal_data E st1 key nonce plain = Some (Some (seal_ref E st key nonce plain), st2) \<and>
    length nonce = g_nonce_size st \<and> take 4 nonce = nonce_head counter PROTO_FLAG_IPV4 \<and>
    crypto_ready E st2 \<and> same_policy st st1 \<and> same_policy st st2 \<and>
    g_policy_id st1 = g_policy_id st \<and> g_policy_id st2 = g_policy_id st"
proof -
  have st0: "st0 = st\<lparr>g_nonce_counter := g_nonce_counter st + 1\<rparr>"
    using cnt by (simp add: packet_crypto_next_counter_def)
  obtain nonce st1 where n: "crypto_generate_nonce E st0 counter PROTO_FLAG_IPV4 = Some (nonce, st1)"
    "length nonce = g_nonce_size st0" "take 4 nonce = nonce_head counter PROTO_FLAG_IPV4"
    "crypto_ready E st1" "same_policy st0 st1" "g_policy_id st1 = g_policy_id st0"
    using generate_nonce_ready [of E st0 counter PROTO_FLAG_IPV4] assms(1)
    by (auto simp: st0 crypto_ready_updates)
  obtain c where s: "seal_data E st1 key nonce plain =
      Some (Some (seal_ref E st1 key nonce plain), st1\<lparr>tls_enc := c\<rparr>)" "cache_ok (g_aes_bits st1) c"
    using seal_data_ref [OF n(4) assms(2-4)] by blast
  have same: "same_policy st st1" using n(5) by (simp add: st0)
  have "crypto_ready E (st1\<lparr>tls_enc := c\<rparr>)" using n(4) s(2) by (rule crypto_ready_updates)
  then show ?thesis using n s same same_policyD(9) [OF same, of E] by (auto simp: st0)
qed

text \<open>The direction flag of an outgoing nonce is zero.\<close>

lemma nonce_head_top_bit:
  assumes "take 4 nonce = nonce_head counter PROTO_FLAG_IPV4"
  shows "nonce \<noteq> [] \<and> (nonce ! 0 AND 0x80) = 0"
proof -
  obtain a xs where n: "nonce = a # xs" using assms by (cases nonce) (auto simp: nonce_head_def)
  then have "a = ucast (drop_bit 24 counter) AND 0x7F" using assms by (simp add: nonce_head_def)
  then have "a AND 0x80 = ucast (drop_bit 24 counter) AND (0x7F AND 0x80)"
    by (simp only: and.assoc)
  then show ?thesis using n by simp
qed

text \<open>Fields read from a packet depend on its first bytes only.\<close>

lemma rd_take_cong: "take k q = take k p \<Longrightarrow> i < k \<Longrightarrow> rd q i = rd p i"
  by (auto simp: rd_def) (metis length_take min_less_iff_conj nth_take)+

lemma rd16_take_cong: "take k q = take k p \<Longrightarrow> Suc i < k \<Longrightarrow> rd16 q i = rd16 p i"
  by (simp add: rd16_def rd_take_cong [of k q p])

section \<open>A concrete instance\<close>

text \<open>Ciphers that flip bits: they satisfy \<open>evp_ok\<close> and make the sample runs below computable.\<close>

definition sample_evp :: evp where
  "sample_evp = \<lparr>evp_ctx_new = True, evp_ctr = (\<lambda>bits k iv d. map (\<lambda>x. x XOR 0x55) d),
     evp_gcm_seal = (\<lambda>bits k n d. (map (\<lambda>x. x XOR 0x55) d, replicate 16 7)),
     evp_gcm_open = (\<lambda>bits k n d t. (map (\<lambda>x. x XOR 0x55) d, t = replicate 16 7)),
     evp_hmac = (\<lambda>k m. replicate 32 9), evp_rand = replicate 16 3\<rparr>"

lemma sample_evp_ok [simp]: "evp_ok sample_evp"
  by (simp add: evp_ok_def sample_evp_def comp_def xor.assoc)

definition sample_st :: crypto_state where
  "sample_st = crypto_state_init\<lparr>g_crypto_mode := 1, g_policy_id := 5, g_fake_ethertype_ipv4 := 0x88B5\<rparr>"

definition sample_ctx :: packet_crypto_ctx where
  "sample_ctx = fst (snd (packet_crypto_init sample_evp sample_st (replicate 32 1)))"

lemma sample_ready [simp]: "crypto_ready sample_evp sample_st"
  by (simp add: crypto_ready_def sample_st_def crypto_state_init_def)

lemma sample_ctx_ok [simp]: "ctx_ok sample_ctx"
  by (simp add: sample_ctx_def packet_crypto_init_ok)

text \<open>An Ethernet frame with an IPv4 header and a UDP datagram of sixteen bytes.\<close>

definition sample_raw :: buf where
  "sample_raw = replicate 12 2 @ [8, 0] @
     [0x45, 0, 0, 36, 0, 0, 0, 0, 64, 17, 0, 0, 10, 0, 0, 1, 10, 0, 0, 2] @
     [0, 80, 0, 81, 0, 16, 0, 0] @ [1, 2, 3, 4, 5, 6, 7, 8] @ replicate 150 0"

definition sample_packet :: buf where
  "sample_packet = patched sample_raw 14 20 36"

lemma sample_packet_patched [simp]: "patched sample_packet 14 20 36 = sample_packet"
  by (simp add: sample_packet_def patched_patched sample_raw_def)

lemma length_sample_packet [simp]: "length sample_packet = 200"
  by (simp add: sample_packet_def sample_raw_def)

lemma sample_packet_bytes [simp]:
  "sample_packet ! 12 = 8" "sample_packet ! 13 = 0" "sample_packet ! 14 = 0x45"
  "sample_packet ! 23 = 17"
  by (simp_all add: sample_packet_def patched_nth) (simp_all add: sample_raw_def numeral_eq_Suc)

end
