(* ===== verification/Layer2.thy ===== *)
theory Layer2
  imports PacketCrypto
begin

text \<open>
  Encryption of the whole Ethernet payload, \<^verbatim>\<open>src/crypto/crypto_layer2.c\<close>: the ethertype is
  replaced by a marker byte and the policy id, the nonce follows the Ethernet header, then
  the ciphertext and in GCM mode the tag.
\<close>

abbreviation (input) L2_FRAG_MAGIC :: byte where "L2_FRAG_MAGIC \<equiv> 0x5B"
abbreviation (input) CRYPTO_L2_FRAG_TAG_SIZE :: nat where "CRYPTO_L2_FRAG_TAG_SIZE \<equiv> 4"

section \<open>Offsets and markers\<close>

definition l2_enc_start_offset :: "nat \<Rightarrow> nat" where
  "l2_enc_start_offset nonce_size = ETH_HEADER_SIZE + nonce_size"

definition l2_frag_enc_start_offset :: "nat \<Rightarrow> nat" where
  "l2_frag_enc_start_offset nonce_size = ETH_HEADER_SIZE + nonce_size + 1 + CRYPTO_L2_FRAG_TAG_SIZE"

definition pkt_is_ipv4_eth :: "buf \<Rightarrow> bool option" where
  "pkt_is_ipv4_eth packet = do { et \<leftarrow> rd16 packet 12; Some (et = 0x0800) }"

definition verify_ipv4_after_decrypt :: "buf \<Rightarrow> bool" where
  "verify_ipv4_after_decrypt ip_payload =
     (if length ip_payload < 20 then False
      else if ip_payload ! 8 = 0 then False
      else ip_payload ! 9 \<in> {1, 2, 6, 17, 47, 50, 51, 58, 89, 132})"

text \<open>The marker byte, or \<^term>\<open>None\<close> inside when the function returns \<^verbatim>\<open>-1\<close>.\<close>

definition l2_fake_marker_byte :: "crypto_state \<Rightarrow> buf \<Rightarrow> byte option option" where
  "l2_fake_marker_byte st packet = do {
     ipv4 \<leftarrow> pkt_is_ipv4_eth packet;
     if \<not> ipv4 then Some None
     else if g_fake_ethertype_ipv4 st = 0 then Some None
     else Some (Some (hi8 (g_fake_ethertype_ipv4 st)))
   }"

definition l2_has_fake_marker :: "crypto_state \<Rightarrow> buf \<Rightarrow> bool option" where
  "l2_has_fake_marker st packet =
     (if g_fake_ethertype_ipv4 st = 0 then Some False
      else do { b \<leftarrow> rd packet 12; Some (b = hi8 (g_fake_ethertype_ipv4 st)) })"

definition crypto_layer2_wire_eth_len :: nat where
  "crypto_layer2_wire_eth_len = ETH_HEADER_SIZE"

definition crypto_layer2_frag_meta_len :: "crypto_state \<Rightarrow> nat" where
  "crypto_layer2_frag_meta_len st = g_nonce_size st + 1 + CRYPTO_L2_FRAG_TAG_SIZE + tag_size st"

section \<open>Encryption\<close>

definition crypto_layer2_encrypt ::
    "evp \<Rightarrow> packet_crypto_ctx \<Rightarrow> buf \<Rightarrow> nat \<Rightarrow> crypto_state \<Rightarrow> crypto_result" where
  "crypto_layer2_encrypt E ctx packet pkt_len st =
     (if \<not> pc_initialized ctx \<or> pkt_len < 22 then Some (-1, packet, st)
      else do {
        ipv4 \<leftarrow> pkt_is_ipv4_eth packet;
        if \<not> ipv4 then Some (c_int pkt_len, packet, st)
        else do {
          let nonce_size = g_nonce_size st;
          let l2_enc_start = l2_enc_start_offset nonce_size;
          marker \<leftarrow> l2_fake_marker_byte st packet;
          case marker of
            None \<Rightarrow> Some (c_int pkt_len, packet, st)
          | Some marker_byte \<Rightarrow> do {
              let (counter, st) = packet_crypto_next_counter st;
              (nonce, st) \<leftarrow> crypto_generate_nonce E st counter PROTO_FLAG_IPV4;
              key \<leftarrow> packet_crypto_get_key ctx KEY_SLOT_CURRENT;
              let payload_len = pkt_len - ETH_HEADER_SIZE;
              packet \<leftarrow> mem_move packet l2_enc_start ETH_HEADER_SIZE payload_len;
              packet \<leftarrow> crypto_write_counter packet nonce nonce_size marker_byte (g_policy_id st);
              payload \<leftarrow> rdn packet l2_enc_start payload_len;
              (sealed, st) \<leftarrow> seal_data E st key nonce payload;
              case sealed of
                None \<Rightarrow> Some (-1, packet, st)
              | Some (ct, tag) \<Rightarrow> do {
                  packet \<leftarrow> wrn packet l2_enc_start ct;
                  packet \<leftarrow> wrn packet (l2_enc_start + payload_len) tag;
                  Some (c_int (pkt_len + nonce_size + tag_size st), packet, st)
                }
            }
        }
      })"

section \<open>Decryption\<close>

definition crypto_layer2_decrypt ::
    "evp \<Rightarrow> packet_crypto_ctx \<Rightarrow> buf \<Rightarrow> nat \<Rightarrow> crypto_state \<Rightarrow> crypto_result" where
  "crypto_layer2_decrypt E ctx packet pkt_len st =
     (let nonce_size = g_nonce_size st; l2_enc_start = l2_enc_start_offset nonce_size
      in if \<not> pc_initialized ctx \<or> pkt_len < l2_enc_start then Some (-1, packet, st)
      else do {
        marked \<leftarrow> l2_has_fake_marker st packet;
        if \<not> marked then Some (c_int pkt_len, packet, st)
        else do {
          frag \<leftarrow> (if pkt_len \<ge> ETH_HEADER_SIZE + nonce_size + 1
                   then do { b \<leftarrow> rd packet (ETH_HEADER_SIZE + nonce_size); Some (b = L2_FRAG_MAGIC) }
                   else Some False);
          if frag then Some (c_int pkt_len, packet, st)
          else do {
            (nonce, _) \<leftarrow> crypto_read_counter packet nonce_size;
            if is_gcm_mode st \<and> pkt_len < l2_enc_start + AES128_GCM_TAG_SIZE then Some (-1, packet, st)
            else do {
              let enc_len = pkt_len - l2_enc_start - tag_size st;
              tag \<leftarrow> rdn packet (l2_enc_start + enc_len) (tag_size st);
              key \<leftarrow> packet_crypto_get_key ctx KEY_SLOT_CURRENT;
              work \<leftarrow> rdn packet l2_enc_start enc_len;
              (ok, work, st) \<leftarrow> open_data E st key nonce tag work;
              packet \<leftarrow> wrn packet l2_enc_start work;
              if \<not> ok then Some (-1, packet, st)
              else if \<not> is_gcm_mode st \<and> \<not> verify_ipv4_after_decrypt work then Some (-1, packet, st)
              else do {
                b0 \<leftarrow> rd packet l2_enc_start;
                b1 \<leftarrow> rd packet (l2_enc_start + 1);
                packet \<leftarrow> wr packet 12 0x08;
                packet \<leftarrow> wr packet 13 0x00;
                if b0 = 0x08 \<and> b1 = 0x00
                then do {
                  packet \<leftarrow> mem_move packet ETH_HEADER_SIZE (l2_enc_start + 2) (sub64 enc_len 2);
                  Some (c_int (ETH_HEADER_SIZE + sub64 enc_len 2), packet, st)
                }
                else do {
                  packet \<leftarrow> mem_move packet ETH_HEADER_SIZE l2_enc_start enc_len;
                  Some (c_int (ETH_HEADER_SIZE + enc_len), packet, st)
                }
              }
            }
          }
        }
      })"

section \<open>Fragments\<close>

definition crypto_layer2_encrypt_fragment_single ::
    "evp \<Rightarrow> packet_crypto_ctx \<Rightarrow> buf \<Rightarrow> buf \<Rightarrow> u16 \<Rightarrow> byte \<Rightarrow> buf \<Rightarrow> nat \<Rightarrow>
     crypto_state \<Rightarrow> (int \<times> buf \<times> nat \<times> crypto_state) option" where
  "crypto_layer2_encrypt_fragment_single E ctx eth_hdr enc_plain pkt_id frag_index out_buf out_max st =
     (let enc_plain_len = length enc_plain
      in if \<not> pc_initialized ctx \<or> enc_plain_len = 0 then Some (-1, out_buf, 0, st)
      else do {
        ipv4 \<leftarrow> pkt_is_ipv4_eth eth_hdr;
        let nonce_size = g_nonce_size st;
        let enc_off = l2_frag_enc_start_offset nonce_size;
        let need = enc_off + enc_plain_len + tag_size st;
        if \<not> ipv4 \<or> need > out_max then Some (-1, out_buf, 0, st)
        else do {
          eth \<leftarrow> rdn eth_hdr 0 ETH_HEADER_SIZE;
          out_buf \<leftarrow> wrn out_buf 0 eth;
          marker \<leftarrow> l2_fake_marker_byte st eth_hdr;
          case marker of
            None \<Rightarrow> Some (-1, out_buf, 0, st)
          | Some marker_byte \<Rightarrow> do {
              let (counter, st) = packet_crypto_next_counter st;
              (nonce, st) \<leftarrow> crypto_generate_nonce E st counter PROTO_FLAG_IPV4;
              key \<leftarrow> packet_crypto_get_key ctx KEY_SLOT_CURRENT;
              out_buf \<leftarrow> crypto_write_counter out_buf nonce nonce_size marker_byte (g_policy_id st);
              out_buf \<leftarrow> wr out_buf (ETH_HEADER_SIZE + nonce_size) L2_FRAG_MAGIC;
              out_buf \<leftarrow> write_frag_tag out_buf (ETH_HEADER_SIZE + nonce_size + 1) pkt_id frag_index;
              out_buf \<leftarrow> wrn out_buf enc_off enc_plain;
              (sealed, st) \<leftarrow> seal_data E st key nonce enc_plain;
              case sealed of
                None \<Rightarrow> Some (-1, out_buf, 0, st)
              | Some (ct, tag) \<Rightarrow> do {
                  out_buf \<leftarrow> wrn out_buf enc_off ct;
                  out_buf \<leftarrow> wrn out_buf (enc_off + enc_plain_len) tag;
                  Some (0, out_buf, enc_off + enc_plain_len + tag_size st, st)
                }
            }
        }
      })"

definition crypto_layer2_decrypt_fragment ::
    "evp \<Rightarrow> packet_crypto_ctx \<Rightarrow> buf \<Rightarrow> nat \<Rightarrow> crypto_state \<Rightarrow> (int \<times> u16 \<times> byte \<times> buf \<times> crypto_state) option"
  where
  "crypto_layer2_decrypt_fragment E ctx packet pkt_len st =
     (if \<not> pc_initialized ctx then Some (-1, 0, 0, packet, st)
      else do {
        let nonce_size = g_nonce_size st;
        let enc_off = l2_frag_enc_start_offset nonce_size;
        marked \<leftarrow> (if pkt_len < enc_off then Some False else l2_has_fake_marker st packet);
        if \<not> marked then Some (-1, 0, 0, packet, st)
        else do {
          magic \<leftarrow> rd packet (ETH_HEADER_SIZE + nonce_size);
          if magic \<noteq> L2_FRAG_MAGIC then Some (-1, 0, 0, packet, st)
          else do {
            (pkt_id, frag_index) \<leftarrow> read_frag_tag packet (ETH_HEADER_SIZE + nonce_size + 1);
            (nonce, _) \<leftarrow> crypto_read_counter packet nonce_size;
            let total_after = pkt_len - enc_off;
            if is_gcm_mode st \<and> total_after < AES128_GCM_TAG_SIZE
              then Some (-1, pkt_id, frag_index, packet, st)
            else do {
              let enc_len = total_after - tag_size st;
              tag \<leftarrow> rdn packet (enc_off + enc_len) (tag_size st);
              work \<leftarrow> rdn packet enc_off enc_len;
              (plain, work, st) \<leftarrow> try_keys E ctx (\<lambda>_. True) nonce tag work True key_order work st;
              packet \<leftarrow> wrn packet enc_off work;
              case plain of
                None \<Rightarrow> Some (-1, pkt_id, frag_index, packet, st)
              | Some _ \<Rightarrow> do {
                  packet \<leftarrow> mem_move packet ETH_HEADER_SIZE enc_off enc_len;
                  Some (c_int (ETH_HEADER_SIZE + enc_len), pkt_id, frag_index, packet, st)
                }
            }
          }
        }
      })"

section \<open>Packets that are encrypted\<close>

definition l2_packet :: "buf \<Rightarrow> nat \<Rightarrow> bool" where
  "l2_packet packet pkt_len \<longleftrightarrow> 22 \<le> pkt_len \<and> pkt_len \<le> length packet \<and> pkt_len < 2 ^ 30 \<and>
     packet ! 12 = 8 \<and> packet ! 13 = 0"

definition l2_overhead :: "crypto_state \<Rightarrow> nat" where
  "l2_overhead st = g_nonce_size st + tag_size st"

lemma l2_split:
  assumes "14 \<le> n" and "n \<le> length packet"
  shows "packet = take 12 packet @ [packet ! 12, packet ! 13] @ drop 14 (take n packet) @ drop n packet"
proof -
  have "packet = take 14 packet @ drop 14 (take n packet) @ drop n packet"
    using assms by (intro split_at_two)
  moreover have "take 14 packet = take 12 packet @ take 2 (drop 12 packet)" by (simp flip: take_add)
  moreover have "take 2 (drop 12 packet) = [packet ! 12, packet ! 13]"
    using assms by (intro nth_equalityI) (auto simp: less_Suc_eq numeral_2_eq_2)
  ultimately show ?thesis by simp
qed

lemma l2_encrypt_wire:
  fixes packet :: buf
  assumes ready: "crypto_ready E st" and ctx: "ctx_ok ctx" and pkt: "l2_packet packet pkt_len"
    and fake: "g_fake_ethertype_ipv4 st \<noteq> 0" and room: "pkt_len + l2_overhead st \<le> length packet"
  defines "plain \<equiv> drop 14 (take pkt_len packet)"
  shows "\<exists>nonce st1. let s = seal_ref E st (current_key ctx) nonce plain in
    crypto_layer2_encrypt E ctx packet pkt_len st = Some (int (pkt_len + l2_overhead st),
      take 12 packet @ [hi8 (g_fake_ethertype_ipv4 st), g_policy_id st] @ nonce @ fst s @ snd s @
        drop (pkt_len + l2_overhead st) packet, st1) \<and>
    length nonce = g_nonce_size st \<and> crypto_ready E st1 \<and> same_policy st st1"
proof -
  define ns n where "ns = g_nonce_size st" and "n = pkt_len - 14"
  have p: "22 \<le> pkt_len" "pkt_len \<le> length packet" "pkt_len < 2 ^ 30" "packet ! 12 = 8" "packet ! 13 = 0"
    using pkt by (auto simp: l2_packet_def)
  have E: "evp_ok E" using ready by (simp add: crypto_ready_def)
  define slack where "slack = drop pkt_len packet"
  define M where "M = take 12 packet"
  have lenM: "length M = 12" using p by (simp add: M_def)
  have lenp: "length plain = n" using p by (simp add: plain_def n_def)
  have split: "packet = M @ [packet ! 12, packet ! 13] @ plain @ slack"
    using l2_split [of pkt_len packet] p by (simp add: M_def plain_def slack_def)
  obtain counter st0 where cnt: "packet_crypto_next_counter st = (counter, st0)" by fastforce
  have "plain \<noteq> []" "length plain < 2 ^ 31" using lenp p by (auto simp: n_def)
  then obtain nonce st1 st2 where ng: "crypto_generate_nonce E st0 counter PROTO_FLAG_IPV4 = Some (nonce, st1)"
      "seal_data E st1 (current_key ctx) nonce plain =
         Some (Some (seal_ref E st (current_key ctx) nonce plain), st2)"
      "length nonce = ns" "crypto_ready E st2" "same_policy st st1" "same_policy st st2"
      "g_policy_id st1 = g_policy_id st" "g_policy_id st2 = g_policy_id st"
    using fresh_seal [OF ready _ _ _ cnt] ctx_ok_current [OF ctx] unfolding ns_def by blast
  obtain ct tag where s: "seal_ref E st (current_key ctx) nonce plain = (ct, tag)" by fastforce
  have lens: "length ct = n" "length tag = tag_size st"
    using seal_ref_lengths [OF E, of st "current_key ctx" nonce plain] s lenp by auto
  have ovs: "l2_overhead st = ns + tag_size st" by (simp add: l2_overhead_def ns_def)
  let ?mk = "[hi8 (g_fake_ethertype_ipv4 st), g_policy_id st]"
  define J where "J = take ns (plain @ slack)"
  have roomS: "ns + tag_size st \<le> length slack" using room p(2) ovs by (simp add: slack_def)
  have lenJ: "length J = ns" using roomS by (simp add: J_def)
  have mv: "mem_move packet (14 + ns) 14 n = Some (M @ [packet ! 12, packet ! 13] @ J @ plain @ drop ns slack)"
  proof -
    have "rdn packet 14 n = Some plain" using p lenp by (simp add: plain_def n_def drop_take)
    moreover have "wrn packet (14 + ns) plain = Some (M @ [packet ! 12, packet ! 13] @ J @ plain @ drop ns slack)"
      using roomS lenp lenM by (subst (1) split) (simp add: J_def)
    ultimately show ?thesis by (simp add: mem_move_def)
  qed
  have wc: "crypto_write_counter (M @ [packet ! 12, packet ! 13] @ J @ plain @ drop ns slack) nonce ns
      (hi8 (g_fake_ethertype_ipv4 st)) (g_policy_id st) = Some (M @ ?mk @ nonce @ plain @ drop ns slack)"
    using lenM lenJ ng(3) by (simp add: crypto_write_counter_def list_update_append)
  have rp: "rdn (M @ ?mk @ nonce @ plain @ drop ns slack) (14 + ns) n = Some plain"
    using rdn_at [of "14 + ns" "M @ ?mk @ nonce" n plain "drop ns slack"] lenM ng(3) lenp by simp
  have w1: "wrn (M @ ?mk @ nonce @ plain @ drop ns slack) (14 + ns) ct =
      Some (M @ ?mk @ nonce @ ct @ drop ns slack)"
    using wrn_at [of "14 + ns" "M @ ?mk @ nonce" plain ct "drop ns slack"] lenM ng(3) lenp lens by simp
  have w2: "wrn (M @ ?mk @ nonce @ ct @ drop ns slack) (14 + ns + n) tag =
      Some (M @ ?mk @ nonce @ ct @ tag @ drop (ns + tag_size st) slack)"
    using roomS lenM ng(3) lens by (simp add: add.commute)
  have fm: "pkt_is_ipv4_eth packet = Some True"
      "l2_fake_marker_byte st packet = Some (Some (hi8 (g_fake_ethertype_ipv4 st)))"
    using p fake by (simp_all add: pkt_is_ipv4_eth_def l2_fake_marker_byte_def be16_def)
  have sizes: "c_int (pkt_len + ns + tag_size st) = int (pkt_len + l2_overhead st)" "tag_size st2 = tag_size st"
      "\<not> pkt_len < 22"
    using p ovs ready same_policyD(6) [OF ng(6)] by (auto simp: crypto_ready_def ns_def tag_size_def)
  have "crypto_layer2_encrypt E ctx packet pkt_len st = Some (int (pkt_len + l2_overhead st),
      M @ ?mk @ nonce @ ct @ tag @ drop (ns + tag_size st) slack, st2)"
    using ctx [unfolded ctx_ok_def] ctx_ok_current [OF ctx] cnt ng(1,2) ng(7,8) s mv wc rp w1 w2 fm sizes
    by (simp add: crypto_layer2_encrypt_def Let_def l2_enc_start_offset_def del: wrn_Some rdn_Some
        flip: ns_def n_def)
  then show ?thesis using ng(3,4,6) s
    by (intro exI [of _ nonce] exI [of _ st2])
       (simp add: Let_def ovs slack_def M_def ns_def add.commute add.left_commute)
qed

section \<open>Decryption restores the packet\<close>

text \<open>The payload is accepted by the checks that follow decryption.\<close>

definition l2_payload_ok :: "crypto_state \<Rightarrow> buf \<Rightarrow> bool" where
  "l2_payload_ok st plain \<longleftrightarrow> plain \<noteq> [] \<and> plain ! 0 \<noteq> 8 \<and>
     (is_gcm_mode st \<or> verify_ipv4_after_decrypt plain)"

lemma l2_decrypt_wire:
  fixes M :: buf
  assumes ready: "crypto_ready E st" and ctx: "ctx_ok ctx" and M: "length M = 12"
    and fake: "g_fake_ethertype_ipv4 st \<noteq> 0"
    and nonce: "length nonce = g_nonce_size st"
    and plain: "l2_payload_ok st plain" "2 \<le> length plain" "length plain < 2 ^ 29"
  defines "s \<equiv> seal_ref E st (current_key ctx) nonce plain"
  assumes nomark: "fst s ! 0 \<noteq> L2_FRAG_MAGIC"
  shows "\<exists>R st1. crypto_layer2_decrypt E ctx
      (M @ [hi8 (g_fake_ethertype_ipv4 st), pid] @ nonce @ fst s @ snd s @ rest)
      (14 + l2_overhead st + length plain) st =
    Some (int (14 + length plain), M @ [8, 0] @ plain @ R, st1) \<and>
    crypto_ready E st1 \<and> same_policy st st1"
proof -
  obtain ct tag where s: "s = (ct, tag)" by fastforce
  have E: "evp_ok E" using ready by (simp add: crypto_ready_def)
  have lens: "length ct = length plain" "length tag = tag_size st"
    using seal_ref_lengths [OF E, of st "current_key ctx" nonce plain] s by (auto simp: s_def)
  define ns n where "ns = g_nonce_size st" and "n = length plain"
  have ns: "length nonce = ns" "ns \<le> 16" using nonce ready by (auto simp: ns_def crypto_ready_def)
  have pl: "plain \<noteq> []" "plain ! 0 \<noteq> 8" "is_gcm_mode st \<or> verify_ipv4_after_decrypt plain"
    using plain(1) by (auto simp: l2_payload_ok_def)
  let ?mk = "[hi8 (g_fake_ethertype_ipv4 st), pid]"
  define W where "W = M @ ?mk @ nonce @ ct @ tag @ rest"
  define len where "len = 14 + l2_overhead st + n"
  have len: "len = 14 + ns + n + tag_size st" by (simp add: len_def l2_overhead_def ns_def)
  have marked: "l2_has_fake_marker st W = Some True"
    using fake M by (simp add: l2_has_fake_marker_def W_def nth_append)
  have b: "rd W (14 + ns) = Some (ct ! 0)"
    using M ns pl(1) lens by (simp add: W_def nth_append)
  have mark: "ct ! 0 \<noteq> L2_FRAG_MAGIC" using nomark s by simp
  have rc: "crypto_read_counter W ns = Some (nonce, pid)"
    using ns M by (simp add: crypto_read_counter_def read_nonce_def W_def nth_append)
  have rdct: "rdn W (14 + ns) n = Some ct" and rdtag: "rdn W (14 + ns + n) (tag_size st) = Some tag"
    using rdn_at [of "14 + ns" "M @ ?mk @ nonce" n ct "tag @ rest"]
      rdn_at [of "14 + ns + n" "M @ ?mk @ nonce @ ct" "tag_size st" tag rest] ns lens M
    by (simp_all add: W_def n_def)
  have "ct \<noteq> []" using lens pl(1) by auto
  then obtain c where od: "open_data E st (current_key ctx) nonce tag ct =
      Some (True, plain, st\<lparr>tls_dec := c\<rparr>)" "cache_ok (g_aes_bits st) c"
    using open_data_ref [OF ready, of "current_key ctx" ct nonce tag] ctx_ok_current [OF ctx] lens plain(3)
      open_seal_ref [OF E, of st "current_key ctx" nonce plain] s by (auto simp: s_def)
  have w1: "wrn W (14 + ns) plain = Some (M @ ?mk @ nonce @ plain @ tag @ rest)"
    using wrn_at [of "14 + ns" "M @ ?mk @ nonce" ct plain "tag @ rest"] M ns lens by (simp add: W_def)
  define V where "V = M @ ?mk @ nonce @ plain @ tag @ rest"
  have rb: "rd V (14 + ns) = Some (plain ! 0)" "rd V (14 + ns + 1) = Some (plain ! 1)"
    using M ns pl(1) plain(2) by (simp_all add: V_def nth_append)
  have w2: "do { q \<leftarrow> wr V 12 8; wr q 13 0 } = Some (M @ [8, 0] @ nonce @ plain @ tag @ rest)"
    using M by (simp add: V_def list_update_append)
  then obtain q where q: "wr V 12 8 = Some q" "wr q 13 0 = Some (M @ [8, 0] @ nonce @ plain @ tag @ rest)"
    by (auto simp: bind_eq_Some_conv)
  have same: "wrn ((M @ [8, 0]) @ nonce @ plain @ tag @ rest) (14 + ns) plain =
      Some ((M @ [8, 0]) @ nonce @ plain @ tag @ rest)"
    using wrn_at [of "14 + ns" "(M @ [8, 0]) @ nonce" plain plain "tag @ rest"] M ns by simp
  have l14: "14 = length (M @ [8, 0])" using M by simp
  obtain R where "mem_move ((M @ [8, 0]) @ nonce @ plain @ tag @ rest) 14 (14 + ns) n =
      Some ((M @ [8, 0]) @ plain @ R)"
    using unseal_layout [OF l14 ns(1) n_def [symmetric] n_def [symmetric], of "tag @ rest"]
    unfolding same by auto
  then have mv: "mem_move (M @ [8, 0] @ nonce @ plain @ tag @ rest) 14 (14 + ns) n =
      Some (M @ [8, 0] @ plain @ R)" by simp
  have sizes: "len - (14 + ns) - tag_size st = n" "\<not> len < 14 + ns"
      "\<not> (is_gcm_mode st \<and> len < 14 + ns + 16)" "c_int (14 + n) = int (14 + length plain)"
      "15 + ns \<le> len"
    using len plain(2,3) by (auto simp: n_def tag_size_def)
  have "crypto_layer2_decrypt E ctx W len st =
      Some (int (14 + length plain), M @ [8, 0] @ plain @ R, st\<lparr>tls_dec := c\<rparr>)"
    using marked b mark rc rdct rdtag od(1) w1 [folded V_def] rb q mv sizes pl(2,3) ctx [unfolded ctx_ok_def]
      ctx_ok_current [OF ctx]
    by (cases "is_gcm_mode st") (simp_all add: crypto_layer2_decrypt_def Let_def l2_enc_start_offset_def
        del: wr_append1 wrn_Some rdn_Some rd_Some wr_Some rd_append1 rdn_append1 flip: ns_def)
  then show ?thesis using crypto_ready_updates(3) [OF ready od(2)] s
    by (auto simp: W_def len_def n_def)
qed

text \<open>A packet with the fragment marker after its nonce is handed back as it came.\<close>

lemma l2_decrypt_skips:
  assumes "ctx_ok ctx" and "g_fake_ethertype_ipv4 st \<noteq> 0" and "W ! 12 = hi8 (g_fake_ethertype_ipv4 st)"
    and "W ! (14 + g_nonce_size st) = L2_FRAG_MAGIC" and "14 + g_nonce_size st < len"
    and "len \<le> length W" and "len < 2 ^ 30"
  shows "crypto_layer2_decrypt E ctx W len st = Some (int len, W, st)"
proof -
  have "l2_has_fake_marker st W = Some True" using assms by (simp add: l2_has_fake_marker_def)
  then show ?thesis using assms
    by (simp add: crypto_layer2_decrypt_def l2_enc_start_offset_def ctx_ok_def Let_def)
qed



text \<open>
  Both kinds of layer-2 packets are told apart by one byte, and for a whole packet this byte
  is ciphertext: the bit-flipping cipher shows a packet that is sent but never decrypted.
\<close>

theorem l2_marker_collision:
  "\<exists>wire st1. crypto_layer2_encrypt sample_evp sample_ctx (sample_packet[14 := 0x0E]) 50 sample_st
      = Some (78, wire, st1) \<and>
    crypto_layer2_decrypt sample_evp sample_ctx wire 78 sample_st = Some (78, wire, sample_st)"
proof -
  let ?p = "sample_packet[14 := 0x0E]"
  have ov: "l2_overhead sample_st = 28" "is_gcm_mode sample_st" "g_nonce_size sample_st = 12"
      "g_fake_ethertype_ipv4 sample_st \<noteq> 0"
    by (simp_all add: l2_overhead_def tag_size_def is_gcm_mode_def sample_st_def crypto_state_init_def)
  have pkt: "l2_packet ?p 50" by (simp add: l2_packet_def)
  have pay: "l2_payload_ok sample_st (drop 14 (take 50 ?p))"
    using ov(2) by (simp add: l2_payload_ok_def)
  obtain nonce st1 where w: "crypto_layer2_encrypt sample_evp sample_ctx ?p 50 sample_st = Some (78,
      take 12 ?p @ [hi8 (g_fake_ethertype_ipv4 sample_st), g_policy_id sample_st] @ nonce @
      fst (seal_ref sample_evp sample_st (current_key sample_ctx) nonce (drop 14 (take 50 ?p))) @
      snd (seal_ref sample_evp sample_st (current_key sample_ctx) nonce (drop 14 (take 50 ?p))) @ drop 78 ?p, st1)"
      "length nonce = 12"
    using l2_encrypt_wire [OF sample_ready sample_ctx_ok pkt ov(4)] ov by (auto simp: Let_def)
  have first: "fst (seal_ref sample_evp sample_st (current_key sample_ctx) nonce (drop 14 (take 50 ?p))) ! 0 = 0x5B"
    using ov by (simp add: seal_ref_def Let_def sample_evp_def cipher_of_def)
  define W where "W = take 12 ?p @ [hi8 (g_fake_ethertype_ipv4 sample_st), g_policy_id sample_st] @ nonce @
      fst (seal_ref sample_evp sample_st (current_key sample_ctx) nonce (drop 14 (take 50 ?p))) @
      snd (seal_ref sample_evp sample_st (current_key sample_ctx) nonce (drop 14 (take 50 ?p))) @ drop 78 ?p"
  note lens = seal_ref_lengths [OF sample_evp_ok, of sample_st "current_key sample_ctx" nonce "drop 14 (take 50 ?p)"]
  have "W ! 12 = hi8 (g_fake_ethertype_ipv4 sample_st)" "length W = 200" "W ! 26 = 0x5B"
    using w(2) lens ov first by (simp_all add: W_def nth_append tag_size_def)
  then have "crypto_layer2_decrypt sample_evp sample_ctx W 78 sample_st = Some (int 78, W, sample_st)"
    by (intro l2_decrypt_skips) (use ov in simp_all)
  then show ?thesis using w(1) by (auto simp: W_def)
qed

section \<open>Fragments round-trip\<close>

lemma l2_fragment_wire:
  fixes eth :: buf
  assumes ready: "crypto_ready E st" and ctx: "ctx_ok ctx"
    and eth: "length eth = 14" "eth ! 12 = 8" "eth ! 13 = 0" and fake: "g_fake_ethertype_ipv4 st \<noteq> 0"
    and plain: "plain \<noteq> []" "length plain < 2 ^ 29"
    and room: "14 + l2_overhead st + 5 + length plain \<le> out_max" "out_max \<le> length out"
  defines "len \<equiv> 14 + l2_overhead st + 5 + length plain"
  shows "\<exists>nonce st1. let s = seal_ref E st (current_key ctx) nonce plain in
    crypto_layer2_encrypt_fragment_single E ctx eth plain pkt_id i out out_max st =
      Some (0, take 12 eth @ [hi8 (g_fake_ethertype_ipv4 st), g_policy_id st] @ nonce @ [L2_FRAG_MAGIC] @
        [hi8 pkt_id, lo8 pkt_id, i, 0] @ fst s @ snd s @ drop len out, len, st1) \<and>
    length nonce = g_nonce_size st \<and> crypto_ready E st1 \<and> same_policy st st1"
proof -
  define ns n where "ns = g_nonce_size st" and "n = length plain"
  have E: "evp_ok E" using ready by (simp add: crypto_ready_def)
  obtain counter st0 where cnt: "packet_crypto_next_counter st = (counter, st0)" by fastforce
  have "length plain < 2 ^ 31" using plain by simp
  then obtain nonce st1 st2 where ng: "crypto_generate_nonce E st0 counter PROTO_FLAG_IPV4 = Some (nonce, st1)"
      "seal_data E st1 (current_key ctx) nonce plain =
         Some (Some (seal_ref E st (current_key ctx) nonce plain), st2)"
      "length nonce = ns" "crypto_ready E st2" "same_policy st st1" "same_policy st st2"
      "g_policy_id st1 = g_policy_id st" "g_policy_id st2 = g_policy_id st"
    using fresh_seal [OF ready _ plain(1) _ cnt] ctx_ok_current [OF ctx] unfolding ns_def by blast
  obtain ct tag where s: "seal_ref E st (current_key ctx) nonce plain = (ct, tag)" by fastforce
  have lens: "length ct = n" "length tag = tag_size st"
    using seal_ref_lengths [OF E, of st "current_key ctx" nonce plain] s by (auto simp: n_def)
  have len: "len = 14 + ns + 5 + n + tag_size st" by (simp add: len_def l2_overhead_def ns_def n_def)
  have rm: "len \<le> out_max" "len \<le> length out" using room by (simp_all add: len_def)
  have "(ns + 1) + 4 + n + tag_size st \<le> length (drop 14 out)" using rm(2) len by simp
  then obtain A B C D where X: "drop 14 out = A @ B @ C @ D @ drop (ns + 1 + 4 + n + tag_size st) (drop 14 out)"
      "length A = ns + 1" "length B = 4" "length C = n" "length D = tag_size st"
    by (rule split_lengths)
  have "drop (ns + 1 + 4 + n + tag_size st) (drop 14 out) = drop len out"
    by (simp add: len add.commute add.left_commute)
  then have X1: "drop 14 out = A @ B @ C @ D @ drop len out" using X(1) by simp
  obtain A1 a where A: "A = A1 @ [a]" "length A1 = ns"
    using X(2) by (cases A rule: rev_cases) auto
  let ?M = "take 12 eth" and ?mk = "[hi8 (g_fake_ethertype_ipv4 st), g_policy_id st]"
  let ?T = "[hi8 pkt_id, lo8 pkt_id, i, 0]" and ?R = "drop len out"
  have etheq: "eth = ?M @ [eth ! 12, eth ! 13]" using l2_split [of 14 eth] eth by simp
  have out1: "wrn out 0 eth = Some (?M @ [eth ! 12, eth ! 13] @ A1 @ [a] @ B @ C @ D @ ?R)"
    using rm len eth(1) X1 A etheq by (simp add: wrn_def)
  have wc: "crypto_write_counter (?M @ [eth ! 12, eth ! 13] @ A1 @ [a] @ B @ C @ D @ ?R) nonce ns
      (hi8 (g_fake_ethertype_ipv4 st)) (g_policy_id st) = Some (?M @ ?mk @ nonce @ [a] @ B @ C @ D @ ?R)"
    using eth(1) A(2) ng(3) by (simp add: crypto_write_counter_def list_update_append)
  have wm: "wr (?M @ ?mk @ nonce @ [a] @ B @ C @ D @ ?R) (14 + ns) L2_FRAG_MAGIC =
      Some (?M @ ?mk @ nonce @ [L2_FRAG_MAGIC] @ B @ C @ D @ ?R)"
    using eth(1) ng(3) by (simp add: list_update_append)
  have wt: "write_frag_tag (?M @ ?mk @ nonce @ [L2_FRAG_MAGIC] @ B @ C @ D @ ?R) (14 + ns + 1) pkt_id i =
      Some (?M @ ?mk @ nonce @ [L2_FRAG_MAGIC] @ ?T @ C @ D @ ?R)"
    using write_frag_tag_at [of "14 + ns + 1" "?M @ ?mk @ nonce @ [L2_FRAG_MAGIC]" B "C @ D @ ?R" pkt_id i]
      eth(1) ng(3) X(3) by simp
  have w: "wrn (?M @ ?mk @ nonce @ [L2_FRAG_MAGIC] @ ?T @ Z @ D @ ?R) (14 + ns + 1 + 4) Z' =
      Some (?M @ ?mk @ nonce @ [L2_FRAG_MAGIC] @ ?T @ Z' @ D @ ?R)" if "length Z = n" "length Z' = n" for Z Z'
    using wrn_at [of "14 + ns + 1 + 4" "?M @ ?mk @ nonce @ [L2_FRAG_MAGIC] @ ?T" Z Z' "D @ ?R"] eth(1) ng(3) that
    by simp
  have wg: "wrn (?M @ ?mk @ nonce @ [L2_FRAG_MAGIC] @ ?T @ ct @ D @ ?R) (14 + ns + 1 + 4 + n) tag =
      Some (?M @ ?mk @ nonce @ [L2_FRAG_MAGIC] @ ?T @ ct @ tag @ ?R)"
    using wrn_at [of "14 + ns + 1 + 4 + n" "?M @ ?mk @ nonce @ [L2_FRAG_MAGIC] @ ?T @ ct" D tag ?R] eth(1) ng(3)
      X(5) lens by simp
  have fm: "pkt_is_ipv4_eth eth = Some True"
      "l2_fake_marker_byte st eth = Some (Some (hi8 (g_fake_ethertype_ipv4 st)))" "rdn eth 0 14 = Some eth"
    using eth fake by (simp_all add: pkt_is_ipv4_eth_def l2_fake_marker_byte_def be16_def)
  have sizes: "\<not> 14 + ns + 1 + 4 + n + tag_size st > out_max" "tag_size st2 = tag_size st" "n \<noteq> 0"
      "14 + ns + 1 + 4 + n + tag_size st = len"
    using rm(1) len plain same_policyD(6) [OF ng(6)] by (auto simp: n_def)
  have "crypto_layer2_encrypt_fragment_single E ctx eth plain pkt_id i out out_max st =
      Some (0, ?M @ ?mk @ nonce @ [L2_FRAG_MAGIC] @ ?T @ ct @ tag @ ?R, len, st2)"
    using ctx [unfolded ctx_ok_def] ctx_ok_current [OF ctx] cnt ng(1,2,7,8) s out1 wc wm wt w [OF X(4), of plain]
      w [of plain ct] wg fm sizes lens n_def
    by (simp add: crypto_layer2_encrypt_fragment_single_def Let_def l2_frag_enc_start_offset_def
        del: wrn_Some wr_Some rdn_Some flip: ns_def)
  then show ?thesis using ng(3,4,6) s
    by (intro exI [of _ nonce] exI [of _ st2]) (simp add: Let_def ns_def)
qed

lemma l2_fragment_open:
  fixes M :: buf
  assumes ready: "crypto_ready E st" and ctx: "ctx_ok ctx" and M: "length M = 12"
    and fake: "g_fake_ethertype_ipv4 st \<noteq> 0" and nonce: "length nonce = g_nonce_size st"
    and plain: "plain \<noteq> []" "length plain < 2 ^ 29"
  defines "s \<equiv> seal_ref E st (current_key ctx) nonce plain"
  shows "\<exists>R st1. crypto_layer2_decrypt_fragment E ctx
      (M @ [hi8 (g_fake_ethertype_ipv4 st), pid] @ nonce @ [L2_FRAG_MAGIC] @ [hi8 pkt_id, lo8 pkt_id, i, 0] @
        fst s @ snd s @ rest) (14 + l2_overhead st + 5 + length plain) st =
    Some (int (14 + length plain), pkt_id, i, M @ [hi8 (g_fake_ethertype_ipv4 st), pid] @ plain @ R, st1) \<and>
    crypto_ready E st1 \<and> same_policy st st1"
proof -
  obtain ct tag where s: "s = (ct, tag)" by fastforce
  have E: "evp_ok E" using ready by (simp add: crypto_ready_def)
  have lens: "length ct = length plain" "length tag = tag_size st"
    using seal_ref_lengths [OF E, of st "current_key ctx" nonce plain] s by (auto simp: s_def)
  define ns n where "ns = g_nonce_size st" and "n = length plain"
  have ns: "length nonce = ns" "ns \<le> 16" using nonce ready by (auto simp: ns_def crypto_ready_def)
  let ?mk = "[hi8 (g_fake_ethertype_ipv4 st), pid]" and ?T = "[hi8 pkt_id, lo8 pkt_id, i, 0]"
  define W where "W = M @ ?mk @ nonce @ [L2_FRAG_MAGIC] @ ?T @ ct @ tag @ rest"
  define len where "len = 14 + l2_overhead st + 5 + n"
  have len: "len = 14 + ns + 1 + 4 + n + tag_size st" by (simp add: len_def l2_overhead_def ns_def)
  have marked: "l2_has_fake_marker st W = Some True"
    using fake M by (simp add: l2_has_fake_marker_def W_def nth_append)
  have b: "rd W (14 + ns) = Some L2_FRAG_MAGIC" using M ns by (simp add: W_def nth_append)
  have rc: "crypto_read_counter W ns = Some (nonce, pid)"
    using ns M by (simp add: crypto_read_counter_def read_nonce_def W_def nth_append)
  have tagrd: "read_frag_tag W (14 + ns + 1) = Some (pkt_id, i)"
    using read_frag_tag_at [of "14 + ns + 1" "M @ ?mk @ nonce @ [L2_FRAG_MAGIC]" pkt_id i "ct @ tag @ rest"] ns M
    by (simp add: W_def)
  have rdct: "rdn W (14 + ns + 1 + 4) n = Some ct" and rdtag: "rdn W (14 + ns + 1 + 4 + n) (tag_size st) = Some tag"
    using rdn_at [of "14 + ns + 1 + 4" "M @ ?mk @ nonce @ [L2_FRAG_MAGIC] @ ?T" n ct "tag @ rest"]
      rdn_at [of "14 + ns + 1 + 4 + n" "M @ ?mk @ nonce @ [L2_FRAG_MAGIC] @ ?T @ ct" "tag_size st" tag rest] ns lens M
    by (simp_all add: W_def n_def)
  obtain c where tk: "try_keys E ctx (\<lambda>_. True) nonce tag ct True key_order ct st =
      Some (Some plain, plain, st\<lparr>tls_dec := c\<rparr>)" "cache_ok (g_aes_bits st) c"
    using try_keys_current [OF ready ctx plain(1), of "\<lambda>_. True" nonce ct] plain(2) s
    by (auto simp: s_def)
  have l14: "14 = length (M @ ?mk)" using M by simp
  obtain R where "do { q \<leftarrow> wrn ((M @ ?mk) @ (nonce @ [L2_FRAG_MAGIC] @ ?T) @ ct @ tag @ rest) (14 + (ns + 5)) plain;
      mem_move q 14 (14 + (ns + 5)) n } = Some ((M @ ?mk) @ plain @ R)"
    using unseal_layout [OF l14, of "nonce @ [L2_FRAG_MAGIC] @ ?T" "ns + 5" plain n ct "tag @ rest"] ns lens n_def
    by auto
  then obtain q where q: "wrn W (14 + ns + 1 + 4) plain = Some q"
      "mem_move q 14 (14 + ns + 1 + 4) n = Some (M @ ?mk @ plain @ R)"
    by (auto simp: bind_eq_Some_conv W_def add.assoc)
  have sizes: "len - (14 + ns + 1 + 4) = n + tag_size st" "n + tag_size st - tag_size st = n"
    "\<not> len < 14 + ns + 1 + 4" "\<not> (is_gcm_mode st \<and> n + tag_size st < 16)"
    "c_int (14 + n) = int (14 + length plain)"
    using len plain by (auto simp: n_def tag_size_def)
  have "crypto_layer2_decrypt_fragment E ctx W len st =
      Some (int (14 + length plain), pkt_id, i, M @ ?mk @ plain @ R, st\<lparr>tls_dec := c\<rparr>)"
    using marked b rc tagrd rdct rdtag tk(1) q sizes ctx [unfolded ctx_ok_def]
    by (simp add: crypto_layer2_decrypt_fragment_def Let_def l2_frag_enc_start_offset_def
        del: rd_Some rdn_Some wrn_Some flip: ns_def)
  then show ?thesis using crypto_ready_updates(3) [OF ready tk(2)] s
    by (auto simp: W_def len_def n_def)
qed

lemma l2_fragment_transfer:
  fixes eth :: buf
  assumes ready: "crypto_ready E st" "crypto_ready E st'" "same_policy st st'"
    and ctx: "ctx_ok ctx" "ctx_ok ctx'" "current_key ctx' = current_key ctx"
    and eth: "length eth = 14" "eth ! 12 = 8" "eth ! 13 = 0" and fake: "g_fake_ethertype_ipv4 st \<noteq> 0"
    and plain: "plain \<noteq> []" "length plain < 65536"
    and room: "14 + l2_overhead st + 5 + length plain \<le> out_max" "out_max \<le> length out"
  shows "\<exists>wire st1 dec st2 n. n = 14 + length plain \<and>
    crypto_layer2_encrypt_fragment_single E ctx eth plain pkt_id i out out_max st =
      Some (0, wire, n + l2_overhead st + 5, st1) \<and>
    crypto_layer2_decrypt_fragment E ctx' wire (n + l2_overhead st + 5) st' = Some (int n, pkt_id, i, dec, st2) \<and>
    take 12 dec = take 12 eth \<and> take (length plain) (drop 14 dec) = plain \<and>
    crypto_ready E st1 \<and> crypto_ready E st2 \<and> same_policy st st1 \<and> same_policy st' st2"
proof -
  let ?len = "14 + l2_overhead st + 5 + length plain"
  have M: "length (take 12 eth) = 12" using eth by simp
  have small: "length plain < 2 ^ 29" using plain by simp
  obtain nonce st1 where enc: "crypto_layer2_encrypt_fragment_single E ctx eth plain pkt_id i out out_max st =
      Some (0, take 12 eth @ [hi8 (g_fake_ethertype_ipv4 st), g_policy_id st] @ nonce @ [L2_FRAG_MAGIC] @
        [hi8 pkt_id, lo8 pkt_id, i, 0] @ fst (seal_ref E st (current_key ctx) nonce plain) @
        snd (seal_ref E st (current_key ctx) nonce plain) @ drop ?len out, ?len, st1)"
      "length nonce = g_nonce_size st" "crypto_ready E st1" "same_policy st st1"
    using l2_fragment_wire [OF ready(1) ctx(1) eth fake plain(1) small room, of pkt_id i]
    by (auto simp: Let_def)
  note pol = same_policyD [OF ready(3)]
  have ov: "l2_overhead st' = l2_overhead st" by (simp add: l2_overhead_def pol)
  have hyps: "g_fake_ethertype_ipv4 st' \<noteq> 0" "length nonce = g_nonce_size st'" using fake enc(2) pol by simp_all
  obtain R st2 where dec: "crypto_layer2_decrypt_fragment E ctx'
      (take 12 eth @ [hi8 (g_fake_ethertype_ipv4 st), g_policy_id st] @ nonce @ [L2_FRAG_MAGIC] @
        [hi8 pkt_id, lo8 pkt_id, i, 0] @ fst (seal_ref E st (current_key ctx) nonce plain) @
        snd (seal_ref E st (current_key ctx) nonce plain) @ drop ?len out) ?len st' =
      Some (int (14 + length plain), pkt_id, i,
        take 12 eth @ [hi8 (g_fake_ethertype_ipv4 st), g_policy_id st] @ plain @ R, st2)" "crypto_ready E st2" "same_policy st' st2"
    using l2_fragment_open [OF ready(2) ctx(2) M hyps plain(1) small,
        of "g_policy_id st" pkt_id i "drop ?len out"]
    by (auto simp only: ov pol(5,9) ctx(3))
  show ?thesis using enc(1,3,4) dec eth(1)
    by (intro exI [of _ "14 + length plain"] exI) (auto simp: add.commute add.left_commute)
qed

text \<open>A layer-2 fragment decrypts to the half it was made from, with its packet id and index,
  behind the Ethernet addresses it was built with.\<close>

theorem l2_fragment_roundtrip:
  fixes eth :: buf
  assumes ready: "crypto_ready E st" "crypto_ready E st'" "same_policy st st'"
    and ctx: "ctx_ok ctx" "ctx_ok ctx'" "current_key ctx' = current_key ctx"
    and eth: "length eth = 14" "eth ! 12 = 8" "eth ! 13 = 0" and fake: "g_fake_ethertype_ipv4 st \<noteq> 0"
    and plain: "plain \<noteq> []" "length plain < 65536"
    and room: "14 + l2_overhead st + 5 + length plain \<le> out_max" "out_max \<le> length out"
  shows "\<exists>wire st1 dec st2 n. n = 14 + length plain \<and>
    crypto_layer2_encrypt_fragment_single E ctx eth plain pkt_id i out out_max st =
      Some (0, wire, n + l2_overhead st + 5, st1) \<and>
    crypto_layer2_decrypt_fragment E ctx' wire (n + l2_overhead st + 5) st' = Some (int n, pkt_id, i, dec, st2) \<and>
    take 12 dec = take 12 eth \<and> take (length plain) (drop 14 dec) = plain \<and>
    crypto_ready E st1 \<and> crypto_ready E st2"
  using l2_fragment_transfer [OF assms, of pkt_id i] by blast

theorem l2_fragment_roundtrip_witness:
  "\<exists>wire st1 dec st2.
    crypto_layer2_encrypt_fragment_single sample_evp sample_ctx (take 14 sample_packet) [1, 2, 3] 0x1234 1
      (replicate 100 0) 100 sample_st = Some (0, wire, 50, st1) \<and>
    crypto_layer2_decrypt_fragment sample_evp sample_ctx wire 50 sample_st =
      Some (17, 0x1234, 1, dec, st2) \<and> take 3 (drop 14 dec) = [1, 2, 3]"
proof -
  have ov: "l2_overhead sample_st = 28" "g_fake_ethertype_ipv4 sample_st \<noteq> 0"
    by (simp_all add: l2_overhead_def tag_size_def is_gcm_mode_def sample_st_def crypto_state_init_def)
  show ?thesis
    using l2_fragment_roundtrip [where E = sample_evp and st = sample_st and st' = sample_st and
        ctx = sample_ctx and ctx' = sample_ctx and eth = "take 14 sample_packet" and
        plain = "[1, 2, 3]" and out_max = 100 and out = "replicate 100 0" and pkt_id = "0x1234" and i = "1"] ov
    by (auto simp: numeral_3_eq_3)
qed

end
