(* ===== verification/Layer3.thy ===== *)
theory Layer3
  imports PacketCrypto
begin

text \<open>
  Encryption of the whole IP payload, \<^verbatim>\<open>src/crypto/crypto_layer3.c\<close>: a tunnel header (nonce,
  policy id, original protocol) goes between the IP header and the ciphertext, and the
  protocol field of the IP header is replaced by the configured fake protocol.  The
  receiver recomputes the TCP or UDP checksum of what it decrypted.
\<close>

abbreviation (input) MIN_ETH_PKT :: nat where "MIN_ETH_PKT \<equiv> 22"
abbreviation (input) IPV4_PROTO_OFF :: nat where "IPV4_PROTO_OFF \<equiv> 23"
abbreviation (input) IPV4_TOTLEN_OFF :: nat where "IPV4_TOTLEN_OFF \<equiv> 16"
abbreviation (input) CRYPTO_L3_FRAG_MAGIC :: byte where "CRYPTO_L3_FRAG_MAGIC \<equiv> 0x5C"
abbreviation (input) CRYPTO_L3_FRAG_TAG_SIZE :: nat where "CRYPTO_L3_FRAG_TAG_SIZE \<equiv> 4"

section \<open>Parsing and headers\<close>

definition pkt_is_ipv4 :: "buf \<Rightarrow> nat \<Rightarrow> bool option" where
  "pkt_is_ipv4 packet pkt_len =
     (if pkt_len < 34 then Some False else do { et \<leftarrow> rd16 packet 12; Some (et = 0x0800) })"

definition ipv4_hdr_len_at :: "buf \<Rightarrow> nat \<Rightarrow> nat \<Rightarrow> int option" where
  "ipv4_hdr_len_at packet pkt_len l3_off =
     (if pkt_len < l3_off + 20 then Some (-1)
      else do {
        b \<leftarrow> rd packet l3_off;
        let ihl = ihl_bytes b;
        if ihl < 20 \<or> pkt_len < l3_off + ihl then Some (-1) else Some (int ihl)
      })"

definition l3_write_tunnel_header_frag :: "crypto_state \<Rightarrow> buf \<Rightarrow> nat \<Rightarrow> buf \<Rightarrow> nat \<Rightarrow> buf option" where
  "l3_write_tunnel_header_frag st b off nonce nonce_size =
     crypto_write_l3_tunnel_header b off nonce nonce_size (g_policy_id st) CRYPTO_L3_FRAG_MAGIC"

definition l3_is_frag_tunnel :: "buf \<Rightarrow> nat \<Rightarrow> nat \<Rightarrow> bool option" where
  "l3_is_frag_tunnel b off nonce_size = do {
     m \<leftarrow> rd b (off + nonce_size + 1);
     Some (m = CRYPTO_L3_FRAG_MAGIC)
   }"

definition verify_decrypted_payload :: "byte \<Rightarrow> buf \<Rightarrow> bool" where
  "verify_decrypted_payload orig_proto payload =
     (if orig_proto = 6 \<or> orig_proto = 17
      then (if length payload < 4 then False
            else \<not> (be16 (payload ! 0) (payload ! 1) = 0 \<and> be16 (payload ! 2) (payload ! 3) = 0))
      else True)"

definition crypto_layer3_frag_meta_len :: "crypto_state \<Rightarrow> nat" where
  "crypto_layer3_frag_meta_len st =
     packet_crypto_get_tunnel_hdr_size st + CRYPTO_L3_FRAG_TAG_SIZE + tag_size st"

text \<open>Recomputing the checksum of the decrypted TCP segment or UDP datagram.\<close>

definition l3_fix_transport_cksum :: "buf \<Rightarrow> nat \<Rightarrow> nat \<Rightarrow> byte \<Rightarrow> buf option" where
  "l3_fix_transport_cksum packet ip_hdr_len dec_pkt_len orig_proto =
     (let transport_off = ETH_HEADER_SIZE + ip_hdr_len; seg_len = dec_pkt_len - transport_off
      in if \<not> dec_pkt_len > transport_off then Some packet
      else if orig_proto = 6 then
        (if seg_len \<ge> 20 then do {
           packet \<leftarrow> wr16 packet (transport_off + 16) 0;
           ip \<leftarrow> rdn packet ETH_HEADER_SIZE ip_hdr_len;
           seg \<leftarrow> rdn packet transport_off seg_len;
           wr16 packet (transport_off + 16) (crypto_calc_tcp_checksum ip seg)
         } else Some packet)
      else if orig_proto = 17 then
        (if seg_len \<ge> 8 then do {
           packet \<leftarrow> wr16 packet (transport_off + 6) 0;
           ip \<leftarrow> rdn packet ETH_HEADER_SIZE ip_hdr_len;
           seg \<leftarrow> rdn packet transport_off seg_len;
           wr16 packet (transport_off + 6) (crypto_calc_udp_checksum ip seg)
         } else Some packet)
      else Some packet)"

section \<open>Encryption\<close>

definition crypto_layer3_encrypt ::
    "evp \<Rightarrow> packet_crypto_ctx \<Rightarrow> buf \<Rightarrow> nat \<Rightarrow> crypto_state \<Rightarrow> crypto_result" where
  "crypto_layer3_encrypt E ctx packet pkt_len st =
     (if \<not> pc_initialized ctx \<or> pkt_len < MIN_ETH_PKT then Some (-1, packet, st)
      else do {
        ipv4 \<leftarrow> pkt_is_ipv4 packet pkt_len;
        if \<not> ipv4 then Some (c_int pkt_len, packet, st)
        else do {
          hl \<leftarrow> ipv4_hdr_len_at packet pkt_len ETH_HEADER_SIZE;
          if hl < 0 then Some (-1, packet, st)
          else do {
            let ip_hdr_len = nat hl;
            let tunnel_off = ETH_HEADER_SIZE + ip_hdr_len;
            let nonce_size = g_nonce_size st;
            frag \<leftarrow> (if pkt_len \<ge> tunnel_off + nonce_size + 2
                     then l3_is_frag_tunnel packet tunnel_off nonce_size else Some False);
            if frag then Some (c_int pkt_len, packet, st)
            else do {
              let tunnel_hdr_size = packet_crypto_get_tunnel_hdr_size st;
              orig_proto \<leftarrow> rd packet IPV4_PROTO_OFF;
              let payload_len = pkt_len - tunnel_off;
              let (counter, st) = packet_crypto_next_counter st;
              (nonce, st) \<leftarrow> crypto_generate_nonce E st counter PROTO_FLAG_IPV4;
              key \<leftarrow> packet_crypto_get_key ctx KEY_SLOT_CURRENT;
              payload \<leftarrow> rdn packet tunnel_off payload_len;
              (sealed, st) \<leftarrow> seal_data E st key nonce payload;
              case sealed of
                None \<Rightarrow> Some (-1, packet, st)
              | Some (ct, tag) \<Rightarrow> do {
                  packet \<leftarrow> wrn packet tunnel_off ct;
                  packet \<leftarrow> mem_move packet (tunnel_off + tunnel_hdr_size) tunnel_off payload_len;
                  packet \<leftarrow> wrn packet (tunnel_off + tunnel_hdr_size + payload_len) tag;
                  packet \<leftarrow> crypto_write_l3_tunnel_header packet tunnel_off nonce nonce_size
                              (g_policy_id st) orig_proto;
                  packet \<leftarrow> wr packet IPV4_PROTO_OFF (g_fake_protocol st);
                  let total_overhead = tunnel_hdr_size + tag_size st;
                  old_totlen \<leftarrow> rd16 packet IPV4_TOTLEN_OFF;
                  packet \<leftarrow> l3_patch_ipv4 packet ETH_HEADER_SIZE ip_hdr_len
                              (old_totlen + of_nat total_overhead);
                  Some (c_int (pkt_len + total_overhead), packet, st)
                }
            }
          }
        }
      })"

section \<open>Decryption\<close>

definition crypto_layer3_decrypt ::
    "evp \<Rightarrow> packet_crypto_ctx \<Rightarrow> buf \<Rightarrow> nat \<Rightarrow> crypto_state \<Rightarrow> crypto_result" where
  "crypto_layer3_decrypt E ctx packet pkt_len st =
     (if \<not> pc_initialized ctx \<or> pkt_len < MIN_ETH_PKT then Some (-1, packet, st)
      else do {
        ipv4 \<leftarrow> pkt_is_ipv4 packet pkt_len;
        if \<not> ipv4 then Some (c_int pkt_len, packet, st)
        else do {
          hl \<leftarrow> ipv4_hdr_len_at packet pkt_len ETH_HEADER_SIZE;
          let ip_hdr_len = nat hl;
          let tunnel_off = ETH_HEADER_SIZE + ip_hdr_len;
          let tunnel_hdr_size = packet_crypto_get_tunnel_hdr_size st;
          let nonce_size = g_nonce_size st;
          if hl < 0 \<or> pkt_len < tunnel_off + tunnel_hdr_size then Some (c_int pkt_len, packet, st)
          else do {
            frag \<leftarrow> l3_is_frag_tunnel packet tunnel_off nonce_size;
            proto \<leftarrow> rd packet IPV4_PROTO_OFF;
            if frag \<or> proto \<noteq> g_fake_protocol st then Some (c_int pkt_len, packet, st)
            else do {
              (nonce, _, orig_proto) \<leftarrow> crypto_read_l3_tunnel_header packet tunnel_off nonce_size;
              packet \<leftarrow> wr packet IPV4_PROTO_OFF orig_proto;
              let enc_off = tunnel_off + tunnel_hdr_size;
              let total_after_tunnel = pkt_len - enc_off;
              if is_gcm_mode st \<and> total_after_tunnel < AES128_GCM_TAG_SIZE then Some (-1, packet, st)
              else do {
                let enc_len = total_after_tunnel - tag_size st;
                let total_overhead = tunnel_hdr_size + tag_size st;
                tag \<leftarrow> rdn packet (enc_off + enc_len) (tag_size st);
                work \<leftarrow> rdn packet enc_off enc_len;
                (plain, work, st) \<leftarrow>
                  try_keys E ctx (\<lambda>d. is_gcm_mode st \<or> verify_decrypted_payload orig_proto d)
                    nonce tag work True key_order work st;
                packet \<leftarrow> wrn packet enc_off work;
                case plain of
                  None \<Rightarrow> Some (-1, packet, st)
                | Some _ \<Rightarrow> do {
                    packet \<leftarrow> mem_move packet tunnel_off enc_off enc_len;
                    packet \<leftarrow> wr packet IPV4_PROTO_OFF orig_proto;
                    old_totlen \<leftarrow> rd16 packet IPV4_TOTLEN_OFF;
                    packet \<leftarrow> l3_patch_ipv4 packet ETH_HEADER_SIZE ip_hdr_len
                                (old_totlen - of_nat total_overhead);
                    packet \<leftarrow> l3_fix_transport_cksum packet ip_hdr_len (pkt_len - total_overhead) orig_proto;
                    Some (c_int (pkt_len - total_overhead), packet, st)
                  }
              }
            }
          }
        }
      })"

section \<open>Fragments\<close>

definition crypto_layer3_encrypt_fragment_single ::
    "evp \<Rightarrow> packet_crypto_ctx \<Rightarrow> buf \<Rightarrow> buf \<Rightarrow> nat \<Rightarrow> buf \<Rightarrow> u16 \<Rightarrow> byte \<Rightarrow> buf \<Rightarrow> nat \<Rightarrow>
     crypto_state \<Rightarrow> (int \<times> buf \<times> nat \<times> crypto_state) option" where
  "crypto_layer3_encrypt_fragment_single E ctx eth_hdr ip_hdr ip_hdr_len enc_plain
       pkt_id frag_index out_buf out_max st =
     (let enc_plain_len = length enc_plain;
          nonce_size = g_nonce_size st;
          tunnel_hdr_size = packet_crypto_get_tunnel_hdr_size st;
          tunnel_off = ETH_HEADER_SIZE + ip_hdr_len;
          enc_off = tunnel_off + tunnel_hdr_size + CRYPTO_L3_FRAG_TAG_SIZE;
          need = enc_off + enc_plain_len + tag_size st
      in if \<not> pc_initialized ctx \<or> enc_plain_len = 0 \<or> ip_hdr_len < 20 then Some (-1, out_buf, 0, st)
      else if need > out_max then Some (-1, out_buf, 0, st)
      else do {
        eth \<leftarrow> rdn eth_hdr 0 ETH_HEADER_SIZE;
        out_buf \<leftarrow> wrn out_buf 0 eth;
        ip \<leftarrow> rdn ip_hdr 0 ip_hdr_len;
        out_buf \<leftarrow> wrn out_buf ETH_HEADER_SIZE ip;
        out_buf \<leftarrow> wr out_buf IPV4_PROTO_OFF (g_fake_protocol st);
        let (counter, st) = packet_crypto_next_counter st;
        (nonce, st) \<leftarrow> crypto_generate_nonce E st counter PROTO_FLAG_IPV4;
        key \<leftarrow> packet_crypto_get_key ctx KEY_SLOT_CURRENT;
        out_buf \<leftarrow> l3_write_tunnel_header_frag st out_buf tunnel_off nonce nonce_size;
        out_buf \<leftarrow> write_frag_tag out_buf (tunnel_off + tunnel_hdr_size) pkt_id frag_index;
        out_buf \<leftarrow> wrn out_buf enc_off enc_plain;
        (sealed, st) \<leftarrow> seal_data E st key nonce enc_plain;
        case sealed of
          None \<Rightarrow> Some (-1, out_buf, 0, st)
        | Some (ct, tag) \<Rightarrow> do {
            out_buf \<leftarrow> wrn out_buf enc_off ct;
            out_buf \<leftarrow> wrn out_buf (enc_off + enc_plain_len) tag;
            out_buf \<leftarrow> l3_patch_ipv4 out_buf ETH_HEADER_SIZE ip_hdr_len
                         (of_nat (ip_hdr_len + (tunnel_hdr_size + CRYPTO_L3_FRAG_TAG_SIZE + enc_plain_len +
                                                tag_size st)));
            Some (0, out_buf, need, st)
          }
      })"

definition crypto_layer3_decrypt_fragment ::
    "evp \<Rightarrow> packet_crypto_ctx \<Rightarrow> buf \<Rightarrow> nat \<Rightarrow> crypto_state \<Rightarrow> (int \<times> u16 \<times> byte \<times> buf \<times> crypto_state) option"
  where
  "crypto_layer3_decrypt_fragment E ctx packet pkt_len st =
     (if \<not> pc_initialized ctx then Some (-1, 0, 0, packet, st)
      else do {
        ipv4 \<leftarrow> pkt_is_ipv4 packet pkt_len;
        if \<not> ipv4 then Some (-1, 0, 0, packet, st)
        else do {
          hl \<leftarrow> ipv4_hdr_len_at packet pkt_len ETH_HEADER_SIZE;
          proto \<leftarrow> rd packet IPV4_PROTO_OFF;
          let ip_hdr_len = nat hl;
          let tunnel_off = ETH_HEADER_SIZE + ip_hdr_len;
          let nonce_size = g_nonce_size st;
          let tunnel_hdr_size = packet_crypto_get_tunnel_hdr_size st;
          let enc_off = tunnel_off + tunnel_hdr_size + CRYPTO_L3_FRAG_TAG_SIZE;
          if hl < 0 \<or> proto \<noteq> g_fake_protocol st \<or> pkt_len < enc_off then Some (-1, 0, 0, packet, st)
          else do {
            frag \<leftarrow> l3_is_frag_tunnel packet tunnel_off nonce_size;
            if \<not> frag then Some (-1, 0, 0, packet, st)
            else do {
              (pkt_id, frag_index) \<leftarrow> read_frag_tag packet (tunnel_off + tunnel_hdr_size);
              nonce \<leftarrow> read_nonce packet tunnel_off nonce_size;
              let total_after = pkt_len - enc_off;
              if is_gcm_mode st \<and> total_after < AES128_GCM_TAG_SIZE
                then Some (-1, pkt_id, frag_index, packet, st)
              else do {
                let enc_len = total_after - tag_size st;
                tag \<leftarrow> rdn packet (enc_off + enc_len) (tag_size st);
                work \<leftarrow> rdn packet enc_off enc_len;
                (plain, work, st) \<leftarrow> try_keys E ctx (\<lambda>_. True) nonce tag work True key_order work st;
                packet \<leftarrow> wrn packet enc_off work;
                case plain of
                  None \<Rightarrow> Some (-1, pkt_id, frag_index, packet, st)
                | Some _ \<Rightarrow> do {
                    packet \<leftarrow> mem_move packet tunnel_off enc_off enc_len;
                    packet \<leftarrow> l3_patch_ipv4 packet ETH_HEADER_SIZE ip_hdr_len
                                (of_nat (ip_hdr_len + enc_len));
                    Some (c_int (tunnel_off + enc_len), pkt_id, frag_index, packet, st)
                  }
              }
            }
          }
        }
      })"

section \<open>Packets that are encrypted\<close>

definition l3_packet :: "buf \<Rightarrow> nat \<Rightarrow> nat \<Rightarrow> bool" where
  "l3_packet packet pkt_len ihl \<longleftrightarrow>
     pkt_len \<le> length packet \<and> packet ! 12 = 8 \<and> packet ! 13 = 0 \<and>
     ihl = ihl_bytes (packet ! 14) \<and> 20 \<le> ihl \<and> 14 + ihl < pkt_len"

definition l3_overhead :: "crypto_state \<Rightarrow> nat" where
  "l3_overhead st = packet_crypto_get_tunnel_hdr_size st + tag_size st"

lemma l3_overhead_le: "crypto_ready E st \<Longrightarrow> l3_overhead st \<le> 34"
  by (simp add: l3_overhead_def packet_crypto_get_tunnel_hdr_size_def crypto_ready_def tag_size_def)

lemma be16_8_0 [simp]: "be16 8 0 = 0x0800"
  by (simp add: be16_def)

lemma l3_parse:
  assumes "l3_packet packet pkt_len ihl"
  shows "pkt_is_ipv4 packet pkt_len = Some True" and "ipv4_hdr_len_at packet pkt_len 14 = Some (int ihl)"
  using assms by (auto simp: l3_packet_def pkt_is_ipv4_def ipv4_hdr_len_at_def Let_def)

text \<open>The byte of the payload that the code takes for a fragment marker.\<close>

definition l3_marker_clash :: "buf \<Rightarrow> nat \<Rightarrow> nat \<Rightarrow> nat \<Rightarrow> bool" where
  "l3_marker_clash packet pkt_len ihl nonce_size \<longleftrightarrow>
     14 + ihl + nonce_size + 2 \<le> pkt_len \<and> packet ! (14 + ihl + nonce_size + 1) = CRYPTO_L3_FRAG_MAGIC"

lemma l3_frag_test:
  assumes "pkt_len \<le> length packet"
  shows "(if pkt_len \<ge> 14 + ihl + ns + 2 then l3_is_frag_tunnel packet (14 + ihl) ns else Some False) =
    Some (l3_marker_clash packet pkt_len ihl ns)"
  using assms by (auto simp: l3_is_frag_tunnel_def l3_marker_clash_def)

text \<open>A plaintext packet is sent in clear under a layer-3 policy whenever one byte of its own
  payload has the fragment marker's value: the encrypting function returns its length and
  leaves every byte as it was.\<close>

theorem l3_encrypt_skips_marker:
  assumes "ctx_ok ctx" and pkt: "l3_packet packet pkt_len ihl" and "pkt_len < 2 ^ 30"
    and clash: "l3_marker_clash packet pkt_len ihl (g_nonce_size st)"
  shows "crypto_layer3_encrypt E ctx packet pkt_len st = Some (int pkt_len, packet, st)"
proof -
  have "pkt_len \<le> length packet" "\<not> pkt_len < 22" using pkt by (auto simp: l3_packet_def)
  then show ?thesis using assms(1,3) clash l3_parse [OF pkt] l3_frag_test [of pkt_len packet ihl "g_nonce_size st"]
    by (simp add: crypto_layer3_encrypt_def ctx_ok_def Let_def)
qed

theorem l3_encrypt_skips_marker_witness:
  "crypto_layer3_encrypt sample_evp sample_ctx (sample_packet[47 := 0x5C]) 50 sample_st =
     Some (50, sample_packet[47 := 0x5C], sample_st)"
proof -
  have "l3_packet (sample_packet[47 := 0x5C]) 50 20"
    by (simp add: l3_packet_def ihl_bytes_def)
  moreover have "l3_marker_clash (sample_packet[47 := 0x5C]) 50 20 (g_nonce_size sample_st)"
    by (simp add: l3_marker_clash_def sample_st_def crypto_state_init_def)
  ultimately show ?thesis
    using l3_encrypt_skips_marker [OF sample_ctx_ok] by fastforce
qed

lemma l3_encrypt_wire:
  fixes packet :: buf
  assumes ready: "crypto_ready E st" and ctx: "ctx_ok ctx" and pkt: "l3_packet packet pkt_len ihl"
    and small: "pkt_len < 2 ^ 30" and room: "pkt_len + l3_overhead st \<le> length packet"
    and noclash: "\<not> l3_marker_clash packet pkt_len ihl (g_nonce_size st)"
  defines "H \<equiv> take (14 + ihl) packet" and "plain \<equiv> drop (14 + ihl) (take pkt_len packet)"
  shows "\<exists>nonce st1. let s = seal_ref E st (current_key ctx) nonce plain in
    crypto_layer3_encrypt E ctx packet pkt_len st = Some (int (pkt_len + l3_overhead st),
      patched (H[23 := g_fake_protocol st]) 14 ihl
          (be16 (packet ! 16) (packet ! 17) + of_nat (l3_overhead st)) @
        nonce @ [g_policy_id st, packet ! 23] @ fst s @ snd s @
        drop (pkt_len + l3_overhead st) packet, st1) \<and>
    length nonce = g_nonce_size st \<and> crypto_ready E st1 \<and> same_policy st st1"
proof -
  define off where "off = 14 + ihl"
  define th n where "th = packet_crypto_get_tunnel_hdr_size st" and "n = pkt_len - off"
  have th: "th = g_nonce_size st + 2" by (simp add: th_def packet_crypto_get_tunnel_hdr_size_def)
  have ovs: "l3_overhead st = th + tag_size st" by (simp add: l3_overhead_def th_def)
  have p: "pkt_len \<le> length packet" "pkt_len < 2 ^ 30" "20 \<le> ihl" "off < pkt_len"
    using pkt small by (auto simp: l3_packet_def off_def)
  have E: "evp_ok E" using ready by (simp add: crypto_ready_def)
  define slack where "slack = drop pkt_len packet"
  have lenH: "length H = off" and lenp: "length plain = n"
    using p by (simp_all add: H_def off_def plain_def n_def)
  have split: "packet = H @ plain @ slack"
    using p split_at_two [of off pkt_len packet] by (simp add: H_def plain_def slack_def off_def)
  obtain counter st0 where cnt: "packet_crypto_next_counter st = (counter, st0)" by fastforce
  have "plain \<noteq> []" "length plain < 2 ^ 31" using lenp p by (auto simp: n_def)
  then obtain nonce st1 st2 where ng: "crypto_generate_nonce E st0 counter PROTO_FLAG_IPV4 = Some (nonce, st1)"
      "seal_data E st1 (current_key ctx) nonce plain =
         Some (Some (seal_ref E st (current_key ctx) nonce plain), st2)"
      "length nonce = g_nonce_size st" "crypto_ready E st2" "same_policy st st1" "same_policy st st2"
      "g_policy_id st1 = g_policy_id st" "g_policy_id st2 = g_policy_id st"
    using fresh_seal [OF ready _ _ _ cnt] ctx_ok_current [OF ctx] by blast
  obtain ct tag where s: "seal_ref E st (current_key ctx) nonce plain = (ct, tag)" by fastforce
  have lens: "length ct = n" "length tag = tag_size st"
    using seal_ref_lengths [OF E, of st "current_key ctx" nonce plain] s lenp by auto
  let ?hdr = "[g_policy_id st, packet ! 23]"
  let ?rest = "nonce @ ?hdr @ ct @ tag @ drop (th + tag_size st) slack"
  have "th + length tag \<le> length slack"
    using room p(1) ovs by (simp add: slack_def lens)
  then have "do { q \<leftarrow> wrn packet off ct; q \<leftarrow> mem_move q (off + th) off n;
      q \<leftarrow> wrn q (off + th + n) tag;
      crypto_write_l3_tunnel_header q off nonce (g_nonce_size st) (g_policy_id st) (packet ! 23) } =
      Some (H @ ?rest)"
    unfolding th lens(2) [symmetric]
    by (subst (1) split, intro seal_layout) (use lenH lens lenp ng(3) in \<open>auto simp: n_def\<close>)
  then obtain q1 q2 q3 where q: "wrn packet off ct = Some q1" "mem_move q1 (off + th) off n = Some q2"
      "wrn q2 (off + th + n) tag = Some q3"
      "crypto_write_l3_tunnel_header q3 off nonce (g_nonce_size st) (g_policy_id st) (packet ! 23) =
        Some (H @ ?rest)"
    by (auto simp: bind_eq_Some_conv)
  let ?H = "H[23 := g_fake_protocol st]"
  have w: "wr (H @ ?rest) 23 (g_fake_protocol st) = Some (?H @ ?rest)"
    using lenH p(3) by (simp add: off_def list_update_append)
  have t: "rd16 (?H @ ?rest) 16 = Some (be16 (packet ! 16) (packet ! 17))"
    using lenH p(3) by (simp add: off_def nth_append) (simp add: H_def)
  have fix': "l3_patch_ipv4 (?H @ ?rest) 14 ihl v = Some (patched ?H 14 ihl v @ ?rest)" for v
    using lenH p(3) by (simp add: l3_patch_ipv4_patched patched_append off_def)
  have plain: "rdn packet off n = Some plain"
    by (subst split) (use lenH lenp in \<open>intro rdn_at, auto\<close>)
  have sizes: "c_int (pkt_len + (th + tag_size st)) = int (pkt_len + l3_overhead st)"
      "tag_size st2 = tag_size st" "\<not> pkt_len < 22" "g_fake_protocol st2 = g_fake_protocol st"
      "rd packet 23 = Some (packet ! 23)"
    using p l3_overhead_le [OF ready] ovs same_policyD [OF ng(6)] by (auto simp: off_def)
  have clash: "l3_is_frag_tunnel packet off (g_nonce_size st) = Some False \<or>
      \<not> 16 + (ihl + g_nonce_size st) \<le> pkt_len"
    using noclash p(1) by (auto simp: l3_marker_clash_def l3_is_frag_tunnel_def off_def)
  have "crypto_layer3_encrypt E ctx packet pkt_len st = Some (int (pkt_len + l3_overhead st),
      patched ?H 14 ihl (be16 (packet ! 16) (packet ! 17) + of_nat (th + tag_size st)) @ ?rest, st2)"
  proof -
    note facts = ctx [unfolded ctx_ok_def] ctx_ok_current [OF ctx] l3_parse [OF pkt] cnt ng(1,2) ng(7,8)
      s q w t fix' plain sizes
    from clash show ?thesis
    proof
      assume "l3_is_frag_tunnel packet off (g_nonce_size st) = Some False"
      then show ?thesis using facts
        by (simp add: crypto_layer3_encrypt_def Let_def del: rd_Some wr_append1 rd16_append1
            flip: off_def th_def n_def)
    next
      assume "\<not> 16 + (ihl + g_nonce_size st) \<le> pkt_len"
      then show ?thesis using facts
        by (simp add: crypto_layer3_encrypt_def Let_def del: rd_Some wr_append1 rd16_append1
            flip: off_def th_def n_def)
    qed
  qed
  then show ?thesis using ng(3,4,6) s
    by (intro exI [of _ nonce] exI [of _ st2]) (simp add: Let_def ovs slack_def add.commute add.left_commute)
qed

section \<open>Decryption restores the packet\<close>

lemma l3_fix_transport_append:
  assumes "20 \<le> ihl"
  shows "l3_fix_transport_cksum (X @ R) ihl (length X) p =
    map_option (\<lambda>X. X @ R) (l3_fix_transport_cksum X ihl (length X) p)"
proof -
  have step: "do { q \<leftarrow> wr16 (X @ R) i 0; ip \<leftarrow> rdn q 14 ihl; seg \<leftarrow> rdn q (14 + ihl) k; wr16 q i (f ip seg) } =
      map_option (\<lambda>X. X @ R)
        (do { q \<leftarrow> wr16 X i 0; ip \<leftarrow> rdn q 14 ihl; seg \<leftarrow> rdn q (14 + ihl) k; wr16 q i (f ip seg) })"
    if "Suc i < length X" "14 + ihl + k = length X" for i k f
  proof -
    have "wr16 X i 0 = Some (X[i := hi8 0, i + 1 := lo8 0])" using that by simp
    then obtain Y where Y: "wr16 X i 0 = Some Y" "length Y = length X" by (meson wr16_length)
    then show ?thesis using that
      by (simp add: wr16_append1 map_option_bind comp_def del: wr16_Some rdn_Some)
  qed
  show ?thesis
    using step [of "14 + ihl + 16" "length X - (14 + ihl)" crypto_calc_tcp_checksum]
      step [of "14 + ihl + 6" "length X - (14 + ihl)" crypto_calc_udp_checksum]
    by (simp add: l3_fix_transport_cksum_def Let_def del: wr16_append1 rdn_append1 wr16_Some rdn_Some)
qed

lemma l3_decrypt_wire:
  fixes H :: buf
  assumes ready: "crypto_ready E st" and ctx: "ctx_ok ctx"
    and H: "length H = 14 + ihl" "H ! 12 = 8" "H ! 13 = 0" "ihl = ihl_bytes (H ! 14)" "20 \<le> ihl"
      "H ! 23 = g_fake_protocol st"
    and nonce: "length nonce = g_nonce_size st"
    and plain: "plain \<noteq> []" "length H + length plain < 2 ^ 30"
    and proto: "p \<noteq> CRYPTO_L3_FRAG_MAGIC" "is_gcm_mode st \<or> verify_decrypted_payload p plain"
  defines "s \<equiv> seal_ref E st (current_key ctx) nonce plain"
    and "D \<equiv> patched (H[23 := p]) 14 ihl (be16 (H ! 16) (H ! 17) - of_nat (l3_overhead st)) @ plain"
  assumes cksum: "l3_fix_transport_cksum D ihl (length D) p = Some D'"
  shows "\<exists>R st1. crypto_layer3_decrypt E ctx
      (H @ nonce @ [pid, p] @ fst s @ snd s @ rest) (length H + l3_overhead st + length plain) st =
    Some (int (length H + length plain), D' @ R, st1) \<and> crypto_ready E st1 \<and> same_policy st st1"
proof -
  obtain ct tag where s: "s = (ct, tag)" by fastforce
  have E: "evp_ok E" using ready by (simp add: crypto_ready_def)
  have lens: "length ct = length plain" "length tag = tag_size st"
    using seal_ref_lengths [OF E, of st "current_key ctx" nonce plain] s by (auto simp: s_def)
  define off th n where "off = 14 + ihl" and "th = packet_crypto_get_tunnel_hdr_size st" and "n = length plain"
  have th: "th = g_nonce_size st + 2" by (simp add: th_def packet_crypto_get_tunnel_hdr_size_def)
  have lenH: "length H = off" using H by (simp add: off_def)
  let ?hdr = "nonce @ [pid, p]" and ?H = "H[23 := p]"
  define W where "W = H @ ?hdr @ ct @ tag @ rest"
  define len where "len = off + l3_overhead st + n"
  have len: "len = off + th + n + tag_size st"
    by (simp add: len_def l3_overhead_def th_def)
  have "n \<noteq> 0" using plain by (simp add: n_def)
  then have "l3_packet W len ihl"
    using H plain len lens nonce th by (simp add: l3_packet_def W_def n_def off_def nth_append len_def l3_overhead_def th_def [symmetric])
  note parse = l3_parse [OF this]
  have frag: "l3_is_frag_tunnel W off (g_nonce_size st) = Some False"
    using lenH nonce proto(1) by (simp add: l3_is_frag_tunnel_def W_def nth_append)
  have rdproto: "rd W 23 = Some (g_fake_protocol st)" using H by (simp add: W_def nth_append)
  have rdhdr: "crypto_read_l3_tunnel_header W off (g_nonce_size st) = Some (nonce, pid, p)"
    using ready nonce lenH
    by (simp add: crypto_read_l3_tunnel_header_def read_nonce_def crypto_ready_def W_def nth_append)
  define V where "V = ?H @ ?hdr @ ct @ tag @ rest"
  have w: "wr W 23 p = Some V"
    using H by (simp add: W_def V_def list_update_append)
  have rdct: "rdn V (off + th) n = Some ct" and rdtag: "rdn V (off + th + n) (tag_size st) = Some tag"
    using rdn_at [of "off + th" "?H @ ?hdr" n ct "tag @ rest"]
      rdn_at [of "off + th + n" "?H @ ?hdr @ ct" "tag_size st" tag rest] nonce lens th lenH
    by (simp_all add: V_def n_def)
  obtain c where tk: "try_keys E ctx (\<lambda>d. is_gcm_mode st \<or> verify_decrypted_payload p d) nonce tag ct True
      key_order ct st = Some (Some plain, plain, st\<lparr>tls_dec := c\<rparr>)" "cache_ok (g_aes_bits st) c"
    using try_keys_current [OF ready ctx plain(1),
        of "\<lambda>d. is_gcm_mode st \<or> verify_decrypted_payload p d" nonce ct] plain(2) s proto(2)
    by (auto simp: s_def)
  obtain R where R: "do { q \<leftarrow> wrn V (off + th) plain; mem_move q off (off + th) n } = Some (?H @ plain @ R)"
    using unseal_layout [of off ?H ?hdr th plain n ct "tag @ rest"] nonce lens th lenH
    by (auto simp: V_def n_def)
  then obtain q where q: "wrn V (off + th) plain = Some q"
      "mem_move q off (off + th) n = Some (?H @ plain @ R)"
    by (auto simp: bind_eq_Some_conv)
  have w2: "wr (?H @ plain @ R) 23 p = Some (?H @ plain @ R)"
    using H by (simp add: list_update_append)
  have t: "rd16 (?H @ plain @ R) 16 = Some (be16 (H ! 16) (H ! 17))"
    using H by (simp add: nth_append)
  have fix': "l3_patch_ipv4 (?H @ plain @ R) 14 ihl (be16 (H ! 16) (H ! 17) - of_nat (th + tag_size st)) = Some (D @ R)"
    using H by (simp add: l3_patch_ipv4_patched patched_append D_def l3_overhead_def th_def)
  have lenD: "length D = len - (th + tag_size st)" using lenH len by (simp add: D_def n_def)
  have ck: "l3_fix_transport_cksum (D @ R) ihl (len - (th + tag_size st)) p = Some (D' @ R)"
    using cksum l3_fix_transport_append [OF H(5), of D R p] by (simp add: lenD)
  have sizes: "len - (off + th) = n + tag_size st" "n + tag_size st - tag_size st = n"
    "\<not> len < off + th" "\<not> len < 22" "\<not> (is_gcm_mode st \<and> n + tag_size st < 16)"
    "c_int (len - (th + tag_size st)) = int (length H + length plain)"
    using len lenH plain H(5) by (auto simp: n_def tag_size_def off_def)
  have "crypto_layer3_decrypt E ctx W len st =
      Some (int (length H + length plain), D' @ R, st\<lparr>tls_dec := c\<rparr>)"
    using parse frag rdproto rdhdr w rdct rdtag tk(1) q w2 t fix' ck sizes ctx [unfolded ctx_ok_def]
    by (simp add: crypto_layer3_decrypt_def Let_def del: wr_append1 rd16_append1 flip: off_def th_def)
  then show ?thesis using crypto_ready_updates(3) [OF ready tk(2)] s lenH
    by (auto simp: W_def len_def n_def)
qed

text \<open>The header fields of a packet that decryption recomputes are right already.\<close>

definition l3_canonical :: "buf \<Rightarrow> nat \<Rightarrow> nat \<Rightarrow> bool" where
  "l3_canonical packet pkt_len ihl \<longleftrightarrow>
     patched packet 14 ihl (be16 (packet ! 16) (packet ! 17)) = packet \<and>
     l3_fix_transport_cksum packet ihl pkt_len (packet ! 23) = Some packet"


text \<open>An ICMP packet of fifty bytes.\<close>

definition sample_icmp :: buf where
  "sample_icmp = patched (sample_raw[23 := 1]) 14 20 36"

lemma sample_icmp_facts:
  "length sample_icmp = 200" "sample_icmp ! 12 = 8" "sample_icmp ! 13 = 0" "sample_icmp ! 14 = 0x45"
  "sample_icmp ! 23 = 1" "sample_icmp ! 47 = 6" "be16 (sample_icmp ! 16) (sample_icmp ! 17) = 36"
  by (simp_all add: sample_icmp_def patched_nth)
     (simp_all add: sample_raw_def patched_def Let_def numeral_eq_Suc)


section \<open>Fragments round-trip\<close>

definition l3_headers :: "buf \<Rightarrow> buf \<Rightarrow> nat \<Rightarrow> bool" where
  "l3_headers eth ip ihl \<longleftrightarrow> length eth = 14 \<and> eth ! 12 = 8 \<and> eth ! 13 = 0 \<and>
     length ip = ihl \<and> 20 \<le> ihl \<and> ihl \<le> 60 \<and> ihl_bytes (ip ! 0) = ihl"

lemma l3_fragment_wire:
  fixes eth :: buf
  assumes ready: "crypto_ready E st" and ctx: "ctx_ok ctx" and hdrs: "l3_headers eth ip ihl"
    and plain: "plain \<noteq> []" "length plain < 2 ^ 30"
    and room: "14 + ihl + l3_overhead st + 4 + length plain \<le> out_max" "out_max \<le> length out"
  defines "H \<equiv> (eth @ ip)[23 := g_fake_protocol st]"
    and "len \<equiv> 14 + ihl + l3_overhead st + 4 + length plain"
  shows "\<exists>nonce st1. let s = seal_ref E st (current_key ctx) nonce plain in
    crypto_layer3_encrypt_fragment_single E ctx eth ip ihl plain pkt_id i out out_max st =
      Some (0, patched H 14 ihl (of_nat (len - 14)) @ nonce @ [g_policy_id st, CRYPTO_L3_FRAG_MAGIC] @
        [hi8 pkt_id, lo8 pkt_id, i, 0] @ fst s @ snd s @ drop len out, len, st1) \<and>
    length nonce = g_nonce_size st \<and> crypto_ready E st1 \<and> same_policy st st1"
proof -
  define off where "off = 14 + ihl"
  define th n where "th = packet_crypto_get_tunnel_hdr_size st" and "n = length plain"
  have th: "th = g_nonce_size st + 2" by (simp add: th_def packet_crypto_get_tunnel_hdr_size_def)
  have h: "length eth = 14" "length ip = ihl" "20 \<le> ihl" "ihl \<le> 60"
    using hdrs by (auto simp: l3_headers_def)
  have E: "evp_ok E" using ready by (simp add: crypto_ready_def)
  have lenH: "length H = off" using h by (simp add: H_def off_def)
  obtain counter st0 where cnt: "packet_crypto_next_counter st = (counter, st0)" by fastforce
  have "length plain < 2 ^ 31" using plain by simp
  then obtain nonce st1 st2 where ng: "crypto_generate_nonce E st0 counter PROTO_FLAG_IPV4 = Some (nonce, st1)"
      "seal_data E st1 (current_key ctx) nonce plain =
         Some (Some (seal_ref E st (current_key ctx) nonce plain), st2)"
      "length nonce = g_nonce_size st" "crypto_ready E st2" "same_policy st st1" "same_policy st st2"
      "g_policy_id st1 = g_policy_id st" "g_policy_id st2 = g_policy_id st"
    using fresh_seal [OF ready _ plain(1) _ cnt] ctx_ok_current [OF ctx] by blast
  obtain ct tag where s: "seal_ref E st (current_key ctx) nonce plain = (ct, tag)" by fastforce
  have lens: "length ct = n" "length tag = tag_size st"
    using seal_ref_lengths [OF E, of st "current_key ctx" nonce plain] s by (auto simp: n_def)
  have len: "len = off + (th + 4 + n + tag_size st)"
    by (simp add: len_def l3_overhead_def th_def off_def n_def)
  have room': "len \<le> out_max" "th + 4 + n + tag_size st \<le> length out - off"
    using room len by (simp_all add: len_def)
  have out1: "wrn out 0 eth = Some (eth @ drop 14 out)" using room h by simp
  have out2: "wrn (eth @ drop 14 out) 14 ip = Some (eth @ ip @ drop off out)"
    using room len_def h by (simp add: add.commute off_def)
  have out3: "wr (eth @ ip @ drop off out) 23 (g_fake_protocol st) = Some (H @ drop off out)"
    using h by (simp add: H_def list_update_append)
  let ?F = "H @ nonce @ [g_policy_id st, CRYPTO_L3_FRAG_MAGIC] @ [hi8 pkt_id, lo8 pkt_id, i, 0]"
  let ?out = "?F @ ct @ tag @ drop len out"
  have "do { q \<leftarrow> crypto_write_l3_tunnel_header (H @ drop off out) off nonce (g_nonce_size st) (g_policy_id st)
          CRYPTO_L3_FRAG_MAGIC;
      q \<leftarrow> write_frag_tag q (off + th) pkt_id i;
      q \<leftarrow> wrn q (off + th + 4) plain;
      q \<leftarrow> wrn q (off + th + 4) ct;
      wrn q (off + th + 4 + n) tag } = Some ?out"
    using frag_layout(2) [OF lenH [symmetric] ng(3) n_def [symmetric] lens(1) th,
        of tag "drop off out" "g_policy_id st" CRYPTO_L3_FRAG_MAGIC pkt_id i] lens(2) room'
    by (simp add: len add.commute [of off] del: wrn_Some)
  then obtain q1 q2 q3 q4 where q:
      "crypto_write_l3_tunnel_header (H @ drop off out) off nonce (g_nonce_size st) (g_policy_id st)
         CRYPTO_L3_FRAG_MAGIC = Some q1"
      "write_frag_tag q1 (off + th) pkt_id i = Some q2" "wrn q2 (off + th + 4) plain = Some q3"
      "wrn q3 (off + th + 4) ct = Some q4" "wrn q4 (off + th + 4 + n) tag = Some ?out"
    by (auto simp: bind_eq_Some_conv)
  have fix': "l3_patch_ipv4 ?out 14 ihl (of_nat (ihl + (th + 4 + n + tag_size st))) =
      Some (patched H 14 ihl (of_nat (len - 14)) @ drop off ?out)"
  proof -
    have "ihl + (th + 4 + n + tag_size st) = len - 14" by (simp add: len off_def)
    moreover have "14 + ihl \<le> length H" using lenH by (simp add: off_def)
    ultimately show ?thesis using h lenH by (simp add: l3_patch_ipv4_patched patched_append)
  qed
  have sizes: "\<not> off + th + 4 + n + tag_size st > out_max" "tag_size st2 = tag_size st" "n \<noteq> 0"
      "off + th + 4 + n + tag_size st = len"
    using room'(1) plain same_policyD(6) [OF ng(6)] len by (auto simp: n_def)
  have "crypto_layer3_encrypt_fragment_single E ctx eth ip ihl plain pkt_id i out out_max st =
      Some (0, patched H 14 ihl (of_nat (len - 14)) @ drop off ?out, len, st2)"
    using ctx [unfolded ctx_ok_def] ctx_ok_current [OF ctx] cnt ng(1,2,7,8) s q fix' out1 out2 out3 sizes h
    by (simp add: crypto_layer3_encrypt_fragment_single_def Let_def l3_write_tunnel_header_frag_def
        del: drop_append wrn_Some wr_append1 of_nat_add flip: off_def th_def n_def)
  then show ?thesis using ng(3,4,6) s lenH
    by (intro exI [of _ nonce] exI [of _ st2]) (simp add: Let_def)
qed

lemma l3_fragment_open:
  fixes H :: buf
  assumes ready: "crypto_ready E st" and ctx: "ctx_ok ctx"
    and H: "length H = 14 + ihl" "H ! 12 = 8" "H ! 13 = 0" "ihl = ihl_bytes (H ! 14)" "20 \<le> ihl"
      "H ! 23 = g_fake_protocol st"
    and nonce: "length nonce = g_nonce_size st"
    and plain: "plain \<noteq> []" "length H + length plain < 2 ^ 30"
  defines "s \<equiv> seal_ref E st (current_key ctx) nonce plain"
  shows "\<exists>R st1. crypto_layer3_decrypt_fragment E ctx
      (H @ nonce @ [pid, CRYPTO_L3_FRAG_MAGIC] @ [hi8 pkt_id, lo8 pkt_id, i, 0] @ fst s @ snd s @ rest)
      (length H + l3_overhead st + 4 + length plain) st =
    Some (int (length H + length plain), pkt_id, i,
      patched H 14 ihl (of_nat (ihl + length plain)) @ plain @ R, st1) \<and>
    crypto_ready E st1 \<and> same_policy st st1"
proof -
  obtain ct tag where s: "s = (ct, tag)" by fastforce
  have E: "evp_ok E" using ready by (simp add: crypto_ready_def)
  have lens: "length ct = length plain" "length tag = tag_size st"
    using seal_ref_lengths [OF E, of st "current_key ctx" nonce plain] s by (auto simp: s_def)
  define off th n where "off = 14 + ihl" and "th = packet_crypto_get_tunnel_hdr_size st" and "n = length plain"
  have th: "th = g_nonce_size st + 2" by (simp add: th_def packet_crypto_get_tunnel_hdr_size_def)
  have lenH: "length H = off" using H by (simp add: off_def)
  let ?hdr = "nonce @ [pid, CRYPTO_L3_FRAG_MAGIC] @ [hi8 pkt_id, lo8 pkt_id, i, 0]"
  define W where "W = H @ ?hdr @ ct @ tag @ rest"
  define len where "len = off + l3_overhead st + 4 + n"
  have len: "len = off + th + 4 + n + tag_size st"
    by (simp add: len_def l3_overhead_def th_def)
  have "l3_packet W len ihl"
    using H lens nonce th len by (simp add: l3_packet_def W_def n_def off_def nth_append)
  note parse = l3_parse [OF this]
  have frag: "l3_is_frag_tunnel W off (g_nonce_size st) = Some True"
    using lenH nonce by (simp add: l3_is_frag_tunnel_def W_def nth_append)
  have rdproto: "rd W 23 = Some (g_fake_protocol st)" using H by (simp add: W_def nth_append)
  have tagrd: "read_frag_tag W (off + th) = Some (pkt_id, i)"
    using read_frag_tag_at [of "off + th" "H @ nonce @ [pid, CRYPTO_L3_FRAG_MAGIC]" pkt_id i
        "ct @ tag @ rest"] nonce th lenH by (simp add: W_def)
  have rdnonce: "read_nonce W off (g_nonce_size st) = Some nonce"
    using ready nonce lenH by (simp add: read_nonce_def crypto_ready_def W_def)
  have rdct: "rdn W (off + th + 4) n = Some ct"
    and rdtag: "rdn W (off + th + 4 + n) (tag_size st) = Some tag"
    using rdn_at [of "off + th + 4" "H @ ?hdr" n ct "tag @ rest"]
      rdn_at [of "off + th + 4 + n" "H @ ?hdr @ ct" "tag_size st" tag rest] nonce lens th lenH
    by (simp_all add: W_def n_def)
  obtain c where tk: "try_keys E ctx (\<lambda>_. True) nonce tag ct True key_order ct st =
      Some (Some plain, plain, st\<lparr>tls_dec := c\<rparr>)" "cache_ok (g_aes_bits st) c"
    using try_keys_current [OF ready ctx plain(1), of "\<lambda>_. True" nonce ct] plain(2) s
    by (auto simp: s_def)
  obtain R where "do { q \<leftarrow> wrn W (off + (th + 4)) plain; mem_move q off (off + (th + 4)) n } =
      Some (H @ plain @ R)"
    using unseal_layout [of off H ?hdr "th + 4" plain n ct "tag @ rest"] nonce lens th lenH
    by (auto simp: W_def n_def)
  then obtain q where q: "wrn W (off + th + 4) plain = Some q"
      "mem_move q off (off + th + 4) n = Some (H @ plain @ R)"
    by (auto simp: bind_eq_Some_conv add.assoc)
  have fix': "l3_patch_ipv4 (H @ plain @ R) 14 ihl v = Some (patched H 14 ihl v @ plain @ R)" for v
    using H by (simp add: l3_patch_ipv4_patched patched_append)
  have sizes: "len - (off + th + 4) = n + tag_size st" "n + tag_size st - tag_size st = n"
    "\<not> len < off + th + 4" "\<not> len < 18 + (ihl + th)" "\<not> (is_gcm_mode st \<and> n + tag_size st < 16)"
    "c_int (off + n) = int (length H + length plain)"
    using len lenH plain H(5) by (auto simp: n_def tag_size_def off_def)
  have "crypto_layer3_decrypt_fragment E ctx W len st =
      Some (int (length H + length plain), pkt_id, i,
        patched H 14 ihl (of_nat (ihl + n)) @ plain @ R, st\<lparr>tls_dec := c\<rparr>)"
    using parse frag rdproto tagrd rdnonce rdct rdtag tk(1) q fix' sizes ctx [unfolded ctx_ok_def]
    by (simp add: crypto_layer3_decrypt_fragment_def Let_def del: of_nat_add flip: off_def th_def)
  then show ?thesis using crypto_ready_updates(3) [OF ready tk(2)] s lenH
    by (auto simp: W_def len_def n_def)
qed

lemma l3_fragment_transfer:
  fixes eth :: buf
  assumes ready: "crypto_ready E st" "crypto_ready E st'" "same_policy st st'"
    and ctx: "ctx_ok ctx" "ctx_ok ctx'" "current_key ctx' = current_key ctx"
    and hdrs: "l3_headers eth ip ihl" and plain: "plain \<noteq> []" "length plain < 65536"
    and room: "14 + ihl + l3_overhead st + 4 + length plain \<le> out_max" "out_max \<le> length out"
  shows "\<exists>wire st1 dec st2 n. n = 14 + ihl + length plain \<and>
    crypto_layer3_encrypt_fragment_single E ctx eth ip ihl plain pkt_id i out out_max st =
      Some (0, wire, n + l3_overhead st + 4, st1) \<and>
    crypto_layer3_decrypt_fragment E ctx' wire (n + l3_overhead st + 4) st' = Some (int n, pkt_id, i, dec, st2) \<and>
    take n dec = patched ((eth @ ip)[23 := g_fake_protocol st]) 14 ihl (of_nat (ihl + length plain)) @ plain \<and>
    crypto_ready E st1 \<and> crypto_ready E st2 \<and> same_policy st st1 \<and> same_policy st' st2"
proof -
  let ?H = "(eth @ ip)[23 := g_fake_protocol st]" and ?len = "14 + ihl + l3_overhead st + 4 + length plain"
  define G where "G = patched ?H 14 ihl (of_nat (?len - 14))"
  have h: "length eth = 14" "eth ! 12 = 8" "eth ! 13 = 0" "length ip = ihl" "20 \<le> ihl"
      "ihl_bytes (ip ! 0) = ihl" "ihl \<le> 60"
    using hdrs by (auto simp: l3_headers_def)
  obtain nonce st1 where enc: "crypto_layer3_encrypt_fragment_single E ctx eth ip ihl plain pkt_id i
        out out_max st = Some (0, G @ nonce @ [g_policy_id st, CRYPTO_L3_FRAG_MAGIC] @
          [hi8 pkt_id, lo8 pkt_id, i, 0] @ fst (seal_ref E st (current_key ctx) nonce plain) @
          snd (seal_ref E st (current_key ctx) nonce plain) @ drop ?len out, ?len, st1)"
      "length nonce = g_nonce_size st" "crypto_ready E st1" "same_policy st st1"
    using l3_fragment_wire [OF ready(1) ctx(1) hdrs plain(1) _ room, of pkt_id i] plain(2)
    by (auto simp: G_def Let_def)
  note pol = same_policyD [OF ready(3)]
  have ov: "l3_overhead st' = l3_overhead st" by (simp add: l3_overhead_def pol)
  have lenG: "length G = 14 + ihl" using h by (simp add: G_def)
  have G: "G ! 12 = 8" "G ! 13 = 0" "ihl = ihl_bytes (G ! 14)" "G ! 23 = g_fake_protocol st'"
    using h pol by (simp_all add: G_def patched_nth nth_append)
  have small: "length G + length plain < 2 ^ 30" "length nonce = g_nonce_size st'"
    using lenG h plain enc(2) pol by auto
  obtain R st2 where dec: "crypto_layer3_decrypt_fragment E ctx'
        (G @ nonce @ [g_policy_id st, CRYPTO_L3_FRAG_MAGIC] @
          [hi8 pkt_id, lo8 pkt_id, i, 0] @ fst (seal_ref E st (current_key ctx) nonce plain) @
          snd (seal_ref E st (current_key ctx) nonce plain) @ drop ?len out)
        (length G + l3_overhead st + 4 + length plain) st' =
      Some (int (length G + length plain), pkt_id, i,
        patched G 14 ihl (of_nat (ihl + length plain)) @ plain @ R, st2)" "crypto_ready E st2" "same_policy st' st2"
    using l3_fragment_open [OF ready(2) ctx(2) lenG G(1-3) h(5) G(4) small(2) plain(1) small(1),
        of "g_policy_id st" pkt_id i "drop ?len out"]
    by (auto simp only: ov pol(9) ctx(3))
  have "patched G 14 ihl (of_nat (ihl + length plain)) = patched ?H 14 ihl (of_nat (ihl + length plain))"
    using h by (simp only: G_def) (simp add: patched_patched)
  then show ?thesis using enc dec lenG h
    by (intro exI [of _ "14 + ihl + length plain"] exI) (auto simp: add.commute add.left_commute)
qed

text \<open>A layer-3 fragment decrypts to the half it was made from, with its packet id and
  index.\<close>

theorem l3_fragment_roundtrip:
  fixes eth :: buf
  assumes ready: "crypto_ready E st" "crypto_ready E st'" "same_policy st st'"
    and ctx: "ctx_ok ctx" "ctx_ok ctx'" "current_key ctx' = current_key ctx"
    and hdrs: "l3_headers eth ip ihl" and plain: "plain \<noteq> []" "length plain < 65536"
    and room: "14 + ihl + l3_overhead st + 4 + length plain \<le> out_max" "out_max \<le> length out"
  shows "\<exists>wire st1 dec st2 n. n = 14 + ihl + length plain \<and>
    crypto_layer3_encrypt_fragment_single E ctx eth ip ihl plain pkt_id i out out_max st =
      Some (0, wire, n + l3_overhead st + 4, st1) \<and>
    crypto_layer3_decrypt_fragment E ctx' wire (n + l3_overhead st + 4) st' = Some (int n, pkt_id, i, dec, st2) \<and>
    take n dec = patched ((eth @ ip)[23 := g_fake_protocol st]) 14 ihl (of_nat (ihl + length plain)) @ plain \<and>
    crypto_ready E st1 \<and> crypto_ready E st2"
  using l3_fragment_transfer [OF assms, of pkt_id i] by blast

theorem l3_fragment_roundtrip_witness:
  "\<exists>wire st1 dec st2.
    crypto_layer3_encrypt_fragment_single sample_evp sample_ctx (take 14 sample_packet)
      (take 20 (drop 14 sample_packet)) 20 [1, 2, 3] 0x1234 1 (replicate 100 0) 100 sample_st
        = Some (0, wire, 71, st1) \<and>
    crypto_layer3_decrypt_fragment sample_evp sample_ctx wire 71 sample_st =
      Some (37, 0x1234, 1, dec, st2) \<and> drop 34 (take 37 dec) = [1, 2, 3]"
proof -
  have "ihl_bytes 0x45 = 20" by (simp add: ihl_bytes_def)
  then have "l3_headers (take 14 sample_packet) (take 20 (drop 14 sample_packet)) 20"
    by (simp add: l3_headers_def)
  moreover have "l3_overhead sample_st = 30"
    by (simp add: l3_overhead_def packet_crypto_get_tunnel_hdr_size_def tag_size_def is_gcm_mode_def
        sample_st_def crypto_state_init_def)
  ultimately show ?thesis
    using l3_fragment_roundtrip [where E = sample_evp and st = sample_st and st' = sample_st and
        ctx = sample_ctx and ctx' = sample_ctx and eth = "take 14 sample_packet" and
        ip = "take 20 (drop 14 sample_packet)" and ihl = 20 and
        plain = "[1, 2, 3]" and out_max = 100 and out = "replicate 100 0" and pkt_id = "0x1234" and i = "1"]
    by auto
qed

end
