(* ===== verification/Layer4.thy ===== *)
theory Layer4
  imports PacketCrypto
begin

text \<open>
  Encryption above the ports, \<^verbatim>\<open>src/crypto/crypto_layer4.c\<close>: the four port bytes stay in clear,
  a tunnel header (nonce, policy id, magic byte) follows them, then the ciphertext and in
  GCM mode the tag.  The functions work in place on the receive frame: the packet is a
  prefix of \<open>pkt_len\<close> bytes of the buffer.

  The result is the returned \<^verbatim>\<open>int\<close> with the buffer and the thread's state, or \<^term>\<open>None\<close> when
  an access leaves the frame.
\<close>

abbreviation (input) L4_WIRE_PORT_LEN :: nat where "L4_WIRE_PORT_LEN \<equiv> 4"
abbreviation (input) FRAG_L4_HDR_SIZE :: nat where "FRAG_L4_HDR_SIZE \<equiv> 4"
abbreviation (input) CRYPTO_L4_TUNNEL_MAGIC :: byte where "CRYPTO_L4_TUNNEL_MAGIC \<equiv> 0xA5"
abbreviation (input) CRYPTO_L4_FRAG_MAGIC :: byte where "CRYPTO_L4_FRAG_MAGIC \<equiv> 0x5A"

section \<open>Parsing\<close>

definition crypto_eth_ipv4_offset :: "buf \<Rightarrow> nat \<Rightarrow> int option" where
  "crypto_eth_ipv4_offset pkt pkt_len =
     (if pkt_len < 14 then Some (-1)
      else do {
        et \<leftarrow> rd16 pkt 12;
        if et = 0x0800 then Some 14
        else if et = 0x8100 then
          (if pkt_len < 18 then Some (-1)
           else do {
             et \<leftarrow> rd16 pkt 16;
             if et = 0x0800 then Some 18
             else if et = 0x8100 \<and> pkt_len \<ge> 22 then do {
               et \<leftarrow> rd16 pkt 20;
               if et = 0x0800 then Some 22 else Some (-1)
             }
             else Some (-1)
           })
        else Some (-1)
      })"

definition get_transport_hdr_size :: "buf \<Rightarrow> nat \<Rightarrow> byte \<Rightarrow> nat \<Rightarrow> int option" where
  "get_transport_hdr_size packet off ip_proto remaining =
     (if ip_proto = 6 then
        (if remaining < 20 then Some (-1)
         else do {
           b \<leftarrow> rd packet (off + 12);
           let data_off = unat (drop_bit 4 b AND 0x0F) * 4;
           if data_off < 20 \<or> data_off > remaining then Some (-1) else Some (int data_off)
         })
      else if ip_proto = 17 then (if remaining < 8 then Some (-1) else Some 8)
      else Some (-1))"

text \<open>The returned offset, with the transport offset for \<^verbatim>\<open>transport_off_out\<close>.\<close>

definition crypto_layer4_tunnel_off_ipv4 :: "buf \<Rightarrow> nat \<Rightarrow> (int \<times> int) option" where
  "crypto_layer4_tunnel_off_ipv4 pkt pkt_len = do {
     l3_off \<leftarrow> crypto_eth_ipv4_offset pkt pkt_len;
     if l3_off < 0 then Some (-1, -1)
     else if pkt_len < nat l3_off + 20 then Some (-1, -1)
     else do {
       b \<leftarrow> rd pkt (nat l3_off);
       let ip_hdr_len = ihl_bytes b;
       if ip_hdr_len < 20 then Some (-1, -1)
       else let transport_off = l3_off + int ip_hdr_len
         in Some (transport_off + int L4_WIRE_PORT_LEN, transport_off)
     }
   }"

section \<open>Headers\<close>

definition l4_write_tunnel_header :: "crypto_state \<Rightarrow> buf \<Rightarrow> nat \<Rightarrow> buf \<Rightarrow> nat \<Rightarrow> buf option" where
  "l4_write_tunnel_header st b off nonce nonce_size =
     crypto_write_l3_tunnel_header b off nonce nonce_size (g_policy_id st) CRYPTO_L4_TUNNEL_MAGIC"

definition l4_write_tunnel_header_frag :: "crypto_state \<Rightarrow> buf \<Rightarrow> nat \<Rightarrow> buf \<Rightarrow> nat \<Rightarrow> buf option" where
  "l4_write_tunnel_header_frag st b off nonce nonce_size =
     crypto_write_l3_tunnel_header b off nonce nonce_size (g_policy_id st) CRYPTO_L4_FRAG_MAGIC"

definition l4_is_tunnel_header :: "buf \<Rightarrow> nat \<Rightarrow> nat \<Rightarrow> bool option" where
  "l4_is_tunnel_header b off nonce_size = do {
     m \<leftarrow> rd b (off + nonce_size + 1);
     if m \<noteq> CRYPTO_L4_TUNNEL_MAGIC then Some False
     else do { h \<leftarrow> rd b off; Some ((h AND 0x80) = 0) }
   }"

definition l4_fix_ipv4_totlen_and_cksum :: "buf \<Rightarrow> nat \<Rightarrow> nat \<Rightarrow> nat \<Rightarrow> buf option" where
  "l4_fix_ipv4_totlen_and_cksum packet l3_off ip_hdr_len ip_payload_len =
     l3_patch_ipv4 packet l3_off ip_hdr_len (of_nat (ip_hdr_len + ip_payload_len))"

section \<open>Encryption\<close>

definition crypto_layer4_encrypt ::
    "evp \<Rightarrow> packet_crypto_ctx \<Rightarrow> buf \<Rightarrow> nat \<Rightarrow> crypto_state \<Rightarrow> crypto_result" where
  "crypto_layer4_encrypt E ctx packet pkt_len st =
     (if \<not> pc_initialized ctx then Some (-1, packet, st)
      else do {
        l3 \<leftarrow> crypto_eth_ipv4_offset packet pkt_len;
        let l3_off = nat l3;
        if l3 < 0 then Some (c_int pkt_len, packet, st)
        else if pkt_len < l3_off + 20 then Some (-1, packet, st)
        else do {
          ip_proto \<leftarrow> rd packet (l3_off + 9);
          vihl \<leftarrow> rd packet l3_off;
          let ip_hdr_len = ihl_bytes vihl;
          let transport_off = l3_off + ip_hdr_len;
          if ip_proto \<noteq> 6 \<and> ip_proto \<noteq> 17 then Some (c_int pkt_len, packet, st)
          else if ip_hdr_len < 20 then Some (-1, packet, st)
          else do {
            transport_hdr_size \<leftarrow>
              get_transport_hdr_size packet transport_off ip_proto (sub64 pkt_len transport_off);
            let plain_off = transport_off + L4_WIRE_PORT_LEN;
            let plain_len = sub64 pkt_len plain_off;
            if transport_hdr_size < 0 then Some (c_int pkt_len, packet, st)
            else if plain_len = 0 then Some (c_int pkt_len, packet, st)
            else do {
              let nonce_size = g_nonce_size st;
              let tunnel_hdr_size = packet_crypto_get_tunnel_hdr_size st;
              let (counter, st) = packet_crypto_next_counter st;
              (nonce, st) \<leftarrow> crypto_generate_nonce E st counter PROTO_FLAG_IPV4;
              key \<leftarrow> packet_crypto_get_key ctx KEY_SLOT_CURRENT;
              let enc_off = plain_off + tunnel_hdr_size;
              plain \<leftarrow> rdn packet plain_off plain_len;
              (sealed, st) \<leftarrow> seal_data E st key nonce plain;
              case sealed of
                None \<Rightarrow> Some (-1, packet, st)
              | Some (ct, tag) \<Rightarrow> do {
                  packet \<leftarrow> wrn packet plain_off ct;
                  packet \<leftarrow> mem_move packet enc_off plain_off plain_len;
                  packet \<leftarrow> wrn packet (enc_off + plain_len) tag;
                  packet \<leftarrow> l4_write_tunnel_header st packet plain_off nonce nonce_size;
                  let total_overhead = tunnel_hdr_size + tag_size st;
                  packet \<leftarrow> l4_fix_ipv4_totlen_and_cksum packet l3_off ip_hdr_len
                              (L4_WIRE_PORT_LEN + total_overhead + plain_len);
                  Some (c_int (pkt_len + total_overhead), packet, st)
                }
            }
          }
        }
      })"

section \<open>Decryption\<close>

definition crypto_layer4_decrypt ::
    "evp \<Rightarrow> packet_crypto_ctx \<Rightarrow> buf \<Rightarrow> nat \<Rightarrow> crypto_state \<Rightarrow> crypto_result" where
  "crypto_layer4_decrypt E ctx packet pkt_len st =
     (if \<not> pc_initialized ctx then Some (-1, packet, st)
      else do {
        l3 \<leftarrow> crypto_eth_ipv4_offset packet pkt_len;
        let l3_off = nat l3;
        if l3 < 0 then Some (c_int pkt_len, packet, st)
        else if pkt_len < l3_off + 20 then Some (-1, packet, st)
        else do {
          ip_proto \<leftarrow> rd packet (l3_off + 9);
          vihl \<leftarrow> rd packet l3_off;
          let ip_hdr_len = ihl_bytes vihl;
          if ip_proto \<noteq> 6 \<and> ip_proto \<noteq> 17 then Some (c_int pkt_len, packet, st)
          else if ip_hdr_len < 20 then Some (-1, packet, st)
          else do {
            let transport_off = l3_off + ip_hdr_len;
            let nonce_size = g_nonce_size st;
            let tunnel_hdr_size = packet_crypto_get_tunnel_hdr_size st;
            let tunnel_off = transport_off + L4_WIRE_PORT_LEN;
            is_tunnel \<leftarrow> (if pkt_len < tunnel_off + tunnel_hdr_size then Some False
                          else l4_is_tunnel_header packet tunnel_off nonce_size);
            if \<not> is_tunnel then Some (c_int pkt_len, packet, st)
            else do {
              nonce \<leftarrow> read_nonce packet tunnel_off nonce_size;
              let enc_off = tunnel_off + tunnel_hdr_size;
              let total_after_tunnel = pkt_len - enc_off;
              if is_gcm_mode st \<and> total_after_tunnel < AES128_GCM_TAG_SIZE then Some (-1, packet, st)
              else do {
                let enc_len = total_after_tunnel - tag_size st;
                tag \<leftarrow> rdn packet (enc_off + enc_len) (tag_size st);
                work \<leftarrow> rdn packet enc_off enc_len;
                (plain, work, st) \<leftarrow> try_keys E ctx (\<lambda>_. True) nonce tag work True key_order work st;
                packet \<leftarrow> wrn packet enc_off work;
                case plain of
                  None \<Rightarrow> Some (-1, packet, st)
                | Some _ \<Rightarrow> do {
                    packet \<leftarrow> mem_move packet tunnel_off enc_off enc_len;
                    packet \<leftarrow> l4_fix_ipv4_totlen_and_cksum packet l3_off ip_hdr_len
                                (L4_WIRE_PORT_LEN + enc_len);
                    Some (c_int (tunnel_off + enc_len), packet, st)
                  }
              }
            }
          }
        }
      })"

section \<open>Fragments\<close>

text \<open>
  One half of a packet, encrypted into a fresh frame.  On success the third component is
  \<^verbatim>\<open>*out_len\<close>.
\<close>

definition crypto_layer4_encrypt_fragment_single ::
    "evp \<Rightarrow> packet_crypto_ctx \<Rightarrow> buf \<Rightarrow> buf \<Rightarrow> nat \<Rightarrow> buf \<Rightarrow> buf \<Rightarrow> u16 \<Rightarrow> byte \<Rightarrow> buf \<Rightarrow> nat \<Rightarrow>
     crypto_state \<Rightarrow> (int \<times> buf \<times> nat \<times> crypto_state) option" where
  "crypto_layer4_encrypt_fragment_single E ctx eth_hdr ip_hdr ip_hdr_len wire_ports enc_plain
       pkt_id frag_index out_buf out_max st =
     (let enc_plain_len = length enc_plain;
          nonce_size = g_nonce_size st;
          tunnel_hdr_size = packet_crypto_get_tunnel_hdr_size st;
          total_overhead = tunnel_hdr_size + FRAG_L4_HDR_SIZE + tag_size st
      in if \<not> pc_initialized ctx \<or> enc_plain_len = 0 then Some (-1, out_buf, 0, st)
      else if 14 + ip_hdr_len + L4_WIRE_PORT_LEN + total_overhead + enc_plain_len > out_max
        then Some (-1, out_buf, 0, st)
      else do {
        eth \<leftarrow> rdn eth_hdr 0 14;
        out_buf \<leftarrow> wrn out_buf 0 eth;
        ip \<leftarrow> rdn ip_hdr 0 ip_hdr_len;
        out_buf \<leftarrow> wrn out_buf 14 ip;
        ports \<leftarrow> rdn wire_ports 0 L4_WIRE_PORT_LEN;
        out_buf \<leftarrow> wrn out_buf (14 + ip_hdr_len) ports;
        let tunnel_off = 14 + ip_hdr_len + L4_WIRE_PORT_LEN;
        let (counter, st) = packet_crypto_next_counter st;
        (nonce, st) \<leftarrow> crypto_generate_nonce E st counter PROTO_FLAG_IPV4;
        key \<leftarrow> packet_crypto_get_key ctx KEY_SLOT_CURRENT;
        let enc_off = tunnel_off + tunnel_hdr_size + FRAG_L4_HDR_SIZE;
        out_buf \<leftarrow> wrn out_buf enc_off enc_plain;
        out_buf \<leftarrow> l4_write_tunnel_header_frag st out_buf tunnel_off nonce nonce_size;
        out_buf \<leftarrow> write_frag_tag out_buf (tunnel_off + tunnel_hdr_size) pkt_id frag_index;
        (sealed, st) \<leftarrow> seal_data E st key nonce enc_plain;
        case sealed of
          None \<Rightarrow> Some (-1, out_buf, 0, st)
        | Some (ct, tag) \<Rightarrow> do {
            out_buf \<leftarrow> wrn out_buf enc_off ct;
            out_buf \<leftarrow> wrn out_buf (enc_off + enc_plain_len) tag;
            out_buf \<leftarrow> l4_fix_ipv4_totlen_and_cksum out_buf 14 ip_hdr_len
                         (L4_WIRE_PORT_LEN + total_overhead + enc_plain_len);
            Some (0, out_buf, enc_off + enc_plain_len + tag_size st, st)
          }
      })"

text \<open>The result of \<^verbatim>\<open>crypto_layer4_decrypt_fragment\<close>: return value, \<^verbatim>\<open>*out_pkt_id\<close>,
  \<^verbatim>\<open>*out_frag_index\<close> (zero where they are not written), frame and state.\<close>

definition crypto_layer4_decrypt_fragment ::
    "evp \<Rightarrow> packet_crypto_ctx \<Rightarrow> buf \<Rightarrow> nat \<Rightarrow> crypto_state \<Rightarrow> (int \<times> u16 \<times> byte \<times> buf \<times> crypto_state) option"
  where
  "crypto_layer4_decrypt_fragment E ctx packet pkt_len st =
     (if \<not> pc_initialized ctx then Some (-1, 0, 0, packet, st)
      else do {
        l3 \<leftarrow> crypto_eth_ipv4_offset packet pkt_len;
        let l3_off = nat l3;
        if l3 < 0 \<or> pkt_len < l3_off + 20 then Some (-1, 0, 0, packet, st)
        else do {
          ip_proto \<leftarrow> rd packet (l3_off + 9);
          vihl \<leftarrow> rd packet l3_off;
          let ip_hdr_len = ihl_bytes vihl;
          if ip_proto \<noteq> 6 \<and> ip_proto \<noteq> 17 \<or> ip_hdr_len < 20 then Some (-1, 0, 0, packet, st)
          else do {
            let nonce_size = g_nonce_size st;
            let tunnel_hdr_size = packet_crypto_get_tunnel_hdr_size st;
            let tunnel_off = l3_off + ip_hdr_len + L4_WIRE_PORT_LEN;
            let enc_off = tunnel_off + tunnel_hdr_size + FRAG_L4_HDR_SIZE;
            if pkt_len < enc_off then Some (-1, 0, 0, packet, st)
            else do {
              magic \<leftarrow> rd packet (tunnel_off + nonce_size + 1);
              if magic \<noteq> CRYPTO_L4_FRAG_MAGIC then Some (-1, 0, 0, packet, st)
              else do {
                (pkt_id, frag_index) \<leftarrow> read_frag_tag packet (tunnel_off + tunnel_hdr_size);
                nonce \<leftarrow> read_nonce packet tunnel_off nonce_size;
                let total_after = pkt_len - enc_off;
                if is_gcm_mode st \<and> total_after < AES128_GCM_TAG_SIZE
                  then Some (-1, pkt_id, frag_index, packet, st)
                else do {
                  let enc_len = total_after - tag_size st;
                  tag \<leftarrow> rdn packet (enc_off + enc_len) (tag_size st);
                  work \<leftarrow> rdn packet enc_off enc_len;
                  (plain, work, st) \<leftarrow> try_keys E ctx (\<lambda>_. True) nonce tag work True key_order work st;
                  packet \<leftarrow> wrn packet enc_off work;
                  case plain of
                    None \<Rightarrow> Some (-1, pkt_id, frag_index, packet, st)
                  | Some _ \<Rightarrow> do {
                      packet \<leftarrow> mem_move packet tunnel_off enc_off enc_len;
                      packet \<leftarrow> l4_fix_ipv4_totlen_and_cksum packet l3_off ip_hdr_len
                                  (L4_WIRE_PORT_LEN + enc_len);
                      Some (c_int (tunnel_off + enc_len), pkt_id, frag_index, packet, st)
                    }
                }
              }
            }
          }
        }
      })"

section \<open>Packets that are encrypted\<close>

lemma crypto_eth_ipv4_offset_cases:
  assumes "crypto_eth_ipv4_offset p n = Some k" and "0 \<le> k"
  shows "k \<in> {14, 18, 22} \<and> nat k \<le> n \<and> nat k \<le> length p"
  using assms
  by (auto simp: crypto_eth_ipv4_offset_def rd16_def bind_eq_Some_conv rd_eq_Some_iff split: if_splits)

lemma crypto_eth_ipv4_offset_cong:
  assumes ok: "crypto_eth_ipv4_offset p n = Some (int k)" and same: "take k q = take k p" and "k \<le> m"
  shows "crypto_eth_ipv4_offset q m = Some (int k)"
proof -
  have "k = 14 \<and> rd16 p 12 = Some 0x0800 \<or>
      k = 18 \<and> rd16 p 12 = Some 0x8100 \<and> rd16 p 16 = Some 0x0800 \<or>
      k = 22 \<and> rd16 p 12 = Some 0x8100 \<and> rd16 p 16 = Some 0x8100 \<and> rd16 p 20 = Some 0x0800"
    using ok by (auto simp: crypto_eth_ipv4_offset_def bind_eq_Some_conv split: if_splits)
  moreover have "rd16 q i = rd16 p i" if "Suc i < k" for i using rd16_take_cong [OF same that] .
  ultimately show ?thesis using \<open>k \<le> m\<close> by (elim disjE conjE) (simp_all add: crypto_eth_ipv4_offset_def)
qed

text \<open>
  A packet the code encrypts: an IPv4 packet with TCP or UDP whose headers lie inside it.
\<close>

definition l4_packet :: "buf \<Rightarrow> nat \<Rightarrow> nat \<Rightarrow> nat \<Rightarrow> bool" where
  "l4_packet packet pkt_len l3_off ihl \<longleftrightarrow>
     pkt_len \<le> length packet \<and> pkt_len < 2 ^ 30 \<and>
     crypto_eth_ipv4_offset packet pkt_len = Some (int l3_off) \<and>
     ihl = ihl_bytes (packet ! l3_off) \<and> 20 \<le> ihl \<and> l3_off + ihl + 8 \<le> pkt_len \<and>
     (packet ! (l3_off + 9) = 6 \<or> packet ! (l3_off + 9) = 17) \<and>
     (case get_transport_hdr_size packet (l3_off + ihl) (packet ! (l3_off + 9)) (pkt_len - (l3_off + ihl)) of
        None \<Rightarrow> False | Some h \<Rightarrow> 0 \<le> h)"

definition l4_overhead :: "crypto_state \<Rightarrow> nat" where
  "l4_overhead st = packet_crypto_get_tunnel_hdr_size st + tag_size st"

lemma tag_size_le: "tag_size st \<le> 16"
  by (simp add: tag_size_def)

lemma l4_overhead_le: "crypto_ready E st \<Longrightarrow> l4_overhead st \<le> 34"
  using tag_size_le [of st]
  by (simp add: l4_overhead_def packet_crypto_get_tunnel_hdr_size_def crypto_ready_def)

text \<open>The wire format: clear headers and ports, nonce, policy id and magic, ciphertext, tag.\<close>

lemma l4_encrypt_wire:
  fixes packet :: buf
  assumes ready: "crypto_ready E st" and ctx: "ctx_ok ctx"
    and pkt: "l4_packet packet pkt_len l3_off ihl" and room: "pkt_len + l4_overhead st \<le> length packet"
  defines "H \<equiv> take (l3_off + ihl + 4) packet" and "plain \<equiv> drop (l3_off + ihl + 4) (take pkt_len packet)"
  shows "\<exists>nonce st1. let s = seal_ref E st (current_key ctx) nonce plain in
    crypto_layer4_encrypt E ctx packet pkt_len st = Some (int (pkt_len + l4_overhead st),
      patched H l3_off ihl (of_nat (pkt_len + l4_overhead st - l3_off)) @
        nonce @ [g_policy_id st, CRYPTO_L4_TUNNEL_MAGIC] @ fst s @ snd s @
        drop (pkt_len + l4_overhead st) packet, st1) \<and>
    length nonce = g_nonce_size st \<and>
    take 4 nonce = nonce_head (fst (packet_crypto_next_counter st)) PROTO_FLAG_IPV4 \<and>
    crypto_ready E st1 \<and> same_policy st st1"
proof -
  define off where "off = l3_off + ihl + 4"
  define ov where "ov = l4_overhead st"
  have p: "pkt_len \<le> length packet" "pkt_len < 2 ^ 30" "20 \<le> ihl" "l3_off + ihl + 8 \<le> pkt_len"
    "crypto_eth_ipv4_offset packet pkt_len = Some (int l3_off)" "ihl = ihl_bytes (packet ! l3_off)"
    "packet ! (l3_off + 9) = 6 \<or> packet ! (l3_off + 9) = 17"
    using pkt by (auto simp: l4_packet_def)
  obtain h where h: "get_transport_hdr_size packet (l3_off + ihl) (packet ! (l3_off + 9))
      (pkt_len - (l3_off + ihl)) = Some h" "0 \<le> h"
    using pkt by (auto simp: l4_packet_def split: option.splits)
  have E: "evp_ok E" using ready by (simp add: crypto_ready_def)
  have ov34: "ov \<le> 34" using l4_overhead_le [OF ready] by (simp add: ov_def)
  define slack where "slack = drop pkt_len packet"
  have lenH: "length H = off" using p by (simp add: H_def off_def)
  have lenp: "length plain = pkt_len - off" using p by (simp add: plain_def off_def)
  have split: "packet = H @ plain @ slack"
    using p split_at_two [of off pkt_len packet] by (simp add: H_def plain_def slack_def off_def)
  obtain counter st0 where cnt: "packet_crypto_next_counter st = (counter, st0)" by fastforce
  have "plain \<noteq> []" "length plain < 2 ^ 31" using lenp p by (auto simp: off_def)
  then obtain nonce st1 st2 where n: "crypto_generate_nonce E st0 counter PROTO_FLAG_IPV4 = Some (nonce, st1)"
      "seal_data E st1 (current_key ctx) nonce plain =
         Some (Some (seal_ref E st (current_key ctx) nonce plain), st2)"
      "length nonce = g_nonce_size st" "take 4 nonce = nonce_head counter PROTO_FLAG_IPV4"
      "crypto_ready E st2" "same_policy st st1" "same_policy st st2"
      "g_policy_id st1 = g_policy_id st" "g_policy_id st2 = g_policy_id st"
    using fresh_seal [OF ready _ _ _ cnt] ctx_ok_current [OF ctx] by blast
  obtain ct tag where s: "seal_ref E st (current_key ctx) nonce plain = (ct, tag)" by fastforce
  have lens: "length ct = length plain" "length tag = tag_size st"
    using seal_ref_lengths [OF E, of st "current_key ctx" nonce plain] s by auto
  define th n where "th = packet_crypto_get_tunnel_hdr_size st" and "n = pkt_len - off"
  have ovs: "ov = th + tag_size st" by (simp add: ov_def l4_overhead_def th_def)
  have th: "th = g_nonce_size st + 2" by (simp add: th_def packet_crypto_get_tunnel_hdr_size_def)
  let ?hdr = "[g_policy_id st, CRYPTO_L4_TUNNEL_MAGIC]"
  let ?out = "H @ nonce @ ?hdr @ ct @ tag @ drop ov slack"
  have "th + length tag \<le> length slack"
    using room p(1) ovs by (simp add: slack_def ov_def lens)
  then have "do { q \<leftarrow> wrn packet off ct; q \<leftarrow> mem_move q (off + th) off n;
      q \<leftarrow> wrn q (off + th + n) tag;
      crypto_write_l3_tunnel_header q off nonce (g_nonce_size st) (g_policy_id st) CRYPTO_L4_TUNNEL_MAGIC } =
      Some ?out"
    unfolding split th ovs lens(2) [symmetric]
    by (intro seal_layout) (use lenH lens lenp n(3) in \<open>auto simp: n_def\<close>)
  then obtain q1 q2 q3 where q: "wrn packet off ct = Some q1" "mem_move q1 (off + th) off n = Some q2"
      "wrn q2 (off + th + n) tag = Some q3"
      "crypto_write_l3_tunnel_header q3 off nonce (g_nonce_size st) (g_policy_id st) CRYPTO_L4_TUNNEL_MAGIC =
        Some ?out"
    by (auto simp: bind_eq_Some_conv)
  have fix': "l4_fix_ipv4_totlen_and_cksum ?out l3_off ihl (4 + (th + tag_size st) + n) =
    Some (patched H l3_off ihl (of_nat (pkt_len + ov - l3_off)) @ drop off ?out)"
  proof -
    have "ihl + (4 + (th + tag_size st) + n) = pkt_len + ov - l3_off"
      using p ovs by (simp add: off_def n_def)
    moreover have "l3_off + ihl \<le> length H" using lenH by (simp add: off_def)
    ultimately show ?thesis using p(3) lenH
      by (simp add: l4_fix_ipv4_totlen_and_cksum_def l3_patch_ipv4_patched patched_append)
  qed
  have plain: "rdn packet off n = Some plain"
    unfolding split n_def using lenH lenp by (intro rdn_at) auto
  have sizes: "sub64 pkt_len (l3_off + ihl) = pkt_len - (l3_off + ihl)" "sub64 pkt_len off = n"
    "n \<noteq> 0" "c_int (pkt_len + (th + tag_size st)) = int (pkt_len + ov)" "tag_size st2 = tag_size st"
    "\<not> pkt_len < l3_off + 20" "\<not> ihl < 20" "\<not> h < 0"
    using p ov34 ovs h(2) same_policyD(6) [OF n(7)] by (auto simp: off_def n_def)
  have "crypto_layer4_encrypt E ctx packet pkt_len st =
      Some (int (pkt_len + ov), patched H l3_off ihl (of_nat (pkt_len + ov - l3_off)) @ drop off ?out, st2)"
    using p(5) p(6) [symmetric] ctx ctx_ok_current [OF ctx] h(1) cnt n(1,2) n(8,9) s q fix' plain
      sizes p(1,4)
    by (simp add: crypto_layer4_encrypt_def ctx_ok_def l4_write_tunnel_header_def Let_def del: drop_append
        flip: off_def th_def)
       (use p(7) in auto)
  then show ?thesis using n(3,4,5,7) s cnt lenH
    by (intro exI [of _ nonce] exI [of _ st2])
       (simp add: ov_def slack_def Let_def add.commute [of "l4_overhead st"])
qed

lemma l4_is_tunnel_headerI:
  assumes "off = length H" and "length nonce = ns" and "nonce \<noteq> []" and "(nonce ! 0 AND 0x80) = 0"
  shows "l4_is_tunnel_header (H @ nonce @ [pid, CRYPTO_L4_TUNNEL_MAGIC] @ c) off ns = Some True"
  using assms by (auto simp: l4_is_tunnel_header_def nth_append)

text \<open>Decrypting a packet in the wire format restores the plaintext behind a patched header.\<close>

lemma l4_decrypt_wire:
  fixes H :: buf
  assumes ready: "crypto_ready E st" and ctx: "ctx_ok ctx"
    and off: "crypto_eth_ipv4_offset H (length H) = Some (int l3_off)" "ihl = ihl_bytes (H ! l3_off)"
      "20 \<le> ihl" "length H = l3_off + ihl + 4"
    and proto: "H ! (l3_off + 9) = 6 \<or> H ! (l3_off + 9) = 17"
    and nonce: "length nonce = g_nonce_size st" "(nonce ! 0 AND 0x80) = 0"
    and plain: "plain \<noteq> []" "length H + length plain < 2 ^ 30"
  defines "s \<equiv> seal_ref E st (current_key ctx) nonce plain"
  shows "\<exists>R st1. crypto_layer4_decrypt E ctx
      (H @ nonce @ [pid, CRYPTO_L4_TUNNEL_MAGIC] @ fst s @ snd s @ rest)
      (length H + l4_overhead st + length plain) st =
    Some (int (length H + length plain),
      patched H l3_off ihl (of_nat (length H + length plain - l3_off)) @ plain @ R, st1) \<and>
    crypto_ready E st1 \<and> same_policy st st1"
proof -
  obtain ct tag where s: "s = (ct, tag)" by fastforce
  have E: "evp_ok E" using ready by (simp add: crypto_ready_def)
  have lens: "length ct = length plain" "length tag = tag_size st"
    using seal_ref_lengths [OF E, of st "current_key ctx" nonce plain] s by (auto simp: s_def)
  define th n where "th = packet_crypto_get_tunnel_hdr_size st" and "n = length plain"
  have th: "th = g_nonce_size st + 2" by (simp add: th_def packet_crypto_get_tunnel_hdr_size_def)
  have ne: "nonce \<noteq> []" using nonce ready by (auto simp: crypto_ready_def)
  let ?hdr = "nonce @ [pid, CRYPTO_L4_TUNNEL_MAGIC]"
  define W where "W = H @ ?hdr @ ct @ tag @ rest"
  define len where "len = length H + l4_overhead st + n"
  have len: "len = length H + th + n + tag_size st"
    by (simp add: len_def l4_overhead_def th_def)
  have take: "take l3_off W = take l3_off H" using off(4) by (simp add: W_def)
  have l3: "crypto_eth_ipv4_offset W len = Some (int l3_off)"
    by (rule crypto_eth_ipv4_offset_cong [OF off(1) take]) (simp add: len off(4))
  have hdr: "rd W (l3_off + 9) = Some (H ! (l3_off + 9))" "rd W l3_off = Some (H ! l3_off)"
    using off(3,4) by (simp_all add: W_def nth_append)
  have istun: "l4_is_tunnel_header W (length H) (g_nonce_size st) = Some True"
    using l4_is_tunnel_headerI [OF refl nonce(1) ne nonce(2), of H pid "ct @ tag @ rest"]
    by (simp add: W_def)
  have rdnonce: "read_nonce W (length H) (g_nonce_size st) = Some nonce"
    using ready nonce(1) by (simp add: read_nonce_def crypto_ready_def W_def)
  have rdct: "rdn W (length H + th) n = Some ct" and rdtag: "rdn W (length H + th + n) (tag_size st) = Some tag"
    using nonce(1) lens th by (simp_all add: W_def n_def)
  obtain c where tk: "try_keys E ctx (\<lambda>_. True) nonce tag ct True key_order ct st =
      Some (Some plain, plain, st\<lparr>tls_dec := c\<rparr>)" "cache_ok (g_aes_bits st) c"
    using try_keys_current [OF ready ctx plain(1), of "\<lambda>_. True" nonce ct] plain(2) s
    by (auto simp: s_def)
  obtain R where R: "do { p \<leftarrow> wrn W (length H + th) plain; mem_move p (length H) (length H + th) n } =
      Some (H @ plain @ R)"
    using unseal_layout [of "length H" H ?hdr th plain n ct "tag @ rest"] nonce(1) lens th
    by (auto simp: W_def n_def)
  then obtain q where q: "wrn W (length H + th) plain = Some q"
      "mem_move q (length H) (length H + th) n = Some (H @ plain @ R)"
    by (auto simp: bind_eq_Some_conv)
  have fix': "l4_fix_ipv4_totlen_and_cksum (H @ plain @ R) l3_off ihl (4 + n) =
      Some (patched H l3_off ihl (of_nat (length H + length plain - l3_off)) @ plain @ R)"
  proof -
    have "ihl + (4 + n) = length H + length plain - l3_off" using off(4) by (simp add: n_def)
    then show ?thesis using off
      by (simp add: l4_fix_ipv4_totlen_and_cksum_def l3_patch_ipv4_patched patched_append)
  qed
  have sizes: "len - (length H + th) = n + tag_size st" "n + tag_size st - tag_size st = n"
    "\<not> len < length H + th" "\<not> len < l3_off + 20" "\<not> (is_gcm_mode st \<and> n + tag_size st < 16)"
    "c_int (length H + n) = int (length H + length plain)"
    using len off plain by (auto simp: n_def tag_size_def)
  have "crypto_layer4_decrypt E ctx W len st = Some (int (length H + length plain),
      patched H l3_off ihl (of_nat (length H + length plain - l3_off)) @ plain @ R, st\<lparr>tls_dec := c\<rparr>)"
    using l3 hdr istun rdnonce rdct rdtag tk(1) q fix' sizes off(2) [symmetric] off(3)
      ctx [unfolded ctx_ok_def]
    by (simp add: crypto_layer4_decrypt_def Let_def flip: off(4) th_def) (use proto in auto)
  then show ?thesis using crypto_ready_updates(3) [OF ready tk(2)] s
    by (auto simp: W_def len_def n_def)
qed

lemma l4_fix_length: "l4_fix_ipv4_totlen_and_cksum b off ihl n = Some b' \<Longrightarrow> length b' = length b"
  by (auto simp: l4_fix_ipv4_totlen_and_cksum_def l3_patch_ipv4_def Let_def split: bind_splits if_splits dest!: len_dests)

lemma l4_decrypt_length:
  "crypto_layer4_decrypt E ctx packet n st = Some (r, packet', st') \<Longrightarrow> length packet' = length packet"
  by (auto simp: crypto_layer4_decrypt_def Let_def split: bind_splits if_splits option.splits
      dest!: len_dests l4_fix_length)

text \<open>
  Encryption and decryption, with the shape of the packet on the wire.  The receiver decrypts the
  bytes that were sent in a memory of its own, \<open>rest\<close> behind them.
\<close>

lemma l4_transfer_any:
  assumes ready: "crypto_ready E st" "crypto_ready E st'" "same_policy st st'"
    and ctx: "ctx_ok ctx" "ctx_ok ctx'" "current_key ctx' = current_key ctx"
    and pkt: "l4_packet packet pkt_len l3_off ihl" and room: "pkt_len + l4_overhead st \<le> length packet"
    and header: "patched packet l3_off ihl (of_nat (pkt_len - l3_off)) = packet"
  shows "\<exists>G nonce body st1.
    crypto_layer4_encrypt E ctx packet pkt_len st = Some (int (pkt_len + l4_overhead st),
      G @ nonce @ [g_policy_id st, CRYPTO_L4_TUNNEL_MAGIC] @ body @ drop (pkt_len + l4_overhead st) packet, st1) \<and>
    length (G @ nonce @ [g_policy_id st, CRYPTO_L4_TUNNEL_MAGIC] @ body) = pkt_len + l4_overhead st \<and>
    (\<forall>rest. \<exists>dec st2.
      crypto_layer4_decrypt E ctx' (G @ nonce @ [g_policy_id st, CRYPTO_L4_TUNNEL_MAGIC] @ body @ rest)
        (pkt_len + l4_overhead st) st' = Some (int pkt_len, dec, st2) \<and>
      take pkt_len dec = take pkt_len packet \<and> crypto_ready E st2) \<and>
    crypto_ready E st1 \<and> take l3_off G = take l3_off packet \<and> length G = l3_off + ihl + 4 \<and> crypto_eth_ipv4_offset G (length G) = Some (int l3_off) \<and>
    ihl = ihl_bytes (G ! l3_off) \<and> (G ! (l3_off + 9) = 6 \<or> G ! (l3_off + 9) = 17) \<and>
    length nonce = g_nonce_size st"
proof -
  define H plain where "H = take (l3_off + ihl + 4) packet" and
    "plain = drop (l3_off + ihl + 4) (take pkt_len packet)"
  define t where "t = (of_nat (pkt_len + l4_overhead st - l3_off) :: u16)"
  have p: "pkt_len \<le> length packet" "pkt_len < 2 ^ 30" "20 \<le> ihl" "l3_off + ihl + 8 \<le> pkt_len"
    "crypto_eth_ipv4_offset packet pkt_len = Some (int l3_off)" "ihl = ihl_bytes (packet ! l3_off)"
    "packet ! (l3_off + 9) = 6 \<or> packet ! (l3_off + 9) = 17"
    using pkt by (auto simp: l4_packet_def)
  have lenH: "length H = l3_off + ihl + 4" and lenp: "length plain = pkt_len - (l3_off + ihl + 4)"
    using p by (simp_all add: H_def plain_def)
  define G where "G = patched H l3_off ihl t"
  obtain nonce st1 where enc: "crypto_layer4_encrypt E ctx packet pkt_len st =
      Some (int (pkt_len + l4_overhead st), G @ nonce @ [g_policy_id st, CRYPTO_L4_TUNNEL_MAGIC] @
        fst (seal_ref E st (current_key ctx) nonce plain) @ snd (seal_ref E st (current_key ctx) nonce plain) @
        drop (pkt_len + l4_overhead st) packet, st1)"
      "length nonce = g_nonce_size st" "take 4 nonce = nonce_head (fst (packet_crypto_next_counter st)) 0"
      "crypto_ready E st1"
    using l4_encrypt_wire [OF ready(1) ctx(1) pkt room] by (auto simp: G_def H_def plain_def t_def Let_def)
  have nthG: "G ! l3_off = packet ! l3_off" "G ! (l3_off + 9) = packet ! (l3_off + 9)"
    using p(3) by (simp_all add: G_def patched_nth) (simp_all add: H_def)
  have "take l3_off G = take l3_off packet"
    by (intro nth_equalityI) (use p lenH in \<open>auto simp: G_def patched_nth H_def\<close>)
  note takeG = this
  then have offG: "crypto_eth_ipv4_offset G (length G) = Some (int l3_off)"
    by (rule crypto_eth_ipv4_offset_cong [OF p(5)]) (simp add: G_def lenH)
  note pol = same_policyD [OF ready(3)]
  have ov: "l4_overhead st' = l4_overhead st" by (simp add: l4_overhead_def pol)
  have lenG: "length G = l3_off + ihl + 4" by (simp add: G_def lenH)
  have len: "length G + l4_overhead st + length plain = pkt_len + l4_overhead st"
      "length G + length plain = pkt_len" using p lenG lenp by simp_all
  have fields: "ihl = ihl_bytes (G ! l3_off)" "G ! (l3_off + 9) = 6 \<or> G ! (l3_off + 9) = 17"
      "length nonce = g_nonce_size st'" "(nonce ! 0 AND 0x80) = 0" "plain \<noteq> []"
      "length G + length plain < 2 ^ 30"
    using p nthG enc(2) nonce_head_top_bit [OF enc(3)] lenp len pol(2) by (auto simp flip: length_0_conv)
  define body where "body = fst (seal_ref E st (current_key ctx) nonce plain) @ snd (seal_ref E st (current_key ctx) nonce plain)"
  have lenb: "length body = length plain + tag_size st"
    using seal_ref_lengths [of E st "current_key ctx" nonce plain] ready(1) by (simp add: body_def crypto_ready_def)
  have whole: "length (G @ nonce @ [g_policy_id st, CRYPTO_L4_TUNNEL_MAGIC] @ body) = pkt_len + l4_overhead st"
    using len(1) lenb enc(2) by (simp add: l4_overhead_def packet_crypto_get_tunnel_hdr_size_def)
  have "packet = H @ plain @ drop pkt_len packet"
    using split_at_two [of "l3_off + ihl + 4" pkt_len packet] p by (simp add: H_def plain_def)
  then have "packet = patched H l3_off ihl (of_nat (pkt_len - l3_off)) @ plain @ drop pkt_len packet"
    using header p(3) lenH patched_append [of ihl l3_off H "plain @ drop pkt_len packet"] by simp
  moreover have "patched G l3_off ihl (of_nat (pkt_len - l3_off)) = patched H l3_off ihl (of_nat (pkt_len - l3_off))"
    using p(3) lenH by (simp add: G_def patched_patched)
  ultimately have orig: "take pkt_len packet = patched G l3_off ihl (of_nat (pkt_len - l3_off)) @ plain"
    using len(2) lenG by (metis append.assoc append_eq_conv_conj length_append length_patched)
  have dec: "\<exists>dec st2. crypto_layer4_decrypt E ctx' (G @ nonce @ [g_policy_id st, CRYPTO_L4_TUNNEL_MAGIC] @ body @ rest)
        (pkt_len + l4_overhead st) st' = Some (int pkt_len, dec, st2) \<and>
      take pkt_len dec = take pkt_len packet \<and> crypto_ready E st2" for rest
  proof -
    have "\<exists>R st2. crypto_layer4_decrypt E ctx' (G @ nonce @ [g_policy_id st, CRYPTO_L4_TUNNEL_MAGIC] @ body @ rest)
        (pkt_len + l4_overhead st) st' =
      Some (int pkt_len, patched G l3_off ihl (of_nat (pkt_len - l3_off)) @ plain @ R, st2) \<and> crypto_ready E st2"
      using l4_decrypt_wire [OF ready(2) ctx(2) offG fields(1) p(3) lenG fields(2) fields(3-6), of "g_policy_id st" rest]
      unfolding body_def append.assoc by (simp only: ov pol(9) ctx(3) len) blast
    then obtain R st2 where "crypto_layer4_decrypt E ctx' (G @ nonce @ [g_policy_id st, CRYPTO_L4_TUNNEL_MAGIC] @ body @ rest)
        (pkt_len + l4_overhead st) st' =
      Some (int pkt_len, patched G l3_off ihl (of_nat (pkt_len - l3_off)) @ plain @ R, st2)" "crypto_ready E st2" by blast
    moreover have "take pkt_len (patched G l3_off ihl (of_nat (pkt_len - l3_off)) @ plain @ R) = take pkt_len packet"
      using len(2) orig by simp
    ultimately show ?thesis by blast
  qed
  have "crypto_layer4_encrypt E ctx packet pkt_len st = Some (int (pkt_len + l4_overhead st),
      G @ nonce @ [g_policy_id st, CRYPTO_L4_TUNNEL_MAGIC] @ body @ drop (pkt_len + l4_overhead st) packet, st1)"
    using enc(1) by (simp add: body_def)
  then show ?thesis using enc whole dec takeG lenG offG fields(1,2) by blast
qed

lemma l4_transfer:
  assumes ready: "crypto_ready E st" "crypto_ready E st'" "same_policy st st'"
    and ctx: "ctx_ok ctx" "ctx_ok ctx'" "current_key ctx' = current_key ctx"
    and pkt: "l4_packet packet pkt_len l3_off ihl" and room: "pkt_len + l4_overhead st \<le> length packet"
    and header: "patched packet l3_off ihl (of_nat (pkt_len - l3_off)) = packet"
  shows "\<exists>G nonce tail st1 dec st2.
    crypto_layer4_encrypt E ctx packet pkt_len st = Some (int (pkt_len + l4_overhead st),
      G @ nonce @ [g_policy_id st, CRYPTO_L4_TUNNEL_MAGIC] @ tail, st1) \<and>
    crypto_layer4_decrypt E ctx' (G @ nonce @ [g_policy_id st, CRYPTO_L4_TUNNEL_MAGIC] @ tail)
      (pkt_len + l4_overhead st) st' = Some (int pkt_len, dec, st2) \<and>
    take pkt_len dec = take pkt_len packet \<and> crypto_ready E st1 \<and> crypto_ready E st2 \<and>
    length G = l3_off + ihl + 4 \<and> crypto_eth_ipv4_offset G (length G) = Some (int l3_off) \<and>
    ihl = ihl_bytes (G ! l3_off) \<and> (G ! (l3_off + 9) = 6 \<or> G ! (l3_off + 9) = 17) \<and>
    length nonce = g_nonce_size st"
proof -
  obtain G nonce body st1 where t:
      "crypto_layer4_encrypt E ctx packet pkt_len st = Some (int (pkt_len + l4_overhead st),
        G @ nonce @ [g_policy_id st, CRYPTO_L4_TUNNEL_MAGIC] @ body @ drop (pkt_len + l4_overhead st) packet, st1)"
      "\<forall>rest. \<exists>dec st2. crypto_layer4_decrypt E ctx' (G @ nonce @ [g_policy_id st, CRYPTO_L4_TUNNEL_MAGIC] @ body @ rest)
        (pkt_len + l4_overhead st) st' = Some (int pkt_len, dec, st2) \<and>
        take pkt_len dec = take pkt_len packet \<and> crypto_ready E st2"
      "crypto_ready E st1" "length G = l3_off + ihl + 4" "crypto_eth_ipv4_offset G (length G) = Some (int l3_off)"
      "ihl = ihl_bytes (G ! l3_off)" "G ! (l3_off + 9) = 6 \<or> G ! (l3_off + 9) = 17" "length nonce = g_nonce_size st"
    using l4_transfer_any [OF assms] by blast
  from t(2) [THEN spec, of "drop (pkt_len + l4_overhead st) packet"] obtain dec st2 where
    "crypto_layer4_decrypt E ctx' (G @ nonce @ [g_policy_id st, CRYPTO_L4_TUNNEL_MAGIC] @ body @ drop (pkt_len + l4_overhead st) packet)
        (pkt_len + l4_overhead st) st' = Some (int pkt_len, dec, st2)" "take pkt_len dec = take pkt_len packet" "crypto_ready E st2"
    by blast
  with t(1,3-8) show ?thesis by blast
qed



section \<open>Fragments round-trip\<close>

text \<open>The clear headers of a fragment: Ethernet, IPv4 and the four port bytes.\<close>

definition l4_headers :: "buf \<Rightarrow> buf \<Rightarrow> nat \<Rightarrow> buf \<Rightarrow> bool" where
  "l4_headers eth ip ihl ports \<longleftrightarrow> length eth = 14 \<and> eth ! 12 = 8 \<and> eth ! 13 = 0 \<and>
     length ip = ihl \<and> 20 \<le> ihl \<and> ihl \<le> 60 \<and> ihl_bytes (ip ! 0) = ihl \<and>
     (ip ! 9 = 6 \<or> ip ! 9 = 17) \<and> length ports = 4"

lemma l4_fragment_wire:
  fixes eth :: buf
  assumes ready: "crypto_ready E st" and ctx: "ctx_ok ctx" and hdrs: "l4_headers eth ip ihl ports"
    and plain: "plain \<noteq> []" "length plain < 2 ^ 30"
    and room: "14 + ihl + 4 + l4_overhead st + 4 + length plain \<le> out_max" "out_max \<le> length out"
  defines "H \<equiv> eth @ ip @ ports"
    and "len \<equiv> 14 + ihl + 4 + l4_overhead st + 4 + length plain"
  shows "\<exists>nonce st1. let s = seal_ref E st (current_key ctx) nonce plain in
    crypto_layer4_encrypt_fragment_single E ctx eth ip ihl ports plain pkt_id i out out_max st =
      Some (0, patched H 14 ihl (of_nat (len - 14)) @ nonce @ [g_policy_id st, CRYPTO_L4_FRAG_MAGIC] @
        [hi8 pkt_id, lo8 pkt_id, i, 0] @ fst s @ snd s @ drop len out, len, st1) \<and>
    length nonce = g_nonce_size st \<and> crypto_ready E st1 \<and> same_policy st st1"
proof -
  define off where "off = 14 + ihl + 4"
  define th n where "th = packet_crypto_get_tunnel_hdr_size st" and "n = length plain"
  have th: "th = g_nonce_size st + 2" by (simp add: th_def packet_crypto_get_tunnel_hdr_size_def)
  have h: "length eth = 14" "length ip = ihl" "20 \<le> ihl" "length ports = 4" "ihl \<le> 60"
    using hdrs by (auto simp: l4_headers_def)
  have E: "evp_ok E" using ready by (simp add: crypto_ready_def)
  have lenH: "length H = off" using h by (simp add: H_def off_def)
  obtain counter st0 where cnt: "packet_crypto_next_counter st = (counter, st0)" by fastforce
  have "length plain < 2 ^ 31" using plain by simp
  then obtain nonce st1 st2 where ng: "crypto_generate_nonce E st0 counter PROTO_FLAG_IPV4 = Some (nonce, st1)"
      "seal_data E st1 (current_key ctx) nonce plain =
         Some (Some (seal_ref E st (current_key ctx) nonce plain), st2)"
      "length nonce = g_nonce_size st" "crypto_ready E st2" "same_policy st st1" "same_policy st st2"
      "g_policy_id st1 = g_policy_id st" "g_policy_id st2 = g_policy_id st"
    using fresh_seal [OF ready _ plain(1) _ cnt] ctx_ok_current [OF ctx] by blast
  obtain ct tag where s: "seal_ref E st (current_key ctx) nonce plain = (ct, tag)" by fastforce
  have lens: "length ct = n" "length tag = tag_size st"
    using seal_ref_lengths [OF E, of st "current_key ctx" nonce plain] s by (auto simp: n_def)
  have len: "len = off + (th + 4 + n + tag_size st)"
    by (simp add: len_def l4_overhead_def th_def off_def n_def)
  have room': "len \<le> out_max" "th + 4 + n + tag_size st \<le> length out - off"
    using room len by (simp_all add: len_def)
  have out1: "wrn out 0 eth = Some (eth @ drop 14 out)" using room len off_def h by (simp add: len_def)
  have out2: "wrn (eth @ drop 14 out) 14 ip = Some (eth @ ip @ drop (14 + ihl) out)"
    using room len_def h by (simp add: add.commute)
  have out3: "wrn (eth @ ip @ drop (14 + ihl) out) (14 + ihl) ports = Some (H @ drop off out)"
    using room len_def h by (simp add: H_def off_def add.commute)
  let ?F = "H @ nonce @ [g_policy_id st, CRYPTO_L4_FRAG_MAGIC] @ [hi8 pkt_id, lo8 pkt_id, i, 0]"
  let ?out = "?F @ ct @ tag @ drop len out"
  have "do { q \<leftarrow> wrn (H @ drop off out) (off + th + 4) plain;
      q \<leftarrow> crypto_write_l3_tunnel_header q off nonce (g_nonce_size st) (g_policy_id st) CRYPTO_L4_FRAG_MAGIC;
      q \<leftarrow> write_frag_tag q (off + th) pkt_id i;
      q \<leftarrow> wrn q (off + th + 4) ct;
      wrn q (off + th + 4 + n) tag } = Some ?out"
    using frag_layout(1) [OF lenH [symmetric] ng(3) n_def [symmetric] lens(1) th,
        of tag "drop off out" "g_policy_id st" CRYPTO_L4_FRAG_MAGIC pkt_id i] lens(2) room'
    by (simp add: len add.commute [of off] del: wrn_Some)
  then obtain q1 q2 q3 q4 where q: "wrn (H @ drop off out) (off + th + 4) plain = Some q1"
      "crypto_write_l3_tunnel_header q1 off nonce (g_nonce_size st) (g_policy_id st) CRYPTO_L4_FRAG_MAGIC = Some q2"
      "write_frag_tag q2 (off + th) pkt_id i = Some q3" "wrn q3 (off + th + 4) ct = Some q4"
      "wrn q4 (off + th + 4 + n) tag = Some ?out"
    by (auto simp: bind_eq_Some_conv)
  have fix': "l4_fix_ipv4_totlen_and_cksum ?out 14 ihl (4 + (th + 4 + tag_size st) + n) =
      Some (patched H 14 ihl (of_nat (len - 14)) @ drop off ?out)"
  proof -
    have "ihl + (4 + (th + 4 + tag_size st) + n) = len - 14" by (simp add: len off_def)
    moreover have "14 + ihl \<le> length H" using lenH by (simp add: off_def)
    ultimately show ?thesis using h lenH
      by (simp add: l4_fix_ipv4_totlen_and_cksum_def l3_patch_ipv4_patched patched_append)
  qed
  have sizes: "\<not> off + (th + 4 + tag_size st) + n > out_max" "tag_size st2 = tag_size st" "n \<noteq> 0"
    using room'(1) plain same_policyD(6) [OF ng(6)] len by (auto simp: n_def)
  have "crypto_layer4_encrypt_fragment_single E ctx eth ip ihl ports plain pkt_id i out out_max st =
      Some (0, patched H 14 ihl (of_nat (len - 14)) @ drop off ?out, off + th + 4 + n + tag_size st, st2)"
    using ctx [unfolded ctx_ok_def] ctx_ok_current [OF ctx] cnt ng(1,2,7,8) s q fix' out1 out2 out3 sizes h
    by (simp add: crypto_layer4_encrypt_fragment_single_def Let_def l4_write_tunnel_header_frag_def
        del: drop_append wrn_Some flip: off_def th_def n_def)
  then show ?thesis using ng(3,4,6) s lenH
    by (intro exI [of _ nonce] exI [of _ st2]) (simp add: Let_def len)
qed

lemma l4_fragment_open:
  fixes H :: buf
  assumes ready: "crypto_ready E st" and ctx: "ctx_ok ctx"
    and off: "crypto_eth_ipv4_offset H (length H) = Some (int l3_off)" "ihl = ihl_bytes (H ! l3_off)"
      "20 \<le> ihl" "length H = l3_off + ihl + 4"
    and proto: "H ! (l3_off + 9) = 6 \<or> H ! (l3_off + 9) = 17"
    and nonce: "length nonce = g_nonce_size st"
    and plain: "plain \<noteq> []" "length H + length plain < 2 ^ 30"
  defines "s \<equiv> seal_ref E st (current_key ctx) nonce plain"
  shows "\<exists>R st1. crypto_layer4_decrypt_fragment E ctx
      (H @ nonce @ [pid, CRYPTO_L4_FRAG_MAGIC] @ [hi8 pkt_id, lo8 pkt_id, i, 0] @ fst s @ snd s @ rest)
      (length H + l4_overhead st + 4 + length plain) st =
    Some (int (length H + length plain), pkt_id, i,
      patched H l3_off ihl (of_nat (length H + length plain - l3_off)) @ plain @ R, st1) \<and>
    crypto_ready E st1 \<and> same_policy st st1"
proof -
  obtain ct tag where s: "s = (ct, tag)" by fastforce
  have E: "evp_ok E" using ready by (simp add: crypto_ready_def)
  have lens: "length ct = length plain" "length tag = tag_size st"
    using seal_ref_lengths [OF E, of st "current_key ctx" nonce plain] s by (auto simp: s_def)
  define th n where "th = packet_crypto_get_tunnel_hdr_size st" and "n = length plain"
  have th: "th = g_nonce_size st + 2" by (simp add: th_def packet_crypto_get_tunnel_hdr_size_def)
  let ?hdr = "nonce @ [pid, CRYPTO_L4_FRAG_MAGIC] @ [hi8 pkt_id, lo8 pkt_id, i, 0]"
  define W where "W = H @ ?hdr @ ct @ tag @ rest"
  define len where "len = length H + l4_overhead st + 4 + n"
  have len: "len = length H + th + 4 + n + tag_size st"
    by (simp add: len_def l4_overhead_def th_def)
  have take: "take l3_off W = take l3_off H" using off(4) by (simp add: W_def)
  have l3: "crypto_eth_ipv4_offset W len = Some (int l3_off)"
    by (rule crypto_eth_ipv4_offset_cong [OF off(1) take]) (simp add: len off(4))
  have hdr: "rd W (l3_off + 9) = Some (H ! (l3_off + 9))" "rd W l3_off = Some (H ! l3_off)"
    using off(3,4) by (simp_all add: W_def nth_append)
  have magic: "rd W (length H + g_nonce_size st + 1) = Some CRYPTO_L4_FRAG_MAGIC"
    using nonce by (simp add: W_def nth_append)
  have tagrd: "read_frag_tag W (length H + th) = Some (pkt_id, i)"
    using read_frag_tag_at [of "length H + th" "H @ nonce @ [pid, CRYPTO_L4_FRAG_MAGIC]" pkt_id i
        "ct @ tag @ rest"] nonce th by (simp add: W_def)
  have rdnonce: "read_nonce W (length H) (g_nonce_size st) = Some nonce"
    using ready nonce by (simp add: read_nonce_def crypto_ready_def W_def)
  have rdct: "rdn W (length H + th + 4) n = Some ct"
    and rdtag: "rdn W (length H + th + 4 + n) (tag_size st) = Some tag"
    using rdn_at [of "length H + th + 4" "H @ ?hdr" n ct "tag @ rest"]
      rdn_at [of "length H + th + 4 + n" "H @ ?hdr @ ct" "tag_size st" tag rest] nonce lens th
    by (simp_all add: W_def n_def)
  obtain c where tk: "try_keys E ctx (\<lambda>_. True) nonce tag ct True key_order ct st =
      Some (Some plain, plain, st\<lparr>tls_dec := c\<rparr>)" "cache_ok (g_aes_bits st) c"
    using try_keys_current [OF ready ctx plain(1), of "\<lambda>_. True" nonce ct] plain(2) s
    by (auto simp: s_def)
  obtain R where "do { p \<leftarrow> wrn W (length H + (th + 4)) plain;
      mem_move p (length H) (length H + (th + 4)) n } = Some (H @ plain @ R)"
    using unseal_layout [of "length H" H ?hdr "th + 4" plain n ct "tag @ rest"] nonce lens th
    by (auto simp: W_def n_def)
  then obtain q where q: "wrn W (length H + th + 4) plain = Some q"
      "mem_move q (length H) (length H + th + 4) n = Some (H @ plain @ R)"
    by (auto simp: bind_eq_Some_conv add.assoc)
  have fix': "l4_fix_ipv4_totlen_and_cksum (H @ plain @ R) l3_off ihl (4 + n) =
      Some (patched H l3_off ihl (of_nat (length H + length plain - l3_off)) @ plain @ R)"
  proof -
    have "ihl + (4 + n) = length H + length plain - l3_off" using off(4) by (simp add: n_def)
    then show ?thesis using off
      by (simp add: l4_fix_ipv4_totlen_and_cksum_def l3_patch_ipv4_patched patched_append)
  qed
  have sizes: "len - (length H + th + 4) = n + tag_size st" "n + tag_size st - tag_size st = n"
    "\<not> len < length H + th + 4" "\<not> len < l3_off + 20" "\<not> (is_gcm_mode st \<and> n + tag_size st < 16)"
    "c_int (length H + n) = int (length H + length plain)"
    using len off plain by (auto simp: n_def tag_size_def)
  have "crypto_layer4_decrypt_fragment E ctx W len st = Some (int (length H + length plain), pkt_id, i,
      patched H l3_off ihl (of_nat (length H + length plain - l3_off)) @ plain @ R, st\<lparr>tls_dec := c\<rparr>)"
    using l3 hdr magic tagrd rdnonce rdct rdtag tk(1) q fix' sizes off(2) [symmetric] off(3)
      ctx [unfolded ctx_ok_def]
    by (simp add: crypto_layer4_decrypt_fragment_def Let_def flip: off(4) th_def) (use proto in auto)
  then show ?thesis using crypto_ready_updates(3) [OF ready tk(2)] s
    by (auto simp: W_def len_def n_def)
qed

lemma l4_fragment_transfer:
  fixes eth :: buf
  assumes ready: "crypto_ready E st" "crypto_ready E st'" "same_policy st st'"
    and ctx: "ctx_ok ctx" "ctx_ok ctx'" "current_key ctx' = current_key ctx"
    and hdrs: "l4_headers eth ip ihl ports" and plain: "plain \<noteq> []" "length plain < 65536"
    and room: "14 + ihl + 4 + l4_overhead st + 4 + length plain \<le> out_max" "out_max \<le> length out"
  shows "\<exists>wire st1 dec st2 n. n = 14 + ihl + 4 + length plain \<and>
    crypto_layer4_encrypt_fragment_single E ctx eth ip ihl ports plain pkt_id i out out_max st =
      Some (0, wire, n + l4_overhead st + 4, st1) \<and>
    crypto_layer4_decrypt_fragment E ctx' wire (n + l4_overhead st + 4) st' = Some (int n, pkt_id, i, dec, st2) \<and>
    take n dec = patched (eth @ ip @ ports) 14 ihl (of_nat (ihl + 4 + length plain)) @ plain \<and>
    crypto_ready E st1 \<and> crypto_ready E st2 \<and> same_policy st st1 \<and> same_policy st' st2"
proof -
  let ?H = "eth @ ip @ ports" and ?len = "14 + ihl + 4 + l4_overhead st + 4 + length plain"
  define t where "t = (of_nat (?len - 14) :: u16)"
  define G where "G = patched ?H 14 ihl t"
  have h: "length eth = 14" "eth ! 12 = 8" "eth ! 13 = 0" "length ip = ihl" "20 \<le> ihl"
      "ihl_bytes (ip ! 0) = ihl" "ip ! 9 = 6 \<or> ip ! 9 = 17" "length ports = 4" "ihl \<le> 60"
    using hdrs by (auto simp: l4_headers_def)
  obtain nonce st1 where enc: "crypto_layer4_encrypt_fragment_single E ctx eth ip ihl ports plain pkt_id i
        out out_max st = Some (0, G @ nonce @ [g_policy_id st, CRYPTO_L4_FRAG_MAGIC] @
          [hi8 pkt_id, lo8 pkt_id, i, 0] @ fst (seal_ref E st (current_key ctx) nonce plain) @
          snd (seal_ref E st (current_key ctx) nonce plain) @ drop ?len out, ?len, st1)"
      "length nonce = g_nonce_size st" "crypto_ready E st1" "same_policy st st1"
    using l4_fragment_wire [OF ready(1) ctx(1) hdrs plain(1) _ room, of pkt_id i] plain(2)
    by (auto simp: G_def t_def Let_def)
  note pol = same_policyD [OF ready(3)]
  have ov: "l4_overhead st' = l4_overhead st" by (simp add: l4_overhead_def pol)
  have lenG: "length G = 14 + ihl + 4" using h by (simp add: G_def)
  have "G ! 12 = 8" "G ! 13 = 0" "G ! 14 = ip ! 0" "G ! 23 = ip ! 9"
    using h(1-5) by (simp_all add: G_def patched_nth nth_append)
  then have G: "crypto_eth_ipv4_offset G (length G) = Some (int 14)" "ihl = ihl_bytes (G ! 14)"
      "G ! (14 + 9) = 6 \<or> G ! (14 + 9) = 17" "length nonce = g_nonce_size st'"
      "length G + length plain < 2 ^ 30"
    using lenG h enc(2) pol plain by (auto simp: crypto_eth_ipv4_offset_def be16_def)
  obtain R st2 where dec: "crypto_layer4_decrypt_fragment E ctx'
        (G @ nonce @ [g_policy_id st, CRYPTO_L4_FRAG_MAGIC] @
          [hi8 pkt_id, lo8 pkt_id, i, 0] @ fst (seal_ref E st (current_key ctx) nonce plain) @
          snd (seal_ref E st (current_key ctx) nonce plain) @ drop ?len out)
        (length G + l4_overhead st + 4 + length plain) st' =
      Some (int (length G + length plain), pkt_id, i,
        patched G 14 ihl (of_nat (length G + length plain - 14)) @ plain @ R, st2)" "crypto_ready E st2" "same_policy st' st2"
    using l4_fragment_open [OF ready(2) ctx(2) G(1,2) h(5) lenG G(3,4) plain(1) G(5),
        of "g_policy_id st" pkt_id i "drop ?len out"]
    by (auto simp only: ov pol(9) ctx(3))
  have "patched G 14 ihl (of_nat (length G + length plain - 14)) =
      patched ?H 14 ihl (of_nat (ihl + 4 + length plain))"
  proof -
    have "length G + length plain - 14 = ihl + 4 + length plain" using lenG by simp
    then show ?thesis using h by (simp only:) (simp add: G_def patched_patched)
  qed
  moreover have "length G + l4_overhead st + 4 + length plain = ?len" using lenG by simp
  ultimately show ?thesis using enc dec lenG h
    by (intro exI [of _ "14 + ihl + 4 + length plain"] exI) (auto simp: add.commute add.left_commute)
qed

text \<open>A layer-4 fragment decrypts to the half it was made from, with its packet id and index:
  the receiver gets the clear headers with corrected length and checksum, followed by
  exactly the bytes that were encrypted.\<close>

theorem l4_fragment_roundtrip:
  fixes eth :: buf
  assumes ready: "crypto_ready E st" "crypto_ready E st'" "same_policy st st'"
    and ctx: "ctx_ok ctx" "ctx_ok ctx'" "current_key ctx' = current_key ctx"
    and hdrs: "l4_headers eth ip ihl ports" and plain: "plain \<noteq> []" "length plain < 65536"
    and room: "14 + ihl + 4 + l4_overhead st + 4 + length plain \<le> out_max" "out_max \<le> length out"
  shows "\<exists>wire st1 dec st2 n. n = 14 + ihl + 4 + length plain \<and>
    crypto_layer4_encrypt_fragment_single E ctx eth ip ihl ports plain pkt_id i out out_max st =
      Some (0, wire, n + l4_overhead st + 4, st1) \<and>
    crypto_layer4_decrypt_fragment E ctx' wire (n + l4_overhead st + 4) st' = Some (int n, pkt_id, i, dec, st2) \<and>
    take n dec = patched (eth @ ip @ ports) 14 ihl (of_nat (ihl + 4 + length plain)) @ plain \<and>
    crypto_ready E st1 \<and> crypto_ready E st2"
  using l4_fragment_transfer [OF assms, of pkt_id i] by blast

theorem l4_fragment_roundtrip_witness:
  "\<exists>wire st1 dec st2.
    crypto_layer4_encrypt_fragment_single sample_evp sample_ctx (take 14 sample_packet)
      (take 20 (drop 14 sample_packet)) 20 [0, 80, 0, 81] [1, 2, 3] 0x1234 1 (replicate 100 0) 100 sample_st
        = Some (0, wire, 75, st1) \<and>
    crypto_layer4_decrypt_fragment sample_evp sample_ctx wire 75 sample_st =
      Some (41, 0x1234, 1, dec, st2) \<and> drop 38 (take 41 dec) = [1, 2, 3]"
proof -
  have "ihl_bytes 0x45 = 20" by (simp add: ihl_bytes_def)
  then have "l4_headers (take 14 sample_packet) (take 20 (drop 14 sample_packet)) 20 [0, 80, 0, 81]"
    by (simp add: l4_headers_def)
  moreover have "l4_overhead sample_st = 30"
    by (simp add: l4_overhead_def packet_crypto_get_tunnel_hdr_size_def tag_size_def is_gcm_mode_def
        sample_st_def crypto_state_init_def)
  ultimately show ?thesis
    using l4_fragment_roundtrip [where E = sample_evp and st = sample_st and st' = sample_st and
        ctx = sample_ctx and ctx' = sample_ctx and eth = "take 14 sample_packet" and
        ip = "take 20 (drop 14 sample_packet)" and ihl = 20 and ports = "[0, 80, 0, 81]" and
        plain = "[1, 2, 3]" and out_max = 100 and out = "replicate 100 0" and pkt_id = "0x1234" and i = "1"]
    by auto
qed

end
