(* ===== verification/Fragment.thy ===== *)
theory Fragment
  imports Layer2 Layer3 Layer4
begin

text \<open>
  Fragmentation, \<^verbatim>\<open>src/core/fragment.c\<close>: a packet that would exceed the MTU after encryption is
  cut into two halves that are encrypted as fragments 0 and 1; the receiver keeps fragment
  0 in a table of 512 slots indexed by the packet id until fragment 1 arrives.

  The clock is an input.  The arrays of an entry keep their size: \<open>fr_data\<close> has 1600 bytes and
  \<open>fr_ip_hdr\<close> has 60.
\<close>

abbreviation (input) FRAG_MTU :: nat where "FRAG_MTU \<equiv> 1500"
abbreviation (input) FRAG_TABLE_SIZE :: nat where "FRAG_TABLE_SIZE \<equiv> 512"
abbreviation (input) FRAG_TIMEOUT_NS :: u64 where "FRAG_TIMEOUT_NS \<equiv> 200000000"

section \<open>State\<close>

record frag_entry =
  fr_pkt_id :: u16
  fr_data :: buf
  fr_data_len :: nat
  fr_eth_hdr :: buf
  fr_ip_hdr :: buf
  fr_ip_hdr_len :: nat
  fr_orig_proto :: byte
  fr_timestamp_ns :: u64
  fr_valid :: bool

type_synonym frag_table = "frag_entry list"

definition frag_table_init :: frag_table where
  "frag_table_init = replicate FRAG_TABLE_SIZE
     \<lparr>fr_pkt_id = 0, fr_data = replicate 1600 0, fr_data_len = 0, fr_eth_hdr = replicate 14 0,
      fr_ip_hdr = replicate 60 0, fr_ip_hdr_len = 0, fr_orig_proto = 0, fr_timestamp_ns = 0,
      fr_valid = False\<rparr>"

definition frag_expired :: "u64 \<Rightarrow> frag_entry \<Rightarrow> bool" where
  "frag_expired now e \<longleftrightarrow> now - fr_timestamp_ns e > FRAG_TIMEOUT_NS"

definition frag_table_gc :: "u64 \<Rightarrow> frag_table \<Rightarrow> frag_table" where
  "frag_table_gc now ft =
     map (\<lambda>e. if fr_valid e \<and> frag_expired now e then e\<lparr>fr_valid := False\<rparr> else e) ft"

text \<open>The packet id is the low half of a global counter.\<close>

definition frag_next_pkt_id :: "u64 \<Rightarrow> u16 \<times> u64" where
  "frag_next_pkt_id counter = (ucast counter, counter + 1)"

section \<open>When to split\<close>

text \<open>The sums are computed in \<^verbatim>\<open>uint32_t\<close>.\<close>

definition frag_need_split :: "crypto_state \<Rightarrow> nat \<Rightarrow> bool" where
  "frag_need_split st pkt_len \<longleftrightarrow> (pkt_len + crypto_layer3_frag_meta_len st) mod 2 ^ 32 > FRAG_MTU"

definition frag_need_split_l4 :: "crypto_state \<Rightarrow> nat \<Rightarrow> bool" where
  "frag_need_split_l4 st pkt_len \<longleftrightarrow>
     (pkt_len + (L4_WIRE_PORT_LEN + packet_crypto_get_tunnel_hdr_size st + FRAG_L4_HDR_SIZE +
                 tag_size st)) mod 2 ^ 32 > FRAG_MTU"

definition frag_need_split_l2 :: "crypto_state \<Rightarrow> nat \<Rightarrow> bool" where
  "frag_need_split_l2 st pkt_len \<longleftrightarrow> (pkt_len + crypto_layer2_frag_meta_len st) mod 2 ^ 32 > FRAG_MTU"

section \<open>Helpers\<close>

definition frag_require_ipv4 :: "buf \<Rightarrow> nat \<Rightarrow> nat option option" where
  "frag_require_ipv4 pkt pkt_len =
     (if pkt_len < 34 then Some None
      else do {
        et \<leftarrow> rd16 pkt 12;
        b \<leftarrow> rd pkt 14;
        let ihl = ihl_bytes b;
        if et \<noteq> 0x0800 then Some None
        else if ihl < 20 \<or> pkt_len < 14 + ihl then Some None
        else Some (Some ihl)
      })"

text \<open>Overwriting the first bytes of an array field; \<open>rdn\<close> reads the source.\<close>

definition frag_store_pending ::
    "frag_entry \<Rightarrow> u16 \<Rightarrow> buf \<Rightarrow> nat \<Rightarrow> nat \<Rightarrow> nat \<Rightarrow> byte \<Rightarrow> nat \<Rightarrow> nat \<Rightarrow> u64 \<Rightarrow>
     (int \<times> frag_entry) option" where
  "frag_store_pending entry pkt_id pkt eth_off ip_off ip_hdr_len orig_proto data_off data_len now =
     (if data_len > 1600 then Some (-1, entry)
      else do {
        data \<leftarrow> rdn pkt data_off data_len;
        data \<leftarrow> wrn (fr_data entry) 0 data;
        eth \<leftarrow> rdn pkt eth_off 14;
        ip \<leftarrow> rdn pkt ip_off ip_hdr_len;
        ip \<leftarrow> wrn (fr_ip_hdr entry) 0 ip;
        Some (0, entry\<lparr>fr_pkt_id := pkt_id, fr_data_len := data_len, fr_data := data,
                      fr_eth_hdr := eth, fr_ip_hdr := ip, fr_ip_hdr_len := ip_hdr_len,
                      fr_orig_proto := orig_proto, fr_timestamp_ns := now, fr_valid := True\<rparr>)
      })"

definition frag_slot :: "u16 \<Rightarrow> nat" where
  "frag_slot pkt_id = unat pkt_id mod FRAG_TABLE_SIZE"

section \<open>Recognising fragments\<close>

text \<open>Results: the returned flag with \<^verbatim>\<open>*pkt_id\<close> and \<^verbatim>\<open>*frag_index\<close>, zero where not written.\<close>

definition frag_is_fragment ::
    "crypto_state \<Rightarrow> crypto_policy list \<Rightarrow> buf \<Rightarrow> nat \<Rightarrow> (bool \<times> u16 \<times> byte) option" where
  "frag_is_fragment st policies pkt_data pkt_len = do {
     hl \<leftarrow> frag_require_ipv4 pkt_data pkt_len;
     case hl of
       None \<Rightarrow> Some (False, 0, 0)
     | Some ip_hdr_len \<Rightarrow> do {
         proto \<leftarrow> rd pkt_data 23;
         let tunnel_hdr_size = packet_crypto_get_tunnel_hdr_size st;
         let tunnel_off = 14 + ip_hdr_len;
         if proto \<noteq> g_fake_protocol st then Some (False, 0, 0)
         else if pkt_len < tunnel_off + tunnel_hdr_size + CRYPTO_L3_FRAG_TAG_SIZE then Some (False, 0, 0)
         else do {
           cp \<leftarrow> first_policy (tunnel_match POLICY_ACTION_ENCRYPT_L3 CRYPTO_L3_FRAG_MAGIC pkt_data pkt_len tunnel_off)
                (take MAX_CRYPTO_POLICIES policies);
           case cp of
             None \<Rightarrow> Some (False, 0, 0)
           | Some _ \<Rightarrow> do {
               (pkt_id, frag_index) \<leftarrow> read_frag_tag pkt_data (tunnel_off + tunnel_hdr_size);
               Some (frag_index \<le> 1, pkt_id, frag_index)
             }
         }
       }
   }"

definition frag_is_fragment_l2 ::
    "crypto_state \<Rightarrow> crypto_policy list \<Rightarrow> buf \<Rightarrow> nat \<Rightarrow> (bool \<times> u16 \<times> byte) option" where
  "frag_is_fragment_l2 st policies pkt_data pkt_len =
     (if pkt_len < 14 + 4 + 1 + CRYPTO_L2_FRAG_TAG_SIZE then Some (False, 0, 0)
      else do {
        marked \<leftarrow> l2_has_fake_marker st pkt_data;
        if \<not> marked then Some (False, 0, 0)
        else do {
          cp \<leftarrow> first_policy (\<lambda>cp.
              if cp_action cp \<noteq> POLICY_ACTION_ENCRYPT_L2 \<or> cp_nonce_size cp = 0 then Some False
              else if 14 + cp_nonce_size cp + 1 + CRYPTO_L2_FRAG_TAG_SIZE > pkt_len then Some False
              else do { m \<leftarrow> rd pkt_data (14 + cp_nonce_size cp); Some (m = L2_FRAG_MAGIC) })
            (take MAX_CRYPTO_POLICIES policies);
          case cp of
            None \<Rightarrow> Some (False, 0, 0)
          | Some cp \<Rightarrow> do {
              (pkt_id, frag_index) \<leftarrow> read_frag_tag pkt_data (14 + cp_nonce_size cp + 1);
              Some (frag_index \<le> 1, pkt_id, frag_index)
            }
        }
      })"

definition frag_is_fragment_l4 ::
    "crypto_state \<Rightarrow> crypto_policy list \<Rightarrow> buf \<Rightarrow> nat \<Rightarrow> (bool \<times> u16 \<times> byte) option" where
  "frag_is_fragment_l4 st policies pkt_data pkt_len =
     (if pkt_len < 14 + 20 + 8 then Some (False, 0, 0)
      else do {
        et \<leftarrow> rd16 pkt_data 12;
        ip_proto \<leftarrow> rd pkt_data 23;
        b \<leftarrow> rd pkt_data 14;
        let ip_hdr_len = ihl_bytes b;
        let tunnel_hdr_size = packet_crypto_get_tunnel_hdr_size st;
        let tunnel_off = 14 + ip_hdr_len + L4_WIRE_PORT_LEN;
        if et \<noteq> 0x0800 \<or> ip_proto \<noteq> 6 \<and> ip_proto \<noteq> 17 \<or> ip_hdr_len < 20 then Some (False, 0, 0)
        else if pkt_len < tunnel_off + tunnel_hdr_size + FRAG_L4_HDR_SIZE then Some (False, 0, 0)
        else do {
          cp \<leftarrow> first_policy (tunnel_match POLICY_ACTION_ENCRYPT_L4 CRYPTO_L4_FRAG_MAGIC pkt_data pkt_len tunnel_off)
                (take MAX_CRYPTO_POLICIES policies);
          case cp of
            None \<Rightarrow> Some (False, 0, 0)
          | Some _ \<Rightarrow> do {
              (pkt_id, frag_index) \<leftarrow> read_frag_tag pkt_data (tunnel_off + tunnel_hdr_size);
              Some (frag_index \<le> 1, pkt_id, frag_index)
            }
        }
      })"

section \<open>Splitting\<close>

text \<open>
  The result: return value, the two frames with their lengths, the packet id counter and the
  thread's state.  The fragments are encrypted one after the other; the first failure ends
  the function.
\<close>

type_synonym split_result = "(int \<times> (buf \<times> nat) \<times> (buf \<times> nat) \<times> u64 \<times> crypto_state) option"

definition encrypt_halves ::
    "(crypto_state \<Rightarrow> (int \<times> buf \<times> nat \<times> crypto_state) option) \<Rightarrow>
     (crypto_state \<Rightarrow> (int \<times> buf \<times> nat \<times> crypto_state) option) \<Rightarrow> buf \<Rightarrow> u64 \<Rightarrow> crypto_state \<Rightarrow> split_result" where
  "encrypt_halves first second frag2 cnt st = do {
     (rc, f1, l1, st) \<leftarrow> first st;
     if rc \<noteq> 0 then Some (-1, (f1, l1), (frag2, 0), cnt, st)
     else do {
       (rc, f2, l2, st) \<leftarrow> second st;
       if rc \<noteq> 0 then Some (-1, (f1, l1), (f2, l2), cnt, st)
       else Some (0, (f1, l1), (f2, l2), cnt, st)
     }
   }"

definition frag_split_and_encrypt ::
    "evp \<Rightarrow> packet_crypto_ctx \<Rightarrow> buf \<Rightarrow> nat \<Rightarrow> buf \<Rightarrow> buf \<Rightarrow> u64 \<Rightarrow> crypto_state \<Rightarrow> split_result" where
  "frag_split_and_encrypt E ctx pkt_data pkt_len frag1 frag2 cnt st =
     (let failed = (-1, (frag1, 0), (frag2, 0), cnt, st)
      in if pkt_len < 14 + 20 + 8 then Some failed
      else do {
        hl \<leftarrow> frag_require_ipv4 pkt_data pkt_len;
        case hl of
          None \<Rightarrow> Some failed
        | Some ip_hdr_len \<Rightarrow> do {
            ip_proto \<leftarrow> rd pkt_data 23;
            let ip_payload = 14 + ip_hdr_len;
            let ip_payload_len = pkt_len - 14 - ip_hdr_len;
            if ip_proto \<noteq> 6 \<and> ip_proto \<noteq> 17 then Some failed
            else do {
              transport_hdr_len \<leftarrow> get_transport_hdr_size pkt_data ip_payload ip_proto ip_payload_len;
              let app_off = nat transport_hdr_len;
              let app_len = ip_payload_len - app_off;
              if transport_hdr_len < 0 \<or> app_len = 0 then Some failed
              else do {
                let half1 = app_len div 2;
                let half2 = app_len - half1;
                let (pkt_id, cnt) = frag_next_pkt_id cnt;
                if app_off + half1 > 2048 then Some (-1, (frag1, 0), (frag2, 0), cnt, st)
                else do {
                  th \<leftarrow> rdn pkt_data ip_payload app_off;
                  h1 \<leftarrow> rdn pkt_data (ip_payload + app_off) half1;
                  h2 \<leftarrow> rdn pkt_data (ip_payload + app_off + half1) half2;
                  encrypt_halves
                    (crypto_layer3_encrypt_fragment_single E ctx pkt_data (drop 14 pkt_data) ip_hdr_len
                       (th @ h1) pkt_id 0 frag1 2048)
                    (crypto_layer3_encrypt_fragment_single E ctx pkt_data (drop 14 pkt_data) ip_hdr_len
                       h2 pkt_id 1 frag2 2048)
                    frag2 cnt st
                }
              }
            }
          }
      })"

definition frag_split_and_encrypt_l2 ::
    "evp \<Rightarrow> packet_crypto_ctx \<Rightarrow> buf \<Rightarrow> nat \<Rightarrow> buf \<Rightarrow> buf \<Rightarrow> u64 \<Rightarrow> crypto_state \<Rightarrow> split_result" where
  "frag_split_and_encrypt_l2 E ctx pkt_data pkt_len frag1 frag2 cnt st =
     (let failed = (-1, (frag1, 0), (frag2, 0), cnt, st)
      in if pkt_len < 14 + 20 then Some failed
      else do {
        hl \<leftarrow> frag_require_ipv4 pkt_data pkt_len;
        case hl of
          None \<Rightarrow> Some failed
        | Some ip_hdr_len \<Rightarrow> do {
            ip_proto \<leftarrow> rd pkt_data 23;
            let ip_payload = 14 + ip_hdr_len;
            let ip_payload_len = pkt_len - 14 - ip_hdr_len;
            let transport = (ip_proto = 6 \<or> ip_proto = 17);
            transport_hdr_len \<leftarrow>
              (if transport then get_transport_hdr_size pkt_data ip_payload ip_proto ip_payload_len
               else Some (-1));
            let app_off = (if transport then nat transport_hdr_len else 0);
            let app_len = ip_payload_len - app_off;
            if transport \<and> transport_hdr_len < 0 \<or> app_len = 0 then Some failed
            else do {
              let half1 = app_len div 2;
              let half2 = app_len - half1;
              let (pkt_id, cnt) = frag_next_pkt_id cnt;
              if ip_hdr_len + app_off + half1 > 2048 then Some (-1, (frag1, 0), (frag2, 0), cnt, st)
              else do {
                ip \<leftarrow> rdn pkt_data 14 ip_hdr_len;
                th \<leftarrow> rdn pkt_data ip_payload app_off;
                h1 \<leftarrow> rdn pkt_data (ip_payload + app_off) half1;
                h2 \<leftarrow> rdn pkt_data (ip_payload + app_off + half1) half2;
                encrypt_halves
                  (crypto_layer2_encrypt_fragment_single E ctx pkt_data (ip @ th @ h1) pkt_id 0 frag1 2048)
                  (crypto_layer2_encrypt_fragment_single E ctx pkt_data h2 pkt_id 1 frag2 2048)
                  frag2 cnt st
              }
            }
          }
      })"

definition frag_split_and_encrypt_l4 ::
    "evp \<Rightarrow> packet_crypto_ctx \<Rightarrow> buf \<Rightarrow> nat \<Rightarrow> buf \<Rightarrow> buf \<Rightarrow> u64 \<Rightarrow> crypto_state \<Rightarrow> split_result" where
  "frag_split_and_encrypt_l4 E ctx pkt_data pkt_len frag1 frag2 cnt st =
     (let failed = (-1, (frag1, 0), (frag2, 0), cnt, st)
      in if pkt_len < 14 + 20 + 8 then Some failed
      else do {
        et \<leftarrow> rd16 pkt_data 12;
        ip_proto \<leftarrow> rd pkt_data 23;
        b \<leftarrow> rd pkt_data 14;
        let ip_hdr_len = ihl_bytes b;
        let transport_off = 14 + ip_hdr_len;
        if et \<noteq> 0x0800 \<or> ip_proto \<noteq> 6 \<and> ip_proto \<noteq> 17 \<or> ip_hdr_len < 20 then Some failed
        else do {
          transport_hdr_len \<leftarrow>
            get_transport_hdr_size pkt_data transport_off ip_proto (sub32 pkt_len transport_off);
          let app_off = transport_off + nat transport_hdr_len;
          let app_len = sub32 pkt_len app_off;
          if transport_hdr_len < 0 \<or> app_len = 0 then Some failed
          else do {
            let half1 = app_len div 2;
            let half2 = app_len - half1;
            let (pkt_id, cnt) = frag_next_pkt_id cnt;
            if nat transport_hdr_len + half1 > 2048 then Some (-1, (frag1, 0), (frag2, 0), cnt, st)
            else do {
              th \<leftarrow> rdn pkt_data transport_off (nat transport_hdr_len);
              h1 \<leftarrow> rdn pkt_data app_off half1;
              h2 \<leftarrow> rdn pkt_data (app_off + half1) half2;
              encrypt_halves
                (crypto_layer4_encrypt_fragment_single E ctx pkt_data (drop 14 pkt_data) ip_hdr_len
                   (drop transport_off pkt_data) (th @ h1) pkt_id 0 frag1 2048)
                (crypto_layer4_encrypt_fragment_single E ctx pkt_data (drop 14 pkt_data) ip_hdr_len
                   (drop transport_off pkt_data) h2 pkt_id 1 frag2 2048)
                frag2 cnt st
            }
          }
        }
      })"

section \<open>Reassembly\<close>

text \<open>
  The result: return value (0 stored, 1 reassembled, -1 dropped), the table, the output buffer
  and \<^verbatim>\<open>*out_len\<close> (zero where it is not written).
\<close>

type_synonym reassembly = "(int \<times> frag_table \<times> buf \<times> nat) option"

text \<open>Copying the restored transport header, the rest of the first half and the second half.\<close>

definition frag_emit :: "buf \<Rightarrow> nat \<Rightarrow> buf \<Rightarrow> nat \<Rightarrow> nat \<Rightarrow> nat \<Rightarrow> buf \<Rightarrow> (buf \<times> nat) option" where
  "frag_emit out_buf off data data_off first_len restored_th second = do {
     th \<leftarrow> rdn data data_off restored_th;
     out_buf \<leftarrow> wrn out_buf off th;
     let off = off + restored_th;
     let first_app = first_len - restored_th;
     app \<leftarrow> rdn data (data_off + restored_th) first_app;
     out_buf \<leftarrow> wrn out_buf off app;
     let off = off + first_app;
     out_buf \<leftarrow> wrn out_buf off second;
     Some (out_buf, off + length second)
   }"

definition restored_size :: "int \<Rightarrow> byte \<Rightarrow> nat" where
  "restored_size restored_th orig_proto =
     (if restored_th < 0 then (if orig_proto = 6 then 20 else 8) else nat restored_th)"

definition frag_try_reassemble ::
    "u64 \<Rightarrow> frag_table \<Rightarrow> buf \<Rightarrow> nat \<Rightarrow> u16 \<Rightarrow> byte \<Rightarrow> buf \<Rightarrow> reassembly" where
  "frag_try_reassemble now ft pkt_data pkt_len pkt_id frag_index out_buf = do {
     hl \<leftarrow> frag_require_ipv4 pkt_data pkt_len;
     case hl of
       None \<Rightarrow> Some (-1, ft, out_buf, 0)
     | Some ip_hdr_len \<Rightarrow>
         (let payload = 14 + ip_hdr_len;
              payload_len = pkt_len - 14 - ip_hdr_len;
              idx = frag_slot pkt_id;
              entry = ft ! idx
          in if frag_index = 0 then do {
               as_tcp \<leftarrow> get_transport_hdr_size pkt_data payload 6 payload_len;
               as_udp \<leftarrow> get_transport_hdr_size pkt_data payload 17 payload_len;
               if as_tcp < 0 \<and> as_udp < 0 then Some (-1, ft, out_buf, 0)
               else do {
                 (rc, entry) \<leftarrow> frag_store_pending entry pkt_id pkt_data 0 14 ip_hdr_len
                                 (if as_tcp \<ge> 0 then 6 else 17) payload payload_len now;
                 if rc \<noteq> 0 then Some (-1, ft, out_buf, 0)
                 else Some (0, ft[idx := entry], out_buf, 0)
               }
             }
             else if frag_index = 1 then
               (if \<not> fr_valid entry \<or> fr_pkt_id entry \<noteq> pkt_id then Some (-1, ft, out_buf, 0)
                else if frag_expired now entry \<or> (fr_data_len entry + payload_len) mod 2 ^ 32 > 4096
                  then Some (-1, ft[idx := entry\<lparr>fr_valid := False\<rparr>], out_buf, 0)
                else do {
                  out_buf \<leftarrow> wrn out_buf 0 (fr_eth_hdr entry);
                  ip \<leftarrow> rdn (fr_ip_hdr entry) 0 (fr_ip_hdr_len entry);
                  out_buf \<leftarrow> wrn out_buf 14 ip;
                  let off = 14 + fr_ip_hdr_len entry;
                  out_buf \<leftarrow> wr out_buf 23 (fr_orig_proto entry);
                  restored_th \<leftarrow>
                    get_transport_hdr_size (fr_data entry) 0 (fr_orig_proto entry) (fr_data_len entry);
                  second \<leftarrow> rdn pkt_data payload payload_len;
                  (out_buf, off) \<leftarrow> frag_emit out_buf off (fr_data entry) 0 (fr_data_len entry)
                                    (restored_size restored_th (fr_orig_proto entry)) second;
                  out_buf \<leftarrow> l3_patch_ipv4 out_buf 14 (fr_ip_hdr_len entry) (of_nat (off - 14));
                  Some (1, ft[idx := entry\<lparr>fr_valid := False\<rparr>], out_buf, off)
                })
             else Some (-1, ft, out_buf, 0))
   }"

text \<open>Layer 2: the first fragment carries the IPv4 header with the data.\<close>

definition frag_try_reassemble_l2 ::
    "u64 \<Rightarrow> frag_table \<Rightarrow> buf \<Rightarrow> nat \<Rightarrow> u16 \<Rightarrow> byte \<Rightarrow> buf \<Rightarrow> reassembly" where
  "frag_try_reassemble_l2 now ft pkt_data pkt_len pkt_id frag_index out_buf =
     (let wire_eth = crypto_layer2_wire_eth_len;
          inner_len = pkt_len - wire_eth;
          idx = frag_slot pkt_id;
          entry = ft ! idx
      in if pkt_len < wire_eth + 20 then Some (-1, ft, out_buf, 0)
      else if frag_index = 0 then do {
        b \<leftarrow> rd pkt_data wire_eth;
        let ip_hdr_len = ihl_bytes b;
        if inner_len < 20 \<or> drop_bit 4 b \<noteq> 4 then Some (-1, ft, out_buf, 0)
        else if ip_hdr_len < 20 \<or> inner_len < ip_hdr_len then Some (-1, ft, out_buf, 0)
        else do {
          proto \<leftarrow> rd pkt_data (wire_eth + 9);
          (rc, entry) \<leftarrow> frag_store_pending entry pkt_id pkt_data 0 wire_eth ip_hdr_len proto
                          wire_eth inner_len now;
          if rc \<noteq> 0 then Some (-1, ft, out_buf, 0)
          else Some (0, ft[idx := entry], out_buf, 0)
        }
      }
      else if frag_index = 1 then
        (if \<not> fr_valid entry \<or> fr_pkt_id entry \<noteq> pkt_id then Some (-1, ft, out_buf, 0)
         else if frag_expired now entry \<or> (fr_data_len entry + inner_len) mod 2 ^ 32 > 4096
           then Some (-1, ft[idx := entry\<lparr>fr_valid := False\<rparr>], out_buf, 0)
         else do {
           let first_len = fr_data_len entry;
           let ihl = fr_ip_hdr_len entry;
           eth \<leftarrow> rdn (fr_eth_hdr entry) 0 wire_eth;
           out_buf \<leftarrow> wrn out_buf 0 eth;
           restored_th \<leftarrow> get_transport_hdr_size (fr_data entry) ihl (fr_orig_proto entry) (first_len - ihl);
           ip \<leftarrow> rdn (fr_data entry) 0 ihl;
           out_buf \<leftarrow> wrn out_buf wire_eth ip;
           let off = wire_eth + ihl;
           second \<leftarrow> rdn pkt_data wire_eth inner_len;
           (out_buf, off) \<leftarrow>
             (if first_len > ihl
              then frag_emit out_buf off (fr_data entry) ihl (first_len - ihl)
                     (restored_size restored_th (fr_orig_proto entry)) second
              else do { out_buf \<leftarrow> wrn out_buf off second; Some (out_buf, off + length second) });
           out_buf \<leftarrow> l3_patch_ipv4 out_buf wire_eth ihl (of_nat (off - wire_eth));
           out_buf \<leftarrow> wr out_buf 12 0x08;
           out_buf \<leftarrow> wr out_buf 13 0x00;
           Some (1, ft[idx := entry\<lparr>fr_valid := False\<rparr>], out_buf, off)
         })
      else Some (-1, ft, out_buf, 0))"

text \<open>
  Layer 4: the four clear port bytes are skipped.  Nothing checks the header length against the
  packet, so the length subtraction may wrap, and the sum with it.
\<close>

definition frag_try_reassemble_l4 ::
    "u64 \<Rightarrow> frag_table \<Rightarrow> buf \<Rightarrow> nat \<Rightarrow> u16 \<Rightarrow> byte \<Rightarrow> buf \<Rightarrow> reassembly" where
  "frag_try_reassemble_l4 now ft pkt_data pkt_len pkt_id frag_index out_buf =
     (if pkt_len < 14 + 20 then Some (-1, ft, out_buf, 0)
      else do {
        et \<leftarrow> rd16 pkt_data 12;
        b \<leftarrow> rd pkt_data 14;
        let ip_hdr_len = ihl_bytes b;
        let payload = 14 + ip_hdr_len;
        let payload_len = sub32 (pkt_len - 14) ip_hdr_len;
        let idx = frag_slot pkt_id;
        let entry = ft ! idx;
        let plain_len = payload_len - L4_WIRE_PORT_LEN;
        let total_plain = (fr_data_len entry + plain_len) mod 2 ^ 32;
        if et \<noteq> 0x0800 then Some (-1, ft, out_buf, 0)
        else if frag_index = 0 then do {
          proto \<leftarrow> rd pkt_data 23;
          (rc, entry) \<leftarrow> frag_store_pending entry pkt_id pkt_data 0 14 ip_hdr_len proto
                          (payload + L4_WIRE_PORT_LEN) plain_len now;
          if rc \<noteq> 0 then Some (-1, ft, out_buf, 0)
          else Some (0, ft[idx := entry], out_buf, 0)
        }
        else if frag_index = 1 then
          (if \<not> fr_valid entry \<or> fr_pkt_id entry \<noteq> pkt_id then Some (-1, ft, out_buf, 0)
           else if frag_expired now entry \<or> total_plain < 8 \<or> total_plain > 4096
             then Some (-1, ft[idx := entry\<lparr>fr_valid := False\<rparr>], out_buf, 0)
           else do {
             let ihl = fr_ip_hdr_len entry;
             out_buf \<leftarrow> wrn out_buf 0 (fr_eth_hdr entry);
             ip \<leftarrow> rdn (fr_ip_hdr entry) 0 ihl;
             out_buf \<leftarrow> wrn out_buf 14 ip;
             restored_th \<leftarrow>
               get_transport_hdr_size (fr_data entry) 0 (fr_orig_proto entry) (fr_data_len entry);
             second \<leftarrow> (if plain_len > 0 then rdn pkt_data (payload + L4_WIRE_PORT_LEN) plain_len
                         else Some []);
             (out_buf, off) \<leftarrow> frag_emit out_buf (14 + ihl) (fr_data entry) 0 (fr_data_len entry)
                               (restored_size restored_th (fr_orig_proto entry)) second;
             out_buf \<leftarrow> l3_patch_ipv4 out_buf 14 ihl (of_nat (off - 14));
             Some (1, ft[idx := entry\<lparr>fr_valid := False\<rparr>], out_buf, off)
           })
        else Some (-1, ft, out_buf, 0)
      })"

end
