(* ===== verification/Reassembly.thy ===== *)
theory Reassembly
  imports Fragment
begin

text \<open>
  What reassembly computes: the table keeps its shape whatever arrives, no copy leaves its
  array when the output buffer is large enough, and the two fragments of a packet give the
  packet back.
\<close>

section \<open>The shape of the table\<close>

definition frag_entry_ok :: "frag_entry \<Rightarrow> bool" where
  "frag_entry_ok e \<longleftrightarrow> length (fr_data e) = 1600 \<and> length (fr_eth_hdr e) = 14 \<and>
     length (fr_ip_hdr e) = 60 \<and> fr_data_len e \<le> 1600 \<and> fr_ip_hdr_len e \<le> 60"

definition frag_table_ok :: "frag_table \<Rightarrow> bool" where
  "frag_table_ok ft \<longleftrightarrow> length ft = FRAG_TABLE_SIZE \<and> (\<forall>e \<in> set ft. frag_entry_ok e)"

lemma frag_entry_ok_invalidate [simp]: "frag_entry_ok (e\<lparr>fr_valid := v\<rparr>) = frag_entry_ok e"
  by (simp add: frag_entry_ok_def)

lemma frag_table_init_ok [simp]: "frag_table_ok frag_table_init"
  by (simp add: frag_table_ok_def frag_table_init_def frag_entry_ok_def)

lemma frag_table_gc_ok [simp]: "frag_table_ok ft \<Longrightarrow> frag_table_ok (frag_table_gc now ft)"
  by (auto simp: frag_table_ok_def frag_table_gc_def)

lemma frag_slot_less [simp]: "frag_slot i < FRAG_TABLE_SIZE"
  by (simp add: frag_slot_def)

lemma frag_table_ok_nth [simp]: "frag_table_ok ft \<Longrightarrow> frag_entry_ok (ft ! frag_slot i)"
  by (simp add: frag_table_ok_def)

lemma frag_table_ok_update [simp]:
  "frag_table_ok ft \<Longrightarrow> frag_entry_ok e \<Longrightarrow> frag_table_ok (ft[frag_slot i := e])"
  by (auto simp: frag_table_ok_def dest: set_update_subset_insert [THEN subsetD])

lemma ihl_bytes_le: "ihl_bytes b \<le> 60"
proof -
  have "b AND 0x0F \<le> 0x0F" by (rule word_and_le1)
  then have "unat (b AND 0x0F) \<le> unat (0x0F :: byte)" by (simp only: word_le_nat_alt)
  then show ?thesis by (simp add: ihl_bytes_def)
qed

section \<open>The steps of a reassembly\<close>

lemma get_transport_hdr_size_total:
  assumes "off + min 13 rem \<le> length b"
  shows "\<exists>r. get_transport_hdr_size b off p rem = Some r \<and> (r = -1 \<or> 8 \<le> r \<and> r \<le> 60 \<and> r \<le> int rem)"
proof -
  define u where "u = unat (drop_bit 4 (b ! (off + 12)) AND 0x0F) * 4"
  have "u \<le> 60" using ihl_bytes_le [of "drop_bit 4 (b ! (off + 12))"] by (simp add: ihl_bytes_def u_def)
  moreover have "get_transport_hdr_size b off p rem =
      (if p = 6 then (if rem < 20 then Some (-1) else do { _ \<leftarrow> rd b (off + 12);
          if u < 20 \<or> u > rem then Some (-1) else Some (int u) })
       else if p = 17 then (if rem < 8 then Some (-1) else Some 8) else Some (-1))"
    by (auto simp: get_transport_hdr_size_def Let_def u_def rd_def)
  ultimately show ?thesis using assms by auto
qed

lemma restored_size_le:
  "r = -1 \<or> 8 \<le> r \<and> r \<le> 60 \<and> r \<le> int rem \<Longrightarrow>
     restored_size r p \<le> 60 \<and> restored_size r p \<le> rem + 20"
  by (auto simp: restored_size_def)

text \<open>
  The output of the copy sequence: the restored header, the rest of the first half, the second
  half.  When the first half is shorter than the header, the bytes that follow it in the entry
  are copied with it.
\<close>

lemma frag_emit_at:
  assumes "off \<le> length out" and "data_off + max r first_len \<le> length data"
    and "off + max r first_len + length second \<le> length out"
  shows "frag_emit out off data data_off first_len r second =
    Some (take off out @ take (max r first_len) (drop data_off data) @ second @
          drop (off + max r first_len + length second) out,
          off + max r first_len + length second)"
proof -
  define n where "n = first_len - r"
  have n: "max r first_len = r + n" by (auto simp: n_def)
  define th app where "th = take r (drop data_off data)" and "app = take n (drop (data_off + r) data)"
  have lens: "length th = r" "length app = n" using assms(2) by (simp_all add: th_def app_def n)
  have rds: "rdn data data_off r = Some th" "rdn data (data_off + r) n = Some app"
    using assms(2) by (simp_all add: th_def app_def n)
  have split: "take (r + n) (drop data_off data) = th @ app"
    by (simp only: take_add drop_drop th_def app_def add.commute [of data_off r])
  define A B where "A = take off out" and "B = drop off out"
  have out: "out = A @ B" "length A = off" using assms(1) by (simp_all add: A_def B_def)
  have w1: "wrn (A @ B) off th = Some (A @ th @ drop r B)"
    using wrn_end [of off A th B] out assms(3) lens by (simp add: n)
  have w2: "wrn (A @ th @ drop r B) (off + r) app = Some (A @ th @ app @ drop (n + r) B)"
    using wrn_end [of "off + r" "A @ th" app "drop r B"] out assms(3) lens by (simp add: n)
  have w3: "wrn (A @ th @ app @ drop (n + r) B) (off + r + n) second =
      Some (A @ th @ app @ second @ drop (length second + (n + r)) B)"
    using wrn_end [of "off + r + n" "A @ th @ app" second "drop (n + r) B"] out assms(3) lens
    by (simp add: n)
  have "frag_emit (A @ B) off data data_off first_len r second =
      Some (A @ th @ app @ second @ drop (length second + (n + r)) B, off + r + n + length second)"
    using rds w1 w2 w3 by (simp add: frag_emit_def Let_def flip: n_def del: wrn_Some rdn_Some)
  moreover have "th @ app = take (n + r) (drop data_off data)" by (simp only: split add.commute [of n r])
  ultimately show ?thesis using out by (simp add: n add.commute add.left_commute)
qed

lemma frag_store_pending_at:
  assumes "frag_entry_ok e" and "eth_off + 14 \<le> length pkt" and "ip_off + ihl \<le> length pkt"
    and "data_off + n \<le> length pkt \<or> n > 1600" and "ihl \<le> 60"
  shows "\<exists>e'. frag_store_pending e pkt_id pkt eth_off ip_off ihl p data_off n now =
      Some (if n > 1600 then -1 else 0, e') \<and> frag_entry_ok e' \<and>
    (n \<le> 1600 \<longrightarrow> fr_pkt_id e' = pkt_id \<and> fr_data_len e' = n \<and>
       take n (fr_data e') = take n (drop data_off pkt) \<and> fr_eth_hdr e' = take 14 (drop eth_off pkt) \<and>
       take ihl (fr_ip_hdr e') = take ihl (drop ip_off pkt) \<and> fr_ip_hdr_len e' = ihl \<and>
       fr_orig_proto e' = p \<and> fr_timestamp_ns e' = now \<and> fr_valid e')"
  using assms by (auto simp: frag_store_pending_def frag_entry_ok_def)

lemma l3_patch_ipv4_total:
  "off + max 12 n \<le> length b \<Longrightarrow> \<exists>b'. l3_patch_ipv4 b off n t = Some b' \<and> length b' = length b"
  by (auto simp: l3_patch_ipv4_def)

section \<open>Safety\<close>

text \<open>
  A reassembly that stayed within its arrays: an admissible result, a table of the same shape,
  an output of at most 4190 bytes.
\<close>

definition reassembly_safe :: "reassembly \<Rightarrow> nat \<Rightarrow> bool" where
  "reassembly_safe r sz \<longleftrightarrow> (case r of None \<Rightarrow> False
     | Some (rc, ft, out, n) \<Rightarrow> (rc = -1 \<or> rc = 0 \<or> rc = 1) \<and> frag_table_ok ft \<and> length out = sz \<and> n \<le> 4190)"

lemma reassembly_safeI [intro]:
  "rc = -1 \<or> rc = 0 \<or> rc = 1 \<Longrightarrow> frag_table_ok ft \<Longrightarrow> length out = sz \<Longrightarrow> n \<le> 4190 \<Longrightarrow>
     reassembly_safe (Some (rc, ft, out, n)) sz"
  by (simp add: reassembly_safe_def)

text \<open>Storing a first fragment, common to the three layers.\<close>

lemma store_safe:
  assumes "frag_table_ok ft" and "14 \<le> length pkt" and "ip_off + ihl \<le> length pkt"
    and "data_off + n \<le> length pkt \<or> n > 1600" and "ihl \<le> 60" and "length out = sz"
  shows "reassembly_safe (do {
      (rc, entry) \<leftarrow> frag_store_pending (ft ! frag_slot i) pkt_id pkt 0 ip_off ihl p data_off n now;
      if rc \<noteq> 0 then Some (-1, ft, out, 0) else Some (0, ft[frag_slot i := entry], out, 0) }) sz"
proof -
  obtain e' where "frag_store_pending (ft ! frag_slot i) pkt_id pkt 0 ip_off ihl p data_off n now =
      Some (if n > 1600 then -1 else 0, e')" "frag_entry_ok e'"
    using frag_store_pending_at [OF frag_table_ok_nth [OF assms(1), of i], of 0 pkt ip_off ihl data_off n
        pkt_id p now] assms by auto
  then show ?thesis using assms by auto
qed

text \<open>Writing out the two halves behind a restored header, common to the three layers.\<close>

lemma emit_safe:
  assumes "frag_table_ok ft" and "length out = sz" and "4190 \<le> sz" and "ihl \<le> 60"
    and "off = 14 + ihl" and "data_off + max r first_len \<le> length data"
    and "max r first_len + length second \<le> 4116"
  shows "\<exists>out'. frag_emit out off data data_off first_len r second =
      Some (out', off + max r first_len + length second) \<and> length out' = sz \<and>
    (\<exists>out''. l3_patch_ipv4 out' 14 ihl (of_nat (off + max r first_len + length second - 14)) = Some out'' \<and>
       length out'' = sz \<and> off + max r first_len + length second \<le> 4190)"
proof -
  define out' where "out' = take off out @ take (max r first_len) (drop data_off data) @ second @
      drop (off + max r first_len + length second) out"
  have len: "length out' = sz" using assms by (simp add: out'_def)
  moreover have "frag_emit out off data data_off first_len r second =
      Some (out', off + max r first_len + length second)"
    unfolding out'_def by (rule frag_emit_at) (use assms in auto)
  moreover obtain out'' where "l3_patch_ipv4 out' 14 ihl
        (of_nat (off + max r first_len + length second - 14)) = Some out''" "length out'' = sz"
  proof -
    have "14 + max 12 ihl \<le> length out'" using assms len by simp
    from l3_patch_ipv4_total [OF this] len that show ?thesis by metis
  qed
  moreover have "off + max r first_len + length second \<le> 4190" using assms by simp
  ultimately show ?thesis by blast
qed

lemma frag_require_ipv4_eq:
  assumes "pkt_len \<le> length pkt"
  shows "frag_require_ipv4 pkt pkt_len = Some (if 34 \<le> pkt_len \<and> be16 (pkt ! 12) (pkt ! 13) = 0x0800 \<and>
      20 \<le> ihl_bytes (pkt ! 14) \<and> 14 + ihl_bytes (pkt ! 14) \<le> pkt_len
    then Some (ihl_bytes (pkt ! 14)) else None)"
  using assms by (cases "34 \<le> pkt_len") (simp_all add: frag_require_ipv4_def Let_def)

lemma frag_try_reassemble_safe:
  assumes "frag_table_ok ft" and "pkt_len \<le> length pkt" and "pkt_len < 2 ^ 31"
    and "74 \<le> length pkt" and "length out = sz" and "4190 \<le> sz"
  shows "reassembly_safe (frag_try_reassemble now ft pkt pkt_len pkt_id i out) sz"
proof (cases "frag_require_ipv4 pkt pkt_len = Some None")
  case True
  then show ?thesis using assms by (simp add: frag_try_reassemble_def reassembly_safe_def)
next
  case False
  define ihl where "ihl = ihl_bytes (pkt ! 14)"
  have ihl: "ihl \<le> 60" "14 + ihl \<le> pkt_len" "20 \<le> ihl"
    using False ihl_bytes_le by (auto simp: ihl_def frag_require_ipv4_eq [OF assms(2)] split: if_splits)
  define pl where "pl = pkt_len - (14 + ihl)"
  have pl: "14 + ihl + pl \<le> length pkt" "pl < 2 ^ 31" using ihl assms by (auto simp: pl_def)
  have req: "frag_require_ipv4 pkt pkt_len = Some (Some ihl)"
    using False by (auto simp: ihl_def frag_require_ipv4_eq [OF assms(2)] split: if_splits)
  define e where "e = ft ! frag_slot pkt_id"
  have e: "frag_entry_ok e" using assms by (simp add: e_def)
  have inv: "frag_table_ok (ft[frag_slot pkt_id := e\<lparr>fr_valid := False\<rparr>])" using assms e by simp
  consider "i = 0" | "i = 1" | "i \<noteq> 0" "i \<noteq> 1" by blast
  then show ?thesis
  proof cases
    case 1
    obtain a b where "get_transport_hdr_size pkt (14 + ihl) 6 pl = Some a"
        "get_transport_hdr_size pkt (14 + ihl) 17 pl = Some b"
      using get_transport_hdr_size_total [of "14 + ihl" pl pkt] pl by fastforce
    then show ?thesis
      using 1 req assms pl ihl(1) store_safe [OF assms(1), of pkt 14 ihl "14 + ihl" pl out sz pkt_id pkt_id _ now]
      by (auto simp: frag_try_reassemble_def Let_def simp flip: pl_def)
  next
    case 2
    show ?thesis
    proof (cases "fr_valid e \<and> fr_pkt_id e = pkt_id \<and> \<not> frag_expired now e \<and>
        \<not> (fr_data_len e + pl) mod 2 ^ 32 > 4096")
      case False
      then show ?thesis using 2 req inv assms
        by (auto simp: frag_try_reassemble_def Let_def simp flip: pl_def e_def)
    next
      case True
      have d: "fr_data_len e \<le> 1600" "fr_ip_hdr_len e \<le> 60" "length (fr_data e) = 1600"
          "length (fr_eth_hdr e) = 14" "length (fr_ip_hdr e) = 60"
        using e by (auto simp: frag_entry_ok_def)
      obtain r where r: "get_transport_hdr_size (fr_data e) 0 (fr_orig_proto e) (fr_data_len e) = Some r"
          "r = -1 \<or> 8 \<le> r \<and> r \<le> 60 \<and> r \<le> int (fr_data_len e)"
        using get_transport_hdr_size_total [of 0 "fr_data_len e" "fr_data e"] d by fastforce
      have tot: "fr_data_len e + pl \<le> 4096" using True pl d by (auto simp: mod_less)
      define R where "R = restored_size r (fr_orig_proto e)"
      have R: "R \<le> 60" "R \<le> fr_data_len e + 20"
        using restored_size_le [OF r(2), of "fr_orig_proto e"] by (auto simp: R_def)
      define o1 where "o1 = (fr_eth_hdr e @ take (fr_ip_hdr_len e) (fr_ip_hdr e) @
          drop (14 + fr_ip_hdr_len e) out)[23 := fr_orig_proto e]"
      have o1: "wrn out 0 (fr_eth_hdr e) = Some (fr_eth_hdr e @ drop 14 out)"
          "wrn (fr_eth_hdr e @ drop 14 out) 14 (take (fr_ip_hdr_len e) (fr_ip_hdr e)) =
             Some (fr_eth_hdr e @ take (fr_ip_hdr_len e) (fr_ip_hdr e) @ drop (14 + fr_ip_hdr_len e) out)"
          "wr (fr_eth_hdr e @ take (fr_ip_hdr_len e) (fr_ip_hdr e) @ drop (14 + fr_ip_hdr_len e) out) 23
             (fr_orig_proto e) = Some o1" "length o1 = sz"
        using d assms by (auto simp: o1_def wr_def add.commute)
      define S where "S = take pl (drop (14 + ihl) pkt)"
      have S: "rdn pkt (14 + ihl) pl = Some S" "length S = pl" using pl by (simp_all add: S_def)
      have "max R (fr_data_len e) \<le> length (fr_data e)" "max R (fr_data_len e) + length S \<le> 4116"
        using tot R d S by (auto simp: max_def)
      then obtain o2 o3 where o2: "frag_emit o1 (14 + fr_ip_hdr_len e) (fr_data e) 0 (fr_data_len e) R S =
            Some (o2, 14 + fr_ip_hdr_len e + max R (fr_data_len e) + pl)"
          "l3_patch_ipv4 o2 14 (fr_ip_hdr_len e)
            (of_nat (14 + fr_ip_hdr_len e + max R (fr_data_len e) + pl - 14)) = Some o3"
          "length o3 = sz" "14 + fr_ip_hdr_len e + max R (fr_data_len e) + pl \<le> 4190"
        using emit_safe [OF inv o1(4) assms(6) d(2) refl, of 0 R "fr_data_len e" "fr_data e" S] S(2) by auto
      have "frag_try_reassemble now ft pkt pkt_len pkt_id i out =
          Some (1, ft[frag_slot pkt_id := e\<lparr>fr_valid := False\<rparr>], o3,
            14 + fr_ip_hdr_len e + max R (fr_data_len e) + pl)"
        using 2 req True o1 o2(1,2) r(1) S d
        by (simp add: frag_try_reassemble_def Let_def flip: pl_def e_def R_def
            del: wrn_Some wr_Some wr_append1 rdn_append1)
      then show ?thesis using inv o2(3,4) by auto
    qed
  next
    case 3
    then show ?thesis using req assms by (auto simp: frag_try_reassemble_def Let_def)
  qed
qed

lemma frag_try_reassemble_l4_safe:
  assumes "frag_table_ok ft" and "pkt_len \<le> length pkt" and "pkt_len < 2 ^ 31"
    and "78 \<le> length pkt" and "length out = sz" and "4190 \<le> sz"
    and "14 + ihl_bytes (pkt ! 14) \<le> pkt_len"
  shows "reassembly_safe (frag_try_reassemble_l4 now ft pkt pkt_len pkt_id i out) sz"
proof -
  note dfn = frag_try_reassemble_l4_def Let_def
  consider "pkt_len < 34" | "\<not> pkt_len < 34" "be16 (pkt ! 12) (pkt ! 13) \<noteq> 0x0800"
    | "\<not> pkt_len < 34" "be16 (pkt ! 12) (pkt ! 13) = 0x0800" by blast
  then show ?thesis
  proof cases
  case 1
  then show ?thesis using assms by (simp add: dfn reassembly_safe_def)
next
  case 2
  then show ?thesis using assms by (simp add: dfn reassembly_safe_def)
next
  case 3
  define ihl where "ihl = ihl_bytes (pkt ! 14)"
  have ihl: "ihl \<le> 60" "14 + ihl \<le> pkt_len" using assms(7) ihl_bytes_le by (auto simp: ihl_def)
  define pl where "pl = pkt_len - (18 + ihl)"
  have sub: "sub32 (pkt_len - 14) ihl - 4 = pl" "ihl_bytes (pkt ! 14) = ihl"
    using ihl by (simp_all add: pl_def ihl_def)
  have pl: "14 + ihl + 4 + pl \<le> length pkt" "pl < 2 ^ 31" using ihl assms by (auto simp: pl_def)
  have hdr: "rd16 pkt 12 = Some 0x0800" "rd pkt 14 = Some (pkt ! 14)" "\<not> pkt_len < 34"
      "rd pkt 23 = Some (pkt ! 23)"
    using 3 assms by auto
  define e where "e = ft ! frag_slot pkt_id"
  have e: "frag_entry_ok e" using assms by (simp add: e_def)
  have inv: "frag_table_ok (ft[frag_slot pkt_id := e\<lparr>fr_valid := False\<rparr>])" using assms e by simp
  consider "i = 0" | "i = 1" | "i \<noteq> 0" "i \<noteq> 1" by blast
  then show ?thesis
  proof cases
    case 1
    then show ?thesis
      using hdr assms pl ihl store_safe [OF assms(1), of pkt 14 ihl "14 + ihl + 4" pl out sz pkt_id pkt_id "pkt ! 23" now]
      by (simp add: dfn sub flip: pl_def del: rd16_Some rd_Some)
  next
    case 2
    show ?thesis
    proof (cases "fr_valid e \<and> fr_pkt_id e = pkt_id \<and> \<not> frag_expired now e \<and>
        \<not> (fr_data_len e + pl) mod 2 ^ 32 < 8 \<and> \<not> (fr_data_len e + pl) mod 2 ^ 32 > 4096")
      case False
      then consider "\<not> fr_valid e \<or> fr_pkt_id e \<noteq> pkt_id"
        | "\<not> (\<not> fr_valid e \<or> fr_pkt_id e \<noteq> pkt_id)"
          "frag_expired now e \<or> (fr_data_len e + pl) mod 2 ^ 32 < 8 \<or> (fr_data_len e + pl) mod 2 ^ 32 > 4096"
        by blast
      then show ?thesis using 2 hdr inv assms
        by cases (simp_all add: dfn sub reassembly_safe_def flip: e_def pl_def del: rd16_Some rd_Some)
    next
      case True
      have d: "fr_data_len e \<le> 1600" "fr_ip_hdr_len e \<le> 60" "length (fr_data e) = 1600"
          "length (fr_eth_hdr e) = 14" "length (fr_ip_hdr e) = 60"
        using e by (auto simp: frag_entry_ok_def)
      obtain r where r: "get_transport_hdr_size (fr_data e) 0 (fr_orig_proto e) (fr_data_len e) = Some r"
          "r = -1 \<or> 8 \<le> r \<and> r \<le> 60 \<and> r \<le> int (fr_data_len e)"
        using get_transport_hdr_size_total [of 0 "fr_data_len e" "fr_data e"] d by fastforce
      have tot: "fr_data_len e + pl \<le> 4096" using True pl d by auto
      define R where "R = restored_size r (fr_orig_proto e)"
      have R: "R \<le> 60" "R \<le> fr_data_len e + 20"
        using restored_size_le [OF r(2), of "fr_orig_proto e"] by (auto simp: R_def)
      define o1 where "o1 = fr_eth_hdr e @ take (fr_ip_hdr_len e) (fr_ip_hdr e) @ drop (14 + fr_ip_hdr_len e) out"
      have o1: "wrn out 0 (fr_eth_hdr e) = Some (fr_eth_hdr e @ drop 14 out)"
          "wrn (fr_eth_hdr e @ drop 14 out) 14 (take (fr_ip_hdr_len e) (fr_ip_hdr e)) = Some o1"
          "length o1 = sz"
        using d assms by (auto simp: o1_def add.commute)
      define S where "S = take pl (drop (14 + ihl + 4) pkt)"
      have S: "rdn pkt (14 + ihl + 4) pl = Some S" "length S = pl" using pl by (simp_all add: S_def)
      have S0: "rdn pkt (18 + ihl) pl = Some S" "pl = 0 \<Longrightarrow> S = []"
        using S by (auto simp del: rdn_Some)
      have "max R (fr_data_len e) \<le> length (fr_data e)" "max R (fr_data_len e) + length S \<le> 4116"
        using tot R d S by (auto simp: max_def)
      then obtain o2 o3 where o2: "frag_emit o1 (14 + fr_ip_hdr_len e) (fr_data e) 0 (fr_data_len e) R S =
            Some (o2, 14 + fr_ip_hdr_len e + max R (fr_data_len e) + pl)"
          "l3_patch_ipv4 o2 14 (fr_ip_hdr_len e)
            (of_nat (14 + fr_ip_hdr_len e + max R (fr_data_len e) + pl - 14)) = Some o3"
          "length o3 = sz" "14 + fr_ip_hdr_len e + max R (fr_data_len e) + pl \<le> 4190"
        using emit_safe [OF inv o1(3) assms(6) d(2) refl, of 0 R "fr_data_len e" "fr_data e" S] S(2) by auto
      have "frag_try_reassemble_l4 now ft pkt pkt_len pkt_id i out =
          Some (1, ft[frag_slot pkt_id := e\<lparr>fr_valid := False\<rparr>], o3,
            14 + fr_ip_hdr_len e + max R (fr_data_len e) + pl)"
        using 2 hdr True o1 o2(1,2) r(1) S0 d
        by (cases "pl = 0") (simp_all add: dfn sub flip: e_def R_def
            del: wrn_Some wr_Some wr_append1 rdn_append1 rd16_Some rd_Some)
      then show ?thesis using inv o2(3,4) by auto
    qed
  next
    case 3
    then show ?thesis using hdr assms by (auto simp: dfn simp del: rd16_Some rd_Some)
  qed
  qed
qed

lemma frag_try_reassemble_l2_safe:
  assumes "frag_table_ok ft" and "pkt_len \<le> length pkt" and "pkt_len < 2 ^ 31"
    and "74 \<le> length pkt" and "length out = sz" and "4190 \<le> sz"
  shows "reassembly_safe (frag_try_reassemble_l2 now ft pkt pkt_len pkt_id i out) sz"
proof (cases "pkt_len < 34")
  case True
  then show ?thesis using assms
    by (simp add: frag_try_reassemble_l2_def reassembly_safe_def crypto_layer2_wire_eth_len_def Let_def)
next
  case False
  note dfn = frag_try_reassemble_l2_def crypto_layer2_wire_eth_len_def Let_def
  define pl where "pl = pkt_len - 14"
  have pl: "14 + pl \<le> length pkt" "pl < 2 ^ 31" "\<not> pl < 20" using False assms by (auto simp: pl_def)
  define ihl where "ihl = ihl_bytes (pkt ! 14)"
  have ihl: "ihl \<le> 60" using ihl_bytes_le by (auto simp: ihl_def)
  define e where "e = ft ! frag_slot pkt_id"
  have e: "frag_entry_ok e" using assms by (simp add: e_def)
  have inv: "frag_table_ok (ft[frag_slot pkt_id := e\<lparr>fr_valid := False\<rparr>])" using assms e by simp
  consider "i = 0" | "i = 1" | "i \<noteq> 0" "i \<noteq> 1" by blast
  then show ?thesis
  proof cases
    case 1
    have r: "rd pkt 14 = Some (pkt ! 14)" "rd pkt 23 = Some (pkt ! 23)" using assms by simp_all
    consider "drop_bit 4 (pkt ! 14) \<noteq> 4" | "drop_bit 4 (pkt ! 14) = 4" "ihl < 20 \<or> pl < ihl"
      | "drop_bit 4 (pkt ! 14) = 4" "\<not> (ihl < 20 \<or> pl < ihl)" by blast
    then show ?thesis
      using 1 r pl False assms(1,5) ihl store_safe [OF assms(1), of pkt 14 ihl 14 pl out sz pkt_id pkt_id "pkt ! 23" now] assms(4)
      by cases (simp_all add: dfn reassembly_safe_def [of "Some _"] flip: ihl_def pl_def del: rd_Some)
  next
    case 2
    have d: "fr_data_len e \<le> 1600" "fr_ip_hdr_len e \<le> 60" "length (fr_data e) = 1600"
        "length (fr_eth_hdr e) = 14" "length (fr_ip_hdr e) = 60"
      using e by (auto simp: frag_entry_ok_def)
    define S where "S = take pl (drop 14 pkt)"
    have S: "rdn pkt 14 pl = Some S" "length S = pl" using pl by (simp_all add: S_def)
    define ih fl where "ih = fr_ip_hdr_len e" and "fl = fr_data_len e - ih"
    consider "\<not> fr_valid e \<or> fr_pkt_id e \<noteq> pkt_id"
      | "\<not> (\<not> fr_valid e \<or> fr_pkt_id e \<noteq> pkt_id)"
        "frag_expired now e \<or> (fr_data_len e + pl) mod 2 ^ 32 > 4096"
      | "\<not> (\<not> fr_valid e \<or> fr_pkt_id e \<noteq> pkt_id)"
        "\<not> (frag_expired now e \<or> (fr_data_len e + pl) mod 2 ^ 32 > 4096)" by blast
    then show ?thesis
    proof cases
      case 3
      have tot: "fr_data_len e + pl \<le> 4096" using 3 pl d by auto
      obtain r where r: "get_transport_hdr_size (fr_data e) ih (fr_orig_proto e) fl = Some r"
          "r = -1 \<or> 8 \<le> r \<and> r \<le> 60 \<and> r \<le> int fl"
        using get_transport_hdr_size_total [of ih fl "fr_data e"] d by (fastforce simp: ih_def)
      define R where "R = restored_size r (fr_orig_proto e)"
      have R: "R \<le> 60" "R \<le> fl + 20"
        using restored_size_le [OF r(2), of "fr_orig_proto e"] by (auto simp: R_def)
      define o1 where "o1 = fr_eth_hdr e @ take ih (fr_data e) @ drop (14 + ih) out"
      have o1: "rdn (fr_eth_hdr e) 0 14 = Some (fr_eth_hdr e)"
          "wrn out 0 (fr_eth_hdr e) = Some (fr_eth_hdr e @ drop 14 out)"
          "rdn (fr_data e) 0 ih = Some (take ih (fr_data e))"
          "wrn (fr_eth_hdr e @ drop 14 out) 14 (take ih (fr_data e)) = Some o1"
          "length o1 = sz"
        using d assms by (auto simp: o1_def ih_def add.commute)
      have "\<exists>o2 N. (if fl > 0 then frag_emit o1 (14 + ih) (fr_data e) ih fl R S
          else do { q \<leftarrow> wrn o1 (14 + ih) S; Some (q, 14 + ih + length S) }) = Some (o2, N) \<and>
          length o2 = sz \<and> N \<le> 4190"
      proof (cases "fl > 0")
        case True
        have "ih + max R fl \<le> length (fr_data e)" "max R fl + length S \<le> 4116" "ih \<le> 60"
          using tot R d S by (auto simp: max_def fl_def ih_def)
        then show ?thesis
          using True emit_safe [OF inv o1(5) assms(6) _ refl, of ih ih R fl "fr_data e" S] S(2) by auto
      next
        case False
        have "14 + ih + length S \<le> length o1" using o1(5) assms(6) d tot S(2) by (simp add: ih_def)
        then show ?thesis using False o1(5) d tot S(2) by (auto simp: ih_def)
      qed
      then obtain o2 N where o2: "(if fl > 0 then frag_emit o1 (14 + ih) (fr_data e) ih fl R S
          else do { q \<leftarrow> wrn o1 (14 + ih) S; Some (q, 14 + ih + length S) }) = Some (o2, N)"
          "length o2 = sz" "N \<le> 4190" by blast
      obtain o3 where o3: "l3_patch_ipv4 o2 14 ih (of_nat (N - 14)) = Some o3" "length o3 = sz"
        using l3_patch_ipv4_total [of 14 ih o2] o2(2) assms(6) d by (fastforce simp: ih_def)
      have 4: "fr_data_len e > ih \<longleftrightarrow> fl > 0" by (auto simp: fl_def)
      have "frag_try_reassemble_l2 now ft pkt pkt_len pkt_id i out =
          Some (1, ft[frag_slot pkt_id := e\<lparr>fr_valid := False\<rparr>], o3[12 := 8, 13 := 0], N)"
        using 2 3 False o1 o2(1) o3 r(1) S assms(6)
        by (cases "fl > 0") (simp_all add: dfn 4 bind_eq_Some_conv flip: pl_def e_def R_def ih_def fl_def
            del: wrn_Some wr_append1 rdn_append1 rdn_Some)
      then show ?thesis using inv o2(3) o3(2) by auto
    qed (use 2 False inv assms(1,5) in \<open>simp_all add: dfn reassembly_safe_def flip: pl_def e_def\<close>)
  next
    case 3
    then show ?thesis using False assms by (simp add: dfn reassembly_safe_def)
  qed
qed



text \<open>
  A buffer of 4096 bytes is too small for what the length check admits: the check counts the
  two halves and not the headers in front of them.
\<close>

theorem l4_reassembly_overflows_4096:
  assumes e: "ft ! frag_slot pkt_id = e" "frag_entry_ok e" "fr_valid e" "fr_pkt_id e = pkt_id"
      "\<not> frag_expired now e" "fr_ip_hdr_len e = 20"
    and e_udp: "fr_orig_proto e = 17" "8 \<le> fr_data_len e"
    and pkt: "be16 (pkt ! 12) (pkt ! 13) = 0x0800" "ihl_bytes (pkt ! 14) = 20" "pkt_len = 38 + n"
      "pkt_len \<le> length pkt"
    and total: "fr_data_len e + n = 4096" and out: "length out = 4096"
  shows "frag_try_reassemble_l4 now ft pkt pkt_len pkt_id 1 out = None"
proof -
  have n: "2496 \<le> n" using e(2) total by (simp add: frag_entry_ok_def)
  have d: "length (fr_data e) = 1600" "length (fr_eth_hdr e) = 14" "length (fr_ip_hdr e) = 60"
      "fr_data_len e \<le> 1600"
    using e(2) by (auto simp: frag_entry_ok_def)
  have tsz: "get_transport_hdr_size (fr_data e) 0 17 (fr_data_len e) = Some 8" "restored_size 8 17 = 8"
    using e_udp by (simp_all add: get_transport_hdr_size_def restored_size_def)
  define S where "S = take n (drop 38 pkt)"
  have S: "rdn pkt 38 n = Some S" "length S = n" using pkt by (simp_all add: S_def)
  have emit: "frag_emit o1 34 (fr_data e) 0 (fr_data_len e) 8 S = None" if "length o1 = 4096" for o1
    using that d e_udp S(2) total by (simp add: frag_emit_def Let_def wrn_def)
  have rds: "rd16 pkt 12 = Some 0x0800" "rd pkt 14 = Some (pkt ! 14)" "\<not> pkt_len < 34"
    "sub32 (pkt_len - 14) 20 - 4 = n" "n > 0"
    using pkt n by simp_all
  have ok: "\<not> (\<not> fr_valid e \<or> fr_pkt_id e \<noteq> pkt_id)"
      "\<not> (frag_expired now e \<or> (fr_data_len e + n) mod 2 ^ 32 < 8 \<or> (fr_data_len e + n) mod 2 ^ 32 > 4096)"
    using e total by auto
  show ?thesis
    using rds pkt(2) ok e(1,6) e_udp(1) tsz S d emit out
    by (simp add: frag_try_reassemble_l4_def Let_def del: rd16_Some rd_Some)
qed

section \<open>Two fragments give the packet back\<close>

text \<open>A transport header as the code measures it.\<close>

definition transport_hdr :: "byte \<Rightarrow> buf \<Rightarrow> bool" where
  "transport_hdr p th \<longleftrightarrow> p = 17 \<and> length th = 8 \<or>
     p = 6 \<and> 20 \<le> length th \<and> ihl_bytes (drop_bit 4 (th ! 12)) = length th"

lemma transport_hdr_len: "transport_hdr p th \<Longrightarrow> 8 \<le> length th \<and> length th \<le> 60"
  using ihl_bytes_le by (auto simp: transport_hdr_def) metis

lemma transport_hdr_size:
  assumes "transport_hdr p th" and "off = length a" and "length th \<le> rem"
  shows "get_transport_hdr_size (a @ th @ c) off p rem = Some (int (length th))"
  using assms by (auto simp: get_transport_hdr_size_def transport_hdr_def ihl_bytes_def nth_append)

lemma restored_size_nonneg [simp]: "restored_size (int n) p = n"
  by (simp add: restored_size_def)

text \<open>Restoring both halves behind a header whose length and checksum are then corrected.\<close>

lemma emit_restored:
  assumes "length H = 14 + ihl" and "12 \<le> ihl" and "r \<le> fl"
    and "take fl (drop data_off data) = first" and "data_off + fl \<le> length data"
    and "14 + ihl + fl + length second \<le> length (H @ X)"
  shows "\<exists>rest. do { (q, off) \<leftarrow> frag_emit (H @ X) (14 + ihl) data data_off fl r second;
      q \<leftarrow> l3_patch_ipv4 q 14 ihl (of_nat (off - 14)); Some (q, off) } =
    Some (patched H 14 ihl (of_nat (ihl + fl + length second)) @ first @ second @ rest,
          14 + ihl + fl + length second)"
proof -
  have r: "max r fl = fl" using assms(3) by simp
  have "frag_emit (H @ X) (14 + ihl) data data_off fl r second =
      Some (H @ first @ second @ drop (fl + length second) X, 14 + ihl + fl + length second)"
    using frag_emit_at [of "14 + ihl" "H @ X" data_off r fl data second] assms r by (simp add: add.assoc)
  moreover have "14 + ihl \<le> length H" using assms(1) by simp
  ultimately show ?thesis using assms(1,2)
    by (simp add: l3_patch_ipv4_patched patched_append add.assoc del: of_nat_add)
qed

lemma l4_reassemble_pair:
  fixes A :: buf
  assumes ft: "frag_table_ok ft" and A: "length A = 14 + ihl" "20 \<le> ihl" "ihl \<le> 60"
      "A ! 12 = 8" "A ! 13 = 0" "ihl_bytes (A ! 14) = ihl" "A ! 23 = p" and ports: "length ports = 4"
    and th: "transport_hdr p th"
    and D0: "take n0 D0 = patched A 14 ihl t0 @ ports @ th @ h1" "n0 = 14 + ihl + 4 + length th + length h1"
    and D1: "take n1 D1 = patched A 14 ihl t1 @ ports @ h2" "n1 = 14 + ihl + 4 + length h2"
    and size: "length th + length h1 \<le> 1600" "length th + length h1 + length h2 \<le> 4096"
    and out: "14 + ihl + length th + length h1 + length h2 \<le> length out"
    and time: "now' - now \<le> FRAG_TIMEOUT_NS"
  shows "\<exists>ft1. frag_try_reassemble_l4 now ft D0 n0 pkt_id 0 out = Some (0, ft1, out, 0) \<and> frag_table_ok ft1 \<and>
    (\<forall>ft2. ft2 ! frag_slot pkt_id = ft1 ! frag_slot pkt_id \<longrightarrow>
       (\<exists>ft3 rest. frag_try_reassemble_l4 now' ft2 D1 n1 pkt_id 1 out =
          Some (1, ft3, patched A 14 ihl (of_nat (ihl + length th + length h1 + length h2)) @
                th @ h1 @ h2 @ rest, 14 + ihl + length th + length h1 + length h2)))"
proof -
  define G0 G1 where "G0 = patched A 14 ihl t0" and "G1 = patched A 14 ihl t1"
  have lenG: "length G0 = 14 + ihl" "length G1 = 14 + ihl" using A by (simp_all add: G0_def G1_def)
  have G: "G0 ! 12 = 8" "G0 ! 13 = 0" "ihl_bytes (G0 ! 14) = ihl" "G0 ! 23 = p"
      "G1 ! 12 = 8" "G1 ! 13 = 0" "ihl_bytes (G1 ! 14) = ihl"
    using A by (simp_all add: G0_def G1_def patched_nth)
  obtain R0 where R0: "D0 = G0 @ ports @ th @ h1 @ R0" using D0(1) append_take_drop_id [of n0 D0]
    by (metis G0_def append.assoc)
  obtain R1 where R1: "D1 = G1 @ ports @ h2 @ R1" using D1(1) append_take_drop_id [of n1 D1]
    by (metis G1_def append.assoc)
  define m where "m = length th + length h1"
  note thl = transport_hdr_len [OF th]
  define e where "e = ft ! frag_slot pkt_id"
  obtain e' where st: "frag_store_pending e pkt_id D0 0 14 ihl p (14 + ihl + 4) m now = Some (0, e')"
      "frag_entry_ok e'" "fr_pkt_id e' = pkt_id" "fr_data_len e' = m" "take m (fr_data e') = th @ h1"
      "fr_eth_hdr e' = take 14 G0" "take ihl (fr_ip_hdr e') = drop 14 G0" "fr_ip_hdr_len e' = ihl"
      "fr_orig_proto e' = p" "fr_timestamp_ns e' = now" "fr_valid e'"
    using frag_store_pending_at [of e 0 D0 14 ihl "14 + ihl + 4" m pkt_id p now] ft A(3) size(1) lenG ports
    by (auto simp: e_def R0 m_def)
  define ft1 where "ft1 = ft[frag_slot pkt_id := e']"
  have rd0: "rd16 D0 12 = Some 0x0800" "rd D0 14 = Some (G0 ! 14)" "rd D0 23 = Some p"
    using lenG G A(2) by (simp_all add: R0 nth_append be16_def)
  have rd1: "rd16 D1 12 = Some 0x0800" "rd D1 14 = Some (G1 ! 14)"
    using lenG G A(2) by (simp_all add: R1 nth_append be16_def)
  have first: "frag_try_reassemble_l4 now ft D0 n0 pkt_id 0 out = Some (0, ft1, out, 0)"
    using rd0 G(3) st(1) D0(2) A(2) thl
    by (simp add: frag_try_reassemble_l4_def Let_def add.assoc add.commute ft1_def m_def flip: e_def)
  have slot: "ft1 ! frag_slot pkt_id = e'" using ft by (simp add: ft1_def frag_table_ok_def)
  have second: "\<exists>ft3 rest. frag_try_reassemble_l4 now' ft2 D1 n1 pkt_id 1 out =
      Some (1, ft3, patched A 14 ihl (of_nat (ihl + length th + length h1 + length h2)) @ th @ h1 @ h2 @ rest,
        14 + ihl + length th + length h1 + length h2)" if ft2: "ft2 ! frag_slot pkt_id = e'" for ft2
  proof -
    have pl: "sub32 (n1 - 14) ihl - 4 = length h2" "\<not> n1 < 34" using D1(2) A(2) by auto
    have ok: "\<not> (\<not> fr_valid e' \<or> fr_pkt_id e' \<noteq> pkt_id)"
        "\<not> (frag_expired now' e' \<or> (fr_data_len e' + length h2) mod 2 ^ 32 < 8 \<or>
            (fr_data_len e' + length h2) mod 2 ^ 32 > 4096)"
      using st(3,4,10,11) time size thl by (auto simp: frag_expired_def m_def)
    have w1: "wrn out 0 (take 14 G0) = Some (take 14 G0 @ drop 14 out)" using out lenG by simp
    have ip: "rdn (fr_ip_hdr e') 0 ihl = Some (drop 14 G0)"
      using st(2,7) A(3) by (simp add: frag_entry_ok_def)
    have "take 14 G0 @ drop 14 G0 @ drop (14 + ihl) out = G0 @ drop (14 + ihl) out"
      by (metis append.assoc append_take_drop_id)
    then have w2: "wrn (take 14 G0 @ drop 14 out) 14 (drop 14 G0) = Some (G0 @ drop (14 + ihl) out)"
      using wrn_end [of 14 "take 14 G0" "drop 14 G0" "drop 14 out"] out lenG by (simp add: add.commute)
    have "fr_data e' = th @ h1 @ drop m (fr_data e')"
      using append_take_drop_id [of m "fr_data e'"] st(5) by simp
    then have tsz: "get_transport_hdr_size (fr_data e') 0 p m = Some (int (length th))"
      using transport_hdr_size [OF th, of 0 "[]" m "h1 @ drop m (fr_data e')"] by (simp add: m_def)
    have rd2: "rdn D1 (14 + ihl + 4) (length h2) = Some h2"
      using rdn_at [of "14 + ihl + 4" "G1 @ ports" "length h2" h2 R1] lenG ports by (simp add: R1)
    have "m \<le> 1600" "length (fr_data e') = 1600" using st(2) size by (auto simp: frag_entry_ok_def m_def)
    then obtain rest where em: "do { (q, off) \<leftarrow> frag_emit (G0 @ drop (14 + ihl) out) (14 + ihl) (fr_data e') 0 m (length th) h2;
        q \<leftarrow> l3_patch_ipv4 q 14 ihl (of_nat (off - 14)); Some (q, off) } =
        Some (patched G0 14 ihl (of_nat (ihl + m + length h2)) @ (th @ h1) @ h2 @ rest, 14 + ihl + m + length h2)"
      using emit_restored [of G0 ihl "length th" m 0 "fr_data e'" "th @ h1" h2 "drop (14 + ihl) out"]
        lenG A(2) st(5) out by (auto simp: m_def)
    have "patched G0 14 ihl t = patched A 14 ihl t" for t
      using A(1,2) by (simp add: G0_def patched_patched)
    then show ?thesis
      using rd1 G(7) pl ok w1 w2 ip tsz rd2 em st(4,6,8,9) ft2
      by (auto simp: frag_try_reassemble_l4_def Let_def m_def bind_eq_Some_conv add.assoc
          simp del: wrn_Some rdn_Some rdn_append1 of_nat_add)
  qed
  show ?thesis using first second slot ft st(2) by (auto simp: ft1_def)
qed

lemma l4_fragment_prefix:
  assumes "length eth = 14" and "length ip = ihl" and "length ports = 4"
  shows "crypto_layer4_encrypt_fragment_single E ctx (eth @ x) (ip @ y) ihl (ports @ z) =
    crypto_layer4_encrypt_fragment_single E ctx eth ip ihl ports"
  using assms by (simp add: crypto_layer4_encrypt_fragment_single_def fun_eq_iff Let_def)

lemma l4_split_halves:
  fixes eth :: buf
  assumes hdrs: "l4_headers eth ip ihl (take 4 th)" "transport_hdr (ip ! 9) th" and app: "app \<noteq> []"
    and len: "pkt_len = 14 + ihl + length th + length app" "pkt_len \<le> 3000"
  defines "half \<equiv> length app div 2"
  shows "frag_split_and_encrypt_l4 E ctx (eth @ ip @ th @ app @ junk) pkt_len frag1 frag2 cnt st =
    encrypt_halves
      (crypto_layer4_encrypt_fragment_single E ctx eth ip ihl (take 4 th) (th @ take half app) (ucast cnt) 0 frag1 2048)
      (crypto_layer4_encrypt_fragment_single E ctx eth ip ihl (take 4 th) (drop half app) (ucast cnt) 1 frag2 2048)
      frag2 (cnt + 1) st"
proof -
  have h: "length eth = 14" "eth ! 12 = 8" "eth ! 13 = 0" "length ip = ihl" "20 \<le> ihl"
      "ihl_bytes (ip ! 0) = ihl" "ip ! 9 = 6 \<or> ip ! 9 = 17" "ihl \<le> 60"
    using hdrs by (auto simp: l4_headers_def)
  note thl = transport_hdr_len [OF hdrs(2)]
  define P where "P = eth @ ip @ th @ app @ junk"
  have P14: "P = eth @ drop 14 P" "drop 14 P = ip @ th @ app @ junk" using h(1) by (simp_all add: P_def)
  have th4: "drop (14 + ihl) P = take 4 th @ drop 4 th @ app @ junk"
    using h(1,4) by (simp add: P_def)
  have rds: "rd16 P 12 = Some 0x0800" "rd P 23 = Some (ip ! 9)" "rd P 14 = Some (ip ! 0)"
    using h by (simp_all add: P_def nth_append be16_def)
  have tsz: "get_transport_hdr_size P (14 + ihl) (ip ! 9) (sub32 pkt_len (14 + ihl)) = Some (int (length th))"
    using transport_hdr_size [OF hdrs(2), of "14 + ihl" "eth @ ip" "sub32 pkt_len (14 + ihl)" "app @ junk"] len(1) h
    by (simp add: P_def)
  have pieces: "rdn P (14 + ihl) (length th) = Some th" "rdn P (14 + ihl + length th) half = Some (take half app)"
      "rdn P (14 + ihl + length th + half) (length app - half) = Some (drop half app)"
    using h(1,4) by (simp_all add: P_def half_def)
  have lens: "sub32 pkt_len (14 + ihl + length th) = length app" "\<not> length th + half > 2048"
      "\<not> pkt_len < 42" "length app \<noteq> 0"
    using len thl h(5) app by (auto simp: half_def)
  have enc: "crypto_layer4_encrypt_fragment_single E ctx P (drop 14 P) ihl (drop (14 + ihl) P) =
      crypto_layer4_encrypt_fragment_single E ctx eth ip ihl (take 4 th)"
    using l4_fragment_prefix [of eth ip ihl "take 4 th" E ctx "drop 14 P" "th @ app @ junk" "drop 4 th @ app @ junk"]
      h thl by (simp only: P14(1,2) [symmetric] th4 [symmetric]) simp
  show ?thesis
    using rds tsz pieces lens h(5-7) enc
    by (simp add: frag_split_and_encrypt_l4_def frag_next_pkt_id_def Let_def flip: P_def half_def
        del: rdn_Some rdn_append1 rd16_Some rd_Some sub32_le) (use h(7) in blast)
qed

text \<open>C3: A datagram that is split, encrypted in two fragments, decrypted and reassembled at layer 4
  comes out as it went in, headers and payload, with the length and checksum fields of its
  IPv4 header recomputed.  Between the two fragments other traffic may change the table, as
  long as it leaves the slot of this packet id alone.\<close>

theorem l4_split_reassemble:
  fixes eth :: buf
  assumes ready: "crypto_ready E st" "crypto_ready E st'" "same_policy st st'"
    and ctx: "ctx_ok ctx" "ctx_ok ctx'" "current_key ctx' = current_key ctx"
    and hdrs: "l4_headers eth ip ihl (take 4 th)" "transport_hdr (ip ! 9) th" and app: "app \<noteq> []"
    and len: "pkt_len = 14 + ihl + length th + length app" "pkt_len \<le> 3000"
    and frames: "2048 \<le> length fa" "2048 \<le> length fb"
    and table: "frag_table_ok ft" "now' - now \<le> FRAG_TIMEOUT_NS" "pkt_len \<le> length out"
  shows "\<exists>f1 f2 d1 d2 n1 n2 sa s1 s2 ft1.
    frag_split_and_encrypt_l4 E ctx (eth @ ip @ th @ app @ junk) pkt_len fa fb cnt st =
      Some (0, (f1, n1 + l4_overhead st + 4), (f2, n2 + l4_overhead st + 4), cnt + 1, sa) \<and>
    crypto_layer4_decrypt_fragment E ctx' f1 (n1 + l4_overhead st + 4) st' = Some (int n1, ucast cnt, 0, d1, s1) \<and>
    crypto_layer4_decrypt_fragment E ctx' f2 (n2 + l4_overhead st + 4) s1 = Some (int n2, ucast cnt, 1, d2, s2) \<and>
    frag_try_reassemble_l4 now ft d1 n1 (ucast cnt) 0 out = Some (0, ft1, out, 0) \<and>
    (\<forall>ft2. ft2 ! frag_slot (ucast cnt) = ft1 ! frag_slot (ucast cnt) \<longrightarrow>
       (\<exists>ft3 rest. frag_try_reassemble_l4 now' ft2 d2 n2 (ucast cnt) 1 out =
          Some (1, ft3, patched (eth @ ip) 14 ihl (of_nat (pkt_len - 14)) @ th @ app @ rest, pkt_len)))"
proof -
  define half where "half = length app div 2"
  note thl = transport_hdr_len [OF hdrs(2)]
  have h: "length eth = 14" "eth ! 12 = 8" "eth ! 13 = 0" "length ip = ihl" "20 \<le> ihl"
      "ihl_bytes (ip ! 0) = ihl" "ip ! 9 = 6 \<or> ip ! 9 = 17" "ihl \<le> 60"
    using hdrs by (auto simp: l4_headers_def)
  have ov: "l4_overhead st \<le> 34" by (rule l4_overhead_le [OF ready(1)])
  let ?p1 = "th @ take half app" and ?p2 = "drop half app"
  have half: "half \<le> length app" "length app - half \<le> half + 1" "half < length app"
    using app by (auto simp: half_def)
  have p1: "?p1 \<noteq> []" "length ?p1 < 65536" "14 + ihl + 4 + l4_overhead st + 4 + length ?p1 \<le> 2048"
    and p2: "?p2 \<noteq> []" "length ?p2 < 65536"
    using thl len ov half h(5,8) by (auto simp: half_def)
  obtain f1 sa d1 s1 n1 where 1: "n1 = 14 + ihl + 4 + length ?p1"
      "crypto_layer4_encrypt_fragment_single E ctx eth ip ihl (take 4 th) ?p1 (ucast cnt) 0 fa 2048 st =
        Some (0, f1, n1 + l4_overhead st + 4, sa)"
      "crypto_layer4_decrypt_fragment E ctx' f1 (n1 + l4_overhead st + 4) st' = Some (int n1, ucast cnt, 0, d1, s1)"
      "take n1 d1 = patched (eth @ ip @ take 4 th) 14 ihl (of_nat (ihl + 4 + length ?p1)) @ ?p1"
      "crypto_ready E sa" "crypto_ready E s1" "same_policy st sa" "same_policy st' s1"
    using l4_fragment_transfer [OF ready ctx hdrs(1) p1 frames(1), of "ucast cnt" 0] by blast
  have pol: "same_policy sa s1" "l4_overhead sa = l4_overhead st"
    using 1(7,8) ready(3) same_policyD [OF 1(7)]
    by (auto simp: l4_overhead_def intro: same_policy_trans same_policy_sym)
  have room2: "14 + ihl + 4 + l4_overhead sa + 4 + length ?p2 \<le> 2048"
    using pol(2) thl len ov half h(5,8) by (auto simp: half_def)
  obtain f2 sb d2 s2 n2 where 2: "n2 = 14 + ihl + 4 + length ?p2"
      "crypto_layer4_encrypt_fragment_single E ctx eth ip ihl (take 4 th) ?p2 (ucast cnt) 1 fb 2048 sa =
        Some (0, f2, n2 + l4_overhead st + 4, sb)"
      "crypto_layer4_decrypt_fragment E ctx' f2 (n2 + l4_overhead st + 4) s1 = Some (int n2, ucast cnt, 1, d2, s2)"
      "take n2 d2 = patched (eth @ ip @ take 4 th) 14 ihl (of_nat (ihl + 4 + length ?p2)) @ ?p2"
    using l4_fragment_transfer [OF 1(5,6) pol(1) ctx hdrs(1) p2 room2 frames(2), of "ucast cnt" 1]
    unfolding pol(2) by blast
  have split: "frag_split_and_encrypt_l4 E ctx (eth @ ip @ th @ app @ junk) pkt_len fa fb cnt st =
      Some (0, (f1, n1 + l4_overhead st + 4), (f2, n2 + l4_overhead st + 4), cnt + 1, sb)"
    using l4_split_halves [OF hdrs app len, of E ctx junk fa fb cnt st] 1(2) 2(2)
    by (simp add: encrypt_halves_def flip: half_def)
  have A: "length (eth @ ip) = 14 + ihl" "(eth @ ip) ! 12 = 8" "(eth @ ip) ! 13 = 0"
      "ihl_bytes ((eth @ ip) ! 14) = ihl" "(eth @ ip) ! 23 = ip ! 9"
    using h by (simp_all add: nth_append)
  have pa: "patched (eth @ ip @ take 4 th) 14 ihl t = patched (eth @ ip) 14 ihl t @ take 4 th" for t
    using patched_append [of ihl 14 "eth @ ip" "take 4 th" t] h by simp
  have ports: "length (take 4 th) = 4" using thl by simp
  have sizes: "length th + length (take half app) \<le> 1600"
      "length th + length (take half app) + length ?p2 \<le> 4096"
      "14 + ihl + length th + length (take half app) + length ?p2 = pkt_len"
      "ihl + length th + length (take half app) + length ?p2 = pkt_len - 14"
    using thl len half h(5,8) by (auto simp: half_def)
  obtain ft1 where "frag_try_reassemble_l4 now ft d1 n1 (ucast cnt) 0 out = Some (0, ft1, out, 0)"
      "\<forall>ft2. ft2 ! frag_slot (ucast cnt) = ft1 ! frag_slot (ucast cnt) \<longrightarrow>
       (\<exists>ft3 rest. frag_try_reassemble_l4 now' ft2 d2 n2 (ucast cnt) 1 out =
          Some (1, ft3, patched (eth @ ip) 14 ihl (of_nat (pkt_len - 14)) @ th @ take half app @ drop half app @ rest,
            pkt_len))"
    using l4_reassemble_pair [OF table(1) A(1) h(5,8) A(2-5) ports hdrs(2), of n1 d1
        "of_nat (ihl + 4 + length ?p1)" "take half app" n2 d2 "of_nat (ihl + 4 + length ?p2)" ?p2 out now' now
        "ucast cnt"] 1(1,4) 2(1,4) table(2,3) sizes
    by (auto simp only: pa sizes append.assoc) (auto simp: add.assoc)
  then show ?thesis using split 1(3) 2(3)
    by (metis (no_types, lifting) append.assoc append_take_drop_id)
qed

text \<open>A datagram of sixteen bytes to run the end-to-end theorems on.\<close>

definition sample_eth :: buf where "sample_eth = [2, 0, 0, 0, 0, 1, 2, 0, 0, 0, 0, 2, 8, 0]"
definition sample_ip :: buf where
  "sample_ip = [0x45, 0, 0, 36, 0, 0, 0, 0, 64, 17, 0, 0, 10, 0, 0, 1, 10, 0, 0, 2]"
definition sample_th :: buf where "sample_th = [0, 80, 0, 81, 0, 16, 0, 0]"
definition sample_app :: buf where "sample_app = [1, 2, 3, 4, 5, 6, 7, 8]"

lemma sample_headers:
  "l4_headers sample_eth sample_ip 20 (take 4 sample_th)" "l3_headers sample_eth sample_ip 20"
  "transport_hdr 17 sample_th" "sample_app \<noteq> []" "length sample_eth = 14"
  "length sample_ip = 20" "length sample_th = 8" "length sample_app = 8" "sample_ip ! 9 = 17"
proof -
  have "ihl_bytes 0x45 = 20" by (simp add: ihl_bytes_def)
  then show "l4_headers sample_eth sample_ip 20 (take 4 sample_th)" "l3_headers sample_eth sample_ip 20"
    by (simp_all add: l4_headers_def l3_headers_def sample_eth_def sample_ip_def sample_th_def)
qed (simp_all add: transport_hdr_def sample_eth_def sample_ip_def sample_th_def sample_app_def)

lemma sample_overheads:
  "l4_overhead sample_st = 30" "l3_overhead sample_st = 30"
  by (simp_all add: l4_overhead_def l3_overhead_def packet_crypto_get_tunnel_hdr_size_def tag_size_def
      is_gcm_mode_def sample_st_def crypto_state_init_def)

theorem l4_split_reassemble_witness:
  "\<exists>f1 f2 d1 d2 n1 n2 sa s1 s2 ft1 ft3 rest.
    frag_split_and_encrypt_l4 sample_evp sample_ctx (sample_eth @ sample_ip @ sample_th @ sample_app) 50
      (replicate 2048 0) (replicate 2048 0) 7 sample_st =
      Some (0, (f1, 34 + n1), (f2, 34 + n2), 8, sa) \<and>
    crypto_layer4_decrypt_fragment sample_evp sample_ctx f1 (34 + n1) sample_st = Some (int n1, 7, 0, d1, s1) \<and>
    crypto_layer4_decrypt_fragment sample_evp sample_ctx f2 (34 + n2) s1 = Some (int n2, 7, 1, d2, s2) \<and>
    frag_try_reassemble_l4 10 frag_table_init d1 n1 7 0 (replicate 100 0) = Some (0, ft1, replicate 100 0, 0) \<and>
    frag_try_reassemble_l4 20 ft1 d2 n2 7 1 (replicate 100 0) =
      Some (1, ft3, patched (sample_eth @ sample_ip) 14 20 36 @ sample_th @ sample_app @ rest, 50)"
proof -
  have "ucast (7 :: u64) = (7 :: u16)" by simp
  then show ?thesis
    using l4_split_reassemble [where E = sample_evp and st = sample_st and st' = sample_st and ctx = sample_ctx and
        ctx' = sample_ctx and eth = sample_eth and ip = sample_ip and ihl = 20 and th = sample_th and
        app = sample_app and junk = "[]" and pkt_len = 50 and fa = "replicate 2048 0" and
        fb = "replicate 2048 0" and ft = frag_table_init and now = 10 and now' = 20 and
        out = "replicate 100 0" and cnt = 7]
    by (simp add: sample_headers sample_overheads) metis
qed

section \<open>Layer 3\<close>

text \<open>
  The clear header of a layer-3 fragment carries the fake protocol, so the receiver guesses
  the protocol from the decrypted bytes: TCP when they pass as a TCP header, else UDP.
\<close>

definition l3_guess :: "buf \<Rightarrow> byte" where
  "l3_guess d = (let u = ihl_bytes (drop_bit 4 (d ! 12))
     in if 20 \<le> length d \<and> 20 \<le> u \<and> u \<le> length d then 6 else 17)"

lemma l3_guess_sizes:
  assumes "off = length a" and "8 \<le> length d"
  shows "\<exists>t r. get_transport_hdr_size (a @ d @ c) off 6 (length d) = Some t \<and>
    get_transport_hdr_size (a @ d @ c) off 17 (length d) = Some 8 \<and>
    (if t \<ge> 0 then 6 else 17) = l3_guess d \<and>
    get_transport_hdr_size (a @ d @ c) off (l3_guess d) (length d) = Some (int r) \<and> r \<le> length d"
proof (cases "20 \<le> length d \<and> 20 \<le> ihl_bytes (drop_bit 4 (d ! 12)) \<and> ihl_bytes (drop_bit 4 (d ! 12)) \<le> length d")
  case True
  have "(a @ d @ c) ! (off + 12) = d ! 12" using True assms by (simp add: nth_append)
  moreover have "off + 12 < length (a @ d @ c)" using True assms by simp
  ultimately show ?thesis using True assms
    by (auto simp: l3_guess_def Let_def get_transport_hdr_size_def ihl_bytes_def
        intro!: exI [of _ "unat (drop_bit 4 (d ! 12) AND 15) * 4"])
next
  case False
  have "(a @ d @ c) ! (off + 12) = d ! 12" if "20 \<le> length d" using that assms by (simp add: nth_append)
  then show ?thesis using False assms
    by (cases "20 \<le> length d") (auto simp: l3_guess_def Let_def get_transport_hdr_size_def ihl_bytes_def
        intro!: exI [of _ "8 :: nat"])
qed

lemma l3_reassemble_pair:
  fixes A :: buf
  assumes ft: "frag_table_ok ft" and A: "length A = 14 + ihl" "20 \<le> ihl" "ihl \<le> 60"
      "A ! 12 = 8" "A ! 13 = 0" "ihl_bytes (A ! 14) = ihl"
    and D0: "take n0 D0 = patched (A[23 := f]) 14 ihl t0 @ d0" "n0 = 14 + ihl + length d0" "8 \<le> length d0"
    and D1: "take n1 D1 = patched (A[23 := f]) 14 ihl t1 @ h2" "n1 = 14 + ihl + length h2"
    and size: "length d0 \<le> 1600" "length d0 + length h2 \<le> 4096"
    and out: "14 + ihl + length d0 + length h2 \<le> length out"
    and time: "now' - now \<le> FRAG_TIMEOUT_NS"
  shows "\<exists>ft1. frag_try_reassemble now ft D0 n0 pkt_id 0 out = Some (0, ft1, out, 0) \<and> frag_table_ok ft1 \<and>
    (\<forall>ft2. ft2 ! frag_slot pkt_id = ft1 ! frag_slot pkt_id \<longrightarrow>
       (\<exists>ft3 rest. frag_try_reassemble now' ft2 D1 n1 pkt_id 1 out =
          Some (1, ft3, patched (A[23 := l3_guess d0]) 14 ihl (of_nat (ihl + length d0 + length h2)) @
                d0 @ h2 @ rest, 14 + ihl + length d0 + length h2)))"
proof -
  define G0 G1 where "G0 = patched (A[23 := f]) 14 ihl t0" and "G1 = patched (A[23 := f]) 14 ihl t1"
  have lenG: "length G0 = 14 + ihl" "length G1 = 14 + ihl" using A by (simp_all add: G0_def G1_def)
  have G: "G0 ! 12 = 8" "G0 ! 13 = 0" "ihl_bytes (G0 ! 14) = ihl"
      "G1 ! 12 = 8" "G1 ! 13 = 0" "ihl_bytes (G1 ! 14) = ihl"
    using A by (simp_all add: G0_def G1_def patched_nth)
  obtain R0 where R0: "D0 = G0 @ d0 @ R0" using D0(1) append_take_drop_id [of n0 D0]
    by (metis G0_def append.assoc)
  obtain R1 where R1: "D1 = G1 @ h2 @ R1" using D1(1) append_take_drop_id [of n1 D1]
    by (metis G1_def append.assoc)
  define m where "m = length d0"
  define e where "e = ft ! frag_slot pkt_id"
  obtain e' where st: "frag_store_pending e pkt_id D0 0 14 ihl (l3_guess d0) (14 + ihl) m now = Some (0, e')"
      "frag_entry_ok e'" "fr_pkt_id e' = pkt_id" "fr_data_len e' = m" "take m (fr_data e') = d0"
      "fr_eth_hdr e' = take 14 G0" "take ihl (fr_ip_hdr e') = drop 14 G0" "fr_ip_hdr_len e' = ihl"
      "fr_orig_proto e' = l3_guess d0" "fr_timestamp_ns e' = now" "fr_valid e'"
    using frag_store_pending_at [of e 0 D0 14 ihl "14 + ihl" m pkt_id "l3_guess d0" now] ft A(3) size(1) lenG
    by (auto simp: e_def R0 m_def)
  define ft1 where "ft1 = ft[frag_slot pkt_id := e']"
  have req0: "frag_require_ipv4 D0 n0 = Some (Some ihl)"
    using lenG G A(2) D0(2) by (subst frag_require_ipv4_eq) (simp_all add: R0 nth_append be16_def)
  have req1: "frag_require_ipv4 D1 n1 = Some (Some ihl)"
    using lenG G A(2) D1(2) by (subst frag_require_ipv4_eq) (simp_all add: R1 nth_append be16_def)
  obtain t r where g: "get_transport_hdr_size D0 (14 + ihl) 6 m = Some t"
      "get_transport_hdr_size D0 (14 + ihl) 17 m = Some 8" "(if t \<ge> 0 then 6 else 17) = l3_guess d0"
    using l3_guess_sizes [of "14 + ihl" G0 d0 R0] lenG D0(3) by (auto simp: R0 m_def)
  have pl0: "n0 - (14 + ihl) = m" using D0(2) by (simp add: m_def)
  have first: "frag_try_reassemble now ft D0 n0 pkt_id 0 out = Some (0, ft1, out, 0)"
    using req0 g st(1) by (simp add: frag_try_reassemble_def Let_def ft1_def pl0 flip: e_def)
  have slot: "ft1 ! frag_slot pkt_id = e'" using ft by (simp add: ft1_def frag_table_ok_def)
  have second: "\<exists>ft3 rest. frag_try_reassemble now' ft2 D1 n1 pkt_id 1 out =
      Some (1, ft3, patched (A[23 := l3_guess d0]) 14 ihl (of_nat (ihl + length d0 + length h2)) @ d0 @ h2 @ rest,
        14 + ihl + length d0 + length h2)" if ft2: "ft2 ! frag_slot pkt_id = e'" for ft2
  proof -
    have pl: "n1 - (14 + ihl) = length h2" using D1(2) by simp
    have ok: "\<not> (\<not> fr_valid e' \<or> fr_pkt_id e' \<noteq> pkt_id)"
        "\<not> (frag_expired now' e' \<or> (fr_data_len e' + length h2) mod 2 ^ 32 > 4096)"
      using st(3,4,10,11) time size by (auto simp: frag_expired_def m_def)
    have w1: "wrn out 0 (take 14 G0) = Some (take 14 G0 @ drop 14 out)" using out lenG by simp
    have ip: "rdn (fr_ip_hdr e') 0 ihl = Some (drop 14 G0)"
      using st(2,7) A(3) by (simp add: frag_entry_ok_def)
    have "take 14 G0 @ drop 14 G0 @ drop (14 + ihl) out = G0 @ drop (14 + ihl) out"
      by (metis append.assoc append_take_drop_id)
    then have w2: "wrn (take 14 G0 @ drop 14 out) 14 (drop 14 G0) = Some (G0 @ drop (14 + ihl) out)"
      using wrn_end [of 14 "take 14 G0" "drop 14 G0" "drop 14 out"] out lenG by (simp add: add.commute)
    define H where "H = G0[23 := l3_guess d0]"
    have w3: "wr (G0 @ drop (14 + ihl) out) 23 (l3_guess d0) = Some (H @ drop (14 + ihl) out)"
      using lenG A(2) by (simp add: H_def list_update_append)
    have "fr_data e' = d0 @ drop m (fr_data e')"
      using append_take_drop_id [of m "fr_data e'"] st(5) by simp
    then obtain r where tsz: "get_transport_hdr_size (fr_data e') 0 (l3_guess d0) m = Some (int r)" "r \<le> m"
      using l3_guess_sizes [of 0 "[]" d0 "drop m (fr_data e')"] D0(3) by (auto simp: m_def)
    have rd2: "rdn D1 (14 + ihl) (length h2) = Some h2"
      using rdn_at [of "14 + ihl" G1 "length h2" h2 R1] lenG by (simp add: R1)
    have "m \<le> 1600" "length (fr_data e') = 1600" using st(2) size by (auto simp: frag_entry_ok_def m_def)
    then obtain rest where em: "do { (q, off) \<leftarrow> frag_emit (H @ drop (14 + ihl) out) (14 + ihl) (fr_data e') 0 m r h2;
        q \<leftarrow> l3_patch_ipv4 q 14 ihl (of_nat (off - 14)); Some (q, off) } =
        Some (patched H 14 ihl (of_nat (ihl + m + length h2)) @ d0 @ h2 @ rest, 14 + ihl + m + length h2)"
      using emit_restored [of H ihl r m 0 "fr_data e'" d0 h2 "drop (14 + ihl) out"]
        lenG A(2) st(5) out tsz(2) by (auto simp: m_def H_def)
    have "patched H 14 ihl t = patched (A[23 := l3_guess d0]) 14 ihl t" for t
      using A(1,2) patched_upd_patched [of ihl 14 "A[23 := f]" 23 t0 "l3_guess d0" t]
      by (simp add: H_def G0_def)
    then show ?thesis
      using req1 pl ok w1 w2 w3 ip tsz(1) rd2 em st(4,6,8,9) ft2
      by (auto simp: frag_try_reassemble_def Let_def m_def bind_eq_Some_conv
          simp del: wrn_Some rdn_Some rdn_append1 of_nat_add wr_append1 wr_Some)
  qed
  show ?thesis using first second slot ft st(2) by (auto simp: ft1_def)
qed

lemma l3_fragment_prefix:
  assumes "length eth = 14" and "length ip = ihl"
  shows "crypto_layer3_encrypt_fragment_single E ctx (eth @ x) (ip @ y) ihl =
    crypto_layer3_encrypt_fragment_single E ctx eth ip ihl"
  using assms by (simp add: crypto_layer3_encrypt_fragment_single_def fun_eq_iff Let_def)

lemma l3_split_halves:
  fixes eth :: buf
  assumes hdrs: "l3_headers eth ip ihl" "transport_hdr (ip ! 9) th" and app: "app \<noteq> []"
    and len: "pkt_len = 14 + ihl + length th + length app" "pkt_len \<le> 3000"
  defines "half \<equiv> length app div 2"
  shows "frag_split_and_encrypt E ctx (eth @ ip @ th @ app @ junk) pkt_len fa fb cnt st =
    encrypt_halves
      (crypto_layer3_encrypt_fragment_single E ctx eth ip ihl (th @ take half app) (ucast cnt) 0 fa 2048)
      (crypto_layer3_encrypt_fragment_single E ctx eth ip ihl (drop half app) (ucast cnt) 1 fb 2048)
      fb (cnt + 1) st"
proof -
  have h: "length eth = 14" "eth ! 12 = 8" "eth ! 13 = 0" "length ip = ihl" "20 \<le> ihl"
      "ihl_bytes (ip ! 0) = ihl" "ihl \<le> 60"
    using hdrs by (auto simp: l3_headers_def)
  have proto: "ip ! 9 = 6 \<or> ip ! 9 = 17" using hdrs(2) by (auto simp: transport_hdr_def)
  note thl = transport_hdr_len [OF hdrs(2)]
  define P where "P = eth @ ip @ th @ app @ junk"
  have P14: "P = eth @ drop 14 P" "drop 14 P = ip @ th @ app @ junk" using h(1) by (simp_all add: P_def)
  have rds: "rd P 23 = Some (ip ! 9)" using h by (simp add: P_def nth_append)
  have req: "frag_require_ipv4 P pkt_len = Some (Some ihl)"
    using h len by (subst frag_require_ipv4_eq) (simp_all add: P_def nth_append be16_def)
  have pl: "pkt_len - (14 + ihl) = length th + length app" using len by simp
  have tsz: "get_transport_hdr_size P (14 + ihl) (ip ! 9) (length th + length app) = Some (int (length th))"
    using transport_hdr_size [OF hdrs(2), of "14 + ihl" "eth @ ip" "length th + length app" "app @ junk"] h
    by (simp add: P_def)
  have pieces: "rdn P (14 + ihl) (length th) = Some th" "rdn P (14 + ihl + length th) half = Some (take half app)"
      "rdn P (14 + ihl + length th + half) (length app - half) = Some (drop half app)"
    using h(1,4) by (simp_all add: P_def half_def)
  have lens: "\<not> length th + half > 2048" "\<not> pkt_len < 42" "length app \<noteq> 0"
    using len thl h(5) app by (auto simp: half_def)
  have enc: "crypto_layer3_encrypt_fragment_single E ctx P (drop 14 P) ihl =
      crypto_layer3_encrypt_fragment_single E ctx eth ip ihl"
    using l3_fragment_prefix [of eth ip ihl E ctx "drop 14 P" "th @ app @ junk"]
      h by (simp only: P14(1,2) [symmetric])
  show ?thesis
    using rds req pl tsz pieces lens h(5-7) enc proto
    by (simp add: frag_split_and_encrypt_def frag_next_pkt_id_def Let_def flip: P_def half_def
        del: rdn_Some rdn_append1 rd16_Some rd_Some) (use proto in blast)
qed

text \<open>C4: At layer 3 the two fragments give the packet back with the protocol field set to the
  guessed protocol.  For TCP the guess is right; for UDP it is right unless the first bytes of
  the datagram pass as a TCP header.\<close>

theorem l3_split_reassemble:
  fixes eth :: buf
  assumes ready: "crypto_ready E st" "crypto_ready E st'" "same_policy st st'"
    and ctx: "ctx_ok ctx" "ctx_ok ctx'" "current_key ctx' = current_key ctx"
    and hdrs: "l3_headers eth ip ihl" "transport_hdr (ip ! 9) th" and app: "app \<noteq> []"
    and len: "pkt_len = 14 + ihl + length th + length app" "pkt_len \<le> 3000"
    and frames: "2048 \<le> length fa" "2048 \<le> length fb"
    and table: "frag_table_ok ft" "now' - now \<le> FRAG_TIMEOUT_NS" "pkt_len \<le> length out"
  shows "\<exists>f1 f2 d1 d2 n1 n2 sa s1 s2 ft1.
    frag_split_and_encrypt E ctx (eth @ ip @ th @ app @ junk) pkt_len fa fb cnt st =
      Some (0, (f1, n1 + l3_overhead st + 4), (f2, n2 + l3_overhead st + 4), cnt + 1, sa) \<and>
    crypto_layer3_decrypt_fragment E ctx' f1 (n1 + l3_overhead st + 4) st' = Some (int n1, ucast cnt, 0, d1, s1) \<and>
    crypto_layer3_decrypt_fragment E ctx' f2 (n2 + l3_overhead st + 4) s1 = Some (int n2, ucast cnt, 1, d2, s2) \<and>
    frag_try_reassemble now ft d1 n1 (ucast cnt) 0 out = Some (0, ft1, out, 0) \<and>
    (\<forall>ft2. ft2 ! frag_slot (ucast cnt) = ft1 ! frag_slot (ucast cnt) \<longrightarrow>
       (\<exists>ft3 rest. frag_try_reassemble now' ft2 d2 n2 (ucast cnt) 1 out =
          Some (1, ft3, patched ((eth @ ip)[23 := l3_guess (th @ take (length app div 2) app)]) 14 ihl
            (of_nat (pkt_len - 14)) @ th @ app @ rest, pkt_len)))"
proof -
  define half where "half = length app div 2"
  note thl = transport_hdr_len [OF hdrs(2)]
  have h: "length eth = 14" "eth ! 12 = 8" "eth ! 13 = 0" "length ip = ihl" "20 \<le> ihl"
      "ihl_bytes (ip ! 0) = ihl" "ihl \<le> 60"
    using hdrs by (auto simp: l3_headers_def)
  have ov: "l3_overhead st \<le> 34"
    using l4_overhead_le [OF ready(1)] by (simp add: l3_overhead_def l4_overhead_def)
  let ?p1 = "th @ take half app" and ?p2 = "drop half app"
  have half: "half \<le> length app" "length app - half \<le> half + 1" "half < length app"
    using app by (auto simp: half_def)
  have p1: "?p1 \<noteq> []" "length ?p1 < 65536" "14 + ihl + l3_overhead st + 4 + length ?p1 \<le> 2048"
    and p2: "?p2 \<noteq> []" "length ?p2 < 65536"
    using thl len ov half h(5,7) by (auto simp: half_def)
  obtain f1 sa d1 s1 n1 where 1: "n1 = 14 + ihl + length ?p1"
      "crypto_layer3_encrypt_fragment_single E ctx eth ip ihl ?p1 (ucast cnt) 0 fa 2048 st =
        Some (0, f1, n1 + l3_overhead st + 4, sa)"
      "crypto_layer3_decrypt_fragment E ctx' f1 (n1 + l3_overhead st + 4) st' = Some (int n1, ucast cnt, 0, d1, s1)"
      "take n1 d1 = patched ((eth @ ip)[23 := g_fake_protocol st]) 14 ihl (of_nat (ihl + length ?p1)) @ ?p1"
      "crypto_ready E sa" "crypto_ready E s1" "same_policy st sa" "same_policy st' s1"
    using l3_fragment_transfer [OF ready ctx hdrs(1) p1 frames(1), of "ucast cnt" 0] by blast
  have pol: "same_policy sa s1" "l3_overhead sa = l3_overhead st" "g_fake_protocol sa = g_fake_protocol st"
    using 1(7,8) ready(3) same_policyD [OF 1(7)]
    by (auto simp: l3_overhead_def intro: same_policy_trans same_policy_sym)
  have room2: "14 + ihl + l3_overhead sa + 4 + length ?p2 \<le> 2048"
    using pol(2) thl len ov half h(5,7) by (auto simp: half_def)
  obtain f2 sb d2 s2 n2 where 2: "n2 = 14 + ihl + length ?p2"
      "crypto_layer3_encrypt_fragment_single E ctx eth ip ihl ?p2 (ucast cnt) 1 fb 2048 sa =
        Some (0, f2, n2 + l3_overhead st + 4, sb)"
      "crypto_layer3_decrypt_fragment E ctx' f2 (n2 + l3_overhead st + 4) s1 = Some (int n2, ucast cnt, 1, d2, s2)"
      "take n2 d2 = patched ((eth @ ip)[23 := g_fake_protocol st]) 14 ihl (of_nat (ihl + length ?p2)) @ ?p2"
    using l3_fragment_transfer [OF 1(5,6) pol(1) ctx hdrs(1) p2 room2 frames(2), of "ucast cnt" 1]
    unfolding pol(2,3) by blast
  have split: "frag_split_and_encrypt E ctx (eth @ ip @ th @ app @ junk) pkt_len fa fb cnt st =
      Some (0, (f1, n1 + l3_overhead st + 4), (f2, n2 + l3_overhead st + 4), cnt + 1, sb)"
    using l3_split_halves [OF hdrs app len, of E ctx junk fa fb cnt st] 1(2) 2(2)
    by (simp add: encrypt_halves_def flip: half_def)
  have A: "length (eth @ ip) = 14 + ihl" "(eth @ ip) ! 12 = 8" "(eth @ ip) ! 13 = 0"
      "ihl_bytes ((eth @ ip) ! 14) = ihl"
    using h by (simp_all add: nth_append)
  have sizes: "length ?p1 \<le> 1600" "length ?p1 + length ?p2 \<le> 4096" "8 \<le> length ?p1"
      "14 + ihl + length ?p1 + length ?p2 = pkt_len" "ihl + length ?p1 + length ?p2 = pkt_len - 14"
    using thl len half h(5,7) by (auto simp: half_def)
  have out: "14 + ihl + length ?p1 + length ?p2 \<le> length out" using sizes(4) table(3) by simp
  obtain ft1 where "frag_try_reassemble now ft d1 n1 (ucast cnt) 0 out = Some (0, ft1, out, 0)"
      "\<forall>ft2. ft2 ! frag_slot (ucast cnt) = ft1 ! frag_slot (ucast cnt) \<longrightarrow>
       (\<exists>ft3 rest. frag_try_reassemble now' ft2 d2 n2 (ucast cnt) 1 out =
          Some (1, ft3, patched ((eth @ ip)[23 := l3_guess ?p1]) 14 ihl (of_nat (pkt_len - 14)) @ ?p1 @ ?p2 @ rest,
            pkt_len))"
    using l3_reassemble_pair [OF table(1) A(1) h(5,7) A(2-4) 1(4,1) sizes(3) 2(4,1) sizes(1,2) out table(2),
        of "ucast cnt"] unfolding sizes(4,5) by blast
  moreover have "?p1 @ ?p2 @ rest = th @ app @ rest" for rest :: buf by simp
  ultimately show ?thesis using split 1(3) 2(3) unfolding half_def by metis
qed

theorem l3_split_reassemble_witness:
  "\<exists>f1 f2 d1 d2 n1 n2 sa s1 s2 ft1 ft3 rest.
    frag_split_and_encrypt sample_evp sample_ctx (sample_eth @ sample_ip @ sample_th @ sample_app) 50
      (replicate 2048 0) (replicate 2048 0) 7 sample_st =
      Some (0, (f1, 34 + n1), (f2, 34 + n2), 8, sa) \<and>
    crypto_layer3_decrypt_fragment sample_evp sample_ctx f1 (34 + n1) sample_st = Some (int n1, 7, 0, d1, s1) \<and>
    crypto_layer3_decrypt_fragment sample_evp sample_ctx f2 (34 + n2) s1 = Some (int n2, 7, 1, d2, s2) \<and>
    frag_try_reassemble 10 frag_table_init d1 n1 7 0 (replicate 100 0) = Some (0, ft1, replicate 100 0, 0) \<and>
    frag_try_reassemble 20 ft1 d2 n2 7 1 (replicate 100 0) =
      Some (1, ft3, patched (sample_eth @ sample_ip) 14 20 36 @ sample_th @ sample_app @ rest, 50)"
proof -
  have "(sample_eth @ sample_ip)[23 := 17] = sample_eth @ sample_ip"
    by (simp add: sample_eth_def sample_ip_def numeral_eq_Suc)
  moreover have "l3_guess (sample_th @ take (length sample_app div 2) sample_app) = 17"
    by (simp add: l3_guess_def Let_def sample_headers)
  moreover have "ucast (7 :: u64) = (7 :: u16)" by simp
  ultimately show ?thesis
    using l3_split_reassemble [where E = sample_evp and st = sample_st and st' = sample_st and ctx = sample_ctx and
        ctx' = sample_ctx and eth = sample_eth and ip = sample_ip and ihl = 20 and th = sample_th and
        app = sample_app and junk = "[]" and pkt_len = 50 and fa = "replicate 2048 0" and
        fb = "replicate 2048 0" and ft = frag_table_init and now = 10 and now' = 20 and
        out = "replicate 100 0" and cnt = 7]
    by (simp add: sample_headers sample_overheads) metis
qed

text \<open>
  A UDP datagram whose ninth to thirteenth payload bytes look like a TCP data offset is
  reassembled as TCP: the protocol field of the delivered packet is wrong.
\<close>

theorem l3_guess_takes_udp_for_tcp:
  assumes "transport_hdr 17 th" and "12 \<le> length d" and "d ! 4 = 0x50"
  shows "l3_guess (th @ d) = 6"
proof -
  have "ihl_bytes (drop_bit 4 (0x50 :: byte)) = 20" by (simp add: ihl_bytes_def)
  then show ?thesis using assms by (simp add: l3_guess_def transport_hdr_def nth_append)
qed

theorem l3_guess_takes_udp_for_tcp_witness:
  "l3_guess (sample_th @ [0, 0, 0, 0, 0x50, 0, 0, 0, 0, 0, 0, 0]) = 6"
  by (rule l3_guess_takes_udp_for_tcp) (simp_all add: sample_headers)

section \<open>Layer 2\<close>

lemma patched_upd_before:
  assumes "i < off"
  shows "(patched b off n t)[i := x] = patched (b[i := x]) off n t"
proof -
  have sw: "xs[off + k := y, i := x] = xs[i := x, off + k := y]" for xs :: buf and k y
    using assms by (simp add: list_update_swap)
  have "drop off (b[i := x, off + 2 := a, off + 3 := c, off + 10 := 0, off + 11 := 0]) =
      drop off (b[off + 2 := a, off + 3 := c, off + 10 := 0, off + 11 := 0])" for a c :: byte
    using assms drop_update_cancel [of i off "b[off + 2 := a, off + 3 := c, off + 10 := 0, off + 11 := 0]" x]
    by (simp only: sw)
  then show ?thesis by (simp only: patched_def Let_def sw)
qed

text \<open>The tail of the first half, behind the IPv4 header: a transport header and data, or at
  least eight bytes of another protocol.\<close>

definition l2_tail_ok :: "byte \<Rightarrow> buf \<Rightarrow> bool" where
  "l2_tail_ok p tail \<longleftrightarrow> (\<exists>th h1. transport_hdr p th \<and> tail = th @ h1) \<or> p \<noteq> 6 \<and> p \<noteq> 17 \<and> 8 \<le> length tail"

lemma l2_tail_size:
  assumes "l2_tail_ok p tail" and "off = length a"
  shows "\<exists>t r. get_transport_hdr_size (a @ tail @ c) off p (length tail) = Some t \<and>
    restored_size t p = r \<and> r \<le> length tail \<and> 0 < length tail"
proof (cases "\<exists>th h1. transport_hdr p th \<and> tail = th @ h1")
  case True
  then obtain th h1 where th: "transport_hdr p th" "tail = th @ h1" by blast
  then show ?thesis
    using transport_hdr_size [OF th(1) assms(2), of "length tail" "h1 @ c"] transport_hdr_len [OF th(1)] by auto
next
  case False
  then show ?thesis using assms by (auto simp: l2_tail_ok_def get_transport_hdr_size_def restored_size_def)
qed

lemma l2_reassemble_pair:
  fixes eth :: buf
  assumes ft: "frag_table_ok ft" and eth: "length eth = 14" "eth ! 12 = 8" "eth ! 13 = 0"
    and ip: "length ip = ihl" "20 \<le> ihl" "ihl \<le> 60" "ihl_bytes (ip ! 0) = ihl" "drop_bit 4 (ip ! 0) = 4"
    and tail: "l2_tail_ok (ip ! 9) tail"
    and D0: "take 12 D0 = take 12 eth" "take (ihl + length tail) (drop 14 D0) = ip @ tail"
      "n0 = 14 + ihl + length tail"
    and D1: "take (length h2) (drop 14 D1) = h2" "n1 = 14 + length h2" "20 \<le> length h2"
    and size: "ihl + length tail \<le> 1600" "ihl + length tail + length h2 \<le> 4096"
    and out: "14 + ihl + length tail + length h2 \<le> length out"
    and time: "now' - now \<le> FRAG_TIMEOUT_NS"
  shows "\<exists>ft1. frag_try_reassemble_l2 now ft D0 n0 pkt_id 0 out = Some (0, ft1, out, 0) \<and> frag_table_ok ft1 \<and>
    (\<forall>ft2. ft2 ! frag_slot pkt_id = ft1 ! frag_slot pkt_id \<longrightarrow>
       (\<exists>ft3 rest. frag_try_reassemble_l2 now' ft2 D1 n1 pkt_id 1 out =
          Some (1, ft3, patched (eth @ ip) 14 ihl (of_nat (ihl + length tail + length h2)) @
                tail @ h2 @ rest, 14 + ihl + length tail + length h2)))"
proof -
  define X R0 where "X = take 14 D0" and "R0 = drop (14 + (ihl + length tail)) D0"
  have "length (take (ihl + length tail) (drop 14 D0)) = ihl + length tail" using D0(2) ip(1) by simp
  then have "14 + (ihl + length tail) \<le> length D0" using ip(2) by (auto simp: min_def split: if_splits)
  then have lenX: "length X = 14" by (simp add: X_def)
  have R0: "D0 = X @ ip @ tail @ R0"
    by (metis D0(2) X_def R0_def append.assoc append_take_drop_id drop_drop add.commute)
  have D1len: "14 + length h2 \<le> length D1"
  proof -
    have "length (take (length h2) (drop 14 D1)) = length h2" using D1(1) by simp
    then show ?thesis using D1(3) by (auto simp: min_def split: if_splits)
  qed
  define m where "m = ihl + length tail"
  define e where "e = ft ! frag_slot pkt_id"
  obtain e' where st: "frag_store_pending e pkt_id D0 0 14 ihl (ip ! 9) 14 m now = Some (0, e')"
      "frag_entry_ok e'" "fr_pkt_id e' = pkt_id" "fr_data_len e' = m" "take m (fr_data e') = ip @ tail"
      "fr_eth_hdr e' = X" "fr_ip_hdr_len e' = ihl"
      "fr_orig_proto e' = ip ! 9" "fr_timestamp_ns e' = now" "fr_valid e'"
    using frag_store_pending_at [of e 0 D0 14 ihl 14 m pkt_id "ip ! 9" now] ft ip(1,3) size(1) lenX
    by (auto simp: e_def R0 m_def)
  define ft1 where "ft1 = ft[frag_slot pkt_id := e']"
  have rds: "rd D0 14 = Some (ip ! 0)" "rd D0 23 = Some (ip ! 9)"
    using lenX ip(1,2) by (simp_all add: R0 nth_append)
  have pl0: "n0 - 14 = m" "\<not> n0 < 34" "\<not> m < 20" "\<not> m < ihl" using D0(3) ip(2) by (auto simp: m_def)
  have first: "frag_try_reassemble_l2 now ft D0 n0 pkt_id 0 out = Some (0, ft1, out, 0)"
    using rds ip(2,4,5) pl0 st(1)
    by (simp add: frag_try_reassemble_l2_def crypto_layer2_wire_eth_len_def Let_def ft1_def flip: e_def)
  have slot: "ft1 ! frag_slot pkt_id = e'" using ft by (simp add: ft1_def frag_table_ok_def)
  have second: "\<exists>ft3 rest. frag_try_reassemble_l2 now' ft2 D1 n1 pkt_id 1 out =
      Some (1, ft3, patched (eth @ ip) 14 ihl (of_nat (ihl + length tail + length h2)) @ tail @ h2 @ rest,
        14 + ihl + length tail + length h2)" if ft2: "ft2 ! frag_slot pkt_id = e'" for ft2
  proof -
    have pl: "n1 - 14 = length h2" "\<not> n1 < 34" using D1(2,3) by auto
    have ok: "\<not> (\<not> fr_valid e' \<or> fr_pkt_id e' \<noteq> pkt_id)"
        "\<not> (frag_expired now' e' \<or> (fr_data_len e' + length h2) mod 2 ^ 32 > 4096)"
      using st(3,4,9,10) time size by (auto simp: frag_expired_def m_def)
    have d: "m \<le> 1600" "length (fr_data e') = 1600" using st(2) size by (auto simp: frag_entry_ok_def m_def)
    have data: "fr_data e' = ip @ tail @ drop m (fr_data e')"
      using append_take_drop_id [of m "fr_data e'"] st(5) by simp
    have w1: "rdn X 0 14 = Some X" "wrn out 0 X = Some (X @ drop 14 out)" using out lenX by simp_all
    have rdip: "rdn (fr_data e') 0 ihl = Some ip"
      using rdn_at [of 0 "[]" ihl ip "tail @ drop m (fr_data e')"] ip(1) data by simp
    have w2: "wrn (X @ drop 14 out) 14 ip = Some ((X @ ip) @ drop (14 + ihl) out)"
      using wrn_end [of 14 X ip "drop 14 out"] out lenX ip(1) by (simp add: add.commute)
    obtain t r where tsz: "get_transport_hdr_size (fr_data e') ihl (ip ! 9) (length tail) = Some t"
        "restored_size t (ip ! 9) = r" "r \<le> length tail" "0 < length tail"
      using l2_tail_size [OF tail, of ihl ip "drop m (fr_data e')"] ip(1) data by auto
    have rd2: "rdn D1 14 (length h2) = Some h2" using D1(1) D1len by simp
    have "take (length tail) (drop ihl (fr_data e')) = tail"
      using ip(1) by (subst data) simp
    then obtain rest where em: "do { (q, off) \<leftarrow> frag_emit ((X @ ip) @ drop (14 + ihl) out) (14 + ihl)
            (fr_data e') ihl (length tail) r h2;
        q \<leftarrow> l3_patch_ipv4 q 14 ihl (of_nat (off - 14)); Some (q, off) } =
        Some (patched (X @ ip) 14 ihl (of_nat (ihl + length tail + length h2)) @ tail @ h2 @ rest,
          14 + ihl + length tail + length h2)"
      using emit_restored [of "X @ ip" ihl r "length tail" ihl "fr_data e'" tail h2 "drop (14 + ihl) out"]
        lenX ip(1,2) out tsz(3) d m_def by auto
    have tail_len: "m - ihl = length tail" "ihl < m" using tsz(4) by (simp_all add: m_def)
    have X': "X[12 := 8, 13 := 0] = eth"
    proof (rule nth_equalityI)
      fix i assume "i < length (X[12 := 8, 13 := 0])"
      then consider "i < 12" | "i = 12" | "i = 13" using lenX by fastforce
      then show "X[12 := 8, 13 := 0] ! i = eth ! i"
      proof cases
        case 1
        have "take 12 X = take 12 eth" using D0(1) by (simp add: X_def)
        then have "X ! i = eth ! i" using 1 by (metis nth_take)
        then show ?thesis using 1 by simp
      qed (use lenX eth in auto)
    qed (use lenX eth in auto)
    define Q where "Q = patched (X @ ip) 14 ihl (of_nat (ihl + length tail + length h2))"
    have lenQ: "length Q = 14 + ihl" using lenX ip(1) by (simp add: Q_def)
    have Q: "Q[12 := 8, 13 := 0] = patched (eth @ ip) 14 ihl (of_nat (ihl + length tail + length h2))"
      using X' lenX by (simp add: Q_def patched_upd_before list_update_append del: of_nat_add)
    obtain q off where q: "frag_emit ((X @ ip) @ drop (14 + ihl) out) (14 + ihl) (fr_data e') ihl (length tail) r h2
          = Some (q, off)" "l3_patch_ipv4 q 14 ihl (of_nat (off - 14)) = Some (Q @ tail @ h2 @ rest)"
        "off = 14 + ihl + length tail + length h2"
      using em by (auto simp: bind_eq_Some_conv Q_def simp del: of_nat_add)
    have w3: "wr (Q @ tail @ h2 @ rest) 12 8 = Some (Q[12 := 8] @ tail @ h2 @ rest)"
        "wr (Q[12 := 8] @ tail @ h2 @ rest) 13 0 = Some (Q[12 := 8, 13 := 0] @ tail @ h2 @ rest)"
      using lenQ ip(2) by (simp_all add: list_update_append)
    have "frag_try_reassemble_l2 now' ft2 D1 n1 pkt_id 1 out =
        Some (1, ft2[frag_slot pkt_id := e'\<lparr>fr_valid := False\<rparr>], Q[12 := 8, 13 := 0] @ tail @ h2 @ rest, off)"
      using pl ok w1 w2 w3 rdip tsz(1,2) rd2 q(1,2) st(4,6,7,8) ft2 tail_len
      by (simp add: frag_try_reassemble_l2_def crypto_layer2_wire_eth_len_def Let_def
          del: wrn_Some rdn_Some rdn_append1 wr_append1 wr_Some append_assoc)
    then show ?thesis unfolding Q q(3) by blast
  qed
  show ?thesis using first second slot ft st(2) by (auto simp: ft1_def)
qed

lemma l2_fragment_prefix:
  "length eth = 14 \<Longrightarrow> crypto_layer2_encrypt_fragment_single E ctx (eth @ x) =
    crypto_layer2_encrypt_fragment_single E ctx eth"
  by (simp add: crypto_layer2_encrypt_fragment_single_def fun_eq_iff Let_def pkt_is_ipv4_eth_def
      l2_fake_marker_byte_def nth_append)

definition l2_payload_hdr :: "byte \<Rightarrow> buf \<Rightarrow> bool" where
  "l2_payload_hdr p th \<longleftrightarrow> transport_hdr p th \<or> p \<noteq> 6 \<and> p \<noteq> 17 \<and> th = []"

lemma l2_split_halves:
  fixes eth :: buf
  assumes hdrs: "l3_headers eth ip ihl" "l2_payload_hdr (ip ! 9) th" and app: "app \<noteq> []"
    and len: "pkt_len = 14 + ihl + length th + length app" "pkt_len \<le> 3000"
  defines "half \<equiv> length app div 2"
  shows "frag_split_and_encrypt_l2 E ctx (eth @ ip @ th @ app @ junk) pkt_len fa fb cnt st =
    encrypt_halves
      (crypto_layer2_encrypt_fragment_single E ctx eth (ip @ th @ take half app) (ucast cnt) 0 fa 2048)
      (crypto_layer2_encrypt_fragment_single E ctx eth (drop half app) (ucast cnt) 1 fb 2048)
      fb (cnt + 1) st"
proof -
  have h: "length eth = 14" "eth ! 12 = 8" "eth ! 13 = 0" "length ip = ihl" "20 \<le> ihl"
      "ihl_bytes (ip ! 0) = ihl" "ihl \<le> 60"
    using hdrs by (auto simp: l3_headers_def)
  have thl: "length th \<le> 60" using hdrs(2) transport_hdr_len by (auto simp: l2_payload_hdr_def)
  define P where "P = eth @ ip @ th @ app @ junk"
  have P14: "P = eth @ drop 14 P" using h(1) by (simp add: P_def)
  have rds: "rd P 23 = Some (ip ! 9)" using h by (simp add: P_def nth_append)
  have req: "frag_require_ipv4 P pkt_len = Some (Some ihl)"
    using h len by (subst frag_require_ipv4_eq) (simp_all add: P_def nth_append be16_def)
  have pl: "pkt_len - (14 + ihl) = length th + length app" using len by simp
  have pieces: "rdn P 14 ihl = Some ip" "rdn P (14 + ihl) (length th) = Some th"
      "rdn P (14 + ihl + length th) half = Some (take half app)"
      "rdn P (14 + ihl + length th + half) (length app - half) = Some (drop half app)"
    using h(1,4) by (simp_all add: P_def half_def)
  have lens: "\<not> ihl + length th + half > 2048" "\<not> pkt_len < 34" "length app \<noteq> 0"
    using len thl h(5,7) app by (auto simp: half_def)
  have enc: "crypto_layer2_encrypt_fragment_single E ctx P = crypto_layer2_encrypt_fragment_single E ctx eth"
    using l2_fragment_prefix [OF h(1), of E ctx "drop 14 P"] by (simp only: P14 [symmetric])
  show ?thesis
  proof (cases "transport_hdr (ip ! 9) th")
    case True
    then have proto: "ip ! 9 = 6 \<or> ip ! 9 = 17" by (auto simp: transport_hdr_def)
    have tsz: "get_transport_hdr_size P (14 + ihl) (ip ! 9) (length th + length app) = Some (int (length th))"
      using transport_hdr_size [OF True, of "14 + ihl" "eth @ ip" "length th + length app" "app @ junk"] h
      by (simp add: P_def)
    show ?thesis
      using rds req pl tsz pieces lens enc proto
      by (simp add: frag_split_and_encrypt_l2_def frag_next_pkt_id_def Let_def flip: P_def half_def
          del: rdn_Some rdn_append1 rd16_Some rd_Some)
  next
    case False
    then have "ip ! 9 \<noteq> 6" "ip ! 9 \<noteq> 17" "th = []" using hdrs(2) by (auto simp: l2_payload_hdr_def)
    moreover have "\<not> pkt_len \<le> 14 + ihl" using len app by simp
    ultimately show ?thesis
      using rds req pl pieces lens enc unfolding P_def [symmetric]
      by (simp add: frag_split_and_encrypt_l2_def frag_next_pkt_id_def Let_def flip: half_def
          del: rdn_Some rdn_append1 rd16_Some rd_Some)
  qed
qed

text \<open>C5: At layer 2 the two fragments give back an IPv4 packet of any protocol, the Ethernet and IP
  headers included.  The receiver drops a second half of fewer than twenty bytes, hence the
  lower bound on the payload.\<close>

theorem l2_split_reassemble:
  fixes eth :: buf
  assumes ready: "crypto_ready E st" "crypto_ready E st'" "same_policy st st'"
    and ctx: "ctx_ok ctx" "ctx_ok ctx'" "current_key ctx' = current_key ctx"
    and fake: "g_fake_ethertype_ipv4 st \<noteq> 0"
    and hdrs: "l3_headers eth ip ihl" "drop_bit 4 (ip ! 0) = 4" "l2_payload_hdr (ip ! 9) th"
    and app: "40 \<le> length app"
    and len: "pkt_len = 14 + ihl + length th + length app" "pkt_len \<le> 3000"
    and frames: "2048 \<le> length fa" "2048 \<le> length fb"
    and table: "frag_table_ok ft" "now' - now \<le> FRAG_TIMEOUT_NS" "pkt_len \<le> length out"
  shows "\<exists>f1 f2 d1 d2 n1 n2 sa s1 s2 ft1.
    frag_split_and_encrypt_l2 E ctx (eth @ ip @ th @ app @ junk) pkt_len fa fb cnt st =
      Some (0, (f1, n1 + l2_overhead st + 5), (f2, n2 + l2_overhead st + 5), cnt + 1, sa) \<and>
    crypto_layer2_decrypt_fragment E ctx' f1 (n1 + l2_overhead st + 5) st' = Some (int n1, ucast cnt, 0, d1, s1) \<and>
    crypto_layer2_decrypt_fragment E ctx' f2 (n2 + l2_overhead st + 5) s1 = Some (int n2, ucast cnt, 1, d2, s2) \<and>
    frag_try_reassemble_l2 now ft d1 n1 (ucast cnt) 0 out = Some (0, ft1, out, 0) \<and>
    (\<forall>ft2. ft2 ! frag_slot (ucast cnt) = ft1 ! frag_slot (ucast cnt) \<longrightarrow>
       (\<exists>ft3 rest. frag_try_reassemble_l2 now' ft2 d2 n2 (ucast cnt) 1 out =
          Some (1, ft3, patched (eth @ ip) 14 ihl (of_nat (pkt_len - 14)) @ th @ app @ rest, pkt_len)))"
proof -
  define half where "half = length app div 2"
  have thl: "length th \<le> 60" using hdrs(3) transport_hdr_len by (auto simp: l2_payload_hdr_def)
  have h: "length eth = 14" "eth ! 12 = 8" "eth ! 13 = 0" "length ip = ihl" "20 \<le> ihl"
      "ihl_bytes (ip ! 0) = ihl" "ihl \<le> 60"
    using hdrs by (auto simp: l3_headers_def)
  have ov: "l2_overhead st \<le> 34"
    using l4_overhead_le [OF ready(1)]
    by (simp add: l2_overhead_def l4_overhead_def packet_crypto_get_tunnel_hdr_size_def)
  let ?p1 = "ip @ th @ take half app" and ?p2 = "drop half app" and ?tail = "th @ take half app"
  have half: "half \<le> length app" "length app - half \<le> half + 1" "20 \<le> length app - half" "20 \<le> half"
    and nonempty: "app \<noteq> []"
    using app by (auto simp: half_def)
  have p1: "?p1 \<noteq> []" "length ?p1 < 65536" "14 + l2_overhead st + 5 + length ?p1 \<le> 2048"
    and p2: "?p2 \<noteq> []" "length ?p2 < 65536"
    using thl len ov half h(4,5,7) by (auto simp: half_def)
  obtain f1 sa d1 s1 n1 where 1: "n1 = 14 + length ?p1"
      "crypto_layer2_encrypt_fragment_single E ctx eth ?p1 (ucast cnt) 0 fa 2048 st =
        Some (0, f1, n1 + l2_overhead st + 5, sa)"
      "crypto_layer2_decrypt_fragment E ctx' f1 (n1 + l2_overhead st + 5) st' = Some (int n1, ucast cnt, 0, d1, s1)"
      "take 12 d1 = take 12 eth" "take (length ?p1) (drop 14 d1) = ?p1"
      "crypto_ready E sa" "crypto_ready E s1" "same_policy st sa" "same_policy st' s1"
    using l2_fragment_transfer [OF ready ctx h(1-3) fake p1 frames(1), of "ucast cnt" 0] by blast
  have pol: "same_policy sa s1" "l2_overhead sa = l2_overhead st" "g_fake_ethertype_ipv4 sa \<noteq> 0"
    using 1(8,9) ready(3) same_policyD [OF 1(8)] fake
    by (auto simp: l2_overhead_def intro: same_policy_trans same_policy_sym)
  have room2: "14 + l2_overhead sa + 5 + length ?p2 \<le> 2048"
    using pol(2) thl len ov half h(5,7) by (auto simp: half_def)
  obtain f2 sb d2 s2 n2 where 2: "n2 = 14 + length ?p2"
      "crypto_layer2_encrypt_fragment_single E ctx eth ?p2 (ucast cnt) 1 fb 2048 sa =
        Some (0, f2, n2 + l2_overhead st + 5, sb)"
      "crypto_layer2_decrypt_fragment E ctx' f2 (n2 + l2_overhead st + 5) s1 = Some (int n2, ucast cnt, 1, d2, s2)"
      "take (length ?p2) (drop 14 d2) = ?p2"
    using l2_fragment_transfer [OF 1(6,7) pol(1) ctx h(1-3) pol(3) p2 room2 frames(2), of "ucast cnt" 1]
    unfolding pol(2) by blast
  have split: "frag_split_and_encrypt_l2 E ctx (eth @ ip @ th @ app @ junk) pkt_len fa fb cnt st =
      Some (0, (f1, n1 + l2_overhead st + 5), (f2, n2 + l2_overhead st + 5), cnt + 1, sb)"
    using l2_split_halves [OF hdrs(1,3) nonempty len, of E ctx junk fa fb cnt st] 1(2) 2(2)
    by (simp add: encrypt_halves_def flip: half_def)
  have sizes: "ihl + length ?tail \<le> 1600" "ihl + length ?tail + length ?p2 \<le> 4096"
      "14 + ihl + length ?tail + length ?p2 = pkt_len" "ihl + length ?tail + length ?p2 = pkt_len - 14"
      "20 \<le> length ?p2"
    using thl len half h(5,7) by (auto simp: half_def)
  have tail: "l2_tail_ok (ip ! 9) ?tail"
    using hdrs(3) half by (auto simp: l2_tail_ok_def l2_payload_hdr_def)
  have p1': "take (ihl + length ?tail) (drop 14 d1) = ip @ ?tail" "n1 = 14 + ihl + length ?tail"
    using 1(1,5) h(4) by auto
  have out: "14 + ihl + length ?tail + length ?p2 \<le> length out" using sizes(3) table(3) by simp
  obtain ft1 where "frag_try_reassemble_l2 now ft d1 n1 (ucast cnt) 0 out = Some (0, ft1, out, 0)"
      "\<forall>ft2. ft2 ! frag_slot (ucast cnt) = ft1 ! frag_slot (ucast cnt) \<longrightarrow>
       (\<exists>ft3 rest. frag_try_reassemble_l2 now' ft2 d2 n2 (ucast cnt) 1 out =
          Some (1, ft3, patched (eth @ ip) 14 ihl (of_nat (pkt_len - 14)) @ ?tail @ ?p2 @ rest, pkt_len))"
    using l2_reassemble_pair [OF table(1) h(1-5,7,6) hdrs(2) tail 1(4) p1' 2(4,1) sizes(5,1,2) out table(2),
        of "ucast cnt"] unfolding sizes(3,4) by blast
  moreover have "?tail @ ?p2 @ rest = th @ app @ rest" for rest :: buf by simp
  ultimately show ?thesis using split 1(3) 2(3) by metis
qed

theorem l2_split_reassemble_witness:
  "\<exists>f1 f2 d1 d2 n1 n2 sa s1 s2 ft1 ft3 rest.
    frag_split_and_encrypt_l2 sample_evp sample_ctx (sample_eth @ sample_ip @ sample_th @ replicate 40 5) 82
      (replicate 2048 0) (replicate 2048 0) 7 sample_st =
      Some (0, (f1, 33 + n1), (f2, 33 + n2), 8, sa) \<and>
    crypto_layer2_decrypt_fragment sample_evp sample_ctx f1 (33 + n1) sample_st = Some (int n1, 7, 0, d1, s1) \<and>
    crypto_layer2_decrypt_fragment sample_evp sample_ctx f2 (33 + n2) s1 = Some (int n2, 7, 1, d2, s2) \<and>
    frag_try_reassemble_l2 10 frag_table_init d1 n1 7 0 (replicate 100 0) = Some (0, ft1, replicate 100 0, 0) \<and>
    frag_try_reassemble_l2 20 ft1 d2 n2 7 1 (replicate 100 0) =
      Some (1, ft3, patched (sample_eth @ sample_ip) 14 20 68 @ sample_th @ replicate 40 5 @ rest, 82)"
proof -
  have "l2_overhead sample_st = 28"
    by (simp add: l2_overhead_def tag_size_def is_gcm_mode_def sample_st_def crypto_state_init_def)
  moreover have "g_fake_ethertype_ipv4 sample_st \<noteq> 0" by (simp add: sample_st_def)
  moreover have "drop_bit 4 (sample_ip ! 0) = 4" by (simp add: sample_ip_def)
  moreover have "l2_payload_hdr 17 sample_th" by (simp add: l2_payload_hdr_def sample_headers)
  moreover have "ucast (7 :: u64) = (7 :: u16)" by simp
  ultimately show ?thesis
    using l2_split_reassemble [where E = sample_evp and st = sample_st and st' = sample_st and ctx = sample_ctx and
        ctx' = sample_ctx and eth = sample_eth and ip = sample_ip and ihl = 20 and th = sample_th and
        app = "replicate 40 5" and junk = "[]" and pkt_len = 82 and fa = "replicate 2048 0" and
        fb = "replicate 2048 0" and ft = frag_table_init and now = 10 and now' = 20 and
        out = "replicate 100 0" and cnt = 7]
    by (simp add: sample_headers) metis
qed

end
