(* ===== verification/Dispatch.thy ===== *)
theory Dispatch
  imports Layer2 Layer3 Layer4
begin

text \<open>
  Choosing the policy and the key of a received packet, \<^verbatim>\<open>src/crypto/crypto_dispatch.c\<close>, with the
  layer switch of \<^verbatim>\<open>packet_encrypt\<close> and \<^verbatim>\<open>packet_decrypt\<close> from \<^verbatim>\<open>src/crypto/packet_crypto.c\<close>.

  The constant \<^verbatim>\<open>CRYPTO_L3_TUNNEL_MAGIC\<close> that the layer-3 lookup compares with is declared
  nowhere in the repository; it is the parameter \<open>l3_magic\<close>.
\<close>

section \<open>The layer switch\<close>

definition packet_encrypt :: "evp \<Rightarrow> packet_crypto_ctx \<Rightarrow> buf \<Rightarrow> nat \<Rightarrow> crypto_state \<Rightarrow> crypto_result" where
  "packet_encrypt E ctx packet pkt_len st =
     (if g_encrypt_layer st = 2 then crypto_layer2_encrypt E ctx packet pkt_len st
      else if g_encrypt_layer st = 3 then crypto_layer3_encrypt E ctx packet pkt_len st
      else if g_encrypt_layer st = 4 then crypto_layer4_encrypt E ctx packet pkt_len st
      else Some (-1, packet, st))"

definition packet_decrypt :: "evp \<Rightarrow> packet_crypto_ctx \<Rightarrow> buf \<Rightarrow> nat \<Rightarrow> crypto_state \<Rightarrow> crypto_result" where
  "packet_decrypt E ctx packet pkt_len st =
     (if g_encrypt_layer st = 2 then crypto_layer2_decrypt E ctx packet pkt_len st
      else if g_encrypt_layer st = 3 then crypto_layer3_decrypt E ctx packet pkt_len st
      else if g_encrypt_layer st = 4 then crypto_layer4_decrypt E ctx packet pkt_len st
      else Some (-1, packet, st))"

section \<open>Policy tables\<close>

text \<open>
  A set of policies with their key contexts and the index from action and wire id; -1 marks
  an absent policy.
\<close>

record policy_table =
  pt_policies :: "crypto_policy list"
  pt_ctx :: "packet_crypto_ctx list"
  pt_ready :: "bool list"
  pt_index :: "nat \<Rightarrow> byte \<Rightarrow> int"

record crypto_dispatch_ctx =
  dc_base_ctx :: packet_crypto_ctx
  dc_current :: policy_table
  dc_prev :: policy_table
  dc_prev_grace_active :: bool

definition lookup_policy_index :: "policy_table \<Rightarrow> int \<Rightarrow> byte \<Rightarrow> int" where
  "lookup_policy_index t action_layer policy_id =
     (let n = int (length (pt_policies t));
          pi = pt_index t (nat action_layer) policy_id;
          scan = find (\<lambda>i. cp_action (pt_policies t ! i) = action_layer \<and> wire_id (pt_policies t ! i) = policy_id)
                   [0..<min (length (pt_policies t)) MAX_CRYPTO_POLICIES]
      in if n \<le> 0 then -1
         else if 0 \<le> action_layer \<and> action_layer \<le> POLICY_ACTION_ENCRYPT_L4 \<and> 0 \<le> pi \<and> pi < n then pi
         else case scan of None \<Rightarrow> -1 | Some i \<Rightarrow> int i)"

section \<open>Reading the policy id off the wire\<close>

text \<open>The id, or \<^term>\<open>None\<close> inside for the return value -1.\<close>

definition crypto_l3_extract_policy_id ::
    "byte \<Rightarrow> crypto_state \<Rightarrow> crypto_policy list \<Rightarrow> buf \<Rightarrow> nat \<Rightarrow> byte option option" where
  "crypto_l3_extract_policy_id l3_magic st policies pkt pkt_len =
     (if pkt_len < 14 + 20 then Some None
      else do {
        et \<leftarrow> rd16 pkt 12;
        vihl \<leftarrow> rd pkt 14;
        proto \<leftarrow> rd pkt 23;
        let ip_hdr_len = ihl_bytes vihl;
        let marker = (if g_fake_protocol st = 0 then 99 else g_fake_protocol st);
        let tunnel_off = 14 + ip_hdr_len;
        if et \<noteq> 0x0800 \<or> ip_hdr_len < 20 \<or> pkt_len < 14 + ip_hdr_len + 1 then Some None
        else if proto \<noteq> marker \<or> pkt_len < tunnel_off + packet_crypto_get_tunnel_hdr_size st then Some None
        else do {
          cp \<leftarrow> first_policy (tunnel_match POLICY_ACTION_ENCRYPT_L3 l3_magic pkt pkt_len tunnel_off)
                (take MAX_CRYPTO_POLICIES policies);
          Some (map_option wire_id cp)
        }
      })"

text \<open>The id and \<^verbatim>\<open>*nonce_size_out\<close>.\<close>

definition crypto_l4_extract_policy_id_ipv4 ::
    "crypto_policy list \<Rightarrow> buf \<Rightarrow> nat \<Rightarrow> (byte \<times> nat) option option" where
  "crypto_l4_extract_policy_id_ipv4 policies pkt pkt_len = do {
     l3 \<leftarrow> crypto_eth_ipv4_offset pkt pkt_len;
     let l3_off = nat l3;
     if l3 < 0 \<or> pkt_len < l3_off + 20 then Some None
     else do {
       vihl \<leftarrow> rd pkt l3_off;
       proto \<leftarrow> rd pkt (l3_off + 9);
       let ip_hdr_len = ihl_bytes vihl;
       let tunnel_off = l3_off + ip_hdr_len + L4_WIRE_PORT_LEN;
       if ip_hdr_len < 20 \<or> pkt_len < l3_off + ip_hdr_len + 8 \<or> proto \<noteq> 6 \<and> proto \<noteq> 17 then Some None
       else if tunnel_off \<ge> pkt_len then Some None
       else do {
         cp \<leftarrow> first_policy (tunnel_match POLICY_ACTION_ENCRYPT_L4 CRYPTO_L4_TUNNEL_MAGIC pkt pkt_len tunnel_off)
                (take MAX_CRYPTO_POLICIES policies);
         Some (map_option (\<lambda>cp. (wire_id cp, cp_nonce_size cp)) cp)
       }
     }
   }"

section \<open>Decrypting\<close>

text \<open>The result: return value, packet, \<^verbatim>\<open>*pkt_len\<close> and the thread's state.\<close>

type_synonym dispatch_result = "(int \<times> buf \<times> nat \<times> crypto_state) option"
type_synonym layer_decrypt = "packet_crypto_ctx \<Rightarrow> buf \<Rightarrow> nat \<Rightarrow> crypto_state \<Rightarrow> crypto_result"

text \<open>
  One attempt with one policy table: the entry must be ready and pass a further test; the new
  length must be non-negative and smaller than the old.  A failed attempt leaves its traces in
  the packet and in the thread's settings.
\<close>

definition dispatch_try ::
    "layer_decrypt \<Rightarrow> (crypto_policy \<Rightarrow> bool) \<Rightarrow> policy_table \<Rightarrow> int \<Rightarrow> buf \<Rightarrow> nat \<Rightarrow> crypto_state \<Rightarrow>
     (nat option \<times> buf \<times> crypto_state) option" where
  "dispatch_try dec guard t pi pkt pkt_len st =
     (if pi < 0 then Some (None, pkt, st)
      else do {
        ready \<leftarrow> at (pt_ready t) (nat pi);
        if \<not> ready then Some (None, pkt, st)
        else do {
          cp \<leftarrow> at (pt_policies t) (nat pi);
          ctx \<leftarrow> at (pt_ctx t) (nat pi);
          if \<not> guard cp then Some (None, pkt, st)
          else do {
            (new_len, pkt, st) \<leftarrow> dec ctx pkt pkt_len (crypto_apply_from_policy cp st);
            if 0 \<le> new_len \<and> new_len < c_int pkt_len then Some (Some (nat new_len), pkt, st)
            else Some (None, pkt, st)
          }
        }
      })"

definition dispatch_tables ::
    "layer_decrypt \<Rightarrow> (crypto_policy \<Rightarrow> bool) \<Rightarrow> crypto_dispatch_ctx \<Rightarrow> int \<Rightarrow> byte \<Rightarrow> buf \<Rightarrow> nat \<Rightarrow> crypto_state \<Rightarrow>
     dispatch_result" where
  "dispatch_tables dec guard dctx action_layer policy_id pkt pkt_len st = do {
     (new_len, pkt, st) \<leftarrow> dispatch_try dec guard (dc_current dctx)
                           (lookup_policy_index (dc_current dctx) action_layer policy_id) pkt pkt_len st;
     case new_len of
       Some n \<Rightarrow> Some (0, pkt, n, st)
     | None \<Rightarrow>
         if dc_prev_grace_active dctx \<and> pt_policies (dc_prev dctx) \<noteq> [] then do {
           (new_len, pkt, st) \<leftarrow> dispatch_try dec guard (dc_prev dctx)
                                 (lookup_policy_index (dc_prev dctx) action_layer policy_id) pkt pkt_len st;
           case new_len of
             Some n \<Rightarrow> Some (0, pkt, n, st)
           | None \<Rightarrow> Some (-1, pkt, pkt_len, st)
         }
         else Some (-1, pkt, pkt_len, st)
   }"

text \<open>
  The remaining case tries every policy of the layer in turn, restoring the packet from the
  scratch buffer after each failure.  The loop runs over \<open>i\<close>, the indices still to be tried.
\<close>

definition layer_dec :: "evp \<Rightarrow> int \<Rightarrow> layer_decrypt" where
  "layer_dec E action_layer ctx pkt pkt_len st =
     (if action_layer = POLICY_ACTION_ENCRYPT_L2 then crypto_layer2_decrypt E ctx pkt pkt_len st
      else if action_layer = POLICY_ACTION_ENCRYPT_L3 then crypto_layer3_decrypt E ctx pkt pkt_len st
      else if action_layer = POLICY_ACTION_ENCRYPT_L4 then crypto_layer4_decrypt E ctx pkt pkt_len st
      else Some (-1, pkt, st))"

fun dispatch_scan ::
    "evp \<Rightarrow> crypto_policy list \<Rightarrow> policy_table \<Rightarrow> int \<Rightarrow> nat \<Rightarrow> nat list \<Rightarrow> buf \<Rightarrow> nat \<Rightarrow> crypto_state \<Rightarrow>
     dispatch_result" where
  "dispatch_scan E policies t action_layer scratch_sz [] pkt pkt_len st = Some (-1, pkt, pkt_len, st)"
| "dispatch_scan E policies t action_layer scratch_sz (i # is) pkt pkt_len st = do {
     cp \<leftarrow> at policies i;
     ready \<leftarrow> at (pt_ready t) i;
     if cp_action cp \<noteq> action_layer \<or> \<not> ready
       then dispatch_scan E policies t action_layer scratch_sz is pkt pkt_len st
     else if pkt_len > scratch_sz then Some (-1, pkt, pkt_len, st)
     else do {
       scratch \<leftarrow> rdn pkt 0 pkt_len;
       ctx \<leftarrow> at (pt_ctx t) i;
       (new_len, pkt, st) \<leftarrow> layer_dec E action_layer ctx pkt pkt_len (crypto_apply_from_policy cp st);
       if new_len < 0 \<or> new_len \<ge> c_int pkt_len then do {
         pkt \<leftarrow> wrn pkt 0 scratch;
         dispatch_scan E policies t action_layer scratch_sz is pkt pkt_len st
       }
       else Some (0, pkt, nat new_len, st)
     }
   }"

definition crypto_decrypt_packet_auto_by_action ::
    "evp \<Rightarrow> byte \<Rightarrow> bool \<Rightarrow> app_config \<Rightarrow> crypto_dispatch_ctx \<Rightarrow> int \<Rightarrow> buf \<Rightarrow> nat \<Rightarrow> nat \<Rightarrow> crypto_state \<Rightarrow>
     dispatch_result" where
  "crypto_decrypt_packet_auto_by_action E l3_magic crypto_enabled cfg dctx action_layer pkt pkt_len scratch_sz st =
     (if \<not> crypto_enabled then Some (-1, pkt, pkt_len, st)
      else if ac_policies cfg = [] then do {
        (new_len, pkt, st) \<leftarrow> packet_decrypt E (dc_base_ctx dctx) pkt pkt_len (crypto_apply_default_from_cfg cfg st);
        if new_len < 0 then Some (-1, pkt, pkt_len, st) else Some (0, pkt, nat new_len, st)
      }
      else if action_layer = POLICY_ACTION_ENCRYPT_L3 then do {
        id \<leftarrow> crypto_l3_extract_policy_id l3_magic st (ac_policies cfg) pkt pkt_len;
        case id of
          None \<Rightarrow> Some (0, pkt, pkt_len, st)
        | Some policy_id \<Rightarrow>
            dispatch_tables (crypto_layer3_decrypt E) (\<lambda>cp. True) dctx action_layer policy_id pkt pkt_len st
      }
      else if action_layer = POLICY_ACTION_ENCRYPT_L4 then do {
        l3 \<leftarrow> crypto_eth_ipv4_offset pkt pkt_len;
        if l3 < 0 then Some (0, pkt, pkt_len, st)
        else do {
          vihl \<leftarrow> rd pkt (nat l3);
          let ip_hdr_len = ihl_bytes vihl;
          if ip_hdr_len < 20 \<or> pkt_len < nat l3 + ip_hdr_len + 8 then Some (0, pkt, pkt_len, st)
          else do {
            proto \<leftarrow> rd pkt (nat l3 + 9);
            if proto \<noteq> 6 \<and> proto \<noteq> 17 then Some (0, pkt, pkt_len, st)
            else do {
              id \<leftarrow> crypto_l4_extract_policy_id_ipv4 (ac_policies cfg) pkt pkt_len;
              case id of
                None \<Rightarrow> Some (0, pkt, pkt_len, st)
              | Some (policy_id, nonce_size) \<Rightarrow>
                  dispatch_tables (crypto_layer4_decrypt E)
                    (\<lambda>cp. 0 < cp_nonce_size cp \<and> cp_nonce_size cp = nonce_size)
                    dctx action_layer policy_id pkt pkt_len st
            }
          }
        }
      }
      else dispatch_scan E (ac_policies cfg) (dc_current dctx) action_layer scratch_sz
             [0..<min (length (ac_policies cfg)) MAX_CRYPTO_POLICIES] pkt pkt_len st)"

section \<open>Finding the policy of a packet\<close>

lemma first_policy_total:
  assumes "\<And>cp. cp \<in> set cps \<Longrightarrow> \<exists>b. P cp = Some b"
  shows "first_policy P cps = Some (find (\<lambda>cp. P cp = Some True) cps)"
  using assms
proof (induction cps)
  case (Cons cp cps)
  obtain b where "P cp = Some b" using Cons.prems by fastforce
  then show ?case using Cons by (cases b) auto
qed simp

text \<open>
  The lookup succeeds on a packet that was encrypted under one of the policies, when the
  policies of the layer agree on the nonce size.
\<close>

lemma first_tunnel_match:
  assumes cp: "cp \<in> set (take MAX_CRYPTO_POLICIES policies)" "cp_action cp = action" "0 < cp_nonce_size cp"
      "length nonce = cp_nonce_size cp"
    and uniform: "\<And>c. c \<in> set policies \<Longrightarrow> cp_action c = action \<Longrightarrow> cp_nonce_size c = cp_nonce_size cp"
    and len: "length G + length nonce + 2 \<le> pkt_len"
  shows "\<exists>r. first_policy (tunnel_match action magic (G @ nonce @ [wire_id cp, m] @ tail) pkt_len (length G))
      (take MAX_CRYPTO_POLICIES policies) = Some r \<and>
    (case r of None \<Rightarrow> m \<noteq> magic | Some c \<Rightarrow> m = magic \<and> wire_id c = wire_id cp \<and> cp_nonce_size c = cp_nonce_size cp)"
proof -
  define P where "P = tunnel_match action magic (G @ nonce @ [wire_id cp, m] @ tail) pkt_len (length G)"
  have P: "P c = Some (cp_action c = action \<and> m = magic \<and> wire_id c = wire_id cp)" if "c \<in> set policies" for c
    using uniform [OF that] cp(3,4) len by (auto simp: P_def tunnel_match_def nth_append)
  have fp: "first_policy P (take MAX_CRYPTO_POLICIES policies) =
      Some (find (\<lambda>c. P c = Some True) (take MAX_CRYPTO_POLICIES policies))"
    by (rule first_policy_total) (use P [OF in_set_takeD] in blast)
  show ?thesis
  proof (cases "find (\<lambda>c. P c = Some True) (take MAX_CRYPTO_POLICIES policies)")
    case None
    then have "P cp \<noteq> Some True" using cp(1) by (auto simp: find_None_iff)
    then show ?thesis using fp None P [OF in_set_takeD [OF cp(1)]] cp(2) by (auto simp: P_def)
  next
    case (Some c)
    then have c: "c \<in> set (take MAX_CRYPTO_POLICIES policies) \<and> P c = Some True" by (rule find_SomeD)
    then have "c \<in> set policies" using in_set_takeD by metis
    then show ?thesis using fp Some c P uniform by (auto simp: P_def)
  qed
qed

lemma l4_extract_at:
  fixes G tail :: buf
  assumes G: "crypto_eth_ipv4_offset G (length G) = Some (int l3_off)" "ihl = ihl_bytes (G ! l3_off)"
      "20 \<le> ihl" "length G = l3_off + ihl + 4" "G ! (l3_off + 9) = 6 \<or> G ! (l3_off + 9) = 17"
    and cp: "cp \<in> set (take MAX_CRYPTO_POLICIES policies)" "cp_action cp = POLICY_ACTION_ENCRYPT_L4"
      "0 < cp_nonce_size cp" "length nonce = cp_nonce_size cp"
    and uniform: "\<And>c. c \<in> set policies \<Longrightarrow> cp_action c = POLICY_ACTION_ENCRYPT_L4 \<Longrightarrow>
      cp_nonce_size c = cp_nonce_size cp"
    and len: "length G + length nonce + 2 \<le> pkt_len" "l3_off + ihl + 8 \<le> pkt_len"
  defines "W \<equiv> G @ nonce @ [wire_id cp, CRYPTO_L4_TUNNEL_MAGIC] @ tail"
  shows "crypto_eth_ipv4_offset W pkt_len = Some (int l3_off)" "rd W l3_off = Some (G ! l3_off)"
    "rd W (l3_off + 9) = Some (G ! (l3_off + 9))"
    "crypto_l4_extract_policy_id_ipv4 policies W pkt_len = Some (Some (wire_id cp, cp_nonce_size cp))"
proof -
  have "take l3_off W = take l3_off G" "l3_off \<le> pkt_len" using G(4) len(2) by (simp_all add: W_def)
  then show l3: "crypto_eth_ipv4_offset W pkt_len = Some (int l3_off)"
    by (rule crypto_eth_ipv4_offset_cong [OF G(1)])
  show rds: "rd W l3_off = Some (G ! l3_off)" "rd W (l3_off + 9) = Some (G ! (l3_off + 9))"
    using G(3,4) by (simp_all add: W_def nth_append)
  obtain c where "first_policy (tunnel_match POLICY_ACTION_ENCRYPT_L4 CRYPTO_L4_TUNNEL_MAGIC W pkt_len (length G))
      (take MAX_CRYPTO_POLICIES policies) = Some (Some c)" "wire_id c = wire_id cp" "cp_nonce_size c = cp_nonce_size cp"
    using first_tunnel_match [OF cp uniform len(1), of CRYPTO_L4_TUNNEL_MAGIC CRYPTO_L4_TUNNEL_MAGIC tail]
    by (auto simp: W_def split: option.splits)
  moreover have "\<not> l3_off + ihl + 4 \<ge> pkt_len" "\<not> pkt_len < l3_off + 20"
      "\<not> (ihl < 20 \<or> pkt_len < l3_off + ihl + 8 \<or> G ! (l3_off + 9) \<noteq> 6 \<and> G ! (l3_off + 9) \<noteq> 17)"
    using len G(3,4,5) by auto
  ultimately show "crypto_l4_extract_policy_id_ipv4 policies W pkt_len = Some (Some (wire_id cp, cp_nonce_size cp))"
    using l3 rds G(2) [symmetric] G(4)
    by (simp add: crypto_l4_extract_policy_id_ipv4_def Let_def del: rd_Some)
qed

section \<open>Delivery\<close>

text \<open>A table serves a policy when the lookup of its wire id ends at it and its key is ready.\<close>

definition policy_served :: "policy_table \<Rightarrow> crypto_policy \<Rightarrow> packet_crypto_ctx \<Rightarrow> bool" where
  "policy_served t cp ctx \<longleftrightarrow> (\<exists>pi. lookup_policy_index t (cp_action cp) (wire_id cp) = int pi \<and>
     at (pt_policies t) pi = Some cp \<and> at (pt_ready t) pi = Some True \<and> at (pt_ctx t) pi = Some ctx)"

lemma dispatch_try_served:
  assumes "policy_served t cp ctx" and "guard cp" and "pkt_len < 2 ^ 31"
    and "dec ctx pkt pkt_len (crypto_apply_from_policy cp st) = Some (int n, pkt', st')" and "n < pkt_len"
  shows "dispatch_try dec guard t (lookup_policy_index t (cp_action cp) (wire_id cp)) pkt pkt_len st =
    Some (Some n, pkt', st')"
  using assms by (auto simp: policy_served_def dispatch_try_def)

lemma dispatch_tables_served:
  assumes "cp_action cp = action" and "guard cp" and "pkt_len < 2 ^ 31"
    and "policy_served (dc_current dctx) cp ctx \<or>
      lookup_policy_index (dc_current dctx) action (wire_id cp) = -1 \<and> dc_prev_grace_active dctx \<and>
      policy_served (dc_prev dctx) cp ctx"
    and dec: "dec ctx pkt pkt_len (crypto_apply_from_policy cp st) = Some (int n, pkt', st')" "n < pkt_len"
  shows "dispatch_tables dec guard dctx action (wire_id cp) pkt pkt_len st = Some (0, pkt', n, st')"
  using assms(4)
proof
  assume "policy_served (dc_current dctx) cp ctx"
  from dispatch_try_served [where dec = dec and guard = guard, OF this assms(2,3) dec] assms(1)
  show ?thesis by (simp add: dispatch_tables_def)
next
  assume prev: "lookup_policy_index (dc_current dctx) action (wire_id cp) = -1 \<and> dc_prev_grace_active dctx \<and>
      policy_served (dc_prev dctx) cp ctx"
  then have "pt_policies (dc_prev dctx) \<noteq> []" by (auto simp: policy_served_def at_eq_Some_iff)
  moreover have "dispatch_try dec guard (dc_current dctx) (-1) pkt pkt_len st = Some (None, pkt, st)"
    by (simp add: dispatch_try_def)
  ultimately show ?thesis
    using dispatch_try_served [where dec = dec and guard = guard and t = "dc_prev dctx", OF _ assms(2,3) dec]
      assms(1) prev
    by (simp add: dispatch_tables_def)
qed

text \<open>Decrypting what has the shape of an encrypted packet of a served policy.\<close>

lemma dispatch_l4_wire:
  fixes G tail :: buf
  assumes G: "crypto_eth_ipv4_offset G (length G) = Some (int l3_off)" "ihl = ihl_bytes (G ! l3_off)"
      "20 \<le> ihl" "length G = l3_off + ihl + 4" "G ! (l3_off + 9) = 6 \<or> G ! (l3_off + 9) = 17"
    and cp: "cp_action cp = POLICY_ACTION_ENCRYPT_L4" "0 < cp_nonce_size cp" "length nonce = cp_nonce_size cp"
    and known: "cpw \<in> set (take MAX_CRYPTO_POLICIES (ac_policies cfg))" "cp_action cpw = POLICY_ACTION_ENCRYPT_L4"
      "wire_id cpw = wire_id cp"
    and uniform: "\<forall>c \<in> set (ac_policies cfg). cp_action c = POLICY_ACTION_ENCRYPT_L4 \<longrightarrow>
      cp_nonce_size c = cp_nonce_size cp"
    and served: "policy_served (dc_current dctx) cp ctx' \<or>
      lookup_policy_index (dc_current dctx) POLICY_ACTION_ENCRYPT_L4 (wire_id cp) = -1 \<and>
      dc_prev_grace_active dctx \<and> policy_served (dc_prev dctx) cp ctx'"
    and len: "length G + length nonce + 2 \<le> m" "l3_off + ihl + 8 \<le> m" "n < m" "m < 2 ^ 31"
  defines "W \<equiv> G @ nonce @ [wire_id cp, CRYPTO_L4_TUNNEL_MAGIC] @ tail"
  assumes dec: "crypto_layer4_decrypt E ctx' W m (crypto_apply_from_policy cp r) = Some (int n, dec, st2)"
  shows "crypto_decrypt_packet_auto_by_action E l3_magic True cfg dctx POLICY_ACTION_ENCRYPT_L4 W m scratch_sz r =
    Some (0, dec, n, st2)"
proof -
  have nsw: "cp_nonce_size cpw = cp_nonce_size cp" using known(1,2) uniform by (meson in_set_takeD)
  have wire: "crypto_eth_ipv4_offset W m = Some (int l3_off)" "rd W l3_off = Some (G ! l3_off)"
      "rd W (l3_off + 9) = Some (G ! (l3_off + 9))"
      "crypto_l4_extract_policy_id_ipv4 (ac_policies cfg) W m = Some (Some (wire_id cp, cp_nonce_size cp))"
    using l4_extract_at [OF G known(1,2), of nonce m tail] nsw cp len uniform known(3) by (simp_all add: W_def)
  have tables: "dispatch_tables (crypto_layer4_decrypt E) (\<lambda>c. 0 < cp_nonce_size c \<and> cp_nonce_size c = cp_nonce_size cp)
      dctx POLICY_ACTION_ENCRYPT_L4 (wire_id cp) W m r = Some (0, dec, n, st2)"
    by (rule dispatch_tables_served [OF cp(1) _ _ served]) (use dec cp len in auto)
  have "ac_policies cfg \<noteq> []" using known(1) by auto
  moreover have "\<not> (ihl < 20 \<or> m < l3_off + ihl + 8)" using G(3) len by auto
  moreover have "\<not> (G ! (l3_off + 9) \<noteq> 6 \<and> G ! (l3_off + 9) \<noteq> 17)" using G(5) by blast
  ultimately show ?thesis
    using wire G(2) [symmetric] tables
    by (simp add: crypto_decrypt_packet_auto_by_action_def Let_def) (use G(5) in blast)
qed

lemma dispatch_l4_carries:
  fixes packet :: buf
  defines "st cp s \<equiv> crypto_apply_from_policy cp s"
  assumes ready: "crypto_ready E (st cp s)" "crypto_ready E (st cp r)" "same_policy (st cp s) (st cp r)"
    and ctx: "ctx_ok ctx" "ctx_ok ctx'" "current_key ctx' = current_key ctx"
    and pkt: "l4_packet packet pkt_len l3_off ihl" "pkt_len + l4_overhead (st cp s) \<le> length packet"
      "patched packet l3_off ihl (of_nat (pkt_len - l3_off)) = packet"
    and cp: "cp_action cp = POLICY_ACTION_ENCRYPT_L4"
    and known: "cpw \<in> set (take MAX_CRYPTO_POLICIES (ac_policies cfg))" "cp_action cpw = POLICY_ACTION_ENCRYPT_L4"
      "wire_id cpw = wire_id cp"
    and uniform: "\<forall>c \<in> set (ac_policies cfg). cp_action c = POLICY_ACTION_ENCRYPT_L4 \<longrightarrow>
      cp_nonce_size c = cp_nonce_size cp"
    and served: "policy_served (dc_current dctx) cp ctx' \<or>
      lookup_policy_index (dc_current dctx) POLICY_ACTION_ENCRYPT_L4 (wire_id cp) = -1 \<and>
      dc_prev_grace_active dctx \<and> policy_served (dc_prev dctx) cp ctx'"
  shows "\<exists>wire len st1 dec st2.
    crypto_layer4_encrypt E ctx packet pkt_len (st cp s) = Some (int len, wire, st1) \<and>
    crypto_decrypt_packet_auto_by_action E l3_magic True cfg dctx POLICY_ACTION_ENCRYPT_L4 wire len scratch_sz r =
      Some (0, dec, pkt_len, st2) \<and> take pkt_len dec = take pkt_len packet"
proof -
  have ns: "g_nonce_size (st cp x) = cp_nonce_size cp" "g_policy_id (st cp x) = wire_id cp" for x
    by (simp_all add: st_def crypto_apply_from_policy_def Let_def)
  have pos: "0 < cp_nonce_size cp" "cp_nonce_size cp \<le> 16" using ready(1) ns(1) [of s] by (auto simp: crypto_ready_def)
  let ?ov = "l4_overhead (st cp s)"
  have ov: "?ov = cp_nonce_size cp + 2 + tag_size (st cp s)" "?ov \<le> 34"
    using l4_overhead_le [OF ready(1)]
    by (simp_all add: l4_overhead_def packet_crypto_get_tunnel_hdr_size_def ns)
  have p: "20 \<le> ihl" "l3_off + ihl + 8 \<le> pkt_len" "pkt_len < 2 ^ 30"
    using pkt(1) by (auto simp: l4_packet_def)
  obtain G nonce tail st1 dec st2 where t:
      "crypto_layer4_encrypt E ctx packet pkt_len (st cp s) = Some (int (pkt_len + ?ov),
        G @ nonce @ [wire_id cp, CRYPTO_L4_TUNNEL_MAGIC] @ tail, st1)"
      "crypto_layer4_decrypt E ctx' (G @ nonce @ [wire_id cp, CRYPTO_L4_TUNNEL_MAGIC] @ tail) (pkt_len + ?ov)
        (st cp r) = Some (int pkt_len, dec, st2)" "take pkt_len dec = take pkt_len packet"
      "crypto_eth_ipv4_offset G (length G) = Some (int l3_off)" "ihl = ihl_bytes (G ! l3_off)"
      "length G = l3_off + ihl + 4" "G ! (l3_off + 9) = 6 \<or> G ! (l3_off + 9) = 17"
      "length nonce = cp_nonce_size cp"
    using l4_transfer [OF ready ctx pkt] unfolding ns by blast
  have "crypto_decrypt_packet_auto_by_action E l3_magic True cfg dctx POLICY_ACTION_ENCRYPT_L4
      (G @ nonce @ [wire_id cp, CRYPTO_L4_TUNNEL_MAGIC] @ tail) (pkt_len + ?ov) scratch_sz r = Some (0, dec, pkt_len, st2)"
    by (rule dispatch_l4_wire [OF t(4,5) p(1) t(6,7) cp pos(1) t(8) known uniform served])
      (use t(2,6,8) p pos ov in \<open>auto simp: st_def\<close>)
  then show ?thesis using t(1,3) by blast
qed

text \<open>A packet that was encrypted at layer 4 under a policy is delivered unchanged by the
  dispatcher, which finds policy and key from the wire alone: from the current policy table,
  or during the grace period from the previous one when the id is unknown to the current
  table.\<close>

theorem dispatch_l4_delivers:
  fixes packet :: buf
  defines "st cp s \<equiv> crypto_apply_from_policy cp s"
  assumes ready: "crypto_ready E (st cp s)" "crypto_ready E (st cp r)" "same_policy (st cp s) (st cp r)"
    and ctx: "ctx_ok ctx" "ctx_ok ctx'" "current_key ctx' = current_key ctx"
    and pkt: "l4_packet packet pkt_len l3_off ihl" "pkt_len + l4_overhead (st cp s) \<le> length packet"
      "patched packet l3_off ihl (of_nat (pkt_len - l3_off)) = packet"
    and cp: "cp_action cp = POLICY_ACTION_ENCRYPT_L4"
    and known: "cpw \<in> set (take MAX_CRYPTO_POLICIES (ac_policies cfg))" "cp_action cpw = POLICY_ACTION_ENCRYPT_L4"
      "wire_id cpw = wire_id cp"
    and uniform: "\<forall>c \<in> set (ac_policies cfg). cp_action c = POLICY_ACTION_ENCRYPT_L4 \<longrightarrow>
      cp_nonce_size c = cp_nonce_size cp"
    and served: "policy_served (dc_current dctx) cp ctx' \<or>
      lookup_policy_index (dc_current dctx) POLICY_ACTION_ENCRYPT_L4 (wire_id cp) = -1 \<and>
      dc_prev_grace_active dctx \<and> policy_served (dc_prev dctx) cp ctx'"
  shows "\<exists>wire len st1 dec st2.
    crypto_layer4_encrypt E ctx packet pkt_len (st cp s) = Some (int len, wire, st1) \<and>
    crypto_decrypt_packet_auto_by_action E l3_magic True cfg dctx POLICY_ACTION_ENCRYPT_L4 wire len scratch_sz r =
      Some (0, dec, pkt_len, st2) \<and> take pkt_len dec = take pkt_len packet"
  using dispatch_l4_carries [OF assms(2-) [unfolded st_def]] by (simp add: st_def)

definition sample_policy_l4 :: crypto_policy where
  "sample_policy_l4 = sample_policy\<lparr>cp_action := POLICY_ACTION_ENCRYPT_L4\<rparr>"

definition sample_table :: policy_table where
  "sample_table = \<lparr>pt_policies = [sample_policy_l4], pt_ctx = [sample_ctx], pt_ready = [True],
     pt_index = (\<lambda>a i. if a = 4 \<and> i = 7 then 0 else -1)\<rparr>"

definition sample_dctx :: crypto_dispatch_ctx where
  "sample_dctx = \<lparr>dc_base_ctx = sample_ctx, dc_current = sample_table,
     dc_prev = sample_table\<lparr>pt_policies := []\<rparr>, dc_prev_grace_active = False\<rparr>"

lemma sample_apply:
  "crypto_ready sample_evp (crypto_apply_from_policy sample_policy_l4 sample_st)"
  "l4_overhead (crypto_apply_from_policy sample_policy_l4 sample_st) = 30"
  "wire_id sample_policy_l4 = 7" "cp_action sample_policy_l4 = 4" "cp_nonce_size sample_policy_l4 = 12"
  by (simp_all add: crypto_ready_def crypto_apply_from_policy_def sample_policy_l4_def sample_policy_def
      sample_st_def crypto_state_init_def Let_def l4_overhead_def packet_crypto_get_tunnel_hdr_size_def
      tag_size_def is_gcm_mode_def wire_id_def)

lemma sample_served: "policy_served sample_table sample_policy_l4 sample_ctx"
  by (auto simp: policy_served_def lookup_policy_index_def sample_table_def sample_apply at_def
      intro!: exI [of _ 0])

theorem dispatch_l4_delivers_witness:
  "\<exists>wire len st1 dec st2.
    crypto_layer4_encrypt sample_evp sample_ctx sample_packet 50
      (crypto_apply_from_policy sample_policy_l4 sample_st) = Some (int len, wire, st1) \<and>
    crypto_decrypt_packet_auto_by_action sample_evp 0 True (sample_cfg\<lparr>ac_policies := [sample_policy_l4]\<rparr>)
      sample_dctx POLICY_ACTION_ENCRYPT_L4 wire len 2048 sample_st = Some (0, dec, 50, st2) \<and>
    take 50 dec = take 50 sample_packet"
proof -
  have "ihl_bytes 0x45 = 20" by (simp add: ihl_bytes_def)
  then have "l4_packet sample_packet 50 14 20"
    by (simp add: l4_packet_def crypto_eth_ipv4_offset_def get_transport_hdr_size_def be16_def)
  moreover have "policy_served (dc_current sample_dctx) sample_policy_l4 sample_ctx"
    using sample_served by (simp add: sample_dctx_def)
  ultimately show ?thesis
    using dispatch_l4_delivers [of sample_evp sample_policy_l4 sample_st sample_st sample_ctx sample_ctx
        sample_packet 50 14 20 sample_policy_l4 "sample_cfg\<lparr>ac_policies := [sample_policy_l4]\<rparr>" sample_dctx 0 2048]
    by (simp add: sample_apply)
qed

section \<open>Layer 3 and the missing magic\<close>

text \<open>
  Layer-3 encryption puts the original protocol number where the dispatcher expects the tunnel
  magic.  Whatever value the magic has, packets of every other protocol are taken for plain
  ones: the dispatcher returns success and leaves them encrypted.
\<close>

theorem dispatch_l3_needs_magic:
  fixes packet :: buf
  defines "st cp s \<equiv> crypto_apply_from_policy cp s"
  assumes ready: "crypto_ready E (st cp s)" and ctx: "ctx_ok ctx"
    and pkt: "l3_packet packet pkt_len ihl" "pkt_len < 2 ^ 30" "pkt_len + l3_overhead (st cp s) \<le> length packet"
      "\<not> l3_marker_clash packet pkt_len ihl (g_nonce_size (st cp s))"
    and cp: "cp_action cp = POLICY_ACTION_ENCRYPT_L3" "cp \<in> set (take MAX_CRYPTO_POLICIES (ac_policies cfg))"
    and uniform: "\<forall>c \<in> set (ac_policies cfg). cp_action c = POLICY_ACTION_ENCRYPT_L3 \<longrightarrow>
      cp_nonce_size c = cp_nonce_size cp"
    and other: "packet ! 23 \<noteq> l3_magic"
  shows "\<exists>wire len st1. crypto_layer3_encrypt E ctx packet pkt_len (st cp s) = Some (int len, wire, st1) \<and>
    crypto_decrypt_packet_auto_by_action E l3_magic True cfg dctx POLICY_ACTION_ENCRYPT_L3 wire len scratch_sz r =
      Some (0, wire, len, r)"
proof -
  have ns: "g_nonce_size (st cp x) = cp_nonce_size cp" "g_policy_id (st cp x) = wire_id cp" for x
    by (simp_all add: st_def crypto_apply_from_policy_def Let_def)
  have pos: "0 < cp_nonce_size cp" using ready ns(1) [of s] by (auto simp: crypto_ready_def)
  let ?ov = "l3_overhead (st cp s)"
  have ov: "?ov = cp_nonce_size cp + 2 + tag_size (st cp s)"
    by (simp add: l3_overhead_def packet_crypto_get_tunnel_hdr_size_def ns)
  have p: "20 \<le> ihl" "14 + ihl < pkt_len" "pkt_len \<le> length packet" "packet ! 12 = 8" "packet ! 13 = 0"
      "ihl = ihl_bytes (packet ! 14)"
    using pkt(1) by (auto simp: l3_packet_def)
  define G where "G = patched ((take (14 + ihl) packet)[23 := g_fake_protocol (st cp s)]) 14 ihl
      (be16 (packet ! 16) (packet ! 17) + of_nat ?ov)"
  obtain nonce tail st1 where enc: "crypto_layer3_encrypt E ctx packet pkt_len (st cp s) =
      Some (int (pkt_len + ?ov), G @ nonce @ [wire_id cp, packet ! 23] @ tail, st1)" "length nonce = cp_nonce_size cp"
    using l3_encrypt_wire [OF ready ctx pkt] by (auto simp: Let_def ns G_def simp del: of_nat_add)
  define W where "W = G @ nonce @ [wire_id cp, packet ! 23] @ tail"
  have lenG: "length G = 14 + ihl" using p by (simp add: G_def)
  have "ihl_bytes (G ! 14) = ihl" "be16 (G ! 12) (G ! 13) = 0x0800"
    using p by (simp_all add: G_def patched_nth be16_8_0)
  then have rds: "rd16 W 12 = Some 0x0800" "rd W 14 = Some (G ! 14)" "rd W 23 = Some (G ! 23)"
      "ihl_bytes (G ! 14) = ihl"
    using lenG p(1) by (simp_all add: W_def nth_append)
  have none: "first_policy (tunnel_match POLICY_ACTION_ENCRYPT_L3 l3_magic W (pkt_len + ?ov) (14 + ihl))
      (take MAX_CRYPTO_POLICIES (ac_policies cfg)) = Some None"
    using first_tunnel_match [of cp "ac_policies cfg" POLICY_ACTION_ENCRYPT_L3 nonce G "pkt_len + ?ov" l3_magic
        "packet ! 23" tail] cp uniform pos enc(2) lenG p(2) ov other
    by (auto simp: W_def split: option.splits)
  have sizes: "\<not> pkt_len + ?ov < 34" "\<not> pkt_len + ?ov < 15 + ihl" using p by auto
  have "crypto_l3_extract_policy_id l3_magic r (ac_policies cfg) W (pkt_len + ?ov) = Some None"
    using rds none sizes p(1)
    by (simp add: crypto_l3_extract_policy_id_def Let_def)
  moreover have "ac_policies cfg \<noteq> []" using cp(2) by auto
  ultimately show ?thesis using enc(1)
    by (auto simp: crypto_decrypt_packet_auto_by_action_def W_def intro!: exI [of _ "pkt_len + ?ov"])
qed

theorem dispatch_l3_needs_magic_witness:
  "\<exists>wire len st1.
    crypto_layer3_encrypt sample_evp sample_ctx sample_packet 50
      (crypto_apply_from_policy sample_policy sample_st) = Some (int len, wire, st1) \<and>
    crypto_decrypt_packet_auto_by_action sample_evp 0xA5 True (sample_cfg\<lparr>ac_policies := [sample_policy]\<rparr>)
      sample_dctx POLICY_ACTION_ENCRYPT_L3 wire len 2048 sample_st = Some (0, wire, len, sample_st)"
proof -
  have "ihl_bytes 0x45 = 20" by (simp add: ihl_bytes_def)
  then have "l3_packet sample_packet 50 20" by (simp add: l3_packet_def)
  moreover have st: "crypto_ready sample_evp (crypto_apply_from_policy sample_policy sample_st)"
      "l3_overhead (crypto_apply_from_policy sample_policy sample_st) = 30"
      "g_nonce_size (crypto_apply_from_policy sample_policy sample_st) = 12"
      "cp_action sample_policy = 3"
    by (simp_all add: crypto_ready_def crypto_apply_from_policy_def sample_policy_def
        sample_st_def crypto_state_init_def Let_def l3_overhead_def packet_crypto_get_tunnel_hdr_size_def
        tag_size_def is_gcm_mode_def)
  moreover have "\<not> l3_marker_clash sample_packet 50 20 12"
    by (simp add: l3_marker_clash_def sample_packet_def patched_nth) (simp add: sample_raw_def nth_append)
  ultimately show ?thesis
    using dispatch_l3_needs_magic [of sample_evp sample_policy sample_st sample_ctx sample_packet 50 20
        "sample_cfg\<lparr>ac_policies := [sample_policy]\<rparr>" "0xA5" sample_dctx 2048 sample_st] by simp
qed

end
