(* ===== verification/Runtime.thy ===== *)
theory Runtime
  imports Dispatch
begin

text \<open>
  The forwarder's crypto tables, \<^verbatim>\<open>src/core/forwarder.c\<close>: which reloads are needed, rebuilding
  the per-policy key contexts and the index by action and wire id, the grace period for the
  previous tables, and the functions that resolve the key context of a received packet.

  The arrays of \<^verbatim>\<open>MAX_CRYPTO_POLICIES\<close> contexts and flags are lists of that length.  Time is an
  input; zero stands for a failing clock.
\<close>

section \<open>State\<close>

record crypto_runtime =
  rt_enabled :: bool
  rt_layer :: int
  rt_base :: packet_crypto_ctx
  rt_active :: policy_table
  rt_prev :: policy_table
  rt_prev_grace_until_ms :: u64

abbreviation (input) POLICY_RELOAD_GRACE_MS :: u64 where "POLICY_RELOAD_GRACE_MS \<equiv> 60000"

definition prev_policy_grace_active :: "crypto_runtime \<Rightarrow> u64 \<Rightarrow> bool" where
  "prev_policy_grace_active rt now =
     (if pt_policies (rt_prev rt) = [] then False
      else if now = 0 \<or> rt_prev_grace_until_ms rt = 0 then False
      else now \<le> rt_prev_grace_until_ms rt)"

section \<open>What changed\<close>

definition same_topology :: "app_config \<Rightarrow> app_config \<Rightarrow> bool" where
  "same_topology a b \<longleftrightarrow>
     length (ac_locals a) = length (ac_locals b) \<and> length (ac_wans a) = length (ac_wans b) \<and>
     list_all2 (\<lambda>x y. lc_ifname x = lc_ifname y) (ac_locals a) (ac_locals b) \<and>
     list_all2 (\<lambda>x y. wc_ifname x = wc_ifname y) (ac_wans a) (ac_wans b)"

definition same_crypto_policy :: "crypto_policy \<Rightarrow> crypto_policy \<Rightarrow> bool" where
  "same_crypto_policy a b \<longleftrightarrow>
     cp_id a = cp_id b \<and> cp_db_id a = cp_db_id b \<and> cp_priority a = cp_priority b \<and>
     cp_action a = cp_action b \<and> cp_protocol a = cp_protocol b \<and>
     cp_src_port_from a = cp_src_port_from b \<and> cp_src_port_to a = cp_src_port_to b \<and>
     cp_dst_port_from a = cp_dst_port_from b \<and> cp_dst_port_to a = cp_dst_port_to b \<and>
     cp_src_any a = cp_src_any b \<and> cp_dst_any a = cp_dst_any b \<and>
     cp_src_negate a = cp_src_negate b \<and> cp_dst_negate a = cp_dst_negate b \<and>
     cp_src_net a = cp_src_net b \<and> cp_src_mask a = cp_src_mask b \<and>
     cp_dst_net a = cp_dst_net b \<and> cp_dst_mask a = cp_dst_mask b \<and>
     cp_crypto_mode a = cp_crypto_mode b \<and> cp_aes_bits a = cp_aes_bits b \<and>
     cp_nonce_size a = cp_nonce_size b \<and> cp_key a = cp_key b"

definition crypto_runtime_changed :: "app_config \<Rightarrow> app_config \<Rightarrow> bool" where
  "crypto_runtime_changed a b \<longleftrightarrow>
     ac_crypto_enabled a \<noteq> ac_crypto_enabled b \<or> ac_encrypt_layer a \<noteq> ac_encrypt_layer b \<or>
     ac_crypto_mode a \<noteq> ac_crypto_mode b \<or> ac_aes_bits a \<noteq> ac_aes_bits b \<or>
     ac_nonce_size a \<noteq> ac_nonce_size b \<or> ac_fake_ethertype_ipv4 a \<noteq> ac_fake_ethertype_ipv4 b \<or>
     ac_fake_protocol a \<noteq> ac_fake_protocol b \<or> length (ac_policies a) \<noteq> length (ac_policies b) \<or>
     (\<exists>i < min (length (ac_policies a)) MAX_CRYPTO_POLICIES.
        \<not> same_crypto_policy (ac_policies a ! i) (ac_policies b ! i))"

definition forwarding_runtime_changed :: "app_config \<Rightarrow> app_config \<Rightarrow> bool" where
  "forwarding_runtime_changed a b \<longleftrightarrow>
     length (ac_profiles a) \<noteq> length (ac_profiles b) \<or> length (ac_wans a) \<noteq> length (ac_wans b) \<or>
     length (ac_locals a) \<noteq> length (ac_locals b)"

lemma same_crypto_policy_eq: "same_crypto_policy a b \<longleftrightarrow> a = b"
  by (cases a, cases b) (auto simp: same_crypto_policy_def)

section \<open>Rebuilding the tables\<close>

text \<open>Entering a ready policy: the first one of an action and wire id owns the index entry.\<close>

definition rebuild_register :: "nat \<Rightarrow> crypto_policy \<Rightarrow> packet_crypto_ctx \<Rightarrow> policy_table \<Rightarrow> policy_table" where
  "rebuild_register pi cp ctx t =
     (let a = nat (cp_action cp); id = wire_id cp;
          t = t\<lparr>pt_ctx := (pt_ctx t)[pi := ctx], pt_ready := (pt_ready t)[pi := True]\<rparr>
      in if 0 \<le> cp_action cp \<and> cp_action cp \<le> POLICY_ACTION_ENCRYPT_L4 \<and> pt_index t a id < 0
         then t\<lparr>pt_index := (pt_index t)(a := (pt_index t a)(id := int pi))\<rparr> else t)"

text \<open>
  One iteration: bypass policies and zero keys are skipped; an equal policy of the old table
  hands its context over; otherwise the context is initialised, which also resets the nonce
  counter of the whole process.
\<close>

definition rebuild_policy ::
    "evp \<Rightarrow> policy_table \<Rightarrow> nat \<Rightarrow> crypto_policy \<Rightarrow> policy_table \<times> bool \<times> crypto_state \<Rightarrow>
     policy_table \<times> bool \<times> crypto_state" where
  "rebuild_policy E old pi cp acc =
     (let (t, has_l2, st) = acc
      in if cp_action cp = POLICY_ACTION_BYPASS then acc
      else if list_all (\<lambda>b. b = 0) (cp_key cp) then acc
      else case find (\<lambda>oi. pt_ready old ! oi \<and> same_crypto_policy (pt_policies old ! oi) cp)
                  [0..<length (pt_policies old)] of
        Some oi \<Rightarrow> (rebuild_register pi cp (pt_ctx old ! oi) t,
                    has_l2 \<or> cp_action cp = POLICY_ACTION_ENCRYPT_L2, st)
      | None \<Rightarrow>
          let (rc, ctx, st) = packet_crypto_init E (st\<lparr>g_aes_bits := cp_aes_bits cp\<rparr>) (cp_key cp)
          in if rc \<noteq> 0 then (t\<lparr>pt_ctx := (pt_ctx t)[pi := ctx]\<rparr>, has_l2, st)
             else (rebuild_register pi cp ctx t, has_l2 \<or> cp_action cp = POLICY_ACTION_ENCRYPT_L2, st))"

fun rebuild_loop ::
    "evp \<Rightarrow> policy_table \<Rightarrow> nat \<Rightarrow> crypto_policy list \<Rightarrow> policy_table \<times> bool \<times> crypto_state \<Rightarrow>
     policy_table \<times> bool \<times> crypto_state" where
  "rebuild_loop E old pi [] acc = acc"
| "rebuild_loop E old pi (cp # cps) acc = rebuild_loop E old (Suc pi) cps (rebuild_policy E old pi cp acc)"

text \<open>
  The count of active policies is cut at \<^verbatim>\<open>MAX_CRYPTO_POLICIES\<close>; the old table has been cut
  when it was built.
\<close>

definition rebuild_crypto_runtime ::
    "evp \<Rightarrow> app_config \<Rightarrow> policy_table \<Rightarrow> crypto_state \<Rightarrow> policy_table \<times> bool \<times> crypto_state" where
  "rebuild_crypto_runtime E cfg old st =
     (let cps = take MAX_CRYPTO_POLICIES (ac_policies cfg);
          start = old\<lparr>pt_ready := replicate MAX_CRYPTO_POLICIES False, pt_index := (\<lambda>a id. -1)\<rparr>;
          (t, has_l2, st) = rebuild_loop E old 0 cps (start, False, st)
      in (t\<lparr>pt_policies := cps\<rparr>, has_l2, st))"

section \<open>What a rebuild computes\<close>

text \<open>
  The specification: a policy is served when it encrypts and its key is not all zero; its
  context is the one initialised from its own key and key length; the first served policy of
  an action and wire id owns the index entry.
\<close>

definition policy_ctx :: "evp \<Rightarrow> crypto_policy \<Rightarrow> packet_crypto_ctx" where
  "policy_ctx E cp =
     fst (snd (packet_crypto_init E (crypto_state_init\<lparr>g_aes_bits := cp_aes_bits cp\<rparr>) (cp_key cp)))"

definition serviceable :: "crypto_policy \<Rightarrow> bool" where
  "serviceable cp \<longleftrightarrow> cp_action cp \<noteq> POLICY_ACTION_BYPASS \<and> \<not> list_all (\<lambda>b. b = 0) (cp_key cp)"

definition serves :: "nat \<Rightarrow> byte \<Rightarrow> crypto_policy \<Rightarrow> bool" where
  "serves a pid cp \<longleftrightarrow> serviceable cp \<and> cp_action cp = int a \<and>
     int a \<le> POLICY_ACTION_ENCRYPT_L4 \<and> wire_id cp = pid"

definition index_spec :: "crypto_policy list \<Rightarrow> nat \<Rightarrow> byte \<Rightarrow> int" where
  "index_spec cps a pid =
     (case find (\<lambda>i. serves a pid (cps ! i)) [0..<length cps] of None \<Rightarrow> -1 | Some i \<Rightarrow> int i)"

text \<open>The invariant of the tables between rebuilds.\<close>

definition runtime_table_ok :: "evp \<Rightarrow> policy_table \<Rightarrow> bool" where
  "runtime_table_ok E t \<longleftrightarrow>
     length (pt_policies t) \<le> MAX_CRYPTO_POLICIES \<and>
     length (pt_ctx t) = MAX_CRYPTO_POLICIES \<and> length (pt_ready t) = MAX_CRYPTO_POLICIES \<and>
     (\<forall>i < MAX_CRYPTO_POLICIES. pt_ready t ! i \<longrightarrow>
        i < length (pt_policies t) \<and> serviceable (pt_policies t ! i) \<and>
        pt_ctx t ! i = policy_ctx E (pt_policies t ! i)) \<and>
     (\<forall>a pid. 0 \<le> pt_index t a pid \<longrightarrow>
        nat (pt_index t a pid) < length (pt_policies t) \<and> pt_ready t ! nat (pt_index t a pid) \<and>
        cp_action (pt_policies t ! nat (pt_index t a pid)) = int a \<and>
        wire_id (pt_policies t ! nat (pt_index t a pid)) = pid)"

text \<open>What a rebuild needs of the old tables; the tables of a process that just started, all zero,
  satisfy it although their index does not.\<close>

definition contexts_ok :: "evp \<Rightarrow> policy_table \<Rightarrow> bool" where
  "contexts_ok E t \<longleftrightarrow> length (pt_ctx t) = MAX_CRYPTO_POLICIES \<and>
     (\<forall>i < length (pt_policies t). pt_ready t ! i \<longrightarrow> pt_ctx t ! i = policy_ctx E (pt_policies t ! i))"

lemma runtime_table_contexts: "runtime_table_ok E t \<Longrightarrow> contexts_ok E t"
  by (auto simp: runtime_table_ok_def contexts_ok_def)

definition empty_table :: policy_table where
  "empty_table = \<lparr>pt_policies = [],
     pt_ctx = replicate MAX_CRYPTO_POLICIES \<lparr>pc_master_key = replicate AES_MAX_KEY_SIZE 0,
                pc_keys = replicate 3 (replicate AES_MAX_KEY_SIZE 0), pc_initialized = False\<rparr>,
     pt_ready = replicate MAX_CRYPTO_POLICIES False, pt_index = (\<lambda>a pid. -1)\<rparr>"

lemma empty_table_ok: "runtime_table_ok E empty_table"
  by (simp add: runtime_table_ok_def empty_table_def)

lemma packet_crypto_init_ctx:
  "evp_ctx_new E \<Longrightarrow> packet_crypto_init E (st\<lparr>g_aes_bits := cp_aes_bits cp\<rparr>) (cp_key cp) =
     (0, policy_ctx E cp, st\<lparr>g_aes_bits := cp_aes_bits cp, g_nonce_counter := 0\<rparr>)"
  by (simp add: policy_ctx_def packet_crypto_init_def derive_key_def packet_crypto_reset_counter_def Let_def)

lemma find_upt_snoc:
  "find P [0..<Suc n] = (case find P [0..<n] of Some i \<Rightarrow> Some i | None \<Rightarrow> if P n then Some n else None)"
proof -
  have *: "find P (xs @ [x]) = (case find P xs of Some i \<Rightarrow> Some i | None \<Rightarrow> if P x then Some x else None)"
    for xs :: "nat list" and x by (induction xs) auto
  show ?thesis using * by simp
qed

lemma find_upt_cong: "(\<And>i. i < n \<Longrightarrow> P i = Q i) \<Longrightarrow> find P [0..<n] = find Q [0..<n]"
  by (rule find_cong) auto

lemma index_spec_snoc:
  "index_spec (cps @ [cp]) a pid =
     (if index_spec cps a pid < 0 \<and> serves a pid cp then int (length cps) else index_spec cps a pid)"
proof -
  have *: "find (\<lambda>i. serves a pid ((cps @ [cp]) ! i)) [0..<length cps] =
      find (\<lambda>i. serves a pid (cps ! i)) [0..<length cps]"
    by (rule find_upt_cong) (simp add: nth_append)
  show ?thesis unfolding index_spec_def length_append_singleton find_upt_snoc *
    by (simp add: nth_append split: option.split)
qed

lemma index_spec_Some:
  "0 \<le> index_spec cps a pid \<longleftrightarrow> (\<exists>cp\<in>set cps. serves a pid cp)"
proof (cases "find (\<lambda>i. serves a pid (cps ! i)) [0..<length cps]")
  case None
  then have "\<forall>i<length cps. \<not> serves a pid (cps ! i)" by (auto simp: find_None_iff)
  then show ?thesis using None by (auto simp: index_spec_def in_set_conv_nth)
next
  case (Some i)
  then show ?thesis using find_upt_Some_iff [THEN iffD1, OF Some] by (auto simp: index_spec_def)
qed

lemma rebuild_loop_snoc:
  "rebuild_loop E old pi (cps @ [cp]) acc =
     rebuild_policy E old (pi + length cps) cp (rebuild_loop E old pi cps acc)"
  by (induction cps arbitrary: pi acc) auto


text \<open>One iteration under the old invariant: the context is always that of the policy.\<close>

lemma rebuild_policy_step:
  assumes E: "evp_ctx_new E" and old: "contexts_ok E old"
  shows "rebuild_policy E old pi cp (t, h, st) =
     (if \<not> serviceable cp then (t, h, st)
      else (rebuild_register pi cp (policy_ctx E cp) t, h \<or> cp_action cp = POLICY_ACTION_ENCRYPT_L2,
            snd (snd (rebuild_policy E old pi cp (t, h, st)))))"
proof (cases "serviceable cp")
  case False then show ?thesis by (auto simp: rebuild_policy_def serviceable_def)
next
  case True
  let ?P = "\<lambda>oi. pt_ready old ! oi \<and> same_crypto_policy (pt_policies old ! oi) cp"
  show ?thesis
  proof (cases "find ?P [0..<length (pt_policies old)]")
    case None
    then show ?thesis using True E
      by (auto simp: rebuild_policy_def serviceable_def packet_crypto_init_ctx)
  next
    case (Some oi)
    then have "oi < length (pt_policies old)" "pt_ready old ! oi" "pt_policies old ! oi = cp"
      by (auto simp: find_upt_Some_iff same_crypto_policy_eq)
    then have "pt_ctx old ! oi = policy_ctx E cp" using old by (auto simp: contexts_ok_def)
    then show ?thesis using True Some by (auto simp: rebuild_policy_def serviceable_def)
  qed
qed

lemma rebuild_loop_spec:
  assumes E: "evp_ctx_new E" and old: "contexts_ok E old"
    and t0: "length (pt_ctx t0) = MAX_CRYPTO_POLICIES" "pt_ready t0 = replicate MAX_CRYPTO_POLICIES False"
      "pt_index t0 = (\<lambda>a pid. -1)"
    and len: "length cps \<le> MAX_CRYPTO_POLICIES"
    and run: "rebuild_loop E old 0 cps (t0, False, st0) = (t, h, st)"
  shows "pt_ready t = map serviceable cps @ replicate (MAX_CRYPTO_POLICIES - length cps) False \<and>
     length (pt_ctx t) = MAX_CRYPTO_POLICIES \<and>
     (\<forall>i<length cps. serviceable (cps ! i) \<longrightarrow> pt_ctx t ! i = policy_ctx E (cps ! i)) \<and>
     pt_index t = index_spec cps \<and>
     h = (\<exists>cp\<in>set cps. serviceable cp \<and> cp_action cp = POLICY_ACTION_ENCRYPT_L2)"
  using len run
proof (induction cps arbitrary: t h st rule: rev_induct)
  case Nil then show ?case using t0 by (auto simp: index_spec_def fun_eq_iff)
next
  case (snoc cp cps)
  obtain t1 h1 st1 where r: "rebuild_loop E old 0 cps (t0, False, st0) = (t1, h1, st1)"
    by (metis prod_cases3)
  have len: "length cps < MAX_CRYPTO_POLICIES" using snoc.prems(1) by simp
  note IH = snoc.IH [OF less_imp_le [OF len] r]
  have run: "rebuild_policy E old (length cps) cp (t1, h1, st1) = (t, h, st)"
    using snoc.prems(2) by (simp add: rebuild_loop_snoc r)
  have rep: "(xs @ replicate n False)[length xs := b] = xs @ b # replicate (n - 1) False"
    if "0 < n" for xs and n and b using that by (cases n) (auto simp: list_update_append)
  have step: "pt_ready t = (pt_ready t1)[length cps := serviceable cp] \<and> length (pt_ctx t) = length (pt_ctx t1) \<and>
      pt_ctx t = (if serviceable cp then (pt_ctx t1)[length cps := policy_ctx E cp] else pt_ctx t1) \<and>
      h = (h1 \<or> serviceable cp \<and> cp_action cp = POLICY_ACTION_ENCRYPT_L2) \<and>
      pt_index t = (\<lambda>a pid. if pt_index t1 a pid < 0 \<and> serves a pid cp then int (length cps) else pt_index t1 a pid)"
  proof (cases "serviceable cp")
    case False
    then have "t = t1" "h = h1"
      using run rebuild_policy_step [OF E old, of "length cps" cp t1 h1 st1] by auto
    moreover have "(pt_ready t1)[length cps := False] = pt_ready t1"
      using IH len by (intro list_update_same_conv [THEN iffD2]) (auto simp: nth_append)
    ultimately show ?thesis using False by (simp add: serves_def)
  next
    case True
    then have "t = rebuild_register (length cps) cp (policy_ctx E cp) t1"
      "h = (h1 \<or> cp_action cp = POLICY_ACTION_ENCRYPT_L2)"
      using run rebuild_policy_step [OF E old, of "length cps" cp t1 h1 st1] by auto
    then show ?thesis using True
      by (auto simp: rebuild_register_def Let_def serves_def fun_eq_iff)
  qed
  have rdy: "pt_ready t = map serviceable (cps @ [cp]) @ replicate (MAX_CRYPTO_POLICIES - length (cps @ [cp])) False"
    using step IH len rep [of "MAX_CRYPTO_POLICIES - length cps" "map serviceable cps" "serviceable cp"] by simp
  have "pt_index t = index_spec (cps @ [cp])"
    using step IH by (simp add: fun_eq_iff index_spec_snoc)
  moreover have "pt_ctx t ! i = policy_ctx E ((cps @ [cp]) ! i)"
    if "i < length (cps @ [cp])" "serviceable ((cps @ [cp]) ! i)" for i
    using that step IH len by (auto simp: nth_append less_Suc_eq)
  ultimately show ?case using rdy step IH by auto
qed

lemma rebuild_computes_spec':
  assumes "evp_ctx_new E" and "contexts_ok E old"
    and "rebuild_crypto_runtime E cfg old st = (t, h, st')"
  defines "cps \<equiv> take MAX_CRYPTO_POLICIES (ac_policies cfg)"
  shows "pt_policies t = cps \<and>
     pt_ready t = map serviceable cps @ replicate (MAX_CRYPTO_POLICIES - length cps) False \<and>
     (\<forall>i<length cps. serviceable (cps ! i) \<longrightarrow> pt_ctx t ! i = policy_ctx E (cps ! i)) \<and>
     pt_index t = index_spec cps \<and>
     (h \<longleftrightarrow> (\<exists>cp\<in>set cps. serviceable cp \<and> cp_action cp = POLICY_ACTION_ENCRYPT_L2)) \<and>
     runtime_table_ok E t"
proof -
  obtain t1 h1 st1 where run: "rebuild_loop E old 0 cps
      (old\<lparr>pt_ready := replicate MAX_CRYPTO_POLICIES False, pt_index := (\<lambda>a id. -1)\<rparr>, False, st) = (t1, h1, st1)"
    by (metis prod_cases3)
  have t: "t = t1\<lparr>pt_policies := cps\<rparr>" "h = h1"
    using assms(3) run by (auto simp: rebuild_crypto_runtime_def Let_def cps_def)
  have len: "length cps \<le> MAX_CRYPTO_POLICIES" by (simp add: cps_def)
  have old: "length (pt_ctx old) = MAX_CRYPTO_POLICIES" using assms(2) by (simp add: contexts_ok_def)
  note spec = rebuild_loop_spec [OF assms(1,2) _ _ _ len run]
  have s: "pt_ready t1 = map serviceable cps @ replicate (MAX_CRYPTO_POLICIES - length cps) False"
     "length (pt_ctx t1) = MAX_CRYPTO_POLICIES"
     "\<forall>i<length cps. serviceable (cps ! i) \<longrightarrow> pt_ctx t1 ! i = policy_ctx E (cps ! i)"
     "pt_index t1 = index_spec cps"
     "h1 = (\<exists>cp\<in>set cps. serviceable cp \<and> cp_action cp = POLICY_ACTION_ENCRYPT_L2)"
    using spec old by auto
  have owner: "nat k < length cps \<and> serviceable (cps ! nat k) \<and> cp_action (cps ! nat k) = int a \<and> wire_id (cps ! nat k) = pid"
    if k: "0 \<le> k" "k = index_spec cps a pid" for k a pid
  proof (cases "find (\<lambda>i. serves a pid (cps ! i)) [0..<length cps]")
    case None then show ?thesis using k by (simp add: index_spec_def)
  next
    case (Some i)
    then have "k = int i" "i < length cps" "serves a pid (cps ! i)"
      using k find_upt_Some_iff [THEN iffD1, OF Some] by (auto simp: index_spec_def)
    then show ?thesis by (simp add: serves_def)
  qed
  have "runtime_table_ok E t"
    unfolding runtime_table_ok_def t using len s(1-4) owner by (auto simp: nth_append)
  then show ?thesis using s t by simp
qed

text \<open>C14: A rebuild computes the specified tables whatever the old tables were: a context that
  is handed over from an equal old policy is the one a fresh initialisation would give, so no
  key outlives its policy.\<close>

theorem rebuild_computes_spec:
  assumes "evp_ctx_new E" and "runtime_table_ok E old"
    and "rebuild_crypto_runtime E cfg old st = (t, h, st')"
  defines "cps \<equiv> take MAX_CRYPTO_POLICIES (ac_policies cfg)"
  shows "pt_policies t = cps \<and>
     pt_ready t = map serviceable cps @ replicate (MAX_CRYPTO_POLICIES - length cps) False \<and>
     (\<forall>i<length cps. serviceable (cps ! i) \<longrightarrow> pt_ctx t ! i = policy_ctx E (cps ! i)) \<and>
     pt_index t = index_spec cps \<and>
     (h \<longleftrightarrow> (\<exists>cp\<in>set cps. serviceable cp \<and> cp_action cp = POLICY_ACTION_ENCRYPT_L2)) \<and>
     runtime_table_ok E t"
  using rebuild_computes_spec' [OF assms(1) runtime_table_contexts [OF assms(2)] assms(3)] by (simp add: cps_def)

theorem rebuild_computes_spec_witness:
  "pt_index (fst (rebuild_crypto_runtime sample_evp (sample_cfg\<lparr>ac_policies := [sample_policy_l4, sample_policy]\<rparr>)
     empty_table sample_st)) 3 7 = 1"
proof -
  obtain t h st' where r: "rebuild_crypto_runtime sample_evp
      (sample_cfg\<lparr>ac_policies := [sample_policy_l4, sample_policy]\<rparr>) empty_table sample_st = (t, h, st')"
    by (metis prod_cases3)
  have "pt_index t = index_spec [sample_policy_l4, sample_policy]"
    using rebuild_computes_spec [OF _ empty_table_ok r] by (simp add: sample_evp_def)
  moreover have "index_spec [sample_policy_l4, sample_policy] 3 7 = 1"
    by (simp add: index_spec_def serves_def serviceable_def sample_apply wire_id_def upt_rec)
       (simp add: sample_policy_def list_all_iff)
  ultimately show ?thesis using r by simp
qed

section \<open>Resolving the key of a received packet\<close>

text \<open>
  The lookup that \<^verbatim>\<open>decrypt_packet_auto_l2\<close> and the three \<^verbatim>\<open>forwarder_resolve_\<close> functions write out
  for one table: the index entry, its bound, its ready flag and, at layer 4, the nonce size.
\<close>

definition pick_policy ::
    "(crypto_policy \<Rightarrow> bool) \<Rightarrow> policy_table \<Rightarrow> int \<Rightarrow> byte \<Rightarrow> (crypto_policy \<times> packet_crypto_ctx) option option" where
  "pick_policy guard t action policy_id =
     (let pi = pt_index t (nat action) policy_id
      in if pi < 0 \<or> int (length (pt_policies t)) \<le> pi then Some None
         else do {
           ready \<leftarrow> at (pt_ready t) (nat pi);
           if \<not> ready then Some None
           else do {
             cp \<leftarrow> at (pt_policies t) (nat pi);
             ctx \<leftarrow> at (pt_ctx t) (nat pi);
             Some (if guard cp then Some (cp, ctx) else None)
           }
         })"

text \<open>First the current table with the configuration's policies, then during the grace period
  the previous one.\<close>

definition pick_current_or_prev ::
    "(crypto_policy \<Rightarrow> bool) \<Rightarrow> crypto_runtime \<Rightarrow> app_config \<Rightarrow> u64 \<Rightarrow> int \<Rightarrow> byte \<Rightarrow>
     (crypto_policy \<times> packet_crypto_ctx) option option" where
  "pick_current_or_prev guard rt cfg now action policy_id = do {
     r \<leftarrow> pick_policy guard ((rt_active rt)\<lparr>pt_policies := ac_policies cfg\<rparr>) action policy_id;
     case r of
       Some x \<Rightarrow> Some (Some x)
     | None \<Rightarrow> if prev_policy_grace_active rt now then pick_policy guard (rt_prev rt) action policy_id else Some None
   }"

definition apply_picked ::
    "(crypto_policy \<times> packet_crypto_ctx) option \<Rightarrow> crypto_state \<Rightarrow> packet_crypto_ctx option \<times> crypto_state" where
  "apply_picked r st = (case r of None \<Rightarrow> (None, st) | Some (cp, ctx) \<Rightarrow> (Some ctx, crypto_apply_from_policy cp st))"

definition decrypt_packet_auto_l2 ::
    "evp \<Rightarrow> crypto_runtime \<Rightarrow> app_config \<Rightarrow> u64 \<Rightarrow> buf \<Rightarrow> nat \<Rightarrow> crypto_state \<Rightarrow> dispatch_result" where
  "decrypt_packet_auto_l2 E rt cfg now pkt pkt_len st =
     (if \<not> rt_enabled rt then Some (-1, pkt, pkt_len, st)
      else do {
        pkt_marker \<leftarrow> rd pkt 12;
        let fake_ipv4 = g_fake_ethertype_ipv4 st;
        if fake_ipv4 = 0 \<or> pkt_marker \<noteq> ucast (drop_bit 8 fake_ipv4) then Some (0, pkt, pkt_len, st)
        else if ac_policies cfg = [] then do {
          (new_len, pkt, st) \<leftarrow> packet_decrypt E (rt_base rt) pkt pkt_len (crypto_apply_default_from_cfg cfg st);
          if new_len < 0 then Some (-1, pkt, pkt_len, st) else Some (0, pkt, nat new_len, st)
        }
        else do {
          policy_id \<leftarrow> rd pkt 13;
          r \<leftarrow> pick_current_or_prev (\<lambda>cp. True) rt cfg now POLICY_ACTION_ENCRYPT_L2 policy_id;
          case r of
            None \<Rightarrow> Some (-1, pkt, pkt_len, st)
          | Some (cp, ctx) \<Rightarrow> do {
              (new_len, pkt, st) \<leftarrow> packet_decrypt E ctx pkt pkt_len (crypto_apply_from_policy cp st);
              if new_len < 0 then Some (-1, pkt, pkt_len, st) else Some (0, pkt, nat new_len, st)
            }
        }
      })"

definition forwarder_dispatch_ctx :: "crypto_runtime \<Rightarrow> app_config \<Rightarrow> u64 \<Rightarrow> crypto_dispatch_ctx" where
  "forwarder_dispatch_ctx rt cfg now = \<lparr>dc_base_ctx = rt_base rt,
     dc_current = (rt_active rt)\<lparr>pt_policies := ac_policies cfg\<rparr>, dc_prev = rt_prev rt,
     dc_prev_grace_active = prev_policy_grace_active rt now\<rparr>"

definition decrypt_packet_auto_by_action ::
    "evp \<Rightarrow> byte \<Rightarrow> crypto_runtime \<Rightarrow> app_config \<Rightarrow> u64 \<Rightarrow> int \<Rightarrow> buf \<Rightarrow> nat \<Rightarrow> nat \<Rightarrow> crypto_state \<Rightarrow>
     dispatch_result" where
  "decrypt_packet_auto_by_action E l3_magic rt cfg now action_layer pkt pkt_len scratch_sz st =
     (if \<not> rt_enabled rt then Some (-1, pkt, pkt_len, st)
      else crypto_decrypt_packet_auto_by_action E l3_magic (rt_enabled rt) cfg (forwarder_dispatch_ctx rt cfg now)
             action_layer pkt pkt_len scratch_sz st)"

definition forwarder_resolve_l3_decrypt_ctx ::
    "byte \<Rightarrow> crypto_runtime \<Rightarrow> app_config \<Rightarrow> u64 \<Rightarrow> buf \<Rightarrow> nat \<Rightarrow> crypto_state \<Rightarrow>
     (packet_crypto_ctx option \<times> crypto_state) option" where
  "forwarder_resolve_l3_decrypt_ctx l3_magic rt cfg now pkt pkt_len st =
     (if ac_policies cfg = [] then Some (Some (rt_base rt), crypto_apply_default_from_cfg cfg st)
      else do {
        id \<leftarrow> crypto_l3_extract_policy_id l3_magic st (ac_policies cfg) pkt pkt_len;
        case id of
          None \<Rightarrow> Some (None, st)
        | Some policy_id \<Rightarrow> do {
            r \<leftarrow> pick_current_or_prev (\<lambda>cp. True) rt cfg now POLICY_ACTION_ENCRYPT_L3 policy_id;
            Some (apply_picked r st)
          }
      })"

definition forwarder_resolve_l2_decrypt_ctx ::
    "crypto_runtime \<Rightarrow> app_config \<Rightarrow> u64 \<Rightarrow> buf \<Rightarrow> crypto_state \<Rightarrow>
     (packet_crypto_ctx option \<times> crypto_state) option" where
  "forwarder_resolve_l2_decrypt_ctx rt cfg now pkt st =
     (if ac_policies cfg = [] then Some (Some (rt_base rt), crypto_apply_default_from_cfg cfg st)
      else do {
        policy_id \<leftarrow> rd pkt 13;
        r \<leftarrow> pick_current_or_prev (\<lambda>cp. True) rt cfg now POLICY_ACTION_ENCRYPT_L2 policy_id;
        Some (apply_picked r st)
      })"

definition forwarder_resolve_l4_decrypt_ctx ::
    "crypto_runtime \<Rightarrow> app_config \<Rightarrow> u64 \<Rightarrow> buf \<Rightarrow> nat \<Rightarrow> crypto_state \<Rightarrow>
     (packet_crypto_ctx option \<times> crypto_state) option" where
  "forwarder_resolve_l4_decrypt_ctx rt cfg now pkt pkt_len st =
     (if ac_policies cfg = [] then Some (Some (rt_base rt), crypto_apply_default_from_cfg cfg st)
      else do {
        id \<leftarrow> crypto_l4_extract_policy_id_ipv4 (ac_policies cfg) pkt pkt_len;
        case id of
          None \<Rightarrow> Some (None, st)
        | Some (policy_id, nonce_size) \<Rightarrow> do {
            r \<leftarrow> pick_current_or_prev (\<lambda>cp. 0 < cp_nonce_size cp \<and> cp_nonce_size cp = nonce_size)
                   rt cfg now POLICY_ACTION_ENCRYPT_L4 policy_id;
            Some (apply_picked r st)
          }
      })"

definition policy_index_from_action_id_current :: "policy_table \<Rightarrow> app_config \<Rightarrow> int \<Rightarrow> byte \<Rightarrow> int option" where
  "policy_index_from_action_id_current t cfg action_layer policy_id =
     (if action_layer < 0 \<or> action_layer > POLICY_ACTION_ENCRYPT_L4 then Some (-1)
      else let pi = pt_index t (nat action_layer) policy_id
        in if pi < 0 \<or> pi \<ge> int (length (ac_policies cfg)) \<or> pi \<ge> int MAX_CRYPTO_POLICIES then Some (-1)
           else do {
             ready \<leftarrow> at (pt_ready t) (nat pi);
             Some (if ready then pi else -1)
           })"

section \<open>Sender and receiver with one configuration\<close>

text \<open>The policy that owns its action and wire id in a configuration.\<close>

definition owns_wire_id :: "app_config \<Rightarrow> crypto_policy \<Rightarrow> bool" where
  "owns_wire_id cfg cp \<longleftrightarrow> find (serves (nat (cp_action cp)) (wire_id cp)) (ac_policies cfg) = Some cp"

lemma owns_wire_idD:
  assumes "owns_wire_id cfg cp"
  obtains i where "i < length (ac_policies cfg)" "ac_policies cfg ! i = cp"
    "serves (nat (cp_action cp)) (wire_id cp) cp" "index_spec (ac_policies cfg) (nat (cp_action cp)) (wire_id cp) = int i"
proof -
  obtain i where i: "i < length (ac_policies cfg)" "ac_policies cfg ! i = cp"
      "serves (nat (cp_action cp)) (wire_id cp) cp"
      "\<forall>j<i. \<not> serves (nat (cp_action cp)) (wire_id cp) (ac_policies cfg ! j)"
    using assms by (auto simp: owns_wire_id_def find_Some_iff)
  then have "find (\<lambda>k. serves (nat (cp_action cp)) (wire_id cp) (ac_policies cfg ! k)) [0..<length (ac_policies cfg)] = Some i"
    by (auto simp: find_upt_Some_iff)
  then show ?thesis using that i by (simp add: index_spec_def)
qed

lemma rebuild_entry:
  assumes "evp_ctx_new E" "runtime_table_ok E old" "rebuild_crypto_runtime E cfg old st = (t, h, st')"
    and len: "length (ac_policies cfg) \<le> MAX_CRYPTO_POLICIES" and owns: "owns_wire_id cfg cp"
  obtains i where "pt_index t (nat (cp_action cp)) (wire_id cp) = int i" "i < length (ac_policies cfg)"
    "at (ac_policies cfg) i = Some cp" "at (pt_ready t) i = Some True" "at (pt_ctx t) i = Some (policy_ctx E cp)"
    "0 \<le> cp_action cp" "cp_action cp \<le> POLICY_ACTION_ENCRYPT_L4"
proof -
  note spec = rebuild_computes_spec' [OF assms(1) runtime_table_contexts [OF assms(2)] assms(3)]
  have pols: "take MAX_CRYPTO_POLICIES (ac_policies cfg) = ac_policies cfg" using len by simp
  from owns obtain i where i: "i < length (ac_policies cfg)" "ac_policies cfg ! i = cp"
    "serves (nat (cp_action cp)) (wire_id cp) cp" "index_spec (ac_policies cfg) (nat (cp_action cp)) (wire_id cp) = int i"
    by (rule owns_wire_idD)
  have "length (pt_ctx t) = MAX_CRYPTO_POLICIES" using spec by (simp add: runtime_table_ok_def)
  then show ?thesis
    using that [of i] spec i len unfolding pols
    by (cases "0 \<le> cp_action cp") (simp_all add: at_eq_Some_iff serves_def nth_append)
qed

lemma rebuild_served:
  assumes "evp_ctx_new E" "runtime_table_ok E old" "rebuild_crypto_runtime E cfg old st = (t, h, st')"
    and "length (ac_policies cfg) \<le> MAX_CRYPTO_POLICIES" and "owns_wire_id cfg cp"
  shows "policy_served (t\<lparr>pt_policies := ac_policies cfg\<rparr>) cp (policy_ctx E cp)"
proof -
  from assms obtain i where "pt_index t (nat (cp_action cp)) (wire_id cp) = int i" "i < length (ac_policies cfg)"
    "at (ac_policies cfg) i = Some cp" "at (pt_ready t) i = Some True" "at (pt_ctx t) i = Some (policy_ctx E cp)"
    "0 \<le> cp_action cp" "cp_action cp \<le> POLICY_ACTION_ENCRYPT_L4" by (rule rebuild_entry)
  then show ?thesis by (auto simp: policy_served_def lookup_policy_index_def Let_def)
qed

lemma rebuild_picked:
  assumes "evp_ctx_new E" "runtime_table_ok E old" "rebuild_crypto_runtime E cfg old st = (rt_active rt, h, st')"
    and "length (ac_policies cfg) \<le> MAX_CRYPTO_POLICIES" and "owns_wire_id cfg cp" and "guard cp"
  shows "pick_current_or_prev guard rt cfg now (cp_action cp) (wire_id cp) = Some (Some (cp, policy_ctx E cp))"
proof -
  from assms(1-5) obtain i where "pt_index (rt_active rt) (nat (cp_action cp)) (wire_id cp) = int i" "i < length (ac_policies cfg)"
    "at (ac_policies cfg) i = Some cp" "at (pt_ready (rt_active rt)) i = Some True"
    "at (pt_ctx (rt_active rt)) i = Some (policy_ctx E cp)" by (rule rebuild_entry)
  then show ?thesis using assms(6) by (simp add: pick_current_or_prev_def pick_policy_def)
qed

lemma policy_ctx_ok:
  assumes "evp_ok E" and "32 \<le> length (cp_key cp)"
  shows "ctx_ok (policy_ctx E cp)"
  using assms
  by (auto simp: policy_ctx_def packet_crypto_init_def derive_key_def ctx_ok_def evp_ok_def get_key_size_def Let_def)

text \<open>Two gateways with the same configuration understand each other at layer 4: a packet
  encrypted with the sender's context for a policy is delivered by the receiver, whatever
  tables each had before and whatever the previous tables of the receiver are.\<close>

theorem gateways_l4_deliver:
  fixes packet :: buf
  defines "st cp s \<equiv> crypto_apply_from_policy cp s"
  assumes ready: "crypto_ready E (st cp s)" "crypto_ready E (st cp r)" "same_policy (st cp s) (st cp r)"
    and sender: "runtime_table_ok E old" "rebuild_crypto_runtime E cfg old ss = (ts, hs, ss')"
      "i < length (ac_policies cfg)" "ac_policies cfg ! i = cp"
    and receiver: "runtime_table_ok E old'" "rebuild_crypto_runtime E cfg old' rs = (rt_active rt, hr, rs')" "rt_enabled rt"
    and cfg: "length (ac_policies cfg) \<le> MAX_CRYPTO_POLICIES" "owns_wire_id cfg cp" "32 \<le> length (cp_key cp)"
      "cp_action cp = POLICY_ACTION_ENCRYPT_L4"
      "\<forall>c \<in> set (ac_policies cfg). cp_action c = POLICY_ACTION_ENCRYPT_L4 \<longrightarrow> cp_nonce_size c = cp_nonce_size cp"
    and pkt: "l4_packet packet pkt_len l3_off ihl" "pkt_len + l4_overhead (st cp s) \<le> length packet"
      "patched packet l3_off ihl (of_nat (pkt_len - l3_off)) = packet"
  shows "\<exists>wire len st1 dec st2.
    crypto_layer4_encrypt E (pt_ctx ts ! i) packet pkt_len (st cp s) = Some (int len, wire, st1) \<and>
    decrypt_packet_auto_by_action E l3_magic rt cfg now POLICY_ACTION_ENCRYPT_L4 wire len scratch_sz r =
      Some (0, dec, pkt_len, st2) \<and> take pkt_len dec = take pkt_len packet"
proof -
  have E: "evp_ok E" "evp_ctx_new E" using ready(1) by (auto simp: crypto_ready_def evp_ok_def)
  have pols: "take MAX_CRYPTO_POLICIES (ac_policies cfg) = ac_policies cfg" using cfg(1) by simp
  have mem: "cp \<in> set (ac_policies cfg)" using sender(3,4) by auto
  have "serviceable cp" using cfg(2) by (auto elim!: owns_wire_idD simp: serves_def)
  then have ctx: "pt_ctx ts ! i = policy_ctx E cp"
    using rebuild_computes_spec' [OF E(2) runtime_table_contexts [OF sender(1)] sender(2)] sender(3,4) unfolding pols by auto
  have served: "policy_served (dc_current (forwarder_dispatch_ctx rt cfg now)) cp (policy_ctx E cp)"
    using rebuild_served [OF E(2) receiver(1,2) cfg(1,2)] by (simp add: forwarder_dispatch_ctx_def)
  have ok: "ctx_ok (policy_ctx E cp)" by (rule policy_ctx_ok [OF E(1) cfg(3)])
  show ?thesis
    using dispatch_l4_carries [OF ready [unfolded st_def] ok ok refl pkt [unfolded st_def] cfg(4) _ cfg(4) refl cfg(5) disjI1 [OF served]]
      mem pols receiver(3) by (simp add: decrypt_packet_auto_by_action_def ctx st_def)
qed

definition sample_cfg_l4 :: app_config where
  "sample_cfg_l4 = sample_cfg\<lparr>ac_policies := [sample_policy_l4]\<rparr>"

definition sample_rt :: crypto_runtime where
  "sample_rt = \<lparr>rt_enabled = True, rt_layer = 4, rt_base = sample_ctx,
     rt_active = fst (rebuild_crypto_runtime sample_evp sample_cfg_l4 empty_table sample_st),
     rt_prev = empty_table, rt_prev_grace_until_ms = 0\<rparr>"

lemma sample_policy_l4_key: "length (cp_key sample_policy_l4) = 32" "serviceable sample_policy_l4"
  by (simp_all add: sample_policy_l4_def sample_policy_def serviceable_def list_all_iff)

lemma sample_owns: "owns_wire_id sample_cfg_l4 sample_policy_l4"
  using sample_policy_l4_key by (simp add: owns_wire_id_def sample_cfg_l4_def serves_def sample_apply)

theorem gateways_l4_deliver_witness:
  "\<exists>wire len st1 dec st2.
    crypto_layer4_encrypt sample_evp (pt_ctx (rt_active sample_rt) ! 0) sample_packet 50
      (crypto_apply_from_policy sample_policy_l4 sample_st) = Some (int len, wire, st1) \<and>
    decrypt_packet_auto_by_action sample_evp 0 sample_rt sample_cfg_l4 5 POLICY_ACTION_ENCRYPT_L4 wire len 8192 sample_st =
      Some (0, dec, 50, st2) \<and> take 50 dec = take 50 sample_packet"
proof -
  have "ihl_bytes 0x45 = 20" by (simp add: ihl_bytes_def)
  then have pkt: "l4_packet sample_packet 50 14 20"
    by (simp add: l4_packet_def crypto_eth_ipv4_offset_def get_transport_hdr_size_def be16_def)
  obtain h st' where r: "rebuild_crypto_runtime sample_evp sample_cfg_l4 empty_table sample_st = (rt_active sample_rt, h, st')"
    by (cases "rebuild_crypto_runtime sample_evp sample_cfg_l4 empty_table sample_st") (simp add: sample_rt_def)
  have "ac_policies sample_cfg_l4 = [sample_policy_l4]" by (simp add: sample_cfg_l4_def)
  then show ?thesis
    using gateways_l4_deliver [OF _ _ _ empty_table_ok r _ _ empty_table_ok r, of sample_policy_l4 sample_st sample_st 0
        sample_packet 50 14 20 0 5 8192] pkt sample_policy_l4_key(1) sample_owns
    by (simp add: sample_apply sample_rt_def)
qed

section \<open>Nonces across a rebuild\<close>

text \<open>A policy of the new configuration whose context has to be initialised.\<close>

definition fresh_policy :: "policy_table \<Rightarrow> crypto_policy \<Rightarrow> bool" where
  "fresh_policy old cp \<longleftrightarrow> serviceable cp \<and>
     \<not> (\<exists>oi < length (pt_policies old). pt_ready old ! oi \<and> pt_policies old ! oi = cp)"

lemma rebuild_policy_counter:
  assumes "evp_ctx_new E" and "rebuild_policy E old pi cp (t, h, st) = (t', h', st')"
  shows "g_nonce_counter st' = (if fresh_policy old cp then 0 else g_nonce_counter st) \<and>
    tls_nonce_salt st' = tls_nonce_salt st \<and> g_nonce_size st' = g_nonce_size st"
proof (cases "serviceable cp")
  case False
  then show ?thesis using assms by (auto simp: rebuild_policy_def serviceable_def fresh_policy_def split: if_splits)
next
  case True
  let ?P = "\<lambda>oi. pt_ready old ! oi \<and> same_crypto_policy (pt_policies old ! oi) cp"
  have fresh: "fresh_policy old cp \<longleftrightarrow> find ?P [0..<length (pt_policies old)] = None"
    using True by (auto simp: fresh_policy_def find_None_iff same_crypto_policy_eq)
  show ?thesis
  proof (cases "find ?P [0..<length (pt_policies old)]")
    case None
    then show ?thesis using fresh True assms by (auto simp: rebuild_policy_def serviceable_def packet_crypto_init_ctx)
  next
    case (Some oi)
    then show ?thesis using fresh True assms by (auto simp: rebuild_policy_def serviceable_def)
  qed
qed

lemma rebuild_loop_counter:
  assumes "evp_ctx_new E" and "rebuild_loop E old pi cps (t, h, st) = (t', h', st')"
  shows "g_nonce_counter st' = (if \<exists>cp\<in>set cps. fresh_policy old cp then 0 else g_nonce_counter st) \<and>
    tls_nonce_salt st' = tls_nonce_salt st \<and> g_nonce_size st' = g_nonce_size st"
  using assms(2)
proof (induction cps arbitrary: pi t h st)
  case (Cons cp cps)
  obtain t1 h1 st1 where r: "rebuild_policy E old pi cp (t, h, st) = (t1, h1, st1)" by (metis prod_cases3)
  have "rebuild_loop E old (Suc pi) cps (t1, h1, st1) = (t', h', st')" using Cons.prems r by simp
  from Cons.IH [OF this] rebuild_policy_counter [OF assms(1) r] show ?case by auto
qed simp

text \<open>C15: A reload that brings one new policy makes the retained policies repeat their nonces: the
  counter of the process starts again at zero while the key of the retained policy and the
  salt of the thread stay.  \<open>st0\<close> is a state in which the counter was zero before.\<close>

theorem reload_repeats_nonces:
  assumes "evp_ctx_new E" "runtime_table_ok E old" "rebuild_crypto_runtime E cfg old st = (t, h, st')"
    and kept: "oi < length (pt_policies old)" "pt_ready old ! oi" "pt_policies old ! oi = cp"
      "i < min (length (ac_policies cfg)) MAX_CRYPTO_POLICIES" "ac_policies cfg ! i = cp"
    and new: "fresh_policy old cn" "cn \<in> set (take MAX_CRYPTO_POLICIES (ac_policies cfg))"
    and st0: "g_nonce_counter st0 = 0" "tls_nonce_salt st0 = tls_nonce_salt st" "g_nonce_size st0 = g_nonce_size st"
  shows "pt_ctx t ! i = pt_ctx old ! oi \<and>
    map_option fst (crypto_generate_nonce E (snd (packet_crypto_next_counter st')) (fst (packet_crypto_next_counter st')) flag) =
    map_option fst (crypto_generate_nonce E (snd (packet_crypto_next_counter st0)) (fst (packet_crypto_next_counter st0)) flag)"
proof -
  let ?cps = "take MAX_CRYPTO_POLICIES (ac_policies cfg)"
  obtain t1 h1 where run: "rebuild_loop E old 0 ?cps
      (old\<lparr>pt_ready := replicate MAX_CRYPTO_POLICIES False, pt_index := (\<lambda>a id. -1)\<rparr>, False, st) = (t1, h1, st')"
    using assms(3) by (auto simp: rebuild_crypto_runtime_def Let_def split: prod.splits)
  have ctr: "g_nonce_counter st' = 0" "tls_nonce_salt st' = tls_nonce_salt st" "g_nonce_size st' = g_nonce_size st"
    using rebuild_loop_counter [OF assms(1) run] new by auto
  have "serviceable cp" "pt_ctx old ! oi = policy_ctx E cp" using assms(2) kept by (auto simp: runtime_table_ok_def)
  moreover have "pt_ctx t ! i = policy_ctx E cp"
    using rebuild_computes_spec' [OF assms(1) runtime_table_contexts [OF assms(2)] assms(3)] kept(4,5) calculation(1) by auto
  ultimately show ?thesis using ctr st0
    by (simp add: crypto_generate_nonce_def packet_crypto_next_counter_def Let_def split: option.split)
qed

text \<open>The retained policy has nonces of twelve bytes; the second policy is new.\<close>

theorem reload_repeats_nonces_witness:
  "let old = rt_active sample_rt;
     (t, h, st') = rebuild_crypto_runtime sample_evp (sample_cfg\<lparr>ac_policies := [sample_policy_l4, sample_policy]\<rparr>)
       old (sample_st\<lparr>g_nonce_counter := 77\<rparr>)
   in pt_ctx t ! 0 = pt_ctx old ! 0 \<and>
     map_option fst (crypto_generate_nonce sample_evp (snd (packet_crypto_next_counter st')) (fst (packet_crypto_next_counter st')) 0) =
     map_option fst (crypto_generate_nonce sample_evp (snd (packet_crypto_next_counter (sample_st\<lparr>g_nonce_counter := 0\<rparr>)))
       (fst (packet_crypto_next_counter (sample_st\<lparr>g_nonce_counter := 0\<rparr>))) 0)"
proof -
  obtain h0 st0 where r0: "rebuild_crypto_runtime sample_evp sample_cfg_l4 empty_table sample_st = (rt_active sample_rt, h0, st0)"
    by (cases "rebuild_crypto_runtime sample_evp sample_cfg_l4 empty_table sample_st") (simp add: sample_rt_def)
  have E: "evp_ctx_new sample_evp" by (simp add: sample_evp_def)
  note old = rebuild_computes_spec' [OF E runtime_table_contexts [OF empty_table_ok] r0]
  have "sample_policy \<noteq> sample_policy_l4" by (simp add: sample_policy_l4_def sample_policy_def)
  moreover have "serviceable sample_policy" by (simp add: sample_policy_def serviceable_def list_all_iff)
  ultimately have fresh: "fresh_policy (rt_active sample_rt) sample_policy"
    using old by (auto simp: fresh_policy_def sample_cfg_l4_def)
  obtain t h st' where r: "rebuild_crypto_runtime sample_evp (sample_cfg\<lparr>ac_policies := [sample_policy_l4, sample_policy]\<rparr>)
       (rt_active sample_rt) (sample_st\<lparr>g_nonce_counter := 77\<rparr>) = (t, h, st')" by (metis prod_cases3)
  show ?thesis
    using reload_repeats_nonces [OF E conjunct2 [OF conjunct2 [OF conjunct2 [OF conjunct2 [OF conjunct2 [OF old]]]]] r,
        of 0 sample_policy_l4 0 sample_policy "sample_st\<lparr>g_nonce_counter := 0\<rparr>" 0] old fresh sample_policy_l4_key(2)
    by (simp add: r sample_cfg_l4_def)
qed

end
