(* ===== verification/Interfaces.thy ===== *)
theory Interfaces
  imports Prelude
begin

text \<open>
  The contracts between the forwarder and the tables it keeps, as locales: a store that maps
  keys to values and may refuse or forget an entry (the ARP cache, the pinned policies), and
  a bounded first-in first-out queue (the worker ring).  What the forwarder relies on is
  proved here once; each table discharges the laws for the code's operations.
\<close>

section \<open>Stores\<close>

text \<open>
  Keys are compared by \<open>same\<close>, which identifies the two directions of a connection.  A store may
  refuse a new entry (no memory, no room), but it never changes the entry of another key.
\<close>

locale keyed_store =
  fixes valid :: "'s \<Rightarrow> bool"
    and lookup :: "'s \<Rightarrow> 'k \<Rightarrow> 'v option"
    and put :: "'p \<Rightarrow> 's \<Rightarrow> 'k \<Rightarrow> 'v \<Rightarrow> 's"
    and same :: "'k \<Rightarrow> 'k \<Rightarrow> bool"
  assumes put_valid: "valid s \<Longrightarrow> valid (put p s k v)"
    and put_same: "valid s \<Longrightarrow> same k k' \<Longrightarrow>
      lookup (put p s k v) k' = Some v \<or> lookup (put p s k v) k' = lookup s k'"
    and put_other: "valid s \<Longrightarrow> \<not> same k k' \<Longrightarrow> lookup (put p s k v) k' = lookup s k'"
begin

lemma put_sound:
  "valid s \<Longrightarrow> lookup (put p s k v) k' = Some w \<Longrightarrow> lookup s k' = Some w \<or> same k k' \<and> v = w"
  using put_same [of s k k' p v] put_other [of s k k' p v] by (cases "same k k'") auto

lemma puts_valid: "valid s \<Longrightarrow> valid (foldl (\<lambda>s (p, k, v). put p s k v) s xs)"
  by (induction xs arbitrary: s) (auto intro: put_valid)

end

text \<open>A store whose entries are also dropped, by expiry, removal or invalidation.\<close>

locale evicting_store = keyed_store +
  fixes evict :: "'e \<Rightarrow> 'a \<Rightarrow> 'a"
  assumes evict_valid: "valid s \<Longrightarrow> valid (evict e s)"
    and evict_sub: "valid s \<Longrightarrow> lookup (evict e s) k = lookup s k \<or> lookup (evict e s) k = None"
begin

text \<open>
  After any sequence of operations a lookup finds nothing but what was put under the same key:
  no entry is invented and none moves to another key.
\<close>

lemma run_sound:
  assumes "valid s"
    and "lookup (foldl (\<lambda>s op. case op of Inl (p, k, v) \<Rightarrow> put p s k v | Inr e \<Rightarrow> evict e s) s ops) k' = Some w"
  shows "lookup s k' = Some w \<or> (\<exists>p k. Inl (p, k, w) \<in> set ops \<and> same k k')"
  using assms
proof (induction ops arbitrary: s)
  case (Cons op ops)
  show ?case
  proof (cases op)
    case (Inl x)
    obtain p k v where x: "x = (p, k, v)" by (metis prod_cases3)
    have "lookup (put p s k v) k' = Some w \<or> (\<exists>p k. Inl (p, k, w) \<in> set ops \<and> same k k')"
      using Cons.IH [of "put p s k v"] Cons.prems put_valid Inl x by simp
    then show ?thesis using put_sound [OF Cons.prems(1)] Inl x by auto blast
  next
    case (Inr e)
    have "lookup (evict e s) k' = Some w \<or> (\<exists>p k. Inl (p, k, w) \<in> set ops \<and> same k k')"
      using Cons.IH [of "evict e s"] Cons.prems evict_valid Inr by simp
    then show ?thesis using evict_sub [OF Cons.prems(1), of e k'] by auto
  qed
qed simp

lemma run_valid:
  "valid s \<Longrightarrow> valid (foldl (\<lambda>s op. case op of Inl (p, k, v) \<Rightarrow> put p s k v | Inr e \<Rightarrow> evict e s) s ops)"
  by (induction ops arbitrary: s) (auto intro: put_valid evict_valid split: sum.split)

end

section \<open>Bounded queues\<close>

locale bounded_queue =
  fixes inv :: "'q \<Rightarrow> bool"
    and items :: "'q \<Rightarrow> 'x list"
    and cap :: nat
    and enq :: "'x \<Rightarrow> 'q \<Rightarrow> bool \<times> 'q"
    and deq :: "'q \<Rightarrow> 'x option \<times> 'q"
  assumes enq_room: "inv q \<Longrightarrow> length (items q) < cap \<Longrightarrow>
      fst (enq x q) \<and> inv (snd (enq x q)) \<and> items (snd (enq x q)) = items q @ [x]"
    and enq_full: "inv q \<Longrightarrow> \<not> length (items q) < cap \<Longrightarrow> enq x q = (False, q)"
    and deq_empty: "inv q \<Longrightarrow> items q = [] \<Longrightarrow> deq q = (None, q)"
    and deq_item: "inv q \<Longrightarrow> items q = x # xs \<Longrightarrow>
      fst (deq q) = Some x \<and> inv (snd (deq q)) \<and> items (snd (deq q)) = xs"
    and bound: "inv q \<Longrightarrow> length (items q) \<le> cap"
begin

lemma enq_inv: "inv q \<Longrightarrow> inv (snd (enq x q))"
  using enq_room enq_full by (cases "length (items q) < cap") auto

lemma deq_inv: "inv q \<Longrightarrow> inv (snd (deq q))"
  using deq_empty deq_item by (cases "items q") auto

text \<open>
  One operation of a run: \<open>Some x\<close> offers \<open>x\<close>, \<open>None\<close> takes an item.  The run keeps the queue with
  the accepted and the delivered items.
\<close>

lemma run_fifo:
  assumes "inv q"
    and "foldl (\<lambda>(q, acc, out) op. case op of
           Some x \<Rightarrow> (snd (enq x q), if fst (enq x q) then acc @ [x] else acc, out)
         | None \<Rightarrow> (snd (deq q), acc, case fst (deq q) of None \<Rightarrow> out | Some y \<Rightarrow> out @ [y]))
         (q, acc, out) ops = (q', acc', out')"
    and "acc = out @ items q"
  shows "inv q' \<and> acc' = out' @ items q'"
  using assms
proof (induction ops arbitrary: q acc out)
  case (Cons op ops)
  show ?case
  proof (cases op)
    case None
    obtain r q1 where d: "deq q = (r, q1)" by fastforce
    show ?thesis
    proof (cases "items q")
      case Nil
      then show ?thesis using Cons.IH [of q acc out] Cons.prems deq_empty [OF Cons.prems(1)] None by simp
    next
      case (Cons x xs)
      then have "r = Some x" "inv q1" "items q1 = xs" using deq_item [OF Cons.prems(1), of x xs] d by auto
      then show ?thesis using Cons.IH [of q1 acc "out @ [x]"] Cons.prems None d Cons by simp
    qed
  next
    case (Some x)
    obtain ok q1 where e: "enq x q = (ok, q1)" by fastforce
    show ?thesis
    proof (cases "length (items q) < cap")
      case True
      then have "ok" "inv q1" "items q1 = items q @ [x]" using enq_room [OF Cons.prems(1), of x] e by auto
      then show ?thesis using Cons.IH [of q1 "acc @ [x]" out] Cons.prems Some e by simp
    next
      case False
      then show ?thesis using Cons.IH [of q acc out] Cons.prems enq_full [OF Cons.prems(1) False, of x] Some by (simp add: Let_def)
    qed
  qed
qed simp

end

section \<open>Packet ports\<close>

text \<open>
  What the packet threads rely on when they hand packets to an interface: a send never goes
  wrong; it reports 0 and the packet is the next one handed over, or it reports -1 and nothing
  was handed over; whatever else happens to the port in between, the packets handed over stay
  what they are.  The first argument of a send and the other events carry what the environment
  does.
\<close>

locale packet_port =
  fixes inv :: "'s \<Rightarrow> bool"
    and handed :: "'s \<Rightarrow> 'p list"
    and fits :: "'p \<Rightarrow> bool"
    and env_ok :: "'k \<Rightarrow> bool"
    and event_ok :: "'e \<Rightarrow> bool"
    and send :: "'k \<Rightarrow> 'p \<Rightarrow> 's \<Rightarrow> (int \<times> 's) option"
    and other :: "'e \<Rightarrow> 's \<Rightarrow> 's option"
  assumes send_contract: "inv s \<Longrightarrow> env_ok k \<Longrightarrow> fits p \<Longrightarrow>
      \<exists>ret s'. send k p s = Some (ret, s') \<and> ret \<in> {0, -1} \<and> inv s' \<and>
        handed s' = (if ret = 0 then handed s @ [p] else handed s)"
    and other_contract: "inv s \<Longrightarrow> event_ok e \<Longrightarrow>
      \<exists>s'. other e s = Some s' \<and> inv s' \<and> handed s' = handed s"
begin

lemma send_result: "inv s \<Longrightarrow> env_ok k \<Longrightarrow> fits p \<Longrightarrow> send k p s = Some (ret, s') \<Longrightarrow>
    inv s' \<and> (ret = 0 \<or> ret = -1) \<and> handed s' = (if ret = 0 then handed s @ [p] else handed s)"
  using send_contract by fastforce

text \<open>A run of sends and other events, with the packets that were accepted.\<close>

lemma run_handed:
  assumes "inv s" and "\<forall>op \<in> set ops. case op of Inl (k, p) \<Rightarrow> env_ok k \<and> fits p | Inr e \<Rightarrow> event_ok e"
  shows "\<exists>s' acc. foldl (\<lambda>r op. Option.bind r (\<lambda>(s, acc). case op of
             Inl (k, p) \<Rightarrow> map_option (\<lambda>(ret, s). (s, if ret = 0 then acc @ [p] else acc)) (send k p s)
           | Inr e \<Rightarrow> map_option (\<lambda>s. (s, acc)) (other e s))) (Some (s, acc0)) ops = Some (s', acc0 @ acc) \<and>
     inv s' \<and> handed s' = handed s @ acc"
  using assms
proof (induction ops arbitrary: s acc0)
  case Nil then show ?case by auto
next
  case (Cons op ops)
  show ?case
  proof (cases op)
    case (Inl kp)
    obtain k p where kp: "kp = (k, p)" by fastforce
    obtain ret s1 where s1: "send k p s = Some (ret, s1)" "inv s1" "handed s1 = (if ret = 0 then handed s @ [p] else handed s)"
      using send_contract [OF Cons.prems(1)] Cons.prems(2) Inl kp by fastforce
    obtain s' acc where "foldl (\<lambda>r op. Option.bind r (\<lambda>(s, acc). case op of
             Inl (k, p) \<Rightarrow> map_option (\<lambda>(ret, s). (s, if ret = 0 then acc @ [p] else acc)) (send k p s)
           | Inr e \<Rightarrow> map_option (\<lambda>s. (s, acc)) (other e s))) (Some (s1, if ret = 0 then acc0 @ [p] else acc0)) ops =
           Some (s', (if ret = 0 then acc0 @ [p] else acc0) @ acc)" "inv s'" "handed s' = handed s1 @ acc"
      using Cons.IH [OF s1(2), of "if ret = 0 then acc0 @ [p] else acc0"] Cons.prems(2) by auto
    then show ?thesis using Inl kp s1
      by (intro exI [of _ s'] exI [of _ "if ret = 0 then p # acc else acc"]) auto
  next
    case (Inr e)
    obtain s1 where s1: "other e s = Some s1" "inv s1" "handed s1 = handed s"
      using other_contract [OF Cons.prems(1)] Cons.prems(2) Inr by fastforce
    then show ?thesis using Cons.IH [OF s1(2), of acc0] Cons.prems(2) Inr by auto
  qed
qed

end

end
