(* ===== verification/PolicyPin.thy ===== *)
theory PolicyPin
  imports FlowTable Interfaces
begin

text \<open>
  The policy pins of TCP connections, \<^verbatim>\<open>tcp_policy_pin_*\<close> in \<^verbatim>\<open>src/core/forwarder.c\<close>: once a
  connection has been classified, its packets keep the policy until the connection closes,
  falls silent for two minutes or the policies are reloaded.

  A hash bucket is the list of its chain.  Each operation runs under the lock of its bucket.
  The clock and the success of \<^verbatim>\<open>calloc\<close> are inputs; the configured policies and the ready flags
  are those of the moment.
\<close>

section \<open>State\<close>

abbreviation (input) TCP_POLICY_PIN_TIMEOUT_SEC :: u64 where "TCP_POLICY_PIN_TIMEOUT_SEC \<equiv> 120"

type_synonym tuple = "u32 \<times> u32 \<times> u16 \<times> u16"

record tcp_policy_pin_entry =
  pe_tuple :: tuple
  pe_policy_pi :: int
  pe_last_seen_sec :: u64

record pin_table =
  pin_inited :: bool
  pin_buckets :: "nat \<Rightarrow> tcp_policy_pin_entry list"

definition tcp_policy_pin_normalize_tuple :: "u32 \<Rightarrow> u32 \<Rightarrow> u16 \<Rightarrow> u16 \<Rightarrow> tuple" where
  "tcp_policy_pin_normalize_tuple src_ip dst_ip src_port dst_port =
     (let a = ntohl src_ip; b = ntohl dst_ip
      in if a > b \<or> (a = b \<and> src_port > dst_port)
         then (dst_ip, src_ip, dst_port, src_port)
         else (src_ip, dst_ip, src_port, dst_port))"

definition tcp_policy_pin_hash :: "tuple \<Rightarrow> nat" where
  "tcp_policy_pin_hash t =
     (let (src_ip, dst_ip, src_port, dst_port) = t;
          hash = src_ip XOR dst_ip;
          hash = hash XOR (push_bit 16 (ucast src_port) OR ucast dst_port);
          hash = hash XOR 6;
          hash = hash XOR drop_bit 16 hash;
          hash = hash * 0x85ebca6b;
          hash = hash XOR drop_bit 13 hash;
          hash = hash * 0xc2b2ae35;
          hash = hash XOR drop_bit 16 hash
      in unat hash mod FLOW_TABLE_SIZE)"

section \<open>Operations\<close>

definition tcp_policy_pin_init :: "pin_table \<Rightarrow> pin_table" where
  "tcp_policy_pin_init t = (if pin_inited t then t else \<lparr>pin_inited = True, pin_buckets = (\<lambda>_. [])\<rparr>)"

definition clear_buckets :: "pin_table \<Rightarrow> pin_table" where
  "clear_buckets t = t\<lparr>pin_buckets := (\<lambda>i. if i < FLOW_TABLE_SIZE then [] else pin_buckets t i)\<rparr>"

definition tcp_policy_pin_cleanup :: "pin_table \<Rightarrow> pin_table" where
  "tcp_policy_pin_cleanup t = (if \<not> pin_inited t then t else (clear_buckets t)\<lparr>pin_inited := False\<rparr>)"

definition tcp_policy_pin_clear_all :: "pin_table \<Rightarrow> pin_table" where
  "tcp_policy_pin_clear_all t = (if \<not> pin_inited t then t else clear_buckets t)"

definition tcp_policy_pin_gc :: "bool \<Rightarrow> u64 \<Rightarrow> pin_table \<Rightarrow> pin_table" where
  "tcp_policy_pin_gc crypto_enabled now t =
     (if \<not> pin_inited t \<or> \<not> crypto_enabled then t
      else if now = 0 then t
      else t\<lparr>pin_buckets := (\<lambda>i. if i < FLOW_TABLE_SIZE
             then filter (\<lambda>e. \<not> (now - pe_last_seen_sec e > TCP_POLICY_PIN_TIMEOUT_SEC)) (pin_buckets t i)
             else pin_buckets t i)\<rparr>)"

definition tcp_policy_pin_set ::
    "bool \<Rightarrow> u64 \<Rightarrow> bool \<Rightarrow> pin_table \<Rightarrow> u32 \<Rightarrow> u32 \<Rightarrow> u16 \<Rightarrow> u16 \<Rightarrow> int \<Rightarrow> pin_table" where
  "tcp_policy_pin_set crypto_enabled now malloc_ok t src_ip dst_ip src_port dst_port policy_pi =
     (if \<not> crypto_enabled \<or> \<not> pin_inited t then t
      else if policy_pi < 0 \<or> policy_pi \<ge> int MAX_CRYPTO_POLICIES then t
      else let key = tcp_policy_pin_normalize_tuple src_ip dst_ip src_port dst_port;
               idx = tcp_policy_pin_hash key
        in case upd_first (\<lambda>e. pe_tuple e = key) (\<lambda>e. e\<lparr>pe_policy_pi := policy_pi, pe_last_seen_sec := now\<rparr>)
                  (pin_buckets t idx) of
             Some (_, chain) \<Rightarrow> t\<lparr>pin_buckets := (pin_buckets t)(idx := chain)\<rparr>
           | None \<Rightarrow>
               if \<not> malloc_ok then t
               else t\<lparr>pin_buckets := (pin_buckets t)(idx :=
                      \<lparr>pe_tuple = key, pe_policy_pi = policy_pi, pe_last_seen_sec = now\<rparr> # pin_buckets t idx)\<rparr>)"

definition tcp_policy_pin_remove ::
    "bool \<Rightarrow> pin_table \<Rightarrow> u32 \<Rightarrow> u32 \<Rightarrow> u16 \<Rightarrow> u16 \<Rightarrow> pin_table" where
  "tcp_policy_pin_remove crypto_enabled t src_ip dst_ip src_port dst_port =
     (if \<not> crypto_enabled \<or> \<not> pin_inited t then t
      else let key = tcp_policy_pin_normalize_tuple src_ip dst_ip src_port dst_port;
               idx = tcp_policy_pin_hash key
        in t\<lparr>pin_buckets := (pin_buckets t)(idx := del_first (\<lambda>e. pe_tuple e = key) (pin_buckets t idx))\<rparr>)"

text \<open>
  Whether the pinned index may still be used: in range of the configuration, and its context
  ready unless it is a bypass.
\<close>

definition pin_usable :: "crypto_policy list \<Rightarrow> bool list \<Rightarrow> int \<Rightarrow> bool option" where
  "pin_usable policies ready pi =
     (if 0 \<le> pi \<and> pi < int (length policies) \<and> pi < int MAX_CRYPTO_POLICIES
      then if cp_action (policies ! nat pi) \<noteq> POLICY_ACTION_BYPASS then at ready (nat pi) else Some True
      else Some False)"

text \<open>The policy is returned as its index; an entry that may not be used is unlinked.\<close>

definition tcp_policy_pin_lookup ::
    "bool \<Rightarrow> u64 \<Rightarrow> crypto_policy list \<Rightarrow> bool list \<Rightarrow> pin_table \<Rightarrow> u32 \<Rightarrow> u32 \<Rightarrow> u16 \<Rightarrow> u16 \<Rightarrow>
     (nat option \<times> pin_table) option" where
  "tcp_policy_pin_lookup crypto_enabled now policies ready t src_ip dst_ip src_port dst_port =
     (if \<not> crypto_enabled \<or> \<not> pin_inited t then Some (None, t)
      else let key = tcp_policy_pin_normalize_tuple src_ip dst_ip src_port dst_port;
               idx = tcp_policy_pin_hash key
        in case find (\<lambda>e. pe_tuple e = key) (pin_buckets t idx) of
             None \<Rightarrow> Some (None, t)
           | Some e \<Rightarrow> do {
               ok \<leftarrow> pin_usable policies ready (pe_policy_pi e);
               if ok
               then (case upd_first (\<lambda>e. pe_tuple e = key) (\<lambda>e. e\<lparr>pe_last_seen_sec := now\<rparr>) (pin_buckets t idx) of
                       Some (_, chain) \<Rightarrow>
                         Some (Some (nat (pe_policy_pi e)), t\<lparr>pin_buckets := (pin_buckets t)(idx := chain)\<rparr>)
                     | None \<Rightarrow> Some (None, t))
               else Some (None, t\<lparr>pin_buckets := (pin_buckets t)(idx :=
                           del_first (\<lambda>e. pe_tuple e = key) (pin_buckets t idx))\<rparr>)
             })"

section \<open>Keys\<close>

text \<open>The normalisation and the hash are those of the flow table, for protocol TCP.\<close>

lemma pin_normalize_eq_flow: "tcp_policy_pin_normalize_tuple = normalize_flow_5tuple"
  by (simp add: fun_eq_iff tcp_policy_pin_normalize_tuple_def normalize_flow_5tuple_def)

lemma pin_hash_eq_flow: "tcp_policy_pin_hash (s, d, sp, dp) = flow_hash s d sp dp 6"
  by (simp add: tcp_policy_pin_hash_def flow_hash_def)

lemma pin_normalize_swap:
  "tcp_policy_pin_normalize_tuple d s dp sp = tcp_policy_pin_normalize_tuple s d sp dp"
  by (simp add: pin_normalize_eq_flow normalize_flow_5tuple_swap)

lemma pin_hash_less: "tcp_policy_pin_hash k < FLOW_TABLE_SIZE"
  by (simp add: tcp_policy_pin_hash_def Let_def split: prod.split)

section \<open>The invariant and the abstraction\<close>

text \<open>
  Chains have no duplicate keys, entries stand in their bucket and hold an index that a
  configuration can have.
\<close>

definition pin_inv :: "pin_table \<Rightarrow> bool" where
  "pin_inv t \<longleftrightarrow> (\<forall>i. distinct (map pe_tuple (pin_buckets t i)) \<and>
     (\<forall>e \<in> set (pin_buckets t i). tcp_policy_pin_hash (pe_tuple e) = i \<and>
        0 \<le> pe_policy_pi e \<and> pe_policy_pi e < int MAX_CRYPTO_POLICIES))"

abbreviation norm :: "tuple \<Rightarrow> tuple" where
  "norm k \<equiv> (case k of (s, d, sp, dp) \<Rightarrow> tcp_policy_pin_normalize_tuple s d sp dp)"

definition pin_entry :: "pin_table \<Rightarrow> tuple \<Rightarrow> tcp_policy_pin_entry option" where
  "pin_entry t k = (let key = norm k in find (\<lambda>e. pe_tuple e = key) (pin_buckets t (tcp_policy_pin_hash key)))"

text \<open>The pinned policy of a connection; both directions have the same.\<close>

definition pinned :: "pin_table \<Rightarrow> tuple \<Rightarrow> int option" where
  "pinned t k = map_option pe_policy_pi (pin_entry t k)"

definition same_connection :: "tuple \<Rightarrow> tuple \<Rightarrow> bool" where
  "same_connection k k' \<longleftrightarrow> norm k = norm k'"

lemma same_connection_reverse: "same_connection (s, d, sp, dp) (d, s, dp, sp)"
  by (simp add: same_connection_def pin_normalize_swap [of d s dp sp])

text \<open>Replacing one bucket by a chain that keeps the invariant.\<close>

lemma pin_inv_update:
  assumes "pin_inv t" and "distinct (map pe_tuple chain)"
    and "\<And>e. e \<in> set chain \<Longrightarrow> tcp_policy_pin_hash (pe_tuple e) = i \<and>
      0 \<le> pe_policy_pi e \<and> pe_policy_pi e < int MAX_CRYPTO_POLICIES"
  shows "pin_inv (t\<lparr>pin_buckets := (pin_buckets t)(i := chain)\<rparr>)"
  using assms by (auto simp: pin_inv_def)

lemma pin_invD:
  assumes "pin_inv t"
  shows "distinct (map pe_tuple (pin_buckets t i))"
    and "e \<in> set (pin_buckets t i) \<Longrightarrow> tcp_policy_pin_hash (pe_tuple e) = i"
    and "e \<in> set (pin_buckets t i) \<Longrightarrow> 0 \<le> pe_policy_pi e \<and> pe_policy_pi e < int MAX_CRYPTO_POLICIES"
  using assms by (auto simp: pin_inv_def)

lemma pin_entry_update:
  assumes "\<And>b. b \<noteq> key \<Longrightarrow> find (\<lambda>e. pe_tuple e = b) chain =
      find (\<lambda>e. pe_tuple e = b) (pin_buckets t (tcp_policy_pin_hash key))"
  shows "pin_entry (t\<lparr>pin_buckets := (pin_buckets t)(tcp_policy_pin_hash key := chain)\<rparr>) k =
    (if norm k = key then find (\<lambda>e. pe_tuple e = key) chain else pin_entry t k)"
  using assms by (auto simp: pin_entry_def Let_def)

text \<open>The effect of each operation on the abstraction, and that it keeps the invariant.\<close>

lemma pin_set_effect:
  fixes enabled ok :: bool and now :: u64 and s d :: u32 and sp dp :: u16 and pi :: int
  assumes inv: "pin_inv t"
  defines "t' \<equiv> tcp_policy_pin_set enabled now ok t s d sp dp pi"
  shows "pin_inv t'"
    and "norm k \<noteq> norm (s, d, sp, dp) \<Longrightarrow> pin_entry t' k = pin_entry t k"
    and "norm k = norm (s, d, sp, dp) \<Longrightarrow>
      pin_entry t' k = (if enabled \<and> pin_inited t \<and> 0 \<le> pi \<and> pi < int MAX_CRYPTO_POLICIES \<and> (ok \<or> pin_entry t k \<noteq> None)
        then Some \<lparr>pe_tuple = norm k, pe_policy_pi = pi, pe_last_seen_sec = now\<rparr> else pin_entry t k)"
proof -
  let ?key = "tcp_policy_pin_normalize_tuple s d sp dp"
  let ?chain = "pin_buckets t (tcp_policy_pin_hash ?key)"
  let ?new = "\<lparr>pe_tuple = ?key, pe_policy_pi = pi, pe_last_seen_sec = now\<rparr>"
  let ?goal = "\<lambda>t'. pin_inv t' \<and> (\<forall>k. pin_entry t' k = (if norm k = ?key \<and> enabled \<and> pin_inited t \<and> 0 \<le> pi \<and>
      pi < int MAX_CRYPTO_POLICIES \<and> (ok \<or> pin_entry t k \<noteq> None) then Some ?new else pin_entry t k))"
  have "?goal t'"
  proof (cases "enabled \<and> pin_inited t \<and> 0 \<le> pi \<and> pi < int MAX_CRYPTO_POLICIES")
    case False
    then show ?thesis using inv by (auto simp: t'_def tcp_policy_pin_set_def)
  next
    case act: True
    show ?thesis
    proof (cases "upd_first (\<lambda>e. pe_tuple e = ?key) (\<lambda>e. e\<lparr>pe_policy_pi := pi, pe_last_seen_sec := now\<rparr>) ?chain")
      case None
      then have absent: "\<forall>e\<in>set ?chain. pe_tuple e \<noteq> ?key" by (simp add: upd_first_None_iff)
      then have none: "pin_entry t k = None" if "norm k = ?key" for k
        using that by (simp add: pin_entry_def find_None_iff Let_def)
      have t': "t' = (if ok then t\<lparr>pin_buckets := (pin_buckets t)(tcp_policy_pin_hash ?key := ?new # ?chain)\<rparr> else t)"
        using act None by (simp add: t'_def tcp_policy_pin_set_def Let_def)
      have "pin_inv (t\<lparr>pin_buckets := (pin_buckets t)(tcp_policy_pin_hash ?key := ?new # ?chain)\<rparr>)"
        by (rule pin_inv_update [OF inv]) (use act absent pin_invD [OF inv] in auto)
      moreover have "pin_entry (t\<lparr>pin_buckets := (pin_buckets t)(tcp_policy_pin_hash ?key := ?new # ?chain)\<rparr>) k =
          (if norm k = ?key then Some ?new else pin_entry t k)" for k
        by (subst pin_entry_update) auto
      ultimately show ?thesis using t' none act inv by auto
    next
      case (Some r)
      then obtain e chain where r: "upd_first (\<lambda>e. pe_tuple e = ?key)
          (\<lambda>e. e\<lparr>pe_policy_pi := pi, pe_last_seen_sec := now\<rparr>) ?chain = Some (e, chain)" by (cases r) auto
      then obtain us x vs where split: "?chain = us @ x # vs" "\<forall>u\<in>set us. pe_tuple u \<noteq> ?key" "pe_tuple x = ?key"
          "e = x\<lparr>pe_policy_pi := pi, pe_last_seen_sec := now\<rparr>" "chain = us @ x\<lparr>pe_policy_pi := pi, pe_last_seen_sec := now\<rparr> # vs"
        by (rule upd_first_SomeE)
      have e: "e = ?new" using split(3,4) by (cases x) simp
      have found: "pin_entry t k \<noteq> None" if "norm k = ?key" for k
        using that split(1,3) by (auto simp: pin_entry_def find_None_iff Let_def)
      have t': "t' = t\<lparr>pin_buckets := (pin_buckets t)(tcp_policy_pin_hash ?key := chain)\<rparr>"
        using act r by (simp add: t'_def tcp_policy_pin_set_def Let_def)
      note upd = find_key_upd_first [where k = pe_tuple, OF r]
      have "pin_inv t'" unfolding t'
      proof (rule pin_inv_update [OF inv])
        show "distinct (map pe_tuple chain)"
          using pin_invD(1) [OF inv, of "tcp_policy_pin_hash ?key"] upd_first_map_key [OF r, of pe_tuple] by simp
      next
        fix y assume y: "y \<in> set chain"
        then have "y \<in> set ?chain \<or> y = ?new" using split(1,5) e split(4) by auto
        then show "tcp_policy_pin_hash (pe_tuple y) = tcp_policy_pin_hash ?key \<and> 0 \<le> pe_policy_pi y \<and>
            pe_policy_pi y < int MAX_CRYPTO_POLICIES" using act pin_invD [OF inv] by auto
      qed
      moreover have "pin_entry t' k = (if norm k = ?key then Some ?new else pin_entry t k)" for k
        unfolding t' by (subst pin_entry_update) (use upd e in auto)
      ultimately show ?thesis using found act by auto
    qed
  qed
  then have "pin_inv t'" "pin_entry t' k = (if norm k = ?key \<and> enabled \<and> pin_inited t \<and> 0 \<le> pi \<and>
      pi < int MAX_CRYPTO_POLICIES \<and> (ok \<or> pin_entry t k \<noteq> None) then Some ?new else pin_entry t k)"
    by blast+
  then show "pin_inv t'" "norm k \<noteq> norm (s, d, sp, dp) \<Longrightarrow> pin_entry t' k = pin_entry t k"
    "norm k = norm (s, d, sp, dp) \<Longrightarrow>
      pin_entry t' k = (if enabled \<and> pin_inited t \<and> 0 \<le> pi \<and> pi < int MAX_CRYPTO_POLICIES \<and> (ok \<or> pin_entry t k \<noteq> None)
        then Some \<lparr>pe_tuple = norm k, pe_policy_pi = pi, pe_last_seen_sec = now\<rparr> else pin_entry t k)"
    by simp_all
qed

lemma pin_del_effect:
  fixes key :: tuple
  assumes inv: "pin_inv t"
  defines "t' \<equiv> t\<lparr>pin_buckets := (pin_buckets t)(tcp_policy_pin_hash key :=
      del_first (\<lambda>e. pe_tuple e = key) (pin_buckets t (tcp_policy_pin_hash key)))\<rparr>"
  shows "pin_inv t'" and "pin_entry t' k = (if norm k = key then None else pin_entry t k)"
proof -
  note d = pin_invD [OF inv]
  show "pin_inv t'" unfolding t'_def
  proof (rule pin_inv_update [OF inv distinct_map_del_first [OF d(1)]])
    fix e assume "e \<in> set (del_first (\<lambda>e. pe_tuple e = key) (pin_buckets t (tcp_policy_pin_hash key)))"
    then have "e \<in> set (pin_buckets t (tcp_policy_pin_hash key))" using set_del_first_subset by fast
    from d(2,3) [OF this] show "tcp_policy_pin_hash (pe_tuple e) = tcp_policy_pin_hash key \<and>
      0 \<le> pe_policy_pi e \<and> pe_policy_pi e < int MAX_CRYPTO_POLICIES" by simp
  qed
  show "pin_entry t' k = (if norm k = key then None else pin_entry t k)" unfolding t'_def
    by (subst pin_entry_update) (auto intro: find_del_first_other simp: find_key_del_first [OF d(1)])
qed

lemma pin_remove_effect:
  assumes "pin_inv t"
  shows "pin_inv (tcp_policy_pin_remove enabled t s d sp dp)"
    and "pin_entry (tcp_policy_pin_remove enabled t s d sp dp) k =
      (if enabled \<and> pin_inited t \<and> norm k = norm (s, d, sp, dp) then None else pin_entry t k)"
  using assms pin_del_effect [OF assms, of "norm (s, d, sp, dp)"]
  by (simp_all add: tcp_policy_pin_remove_def Let_def)

lemma pin_gc_effect:
  assumes inv: "pin_inv t"
  shows "pin_inv (tcp_policy_pin_gc enabled now t)"
    and "pin_entry (tcp_policy_pin_gc enabled now t) k =
      (case pin_entry t k of None \<Rightarrow> None
       | Some e \<Rightarrow> if enabled \<and> pin_inited t \<and> now \<noteq> 0 \<and> now - pe_last_seen_sec e > TCP_POLICY_PIN_TIMEOUT_SEC
                   then None else Some e)"
proof -
  show "pin_inv (tcp_policy_pin_gc enabled now t)"
    using inv by (auto simp: tcp_policy_pin_gc_def pin_inv_def distinct_map_filter)
  show "pin_entry (tcp_policy_pin_gc enabled now t) k =
      (case pin_entry t k of None \<Rightarrow> None
       | Some e \<Rightarrow> if enabled \<and> pin_inited t \<and> now \<noteq> 0 \<and> now - pe_last_seen_sec e > TCP_POLICY_PIN_TIMEOUT_SEC
                   then None else Some e)"
    using pin_hash_less
    by (auto simp: tcp_policy_pin_gc_def pin_entry_def Let_def find_key_filter [OF pin_invD(1) [OF inv]] split: option.split)
qed

lemma pin_clear_effect:
  assumes "pin_inv t"
  shows "pin_inv (tcp_policy_pin_clear_all t)"
    and "pin_entry (tcp_policy_pin_clear_all t) k = (if pin_inited t then None else pin_entry t k)"
  using assms pin_hash_less by (auto simp: tcp_policy_pin_clear_all_def clear_buckets_def pin_inv_def pin_entry_def Let_def)

lemma pin_touch_effect:
  fixes key :: tuple
  assumes inv: "pin_inv t"
    and r: "upd_first (\<lambda>e. pe_tuple e = key) (\<lambda>e. e\<lparr>pe_last_seen_sec := now\<rparr>) (pin_buckets t (tcp_policy_pin_hash key)) =
      Some (e, chain)"
  defines "t' \<equiv> t\<lparr>pin_buckets := (pin_buckets t)(tcp_policy_pin_hash key := chain)\<rparr>"
  shows "pin_inv t'" and "pinned t' k = pinned t k"
proof -
  from r obtain us x vs where split: "pin_buckets t (tcp_policy_pin_hash key) = us @ x # vs"
      "\<forall>u\<in>set us. pe_tuple u \<noteq> key" "pe_tuple x = key"
      "e = x\<lparr>pe_last_seen_sec := now\<rparr>" "chain = us @ x\<lparr>pe_last_seen_sec := now\<rparr> # vs"
    by (rule upd_first_SomeE)
  note upd = find_key_upd_first [where k = pe_tuple, OF r] and d = pin_invD [OF inv]
  show "pin_inv t'" unfolding t'_def
  proof (rule pin_inv_update [OF inv])
    show "distinct (map pe_tuple chain)" using d(1) [of "tcp_policy_pin_hash key"] by (simp add: split(1,5))
  next
    fix y assume "y \<in> set chain"
    then obtain z where "z \<in> set (pin_buckets t (tcp_policy_pin_hash key))" "pe_tuple y = pe_tuple z"
      "pe_policy_pi y = pe_policy_pi z" using split(1,5) by (cases "y = x\<lparr>pe_last_seen_sec := now\<rparr>") (auto intro: that)
    then show "tcp_policy_pin_hash (pe_tuple y) = tcp_policy_pin_hash key \<and>
      0 \<le> pe_policy_pi y \<and> pe_policy_pi y < int MAX_CRYPTO_POLICIES"
      using d(2,3) [of z "tcp_policy_pin_hash key"] by simp
  qed
  have "find (\<lambda>e. pe_tuple e = key) (us @ x # vs) = Some x" using split(2,3) by (induction us) auto
  then have "pinned t k = Some (pe_policy_pi x)" if "norm k = key"
    using that by (simp add: pinned_def pin_entry_def Let_def split(1))
  moreover have "pin_entry t' k = (if norm k = key then Some e else pin_entry t k)"
    unfolding t'_def by (subst pin_entry_update) (use upd in auto)
  ultimately show "pinned t' k = pinned t k" using split(4) by (cases "norm k = key") (auto simp: pinned_def)
qed

section \<open>Looking a pin up\<close>

lemma pin_usable_total:
  "length ready = MAX_CRYPTO_POLICIES \<Longrightarrow> \<exists>b. pin_usable policies ready pi = Some b \<and>
     (b \<longleftrightarrow> 0 \<le> pi \<and> nat pi < length policies \<and> nat pi < MAX_CRYPTO_POLICIES \<and>
       (cp_action (policies ! nat pi) = POLICY_ACTION_BYPASS \<or> ready ! nat pi))"
  by (auto simp: pin_usable_def)

lemma pin_lookup_effect:
  assumes inv: "pin_inv t" and on: "enabled" "pin_inited t" and len: "length ready = MAX_CRYPTO_POLICIES"
  obtains r t' where "tcp_policy_pin_lookup enabled now policies ready t s d sp dp = Some (r, t')" "pin_inv t'"
    "pin_inited t'"
    "r = (case pinned t (s, d, sp, dp) of None \<Rightarrow> None
       | Some pi \<Rightarrow> if pin_usable policies ready pi = Some True then Some (nat pi) else None)"
    "\<And>k. pinned t' k = (if norm k = norm (s, d, sp, dp) \<and> r = None then None else pinned t k)"
proof -
  let ?key = "norm (s, d, sp, dp)"
  let ?chain = "pin_buckets t (tcp_policy_pin_hash ?key)"
  show ?thesis
  proof (cases "find (\<lambda>e. pe_tuple e = ?key) ?chain")
    case None
    then have "pinned t k = None" if "norm k = ?key" for k
      using that by (simp add: pinned_def pin_entry_def Let_def)
    then show ?thesis using that [of None t] inv on None by (simp add: tcp_policy_pin_lookup_def Let_def)
  next
    case (Some e)
    have pinned: "pinned t k = Some (pe_policy_pi e)" if "norm k = ?key" for k
      using that Some by (simp add: pinned_def pin_entry_def Let_def)
    obtain b where b: "pin_usable policies ready (pe_policy_pi e) = Some b" using pin_usable_total [OF len] by blast
    show ?thesis
    proof (cases b)
      case True
      have "upd_first (\<lambda>e. pe_tuple e = ?key) (\<lambda>e. e\<lparr>pe_last_seen_sec := now\<rparr>) ?chain \<noteq> None"
        using find_SomeD [OF Some] by (auto simp: upd_first_None_iff)
      then obtain e' chain where u: "upd_first (\<lambda>e. pe_tuple e = ?key) (\<lambda>e. e\<lparr>pe_last_seen_sec := now\<rparr>) ?chain =
          Some (e', chain)" by auto
      show ?thesis
        by (rule that [of "Some (nat (pe_policy_pi e))" "t\<lparr>pin_buckets := (pin_buckets t)(tcp_policy_pin_hash ?key := chain)\<rparr>"])
           (use pin_touch_effect [OF inv u] on Some b True pinned u in \<open>simp_all add: tcp_policy_pin_lookup_def Let_def\<close>)
    next
      case False
      note del = pin_del_effect [OF inv, of ?key]
      let ?t' = "t\<lparr>pin_buckets := (pin_buckets t)(tcp_policy_pin_hash ?key := del_first (\<lambda>e. pe_tuple e = ?key) ?chain)\<rparr>"
      have gone: "pinned ?t' k = (if norm k = ?key then None else pinned t k)" for k
        unfolding pinned_def del(2) by simp
      show ?thesis
        by (rule that [of None ?t'])
           (use del(1) gone on Some b False pinned [OF refl] in \<open>simp_all add: tcp_policy_pin_lookup_def Let_def\<close>)
    qed
  qed
qed

section \<open>The pins as a store\<close>

type_synonym pin_put_env = "bool \<times> u64 \<times> bool"

definition pin_put :: "pin_put_env \<Rightarrow> pin_table \<Rightarrow> tuple \<Rightarrow> int \<Rightarrow> pin_table" where
  "pin_put p t k pi = (case p of (enabled, now, malloc_ok) \<Rightarrow> case k of (s, d, sp, dp) \<Rightarrow>
     tcp_policy_pin_set enabled now malloc_ok t s d sp dp pi)"

text \<open>The operations that may drop entries; a lookup drops an entry that may not be used.\<close>

datatype pin_event =
    Pin_gc bool u64
  | Pin_remove bool tuple
  | Pin_clear
  | Pin_lookup bool u64 "crypto_policy list" "bool list" tuple

definition pin_evict :: "pin_event \<Rightarrow> pin_table \<Rightarrow> pin_table" where
  "pin_evict ev t = (case ev of
     Pin_gc enabled now \<Rightarrow> tcp_policy_pin_gc enabled now t
   | Pin_remove enabled (s, d, sp, dp) \<Rightarrow> tcp_policy_pin_remove enabled t s d sp dp
   | Pin_clear \<Rightarrow> tcp_policy_pin_clear_all t
   | Pin_lookup enabled now policies ready (s, d, sp, dp) \<Rightarrow>
       (if length ready = MAX_CRYPTO_POLICIES
        then case tcp_policy_pin_lookup enabled now policies ready t s d sp dp of Some (_, t') \<Rightarrow> t' | None \<Rightarrow> t
        else t))"

lemma pin_evict_effect:
  assumes inv: "pin_inv t"
  shows "pin_inv (pin_evict ev t)" and "pinned (pin_evict ev t) k = pinned t k \<or> pinned (pin_evict ev t) k = None"
proof -
  have "pin_inv (pin_evict ev t) \<and> (pinned (pin_evict ev t) k = pinned t k \<or> pinned (pin_evict ev t) k = None)"
  proof (cases ev)
    case (Pin_gc enabled now)
    then show ?thesis using pin_gc_effect [OF inv, of enabled now]
      by (auto simp: pin_evict_def pinned_def split: option.split)
  next
    case (Pin_remove enabled k')
    obtain s d sp dp where k': "k' = (s, d, sp, dp)" by (metis prod_cases4)
    show ?thesis using pin_remove_effect [OF inv, of enabled s d sp dp]
      by (simp add: pin_evict_def pinned_def Pin_remove k')
  next
    case Pin_clear
    then show ?thesis using pin_clear_effect [OF inv] by (simp add: pin_evict_def pinned_def)
  next
    case (Pin_lookup enabled now policies ready k')
    obtain s d sp dp where k': "k' = (s, d, sp, dp)" by (metis prod_cases4)
    show ?thesis
    proof (cases "enabled \<and> pin_inited t \<and> length ready = MAX_CRYPTO_POLICIES")
      case True
      then have on: enabled "pin_inited t" "length ready = MAX_CRYPTO_POLICIES" by auto
      obtain r t' where "tcp_policy_pin_lookup enabled now policies ready t s d sp dp = Some (r, t')" "pin_inv t'"
          "pinned t' k = (if norm k = norm (s, d, sp, dp) \<and> r = None then None else pinned t k)"
        by (rule pin_lookup_effect [OF inv on]) blast
      then show ?thesis using on by (simp add: pin_evict_def Pin_lookup k')
    next
      case False
      then show ?thesis using inv by (auto simp: pin_evict_def Pin_lookup k' tcp_policy_pin_lookup_def)
    qed
  qed
  then show "pin_inv (pin_evict ev t)" "pinned (pin_evict ev t) k = pinned t k \<or> pinned (pin_evict ev t) k = None"
    by auto
qed

interpretation pins: evicting_store pin_inv pinned pin_put same_connection pin_evict
proof unfold_locales
  fix t :: pin_table and p :: pin_put_env and k k' :: tuple and v :: int
  assume inv: "pin_inv t"
  obtain enabled now ok where p: "p = (enabled, now, ok)" by (metis prod_cases3)
  obtain s d sp dp where k: "k = (s, d, sp, dp)" by (metis prod_cases4)
  note set = pin_set_effect [OF inv, where enabled = enabled and now = now and ok = ok and s = s and d = d and sp = sp and dp = dp and pi = v]
  show "pin_inv (pin_put p t k v)" using set(1) by (simp add: pin_put_def p k)
  show "pinned (pin_put p t k v) k' = Some v \<or> pinned (pin_put p t k v) k' = pinned t k'" if "same_connection k k'"
    using set(3) [where k = k'] that by (simp add: pin_put_def p k pinned_def same_connection_def)
  show "pinned (pin_put p t k v) k' = pinned t k'" if "\<not> same_connection k k'"
  proof -
    have "norm k' \<noteq> norm (s, d, sp, dp)" using that k by (auto simp: same_connection_def)
    then show ?thesis using set(2) by (simp add: pin_put_def p k pinned_def)
  qed
next
  fix t :: pin_table and e k assume inv: "pin_inv t"
  show "pin_inv (pin_evict e t)" "pinned (pin_evict e t) k = pinned t k \<or> pinned (pin_evict e t) k = None"
    using pin_evict_effect [OF inv] by auto
qed

text \<open>A run of the operations, in the order of their critical sections.\<close>

definition pin_run :: "(pin_put_env \<times> tuple \<times> int + pin_event) list \<Rightarrow> pin_table \<Rightarrow> pin_table" where
  "pin_run ops t = foldl (\<lambda>t op. case op of Inl (p, k, v) \<Rightarrow> pin_put p t k v | Inr e \<Rightarrow> pin_evict e t) t ops"

definition pin_empty :: pin_table where
  "pin_empty = tcp_policy_pin_init \<lparr>pin_inited = False, pin_buckets = (\<lambda>_. [])\<rparr>"

lemma pin_empty_inv: "pin_inv pin_empty" "pinned pin_empty k = None" "pin_inited pin_empty"
  by (simp_all add: pin_empty_def tcp_policy_pin_init_def pin_inv_def pinned_def pin_entry_def Let_def)

text \<open>C16: Whatever the interleaving of the operations, a policy pinned to a connection was set for
  that connection, in one of its directions: pins never move to another connection, not even
  in the same hash bucket.\<close>

theorem pins_come_from_sets:
  assumes "pinned (pin_run ops pin_empty) k = Some pi"
  shows "\<exists>p k'. Inl (p, k', pi) \<in> set ops \<and> same_connection k' k"
  using pins.run_sound [OF pin_empty_inv(1), of ops k pi] assms pin_empty_inv(2) by (auto simp: pin_run_def)

theorem pins_come_from_sets_witness:
  "\<exists>(p :: pin_put_env) k'. Inl (p, k', 3 :: int) \<in> set [Inl ((True, 5, True), (1, 2, 80, 81), 3), Inr (Pin_gc True 60)] \<and>
     same_connection k' (2, 1, 81, 80)"
proof (rule pins_come_from_sets)
  let ?t = "pin_put (True, 5, True) pin_empty (1, 2, 80, 81) 3"
  have n: "norm (2, 1, 81, 80) = norm (1, 2, 80, 81)" by (simp add: pin_normalize_swap [of 2 1 81 80])
  have "pin_entry ?t (2, 1, 81, 80) = Some \<lparr>pe_tuple = norm (2, 1, 81, 80), pe_policy_pi = 3, pe_last_seen_sec = 5\<rparr>"
    using pin_set_effect(3) [OF pin_empty_inv(1) n, where enabled = True and ok = True and now = 5 and pi = 3]
      pin_empty_inv(3) by (simp add: pin_put_def)
  moreover have "pin_inv ?t" by (rule pins.put_valid [OF pin_empty_inv(1)])
  ultimately show "pinned (pin_run [Inl ((True, 5, True), (1, 2, 80, 81), 3), Inr (Pin_gc True 60)] pin_empty)
      (2, 1, 81, 80) = Some 3"
    by (simp add: pin_run_def pinned_def pin_evict_def pin_gc_effect)
qed

section \<open>Connections keep their policy\<close>

fun concerns_other :: "tuple \<Rightarrow> (pin_put_env \<times> tuple \<times> int + pin_event) \<Rightarrow> bool" where
  "concerns_other k (Inl (p, k', v)) \<longleftrightarrow> \<not> same_connection k' k"
| "concerns_other k (Inr (Pin_remove enabled k')) \<longleftrightarrow> \<not> same_connection k' k"
| "concerns_other k (Inr (Pin_lookup enabled now policies ready k')) \<longleftrightarrow> \<not> same_connection k' k"
| "concerns_other k (Inr ev) \<longleftrightarrow> False"

lemma pin_put_other:
  assumes "pin_inv t" "pin_inited t" "\<not> same_connection k' k"
  shows "pin_inv (pin_put p t k' v) \<and> pin_inited (pin_put p t k' v) \<and> pinned (pin_put p t k' v) k = pinned t k"
proof -
  have "pin_inited (pin_put p t k' v)" using assms(2)
    by (auto simp: pin_put_def tcp_policy_pin_set_def Let_def split: prod.split option.split)
  then show ?thesis using pins.put_valid [OF assms(1)] pins.put_other [OF assms(1,3)] by blast
qed

lemma pin_evict_other:
  assumes inv: "pin_inv t" and on: "pin_inited t" and other: "concerns_other k (Inr ev)"
  shows "pin_inv (pin_evict ev t) \<and> pin_inited (pin_evict ev t) \<and> pinned (pin_evict ev t) k = pinned t k"
proof (cases ev)
  case (Pin_remove enabled k')
  obtain s d sp dp where k': "k' = (s, d, sp, dp)" by (metis prod_cases4)
  have ne: "norm k \<noteq> norm (s, d, sp, dp)" using other Pin_remove k' by (auto simp: same_connection_def)
  have "pinned (pin_evict ev t) k = pinned t k"
    unfolding pinned_def Pin_remove k' pin_evict_def using pin_remove_effect(2) [OF inv] ne by simp
  moreover have "pin_inited (pin_evict ev t)"
    using on by (simp add: Pin_remove k' pin_evict_def tcp_policy_pin_remove_def Let_def)
  ultimately show ?thesis using pin_evict_effect(1) [OF inv] by blast
next
  case (Pin_lookup enabled now policies ready k')
  obtain s d sp dp where k': "k' = (s, d, sp, dp)" by (metis prod_cases4)
  have ne: "norm k \<noteq> norm (s, d, sp, dp)" using other Pin_lookup k' by (auto simp: same_connection_def)
  show ?thesis
  proof (cases "enabled \<and> length ready = MAX_CRYPTO_POLICIES")
    case True
    then have l: enabled "pin_inited t" "length ready = MAX_CRYPTO_POLICIES" using on by auto
    obtain r t' where "tcp_policy_pin_lookup enabled now policies ready t s d sp dp = Some (r, t')" "pin_inv t'"
        "pin_inited t'" "pinned t' k = (if norm k = norm (s, d, sp, dp) \<and> r = None then None else pinned t k)"
      by (rule pin_lookup_effect [OF inv l]) blast
    then show ?thesis using l ne by (simp add: pin_evict_def Pin_lookup k')
  next
    case False
    then show ?thesis using inv on by (auto simp: pin_evict_def Pin_lookup k' tcp_policy_pin_lookup_def)
  qed
qed (use other in auto)

lemma pin_run_other:
  assumes "pin_inv t" "pin_inited t" "\<forall>op \<in> set ops. concerns_other k op"
  shows "pin_inv (pin_run ops t) \<and> pin_inited (pin_run ops t) \<and> pinned (pin_run ops t) k = pinned t k"
  using assms
proof (induction ops arbitrary: t)
  case (Cons op ops)
  define t1 where "t1 = (case op of Inl (p, k, v) \<Rightarrow> pin_put p t k v | Inr e \<Rightarrow> pin_evict e t)"
  have "pin_inv t1 \<and> pin_inited t1 \<and> pinned t1 k = pinned t k"
  proof (cases op)
    case (Inl x)
    obtain p k' v where x: "x = (p, k', v)" by (metis prod_cases3)
    have "\<not> same_connection k' k" using Cons.prems(3) by (simp add: Inl x)
    from pin_put_other [OF Cons.prems(1,2) this] show ?thesis by (simp add: t1_def Inl x)
  next
    case (Inr ev)
    have "concerns_other k (Inr ev)" using Cons.prems(3) Inr by simp
    from pin_evict_other [OF Cons.prems(1,2) this] show ?thesis by (simp add: t1_def Inr)
  qed
  then show ?case using Cons.IH [of t1] Cons.prems(3) by (simp add: pin_run_def t1_def)
qed (simp add: pin_run_def)

text \<open>A pinned connection keeps its policy whatever other connections do: after the pin is set by a
  packet of one direction, and any operations on other connections, a packet of the other
  direction gets the same policy, as long as the policy is configured and has a key.\<close>

theorem pinned_policy_sticks:
  assumes "pin_inv t" "pin_inited t" "\<forall>op \<in> set ops. concerns_other (s, d, sp, dp) op"
    and "0 \<le> pi" "pi < int MAX_CRYPTO_POLICIES" "pin_usable policies ready pi = Some True"
    and len: "length ready = MAX_CRYPTO_POLICIES"
  shows "\<exists>t'. tcp_policy_pin_lookup True now' policies ready
      (pin_run ops (tcp_policy_pin_set True now True t s d sp dp pi)) d s dp sp = Some (Some (nat pi), t')"
proof -
  let ?t1 = "tcp_policy_pin_set True now True t s d sp dp pi"
  let ?t2 = "pin_run ops ?t1"
  have set: "pin_inv ?t1" "pinned ?t1 (s, d, sp, dp) = Some pi"
    using pin_set_effect(1) [OF assms(1)] pin_set_effect(3) [OF assms(1), where k = "(s, d, sp, dp)"] assms(2,4,5)
    by (simp_all add: pinned_def)
  have "pin_inited ?t1" using assms(2) by (auto simp: tcp_policy_pin_set_def Let_def split: option.split)
  from pin_run_other [OF set(1) this assms(3)] set(2)
  have run: "pin_inv ?t2" "pin_inited ?t2" "pinned ?t2 (s, d, sp, dp) = Some pi" by auto
  have "pinned ?t2 (d, s, dp, sp) = Some pi"
    using run(3) by (simp add: pinned_def pin_entry_def pin_normalize_swap [of d s dp sp])
  moreover obtain r t' where "tcp_policy_pin_lookup True now' policies ready ?t2 d s dp sp = Some (r, t')"
      "r = (case pinned ?t2 (d, s, dp, sp) of None \<Rightarrow> None
       | Some pi \<Rightarrow> if pin_usable policies ready pi = Some True then Some (nat pi) else None)"
    by (rule pin_lookup_effect [OF run(1) TrueI run(2) len]) blast
  ultimately show ?thesis using assms(6) by simp
qed

theorem pinned_policy_sticks_witness:
  "\<exists>t'. tcp_policy_pin_lookup True 9 [sample_policy] (replicate 128 True)
     (pin_run [Inl ((True, 6, True), (1, 2, 80, 82), 5), Inr (Pin_remove True (1, 2, 80, 82))]
       (tcp_policy_pin_set True 5 True pin_empty 1 2 80 81 0)) 2 1 81 80 = Some (Some 0, t')"
proof -
  have "htonl 1 \<noteq> htonl 2" by simp
  then have "\<not> same_connection (1, 2, 80, 82) (1, 2, 80, 81)"
    by (simp add: same_connection_def tcp_policy_pin_normalize_tuple_def Let_def)
  then show ?thesis
    using pinned_policy_sticks [OF pin_empty_inv(1,3), of "[Inl ((True, 6, True), (1, 2, 80, 82), 5), Inr (Pin_remove True (1, 2, 80, 82))]"
        1 2 80 81 0 "[sample_policy]" "replicate 128 True" 9 5]
    by (simp add: pin_usable_def)
qed

end
