(* ===== verification/ArpCache.thy ===== *)
theory ArpCache
  imports Config Interfaces
begin

text \<open>
  The ARP cache of an interface, \<^verbatim>\<open>src/core/wan_arp.c\<close>: an open-addressing hash table from IPv4
  addresses to MAC addresses, the listener that fills it, the file it is saved to, and the
  rewriting of the Ethernet addresses of an outgoing packet.

  The clock, the results of system calls and received frames are inputs; a frame to be sent is
  a result.  The lines of the saved file are pairs of a host-order address and a MAC address:
  the text format of a line is that of the C library.
\<close>

section \<open>State\<close>

abbreviation (input) ARP_CACHE_SIZE :: nat where "ARP_CACHE_SIZE \<equiv> 2048"

record arp_entry =
  ae_ip :: u32
  ae_mac :: buf
  ae_last_seen_sec :: u32

record arp_cache =
  arp_entries :: "arp_entry list"
  arp_raw_fd :: int
  arp_ifindex :: int
  arp_ifname :: string
  arp_if_mac :: buf
  arp_if_ip :: u32
  arp_persist_dirty :: bool

definition mac_is_nonzero6 :: "buf \<Rightarrow> bool" where
  "mac_is_nonzero6 mac \<longleftrightarrow> (mac ! 0 OR mac ! 1 OR mac ! 2 OR mac ! 3 OR mac ! 4 OR mac ! 5) \<noteq> 0"

definition arp_hash :: "u32 \<Rightarrow> u32" where
  "arp_hash ip =
     (let x = ip;
          x = x XOR drop_bit 16 x;
          x = x * 0x7feb352d;
          x = x XOR drop_bit 15 x;
          x = x * 0x846ca68b
      in x XOR drop_bit 16 x)"

text \<open>The \<open>i\<close>th slot that is probed for an address.\<close>

definition arp_slot :: "u32 \<Rightarrow> nat \<Rightarrow> nat" where
  "arp_slot ip i = unat ((arp_hash ip + of_nat i) AND 2047)"

text \<open>The probe that ends at an empty slot or at the slot of the address.\<close>

definition arp_probe :: "arp_entry list \<Rightarrow> u32 \<Rightarrow> nat option" where
  "arp_probe es ip =
     map_option (arp_slot ip)
       (find (\<lambda>i. ae_ip (es ! arp_slot ip i) = 0 \<or> ae_ip (es ! arp_slot ip i) = ip) [0..<ARP_CACHE_SIZE])"

section \<open>Operations\<close>

definition arp_cache_lookup :: "arp_cache \<Rightarrow> u32 \<Rightarrow> buf option" where
  "arp_cache_lookup c ip =
     (case arp_probe (arp_entries c) ip of
        None \<Rightarrow> None
      | Some idx \<Rightarrow> let e = arp_entries c ! idx in if ae_ip e = 0 then None else Some (ae_mac e))"

definition arp_cache_insert :: "u32 \<Rightarrow> arp_cache \<Rightarrow> u32 \<Rightarrow> buf \<Rightarrow> arp_cache" where
  "arp_cache_insert now c ip mac =
     (case arp_probe (arp_entries c) ip of
        None \<Rightarrow> c
      | Some idx \<Rightarrow> c\<lparr>arp_entries := (arp_entries c)[idx :=
            \<lparr>ae_ip = ip, ae_mac = mac, ae_last_seen_sec = now\<rparr>], arp_persist_dirty := True\<rparr>)"

definition arp_cache_load :: "u32 \<Rightarrow> (u32 \<times> buf) list option \<Rightarrow> arp_cache \<Rightarrow> arp_cache" where
  "arp_cache_load now file c =
     (case file of
        None \<Rightarrow> c
      | Some lines \<Rightarrow> (foldl (\<lambda>c (ip_host, mac). arp_cache_insert now c (htonl ip_host) mac) c lines)
                        \<lparr>arp_persist_dirty := False\<rparr>)"

text \<open>The new contents of the file, if it is written, and the cache.\<close>

definition arp_cache_save :: "bool \<Rightarrow> arp_cache \<Rightarrow> (u32 \<times> buf) list option \<times> arp_cache" where
  "arp_cache_save open_ok c =
     (if \<not> arp_persist_dirty c then (None, c)
      else if \<not> open_ok then (None, c)
      else (Some (map (\<lambda>e. (ntohl (ae_ip e), ae_mac e)) (filter (\<lambda>e. ae_ip e \<noteq> 0) (arp_entries c))),
            c\<lparr>arp_persist_dirty := False\<rparr>))"

text \<open>The four bytes of an address in memory.\<close>

definition ip_bytes :: "u32 \<Rightarrow> buf" where
  "ip_bytes ip = [ucast ip, ucast (drop_bit 8 ip), ucast (drop_bit 16 ip), ucast (drop_bit 24 ip)]"

text \<open>The frame handed to \<^verbatim>\<open>sendto\<close>.\<close>

definition arp_send_request :: "arp_cache \<Rightarrow> u32 \<Rightarrow> buf option" where
  "arp_send_request c target_ip =
     (if arp_raw_fd c < 0 \<or> arp_ifindex c \<le> 0 \<or> \<not> mac_is_nonzero6 (arp_if_mac c) \<or> arp_if_ip c = 0 then None
      else Some (replicate 6 0xff @ take 6 (arp_if_mac c) @ [0x08, 0x06] @
                 [0x00, 0x01] @ [0x08, 0x00] @ [6] @ [4] @ [0x00, 0x01] @
                 take 6 (arp_if_mac c) @ ip_bytes (arp_if_ip c) @ replicate 6 0 @ ip_bytes target_ip))"

text \<open>One frame in the listener: \<open>n\<close> bytes were received into the buffer, or -1 for an error.\<close>

definition arp_listener_frame :: "u32 \<Rightarrow> arp_cache \<Rightarrow> buf \<Rightarrow> int \<Rightarrow> arp_cache option" where
  "arp_listener_frame now c b n =
     (if n < 42 then Some c
      else do {
        ether_type \<leftarrow> rd16 b 12;
        if ether_type \<noteq> 0x0806 then Some c
        else do {
          op \<leftarrow> rd16 b 20;
          if op \<noteq> 2 then Some c
          else do {
            spa \<leftarrow> rd32 b 28;
            mac \<leftarrow> rdn b 22 6;
            if \<not> mac_is_nonzero6 mac then Some c
            else Some (arp_cache_insert now c spa mac)
          }
        }
      })"

text \<open>
  The listener saves the cache after a frame that was learned when two seconds have passed:
  the cache, the time of the last save and the contents to write.
\<close>

definition arp_listener_step ::
    "u32 \<Rightarrow> bool \<Rightarrow> arp_cache \<times> u32 \<Rightarrow> buf \<Rightarrow> int \<Rightarrow> ((arp_cache \<times> u32) \<times> (u32 \<times> buf) list option) option" where
  "arp_listener_step now open_ok s b n = do {
     let (c, last_save) = s;
     c' \<leftarrow> arp_listener_frame now c b n;
     let learned = (n \<ge> 42 \<and> rd16 b 12 = Some 0x0806 \<and> rd16 b 20 = Some 2 \<and>
                    (case rdn b 22 6 of None \<Rightarrow> False | Some mac \<Rightarrow> mac_is_nonzero6 mac));
     if learned \<and> now - last_save \<ge> 2
     then (let (out, c') = arp_cache_save open_ok c' in Some ((c', now), out))
     else Some ((c', last_save), None)
   }"

text \<open>
  Starting the cache of an interface: its MAC and address, the socket and the result of \<^verbatim>\<open>bind\<close>
  come from the system.
\<close>

definition arp_init_for_local ::
    "u32 \<Rightarrow> (buf \<times> u32) option \<Rightarrow> int \<Rightarrow> bool \<Rightarrow> (u32 \<times> buf) list option \<Rightarrow> string \<Rightarrow> int \<Rightarrow> int \<times> arp_cache" where
  "arp_init_for_local now mac_and_ip fd bind_ok file ifname ifindex =
     (let c = \<lparr>arp_entries = replicate ARP_CACHE_SIZE \<lparr>ae_ip = 0, ae_mac = replicate 6 0, ae_last_seen_sec = 0\<rparr>,
               arp_raw_fd = -1, arp_ifindex = ifindex, arp_ifname = take 15 ifname,
               arp_if_mac = replicate 6 0, arp_if_ip = 0, arp_persist_dirty = False\<rparr>
      in case mac_and_ip of
           None \<Rightarrow> (-1, c)
         | Some (mac, ip) \<Rightarrow>
             let c = c\<lparr>arp_if_mac := mac, arp_if_ip := ip\<rparr>
             in if fd < 0 then (-1, c)
                else if \<not> bind_ok then (-1, c)
                else (0, arp_cache_load now file (c\<lparr>arp_raw_fd := fd\<rparr>)))"

section \<open>Rewriting Ethernet addresses\<close>

text \<open>Return value, packet, and the ARP request that is sent when the address is unknown.\<close>

definition wan_rewrite_dest_mac ::
    "arp_cache \<Rightarrow> wan_config \<Rightarrow> buf \<Rightarrow> buf \<Rightarrow> buf \<Rightarrow> (int \<times> buf \<times> buf option) option" where
  "wan_rewrite_dest_mac c cfg iface_dst_mac iface_src_mac pkt =
     (if wc_dst_ip cfg \<noteq> 0
      then case arp_cache_lookup c (wc_dst_ip cfg) of
          Some mac \<Rightarrow> do {
            pkt \<leftarrow> wrn pkt 0 mac;
            pkt \<leftarrow> wrn pkt 6 (arp_if_mac c);
            Some (0, pkt, None)
          }
        | None \<Rightarrow> Some (-1, pkt, arp_send_request c (wc_dst_ip cfg))
      else do {
        pkt \<leftarrow> wrn pkt 0 iface_dst_mac;
        pkt \<leftarrow> wrn pkt 6 iface_src_mac;
        Some (0, pkt, None)
      })"

definition local_rewrite_dest_mac :: "arp_cache \<Rightarrow> u32 \<Rightarrow> buf \<Rightarrow> (int \<times> buf \<times> buf option) option" where
  "local_rewrite_dest_mac c dest_ip pkt =
     (if dest_ip = 0 then Some (-1, pkt, None)
      else case arp_cache_lookup c dest_ip of
          Some mac \<Rightarrow> do {
            pkt \<leftarrow> wrn pkt 0 mac;
            pkt \<leftarrow> wrn pkt 6 (arp_if_mac c);
            Some (0, pkt, None)
          }
        | None \<Rightarrow> Some (-1, pkt, arp_send_request c dest_ip))"

section \<open>Hosts of the policies\<close>

definition ip_on_local_subnet :: "local_config \<Rightarrow> u32 \<Rightarrow> bool" where
  "ip_on_local_subnet loc ip =
     (if ip = 0 \<or> lc_netmask loc = 0 then False else (ip AND lc_netmask loc) = lc_network loc)"

text \<open>The single-host networks of a policy, source first.\<close>

definition policy_hosts :: "crypto_policy \<Rightarrow> u32 list" where
  "policy_hosts p =
     (if \<not> cp_src_any p \<and> cp_src_mask p = htonl 0xffffffff then [cp_src_net p] else []) @
     (if \<not> cp_dst_any p \<and> cp_dst_mask p = htonl 0xffffffff then [cp_dst_net p] else [])"

text \<open>The first policy host on this subnet whose MAC is known.\<close>

definition local_sync_primary_peer_mac :: "arp_cache \<Rightarrow> app_config \<Rightarrow> int \<Rightarrow> app_config" where
  "local_sync_primary_peer_mac c cfg local_idx =
     (if local_idx < 0 \<or> local_idx \<ge> int (length (ac_locals cfg)) then cfg
      else let i = nat local_idx; loc = ac_locals cfg ! i;
               mac = (case find (\<lambda>ip. ip \<noteq> 0 \<and> ip_on_local_subnet loc ip \<and> arp_cache_lookup c ip \<noteq> None)
                            (concat (map policy_hosts (ac_policies cfg))) of
                        None \<Rightarrow> replicate 6 0
                      | Some ip \<Rightarrow> the (arp_cache_lookup c ip))
        in cfg\<lparr>ac_locals := (ac_locals cfg)[i := loc\<lparr>lc_dst_mac := mac\<rparr>]\<rparr>)"

text \<open>
  The hosts that are asked for at start-up, each once as long as the array \<^verbatim>\<open>seen\<close> has room.
\<close>

fun resolve_hosts :: "local_config \<Rightarrow> u32 list \<Rightarrow> u32 list \<Rightarrow> u32 list" where
  "resolve_hosts loc seen [] = []"
| "resolve_hosts loc seen (ip # ips) =
     (if ip = 0 \<or> \<not> ip_on_local_subnet loc ip then resolve_hosts loc seen ips
      else if ip \<in> set seen then resolve_hosts loc seen ips
      else ip # resolve_hosts loc (if length seen < 32 then seen @ [ip] else seen) ips)"

definition lan_arp_resolve_policy_hosts :: "app_config \<Rightarrow> int \<Rightarrow> u32 list" where
  "lan_arp_resolve_policy_hosts cfg local_idx =
     (if local_idx < 0 \<or> local_idx \<ge> int (length (ac_locals cfg)) then []
      else resolve_hosts (ac_locals cfg ! nat local_idx) [] (concat (map policy_hosts (ac_policies cfg))))"

section \<open>Probing\<close>

lemma arp_slot_mod: "arp_slot ip i = (unat (arp_hash ip) + i) mod ARP_CACHE_SIZE"
proof -
  have "(arp_hash ip + of_nat i) AND 2047 = take_bit 11 (arp_hash ip + of_nat i)"
    using take_bit_eq_mask [of 11 "arp_hash ip + of_nat i"] by (simp add: mask_eq_exp_minus_1)
  then have "arp_slot ip i = (unat (arp_hash ip) + i mod 2 ^ 32) mod 2 ^ 32 mod 2048"
    by (simp add: arp_slot_def unsigned_take_bit_eq take_bit_eq_mod unat_word_ariths unat_of_nat)
  also have "\<dots> = (unat (arp_hash ip) + i) mod 2048"
    by (simp add: mod_mod_cancel mod_add_right_eq)
  finally show ?thesis by simp
qed

lemma arp_slot_less: "arp_slot ip i < ARP_CACHE_SIZE"
  by (simp add: arp_slot_mod)

text \<open>Every slot is probed for every address.\<close>

lemma arp_slot_surj: "s < ARP_CACHE_SIZE \<Longrightarrow> \<exists>i < ARP_CACHE_SIZE. arp_slot ip i = s"
proof -
  assume s: "s < ARP_CACHE_SIZE"
  define h where "h = unat (arp_hash ip) mod ARP_CACHE_SIZE"
  have h: "h < ARP_CACHE_SIZE" "(unat (arp_hash ip) + i) mod ARP_CACHE_SIZE = (h + i) mod ARP_CACHE_SIZE" for i
    by (simp_all add: h_def mod_add_left_eq)
  have slot: "arp_slot ip i = (h + i) mod ARP_CACHE_SIZE" for i by (simp only: arp_slot_mod h(2))
  show ?thesis
  proof (cases "h \<le> s")
    case True
    then have "arp_slot ip (s - h) = s" "s - h < ARP_CACHE_SIZE" using s slot [of "s - h"] by simp_all
    then show ?thesis by blast
  next
    case False
    then have "h + (s + ARP_CACHE_SIZE - h) = s + ARP_CACHE_SIZE" using h(1) by simp
    then have "arp_slot ip (s + ARP_CACHE_SIZE - h) = s" "s + ARP_CACHE_SIZE - h < ARP_CACHE_SIZE"
      using s False slot [of "s + ARP_CACHE_SIZE - h"] by simp_all
    then show ?thesis by blast
  qed
qed

lemma arp_probe_Some:
  "arp_probe es ip = Some s \<longleftrightarrow> (\<exists>i < ARP_CACHE_SIZE. arp_slot ip i = s \<and> (ae_ip (es ! s) = 0 \<or> ae_ip (es ! s) = ip) \<and>
     (\<forall>j<i. ae_ip (es ! arp_slot ip j) \<noteq> 0 \<and> ae_ip (es ! arp_slot ip j) \<noteq> ip))"
  by (auto simp: arp_probe_def find_upt_Some_iff)

lemma arp_probe_None:
  "arp_probe es ip = None \<longleftrightarrow> (\<forall>s < ARP_CACHE_SIZE. ae_ip (es ! s) \<noteq> 0 \<and> ae_ip (es ! s) \<noteq> ip)"
proof -
  have "arp_probe es ip = None \<longleftrightarrow>
      (\<forall>i < ARP_CACHE_SIZE. ae_ip (es ! arp_slot ip i) \<noteq> 0 \<and> ae_ip (es ! arp_slot ip i) \<noteq> ip)"
    by (auto simp: arp_probe_def find_upt_None_iff)
  also have "\<dots> \<longleftrightarrow> (\<forall>s < ARP_CACHE_SIZE. ae_ip (es ! s) \<noteq> 0 \<and> ae_ip (es ! s) \<noteq> ip)"
    using arp_slot_less arp_slot_surj by metis
  finally show ?thesis .
qed

section \<open>The invariant, and the cache as a store\<close>

lemma eq_by_Some: "(\<And>m. x = Some m \<longleftrightarrow> y = Some m) \<Longrightarrow> x = y"
  by (cases x; cases y) auto

text \<open>
  Every address in the table is found by its own probe, so there are no duplicates and no gaps
  before an entry.
\<close>

definition arp_ok :: "arp_cache \<Rightarrow> bool" where
  "arp_ok c \<longleftrightarrow> length (arp_entries c) = ARP_CACHE_SIZE \<and>
     (\<forall>s < ARP_CACHE_SIZE. ae_ip (arp_entries c ! s) \<noteq> 0 \<longrightarrow>
        arp_probe (arp_entries c) (ae_ip (arp_entries c ! s)) = Some s)"

lemma arp_probe_less: "arp_probe es ip = Some s \<Longrightarrow> s < ARP_CACHE_SIZE"
  using arp_slot_less by (auto simp: arp_probe_Some)

lemma arp_lookup_iff:
  assumes "arp_ok c"
  shows "arp_cache_lookup c ip = Some mac \<longleftrightarrow>
    ip \<noteq> 0 \<and> (\<exists>s < ARP_CACHE_SIZE. ae_ip (arp_entries c ! s) = ip \<and> ae_mac (arp_entries c ! s) = mac)"
    (is "_ \<longleftrightarrow> ?rhs")
proof
  assume "arp_cache_lookup c ip = Some mac"
  then obtain s where s: "arp_probe (arp_entries c) ip = Some s" "ae_ip (arp_entries c ! s) \<noteq> 0"
      "ae_mac (arp_entries c ! s) = mac"
    by (auto simp: arp_cache_lookup_def Let_def split: option.splits if_splits)
  then show ?rhs using arp_probe_less [OF s(1)] by (auto simp: arp_probe_Some)
next
  assume ?rhs
  then show "arp_cache_lookup c ip = Some mac" using assms by (auto simp: arp_cache_lookup_def arp_ok_def)
qed

text \<open>
  Filling the slot that the probe of an address ends at leaves the other probes alone, except
  that one that ended there as empty goes on.
\<close>

lemma arp_probe_update:
  assumes len: "length es = ARP_CACHE_SIZE" and p: "arp_probe es ip = Some s" and e: "ae_ip e = ip"
    and q: "arp_probe es ip' = Some s'" and diff: "s' \<noteq> s \<or> ip' = ip"
  shows "arp_probe (es[s := e]) ip' = Some s'"
proof -
  have s: "s < length es" "ae_ip (es ! s) = 0 \<or> ae_ip (es ! s) = ip" using p arp_probe_less len by (auto simp: arp_probe_Some)
  obtain i where i: "i < ARP_CACHE_SIZE" "arp_slot ip' i = s'" "ae_ip (es ! s') = 0 \<or> ae_ip (es ! s') = ip'"
      "\<forall>j<i. ae_ip (es ! arp_slot ip' j) \<noteq> 0 \<and> ae_ip (es ! arp_slot ip' j) \<noteq> ip'"
    using q by (auto simp: arp_probe_Some)
  have "arp_slot ip' j \<noteq> s \<or> ip \<noteq> 0 \<and> ip \<noteq> ip'" if "j < i" for j
    using i(4) that s(2) by (metis)
  moreover have "ip' = ip \<Longrightarrow> s' = s" using p q by simp
  ultimately have "ae_ip (es[s := e] ! arp_slot ip' j) \<noteq> 0 \<and> ae_ip (es[s := e] ! arp_slot ip' j) \<noteq> ip'" if "j < i" for j
    using i(4) that s(1) e by (cases "arp_slot ip' j = s") auto
  moreover have "ae_ip (es[s := e] ! s') = 0 \<or> ae_ip (es[s := e] ! s') = ip'"
    using i(3) diff s(1) e \<open>ip' = ip \<Longrightarrow> s' = s\<close> by (cases "s' = s") auto
  ultimately show ?thesis using i(1,2) by (auto simp: arp_probe_Some)
qed

lemma arp_insert_effect:
  assumes ok: "arp_ok c"
  shows "arp_ok (arp_cache_insert now c ip mac)"
    and "ip' \<noteq> ip \<Longrightarrow> arp_cache_lookup (arp_cache_insert now c ip mac) ip' = arp_cache_lookup c ip'"
    and "ip \<noteq> 0 \<Longrightarrow> arp_cache_lookup (arp_cache_insert now c ip mac) ip =
      (if arp_probe (arp_entries c) ip = None then None else Some mac)"
proof -
  let ?es = "arp_entries c" and ?e = "\<lparr>ae_ip = ip, ae_mac = mac, ae_last_seen_sec = now\<rparr>"
  let ?c = "arp_cache_insert now c ip mac"
  have len: "length ?es = ARP_CACHE_SIZE" using ok by (simp add: arp_ok_def)
  have "arp_ok ?c \<and> (ip' \<noteq> ip \<longrightarrow> arp_cache_lookup ?c ip' = arp_cache_lookup c ip') \<and>
      (ip \<noteq> 0 \<longrightarrow> arp_cache_lookup ?c ip = (if arp_probe ?es ip = None then None else Some mac))"
  proof (cases "arp_probe ?es ip")
    case None
    then show ?thesis using ok by (simp add: arp_cache_insert_def arp_cache_lookup_def)
  next
    case (Some s)
    have s: "s < ARP_CACHE_SIZE" "ae_ip (?es ! s) = 0 \<or> ae_ip (?es ! s) = ip"
      using Some arp_probe_less by (auto simp: arp_probe_Some)
    have es': "arp_entries ?c = ?es[s := ?e]" using Some by (simp add: arp_cache_insert_def)
    have "arp_probe (arp_entries ?c) (ae_ip (arp_entries ?c ! t)) = Some t"
      if t: "t < ARP_CACHE_SIZE" "ae_ip (arp_entries ?c ! t) \<noteq> 0" for t
    proof (cases "t = s")
      case True
      then show ?thesis using arp_probe_update [OF len Some _ Some, of ?e] s len by (simp add: es')
    next
      case False
      then have "arp_probe ?es (ae_ip (?es ! t)) = Some t" using ok t by (simp add: arp_ok_def es')
      then show ?thesis using arp_probe_update [OF len Some _ _, of ?e "ae_ip (?es ! t)" t] False by (simp add: es')
    qed
    then have ok': "arp_ok ?c" using len by (simp add: arp_ok_def es')
    have "arp_cache_lookup ?c ip' = arp_cache_lookup c ip'" if "ip' \<noteq> ip"
    proof -
      have "arp_cache_lookup ?c ip' = Some m \<longleftrightarrow> arp_cache_lookup c ip' = Some m" for m
        unfolding arp_lookup_iff [OF ok'] arp_lookup_iff [OF ok] es' using that s len
        by (metis arp_entry.select_convs(1) nth_list_update_eq nth_list_update_neq)
      then show ?thesis by (rule eq_by_Some)
    qed
    moreover have "arp_cache_lookup ?c ip = Some mac" if "ip \<noteq> 0"
      unfolding arp_lookup_iff [OF ok'] es' using that s(1) len by (auto intro!: exI [of _ s])
    ultimately show ?thesis using ok' Some by simp
  qed
  then show "arp_ok ?c" "ip' \<noteq> ip \<Longrightarrow> arp_cache_lookup ?c ip' = arp_cache_lookup c ip'"
    "ip \<noteq> 0 \<Longrightarrow> arp_cache_lookup ?c ip = (if arp_probe ?es ip = None then None else Some mac)"
    by auto
qed

lemma arp_lookup_zero: "arp_ok c \<Longrightarrow> arp_cache_lookup c 0 = None"
  using arp_lookup_iff by (cases "arp_cache_lookup c 0") auto

lemma arp_lookup_no_room: "arp_ok c \<Longrightarrow> arp_probe (arp_entries c) ip = None \<Longrightarrow> arp_cache_lookup c ip = None"
  by (simp add: arp_cache_lookup_def)

interpretation arp: keyed_store arp_ok arp_cache_lookup arp_cache_insert "(=)"
proof unfold_locales
  fix c :: arp_cache and now ip ip' :: u32 and mac :: buf
  assume ok: "arp_ok c"
  show "arp_ok (arp_cache_insert now c ip mac)" by (rule arp_insert_effect(1) [OF ok])
  show "arp_cache_lookup (arp_cache_insert now c ip mac) ip' = Some mac \<or>
      arp_cache_lookup (arp_cache_insert now c ip mac) ip' = arp_cache_lookup c ip'" if "ip = ip'"
    using that arp_insert_effect(3) [OF ok] arp_lookup_no_room [OF ok] arp_lookup_zero arp_insert_effect(1) [OF ok] ok
    by (cases "ip = 0") auto
  show "arp_cache_lookup (arp_cache_insert now c ip mac) ip' = arp_cache_lookup c ip'" if "ip \<noteq> ip'"
    using that arp_insert_effect(2) [OF ok, of ip' ip] by auto
qed

text \<open>C17: The open-addressing table is a map: inserting an address with its MAC changes exactly its own
  entry, and is refused only when all 2048 slots hold other addresses.\<close>

theorem arp_insert_refines_map:
  assumes "arp_ok c" and "ip \<noteq> 0"
  shows "arp_cache_lookup (arp_cache_insert now c ip mac) =
    (if \<forall>s < ARP_CACHE_SIZE. ae_ip (arp_entries c ! s) \<noteq> 0 \<and> ae_ip (arp_entries c ! s) \<noteq> ip
     then arp_cache_lookup c else (arp_cache_lookup c)(ip \<mapsto> mac)) \<and>
    arp_ok (arp_cache_insert now c ip mac)"
proof -
  have "arp_cache_lookup (arp_cache_insert now c ip mac) x =
      (if x = ip then if arp_probe (arp_entries c) ip = None then None else Some mac else arp_cache_lookup c x)" for x
    using arp_insert_effect(2,3) [OF assms(1)] assms(2) by (cases "x = ip") simp_all
  then show ?thesis
    unfolding arp_probe_None [symmetric]
    using arp_insert_effect(1) [OF assms(1)] arp_lookup_no_room [OF assms(1)] by (auto simp: fun_eq_iff)
qed

definition arp_empty :: arp_cache where
  "arp_empty = \<lparr>arp_entries = replicate ARP_CACHE_SIZE \<lparr>ae_ip = 0, ae_mac = replicate 6 0, ae_last_seen_sec = 0\<rparr>,
     arp_raw_fd = 3, arp_ifindex = 2, arp_ifname = ''lan0'', arp_if_mac = replicate 6 1, arp_if_ip = 1,
     arp_persist_dirty = False\<rparr>"

lemma arp_empty_ok: "arp_ok arp_empty"
  by (simp add: arp_ok_def arp_empty_def)

theorem arp_insert_refines_map_witness:
  "arp_cache_lookup (arp_cache_insert 7 arp_empty 5 [1, 2, 3, 4, 5, 6]) 5 = Some [1, 2, 3, 4, 5, 6]"
proof -
  have "\<not> (\<forall>s < ARP_CACHE_SIZE. ae_ip (arp_entries arp_empty ! s) \<noteq> 0 \<and> ae_ip (arp_entries arp_empty ! s) \<noteq> 5)"
    by (auto simp: arp_empty_def intro!: exI [of _ 0])
  then show ?thesis using arp_insert_refines_map [OF arp_empty_ok, of 5 7 "[1, 2, 3, 4, 5, 6]"] by auto
qed

section \<open>Saving and loading\<close>

definition arp_used :: "arp_cache \<Rightarrow> nat" where
  "arp_used c = card {s. s < ARP_CACHE_SIZE \<and> ae_ip (arp_entries c ! s) \<noteq> 0}"

lemma arp_room: "arp_ok c \<Longrightarrow> arp_used c < ARP_CACHE_SIZE \<Longrightarrow> arp_probe (arp_entries c) ip \<noteq> None"
proof
  assume "arp_used c < ARP_CACHE_SIZE" "arp_probe (arp_entries c) ip = None"
  then have "{s. s < ARP_CACHE_SIZE \<and> ae_ip (arp_entries c ! s) \<noteq> 0} = {s. s < ARP_CACHE_SIZE}"
    by (auto simp: arp_probe_None)
  then show False using \<open>arp_used c < ARP_CACHE_SIZE\<close> by (simp add: arp_used_def)
qed

lemma arp_used_insert: "arp_ok c \<Longrightarrow> arp_used (arp_cache_insert now c ip mac) \<le> Suc (arp_used c)"
proof (cases "arp_probe (arp_entries c) ip")
  case (Some s)
  assume "arp_ok c"
  then have "{t. t < ARP_CACHE_SIZE \<and> ae_ip (arp_entries (arp_cache_insert now c ip mac) ! t) \<noteq> 0} \<subseteq>
      insert s {t. t < ARP_CACHE_SIZE \<and> ae_ip (arp_entries c ! t) \<noteq> 0}"
    using Some by (auto simp: arp_cache_insert_def nth_list_update arp_ok_def split: if_splits)
  then have "card {t. t < ARP_CACHE_SIZE \<and> ae_ip (arp_entries (arp_cache_insert now c ip mac) ! t) \<noteq> 0} \<le>
      card (insert s {t. t < ARP_CACHE_SIZE \<and> ae_ip (arp_entries c ! t) \<noteq> 0})"
    by (rule card_mono [rotated]) simp
  then show ?thesis unfolding arp_used_def by (rule le_trans) (simp add: card_insert_if)
qed (simp add: arp_cache_insert_def)

lemma arp_inserts:
  assumes "arp_ok c" and "arp_used c + length lines \<le> ARP_CACHE_SIZE"
    and "distinct (map fst lines)" and "\<forall>(ip, mac) \<in> set lines. ip \<noteq> 0"
  shows "arp_ok (foldl (\<lambda>c (ip_host, mac). arp_cache_insert now c (htonl ip_host) mac) c lines) \<and>
    arp_cache_lookup (foldl (\<lambda>c (ip_host, mac). arp_cache_insert now c (htonl ip_host) mac) c lines) ip =
      (case map_of lines (ntohl ip) of Some mac \<Rightarrow> Some mac | None \<Rightarrow> arp_cache_lookup c ip)"
  using assms
proof (induction lines arbitrary: c)
  case (Cons line lines)
  obtain h mac where line: "line = (h, mac)" by fastforce
  let ?c = "arp_cache_insert now c (htonl h) mac"
  have h: "htonl h \<noteq> 0" using Cons.prems(4) line htonl_eq_iff [of h 0] by (auto simp: htonl_def host32_def)
  have room: "arp_probe (arp_entries c) (htonl h) \<noteq> None" by (rule arp_room) (use Cons.prems in auto)
  note eff = arp_insert_effect [OF Cons.prems(1), where now = now and ip = "htonl h" and mac = mac]
  have "arp_used ?c + length lines \<le> ARP_CACHE_SIZE"
    using arp_used_insert [OF Cons.prems(1), of now "htonl h" mac] Cons.prems(2) by simp
  note IH = Cons.IH [OF eff(1) this]
  have look: "arp_cache_lookup ?c ip = (if ntohl ip = h then Some mac else arp_cache_lookup c ip)"
    using eff(2) [where ip' = ip] eff(3) [OF h] room by (cases "ip = htonl h") auto
  show ?case
    using IH Cons.prems(3,4) look by (auto simp: line map_of_eq_None_iff [symmetric] split: option.split)
qed simp

lemma distinct_map_filter_nth:
  "(\<And>i j. i < j \<Longrightarrow> j < length xs \<Longrightarrow> P (xs ! i) \<Longrightarrow> P (xs ! j) \<Longrightarrow> f (xs ! i) \<noteq> f (xs ! j)) \<Longrightarrow>
   distinct (map f (filter P xs))"
proof (induction xs)
  case (Cons x xs)
  have "distinct (map f (filter P xs))"
    by (rule Cons.IH) (use Cons.prems [of "Suc _" "Suc _"] in simp)
  moreover have "f x \<notin> f ` {y \<in> set xs. P y}" if "P x"
    using Cons.prems [of 0 "Suc _"] that by (auto simp: in_set_conv_nth)
  ultimately show ?case by auto
qed simp

lemma arp_saved_lines:
  assumes ok: "arp_ok c"
  defines "lines \<equiv> map (\<lambda>e. (ntohl (ae_ip e), ae_mac e)) (filter (\<lambda>e. ae_ip e \<noteq> 0) (arp_entries c))"
  shows "distinct (map fst lines)" "\<forall>(ip, mac) \<in> set lines. ip \<noteq> 0" "length lines \<le> ARP_CACHE_SIZE"
    "map_of lines (ntohl ip) = arp_cache_lookup c ip"
proof -
  let ?es = "arp_entries c"
  have len: "length ?es = ARP_CACHE_SIZE" using ok by (simp add: arp_ok_def)
  have fst: "map fst lines = map (\<lambda>e. ntohl (ae_ip e)) (filter (\<lambda>e. ae_ip e \<noteq> 0) ?es)" by (simp add: lines_def)
  show d: "distinct (map fst lines)" unfolding fst
  proof (rule distinct_map_filter_nth)
    fix i j assume ij: "i < j" "j < length ?es" "ae_ip (?es ! i) \<noteq> 0" "ae_ip (?es ! j) \<noteq> 0"
    then have "arp_probe ?es (ae_ip (?es ! i)) = Some i" "arp_probe ?es (ae_ip (?es ! j)) = Some j"
      using ok len by (auto simp: arp_ok_def)
    then show "ntohl (ae_ip (?es ! i)) \<noteq> ntohl (ae_ip (?es ! j))" using ij(1) by auto
  qed
  have h0: "htonl x = 0 \<longleftrightarrow> x = 0" for x using htonl_eq_iff [of x 0] by (simp add: htonl_def host32_def)
  show "\<forall>(ip, mac) \<in> set lines. ip \<noteq> 0" by (auto simp: lines_def h0)
  show "length lines \<le> ARP_CACHE_SIZE" using len length_filter_le [of "\<lambda>e. ae_ip e \<noteq> 0" ?es] by (simp add: lines_def)
  have "map_of lines (ntohl ip) = Some m \<longleftrightarrow> arp_cache_lookup c ip = Some m" for m
  proof -
    have "map_of lines (ntohl ip) = Some m \<longleftrightarrow> (ntohl ip, m) \<in> set lines" using d by (rule map_of_eq_Some_iff)
    also have "\<dots> \<longleftrightarrow> (\<exists>e \<in> set ?es. ae_ip e \<noteq> 0 \<and> ae_ip e = ip \<and> ae_mac e = m)" by (auto simp: lines_def)
    also have "\<dots> \<longleftrightarrow> ip \<noteq> 0 \<and> (\<exists>s < ARP_CACHE_SIZE. ae_ip (?es ! s) = ip \<and> ae_mac (?es ! s) = m)"
      unfolding len [symmetric] Bex_def in_set_conv_nth by blast
    finally show ?thesis unfolding arp_lookup_iff [OF ok] .
  qed
  then show "map_of lines (ntohl ip) = arp_cache_lookup c ip"
    by (rule eq_by_Some)
qed

lemma arp_used_empty: "arp_used arp_empty = 0"
  by (auto simp: arp_used_def arp_empty_def)



section \<open>Learning and rewriting\<close>

text \<open>The reply a host sends for an address: the fields the listener reads.\<close>

definition arp_reply_frame :: "u32 \<Rightarrow> buf \<Rightarrow> buf \<Rightarrow> bool" where
  "arp_reply_frame ip mac b \<longleftrightarrow> 42 \<le> length b \<and> rd16 b 12 = Some 0x0806 \<and> rd16 b 20 = Some 2 \<and>
     rd32 b 28 = Some ip \<and> rdn b 22 6 = Some mac \<and> mac_is_nonzero6 mac"

text \<open>After the listener has seen a reply for the next hop, and whatever it learns about other
  hosts afterwards, a packet to the next hop leaves with the MAC of the reply as destination,
  the MAC of the interface as source, and its other bytes unchanged.\<close>

theorem wan_rewrite_after_reply:
  assumes "arp_ok c" and "arp_used c < ARP_CACHE_SIZE" and "arp_reply_frame (wc_dst_ip cfg) mac b" and "wc_dst_ip cfg \<noteq> 0"
    and "arp_listener_frame now c b n = Some c1" and "42 \<le> n"
    and "\<forall>(t, ip, m) \<in> set later. ip \<noteq> wc_dst_ip cfg"
    and "12 \<le> length pkt" and "length (arp_if_mac c) = 6"
  shows "\<exists>pkt'. wan_rewrite_dest_mac (foldl (\<lambda>c (t, ip, m). arp_cache_insert t c ip m) c1 later) cfg d s pkt =
      Some (0, pkt', None) \<and> pkt' = mac @ arp_if_mac c @ drop 12 pkt"
proof -
  have mac: "length mac = 6" using assms(3) by (auto simp: arp_reply_frame_def dest: rdn_length)
  have c1: "c1 = arp_cache_insert now c (wc_dst_ip cfg) mac"
    using assms(3,5,6) by (simp add: arp_listener_frame_def arp_reply_frame_def)
  have look: "arp_cache_lookup c1 (wc_dst_ip cfg) = Some mac"
    using arp_insert_effect(3) [OF assms(1,4)] arp_room [OF assms(1,2)] by (simp add: c1)
  have frame: "arp_if_mac (arp_cache_insert t c0 ip m) = arp_if_mac c0" for t c0 ip m
    by (simp add: arp_cache_insert_def split: option.split)
  have "arp_ok c2 \<Longrightarrow> arp_cache_lookup c2 (wc_dst_ip cfg) = Some mac \<Longrightarrow>
      arp_cache_lookup (foldl (\<lambda>c (t, ip, m). arp_cache_insert t c ip m) c2 later) (wc_dst_ip cfg) = Some mac \<and>
      arp_if_mac (foldl (\<lambda>c (t, ip, m). arp_cache_insert t c ip m) c2 later) = arp_if_mac c2" for c2
    using assms(7)
  proof (induction later arbitrary: c2)
    case (Cons x later)
    obtain t ip m where x: "x = (t, ip, m)" by (metis prod_cases3)
    have "ip \<noteq> wc_dst_ip cfg" using Cons.prems(3) x by auto
    then show ?case
      using Cons.IH [OF arp.put_valid [OF Cons.prems(1)], of t ip m] arp.put_other [OF Cons.prems(1)] Cons.prems(2,3)
      by (simp add: x frame)
  qed simp
  from this [OF _ look] arp_insert_effect(1) [OF assms(1)] show ?thesis
    using mac assms(4,8,9) by (simp add: wan_rewrite_dest_mac_def c1 frame)
qed

definition sample_reply :: buf where
  "sample_reply = replicate 12 0 @ [8, 6, 0, 1, 8, 0, 6, 4, 0, 2, 1, 2, 3, 4, 5, 6, 5, 0, 0, 0] @ replicate 10 0"

theorem wan_rewrite_after_reply_witness:
  "\<exists>c1 pkt'. arp_listener_frame 9 arp_empty sample_reply 42 = Some c1 \<and>
     wan_rewrite_dest_mac (arp_cache_insert 12 c1 6 [9, 9, 9, 9, 9, 9]) (sample_wan\<lparr>wc_dst_ip := 5\<rparr>)
       [] [] (replicate 64 0) = Some (0, pkt', None) \<and> pkt' = [1, 2, 3, 4, 5, 6] @ replicate 6 1 @ replicate 52 0"
proof -
  let ?cfg = "sample_wan\<lparr>wc_dst_ip := 5\<rparr>"
  have frame: "arp_reply_frame 5 [1, 2, 3, 4, 5, 6] sample_reply"
    by (simp add: arp_reply_frame_def sample_reply_def rd16_def rd32_def rd_def rdn_def be16_def host32_def nth_append
        mac_is_nonzero6_def)
  then obtain c1 where c1: "arp_listener_frame 9 arp_empty sample_reply 42 = Some c1"
    by (auto simp: arp_listener_frame_def arp_reply_frame_def)
  have "replicate 64 (0 :: byte) = replicate 12 0 @ replicate 52 0" by (simp flip: replicate_add)
  then have "drop 12 (replicate 64 (0 :: byte)) = replicate 52 0" by simp
  then show ?thesis
    using wan_rewrite_after_reply [OF arp_empty_ok _ _ _ c1, of ?cfg "[1, 2, 3, 4, 5, 6]"
        "[(12, 6, [9, 9, 9, 9, 9, 9])]" "replicate 64 0" "[]" "[]"] frame c1
    by (simp add: arp_used_empty) (simp add: arp_empty_def)
qed

end
