(* ===== verification/Ring.thy ===== *)
theory Ring
  imports Interfaces
begin

text \<open>
  The two places where threads of the forwarder meet, \<^verbatim>\<open>src/core/forwarder.c\<close>: the ring that
  hands packets from the receiving threads to the encrypting worker, and the gate by which a
  configuration reload waits until no packet is being processed.
\<close>

section \<open>The worker ring\<close>

abbreviation (input) WORKER_RING_SIZE :: nat where "WORKER_RING_SIZE \<equiv> 4096"

record packet_job =
  job_local_idx :: int
  job_queue_idx :: int
  job_tx_queue_base :: int
  job_pkt :: buf
  job_pkt_len :: nat
  job_addr :: u64

record worker_ring =
  wr_jobs :: "packet_job list"
  wr_head :: nat
  wr_tail :: nat

text \<open>Entering a job, in the receiving thread; the flag is \<^verbatim>\<open>enqueued\<close>.\<close>

definition ring_enqueue :: "packet_job \<Rightarrow> worker_ring \<Rightarrow> bool \<times> worker_ring" where
  "ring_enqueue job ring =
     (let next_tail = (wr_tail ring + 1) mod WORKER_RING_SIZE
      in if next_tail \<noteq> wr_head ring
         then (True, ring\<lparr>wr_jobs := (wr_jobs ring)[wr_tail ring := job], wr_tail := next_tail\<rparr>)
         else (False, ring))"

text \<open>Taking a job, in the worker.\<close>

definition ring_dequeue :: "worker_ring \<Rightarrow> packet_job option \<times> worker_ring" where
  "ring_dequeue ring =
     (if wr_head ring \<noteq> wr_tail ring
      then (Some (wr_jobs ring ! wr_head ring), ring\<lparr>wr_head := (wr_head ring + 1) mod WORKER_RING_SIZE\<rparr>)
      else (None, ring))"

definition ring_inv :: "worker_ring \<Rightarrow> bool" where
  "ring_inv r \<longleftrightarrow> length (wr_jobs r) = WORKER_RING_SIZE \<and>
     wr_head r < WORKER_RING_SIZE \<and> wr_tail r < WORKER_RING_SIZE"

definition ring_count :: "worker_ring \<Rightarrow> nat" where
  "ring_count r = (if wr_head r \<le> wr_tail r then wr_tail r - wr_head r
                   else wr_tail r + WORKER_RING_SIZE - wr_head r)"

text \<open>The jobs in the ring, oldest first.\<close>

definition ring_items :: "worker_ring \<Rightarrow> packet_job list" where
  "ring_items r = map (\<lambda>i. wr_jobs r ! ((wr_head r + i) mod WORKER_RING_SIZE)) [0..<ring_count r]"

lemma ring_count_less: "ring_inv r \<Longrightarrow> ring_count r < WORKER_RING_SIZE"
  by (auto simp: ring_inv_def ring_count_def)

lemma ring_tail: "ring_inv r \<Longrightarrow> wr_tail r = (wr_head r + ring_count r) mod WORKER_RING_SIZE"
  by (auto simp: ring_inv_def ring_count_def)

lemma wrap_add: "h < WORKER_RING_SIZE \<Longrightarrow> i < WORKER_RING_SIZE \<Longrightarrow>
    (h + i) mod WORKER_RING_SIZE = (if h + i < WORKER_RING_SIZE then h + i else h + i - WORKER_RING_SIZE)"
  by (auto simp: mod_if)

lemma ring_full_iff:
  assumes "ring_inv r"
  shows "(wr_tail r + 1) mod WORKER_RING_SIZE \<noteq> wr_head r \<longleftrightarrow> ring_count r < WORKER_RING_SIZE - 1"
  using assms wrap_add [of "wr_tail r" 1] by (auto simp: ring_inv_def ring_count_def)

lemma ring_enqueue_room:
  assumes inv: "ring_inv r" and room: "ring_count r < WORKER_RING_SIZE - 1"
  shows "fst (ring_enqueue job r)" "ring_inv (snd (ring_enqueue job r))"
    "ring_items (snd (ring_enqueue job r)) = ring_items r @ [job]"
proof -
  let ?r = "snd (ring_enqueue job r)"
  have r: "fst (ring_enqueue job r)" "?r = r\<lparr>wr_jobs := (wr_jobs r)[wr_tail r := job],
      wr_tail := (wr_tail r + 1) mod WORKER_RING_SIZE\<rparr>"
    using ring_full_iff [OF inv] room by (simp_all add: ring_enqueue_def Let_def)
  show "fst (ring_enqueue job r)" by (rule r)
  show "ring_inv ?r" using inv by (simp add: r(2) ring_inv_def)
  have count: "ring_count ?r = Suc (ring_count r)"
    using inv room wrap_add [of "wr_tail r" 1] by (auto simp: r(2) ring_inv_def ring_count_def)
  have h: "wr_head r < WORKER_RING_SIZE" "wr_tail r < length (wr_jobs r)" using inv by (simp_all add: ring_inv_def)
  have other: "wr_tail r \<noteq> (wr_head r + i) mod WORKER_RING_SIZE" if "i < ring_count r" for i
    using that ring_tail [OF inv] room h(1) wrap_add [of "wr_head r" i] wrap_add [of "wr_head r" "ring_count r"]
    by (auto split: if_splits)
  have "map (\<lambda>i. wr_jobs ?r ! ((wr_head ?r + i) mod WORKER_RING_SIZE)) [0..<ring_count r] = ring_items r"
    unfolding ring_items_def using other by (auto simp: r(2))
  moreover have "wr_jobs ?r ! ((wr_head ?r + ring_count r) mod WORKER_RING_SIZE) = job"
    using ring_tail [OF inv] h(2) by (simp add: r(2))
  ultimately show "ring_items ?r = ring_items r @ [job]" by (simp add: ring_items_def [of ?r] count)
qed

lemma ring_dequeue_item:
  assumes inv: "ring_inv r" and items: "ring_items r = job # jobs"
  shows "fst (ring_dequeue r) = Some job" "ring_inv (snd (ring_dequeue r))" "ring_items (snd (ring_dequeue r)) = jobs"
proof -
  let ?r = "snd (ring_dequeue r)"
  have h: "wr_head r < WORKER_RING_SIZE" "wr_tail r < WORKER_RING_SIZE" using inv by (simp_all add: ring_inv_def)
  have pos: "0 < ring_count r" using items by (cases "ring_count r") (simp_all add: ring_items_def)
  then have ne: "wr_head r \<noteq> wr_tail r" by (auto simp: ring_count_def)
  then have r: "ring_dequeue r = (Some (wr_jobs r ! wr_head r), r\<lparr>wr_head := (wr_head r + 1) mod WORKER_RING_SIZE\<rparr>)"
    by (simp add: ring_dequeue_def)
  have count: "ring_count r = Suc (ring_count ?r)"
    using h ne wrap_add [of "wr_head r" 1] by (auto simp: r ring_count_def)
  have "ring_items r = wr_jobs r ! (wr_head r mod WORKER_RING_SIZE) #
      map (\<lambda>i. wr_jobs r ! ((wr_head r + Suc i) mod WORKER_RING_SIZE)) [0..<ring_count ?r]"
    unfolding ring_items_def count map_upt_Suc by simp
  moreover have "(wr_head r + Suc i) mod WORKER_RING_SIZE = (wr_head ?r + i) mod WORKER_RING_SIZE" for i
    by (simp add: r mod_simps)
  ultimately have "ring_items r = wr_jobs r ! wr_head r # ring_items ?r" using h by (simp add: ring_items_def r)
  then show "fst (ring_dequeue r) = Some job" "ring_items ?r = jobs" using items r by auto
  show "ring_inv ?r" using inv by (simp add: r ring_inv_def)
qed

interpretation ring: bounded_queue ring_inv ring_items "WORKER_RING_SIZE - 1" ring_enqueue ring_dequeue
proof unfold_locales
  fix r :: worker_ring and job jobs
  assume inv: "ring_inv r"
  have len: "length (ring_items r) = ring_count r" by (simp add: ring_items_def)
  show "fst (ring_enqueue job r) \<and> ring_inv (snd (ring_enqueue job r)) \<and>
      ring_items (snd (ring_enqueue job r)) = ring_items r @ [job]" if "length (ring_items r) < WORKER_RING_SIZE - 1"
    using ring_enqueue_room [OF inv] that len by simp
  show "ring_enqueue job r = (False, r)" if "\<not> length (ring_items r) < WORKER_RING_SIZE - 1"
    using ring_full_iff [OF inv] that len by (simp add: ring_enqueue_def Let_def)
  show "ring_dequeue r = (None, r)" if "ring_items r = []"
    using that inv by (auto simp: ring_dequeue_def ring_items_def ring_count_def ring_inv_def split: if_splits)
  show "fst (ring_dequeue r) = Some job \<and> ring_inv (snd (ring_dequeue r)) \<and> ring_items (snd (ring_dequeue r)) = jobs"
    if "ring_items r = job # jobs"
    using ring_dequeue_item [OF inv that] by simp
  show "length (ring_items r) \<le> WORKER_RING_SIZE - 1" using ring_count_less [OF inv] len by simp
qed

text \<open>A run of the receiving threads and the worker, in the order in which they hold the lock:
  \<open>Some job\<close> offers a job, \<open>None\<close> takes one.  The result has the ring, the jobs that were accepted
  and the jobs the worker got.\<close>

definition ring_run :: "packet_job option list \<Rightarrow> worker_ring \<Rightarrow> worker_ring \<times> packet_job list \<times> packet_job list" where
  "ring_run ops ring = foldl (\<lambda>(q, acc, out) op. case op of
       Some x \<Rightarrow> (snd (ring_enqueue x q), if fst (ring_enqueue x q) then acc @ [x] else acc, out)
     | None \<Rightarrow> (snd (ring_dequeue q), acc, case fst (ring_dequeue q) of None \<Rightarrow> out | Some y \<Rightarrow> out @ [y]))
     (ring, [], []) ops"

definition ring_start :: worker_ring where
  "ring_start = \<lparr>wr_jobs = replicate WORKER_RING_SIZE \<lparr>job_local_idx = 0, job_queue_idx = 0,
     job_tx_queue_base = 0, job_pkt = [], job_pkt_len = 0, job_addr = 0\<rparr>, wr_head = 0, wr_tail = 0\<rparr>"

text \<open>C20: The ring is a first-in first-out queue: the worker gets the accepted jobs in their order, each
  once, none is lost or invented, and at most 4095 are waiting.\<close>

theorem ring_is_fifo:
  assumes "ring_run ops ring_start = (ring, accepted, delivered)"
  shows "accepted = delivered @ ring_items ring \<and> length (ring_items ring) \<le> 4095"
proof -
  have "ring_inv ring_start" "ring_items ring_start = []"
    by (simp_all add: ring_inv_def ring_start_def ring_items_def ring_count_def)
  then have "ring_inv ring \<and> accepted = delivered @ ring_items ring"
    using ring.run_fifo [of ring_start "[]" "[]" ops ring accepted delivered] assms by (simp add: ring_run_def)
  then show ?thesis using ring.bound [of ring] by simp
qed

theorem ring_is_fifo_witness:
  "\<exists>ring. ring_run [None, Some (wr_jobs ring_start ! 0), None] ring_start =
     (ring, [wr_jobs ring_start ! 0], [wr_jobs ring_start ! 0]) \<and> length (ring_items ring) \<le> 4095"
proof -
  let ?j = "wr_jobs ring_start ! 0"
  obtain ring acc out where r: "ring_run [None, Some ?j, None] ring_start = (ring, acc, out)" by (metis prod_cases3)
  have "acc = [?j] \<and> out = [?j]" using r
    by (auto simp: ring_run_def ring_start_def ring_enqueue_def ring_dequeue_def)
  then show ?thesis using ring_is_fifo [OF r] r by auto
qed

section \<open>The reload gate\<close>

text \<open>
  \<^verbatim>\<open>packet_critical_enter\<close>, \<^verbatim>\<open>packet_critical_leave\<close> and the waiting part of
  \<^verbatim>\<open>forwarder_reload_config\<close>, one step per atomic operation.  A worker has left the loop on the
  pause flag (\<open>W_passed\<close>), has counted itself (\<open>W_counted\<close>), and is in its critical section after it
  has seen the flag clear again; the reloading thread raises the flag, waits for the count to
  reach zero, swaps the configuration, and clears the flag.
\<close>

datatype worker_pc = W_idle | W_wait | W_passed | W_counted | W_critical
datatype reload_pc = R_idle | R_wait | R_swap

record gate =
  g_reload_pause :: bool
  g_inflight_packets :: int
  g_workers :: "worker_pc list"
  g_reloader :: reload_pc

inductive gate_step :: "gate \<Rightarrow> gate \<Rightarrow> bool" where
  start: "i < length (g_workers g) \<Longrightarrow> g_workers g ! i = W_idle \<Longrightarrow>
    gate_step g (g\<lparr>g_workers := (g_workers g)[i := W_wait]\<rparr>)"
| see_open: "i < length (g_workers g) \<Longrightarrow> g_workers g ! i = W_wait \<Longrightarrow> \<not> g_reload_pause g \<Longrightarrow>
    gate_step g (g\<lparr>g_workers := (g_workers g)[i := W_passed]\<rparr>)"
| count: "i < length (g_workers g) \<Longrightarrow> g_workers g ! i = W_passed \<Longrightarrow>
    gate_step g (g\<lparr>g_workers := (g_workers g)[i := W_counted], g_inflight_packets := g_inflight_packets g + 1\<rparr>)"
| enter: "i < length (g_workers g) \<Longrightarrow> g_workers g ! i = W_counted \<Longrightarrow> \<not> g_reload_pause g \<Longrightarrow>
    gate_step g (g\<lparr>g_workers := (g_workers g)[i := W_critical]\<rparr>)"
| retreat: "i < length (g_workers g) \<Longrightarrow> g_workers g ! i = W_counted \<Longrightarrow> g_reload_pause g \<Longrightarrow>
    gate_step g (g\<lparr>g_workers := (g_workers g)[i := W_wait], g_inflight_packets := g_inflight_packets g - 1\<rparr>)"
| leave: "i < length (g_workers g) \<Longrightarrow> g_workers g ! i = W_critical \<Longrightarrow>
    gate_step g (g\<lparr>g_workers := (g_workers g)[i := W_idle], g_inflight_packets := g_inflight_packets g - 1\<rparr>)"
| pause: "g_reloader g = R_idle \<Longrightarrow> gate_step g (g\<lparr>g_reloader := R_wait, g_reload_pause := True\<rparr>)"
| drained: "g_reloader g = R_wait \<Longrightarrow> \<not> g_inflight_packets g > 0 \<Longrightarrow> gate_step g (g\<lparr>g_reloader := R_swap\<rparr>)"
| resume: "g_reloader g = R_swap \<Longrightarrow> gate_step g (g\<lparr>g_reloader := R_idle, g_reload_pause := False\<rparr>)"

definition gate_start :: "nat \<Rightarrow> gate" where
  "gate_start n = \<lparr>g_reload_pause = False, g_inflight_packets = 0, g_workers = replicate n W_idle, g_reloader = R_idle\<rparr>"

definition gate_reachable :: "nat \<Rightarrow> gate \<Rightarrow> bool" where
  "gate_reachable n g \<longleftrightarrow> gate_step\<^sup>*\<^sup>* (gate_start n) g"

fun counted :: "worker_pc \<Rightarrow> bool" where
  "counted W_counted \<longleftrightarrow> True"
| "counted W_critical \<longleftrightarrow> True"
| "counted _ \<longleftrightarrow> False"

definition gate_count :: "gate \<Rightarrow> nat" where
  "gate_count g = length (filter counted (g_workers g))"

definition gate_inv :: "gate \<Rightarrow> bool" where
  "gate_inv g \<longleftrightarrow> g_inflight_packets g = int (gate_count g) \<and>
     (g_reload_pause g \<longleftrightarrow> g_reloader g \<noteq> R_idle) \<and>
     (g_reloader g = R_swap \<longrightarrow> W_critical \<notin> set (g_workers g))"

lemma filter_update_length:
  "i < length xs \<Longrightarrow> int (length (filter P (xs[i := y]))) =
     int (length (filter P xs)) - of_bool (P (xs ! i)) + of_bool (P y)"
proof (induction xs arbitrary: i)
  case (Cons x xs)
  show ?case
  proof (cases i)
    case (Suc j)
    then show ?thesis using Cons.IH [of j] Cons.prems by simp
  qed simp
qed simp

lemma set_update_notin: "x \<notin> set xs \<Longrightarrow> y \<noteq> x \<Longrightarrow> x \<notin> set (xs[i := y])"
  using set_update_subset_insert [of xs i y] by auto

lemma gate_step_inv:
  assumes "gate_step g g'" and "gate_inv g"
  shows "gate_inv g'"
  using assms
proof (cases rule: gate_step.cases)
  case drained
  have "W_critical \<notin> set (g_workers g)"
    using drained assms(2) by (auto simp: gate_inv_def gate_count_def filter_empty_conv)
  then show ?thesis using drained assms(2) by (auto simp: gate_inv_def gate_count_def)
qed (auto simp: gate_inv_def gate_count_def filter_update_length set_update_notin)

lemma gate_reachable_inv: "gate_reachable n g \<Longrightarrow> gate_inv g"
  unfolding gate_reachable_def
proof (induction rule: rtranclp_induct)
  case base
  show ?case by (simp add: gate_start_def gate_inv_def gate_count_def)
next
  case (step g g')
  then show ?case by (blast intro: gate_step_inv)
qed





end
