(* ===== verification/Xdp.thy ===== *)
theory Xdp
  imports Layer2
begin

text \<open>
  The two XDP programs that decide in the kernel which frames reach the forwarder:
  \<^verbatim>\<open>src/bpf/xdp_redirect.c\<close> on the LAN side, \<^verbatim>\<open>src/bpf/xdp_wan_redirect.c\<close> on the WAN side.

  The frame is the buffer between \<^verbatim>\<open>ctx->data\<close> and \<^verbatim>\<open>ctx->data_end\<close>; an access behind its end is
  \<^term>\<open>None\<close>.  Whether a socket is registered for queue 0 is an input.  The counters are the
  values of an array map; an index behind its end is ignored.  The ingress rate limit is
  compiled out in the source.
\<close>

section \<open>Verdicts and counters\<close>

datatype xdp_action = XDP_ABORTED | XDP_DROP | XDP_PASS | XDP_TX | XDP_REDIRECT

type_synonym xdp_stats = "u64 list"
type_synonym xdp_result = "(xdp_action \<times> xdp_stats) option"

definition inc_stat :: "nat \<Rightarrow> xdp_stats \<Rightarrow> xdp_stats" where
  "inc_stat idx stats = (if idx < length stats then stats[idx := stats ! idx + 1] else stats)"

text \<open>\<^verbatim>\<open>bpf_redirect_map\<close> on a map with or without the entry; the flags are the fallback verdict.\<close>

definition bpf_redirect_map :: "bool \<Rightarrow> xdp_action \<Rightarrow> xdp_action" where
  "bpf_redirect_map sock fallback = (if sock then XDP_REDIRECT else fallback)"

section \<open>LAN side\<close>

text \<open>The ports, or \<^term>\<open>None\<close> inside for the return value -1.\<close>

definition read_tcp_udp_ports :: "buf \<Rightarrow> byte \<Rightarrow> (u16 \<times> u16) option option" where
  "read_tcp_udp_ports data ip_proto =
     (if ip_proto \<noteq> 6 \<and> ip_proto \<noteq> 17 then Some (Some (0, 0))
      else if length data < 34 then Some None
      else do {
        vihl \<leftarrow> rd data 14;
        let ihl = ihl_bytes vihl;
        if ihl < 20 then Some None
        else if 14 + ihl + 4 > length data then Some None
        else do {
          sport \<leftarrow> rd16 data (14 + ihl);
          dport \<leftarrow> rd16 data (14 + ihl + 2);
          Some (Some (sport, dport))
        }
      })"

text \<open>Source, destination and protocol.\<close>

definition parse_ipv4 :: "buf \<Rightarrow> (u32 \<times> u32 \<times> byte) option option" where
  "parse_ipv4 data =
     (if length data < 14 then Some None
      else do {
        h_proto \<leftarrow> rd16 data 12;
        if h_proto \<noteq> 0x0800 then Some None
        else if length data < 34 then Some None
        else do {
          saddr \<leftarrow> rd32 data 26;
          daddr \<leftarrow> rd32 data 30;
          protocol \<leftarrow> rd data 23;
          Some (Some (saddr, daddr, protocol))
        }
      })"

definition xdp_redirect_prog :: "bool \<Rightarrow> xdp_stats \<Rightarrow> buf \<Rightarrow> xdp_result" where
  "xdp_redirect_prog sock stats data =
     (let stats = inc_stat 0 stats
      in if length data < 14 then Some (XDP_PASS, inc_stat 1 stats)
      else do {
        h_proto \<leftarrow> rd16 data 12;
        if h_proto = 0x0806 then Some (XDP_PASS, inc_stat 7 stats)
        else do {
          ip \<leftarrow> parse_ipv4 data;
          case ip of
            None \<Rightarrow> Some (XDP_PASS, inc_stat 1 stats)
          | Some (src_ip, dst_ip, l4_proto) \<Rightarrow>
              if l4_proto = 1 then Some (XDP_PASS, inc_stat 4 stats)
              else if l4_proto \<noteq> 6 \<and> l4_proto \<noteq> 17 then Some (XDP_PASS, inc_stat 8 stats)
              else do {
                ports \<leftarrow> read_tcp_udp_ports data l4_proto;
                case ports of
                  None \<Rightarrow> Some (XDP_PASS, inc_stat 10 stats)
                | Some _ \<Rightarrow>
                    if \<not> sock then Some (XDP_PASS, inc_stat 5 stats)
                    else Some (bpf_redirect_map sock XDP_ABORTED, inc_stat 6 stats)
              }
        }
      })"

section \<open>WAN side\<close>

definition redirect_wan :: "bool \<Rightarrow> xdp_stats \<Rightarrow> xdp_result" where
  "redirect_wan sock stats =
     (let ret = bpf_redirect_map sock XDP_DROP
      in Some (ret, if ret = XDP_REDIRECT then inc_stat 2 stats else inc_stat 3 stats))"

text \<open>\<open>fake4\<close> is the entry 0 of the configuration map.\<close>

definition xdp_wan_redirect_prog :: "u16 option \<Rightarrow> bool \<Rightarrow> xdp_stats \<Rightarrow> buf \<Rightarrow> xdp_result" where
  "xdp_wan_redirect_prog fake4 sock stats data =
     (let stats = inc_stat 0 stats
      in if length data < 14 then Some (XDP_PASS, stats)
      else do {
        proto \<leftarrow> rd16 data 12;
        if proto = 0x0806 then Some (XDP_PASS, inc_stat 4 stats)
        else if proto = 0x0800 then
          (if length data < 34 then Some (XDP_PASS, stats)
           else do {
             protocol \<leftarrow> rd data 23;
             if protocol = 1 then Some (XDP_PASS, inc_stat 5 stats) else redirect_wan sock stats
           })
        else if proto = 0x86DD then Some (XDP_PASS, stats)
        else do {
          marker \<leftarrow> rd data 12;
          if fake4 \<noteq> None \<and> fake4 \<noteq> Some 0 \<and> marker = 0x88 then redirect_wan sock (inc_stat 6 stats)
          else Some (XDP_PASS, inc_stat 1 stats)
        }
      })"

section \<open>Safety and classification\<close>

lemma parse_ipv4_total:
  "\<exists>r. parse_ipv4 data = Some r \<and>
    (r \<noteq> None \<longleftrightarrow> 34 \<le> length data \<and> be16 (data ! 12) (data ! 13) = 0x0800) \<and>
    (\<forall>s d p. r = Some (s, d, p) \<longrightarrow> p = data ! 23)"
  by (auto simp: parse_ipv4_def rd32_def)

lemma read_tcp_udp_ports_total:
  "\<exists>r. read_tcp_udp_ports data p = Some r \<and> (p = 6 \<or> p = 17 \<longrightarrow>
    (r \<noteq> None \<longleftrightarrow> 34 \<le> length data \<and> 20 \<le> ihl_bytes (data ! 14) \<and> 14 + ihl_bytes (data ! 14) + 4 \<le> length data))"
proof (cases "length data < 34")
  case True then show ?thesis by (auto simp: read_tcp_udp_ports_def)
next
  case False
  then show ?thesis
    by (cases "ihl_bytes (data ! 14) < 20"; cases "14 + ihl_bytes (data ! 14) + 4 > length data")
       (auto simp: read_tcp_udp_ports_def Let_def)
qed

text \<open>C23: The LAN program never reads behind the frame, and it takes exactly the TCP and UDP packets
  over IPv4 whose ports lie in the frame; everything else goes to the kernel's stack, and
  nothing is dropped.\<close>

theorem xdp_redirect_exact:
  "\<exists>action stats'. xdp_redirect_prog sock stats data = Some (action, stats') \<and>
     length stats' = length stats \<and> action \<in> {XDP_PASS, XDP_REDIRECT} \<and>
     (action = XDP_REDIRECT \<longleftrightarrow> sock \<and> 34 \<le> length data \<and> be16 (data ! 12) (data ! 13) = 0x0800 \<and>
        (data ! 23 = 6 \<or> data ! 23 = 17) \<and> 20 \<le> ihl_bytes (data ! 14) \<and>
        14 + ihl_bytes (data ! 14) + 4 \<le> length data)"
proof (cases "length data < 14")
  case True
  then show ?thesis by (simp add: xdp_redirect_prog_def Let_def inc_stat_def)
next
  case len: False
  obtain r where ip: "parse_ipv4 data = Some r" and some: "r \<noteq> None \<longleftrightarrow> 34 \<le> length data \<and> be16 (data ! 12) (data ! 13) = 0x0800"
      and proto: "\<forall>s d p. r = Some (s, d, p) \<longrightarrow> p = data ! 23"
    using parse_ipv4_total by blast
  obtain q where ports: "read_tcp_udp_ports data (data ! 23) = Some q"
      and q: "data ! 23 = 6 \<or> data ! 23 = 17 \<longrightarrow> (q \<noteq> None \<longleftrightarrow> 34 \<le> length data \<and> 20 \<le> ihl_bytes (data ! 14) \<and>
        14 + ihl_bytes (data ! 14) + 4 \<le> length data)"
    using read_tcp_udp_ports_total by blast
  show ?thesis
  proof (cases "be16 (data ! 12) (data ! 13) = 0x0800 \<and> 34 \<le> length data")
    case False
    then have "r = None" using some by blast
    then show ?thesis using len ip False by (auto simp: xdp_redirect_prog_def Let_def inc_stat_def)
  next
    case True
    then obtain s d where "r = Some (s, d, data ! 23)" using some proto by (metis option.exhaust prod_cases3)
    then show ?thesis using len ip True ports q
      by (cases q) (auto simp: xdp_redirect_prog_def Let_def inc_stat_def bpf_redirect_map_def)
  qed
qed

text \<open>The verdict of the WAN program.\<close>

definition wan_verdict :: "u16 option \<Rightarrow> bool \<Rightarrow> buf \<Rightarrow> xdp_action" where
  "wan_verdict fake4 sock data =
     (let take_it = (if sock then XDP_REDIRECT else XDP_DROP); proto = be16 (data ! 12) (data ! 13)
      in if length data < 14 \<or> proto = 0x0806 \<or> proto = 0x86DD then XDP_PASS
         else if proto = 0x0800 then (if length data < 34 \<or> data ! 23 = 1 then XDP_PASS else take_it)
         else if fake4 \<noteq> None \<and> fake4 \<noteq> Some 0 \<and> data ! 12 = 0x88 then take_it else XDP_PASS)"

lemma xdp_wan_redirect_total:
  "\<exists>stats'. xdp_wan_redirect_prog fake4 sock stats data = Some (wan_verdict fake4 sock data, stats')"
proof (cases "length data < 14")
  case True
  then show ?thesis by (simp add: xdp_wan_redirect_prog_def wan_verdict_def Let_def)
next
  case False
  then have r: "rd16 data 12 = Some (be16 (data ! 12) (data ! 13))" "rd data 12 = Some (data ! 12)" by simp_all
  show ?thesis
  proof (cases "be16 (data ! 12) (data ! 13) = 0x0800")
    case True
    then show ?thesis using False r
      by (cases "length data < 34"; cases "data ! 23 = 1")
         (auto simp: xdp_wan_redirect_prog_def wan_verdict_def Let_def redirect_wan_def bpf_redirect_map_def)
  next
    case other: False
    then show ?thesis using False r
      by (auto simp: xdp_wan_redirect_prog_def wan_verdict_def Let_def redirect_wan_def bpf_redirect_map_def)
  qed
qed

text \<open>The WAN program takes the packets of layer-2 encryption exactly when the configured fake
  ethertype starts with the byte \<^verbatim>\<open>0x88\<close> that the program has built in; with any other fake
  ethertype (that does not start like IPv4 or IPv6) they go to the kernel's stack, unseen by
  the forwarder that could decrypt them.\<close>

theorem xdp_wan_takes_l2:
  fixes packet :: buf
  assumes ready: "crypto_ready E st" "ctx_ok ctx" "l2_packet packet pkt_len" "pkt_len + l2_overhead st \<le> length packet"
    and fake: "g_fake_ethertype_ipv4 st \<noteq> 0" "hi8 (g_fake_ethertype_ipv4 st) \<notin> {0x08, 0x86}"
  shows "\<exists>len wire st1 action stats'. crypto_layer2_encrypt E ctx packet pkt_len st = Some (int len, wire, st1) \<and>
    xdp_wan_redirect_prog (Some (g_fake_ethertype_ipv4 st)) True stats (take len wire) = Some (action, stats') \<and>
    (action = XDP_REDIRECT \<longleftrightarrow> hi8 (g_fake_ethertype_ipv4 st) = 0x88) \<and> (action \<noteq> XDP_REDIRECT \<longrightarrow> action = XDP_PASS)"
proof -
  have p: "22 \<le> pkt_len" "pkt_len \<le> length packet" using ready(3) by (auto simp: l2_packet_def)
  define h where "h = hi8 (g_fake_ethertype_ipv4 st)"
  define len where "len = pkt_len + l2_overhead st"
  obtain wire st1 rest where enc: "crypto_layer2_encrypt E ctx packet pkt_len st = Some (int len, wire, st1)"
      "wire = take 12 packet @ [h, g_policy_id st] @ rest"
    using l2_encrypt_wire [OF ready(1-3) fake(1) ready(4)] by (auto simp: Let_def len_def h_def)
  have "hi8 (be16 h l) = h" for l by simp
  then have other: "be16 h (g_policy_id st) \<notin> {0x0806, 0x0800, 0x86DD}"
    using fake(2) unfolding h_def [symmetric]
    by (auto simp: hi8_def dest!: arg_cong [of "be16 h (g_policy_id st)" _ hi8])
  let ?W = "take len wire"
  have w: "?W ! 12 = h" "?W ! 13 = g_policy_id st"
    using p by (simp_all add: enc(2) len_def nth_append)
  have "wan_verdict (Some (g_fake_ethertype_ipv4 st)) True ?W =
      (if length ?W < 14 then XDP_PASS else if h = 0x88 then XDP_REDIRECT else XDP_PASS)"
    using other w fake(1) by (simp add: wan_verdict_def Let_def)
  moreover have "\<not> length ?W < 14" using p by (simp add: enc(2) len_def)
  ultimately show ?thesis
    using xdp_wan_redirect_total [of "Some (g_fake_ethertype_ipv4 st)" True stats ?W] enc(1)
    by (intro exI [of _ len] exI [of _ wire] exI [of _ st1]) (auto simp: h_def)
qed

theorem xdp_wan_takes_l2_witness:
  "\<exists>len wire st1 action stats'.
    crypto_layer2_encrypt sample_evp sample_ctx sample_packet 50 (sample_st\<lparr>g_fake_ethertype_ipv4 := 0x9100\<rparr>) =
      Some (int len, wire, st1) \<and>
    xdp_wan_redirect_prog (Some 0x9100) True (replicate 8 0) (take len wire) = Some (action, stats') \<and> action = XDP_PASS"
proof -
  let ?st = "sample_st\<lparr>g_fake_ethertype_ipv4 := 0x9100\<rparr>"
  have st: "crypto_ready sample_evp ?st" "l2_overhead ?st = 28"
    by (simp_all add: crypto_ready_def sample_st_def crypto_state_init_def l2_overhead_def tag_size_def is_gcm_mode_def)
  have "l2_packet sample_packet 50" by (simp add: l2_packet_def)
  then show ?thesis
    using xdp_wan_takes_l2 [of sample_evp ?st sample_ctx sample_packet 50 "replicate 8 0"] st
    by (auto simp: hi8_def)
qed

end
