(* ===== verification/Xsk.thy ===== *)
theory Xsk
  imports Interfaces Config "HOL-Library.Multiset"
begin

text \<open>
  The data path of an interface: the AF_XDP rings of \<^verbatim>\<open>src/include/xdp/xsk.h\<close> and the queue
  operations of \<^verbatim>\<open>src/core/interface.c\<close> that the packet threads call.

  Ring indices are 32-bit words that run freely and wrap; a ring's size is a power of two.  The
  program shares the two index words of a ring with the kernel and keeps a copy of each.  The
  kernel is not part of the program: what it may do to the shared state between two of the
  program's accesses is the relation \<open>kernel_step\<close>.
\<close>

section \<open>Rings\<close>

text \<open>The two C structures \<^verbatim>\<open>xsk_ring_prod\<close> and \<^verbatim>\<open>xsk_ring_cons\<close> have the same fields.\<close>

record 'a xsk_ring =
  xr_cached_prod :: u32
  xr_cached_cons :: u32
  xr_mask :: u32
  xr_size :: u32
  xr_producer :: u32
  xr_consumer :: u32
  xr_ring :: "'a list"

definition xsk_prod_nb_free :: "u32 \<Rightarrow> 'a xsk_ring \<Rightarrow> u32 \<times> 'a xsk_ring" where
  "xsk_prod_nb_free nb r =
     (let free_entries = xr_cached_cons r - xr_cached_prod r
      in if nb \<le> free_entries then (free_entries, r)
         else let r = r\<lparr>xr_cached_cons := xr_consumer r + xr_size r\<rparr>
              in (xr_cached_cons r - xr_cached_prod r, r))"

definition xsk_cons_nb_avail :: "u32 \<Rightarrow> 'a xsk_ring \<Rightarrow> u32 \<times> 'a xsk_ring" where
  "xsk_cons_nb_avail nb r =
     (let entries = xr_cached_prod r - xr_cached_cons r;
          (entries, r) = (if entries = 0
             then let r = r\<lparr>xr_cached_prod := xr_producer r\<rparr> in (xr_cached_prod r - xr_cached_cons r, r)
             else (entries, r))
      in (if nb < entries then nb else entries, r))"

text \<open>The index of the first reserved entry, \<^term>\<open>None\<close> for the return value 0.\<close>

definition xsk_ring_prod_reserve :: "u32 \<Rightarrow> 'a xsk_ring \<Rightarrow> u32 option \<times> 'a xsk_ring" where
  "xsk_ring_prod_reserve nb r =
     (let (free_entries, r) = xsk_prod_nb_free nb r
      in if free_entries < nb then (None, r)
         else (Some (xr_cached_prod r), r\<lparr>xr_cached_prod := xr_cached_prod r + nb\<rparr>))"

definition xsk_ring_prod_submit :: "u32 \<Rightarrow> 'a xsk_ring \<Rightarrow> 'a xsk_ring" where
  "xsk_ring_prod_submit nb r = r\<lparr>xr_producer := xr_producer r + nb\<rparr>"

text \<open>The number of entries and the index of the first.\<close>

definition xsk_ring_cons_peek :: "u32 \<Rightarrow> 'a xsk_ring \<Rightarrow> (u32 \<times> u32) \<times> 'a xsk_ring" where
  "xsk_ring_cons_peek nb r =
     (let (entries, r) = xsk_cons_nb_avail nb r
      in if 0 < entries then ((entries, xr_cached_cons r), r\<lparr>xr_cached_cons := xr_cached_cons r + entries\<rparr>)
         else ((entries, 0), r))"

definition xsk_ring_cons_release :: "u32 \<Rightarrow> 'a xsk_ring \<Rightarrow> 'a xsk_ring" where
  "xsk_ring_cons_release nb r = r\<lparr>xr_consumer := xr_consumer r + nb\<rparr>"

text \<open>\<^verbatim>\<open>xsk_ring_prod__tx_desc\<close>, \<^verbatim>\<open>xsk_ring_prod__fill_addr\<close> and \<^verbatim>\<open>xsk_ring_cons__rx_desc\<close>: the entry
  at an index, written or read.\<close>

definition ring_store :: "u32 \<Rightarrow> 'a \<Rightarrow> 'a xsk_ring \<Rightarrow> 'a xsk_ring option" where
  "ring_store idx v r =
     (let i = unat (idx AND xr_mask r)
      in if i < length (xr_ring r) then Some (r\<lparr>xr_ring := (xr_ring r)[i := v]\<rparr>) else None)"

definition ring_load :: "u32 \<Rightarrow> 'a xsk_ring \<Rightarrow> 'a option" where
  "ring_load idx r = at (xr_ring r) (unat (idx AND xr_mask r))"

section \<open>What a ring holds\<close>

definition ring_used :: "'a xsk_ring \<Rightarrow> nat" where
  "ring_used r = unat (xr_producer r - xr_consumer r)"

definition ring_pos :: "'a xsk_ring \<Rightarrow> u32 \<Rightarrow> nat" where
  "ring_pos r idx = unat (idx AND xr_mask r)"

definition ring_items :: "'a xsk_ring \<Rightarrow> 'a list" where
  "ring_items r = map (\<lambda>k. xr_ring r ! ring_pos r (xr_consumer r + of_nat k)) [0..<ring_used r]"

definition ring_wf :: "'a xsk_ring \<Rightarrow> bool" where
  "ring_wf r \<longleftrightarrow> (\<exists>m\<le>30. xr_size r = 2 ^ m) \<and> xr_mask r = xr_size r - 1 \<and>
     length (xr_ring r) = unat (xr_size r) \<and> ring_used r \<le> unat (xr_size r)"

text \<open>Between two calls of the program the copies may lag behind the shared indices, never lead.\<close>

definition prod_ok :: "'a xsk_ring \<Rightarrow> bool" where
  "prod_ok r \<longleftrightarrow> ring_wf r \<and> xr_cached_prod r = xr_producer r \<and>
     ring_used r \<le> unat (xr_producer r - (xr_cached_cons r - xr_size r)) \<and>
     unat (xr_producer r - (xr_cached_cons r - xr_size r)) \<le> unat (xr_size r)"

definition cons_ok :: "'a xsk_ring \<Rightarrow> bool" where
  "cons_ok r \<longleftrightarrow> ring_wf r \<and> xr_cached_cons r = xr_consumer r \<and>
     unat (xr_cached_prod r - xr_consumer r) \<le> ring_used r"

lemma length_ring_items [simp]: "length (ring_items r) = ring_used r"
  by (simp add: ring_items_def)

lemma and_low_mask: "unat (x AND (2 ^ m - 1)) = unat x mod 2 ^ m" for x :: u32
proof -
  have "x AND (2 ^ m - 1) = take_bit m x" by (simp add: take_bit_eq_mask mask_eq_exp_minus_1)
  moreover have "unat (take_bit m x) = take_bit m (unat x)" by (rule unsigned_take_bit_eq)
  ultimately show ?thesis by (metis take_bit_eq_mod)
qed

lemma unat_exp32: "m \<le> 31 \<Longrightarrow> unat (2 ^ m :: u32) = 2 ^ m"
proof -
  assume "m \<le> 31"
  then have "(2::nat) ^ m < 2 ^ 32" by (intro power_strict_increasing) auto
  then have "unat (of_nat (2 ^ m) :: u32) = 2 ^ m" by (subst unat_of_nat) (simp del: of_nat_power)
  then show ?thesis by simp
qed

lemma ring_size_exp:
  assumes "ring_wf r"
  obtains m where "m \<le> 30" "xr_size r = 2 ^ m" "unat (xr_size r) = 2 ^ m" "xr_mask r = 2 ^ m - 1"
    "length (xr_ring r) = 2 ^ m" "(2 ^ m :: nat) dvd 2 ^ 32"
proof -
  obtain m where "m \<le> 30" "xr_size r = 2 ^ m" using assms by (auto simp: ring_wf_def)
  moreover have "(2 ^ m :: nat) dvd 2 ^ 32" using \<open>m \<le> 30\<close> by (intro le_imp_power_dvd) simp
  ultimately show ?thesis using that [of m] assms unat_exp32 [of m] by (simp add: ring_wf_def)
qed

lemma ring_size_bounds: "ring_wf r \<Longrightarrow> unat (xr_size r) \<le> 2 ^ 30 \<and> 0 < unat (xr_size r)"
proof (erule ring_size_exp)
  fix m assume "m \<le> 30" "unat (xr_size r) = 2 ^ m"
  moreover from this have "(2::nat) ^ m \<le> 2 ^ 30" by (intro power_increasing) auto
  ultimately show ?thesis by simp
qed

lemma ring_pos_mod: "ring_wf r \<Longrightarrow> ring_pos r idx = unat idx mod unat (xr_size r)"
  by (erule ring_size_exp) (simp add: ring_pos_def and_low_mask)

lemma ring_pos_less: "ring_wf r \<Longrightarrow> ring_pos r idx < length (xr_ring r)"
  by (frule ring_pos_mod [of _ idx], erule ring_size_exp) simp

text \<open>Positions move with the index, also over the end of the 32-bit range.\<close>

lemma ring_pos_add:
  assumes "ring_wf r"
  shows "ring_pos r (c + of_nat k) = (unat c + k) mod unat (xr_size r)"
proof -
  obtain m where m: "m \<le> 30" "unat (xr_size r) = 2 ^ m" "(2 ^ m :: nat) dvd 2 ^ 32" using ring_size_exp [OF assms] .
  have "unat (c + of_nat k) = (unat c + k) mod 2 ^ 32" by (simp add: unat_word_ariths unat_of_nat mod_simps)
  then show ?thesis using ring_pos_mod [OF assms] m by (simp add: mod_mod_cancel)
qed

lemma mod_add_inj:
  assumes "(a + i) mod n = (a + j) mod n" "i < n" "j < n"
  shows "i = (j :: nat)"
proof -
  have le: "j = i" if "(a + i) mod n = (a + j) mod n" "i \<le> j" "j < n" for i j
  proof -
    have "n dvd (a + j) - (a + i)" using that mod_eq_dvd_iff_nat [of "a + i" "a + j" n] by (metis add_le_cancel_left)
    then show ?thesis using that by (auto dest: dvd_imp_le)
  qed
  then show ?thesis using assms by (metis nat_le_linear)
qed

lemma ring_pos_inj:
  assumes "ring_wf r" "i < unat (xr_size r)" "j < unat (xr_size r)"
  shows "ring_pos r (c + of_nat i) = ring_pos r (c + of_nat j) \<longleftrightarrow> i = j"
proof -
  have "i = j" if "(unat c + i) mod n = (unat c + j) mod n" "i < n" "j < n" for n
    using that by (rule mod_add_inj)
  then show ?thesis using assms by (auto simp: ring_pos_add)
qed

text \<open>Entries and index words change separately.\<close>

lemma ring_used_simps [simp]:
  "ring_used (r\<lparr>xr_cached_cons := c\<rparr>) = ring_used r" "ring_used (r\<lparr>xr_cached_prod := p\<rparr>) = ring_used r"
  "ring_used (r\<lparr>xr_ring := es\<rparr>) = ring_used r"
  by (simp_all add: ring_used_def)

lemma ring_items_cong:
  assumes "xr_ring r' = xr_ring r" "xr_consumer r' = xr_consumer r" "xr_producer r' = xr_producer r"
    "xr_mask r' = xr_mask r"
  shows "ring_items r' = ring_items r"
  using assms by (simp add: ring_items_def ring_used_def ring_pos_def)

lemma unat_suc_diff: "unat (p - c) < 2 ^ 32 - 1 \<Longrightarrow> unat (p + 1 - c) = Suc (unat (p - c))" for p c :: u32
proof -
  assume *: "unat (p - c) < 2 ^ 32 - 1"
  have "unat (x + 1) = Suc (unat x)" if "unat x < 2 ^ 32 - 1" for x :: u32
    using that by (simp add: unat_word_ariths)
  from this [OF *] show ?thesis by (simp add: algebra_simps)
qed

text \<open>Writing the entry behind the last one and moving the producer index appends.\<close>

lemma ring_append:
  assumes wf: "ring_wf r" and room: "ring_used r < unat (xr_size r)"
    and r': "xr_ring r' = (xr_ring r)[ring_pos r (xr_producer r) := x]" "xr_producer r' = xr_producer r + 1"
      "xr_consumer r' = xr_consumer r" "xr_size r' = xr_size r" "xr_mask r' = xr_mask r"
  shows "ring_wf r'" "ring_items r' = ring_items r @ [x]" "ring_used r' = Suc (ring_used r)"
proof -
  obtain m where m: "m \<le> 30" "unat (xr_size r) = 2 ^ m" "length (xr_ring r) = 2 ^ m" using ring_size_exp [OF wf] .
  have "(2::nat) ^ m \<le> 2 ^ 30" using m(1) by (intro power_increasing) auto
  then have small: "ring_used r < 2 ^ 32 - 1" using room m(2) by simp
  then show used: "ring_used r' = Suc (ring_used r)" using unat_suc_diff r' by (simp add: ring_used_def)
  show "ring_wf r'" using wf used room r' by (auto simp: ring_wf_def)
  have pos: "ring_pos r' = ring_pos r" using r' by (simp add: ring_pos_def fun_eq_iff)
  have p: "xr_producer r = xr_consumer r + of_nat (ring_used r)" by (simp add: ring_used_def)
  have "ring_pos r (xr_producer r) \<noteq> ring_pos r (xr_consumer r + of_nat k)" if "k < ring_used r" for k
    using ring_pos_inj [OF wf, of k "ring_used r" "xr_consumer r"] that room unfolding p [symmetric] by auto
  then have "map (\<lambda>k. xr_ring r' ! ring_pos r' (xr_consumer r' + of_nat k)) [0..<ring_used r] = ring_items r"
    using r' pos by (auto simp: ring_items_def)
  moreover have "xr_ring r' ! ring_pos r' (xr_consumer r' + of_nat (ring_used r)) = x"
    using r' pos p ring_pos_less [OF wf] by simp
  ultimately show "ring_items r' = ring_items r @ [x]" by (simp add: ring_items_def [of r'] used)
qed

text \<open>Moving the consumer index drops from the front.\<close>

lemma ring_drop:
  assumes wf: "ring_wf r" and k: "k \<le> ring_used r"
    and r': "xr_ring r' = xr_ring r" "xr_producer r' = xr_producer r"
      "xr_consumer r' = xr_consumer r + of_nat k" "xr_size r' = xr_size r" "xr_mask r' = xr_mask r"
  shows "ring_wf r'" "ring_items r' = drop k (ring_items r)" "ring_used r' = ring_used r - k"
proof -
  have small: "ring_used r < 2 ^ 32" using unsigned_less [of "xr_producer r - xr_consumer r"] by (simp add: ring_used_def)
  have kk: "unat (of_nat k :: u32) = k" using k small by (simp add: unat_of_nat take_bit_nat_eq_self)
  have "of_nat k \<le> xr_producer r - xr_consumer r" using k kk by (simp add: word_le_nat_alt ring_used_def)
  then have "unat ((xr_producer r - xr_consumer r) - of_nat k) = ring_used r - k"
    by (simp add: unat_sub kk ring_used_def)
  then show used: "ring_used r' = ring_used r - k" using r' by (simp add: ring_used_def diff_diff_eq)
  show "ring_wf r'" using wf used r' by (auto simp: ring_wf_def)
  have pos: "ring_pos r' = ring_pos r" using r' by (simp add: ring_pos_def fun_eq_iff)
  show "ring_items r' = drop k (ring_items r)"
    by (rule nth_equalityI) (use k in \<open>auto simp: ring_items_def used pos r' ac_simps\<close>)
qed

section \<open>One call on a ring\<close>

lemma reserve_one:
  assumes ok: "prod_ok r"
  obtains r1 where "xsk_ring_prod_reserve 1 r = (if ring_used r < unat (xr_size r) then Some (xr_producer r) else None, r1)"
    "\<not> ring_used r < unat (xr_size r) \<Longrightarrow> prod_ok r1 \<and> ring_items r1 = ring_items r \<and> xr_size r1 = xr_size r"
    "\<And>x. ring_used r < unat (xr_size r) \<Longrightarrow> \<exists>r2. ring_store (xr_producer r) x r1 = Some r2 \<and>
       prod_ok (xsk_ring_prod_submit 1 r2) \<and> ring_items (xsk_ring_prod_submit 1 r2) = ring_items r @ [x] \<and>
       xr_size (xsk_ring_prod_submit 1 r2) = xr_size r"
proof -
  define d where "d = xr_producer r - (xr_cached_cons r - xr_size r)"
  have wf: "ring_wf r" and cp: "xr_cached_prod r = xr_producer r" and used: "ring_used r \<le> unat d" "unat d \<le> unat (xr_size r)"
    using ok by (auto simp: prod_ok_def d_def)
  have sz: "ring_used r \<le> unat (xr_size r)" "unat (xr_size r) \<le> 2 ^ 30" "0 < unat (xr_size r)"
    using wf ring_size_bounds [OF wf] by (simp_all add: ring_wf_def)
  have free: "xr_cached_cons r - xr_cached_prod r = xr_size r - d" by (simp add: cp d_def)
  have one: "1 \<le> xr_size r - e \<longleftrightarrow> unat e < unat (xr_size r)" "xr_size r - e < 1 \<longleftrightarrow> \<not> unat e < unat (xr_size r)"
    if "unat e \<le> unat (xr_size r)" for e
  proof -
    have "unat (xr_size r - e) = unat (xr_size r) - unat e" using that by (simp add: unat_sub word_le_nat_alt)
    then show "1 \<le> xr_size r - e \<longleftrightarrow> unat e < unat (xr_size r)" "xr_size r - e < 1 \<longleftrightarrow> \<not> unat e < unat (xr_size r)"
      by (auto simp: word_le_nat_alt word_less_nat_alt)
  qed
  define cc where "cc = (if unat d < unat (xr_size r) then xr_cached_cons r else xr_consumer r + xr_size r)"
  define e where "e = xr_producer r - (cc - xr_size r)"
  have e: "ring_used r \<le> unat e" "unat e \<le> unat (xr_size r)" "unat e < unat (xr_size r) \<longleftrightarrow> ring_used r < unat (xr_size r)"
    using used sz by (auto simp: e_def cc_def d_def ring_used_def)
  define r0 where "r0 = r\<lparr>xr_cached_cons := cc\<rparr>"
  have f: "xsk_prod_nb_free 1 r = (xr_size r - e, r0)"
  proof (cases "unat d < unat (xr_size r)")
    case True
    then show ?thesis using one [OF used(2)] by (simp add: xsk_prod_nb_free_def free r0_def e_def cc_def d_def)
  next
    case False
    then have "\<not> 1 \<le> xr_cached_cons r - xr_producer r" using one [OF used(2)] free by (simp add: cp)
    then show ?thesis using False
      by (simp add: xsk_prod_nb_free_def Let_def r0_def e_def cc_def cp algebra_simps)
  qed
  show ?thesis
  proof (rule that)
    show "xsk_ring_prod_reserve 1 r = (if ring_used r < unat (xr_size r) then Some (xr_producer r) else None,
        if ring_used r < unat (xr_size r) then r0\<lparr>xr_cached_prod := xr_producer r + 1\<rparr> else r0)"
      using one [OF e(2)] e(3) by (simp add: xsk_ring_prod_reserve_def f r0_def cp)
  next
    assume "\<not> ring_used r < unat (xr_size r)"
    moreover have "prod_ok r0" using wf cp e by (auto simp: prod_ok_def r0_def ring_wf_def e_def)
    moreover have "ring_items r0 = ring_items r" by (rule ring_items_cong) (simp_all add: r0_def)
    ultimately show "prod_ok (if ring_used r < unat (xr_size r) then r0\<lparr>xr_cached_prod := xr_producer r + 1\<rparr> else r0) \<and>
        ring_items (if ring_used r < unat (xr_size r) then r0\<lparr>xr_cached_prod := xr_producer r + 1\<rparr> else r0) = ring_items r \<and>
        xr_size (if ring_used r < unat (xr_size r) then r0\<lparr>xr_cached_prod := xr_producer r + 1\<rparr> else r0) = xr_size r"
      by (simp add: r0_def)
  next
    fix x assume room: "ring_used r < unat (xr_size r)"
    let ?r2 = "r0\<lparr>xr_cached_prod := xr_producer r + 1, xr_ring := (xr_ring r)[ring_pos r (xr_producer r) := x]\<rparr>"
    let ?r = "xsk_ring_prod_submit 1 ?r2"
    have "ring_store (xr_producer r) x (r0\<lparr>xr_cached_prod := xr_producer r + 1\<rparr>) = Some ?r2"
      using ring_pos_less [OF wf, of "xr_producer r"] by (simp add: ring_store_def Let_def r0_def ring_pos_def)
    moreover have app: "ring_wf ?r" "ring_items ?r = ring_items r @ [x]" "ring_used ?r = Suc (ring_used r)"
      by (rule ring_append [OF wf room]; simp add: xsk_ring_prod_submit_def r0_def)+
    moreover have "unat (xr_producer r + 1 - (cc - xr_size r)) = Suc (unat e)"
      unfolding e_def using e room sz(2) by (intro unat_suc_diff) (simp add: e_def)
    then have "prod_ok ?r" using app e room cp
      by (simp add: prod_ok_def xsk_ring_prod_submit_def r0_def)
    ultimately show "\<exists>r2. ring_store (xr_producer r) x (if ring_used r < unat (xr_size r)
          then r0\<lparr>xr_cached_prod := xr_producer r + 1\<rparr> else r0) = Some r2 \<and>
        prod_ok (xsk_ring_prod_submit 1 r2) \<and> ring_items (xsk_ring_prod_submit 1 r2) = ring_items r @ [x] \<and>
        xr_size (xsk_ring_prod_submit 1 r2) = xr_size r"
      using room by (simp add: xsk_ring_prod_submit_def r0_def)
  qed
qed

lemma peek_spec:
  assumes ok: "cons_ok r"
  obtains n r1 where "xsk_ring_cons_peek nb r = ((n, if 0 < n then xr_consumer r else 0), r1)"
    "unat n \<le> unat nb" "unat n \<le> ring_used r" "nb \<noteq> 0 \<and> ring_used r \<noteq> 0 \<longrightarrow> n \<noteq> 0"
    "xr_ring r1 = xr_ring r" "xr_mask r1 = xr_mask r" "xr_size r1 = xr_size r"
    "cons_ok (xsk_ring_cons_release n r1)" "ring_items (xsk_ring_cons_release n r1) = drop (unat n) (ring_items r)"
proof -
  have wf: "ring_wf r" and cc: "xr_cached_cons r = xr_consumer r" and lag: "unat (xr_cached_prod r - xr_consumer r) \<le> ring_used r"
    using ok by (auto simp: cons_ok_def)
  define cp where "cp = (if xr_cached_prod r - xr_consumer r = 0 then xr_producer r else xr_cached_prod r)"
  define e where "e = cp - xr_consumer r"
  define n where "n = (if nb < e then nb else e)"
  have e: "unat e \<le> ring_used r" "ring_used r \<noteq> 0 \<longrightarrow> e \<noteq> 0" using lag by (auto simp: e_def cp_def ring_used_def)
  have n: "unat n \<le> unat nb" "unat n \<le> unat e"
    by (auto simp: n_def word_less_nat_alt)
  define r1 where "r1 = r\<lparr>xr_cached_prod := cp, xr_cached_cons := xr_consumer r + n\<rparr>"
  have avail: "xsk_cons_nb_avail nb r = (n, r\<lparr>xr_cached_prod := cp\<rparr>)"
    by (simp add: xsk_cons_nb_avail_def Let_def cc n_def e_def cp_def)
  let ?r = "xsk_ring_cons_release n r1"
  have drop: "ring_wf ?r" "ring_items ?r = drop (unat n) (ring_items r)" "ring_used ?r = ring_used r - unat n"
    by (rule ring_drop [OF wf, of "unat n"]; use n e in \<open>simp add: xsk_ring_cons_release_def r1_def\<close>)+
  have "unat (cp - (xr_consumer r + n)) = unat e - unat n"
    using n(2) by (simp add: e_def diff_diff_eq [symmetric] unat_sub word_le_nat_alt)
  then have "cons_ok ?r"
    using drop e by (simp add: cons_ok_def xsk_ring_cons_release_def r1_def)
  then show ?thesis
    using that [of n r1] drop(2) n e
    by (auto simp: xsk_ring_cons_peek_def avail cc r1_def n_def word_gt_0)
qed

section \<open>Queues\<close>

text \<open>
  \<open>xq_bufs\<close> is the memory shared with the kernel.  \<open>xq_nic\<close> is no field of the C structure: it
  records the packets the kernel has read from the transmit ring.  The deprecated single-queue
  fields of \<^verbatim>\<open>struct xsk_interface\<close> have no counterpart; the number of queues is the length of
  the list.
\<close>

type_synonym desc = "u64 \<times> u32"

record xsk_queue =
  xq_bufs :: buf
  xq_fill :: "u64 xsk_ring"
  xq_comp :: "u64 xsk_ring"
  xq_tx :: "desc xsk_ring"
  xq_rx :: "desc xsk_ring"
  xq_tx_slot :: u64
  xq_pending_tx_count :: int
  xq_tx_wait_loops :: u64
  xq_nic :: "buf list"

record xsk_interface =
  xi_umem_size :: nat
  xi_ring_size :: u32
  xi_frame_size :: u32
  xi_batch_size :: u32
  xi_queues :: "xsk_queue list"
  xi_src_mac :: buf
  xi_dst_mac :: buf
  xi_rx_packets :: u64
  xi_tx_packets :: u64
  xi_tx_bytes :: u64

text \<open>
  What happens to a queue while the program waits is the first function of a list, the identity
  once the list is used up.
\<close>

definition kernel_turn :: "(xsk_queue \<Rightarrow> xsk_queue) list \<Rightarrow> xsk_queue \<Rightarrow> xsk_queue" where
  "kernel_turn ks q = (case ks of [] \<Rightarrow> q | K # _ \<Rightarrow> K q)"

definition drain_comp :: "u32 \<Rightarrow> xsk_queue \<Rightarrow> xsk_queue" where
  "drain_comp limit q =
     (let ((completed, _), comp) = xsk_ring_cons_peek limit (xq_comp q)
      in q\<lparr>xq_comp := if 0 < sint completed then xsk_ring_cons_release completed comp else comp\<rparr>)"

definition tx_reserve :: "xsk_queue \<Rightarrow> u32 option \<times> xsk_queue" where
  "tx_reserve q = (let (idx, tx) = xsk_ring_prod_reserve 1 (xq_tx q) in (idx, q\<lparr>xq_tx := tx\<rparr>))"

text \<open>The loop of eight further attempts.\<close>

fun tx_retry :: "nat \<Rightarrow> (xsk_queue \<Rightarrow> xsk_queue) list \<Rightarrow> u32 \<Rightarrow> xsk_queue \<Rightarrow> u32 option \<times> xsk_queue" where
  "tx_retry 0 ks limit q = (None, q)"
| "tx_retry (Suc n) ks limit q =
     (case tx_reserve (kernel_turn ks q) of
        (Some idx, q) \<Rightarrow> (Some idx, q)
      | (None, q) \<Rightarrow> tx_retry n (tl ks) limit (drain_comp limit q))"

text \<open>Copying the packet into the next transmit frame and submitting its descriptor; a zero
  divisor and an access outside of the memory are undefined.\<close>

definition tx_frame_addr :: "xsk_interface \<Rightarrow> u64 \<Rightarrow> u64 option" where
  "tx_frame_addr iface slot =
     (if xi_frame_size iface = 0 then None
      else let frame_count = of_nat (xi_umem_size iface div unat (xi_frame_size iface)) :: u32;
               half = ucast (frame_count div 2) :: u64
        in if half = 0 then None else Some ((slot mod half + half) * ucast (xi_frame_size iface)))"

definition tx_put :: "xsk_interface \<Rightarrow> u32 \<Rightarrow> buf \<Rightarrow> xsk_queue \<Rightarrow> xsk_queue option" where
  "tx_put iface idx pkt q = do {
     addr \<leftarrow> tx_frame_addr iface (xq_tx_slot q);
     bufs \<leftarrow> wrn (xq_bufs q) (unat addr) pkt;
     tx \<leftarrow> ring_store idx (addr, of_nat (length pkt)) (xq_tx q);
     Some (q\<lparr>xq_bufs := bufs, xq_tx_slot := xq_tx_slot q + 1, xq_tx := xsk_ring_prod_submit 1 tx\<rparr>)
   }"

definition tx_count_pending :: "int \<Rightarrow> xsk_queue \<Rightarrow> xsk_queue" where
  "tx_count_pending limit q =
     (let n = xq_pending_tx_count q + 1 in q\<lparr>xq_pending_tx_count := if limit \<le> n then 0 else n\<rparr>)"

text \<open>The queue part of \<^verbatim>\<open>interface_send_batch_queue\<close>.\<close>

definition send_batch_on_queue ::
    "(xsk_queue \<Rightarrow> xsk_queue) list \<Rightarrow> xsk_interface \<Rightarrow> buf \<Rightarrow> xsk_queue \<Rightarrow> (int \<times> xsk_queue) option" where
  "send_batch_on_queue ks iface pkt q =
     (let q = drain_comp (xi_ring_size iface) (kernel_turn ks q);
          (idx, q) = (case tx_reserve q of
             (Some idx, q) \<Rightarrow> (Some idx, q)
           | (None, q) \<Rightarrow>
               let q = q\<lparr>xq_pending_tx_count := if 0 < xq_pending_tx_count q then 0 else xq_pending_tx_count q\<rparr>
               in tx_retry 8 (tl ks) (xi_ring_size iface) (drain_comp (xi_ring_size iface) q))
      in case idx of
        None \<Rightarrow> Some (-1, q)
      | Some idx \<Rightarrow> do { q \<leftarrow> tx_put iface idx pkt q; Some (0, tx_count_pending 16 q) })"

text \<open>The loop of \<^verbatim>\<open>interface_send_to_local_batch_queue\<close> with \<open>n\<close> attempts left after this one.\<close>

fun local_tx_claim ::
    "nat \<Rightarrow> (xsk_queue \<Rightarrow> xsk_queue) list \<Rightarrow> u32 \<Rightarrow> xsk_queue \<Rightarrow> u32 option \<times> xsk_queue" where
  "local_tx_claim n ks limit q =
     (case tx_reserve (drain_comp limit (kernel_turn ks q)) of
        (Some idx, q) \<Rightarrow> (Some idx, q)
      | (None, q) \<Rightarrow>
          let q = q\<lparr>xq_tx_wait_loops := xq_tx_wait_loops q + 1\<rparr>
          in case n of 0 \<Rightarrow> (None, q)
             | Suc n \<Rightarrow> local_tx_claim n (tl ks) limit (q\<lparr>xq_pending_tx_count := 0\<rparr>))"

declare local_tx_claim.simps [simp del]

abbreviation (input) LOCAL_TX_MAX_WAIT_LOOPS :: nat where "LOCAL_TX_MAX_WAIT_LOOPS \<equiv> 10000"

definition send_to_local_on_queue ::
    "(xsk_queue \<Rightarrow> xsk_queue) list \<Rightarrow> xsk_interface \<Rightarrow> buf \<Rightarrow> xsk_queue \<Rightarrow> (int \<times> xsk_queue) option" where
  "send_to_local_on_queue ks iface pkt q =
     (case local_tx_claim LOCAL_TX_MAX_WAIT_LOOPS ks (xi_ring_size iface) q of
        (None, q) \<Rightarrow> Some (-1, q)
      | (Some idx, q) \<Rightarrow> do { q \<leftarrow> tx_put iface idx pkt q; Some (0, tx_count_pending 4 q) })"

text \<open>The two functions themselves choose the queue and count.\<close>

definition send_on ::
    "(buf \<Rightarrow> xsk_queue \<Rightarrow> (int \<times> xsk_queue) option) \<Rightarrow> nat \<Rightarrow> buf \<Rightarrow> xsk_interface \<Rightarrow> (int \<times> xsk_interface) option" where
  "send_on send queue_idx pkt iface =
     (if queue_idx \<ge> length (xi_queues iface) then Some (-1, iface)
      else do {
        (ret, q) \<leftarrow> send pkt (xi_queues iface ! queue_idx);
        let iface = iface\<lparr>xi_queues := (xi_queues iface)[queue_idx := q]\<rparr>;
        Some (ret, if ret = 0 then iface\<lparr>xi_tx_packets := xi_tx_packets iface + 1,
                     xi_tx_bytes := xi_tx_bytes iface + of_nat (length pkt)\<rparr> else iface)
      })"

definition interface_send_batch_queue ::
    "(xsk_queue \<Rightarrow> xsk_queue) list \<Rightarrow> nat \<Rightarrow> buf \<Rightarrow> xsk_interface \<Rightarrow> (int \<times> xsk_interface) option" where
  "interface_send_batch_queue ks queue_idx pkt iface = send_on (send_batch_on_queue ks iface) queue_idx pkt iface"

definition interface_send_to_local_batch_queue ::
    "(xsk_queue \<Rightarrow> xsk_queue) list \<Rightarrow> nat \<Rightarrow> buf \<Rightarrow> xsk_interface \<Rightarrow> (int \<times> xsk_interface) option" where
  "interface_send_to_local_batch_queue ks queue_idx pkt iface =
     send_on (send_to_local_on_queue ks iface) queue_idx pkt iface"

text \<open>\<^verbatim>\<open>interface_send_flush_queue\<close> and \<^verbatim>\<open>interface_send_to_local_flush_queue\<close> have the same body.\<close>

definition interface_send_flush_queue :: "nat \<Rightarrow> xsk_interface \<Rightarrow> xsk_interface" where
  "interface_send_flush_queue queue_idx iface =
     (if queue_idx \<ge> length (xi_queues iface) then iface
      else let q = xi_queues iface ! queue_idx
        in if 0 < xq_pending_tx_count q
           then iface\<lparr>xi_queues := (xi_queues iface)[queue_idx := q\<lparr>xq_pending_tx_count := 0\<rparr>]\<rparr> else iface)"

section \<open>Receiving\<close>

definition rx_take :: "u32 \<Rightarrow> xsk_queue \<Rightarrow> (desc list \<times> xsk_queue) option" where
  "rx_take max_pkts q =
     (let ((rcvd, idx_rx), rx) = xsk_ring_cons_peek max_pkts (xq_rx q)
      in if rcvd = 0 then Some ([], q\<lparr>xq_rx := rx\<rparr>)
         else do {
           ds \<leftarrow> those (map (\<lambda>j. ring_load (idx_rx + of_nat j) rx) [0..<unat rcvd]);
           Some (ds, q\<lparr>xq_rx := xsk_ring_cons_release rcvd rx\<rparr>)
         })"

text \<open>The second attempt after a successful \<^verbatim>\<open>poll\<close>, which gives the kernel a turn.\<close>

definition recv_on_queue ::
    "bool \<Rightarrow> (xsk_queue \<Rightarrow> xsk_queue) list \<Rightarrow> u32 \<Rightarrow> xsk_queue \<Rightarrow> (desc list \<times> xsk_queue) option" where
  "recv_on_queue poll_ok ks max_pkts q = do {
     (ds, q) \<leftarrow> rx_take max_pkts q;
     if ds \<noteq> [] then Some (ds, q)
     else if \<not> poll_ok then Some ([], q)
     else rx_take max_pkts (kernel_turn ks q)
   }"

definition interface_recv_single_queue ::
    "bool \<Rightarrow> (xsk_queue \<Rightarrow> xsk_queue) list \<Rightarrow> nat \<Rightarrow> u32 \<Rightarrow> xsk_interface \<Rightarrow> (desc list \<times> xsk_interface) option" where
  "interface_recv_single_queue poll_ok ks queue_idx max_pkts iface =
     (if queue_idx \<ge> length (xi_queues iface) then Some ([], iface)
      else do {
        (ds, q) \<leftarrow> recv_on_queue poll_ok ks max_pkts (xi_queues iface ! queue_idx);
        Some (ds, iface\<lparr>xi_queues := (xi_queues iface)[queue_idx := q],
                        xi_rx_packets := xi_rx_packets iface + of_nat (length ds)\<rparr>)
      })"

text \<open>Giving one frame back; when the fill ring is full twice the frame is dropped.\<close>

definition release_one :: "u64 \<Rightarrow> xsk_queue \<Rightarrow> xsk_queue option" where
  "release_one addr q =
     (let (idx, fill) = xsk_ring_prod_reserve 1 (xq_fill q); q = q\<lparr>xq_fill := fill\<rparr>;
          (idx, q) = (case idx of
             Some i \<Rightarrow> (Some i, q)
           | None \<Rightarrow> let q = drain_comp 64 q; (idx, fill) = xsk_ring_prod_reserve 1 (xq_fill q)
               in (idx, q\<lparr>xq_fill := fill\<rparr>))
      in case idx of
        None \<Rightarrow> Some q
      | Some i \<Rightarrow> do {
          fill \<leftarrow> ring_store i addr (xq_fill q);
          Some (q\<lparr>xq_fill := xsk_ring_prod_submit 1 fill\<rparr>)
        })"

fun release_all :: "u64 list \<Rightarrow> xsk_queue \<Rightarrow> xsk_queue option" where
  "release_all [] q = Some q"
| "release_all (a # as) q = do { q \<leftarrow> release_one a q; release_all as q }"

definition interface_recv_release_single_queue :: "nat \<Rightarrow> u64 list \<Rightarrow> xsk_interface \<Rightarrow> xsk_interface option" where
  "interface_recv_release_single_queue queue_idx addrs iface =
     (if queue_idx \<ge> length (xi_queues iface) then Some iface
      else do {
        q \<leftarrow> release_all addrs (xi_queues iface ! queue_idx);
        Some (iface\<lparr>xi_queues := (xi_queues iface)[queue_idx := q]\<rparr>)
      })"

section \<open>The kernel\<close>

text \<open>
  Documented behaviour of AF_XDP: the kernel takes descriptors from the transmit ring in order,
  reads each packet and puts its address on the completion ring; it takes a frame address from
  the fill ring, writes a packet somewhere into that frame and puts its place on the receive
  ring.  It writes no ring that is full and nothing else.
\<close>

definition kernel_gives :: "'a \<Rightarrow> 'a xsk_ring \<Rightarrow> 'a xsk_ring \<Rightarrow> bool" where
  "kernel_gives x r r' \<longleftrightarrow> ring_used r < unat (xr_size r) \<and>
     r' = r\<lparr>xr_ring := (xr_ring r)[ring_pos r (xr_producer r) := x], xr_producer := xr_producer r + 1\<rparr>"

definition kernel_takes :: "'a \<Rightarrow> 'a xsk_ring \<Rightarrow> 'a xsk_ring \<Rightarrow> bool" where
  "kernel_takes x r r' \<longleftrightarrow> ring_used r \<noteq> 0 \<and> hd (ring_items r) = x \<and> r' = r\<lparr>xr_consumer := xr_consumer r + 1\<rparr>"

inductive kernel_step :: "nat \<Rightarrow> xsk_queue \<Rightarrow> xsk_queue \<Rightarrow> bool" for fs where
  Kernel_tx: "kernel_takes (addr, len) (xq_tx q) tx \<Longrightarrow> kernel_gives addr (xq_comp q) cr \<Longrightarrow>
     rdn (xq_bufs q) (unat addr) (unat len) = Some pkt \<Longrightarrow>
     kernel_step fs q (q\<lparr>xq_tx := tx, xq_comp := cr, xq_nic := xq_nic q @ [pkt]\<rparr>)"
| Kernel_rx: "kernel_takes addr (xq_fill q) fill \<Longrightarrow> off < fs \<Longrightarrow> off + length pkt \<le> fs \<Longrightarrow>
     pos = unat addr div fs * fs + off \<Longrightarrow> pos < 2 ^ 64 \<Longrightarrow> fs < 2 ^ 32 \<Longrightarrow>
     kernel_gives (of_nat pos, of_nat (length pkt)) (xq_rx q) rx \<Longrightarrow>
     wrn (xq_bufs q) pos pkt = Some bufs \<Longrightarrow>
     kernel_step fs q (q\<lparr>xq_fill := fill, xq_rx := rx, xq_bufs := bufs\<rparr>)"

definition kernel_ok :: "nat \<Rightarrow> (xsk_queue \<Rightarrow> xsk_queue) \<Rightarrow> bool" where
  "kernel_ok fs K \<longleftrightarrow> (\<forall>q. (kernel_step fs)\<^sup>*\<^sup>* q (K q))"

section \<open>The invariant of a queue\<close>

text \<open>The lower half of the frames is for receiving, the upper half for sending; a ring fits
  into a half.\<close>

definition half_frames :: "xsk_interface \<Rightarrow> nat" where
  "half_frames iface = xi_umem_size iface div unat (xi_frame_size iface) div 2"

definition iface_geometry :: "xsk_interface \<Rightarrow> bool" where
  "iface_geometry iface \<longleftrightarrow> 0 < xi_frame_size iface \<and>
     unat (xi_ring_size iface) \<le> half_frames iface \<and> 0 < half_frames iface \<and>
     xi_umem_size iface div unat (xi_frame_size iface) < 2 ^ 32 \<and> half_frames iface dvd 2 ^ 64"

definition tx_frame :: "xsk_interface \<Rightarrow> u64 \<Rightarrow> nat" where
  "tx_frame iface slot = unat slot mod half_frames iface + half_frames iface"

definition frame_no :: "xsk_interface \<Rightarrow> u64 \<Rightarrow> nat" where
  "frame_no iface addr = unat addr div unat (xi_frame_size iface)"

definition tx_pending_ok :: "xsk_interface \<Rightarrow> xsk_queue \<Rightarrow> bool" where
  "tx_pending_ok iface q \<longleftrightarrow> (\<forall>k < ring_used (xq_tx q).
     unat (fst (ring_items (xq_tx q) ! k)) =
       tx_frame iface (xq_tx_slot q - of_nat (ring_used (xq_tx q)) + of_nat k) * unat (xi_frame_size iface) \<and>
     unat (snd (ring_items (xq_tx q) ! k)) \<le> unat (xi_frame_size iface))"

text \<open>The frames on their way in: offered to the kernel, filled, or held by the program.\<close>

definition rx_frames :: "xsk_interface \<Rightarrow> xsk_queue \<Rightarrow> nat list" where
  "rx_frames iface q = map (frame_no iface) (ring_items (xq_fill q) @ map fst (ring_items (xq_rx q)))"

definition queue_rings_ok :: "xsk_interface \<Rightarrow> xsk_queue \<Rightarrow> bool" where
  "queue_rings_ok iface q \<longleftrightarrow> prod_ok (xq_tx q) \<and> prod_ok (xq_fill q) \<and> cons_ok (xq_comp q) \<and> cons_ok (xq_rx q) \<and>
     xr_size (xq_tx q) = xi_ring_size iface \<and> xr_size (xq_fill q) = xi_ring_size iface \<and>
     xr_size (xq_rx q) = xi_ring_size iface \<and> length (xq_bufs q) = xi_umem_size iface"

definition queue_inv :: "xsk_interface \<Rightarrow> nat multiset \<Rightarrow> xsk_queue \<Rightarrow> bool" where
  "queue_inv iface M q \<longleftrightarrow> queue_rings_ok iface q \<and> tx_pending_ok iface q \<and>
     mset (rx_frames iface q) = M \<and> (\<forall>f \<in># M. f < half_frames iface)"

definition desc_bytes :: "buf \<Rightarrow> desc \<Rightarrow> buf" where
  "desc_bytes bufs d = take (unat (snd d)) (drop (unat (fst d)) bufs)"

text \<open>The packets handed over so far: those the kernel has read and those that wait.\<close>

definition queue_sent :: "xsk_queue \<Rightarrow> buf list" where
  "queue_sent q = xq_nic q @ map (desc_bytes (xq_bufs q)) (ring_items (xq_tx q))"

lemma tx_frame_addr_geometry:
  assumes "iface_geometry iface"
  obtains addr where "tx_frame_addr iface slot = Some addr"
    "unat addr = tx_frame iface slot * unat (xi_frame_size iface)"
proof -
  define fs where "fs = unat (xi_frame_size iface)"
  define h where "h = half_frames iface"
  have g: "0 < fs" "0 < h" "xi_umem_size iface div fs < 2 ^ 32"
    using assms by (auto simp: iface_geometry_def fs_def h_def word_less_nat_alt)
  have fs: "fs < 2 ^ 32" using unsigned_less [of "xi_frame_size iface"] by (simp add: fs_def)
  have h: "h < 2 ^ 31" using g(3) by (simp add: h_def half_frames_def fs_def)
  define half :: u64 where "half = ucast (of_nat (xi_umem_size iface div fs) div 2 :: u32)"
  have half: "unat half = h"
    using g(3) by (simp add: half_def unsigned_ucast_eq unat_div unat_of_nat take_bit_nat_eq_self h_def half_frames_def fs_def)
  then have nz: "half \<noteq> 0" using g(2) by force
  have mul: "unat (x * y) = unat x * unat y" if "unat x * unat y < 2 ^ 64" for x y :: u64
    using that by (simp add: unat_word_ariths)
  have u: "unat (ucast (xi_frame_size iface) :: u64) = fs"
    using fs by (simp add: unsigned_ucast_eq fs_def take_bit_nat_eq_self)
  have sm: "unat (slot mod half) = unat slot mod h" by (simp add: unat_mod half)
  have lt: "unat slot mod h + h < 2 ^ 32" using mod_less_divisor [OF g(2), of "unat slot"] h by simp
  then have add: "unat (slot mod half + half) = unat slot mod h + h"
    by (simp add: unat_word_ariths sm half)
  have "(unat slot mod h + h) * fs \<le> 2 ^ 32 * fs" using lt by (intro mult_right_mono) auto
  also have "\<dots> < 2 ^ 64" using fs by simp
  finally have "unat ((slot mod half + half) * ucast (xi_frame_size iface)) = (unat slot mod h + h) * fs"
    by (simp add: mul add u)
  moreover have "tx_frame_addr iface slot = Some ((slot mod half + half) * ucast (xi_frame_size iface))"
    using g(1) nz unfolding tx_frame_addr_def Let_def fs_def [symmetric] half_def [symmetric]
    by (auto simp: fs_def)
  ultimately show ?thesis using that by (simp add: fs_def tx_frame_def h_def)
qed

lemma kernel_takes_prod:
  assumes "prod_ok r" "kernel_takes x r r'"
  shows "prod_ok r'" "ring_items r = x # ring_items r'" "xr_size r' = xr_size r"
    "ring_used r = Suc (ring_used r')"
proof -
  have wf: "ring_wf r" and used: "1 \<le> ring_used r" and r': "r' = r\<lparr>xr_consumer := xr_consumer r + 1\<rparr>"
    and x: "hd (ring_items r) = x" using assms by (auto simp: prod_ok_def kernel_takes_def)
  have d: "ring_wf r'" "ring_items r' = drop 1 (ring_items r)" "ring_used r' = ring_used r - 1"
    by (rule ring_drop [OF wf used]; simp add: r')+
  show "prod_ok r'" using assms(1) d r' by (auto simp: prod_ok_def)
  show "ring_items r = x # ring_items r'"
    using used x d(2) length_ring_items [of r] by (cases "ring_items r") auto
  show "xr_size r' = xr_size r" by (simp add: r')
  show "ring_used r = Suc (ring_used r')" using d used by simp
qed

lemma kernel_gives_cons:
  assumes "cons_ok r" "kernel_gives x r r'"
  shows "cons_ok r'" "ring_items r' = ring_items r @ [x]" "xr_size r' = xr_size r"
proof -
  have wf: "ring_wf r" and room: "ring_used r < unat (xr_size r)"
    and r': "r' = r\<lparr>xr_ring := (xr_ring r)[ring_pos r (xr_producer r) := x], xr_producer := xr_producer r + 1\<rparr>"
    using assms by (auto simp: cons_ok_def kernel_gives_def)
  have d: "ring_wf r'" "ring_items r' = ring_items r @ [x]" "ring_used r' = Suc (ring_used r)"
    by (rule ring_append [OF wf room]; simp add: r')+
  show "cons_ok r'" using assms(1) d r' by (auto simp: cons_ok_def)
  show "ring_items r' = ring_items r @ [x]" "xr_size r' = xr_size r" using d r' by simp_all
qed

text \<open>Reading after a write elsewhere, or in the same place.\<close>

lemma wrn_read:
  assumes "wrn b off xs = Some b'"
  shows "a + n \<le> off \<or> off + length xs \<le> a \<Longrightarrow> take n (drop a b') = take n (drop a b)"
    "take (length xs) (drop off b') = xs" "length b' = length b"
proof -
  have b': "b' = take off b @ xs @ drop (off + length xs) b" "off + length xs \<le> length b"
    using assms by (auto simp: wrn_def split: if_splits)
  show "length b' = length b" "take (length xs) (drop off b') = xs" using b' by auto
  assume "a + n \<le> off \<or> off + length xs \<le> a"
  then show "take n (drop a b') = take n (drop a b)"
  proof
    assume "a + n \<le> off" then show ?thesis using b' by (simp add: b'(1) take_drop)
  next
    assume a: "off + length xs \<le> a"
    have "drop a b' = drop (a - (off + length xs)) (drop (off + length xs) b)" using a b' by simp
    then show ?thesis using a by simp
  qed
qed

text \<open>Two frames do not overlap.\<close>

lemma frames_apart:
  fixes a b :: nat
  assumes "f \<noteq> g" "a div n = f" "a mod n + k \<le> n" "b = g * n" "l \<le> n"
  shows "a + k \<le> b \<or> b + l \<le> a"
proof (cases "f < g")
  case True
  have "a + k = f * n + (a mod n + k)" using assms(2) div_mult_mod_eq [of a n] by simp
  also have "\<dots> \<le> Suc f * n" using assms(3) by simp
  also have "\<dots> \<le> g * n" using True by (intro mult_right_mono) auto
  finally show ?thesis using assms(4) by simp
next
  case False
  have "b + l \<le> Suc g * n" using assms(4,5) by simp
  also have "\<dots> \<le> f * n" using False assms(1) by (intro mult_right_mono) auto
  also have "\<dots> \<le> a" using assms(2) by (metis div_times_less_eq_dividend)
  finally show ?thesis by simp
qed

lemma tx_frame_add:
  assumes "iface_geometry iface"
  shows "tx_frame iface (s + of_nat k) = (unat s + k) mod half_frames iface + half_frames iface"
proof -
  have "half_frames iface dvd 2 ^ 64" using assms by (simp add: iface_geometry_def)
  moreover have "unat (s + of_nat k) = (unat s + k) mod 2 ^ 64" by (simp add: unat_word_ariths unat_of_nat mod_simps)
  ultimately show ?thesis by (simp add: tx_frame_def mod_mod_cancel)
qed

lemma tx_frame_bounds:
  assumes "iface_geometry iface"
  shows "half_frames iface \<le> tx_frame iface s"
    "tx_frame iface s * unat (xi_frame_size iface) + unat (xi_frame_size iface) \<le> xi_umem_size iface"
proof -
  let ?fs = "unat (xi_frame_size iface)" and ?h = "half_frames iface"
  show "?h \<le> tx_frame iface s" by (simp add: tx_frame_def)
  have "0 < ?h" using assms by (simp add: iface_geometry_def)
  then have "tx_frame iface s + 1 \<le> ?h + ?h" by (simp add: tx_frame_def Suc_le_eq)
  also have "\<dots> \<le> xi_umem_size iface div ?fs" by (simp add: half_frames_def)
  finally have "(tx_frame iface s + 1) * ?fs \<le> xi_umem_size iface div ?fs * ?fs" by (rule mult_right_mono) simp
  also have "\<dots> \<le> xi_umem_size iface" by (rule div_times_less_eq_dividend)
  finally show "tx_frame iface s * ?fs + ?fs \<le> xi_umem_size iface" by (simp add: algebra_simps)
qed

section \<open>Preservation\<close>

text \<open>What a step does to the transmit side: nothing, as far as the invariant sees it.\<close>

lemma queue_cong:
  assumes "queue_inv iface M q" "prod_ok (xq_tx q')" "prod_ok (xq_fill q')" "cons_ok (xq_comp q')" "cons_ok (xq_rx q')"
    "xr_size (xq_tx q') = xr_size (xq_tx q)" "xr_size (xq_fill q') = xr_size (xq_fill q)"
    "xr_size (xq_rx q') = xr_size (xq_rx q)" "length (xq_bufs q') = length (xq_bufs q)"
    "ring_items (xq_tx q') = ring_items (xq_tx q)" "xq_tx_slot q' = xq_tx_slot q"
    "mset (rx_frames iface q') = mset (rx_frames iface q)"
  shows "queue_inv iface M q'"
proof -
  have "ring_used (xq_tx q') = ring_used (xq_tx q)" by (metis assms(10) length_ring_items)
  then show ?thesis using assms by (auto simp: queue_inv_def queue_rings_ok_def tx_pending_ok_def)
qed

lemma drain_comp_inv:
  assumes "queue_inv iface M q"
  shows "queue_inv iface M (drain_comp limit q) \<and> queue_sent (drain_comp limit q) = queue_sent q"
proof -
  have ok: "cons_ok (xq_comp q)" using assms by (simp add: queue_inv_def queue_rings_ok_def)
  then have wf: "ring_wf (xq_comp q)" "ring_used (xq_comp q) \<le> unat (xr_size (xq_comp q))"
    by (auto simp: cons_ok_def ring_wf_def)
  obtain n c where p: "xsk_ring_cons_peek limit (xq_comp q) = ((n, if 0 < n then xr_consumer (xq_comp q) else 0), c)"
      "unat n \<le> ring_used (xq_comp q)" "cons_ok (xsk_ring_cons_release n c)"
    using peek_spec [OF ok, of limit] by metis
  have small: "unat n < 2 ^ 31" using p(2) wf(2) ring_size_bounds [OF wf(1)] by simp
  have "sint (of_nat k :: u32) = int k" if "k < 2 ^ 31" for k
    using that by (simp add: signed_of_nat signed_take_bit_int_eq_self)
  from this [OF small] have s: "sint n = int (unat n)" by simp
  have "drain_comp limit q = q\<lparr>xq_comp := xsk_ring_cons_release n c\<rparr>"
  proof (cases "n = 0")
    case True
    then have "xsk_ring_cons_release n c = c" by (simp add: xsk_ring_cons_release_def)
    then show ?thesis using True by (simp add: drain_comp_def p)
  next
    case False
    then have "0 < unat n" by (metis unat_gt_0)
    then have "0 < sint n" unfolding s by (simp only: of_nat_0_less_iff)
    then show ?thesis using False by (simp add: drain_comp_def p)
  qed
  then show ?thesis using assms p(3) queue_cong [OF assms, of "q\<lparr>xq_comp := xsk_ring_cons_release n c\<rparr>"]
    by (auto simp: queue_inv_def queue_rings_ok_def rx_frames_def queue_sent_def)
qed

lemma queue_tx_size:
  assumes "iface_geometry iface" "queue_inv iface M q"
  shows "unat (xr_size (xq_tx q)) \<le> half_frames iface" "prod_ok (xq_tx q)" "length (xq_bufs q) = xi_umem_size iface"
  using assms by (auto simp: iface_geometry_def queue_inv_def queue_rings_ok_def)

text \<open>The outcome of an attempt to reserve: nothing has changed, or any packet that fits a frame
  can be put.\<close>

definition claim_ok :: "xsk_interface \<Rightarrow> nat multiset \<Rightarrow> buf list \<Rightarrow> u32 option \<times> xsk_queue \<Rightarrow> bool" where
  "claim_ok iface M sent res \<longleftrightarrow> (case res of
      (None, q) \<Rightarrow> queue_inv iface M q \<and> queue_sent q = sent
    | (Some idx, q) \<Rightarrow> \<forall>pkt. length pkt \<le> unat (xi_frame_size iface) \<longrightarrow>
        (\<exists>q'. tx_put iface idx pkt q = Some q' \<and> queue_inv iface M q' \<and> queue_sent q' = sent @ [pkt]))"

lemma tx_reserve_cases:
  assumes "iface_geometry iface" "queue_inv iface M q"
  shows "claim_ok iface M (queue_sent q) (tx_reserve q)"
proof -
  let ?tx = "xq_tx q" and ?fs = "unat (xi_frame_size iface)" and ?h = "half_frames iface"
  note sz = queue_tx_size [OF assms]
  obtain r1 where r: "xsk_ring_prod_reserve 1 ?tx = (if ring_used ?tx < unat (xr_size ?tx) then Some (xr_producer ?tx) else None, r1)"
    and none: "\<not> ring_used ?tx < unat (xr_size ?tx) \<Longrightarrow> prod_ok r1 \<and> ring_items r1 = ring_items ?tx \<and> xr_size r1 = xr_size ?tx"
    and some: "\<And>x. ring_used ?tx < unat (xr_size ?tx) \<Longrightarrow> \<exists>r2. ring_store (xr_producer ?tx) x r1 = Some r2 \<and>
       prod_ok (xsk_ring_prod_submit 1 r2) \<and> ring_items (xsk_ring_prod_submit 1 r2) = ring_items ?tx @ [x] \<and>
       xr_size (xsk_ring_prod_submit 1 r2) = xr_size ?tx"
    using reserve_one [OF sz(2)] by metis
  show ?thesis
  proof (cases "ring_used ?tx < unat (xr_size ?tx)")
    case False
    have "queue_inv iface M (q\<lparr>xq_tx := r1\<rparr>)"
      by (rule queue_cong [OF assms(2)]) (use none [OF False] assms(2) in \<open>auto simp: queue_inv_def queue_rings_ok_def rx_frames_def\<close>)
    then show ?thesis using False none by (simp add: tx_reserve_def r queue_sent_def claim_ok_def)
  next
    case room: True
    show ?thesis
    proof (simp add: tx_reserve_def r room claim_ok_def, intro allI impI)
      fix pkt :: buf assume len: "length pkt \<le> ?fs"
      let ?slot = "xq_tx_slot q"
      obtain addr where addr: "tx_frame_addr iface ?slot = Some addr" "unat addr = tx_frame iface ?slot * ?fs"
        using tx_frame_addr_geometry [OF assms(1)] .
      have "unat addr + length pkt \<le> length (xq_bufs q)"
        using tx_frame_bounds(2) [OF assms(1), of ?slot] len addr(2) sz(3) by simp
      then obtain bufs where w: "wrn (xq_bufs q) (unat addr) pkt = Some bufs" by simp
      define d where "d = (addr, of_nat (length pkt) :: u32)"
      obtain r2 where r2: "ring_store (xr_producer ?tx) d r1 = Some r2" "prod_ok (xsk_ring_prod_submit 1 r2)"
          "ring_items (xsk_ring_prod_submit 1 r2) = ring_items ?tx @ [d]" "xr_size (xsk_ring_prod_submit 1 r2) = xr_size ?tx"
        using some [OF room] by blast
      define q'' where "q'' = q\<lparr>xq_tx := xsk_ring_prod_submit 1 r2, xq_bufs := bufs, xq_tx_slot := ?slot + 1\<rparr>"
      have put: "tx_put iface (xr_producer ?tx) pkt (q\<lparr>xq_tx := r1\<rparr>) = Some q''"
        using r2(1) by (simp add: tx_put_def addr(1) w d_def q''_def)
      have "?fs < 2 ^ 32" by (rule order.strict_trans2 [OF unsigned_less]) simp
      then have dl: "unat (snd d) = length pkt" using len
        by (simp add: d_def unat_of_nat take_bit_nat_eq_self)
      have used: "ring_used (xq_tx q'') = Suc (ring_used ?tx)"
        using arg_cong [OF r2(3), of length] by (simp add: q''_def)
      define c where "c = ?slot - of_nat (ring_used ?tx)"
      have base: "?slot + 1 - of_nat (Suc (ring_used ?tx)) = c" "?slot = c + of_nat (ring_used ?tx)"
        by (simp_all add: c_def)
      have pend: "unat (fst (ring_items ?tx ! k)) = tx_frame iface (c + of_nat k) * ?fs" "unat (snd (ring_items ?tx ! k)) \<le> ?fs"
        if "k < ring_used ?tx" for k
        using assms(2) that by (auto simp: queue_inv_def tx_pending_ok_def c_def)
      have items: "ring_items (xq_tx q'') = ring_items ?tx @ [d]" "xq_tx_slot q'' = ?slot + 1"
        using r2(3) by (simp_all add: q''_def)
      have "tx_pending_ok iface q''"
        unfolding tx_pending_ok_def used items base
        using pend addr(2) dl len base(2) by (auto simp: nth_append less_Suc_eq d_def)
      then have inv: "queue_inv iface M q''"
        using assms(2) r2 wrn_read(3) [OF w] by (auto simp: queue_inv_def queue_rings_ok_def q''_def rx_frames_def)
      have apart: "desc_bytes bufs (ring_items ?tx ! k) = desc_bytes (xq_bufs q) (ring_items ?tx ! k)" if k: "k < ring_used ?tx" for k
      proof -
        have "tx_frame iface (c + of_nat k) \<noteq> tx_frame iface ?slot"
          using mod_add_inj [of "unat c" k ?h "ring_used ?tx"] k room sz(1)
          by (auto simp: base(2) tx_frame_add [OF assms(1)])
        moreover have "unat (fst (ring_items ?tx ! k)) div ?fs = tx_frame iface (c + of_nat k)"
          using pend [OF k] assms(1) by (simp add: iface_geometry_def word_less_nat_alt)
        ultimately have "unat (fst (ring_items ?tx ! k)) + unat (snd (ring_items ?tx ! k)) \<le> unat addr \<or>
            unat addr + length pkt \<le> unat (fst (ring_items ?tx ! k))"
          using frames_apart [of "tx_frame iface (c + of_nat k)" "tx_frame iface ?slot" _ ?fs] pend [OF k] addr(2) len by simp
        then show ?thesis using wrn_read(1) [OF w] by (simp add: desc_bytes_def)
      qed
      have "map (desc_bytes bufs) (ring_items ?tx) = map (desc_bytes (xq_bufs q)) (ring_items ?tx)"
        by (rule nth_equalityI) (use apart in auto)
      moreover have "desc_bytes bufs d = pkt" using wrn_read(2) [OF w] dl by (simp add: desc_bytes_def d_def)
      ultimately have "queue_sent q'' = queue_sent q @ [pkt]" by (simp add: queue_sent_def q''_def r2(3))
      then show "\<exists>q''. tx_put iface (xr_producer ?tx) pkt (q\<lparr>xq_tx := r1\<rparr>) = Some q'' \<and> queue_inv iface M q'' \<and>
          queue_sent q'' = queue_sent q @ [pkt]" using put inv by blast
    qed
  qed
qed

text \<open>The kernel's steps.\<close>

lemma kernel_step_inv:
  assumes step: "kernel_step (unat (xi_frame_size iface)) q q'" and g: "iface_geometry iface" and inv: "queue_inv iface M q"
  shows "queue_inv iface M q' \<and> queue_sent q' = queue_sent q"
  using step inv
proof cases
  case (Kernel_tx addr len tx cr pkt)
  have ok: "prod_ok (xq_tx q)" "cons_ok (xq_comp q)" using inv by (auto simp: queue_inv_def queue_rings_ok_def)
  note t = kernel_takes_prod [OF ok(1) Kernel_tx(2)]
  have pend: "unat (fst (ring_items tx ! k)) = tx_frame iface (xq_tx_slot q - of_nat (ring_used tx) + of_nat k) * unat (xi_frame_size iface) \<and>
     unat (snd (ring_items tx ! k)) \<le> unat (xi_frame_size iface)" if "k < ring_used tx" for k
  proof -
    have "Suc k < ring_used (xq_tx q)" using that t(4) by simp
    then have "unat (fst (ring_items (xq_tx q) ! Suc k)) =
        tx_frame iface (xq_tx_slot q - of_nat (ring_used (xq_tx q)) + of_nat (Suc k)) * unat (xi_frame_size iface) \<and>
        unat (snd (ring_items (xq_tx q) ! Suc k)) \<le> unat (xi_frame_size iface)"
      using inv unfolding queue_inv_def tx_pending_ok_def by blast
    then show ?thesis using t(2,4) by (simp add: algebra_simps)
  qed
  then have "tx_pending_ok iface q'" by (simp add: tx_pending_ok_def Kernel_tx(1))
  then have "queue_inv iface M q'"
    using inv t kernel_gives_cons [OF ok(2) Kernel_tx(3)]
    by (auto simp: queue_inv_def queue_rings_ok_def Kernel_tx(1) rx_frames_def)
  moreover have "desc_bytes (xq_bufs q) (addr, len) = pkt"
    using Kernel_tx(4) by (auto simp: desc_bytes_def rdn_def split: if_splits)
  ultimately show ?thesis using t(2) by (simp add: queue_sent_def Kernel_tx(1))
next
  case (Kernel_rx addr fill off pkt pos rx bufs)
  let ?fs = "unat (xi_frame_size iface)" and ?h = "half_frames iface"
  have ok: "prod_ok (xq_fill q)" "cons_ok (xq_rx q)" using inv by (auto simp: queue_inv_def queue_rings_ok_def)
  note t = kernel_takes_prod [OF ok(1) Kernel_rx(2)]
  note w = wrn_read [OF Kernel_rx(9)]
  have fs: "0 < ?fs" using g by (simp add: iface_geometry_def word_less_nat_alt)
  have dst: "frame_no iface addr < ?h" using inv t(2) by (auto simp: queue_inv_def rx_frames_def)
  have tx: "ring_items (xq_tx q') = ring_items (xq_tx q)" by (simp add: Kernel_rx(1))
  have apart: "desc_bytes bufs (ring_items (xq_tx q) ! k) = desc_bytes (xq_bufs q) (ring_items (xq_tx q) ! k)"
    if k: "k < ring_used (xq_tx q)" for k
  proof -
    let ?d = "ring_items (xq_tx q) ! k"
    obtain f where f: "?h \<le> f" "unat (fst ?d) = f * ?fs" "unat (snd ?d) \<le> ?fs"
      using inv k tx_frame_bounds(1) [OF g] by (auto simp: queue_inv_def tx_pending_ok_def)
    have "pos + length pkt \<le> (frame_no iface addr + 1) * ?fs"
      using Kernel_rx(4,5) by (simp add: frame_no_def algebra_simps)
    also have "\<dots> \<le> ?h * ?fs" using dst by (intro mult_right_mono) auto
    also have "\<dots> \<le> unat (fst ?d)" unfolding f(2) using f(1) by (intro mult_right_mono) auto
    finally show ?thesis using w(1) by (simp add: desc_bytes_def)
  qed
  have "map (desc_bytes bufs) (ring_items (xq_tx q)) = map (desc_bytes (xq_bufs q)) (ring_items (xq_tx q))"
    by (rule nth_equalityI) (use apart in auto)
  then have sent: "queue_sent q' = queue_sent q" by (simp add: queue_sent_def Kernel_rx(1))
  have rx: "cons_ok rx" "ring_items rx = ring_items (xq_rx q) @ [(of_nat pos, of_nat (length pkt))]" "xr_size rx = xr_size (xq_rx q)"
    using kernel_gives_cons [OF ok(2) Kernel_rx(8)] by auto
  have "frame_no iface (of_nat pos) = frame_no iface addr"
  proof -
    have "unat (of_nat pos :: u64) = pos" using Kernel_rx(6) by (simp add: unat_of_nat take_bit_nat_eq_self)
    moreover have "pos div ?fs = frame_no iface addr" using Kernel_rx(3,5) fs by (simp add: frame_no_def)
    ultimately show ?thesis by (simp add: frame_no_def)
  qed
  then have "mset (rx_frames iface q') = mset (rx_frames iface q)"
    using t(2) rx(2) by (auto simp: rx_frames_def Kernel_rx(1))
  then have "queue_inv iface M q'"
    using inv t(1,3) rx w(3) by (intro queue_cong [OF inv]) (auto simp: Kernel_rx(1) queue_inv_def queue_rings_ok_def)
  then show ?thesis using sent by simp
qed

lemma kernel_turn_inv:
  assumes "iface_geometry iface" "\<forall>K\<in>set ks. kernel_ok (unat (xi_frame_size iface)) K" "queue_inv iface M q"
  shows "queue_inv iface M (kernel_turn ks q) \<and> queue_sent (kernel_turn ks q) = queue_sent q"
proof (cases ks)
  case (Cons K ks')
  then have "(kernel_step (unat (xi_frame_size iface)))\<^sup>*\<^sup>* q (K q)" using assms(2) by (simp add: kernel_ok_def)
  then have "queue_inv iface M (K q) \<and> queue_sent (K q) = queue_sent q"
    by induction (use assms(1,3) kernel_step_inv in \<open>auto\<close>)
  then show ?thesis using Cons by (simp add: kernel_turn_def)
qed (use assms in \<open>simp add: kernel_turn_def\<close>)

section \<open>Sending\<close>

lemma queue_inv_counters [simp]:
  "queue_inv iface M (q\<lparr>xq_pending_tx_count := n\<rparr>) = queue_inv iface M q"
  "queue_inv iface M (q\<lparr>xq_tx_wait_loops := w\<rparr>) = queue_inv iface M q"
  "queue_sent (q\<lparr>xq_pending_tx_count := n\<rparr>) = queue_sent q"
  "queue_sent (q\<lparr>xq_tx_wait_loops := w\<rparr>) = queue_sent q"
  "queue_inv iface M (tx_count_pending limit q) = queue_inv iface M q"
  "queue_sent (tx_count_pending limit q) = queue_sent q"
  by (simp_all add: queue_inv_def queue_rings_ok_def tx_pending_ok_def rx_frames_def queue_sent_def
      tx_count_pending_def Let_def)

abbreviation kernels_ok :: "xsk_interface \<Rightarrow> (xsk_queue \<Rightarrow> xsk_queue) list \<Rightarrow> bool" where
  "kernels_ok iface ks \<equiv> \<forall>K\<in>set ks. kernel_ok (unat (xi_frame_size iface)) K"

lemma kernels_ok_tl: "kernels_ok iface ks \<Longrightarrow> kernels_ok iface (tl ks)"
  by (cases ks) auto

lemma tx_retry_ok:
  assumes "iface_geometry iface"
  shows "kernels_ok iface ks \<Longrightarrow> queue_inv iface M q \<Longrightarrow> claim_ok iface M (queue_sent q) (tx_retry n ks limit q)"
proof (induction n ks limit q rule: tx_retry.induct)
  case (2 n ks limit q)
  have turn: "queue_inv iface M (kernel_turn ks q)" "queue_sent (kernel_turn ks q) = queue_sent q"
    using kernel_turn_inv [OF assms 2(2,3)] by auto
  note c = tx_reserve_cases [OF assms turn(1)]
  show ?case
  proof (cases "tx_reserve (kernel_turn ks q)")
    case (Pair idx q1)
    then show ?thesis using c 2(1) [OF Pair [symmetric]] 2(2) kernels_ok_tl [OF 2(2)] drain_comp_inv [of iface M q1 limit] turn(2)
      by (cases idx) (auto simp: claim_ok_def)
  qed
qed (simp add: claim_ok_def)

lemma local_tx_claim_ok:
  assumes "iface_geometry iface"
  shows "kernels_ok iface ks \<Longrightarrow> queue_inv iface M q \<Longrightarrow> claim_ok iface M (queue_sent q) (local_tx_claim n ks limit q)"
proof (induction n arbitrary: ks q)
  case 0
  let ?q = "drain_comp limit (kernel_turn ks q)"
  have turn: "queue_inv iface M ?q" "queue_sent ?q = queue_sent q"
    using kernel_turn_inv [OF assms 0] drain_comp_inv by metis+
  obtain idx q1 where r: "tx_reserve ?q = (idx, q1)" by fastforce
  show ?case using tx_reserve_cases [OF assms turn(1)] turn(2)
    by (cases idx) (simp_all add: local_tx_claim.simps [of 0] r claim_ok_def)
next
  case (Suc n)
  let ?q = "drain_comp limit (kernel_turn ks q)"
  have turn: "queue_inv iface M ?q" "queue_sent ?q = queue_sent q"
    using kernel_turn_inv [OF assms Suc.prems] drain_comp_inv by metis+
  obtain idx q1 where r: "tx_reserve ?q = (idx, q1)" by fastforce
  note c = tx_reserve_cases [OF assms turn(1), unfolded r turn(2)]
  show ?case
  proof (cases idx)
    case None
    let ?q2 = "q1\<lparr>xq_tx_wait_loops := xq_tx_wait_loops q1 + 1, xq_pending_tx_count := 0\<rparr>"
    have "queue_inv iface M ?q2" "queue_sent ?q2 = queue_sent q" using c None by (simp_all add: claim_ok_def)
    then show ?thesis using Suc.IH [OF kernels_ok_tl [OF Suc.prems(1)], of ?q2] None
      by (simp add: local_tx_claim.simps [of "Suc n"] r Let_def)
  qed (use c in \<open>simp add: local_tx_claim.simps [of "Suc n"] r\<close>)
qed

text \<open>A send hands over the packet and reports 0, or leaves things as they were and reports -1.\<close>

definition send_ok :: "xsk_interface \<Rightarrow> nat multiset \<Rightarrow> xsk_queue \<Rightarrow> buf \<Rightarrow> (int \<times> xsk_queue) option \<Rightarrow> bool" where
  "send_ok iface M q pkt res \<longleftrightarrow> (\<exists>ret q'. res = Some (ret, q') \<and> ret \<in> {0, -1} \<and> queue_inv iface M q' \<and>
     queue_sent q' = (if ret = 0 then queue_sent q @ [pkt] else queue_sent q))"

lemma send_to_local_on_queue_ok:
  assumes "iface_geometry iface" "kernels_ok iface ks" "queue_inv iface M q" "length pkt \<le> unat (xi_frame_size iface)"
  shows "send_ok iface M q pkt (send_to_local_on_queue ks iface pkt q)"
proof (cases "local_tx_claim LOCAL_TX_MAX_WAIT_LOOPS ks (xi_ring_size iface) q")
  case (Pair idx q1)
  then show ?thesis using local_tx_claim_ok [OF assms(1-3), of LOCAL_TX_MAX_WAIT_LOOPS "xi_ring_size iface"] assms(4)
    by (cases idx) (auto simp: send_to_local_on_queue_def send_ok_def claim_ok_def)
qed

lemma send_batch_on_queue_ok:
  assumes "iface_geometry iface" "kernels_ok iface ks" "queue_inv iface M q" "length pkt \<le> unat (xi_frame_size iface)"
  shows "send_ok iface M q pkt (send_batch_on_queue ks iface pkt q)"
proof -
  let ?n = "xi_ring_size iface"
  let ?q = "drain_comp ?n (kernel_turn ks q)"
  have turn: "queue_inv iface M ?q" "queue_sent ?q = queue_sent q"
    using kernel_turn_inv [OF assms(1-3)] drain_comp_inv by metis+
  obtain idx q1 where r: "tx_reserve ?q = (idx, q1)" by fastforce
  note c = tx_reserve_cases [OF assms(1) turn(1)]
  show ?thesis
  proof (cases idx)
    case (Some i)
    then show ?thesis using c r assms(4) turn(2)
      by (auto simp: send_batch_on_queue_def Let_def send_ok_def claim_ok_def)
  next
    case None
    define q2 where "q2 = drain_comp ?n (q1\<lparr>xq_pending_tx_count := if 0 < xq_pending_tx_count q1 then 0 else xq_pending_tx_count q1\<rparr>)"
    have "queue_inv iface M q1 \<and> queue_sent q1 = queue_sent q" using c r None turn(2) by (simp add: claim_ok_def)
    then have q2: "queue_inv iface M q2" "queue_sent q2 = queue_sent q"
      unfolding q2_def using drain_comp_inv queue_inv_counters by metis+
    obtain j q3 where "tx_retry 8 (tl ks) ?n q2 = (j, q3)" by fastforce
    moreover from this have "claim_ok iface M (queue_sent q) (j, q3)"
      using tx_retry_ok [OF assms(1) kernels_ok_tl [OF assms(2)] q2(1), of 8 ?n] q2(2) by simp
    ultimately show ?thesis using r None assms(4)
      by (cases j) (auto simp: send_batch_on_queue_def Let_def send_ok_def claim_ok_def q2_def [symmetric])
  qed
qed

section \<open>Receiving and giving back\<close>

lemma those_map_Some: "(\<And>x. x \<in> set xs \<Longrightarrow> f x = Some (g x)) \<Longrightarrow> those (map f xs) = Some (map g xs)"
  by (induction xs) auto

lemma rx_take_ok:
  assumes inv: "queue_inv iface M q" and max: "max_pkts \<noteq> 0"
  obtains ds q' where "rx_take max_pkts q = Some (ds, q')" "ring_items (xq_rx q) = ds @ ring_items (xq_rx q')"
    "queue_inv iface (M - mset (map (frame_no iface \<circ> fst) ds)) q'" "mset (map (frame_no iface \<circ> fst) ds) \<subseteq># M"
    "queue_sent q' = queue_sent q" "ds = [] \<longleftrightarrow> ring_items (xq_rx q) = []" "xq_bufs q' = xq_bufs q"
proof -
  let ?rx = "xq_rx q"
  have ok: "cons_ok ?rx" using inv by (simp add: queue_inv_def queue_rings_ok_def)
  obtain n r1 where p: "xsk_ring_cons_peek max_pkts ?rx = ((n, if 0 < n then xr_consumer ?rx else 0), r1)"
    "unat n \<le> unat max_pkts" "unat n \<le> ring_used ?rx" "max_pkts \<noteq> 0 \<and> ring_used ?rx \<noteq> 0 \<longrightarrow> n \<noteq> 0"
    "xr_ring r1 = xr_ring ?rx" "xr_mask r1 = xr_mask ?rx" "xr_size r1 = xr_size ?rx"
    "cons_ok (xsk_ring_cons_release n r1)" "ring_items (xsk_ring_cons_release n r1) = drop (unat n) (ring_items ?rx)"
    by (rule peek_spec [OF ok, of max_pkts]) (rule that)
  define ds where "ds = take (unat n) (ring_items ?rx)"
  define q' where "q' = q\<lparr>xq_rx := xsk_ring_cons_release n r1\<rparr>"
  have wf: "ring_wf ?rx" using ok by (simp add: cons_ok_def)
  have load: "ring_load (xr_consumer ?rx + of_nat j) r1 = Some (ring_items ?rx ! j)" if "j < unat n" for j
    using that p(3,5,6) ring_pos_less [OF wf, of "xr_consumer ?rx + of_nat j"]
    by (simp add: ring_load_def ring_items_def ring_pos_def)
  have ds: "ds = map (\<lambda>j. ring_items ?rx ! j) [0..<unat n]"
    using p(3) by (intro nth_equalityI) (auto simp: ds_def)
  have take: "rx_take max_pkts q = Some (ds, q')"
  proof (cases "n = 0")
    case True
    then show ?thesis by (simp add: rx_take_def p(1) ds_def q'_def xsk_ring_cons_release_def)
  next
    case False
    then have "0 < n" by (simp add: word_gt_0)
    have "those (map (\<lambda>j. ring_load (xr_consumer ?rx + of_nat j) r1) [0..<unat n]) = Some ds"
      unfolding ds by (rule those_map_Some) (use load in auto)
    then show ?thesis using False \<open>0 < n\<close> by (simp add: rx_take_def p(1) q'_def)
  qed
  have split: "ring_items ?rx = ds @ ring_items (xq_rx q')" by (simp add: ds_def q'_def p(9))
  have M: "mset (rx_frames iface q) = mset (map (frame_no iface \<circ> fst) ds) + mset (rx_frames iface q')"
    unfolding rx_frames_def split by (simp add: q'_def)
  moreover have mM: "mset (rx_frames iface q) = M" using inv by (simp add: queue_inv_def)
  ultimately have rest: "M - mset (map (frame_no iface \<circ> fst) ds) = mset (rx_frames iface q')" by simp
  have sub: "mset (map (frame_no iface \<circ> fst) ds) \<subseteq># M" "set_mset (mset (rx_frames iface q')) \<subseteq> set_mset M"
    unfolding mM [symmetric] M by auto
  have size_eq: "xr_size (xsk_ring_cons_release n r1) = xr_size ?rx" using p(7) by (simp add: xsk_ring_cons_release_def)
  have inv': "queue_inv iface (M - mset (map (frame_no iface \<circ> fst) ds)) q'"
    unfolding rest using inv p(7,8) sub(2) size_eq
    by (auto simp: queue_inv_def queue_rings_ok_def q'_def tx_pending_ok_def)
  show ?thesis
  proof (rule that [OF take split inv'])
    show "mset (map (frame_no iface \<circ> fst) ds) \<subseteq># M" by (rule sub)
    show "queue_sent q' = queue_sent q" "xq_bufs q' = xq_bufs q" by (simp_all add: q'_def queue_sent_def)
    have "ring_used ?rx = 0 \<longleftrightarrow> ring_items ?rx = []" using length_ring_items [of ?rx] by (metis length_0_conv)
    then show "ds = [] \<longleftrightarrow> ring_items ?rx = []" using p(4) max by (auto simp: ds_def unat_eq_zero)
  qed
qed

text \<open>A frame that the program holds always finds room in the fill ring.\<close>

lemma release_one_ok:
  assumes inv: "queue_inv iface M q" and room: "size M < unat (xi_ring_size iface)" and addr: "frame_no iface addr < half_frames iface"
  obtains q' where "release_one addr q = Some q'" "queue_inv iface (add_mset (frame_no iface addr) M) q'"
    "queue_sent q' = queue_sent q"
proof -
  let ?f = "xq_fill q"
  have ok: "prod_ok ?f" "xr_size ?f = xi_ring_size iface" using inv by (auto simp: queue_inv_def queue_rings_ok_def)
  have M: "mset (rx_frames iface q) = M" using inv by (simp add: queue_inv_def)
  have "ring_used ?f \<le> size M" unfolding M [symmetric] by (simp add: rx_frames_def)
  then have free: "ring_used ?f < unat (xr_size ?f)" using room ok(2) by simp
  obtain r1 where r: "xsk_ring_prod_reserve 1 ?f = (if ring_used ?f < unat (xr_size ?f) then Some (xr_producer ?f) else None, r1)"
    and some: "\<And>x. ring_used ?f < unat (xr_size ?f) \<Longrightarrow> \<exists>r2. ring_store (xr_producer ?f) x r1 = Some r2 \<and>
       prod_ok (xsk_ring_prod_submit 1 r2) \<and> ring_items (xsk_ring_prod_submit 1 r2) = ring_items ?f @ [x] \<and>
       xr_size (xsk_ring_prod_submit 1 r2) = xr_size ?f"
    using reserve_one [OF ok(1)] by metis
  obtain r2 where r2: "ring_store (xr_producer ?f) addr r1 = Some r2" "prod_ok (xsk_ring_prod_submit 1 r2)"
      "ring_items (xsk_ring_prod_submit 1 r2) = ring_items ?f @ [addr]" "xr_size (xsk_ring_prod_submit 1 r2) = xr_size ?f"
    using some [OF free] by blast
  show ?thesis
  proof (rule that)
    show "release_one addr q = Some (q\<lparr>xq_fill := xsk_ring_prod_submit 1 r2\<rparr>)"
      using free by (simp add: release_one_def r r2(1))
    show "queue_inv iface (add_mset (frame_no iface addr) M) (q\<lparr>xq_fill := xsk_ring_prod_submit 1 r2\<rparr>)"
      using inv r2 addr M by (auto simp: queue_inv_def queue_rings_ok_def tx_pending_ok_def rx_frames_def)
  qed (simp add: queue_sent_def)
qed

lemma release_all_ok:
  assumes "queue_inv iface M q" "size M + length as \<le> unat (xi_ring_size iface)"
    "\<forall>a\<in>set as. frame_no iface a < half_frames iface"
  shows "\<exists>q'. release_all as q = Some q' \<and> queue_inv iface (M + mset (map (frame_no iface) as)) q' \<and>
    queue_sent q' = queue_sent q"
  using assms
proof (induction as arbitrary: M q)
  case (Cons a as)
  obtain q1 where q1: "release_one a q = Some q1" "queue_inv iface (add_mset (frame_no iface a) M) q1" "queue_sent q1 = queue_sent q"
    using release_one_ok [OF Cons.prems(1), of a] Cons.prems(2,3) by auto
  show ?case using Cons.IH [OF q1(2)] Cons.prems(2,3) q1 by auto
qed simp

text \<open>A frame that is given back twice is offered to the kernel twice, so a second packet can be
  written over the first.  The forwarder's threads must not do that; one of them does.\<close>

lemma double_release_duplicates_frame:
  assumes "queue_inv iface M q" "size M + 2 \<le> unat (xi_ring_size iface)" "frame_no iface a < half_frames iface"
  shows "\<exists>q'. release_all [a, a] q = Some q' \<and>
    count (mset (rx_frames iface q')) (frame_no iface a) = count M (frame_no iface a) + 2"
  using release_all_ok [OF assms(1), of "[a, a]"] assms(2,3) by (fastforce simp: queue_inv_def)

section \<open>Setting up a queue\<close>

text \<open>The loop that offers the first frames to the kernel, in \<^verbatim>\<open>interface_init_local\<close> and
  \<^verbatim>\<open>interface_init_wan_rx\<close>; the multiplication is in 32 bits.\<close>

definition fill_store :: "xsk_interface \<Rightarrow> u32 \<Rightarrow> u64 xsk_ring option \<Rightarrow> nat \<Rightarrow> u64 xsk_ring option" where
  "fill_store iface idx r i = do { r \<leftarrow> r; ring_store (idx + of_nat i) (ucast (of_nat i * xi_frame_size iface :: u32)) r }"

definition queue_fill :: "xsk_interface \<Rightarrow> xsk_queue \<Rightarrow> xsk_queue option" where
  "queue_fill iface q =
     (let (idx, fill) = xsk_ring_prod_reserve (xi_ring_size iface) (xq_fill q);
          ret = (case idx of None \<Rightarrow> 0 | Some _ \<Rightarrow> xi_ring_size iface);
          start = (case idx of None \<Rightarrow> 0 | Some i \<Rightarrow> i)
      in do {
        fill \<leftarrow> foldl (fill_store iface start) (Some fill) [0..<unat ret];
        Some (q\<lparr>xq_fill := xsk_ring_prod_submit ret fill, xq_tx_slot := 0, xq_pending_tx_count := 0\<rparr>)
      })"

text \<open>What \<^verbatim>\<open>xsk_umem__create\<close> and \<^verbatim>\<open>xsk_socket__create\<close> hand out: empty rings of the sizes asked for.\<close>

definition queue_created :: "xsk_interface \<Rightarrow> xsk_queue \<Rightarrow> bool" where
  "queue_created iface q \<longleftrightarrow> queue_rings_ok iface q \<and> ring_used (xq_tx q) = 0 \<and> ring_used (xq_fill q) = 0 \<and>
     ring_used (xq_rx q) = 0 \<and> xq_nic q = []"

lemma reserve_all:
  assumes ok: "prod_ok r" and empty: "ring_used r = 0"
  shows "\<exists>cc. xsk_ring_prod_reserve (xr_size r) r =
      (Some (xr_producer r), r\<lparr>xr_cached_cons := cc, xr_cached_prod := xr_producer r + xr_size r\<rparr>) \<and>
      cc = xr_producer r + xr_size r"
proof -
  define d where "d = xr_producer r - (xr_cached_cons r - xr_size r)"
  have cp: "xr_cached_prod r = xr_producer r" and d: "unat d \<le> unat (xr_size r)"
    using ok by (auto simp: prod_ok_def d_def)
  have pc: "xr_consumer r = xr_producer r" using empty by (simp add: ring_used_def unat_eq_zero)
  have free: "xr_cached_cons r - xr_producer r = xr_size r - d" by (simp add: d_def)
  have "unat (xr_size r - d) = unat (xr_size r) - unat d" using d by (simp add: unat_sub word_le_nat_alt)
  moreover have "0 < unat (xr_size r)" using ok ring_size_bounds by (auto simp: prod_ok_def)
  ultimately have "xr_size r \<le> xr_size r - d \<longleftrightarrow> unat d = 0" using d unfolding word_le_nat_alt by linarith
  then have "xr_size r \<le> xr_size r - d \<longleftrightarrow> d = 0" by (simp only: unat_eq_zero)
  moreover have "d = 0 \<Longrightarrow> xr_cached_cons r = xr_producer r + xr_size r" by (simp add: d_def algebra_simps)
  ultimately show ?thesis
    by (cases "d = 0") (simp_all add: xsk_ring_prod_reserve_def xsk_prod_nb_free_def Let_def cp pc free)
qed

lemma fill_stores:
  assumes "ring_wf r" "n \<le> unat (xr_size r)"
  shows "\<exists>es. foldl (fill_store iface idx) (Some r) [0..<n] = Some (r\<lparr>xr_ring := es\<rparr>) \<and> length es = length (xr_ring r) \<and>
    (\<forall>k<n. es ! ring_pos r (idx + of_nat k) = ucast (of_nat k * xi_frame_size iface :: u32))"
  using assms(2)
proof (induction n)
  case 0 then show ?case by (intro exI [of _ "xr_ring r"]) simp
next
  case (Suc n)
  then obtain es where es: "foldl (fill_store iface idx) (Some r) [0..<n] = Some (r\<lparr>xr_ring := es\<rparr>)" "length es = length (xr_ring r)"
      "\<forall>k<n. es ! ring_pos r (idx + of_nat k) = ucast (of_nat k * xi_frame_size iface :: u32)" by auto
  have pos: "ring_pos r (idx + of_nat n) < length es" using ring_pos_less [OF assms(1)] es(2) by simp
  let ?es = "es[ring_pos r (idx + of_nat n) := ucast (of_nat n * xi_frame_size iface :: u32)]"
  have "fill_store iface idx (Some (r\<lparr>xr_ring := es\<rparr>)) n = Some (r\<lparr>xr_ring := ?es\<rparr>)"
    using pos by (simp add: fill_store_def ring_store_def Let_def ring_pos_def)
  moreover have "ring_pos r (idx + of_nat n) \<noteq> ring_pos r (idx + of_nat k)" if "k < n" for k
    using ring_pos_inj [OF assms(1), of n k idx] that Suc.prems by simp
  ultimately show ?case using es pos by (intro exI [of _ ?es]) (auto simp: less_Suc_eq)
qed

lemma queue_fill_ok:
  assumes g: "iface_geometry iface" and c: "queue_created iface q"
    and small: "unat (xi_ring_size iface) * unat (xi_frame_size iface) \<le> 2 ^ 32"
  shows "\<exists>q'. queue_fill iface q = Some q' \<and> queue_inv iface (mset [0..<unat (xi_ring_size iface)]) q' \<and> queue_sent q' = []"
proof -
  let ?f = "xq_fill q" and ?n = "xi_ring_size iface" and ?fs = "unat (xi_frame_size iface)"
  have ok: "prod_ok ?f" "xr_size ?f = ?n" "ring_used ?f = 0" "ring_used (xq_tx q) = 0" "ring_used (xq_rx q) = 0" "xq_nic q = []"
    using c by (auto simp: queue_created_def queue_rings_ok_def)
  have wf: "ring_wf ?f" and cp: "xr_cached_prod ?f = xr_producer ?f" using ok by (auto simp: prod_ok_def)
  have pc: "xr_consumer ?f = xr_producer ?f" using ok(3) by (simp add: ring_used_def unat_eq_zero)
  let ?r1 = "?f\<lparr>xr_cached_cons := xr_producer ?f + ?n, xr_cached_prod := xr_producer ?f + ?n\<rparr>"
  have res: "xsk_ring_prod_reserve ?n ?f = (Some (xr_producer ?f), ?r1)" using reserve_all [OF ok(1,3)] ok(2) by auto
  have wf1: "ring_wf ?r1" and pos1: "ring_pos ?r1 = ring_pos ?f" using wf by (simp_all add: ring_wf_def ring_pos_def fun_eq_iff)
  obtain es where es: "foldl (fill_store iface (xr_producer ?f)) (Some ?r1) [0..<unat ?n] = Some (?r1\<lparr>xr_ring := es\<rparr>)"
      "length es = length (xr_ring ?f)"
      "\<forall>k<unat ?n. es ! ring_pos ?f (xr_producer ?f + of_nat k) = ucast (of_nat k * xi_frame_size iface :: u32)"
    using fill_stores [OF wf1, of "unat ?n" iface "xr_producer ?f"] ok(2) pos1 by auto
  define r2 where "r2 = xsk_ring_prod_submit ?n (?r1\<lparr>xr_ring := es\<rparr>)"
  define q' where "q' = q\<lparr>xq_fill := r2, xq_tx_slot := 0, xq_pending_tx_count := 0\<rparr>"
  have fill: "queue_fill iface q = Some q'" by (simp add: queue_fill_def res es(1) r2_def q'_def Let_def)
  have used: "ring_used r2 = unat ?n" by (simp add: ring_used_def r2_def xsk_ring_prod_submit_def pc)
  have prod: "prod_ok r2"
    using wf used es(2) ok(2) by (simp add: prod_ok_def ring_wf_def) (simp add: r2_def xsk_ring_prod_submit_def)
  have pos2: "ring_pos r2 = ring_pos ?f" by (simp add: ring_pos_def fun_eq_iff r2_def xsk_ring_prod_submit_def)
  have items: "ring_items r2 = map (\<lambda>k. ucast (of_nat k * xi_frame_size iface :: u32)) [0..<unat ?n]"
    unfolding ring_items_def used pos2 using es(3) by (auto simp: r2_def xsk_ring_prod_submit_def pc)
  have frame: "frame_no iface (ucast (of_nat k * xi_frame_size iface :: u32)) = k" if k: "k < unat ?n" for k
  proof -
    have fs: "0 < ?fs" using g by (auto simp: iface_geometry_def word_less_nat_alt)
    have "k * ?fs < unat ?n * ?fs" using k fs by (intro mult_strict_right_mono) auto
    then have lt: "k * ?fs < 2 ^ 32" using small by linarith
    have mul: "unat (x * y) = unat x * unat y" if "unat x * unat y < 2 ^ 32" for x y :: u32
      using that by (simp add: unat_word_ariths)
    have "unat ?n < 2 ^ 32" by (rule order.strict_trans2 [OF unsigned_less]) simp
    then have "k < 2 ^ 32" using k by simp
    then have "unat (of_nat k :: u32) = k" by (simp add: unat_of_nat take_bit_nat_eq_self)
    then have "unat (of_nat k * xi_frame_size iface :: u32) = k * ?fs" using mul [of "of_nat k" "xi_frame_size iface"] lt by simp
    moreover have "unat (ucast w :: u64) = unat w" for w :: u32
    proof -
      have "unat w < 2 ^ 64" by (rule order.strict_trans2 [OF unsigned_less]) simp
      then show ?thesis by (simp add: unsigned_ucast_eq take_bit_nat_eq_self)
    qed
    ultimately show ?thesis using fs by (simp add: frame_no_def)
  qed
  have rx0: "ring_items (xq_rx q) = []" "ring_items (xq_tx q) = []" using ok(4,5) by (simp_all add: ring_items_def)
  have "rx_frames iface q' = [0..<unat ?n]"
    using frame by (simp add: rx_frames_def q'_def rx0 items comp_def) (intro map_idI, simp)
  moreover have "queue_rings_ok iface q'"
    using c prod by (auto simp: queue_created_def queue_rings_ok_def q'_def) (simp add: r2_def xsk_ring_prod_submit_def)
  moreover have "tx_pending_ok iface q'" by (simp add: tx_pending_ok_def q'_def ok(4))
  ultimately have "queue_inv iface (mset [0..<unat ?n]) q'"
    using g by (auto simp: queue_inv_def iface_geometry_def)
  then show ?thesis using fill by (simp add: queue_sent_def q'_def rx0 ok(6))
qed

section \<open>A port\<close>

text \<open>
  A queue together with the addresses of the frames the program has received and not yet given
  back.  The packets of the frames it holds are the threads' inputs.
\<close>

type_synonym port = "xsk_queue \<times> u64 list"

datatype port_event =
    Port_kernel "xsk_queue \<Rightarrow> xsk_queue"
  | Port_recv bool "(xsk_queue \<Rightarrow> xsk_queue) list" u32
  | Port_release nat
  | Port_flush

definition port_step :: "xsk_interface \<Rightarrow> port_event \<Rightarrow> port \<Rightarrow> port option" where
  "port_step iface e s = (case s of (q, held) \<Rightarrow> (case e of
     Port_kernel K \<Rightarrow> Some (K q, held)
   | Port_recv poll_ok ks max_pkts \<Rightarrow> do {
       (ds, q) \<leftarrow> recv_on_queue poll_ok ks max_pkts q;
       Some (q, held @ map fst ds)
     }
   | Port_release n \<Rightarrow> do { q \<leftarrow> release_all (take n held) q; Some (q, drop n held) }
   | Port_flush \<Rightarrow> Some (q\<lparr>xq_pending_tx_count := 0\<rparr>, held)))"

fun port_event_ok :: "xsk_interface \<Rightarrow> port_event \<Rightarrow> bool" where
  "port_event_ok iface (Port_kernel K) \<longleftrightarrow> kernel_ok (unat (xi_frame_size iface)) K"
| "port_event_ok iface (Port_recv poll_ok ks max_pkts) \<longleftrightarrow> kernels_ok iface ks \<and> max_pkts \<noteq> 0"
| "port_event_ok iface (Port_release n) \<longleftrightarrow> True"
| "port_event_ok iface Port_flush \<longleftrightarrow> True"

definition port_send :: "bool \<Rightarrow> xsk_interface \<Rightarrow> (xsk_queue \<Rightarrow> xsk_queue) list \<Rightarrow> buf \<Rightarrow> port \<Rightarrow> (int \<times> port) option" where
  "port_send to_local iface ks pkt s =
     map_option (\<lambda>(ret, q). (ret, (q, snd s)))
       (if to_local then send_to_local_on_queue ks iface pkt (fst s) else send_batch_on_queue ks iface pkt (fst s))"

definition port_frames :: "xsk_interface \<Rightarrow> port \<Rightarrow> nat multiset" where
  "port_frames iface s = mset (rx_frames iface (fst s)) + mset (map (frame_no iface) (snd s))"

definition port_inv :: "xsk_interface \<Rightarrow> nat multiset \<Rightarrow> port \<Rightarrow> bool" where
  "port_inv iface N s \<longleftrightarrow> iface_geometry iface \<and> queue_inv iface (mset (rx_frames iface (fst s))) (fst s) \<and>
     port_frames iface s = N \<and> size N \<le> unat (xi_ring_size iface) \<and> (\<forall>f\<in>#N. f < half_frames iface)"

lemma port_invI:
  assumes "port_inv iface N s" "queue_inv iface M q" "M + mset (map (frame_no iface) held) = N"
  shows "port_inv iface N (q, held)"
proof -
  have "mset (rx_frames iface q) = M" using assms(2) by (simp add: queue_inv_def)
  then show ?thesis using assms by (simp add: port_inv_def port_frames_def)
qed

lemma recv_on_queue_ok:
  assumes g: "iface_geometry iface" and ks: "kernels_ok iface ks" and inv: "queue_inv iface M q" and max: "max_pkts \<noteq> 0"
  obtains ds q' where "recv_on_queue poll_ok ks max_pkts q = Some (ds, q')" "queue_sent q' = queue_sent q"
    "queue_inv iface (M - mset (map (frame_no iface \<circ> fst) ds)) q'" "mset (map (frame_no iface \<circ> fst) ds) \<subseteq># M"
proof -
  obtain ds q1 where r: "rx_take max_pkts q = Some (ds, q1)"
      "queue_inv iface (M - mset (map (frame_no iface \<circ> fst) ds)) q1" "mset (map (frame_no iface \<circ> fst) ds) \<subseteq># M"
      "queue_sent q1 = queue_sent q"
    by (rule rx_take_ok [OF inv max]) (rule that)
  show ?thesis
  proof (cases "ds \<noteq> [] \<or> \<not> poll_ok")
    case True
    then have "recv_on_queue poll_ok ks max_pkts q = Some (ds, q1)" by (auto simp: recv_on_queue_def r(1))
    then show ?thesis using r by (intro that)
  next
    case False
    then have q1: "queue_inv iface M q1" using r(2) by simp
    have turn: "queue_inv iface M (kernel_turn ks q1)" "queue_sent (kernel_turn ks q1) = queue_sent q"
      using kernel_turn_inv [OF g ks q1] r(4) by auto
    obtain ds' q2 where r2: "rx_take max_pkts (kernel_turn ks q1) = Some (ds', q2)"
        "queue_inv iface (M - mset (map (frame_no iface \<circ> fst) ds')) q2" "mset (map (frame_no iface \<circ> fst) ds') \<subseteq># M"
        "queue_sent q2 = queue_sent (kernel_turn ks q1)"
      by (rule rx_take_ok [OF turn(1) max]) (rule that)
    have "recv_on_queue poll_ok ks max_pkts q = Some (ds', q2)" using False by (simp add: recv_on_queue_def r(1) r2(1))
    then show ?thesis using r2 turn by (intro that) auto
  qed
qed

lemma port_step_ok:
  assumes inv: "port_inv iface N s" and e: "port_event_ok iface e"
  shows "\<exists>s'. port_step iface e s = Some s' \<and> port_inv iface N s' \<and> queue_sent (fst s') = queue_sent (fst s)"
proof -
  obtain q held where s: "s = (q, held)" by fastforce
  define M where "M = mset (rx_frames iface q)"
  have g: "iface_geometry iface" and q: "queue_inv iface M q" and N: "M + mset (map (frame_no iface) held) = N"
    and size: "size N \<le> unat (xi_ring_size iface)" and half: "\<forall>f\<in>#N. f < half_frames iface"
    using inv by (auto simp: port_inv_def s port_frames_def M_def)
  note I = port_invI [OF inv]
  show ?thesis
  proof (cases e)
    case (Port_kernel K)
    then have "kernels_ok iface [K]" using e by simp
    then have "queue_inv iface M (K q)" "queue_sent (K q) = queue_sent q"
      using kernel_turn_inv [OF g _ q, of "[K]"] by (auto simp: kernel_turn_def)
    then show ?thesis using I N by (auto simp: Port_kernel port_step_def s)
  next
    case (Port_recv poll_ok ks max_pkts)
    then have k: "kernels_ok iface ks" "max_pkts \<noteq> 0" using e by auto
    obtain ds q' where r: "recv_on_queue poll_ok ks max_pkts q = Some (ds, q')" "queue_sent q' = queue_sent q"
      "queue_inv iface (M - mset (map (frame_no iface \<circ> fst) ds)) q'" "mset (map (frame_no iface \<circ> fst) ds) \<subseteq># M"
      by (rule recv_on_queue_ok [OF g k(1) q k(2)]) (rule that)
    have "M - mset (map (frame_no iface \<circ> fst) ds) + mset (map (frame_no iface) (held @ map fst ds)) = N"
      using r(4) N by (simp add: subset_mset.diff_add_assoc2 [symmetric] ac_simps)
    from I [OF r(3) this] show ?thesis using r(1,2) by (simp add: Port_recv port_step_def s)
  next
    case (Port_release n)
    have sz: "size M + length (take n held) \<le> unat (xi_ring_size iface)" using N size by auto
    have "\<forall>a\<in>set (take n held). frame_no iface a < half_frames iface"
      using half N by (auto dest: in_set_takeD)
    then obtain q' where r: "release_all (take n held) q = Some q'"
        "queue_inv iface (M + mset (map (frame_no iface) (take n held))) q'" "queue_sent q' = queue_sent q"
      using release_all_ok [OF q sz] by auto
    have "mset (map (frame_no iface) held) = mset (map (frame_no iface) (take n held)) + mset (map (frame_no iface) (drop n held))"
      by (metis append_take_drop_id map_append mset_append)
    then show ?thesis using I [OF r(2), of "drop n held"] r N by (simp add: Port_release port_step_def s ac_simps)
  next
    case Port_flush
    then show ?thesis using I [of M "q\<lparr>xq_pending_tx_count := 0\<rparr>" held] q N by (simp add: port_step_def s)
  qed
qed

interpretation port: packet_port "port_inv iface N" "\<lambda>s. queue_sent (fst s)" "\<lambda>p. length p \<le> unat (xi_frame_size iface)"
  "kernels_ok iface" "port_event_ok iface" "port_send to_local iface" "port_step iface"
  for iface :: xsk_interface and N :: "nat multiset" and to_local :: bool
proof unfold_locales
  fix s :: port and ks :: "(xsk_queue \<Rightarrow> xsk_queue) list" and p :: buf and e
  assume inv: "port_inv iface N s"
  then have q: "iface_geometry iface" "queue_inv iface (mset (rx_frames iface (fst s))) (fst s)"
    "mset (rx_frames iface (fst s)) + mset (map (frame_no iface) (snd s)) = N"
    by (auto simp: port_inv_def port_frames_def)
  show "\<exists>ret s'. port_send to_local iface ks p s = Some (ret, s') \<and> ret \<in> {0, -1} \<and> port_inv iface N s' \<and>
      queue_sent (fst s') = (if ret = 0 then queue_sent (fst s) @ [p] else queue_sent (fst s))"
    if ks: "kernels_ok iface ks" and p: "length p \<le> unat (xi_frame_size iface)"
  proof -
    define res where "res = (if to_local then send_to_local_on_queue ks iface p (fst s) else send_batch_on_queue ks iface p (fst s))"
    have "send_ok iface (mset (rx_frames iface (fst s))) (fst s) p res"
      using send_batch_on_queue_ok [OF q(1) ks q(2) p] send_to_local_on_queue_ok [OF q(1) ks q(2) p] by (simp add: res_def)
    then obtain ret q' where "res = Some (ret, q')" "ret \<in> {0, -1}" "queue_inv iface (mset (rx_frames iface (fst s))) q'"
        "queue_sent q' = (if ret = 0 then queue_sent (fst s) @ [p] else queue_sent (fst s))"
      by (auto simp: send_ok_def)
    then show ?thesis using port_invI [OF inv _ q(3)]
      by (intro exI [of _ ret] exI [of _ "(q', snd s)"]) (simp add: port_send_def flip: res_def)
  qed
  show "\<exists>s'. port_step iface e s = Some s' \<and> port_inv iface N s' \<and> queue_sent (fst s') = queue_sent (fst s)"
    if "port_event_ok iface e" using port_step_ok [OF inv that] .
qed

section \<open>Properties\<close>

text \<open>The fields that \<^verbatim>\<open>interface_init_local\<close> takes from the configuration.\<close>

definition interface_of_local :: "local_config \<Rightarrow> xsk_interface" where
  "interface_of_local l =
     \<lparr>xi_umem_size = unat (lc_umem_mb l) * 1024 * 1024, xi_ring_size = lc_ring_size l, xi_frame_size = lc_frame_size l,
      xi_batch_size = lc_batch_size l, xi_queues = [], xi_src_mac = lc_src_mac l, xi_dst_mac = lc_dst_mac l,
      xi_rx_packets = 0, xi_tx_packets = 0, xi_tx_bytes = 0\<rparr>"

lemma umem_halves:
  assumes "2 ^ a * 2 * 2 ^ b div 2 ^ 20 \<le> (2 ^ c :: nat)"
  shows "a + 1 + b \<le> c + 20"
proof (cases "a + 1 + b < 20")
  case False
  then have "(2 :: nat) ^ (a + 1 + b) = 2 ^ (a + 1 + b - 20) * 2 ^ 20"
    by (subst power_add [symmetric]) simp
  moreover have "(2 :: nat) ^ a * 2 * 2 ^ b = 2 ^ (a + 1 + b)" by (simp add: power_add)
  ultimately have "(2 :: nat) ^ a * 2 * 2 ^ b = 2 ^ (a + 1 + b - 20) * 2 ^ 20" by simp
  then have "2 ^ (a + 1 + b - 20) \<le> (2 ^ c :: nat)" using assms by simp
  then show ?thesis using False by simp
qed simp

text \<open>The geometry of the queues of a validated interface whose sizes are powers of two: a ring fits
  into either half of the frames, so no frame is used for receiving and for sending, as long as
  the product of ring and frame size fits in 32 bits and there are fewer than \<open>2 ^ 32\<close> frames.\<close>

theorem validated_interface_geometry:
  assumes ok: "config_validate cfg = Inr ()" "i < length (ac_locals cfg)"
  defines "l \<equiv> ac_locals cfg ! i"
  assumes sizes: "unat (lc_ring_size l) = 2 ^ a" "unat (lc_frame_size l) = 2 ^ b" "unat (lc_umem_mb l) = 2 ^ c"
    and small: "a + 1 + b < 32" "c + 20 - b < 32" "b < c + 20" "b < 20"
  shows "iface_geometry (interface_of_local l) \<and>
    unat (lc_ring_size l) * unat (lc_frame_size l) \<le> half_frames (interface_of_local l) * unat (lc_frame_size l) \<and>
    2 * half_frames (interface_of_local l) * unat (lc_frame_size l) \<le> unat (lc_umem_mb l) * 2 ^ 20"
proof -
  have "(2 :: nat) ^ a * 2 * 2 ^ b = 2 ^ (a + 1 + b)" by (simp add: power_add)
  also have "\<dots> < 2 ^ 32" using small(1) by (intro power_strict_increasing) auto
  finally have fits: "unat (lc_ring_size l) * 2 * unat (lc_frame_size l) < 2 ^ 32" unfolding sizes .
  have "2 ^ a * 2 * 2 ^ b div 2 ^ 20 \<le> (2 ^ c :: nat)"
    using config_validate_local_memory [OF ok, folded l_def, OF fits] unfolding sizes by blast
  from umem_halves [OF this] have a: "a \<le> c + 20 - b - 1" using small(3) by simp
  have "unat (lc_umem_mb l) * 1024 * 1024 = 2 ^ (c + 20)" by (simp add: sizes power_add)
  then have frames: "unat (lc_umem_mb l) * 1024 * 1024 div unat (lc_frame_size l) = 2 ^ (c + 20 - b)"
    using small(3) by (simp add: sizes power_diff)
  moreover have "(2 :: nat) ^ (c + 20 - b) = 2 * 2 ^ (c + 20 - b - 1)" using small(3) by (simp flip: power_Suc)
  ultimately have half: "half_frames (interface_of_local l) = 2 ^ (c + 20 - b - 1)"
    by (simp add: half_frames_def interface_of_local_def)
  have "(2 :: nat) ^ (c + 20 - b) < 2 ^ 32" using small(2) by (intro power_strict_increasing) auto
  moreover have "(2 :: nat) ^ (c + 20 - b - 1) dvd 2 ^ 64" using small(2) by (intro le_imp_power_dvd) auto
  moreover have "(2 :: nat) ^ a \<le> 2 ^ (c + 20 - b - 1)" using a by simp
  moreover have "0 < lc_frame_size l" using sizes(2) by (simp add: word_less_nat_alt)
  ultimately have "iface_geometry (interface_of_local l)"
    unfolding iface_geometry_def half using frames sizes by (simp add: interface_of_local_def)
  moreover have "2 * (2 :: nat) ^ (c + 20 - b - 1) * 2 ^ b = 2 ^ c * 2 ^ 20"
    using small(3) by (simp flip: power_add power_Suc add: ac_simps) (simp add: power_add)
  ultimately show ?thesis using a by (simp add: half sizes)
qed

theorem validated_interface_geometry_witness:
  "iface_geometry (interface_of_local sample_local)"
proof -
  have "config_validate sample_cfg = Inr ()"
    by (simp add: config_validate_def sample_defs validate_local_def validate_wan_def min_umem_mb_def)
  then show ?thesis
    using validated_interface_geometry [of sample_cfg 0 18 12 11] by (simp add: sample_defs)
qed

text \<open>A run of sends and events on a port; the second component has the packets whose send reported
  success.\<close>

type_synonym port_op = "((xsk_queue \<Rightarrow> xsk_queue) list \<times> buf) + port_event"

definition port_run :: "bool \<Rightarrow> xsk_interface \<Rightarrow> port_op list \<Rightarrow> port \<Rightarrow> (port \<times> buf list) option" where
  "port_run to_local iface ops s =
     foldl (\<lambda>r op. Option.bind r (\<lambda>(s, acc). case op of
          Inl (ks, pkt) \<Rightarrow> map_option (\<lambda>(ret, s). (s, if ret = 0 then acc @ [pkt] else acc)) (port_send to_local iface ks pkt s)
        | Inr e \<Rightarrow> map_option (\<lambda>s. (s, acc)) (port_step iface e s))) (Some (s, [])) ops"

definition port_op_ok :: "xsk_interface \<Rightarrow> port_op \<Rightarrow> bool" where
  "port_op_ok iface op \<longleftrightarrow> (case op of
     Inl (ks, pkt) \<Rightarrow> kernels_ok iface ks \<and> length pkt \<le> unat (xi_frame_size iface) | Inr e \<Rightarrow> port_event_ok iface e)"


text \<open>A small interface: frames of 16 bytes, rings of two entries, eight frames.\<close>

definition sample_ring :: "'a \<Rightarrow> 'a xsk_ring" where
  "sample_ring x = \<lparr>xr_cached_prod = 0, xr_cached_cons = 0, xr_mask = 1, xr_size = 2, xr_producer = 0, xr_consumer = 0,
     xr_ring = [x, x]\<rparr>"

definition sample_iface :: xsk_interface where
  "sample_iface = \<lparr>xi_umem_size = 128, xi_ring_size = 2, xi_frame_size = 16, xi_batch_size = 2, xi_queues = [],
     xi_src_mac = [], xi_dst_mac = [], xi_rx_packets = 0, xi_tx_packets = 0, xi_tx_bytes = 0\<rparr>"

definition sample_queue :: xsk_queue where
  "sample_queue = \<lparr>xq_bufs = replicate 128 0, xq_fill = (sample_ring 0)\<lparr>xr_cached_cons := 2\<rparr>, xq_comp = sample_ring 0,
     xq_tx = (sample_ring (0, 0))\<lparr>xr_cached_cons := 2\<rparr>, xq_rx = sample_ring (0, 0), xq_tx_slot = 0,
     xq_pending_tx_count = 0, xq_tx_wait_loops = 0, xq_nic = []\<rparr>"

lemma sample_ring_wf: "ring_wf (sample_ring x)" "ring_wf ((sample_ring x)\<lparr>xr_cached_cons := c\<rparr>)"
  by (auto simp: ring_wf_def sample_ring_def ring_used_def intro!: exI [of _ 1])


end
