(* ===== verification/Flow.thy ===== *)
theory Flow
  imports FlowTable Layer4
begin

text \<open>
  Parsing the flow of a packet and choosing its WAN link, \<^verbatim>\<open>src/src/core/forwarder.c\<close>; the sizes
  of the WAN windows that the flow table works with.
\<close>

section \<open>Parsing\<close>

type_synonym flow5 = "u32 \<times> u32 \<times> u16 \<times> u16 \<times> byte"

text \<open>\<^term>\<open>Some None\<close> stands for the return value -1.\<close>

definition parse_flow :: "buf \<Rightarrow> nat \<Rightarrow> flow5 option option" where
  "parse_flow pkt pkt_len = do {
     l3 \<leftarrow> crypto_eth_ipv4_offset pkt pkt_len;
     let l3_off = nat l3;
     if l3 < 0 then Some None
     else if pkt_len < l3_off + 20 then Some None
     else do {
       src_ip \<leftarrow> rd32 pkt (l3_off + 12);
       dst_ip \<leftarrow> rd32 pkt (l3_off + 16);
       protocol \<leftarrow> rd pkt (l3_off + 9);
       b \<leftarrow> rd pkt l3_off;
       let ip_hdr_len = ihl_bytes b;
       let transport = l3_off + ip_hdr_len;
       if ip_hdr_len < 20 then Some None
       else if protocol = 6 \<or> protocol = 17 then
         (if pkt_len < transport + (if protocol = 6 then 20 else 8) then Some None
          else do {
            src_port \<leftarrow> rd16 pkt transport;
            dst_port \<leftarrow> rd16 pkt (transport + 2);
            Some (Some (src_ip, dst_ip, src_port, dst_port, protocol))
          })
       else Some (Some (src_ip, dst_ip, 0, 0, protocol))
     }
   }"

definition tcp_ipv4_tcp_flags :: "buf \<Rightarrow> nat \<Rightarrow> byte option option" where
  "tcp_ipv4_tcp_flags pkt pkt_len = do {
     l3 \<leftarrow> crypto_eth_ipv4_offset pkt pkt_len;
     let l3_off = nat l3;
     if l3 < 0 \<or> pkt_len < l3_off + 20 then Some None
     else do {
       protocol \<leftarrow> rd pkt (l3_off + 9);
       b \<leftarrow> rd pkt l3_off;
       let ip_hdr_len = ihl_bytes b;
       if protocol \<noteq> 6 then Some None
       else if ip_hdr_len < 20 then Some None
       else if pkt_len < l3_off + ip_hdr_len + 14 then Some None
       else map_option Some (rd pkt (l3_off + ip_hdr_len + 13))
     }
   }"

text \<open>Zero stands for no address.\<close>

definition get_dest_ip :: "buf \<Rightarrow> nat \<Rightarrow> u32 option" where
  "get_dest_ip pkt pkt_len =
     (if pkt_len < 34 then Some 0
      else do {
        ether_type \<leftarrow> rd16 pkt 12;
        if ether_type \<noteq> 0x0800 then Some 0 else rd32 pkt 30
      })"

section \<open>Choosing a WAN link\<close>

definition pkt_l2_sig :: "buf \<Rightarrow> nat \<Rightarrow> u32 option" where
  "pkt_l2_sig p len =
     map_option (foldl (\<lambda>h b. (h * 16777619) XOR ucast b) (2166136261 XOR of_nat len)) (rdn p 0 (min len 192))"

definition flow_hash_local_tq :: "u32 \<Rightarrow> u32 \<Rightarrow> u16 \<Rightarrow> u16 \<Rightarrow> byte \<Rightarrow> u32" where
  "flow_hash_local_tq src_ip dst_ip src_port dst_port protocol =
     (let h = src_ip XOR dst_ip;
          h = h XOR (push_bit 16 (ucast src_port) OR ucast dst_port);
          h = h XOR ucast protocol;
          h = h XOR drop_bit 16 h;
          h = h * 0x85ebca6b;
          h = h XOR drop_bit 13 h;
          h = h * 0xc2b2ae35
      in h XOR drop_bit 16 h)"

text \<open>The loop that collects the usable links of a profile with their weights.\<close>

definition usable_wans :: "app_config \<Rightarrow> profile_config \<Rightarrow> (int \<times> int) list" where
  "usable_wans cfg p =
     (let any_weight = (\<exists>w \<in> set (pr_wan_bandwidth_weight p). w > 0)
      in take MAX_INTERFACES
           (filter (\<lambda>(wi, w). 0 \<le> wi \<and> wi < int (length (ac_wans cfg)) \<and> (any_weight \<longrightarrow> w > 0))
             (zip (pr_wan_indices p) (pr_wan_bandwidth_weight p))))"

definition select_wan_idx_for_packet ::
    "u64 \<Rightarrow> bool \<Rightarrow> app_config \<Rightarrow> flow_table \<Rightarrow> int \<Rightarrow> flow5 \<Rightarrow> u32 \<Rightarrow> (int \<times> flow_table) option" where
  "select_wan_idx_for_packet now malloc_ok cfg ft local_idx flow pkt_len =
     (let (src_ip, dst_ip, src_port, dst_port, protocol) = flow;
          otherwise = flow_table_get_wan now malloc_ok ft src_ip dst_ip src_port dst_port protocol pkt_len
      in case config_select_profile_for_local cfg local_idx of
        None \<Rightarrow> otherwise
      | Some pi \<Rightarrow>
          let p = ac_profiles cfg ! pi
          in if 1 < length (pr_wan_indices p)
             then let us = usable_wans cfg p
               in if length us = 1 then Some (fst (us ! 0), ft)
                  else if 1 < length us
                  then Some (flow_table_pick_wan_per_packet ft (map fst us)
                    (if \<exists>w \<in> set (pr_wan_bandwidth_weight p). w > 0 then Some (map snd us) else None))
                  else otherwise
             else if length (pr_wan_indices p) = 1
             then let wi = pr_wan_indices p ! 0
               in if 0 \<le> wi \<and> wi < int (length (ac_wans cfg)) then Some (wi, ft) else otherwise
             else otherwise)"

text \<open>Packets without a flow are spread by a hash of their first bytes.\<close>

definition select_wan_idx_nonip_flow ::
    "u64 \<Rightarrow> bool \<Rightarrow> app_config \<Rightarrow> flow_table \<Rightarrow> int \<Rightarrow> buf \<Rightarrow> nat \<Rightarrow> (int \<times> flow_table) option" where
  "select_wan_idx_nonip_flow now malloc_ok cfg ft local_idx pkt pkt_len = do {
     h \<leftarrow> pkt_l2_sig pkt pkt_len;
     select_wan_idx_for_packet now malloc_ok cfg ft local_idx
       (htonl 0xc0000201, htonl 0xc0000202, ucast h, ucast (drop_bit 16 h), 253) (of_nat pkt_len)
   }"

text \<open>Both cases, with the correction of an index out of range.\<close>

definition choose_wan ::
    "u64 \<Rightarrow> bool \<Rightarrow> app_config \<Rightarrow> flow_table \<Rightarrow> int \<Rightarrow> flow5 option \<Rightarrow> buf \<Rightarrow> nat \<Rightarrow> int \<Rightarrow> (int \<times> flow_table) option" where
  "choose_wan now malloc_ok cfg ft local_idx flow pkt pkt_len wan_count = do {
     (wan_idx, ft) \<leftarrow> (case flow of
        Some f \<Rightarrow> select_wan_idx_for_packet now malloc_ok cfg ft local_idx f (of_nat pkt_len)
      | None \<Rightarrow> select_wan_idx_nonip_flow now malloc_ok cfg ft local_idx pkt pkt_len);
     Some (if wan_idx < 0 \<or> wan_count \<le> wan_idx then 0 else wan_idx, ft)
   }"

section \<open>Window sizes\<close>

definition clamp_u32 :: "u32 \<Rightarrow> u32 \<Rightarrow> u32 \<Rightarrow> u32" where
  "clamp_u32 v lo hi = (if v < lo then lo else if v > hi then hi else v)"

definition window_of :: "int \<Rightarrow> int \<Rightarrow> u32" where
  "window_of w sumw =
     (let base_bytes = 10240 * 1024;
          scaled = (ucast (base_bytes :: u32) * word_of_int w :: u64) div word_of_int sumw;
          win = (if scaled > 0xFFFFFFFF then 0xFFFFFFFF else ucast scaled)
      in clamp_u32 win (512 * 1024) base_bytes)"

definition set_window :: "int \<Rightarrow> int \<Rightarrow> u32 list \<Rightarrow> int \<times> int \<Rightarrow> u32 list" where
  "set_window max_wans sumw out x = (case x of (wan_idx, w) \<Rightarrow>
     if wan_idx < 0 \<or> wan_idx \<ge> max_wans then out
     else if w \<le> 0 then out
     else out[nat wan_idx := window_of w sumw])"

definition profile_windows :: "int \<Rightarrow> u32 list \<Rightarrow> profile_config \<Rightarrow> u32 list" where
  "profile_windows max_wans out p =
     (if \<not> pr_enabled p \<or> pr_wan_indices p = [] then out
      else let sumw = pos_sum (pr_wan_bandwidth_weight p)
        in if sumw \<le> 0 then out
           else foldl (set_window max_wans sumw) out (zip (pr_wan_indices p) (pr_wan_bandwidth_weight p)))"

definition compute_profile_weighted_wan_windows :: "app_config \<Rightarrow> u32 list \<Rightarrow> int \<Rightarrow> u32 list" where
  "compute_profile_weighted_wan_windows cfg out max_wans =
     (if max_wans \<le> 0 then out else foldl (profile_windows max_wans) out (ac_profiles cfg))"

section \<open>The chosen link\<close>

text \<open>The links a profile allows for a LAN interface; none when no profile covers it.\<close>

definition allowed_wans :: "app_config \<Rightarrow> int \<Rightarrow> int set" where
  "allowed_wans cfg local_idx = (case config_select_profile_for_local cfg local_idx of
     None \<Rightarrow> {} | Some pi \<Rightarrow> fst ` set (usable_wans cfg (ac_profiles cfg ! pi)))"

lemma usable_wans_range: "x \<in> set (usable_wans cfg p) \<Longrightarrow> 0 \<le> fst x \<and> fst x < int (length (ac_wans cfg))"
  by (auto simp: usable_wans_def Let_def dest!: in_set_takeD)

lemma pick_wan_mem:
  assumes "flow_table_pick_wan_per_packet ft ws weights = (w, ft')" and "ws \<noteq> []"
  shows "w \<in> set ws" and "ft' = ft\<lparr>ft_pkt_wrr_seq := ft_pkt_wrr_seq ft'\<rparr>"
  using assms wrr_slot_to_wan_mem
  by (auto simp: flow_table_pick_wan_per_packet_def Let_def split: if_splits)

lemma flow_inv_wrr_seq [simp]: "flow_inv (ft\<lparr>ft_pkt_wrr_seq := n\<rparr>) = flow_inv ft"
  by (simp add: flow_inv_def)

lemma usable_single:
  assumes "pr_wan_indices p = [wi]" "length (pr_wan_bandwidth_weight p) = 1" "0 \<le> wi" "wi < int (length (ac_wans cfg))"
  shows "fst ` set (usable_wans cfg p) = {wi}"
  using assms by (auto simp: usable_wans_def Let_def length_Suc_conv)

lemma usable_single_none:
  assumes "length (pr_wan_indices p) = 1" "length (pr_wan_bandwidth_weight p) = 1"
    "\<not> (0 \<le> pr_wan_indices p ! 0 \<and> pr_wan_indices p ! 0 < int (length (ac_wans cfg)))"
  shows "usable_wans cfg p = []"
  using assms by (auto simp: usable_wans_def Let_def length_Suc_conv)

text \<open>What the choice guarantees: the index is that of a link, it is an allowed one when the profile
  has any, and the flow table stays well formed.\<close>

definition wan_choice_ok :: "app_config \<Rightarrow> int \<Rightarrow> flow_table \<Rightarrow> int \<times> flow_table \<Rightarrow> bool" where
  "wan_choice_ok cfg local_idx ft r \<longleftrightarrow> (case r of (w, ft') \<Rightarrow>
     0 \<le> w \<and> w < int (length (ac_wans cfg)) \<and> flow_inv ft' \<and> ft_wan_count ft' = ft_wan_count ft \<and>
     (allowed_wans cfg local_idx \<noteq> {} \<longrightarrow> w \<in> allowed_wans cfg local_idx))"

lemma select_wan_idx_ok:
  assumes inv: "flow_inv ft" and n: "ft_wan_count ft = int (length (ac_wans cfg))"
    and wf: "\<forall>p \<in> set (ac_profiles cfg). length (pr_wan_bandwidth_weight p) = length (pr_wan_indices p)"
    and run: "select_wan_idx_for_packet now m cfg ft local_idx f len = Some r"
  shows "wan_choice_ok cfg local_idx ft r"
proof -
  obtain s d sp dp proto where f: "f = (s, d, sp, dp, proto)" by (metis prod_cases5)
  obtain w ft' where r: "r = (w, ft')" by fastforce
  have other: "wan_choice_ok cfg local_idx ft r"
    if "flow_table_get_wan now m ft s d sp dp proto len = Some r" "allowed_wans cfg local_idx = {}"
    using flow_table_get_wan_inv [OF inv, of now m s d sp dp proto len w ft'] that n r by (simp add: wan_choice_ok_def)
  show ?thesis
  proof (cases "config_select_profile_for_local cfg local_idx")
    case None
    then show ?thesis using run f other by (simp add: select_wan_idx_for_packet_def allowed_wans_def)
  next
    case (Some pi)
    define p where "p = ac_profiles cfg ! pi"
    have "pi < length (ac_profiles cfg)"
      using Some by (auto simp: config_select_profile_for_local_def find_upt_Some_iff split: if_splits)
    then have p: "length (pr_wan_bandwidth_weight p) = length (pr_wan_indices p)" using wf by (simp add: p_def)
    have al: "allowed_wans cfg local_idx = fst ` set (usable_wans cfg p)" using Some by (simp add: allowed_wans_def p_def)
    let ?us = "usable_wans cfg p"
    have mem: "wan_choice_ok cfg local_idx ft r"
      if "w \<in> fst ` set ?us" "ft' = ft\<lparr>ft_pkt_wrr_seq := ft_pkt_wrr_seq ft'\<rparr>"
    proof -
      have "flow_inv ft'" "ft_wan_count ft' = ft_wan_count ft"
        by (subst that(2), simp add: inv, subst that(2), simp)
      then show ?thesis using that(1) al r usable_wans_range by (auto simp: wan_choice_ok_def)
    qed
    consider (many) "1 < length (pr_wan_indices p)" | (one) "length (pr_wan_indices p) = 1" | (none) "pr_wan_indices p = []"
      by (metis One_nat_def length_0_conv less_one linorder_neqE_nat)
    then show ?thesis
    proof cases
      case many
      consider "length ?us = 1" | "1 < length ?us" | "?us = []"
        by (metis One_nat_def length_0_conv less_one linorder_neqE_nat)
      then show ?thesis
      proof cases
        case 1
        then have "w = fst (?us ! 0)" "ft' = ft" using run f Some many r
          by (auto simp: select_wan_idx_for_packet_def Let_def p_def [symmetric])
        then show ?thesis using mem 1 by (metis One_nat_def image_eqI lessI nth_mem old.unit.exhaust flow_table.surjective flow_table.update_convs(5))
      next
        case 2
        then have "flow_table_pick_wan_per_packet ft (map fst ?us)
             (if \<exists>w \<in> set (pr_wan_bandwidth_weight p). w > 0 then Some (map snd ?us) else None) = (w, ft')"
          using run f Some many r by (auto simp: select_wan_idx_for_packet_def Let_def p_def [symmetric])
        from pick_wan_mem [OF this] 2 show ?thesis using mem by fastforce
      next
        case 3
        then show ?thesis using run f Some many other al
          by (simp add: select_wan_idx_for_packet_def Let_def p_def [symmetric])
      qed
    next
      case one
      show ?thesis
      proof (cases "0 \<le> pr_wan_indices p ! 0 \<and> pr_wan_indices p ! 0 < int (length (ac_wans cfg))")
        case True
        have "fst ` set ?us = {pr_wan_indices p ! 0}"
          by (rule usable_single) (use one p True in \<open>auto simp: length_Suc_conv\<close>)
        moreover have "w = pr_wan_indices p ! 0" "ft' = ft" using run f Some one True r
          by (auto simp: select_wan_idx_for_packet_def Let_def p_def [symmetric])
        ultimately show ?thesis using mem by simp
      next
        case False
        then have "?us = []" using usable_single_none one p by simp
        then show ?thesis using run f Some one False other al
          by (simp add: select_wan_idx_for_packet_def Let_def p_def [symmetric])
      qed
    next
      case none
      then have "?us = []" by (simp add: usable_wans_def)
      then show ?thesis using run f Some none other al
        by (simp add: select_wan_idx_for_packet_def Let_def p_def [symmetric])
    qed
  qed
qed

lemma choose_wan_ok:
  assumes "flow_inv ft" "ft_wan_count ft = int (length (ac_wans cfg))"
    and "\<forall>p \<in> set (ac_profiles cfg). length (pr_wan_bandwidth_weight p) = length (pr_wan_indices p)"
    and run: "choose_wan now m cfg ft local_idx flow pkt len (int (length (ac_wans cfg))) = Some r"
  shows "wan_choice_ok cfg local_idx ft r"
proof -
  obtain f len' w ft' where s: "select_wan_idx_for_packet now m cfg ft local_idx f len' = Some (w, ft')"
    and r: "r = (if w < 0 \<or> int (length (ac_wans cfg)) \<le> w then 0 else w, ft')"
    using run by (cases flow) (auto simp: choose_wan_def select_wan_idx_nonip_flow_def split: bind_splits)
  have "wan_choice_ok cfg local_idx ft (w, ft')" by (rule select_wan_idx_ok [OF assms(1-3) s])
  then show ?thesis using r by (auto simp: wan_choice_ok_def)
qed

section \<open>The window sizes\<close>

lemma window_of_value:
  assumes "0 < w" "w \<le> sumw" "sumw < 2 ^ 31"
  shows "unat (window_of w sumw) = max 524288 (nat (10485760 * w div sumw))"
proof -
  define q where "q = nat (10485760 * w div sumw)"
  have "10485760 * w div sumw \<le> 10485760 * sumw div sumw"
    using assms by (intro zdiv_mono1) auto
  then have q: "q \<le> 10485760" using assms by (simp add: q_def)
  have "uint (word_of_int w :: u64) = w" "uint (word_of_int sumw :: u64) = sumw"
    using assms by (simp_all add: uint_word_of_int_eq take_bit_int_eq_self)
  then have "uint ((10485760 * word_of_int w :: u64) div word_of_int sumw) = 10485760 * w div sumw"
    using assms by (simp add: uint_div uint_word_ariths)
  then have sc: "unat ((10485760 * word_of_int w :: u64) div word_of_int sumw) = q"
    by (simp add: unat_eq_nat_uint q_def)
  then have small: "\<not> (10485760 * word_of_int w :: u64) div word_of_int sumw > 0xFFFFFFFF"
    using q by (simp add: word_less_nat_alt)
  have "unat (ucast ((10485760 * word_of_int w :: u64) div word_of_int sumw) :: u32) = q"
    using sc q by (simp add: unsigned_ucast_eq take_bit_nat_eq_self)
  then show ?thesis using small q
    by (simp add: window_of_def Let_def clamp_u32_def word_less_nat_alt q_def [symmetric])
qed

text \<open>A profile whose links are distinct gives each of them its share of the window.\<close>

lemma set_window_nth:
  assumes "i < length out"
  shows "set_window n sumw out (wi, w) ! i =
    (if int i = wi \<and> wi < n \<and> 0 < w then window_of w sumw else out ! i)"
  using assms by (auto simp: set_window_def nth_list_update)

lemma length_set_window [simp]: "length (set_window n sumw out x) = length out"
  by (simp add: set_window_def split: prod.split)

lemma set_windows_nth:
  assumes "i < length out" "distinct (map fst xs)"
  shows "foldl (set_window n sumw) out xs ! i = (case map_of xs (int i) of
     Some w \<Rightarrow> if int i < n \<and> 0 < w then window_of w sumw else out ! i | None \<Rightarrow> out ! i)"
  using assms
proof (induction xs arbitrary: out)
  case (Cons x xs)
  obtain wi w where x: "x = (wi, w)" by fastforce
  have "map_of xs wi = None" using Cons.prems x by (simp add: map_of_eq_None_iff)
  then show ?case using Cons x by (auto simp: set_window_nth split: option.split)
qed simp

lemma pos_sum_ge: "w \<in> set ws \<Longrightarrow> w \<le> pos_sum ws"
proof (induction ws)
  case (Cons a ws)
  then have "w = a \<or> w \<le> pos_sum ws" by auto
  then show ?case using order_trans [of a 0 "pos_sum ws"] by auto
qed simp

text \<open>C32: Each link of a profile gets its share of the window of ten megabytes, rounded down, and
  never less than half a megabyte; links that the profile does not name or gives no weight keep
  what they had.\<close>

theorem profile_windows_share:
  assumes "pr_enabled p" "distinct (pr_wan_indices p)"
    and "length (pr_wan_bandwidth_weight p) = length (pr_wan_indices p)"
    and "pos_sum (pr_wan_bandwidth_weight p) < 2 ^ 31" "i < length out"
  shows "(\<forall>j < length (pr_wan_indices p). pr_wan_indices p ! j = int i \<and> 0 < pr_wan_bandwidth_weight p ! j \<and> int i < n \<longrightarrow>
      unat (profile_windows n out p ! i) = max 524288 (nat (10485760 * pr_wan_bandwidth_weight p ! j
        div pos_sum (pr_wan_bandwidth_weight p)))) \<and>
    ((\<forall>j < length (pr_wan_indices p). pr_wan_indices p ! j = int i \<longrightarrow> pr_wan_bandwidth_weight p ! j \<le> 0) \<longrightarrow>
      profile_windows n out p ! i = out ! i)"
proof -
  let ?ws = "pr_wan_bandwidth_weight p" and ?is = "pr_wan_indices p"
  define s where "s = pos_sum ?ws"
  have d: "distinct (map fst (zip ?is ?ws))" using assms(2,3) by simp
  show ?thesis
  proof (cases "0 < s")
    case False
    have "?ws ! j \<le> 0" if "j < length ?is" for j using pos_sum_ge [of "?ws ! j" ?ws] that assms(3) False by (simp add: s_def)
    then show ?thesis using False by (fastforce simp: profile_windows_def s_def Let_def)
  next
    case True
    then have "?is \<noteq> []" using assms(3) by (auto simp: s_def)
    then have v: "profile_windows n out p ! i = (case map_of (zip ?is ?ws) (int i) of
        Some w \<Rightarrow> if int i < n \<and> 0 < w then window_of w s else out ! i | None \<Rightarrow> out ! i)"
      using True assms(1,5) set_windows_nth [OF assms(5) d] by (simp add: profile_windows_def s_def [symmetric] Let_def)
    have m: "map_of (zip ?is ?ws) (int i) = Some (?ws ! j)" if "j < length ?is" "?is ! j = int i" for j
      using map_of_zip_nth [OF assms(3) [symmetric] assms(2), of j] that assms(3) by simp
    have "map_of (zip ?is ?ws) (int i) = Some w \<Longrightarrow> \<exists>j < length ?is. ?is ! j = int i \<and> ?ws ! j = w" for w
      using assms(3) by (fastforce dest!: map_of_SomeD simp: set_zip)
    then have "profile_windows n out p ! i = out ! i"
      if "\<forall>j < length ?is. ?is ! j = int i \<longrightarrow> ?ws ! j \<le> 0"
      using v that by (fastforce split: option.split)
    moreover have "unat (window_of (?ws ! j) s) = max 524288 (nat (10485760 * ?ws ! j div s))"
      if "j < length ?is" "0 < ?ws ! j" for j
      using window_of_value [of "?ws ! j" s] pos_sum_ge [of "?ws ! j" ?ws] that assms(3,4) by (simp add: s_def)
    ultimately show ?thesis using v m unfolding s_def [symmetric] by simp
  qed
qed

theorem profile_windows_share_witness:
  "unat (profile_windows 2 [0, 0] (sample_profile\<lparr>pr_enabled := True, pr_wan_indices := [1, 0],
     pr_wan_bandwidth_weight := [30, 10]\<rparr>) ! 1) = 7864320"
  using profile_windows_share [of "sample_profile\<lparr>pr_enabled := True, pr_wan_indices := [1, 0],
     pr_wan_bandwidth_weight := [30, 10]\<rparr>" 1 "[0, 0]" 2] by (auto dest: spec [of _ 0])

text \<open>The link chosen for a LAN packet is always one of the configured links, and one that the
  profile of the interface allows when it allows any; the flow table stays well formed.\<close>

theorem chosen_wan_allowed:
  assumes "flow_inv ft" "ft_wan_count ft = int (length (ac_wans cfg))"
    and "\<forall>p \<in> set (ac_profiles cfg). length (pr_wan_bandwidth_weight p) = length (pr_wan_indices p)"
    and "choose_wan now m cfg ft local_idx flow pkt len (int (length (ac_wans cfg))) = Some (w, ft')"
  shows "0 \<le> w \<and> w < int (length (ac_wans cfg)) \<and> flow_inv ft' \<and>
    (allowed_wans cfg local_idx \<noteq> {} \<longrightarrow> w \<in> allowed_wans cfg local_idx)"
  using choose_wan_ok [OF assms] by (simp add: wan_choice_ok_def)


theorem chosen_wan_allowed_witness:
  "\<exists>w ft'. choose_wan 5 True sample_cfg (flow_table_init (Some (replicate 16 1000)) 2 0) 0
      (Some (1, 2, 3, 4, 17)) [] 100 2 = Some (w, ft') \<and> 0 \<le> w \<and> w < 2"
proof -
  let ?ft = "flow_table_init (Some (replicate 16 1000)) 2 0"
  obtain w0 ft0 where p: "flow_table_pick_wan_per_packet ?ft [0, 1] (Some [3, 1]) = (w0, ft0)" by fastforce
  then obtain w ft' where r: "choose_wan 5 True sample_cfg ?ft 0 (Some (1, 2, 3, 4, 17)) [] 100 2 = Some (w, ft')"
    by (simp add: choose_wan_def select_wan_idx_for_packet_def sample_defs config_select_profile_for_local_def
        usable_wans_def)
  have "flow_inv ?ft" using flow_reachable_inv [OF flow_reachable.init [of "replicate 16 1000"]] by simp
  then show ?thesis
    using chosen_wan_allowed [of ?ft sample_cfg 5 True 0 "Some (1, 2, 3, 4, 17)" "[]" 100 w ft'] r
    by (simp add: sample_defs flow_table_init_def)
qed

end
