(* ===== verification/Forwarder.thy ===== *)
theory Forwarder
  imports Flow Fragment Runtime PolicyPin ArpCache Xsk Ring
begin

text \<open>
  The state that the packet threads of \<^verbatim>\<open>src/src/core/forwarder.c\<close> share, and what the worker does
  with a LAN packet, one packet per step.

  The state holds what the threads share.  A packet is the memory from its first byte to the
  end of its frame, changed in place.  What the environment decides during a step, clocks,
  allocations, the kernel's moves and the contents of uninitialised buffers, is a record of its
  own.  Diagnostic output is not modelled.
\<close>

section \<open>State\<close>

record forwarder =
  fw_cfg :: app_config
  fw_rt :: crypto_runtime
  fw_cs :: crypto_state
  fw_flows :: flow_table
  fw_pins :: pin_table
  fw_arp :: "arp_cache list"
  fw_wan_arp :: "arp_cache list"
  fw_frag_l2 :: frag_table
  fw_frag_l3 :: frag_table
  fw_frag_l4 :: frag_table
  fw_pkt_id :: u64
  fw_locals :: "xsk_interface list"
  fw_wans :: "xsk_interface list"
  fw_arp_requests :: "buf list"
  fw_local_to_wan :: u64
  fw_wan_to_local :: u64
  fw_total_dropped :: u64
  fw_dropped_bad_ip :: u64
  fw_dropped_no_local_match :: u64
  fw_dropped_local_tx_fail :: u64

type_synonym kernel_turns = "(xsk_queue \<Rightarrow> xsk_queue) list"

record packet_env =
  pe_flow_now :: u64
  pe_flow_malloc_ok :: bool
  pe_pin_now :: u64
  pe_pin_malloc_ok :: bool
  pe_turns1 :: kernel_turns
  pe_turns2 :: kernel_turns
  pe_f1 :: buf
  pe_f2 :: buf

definition count_dropped :: "forwarder \<Rightarrow> forwarder" where
  "count_dropped fw = fw\<lparr>fw_total_dropped := fw_total_dropped fw + 1\<rparr>"

section \<open>Addresses and sending\<close>

definition note_request :: "buf option \<Rightarrow> forwarder \<Rightarrow> forwarder" where
  "note_request r fw = (case r of None \<Rightarrow> fw | Some b \<Rightarrow> fw\<lparr>fw_arp_requests := fw_arp_requests fw @ [b]\<rparr>)"

definition set_wan_l2_addrs :: "int \<Rightarrow> buf \<Rightarrow> forwarder \<Rightarrow> (int \<times> buf \<times> forwarder) option" where
  "set_wan_l2_addrs wan_idx pkt fw =
     (if wan_idx < 0 \<or> int (length (fw_wans fw)) \<le> wan_idx then Some (-1, pkt, fw)
      else do {
        c \<leftarrow> at (fw_wan_arp fw) (nat wan_idx);
        wc \<leftarrow> at (ac_wans (fw_cfg fw)) (nat wan_idx);
        let iface = fw_wans fw ! nat wan_idx;
        (rc, pkt, request) \<leftarrow> wan_rewrite_dest_mac c wc (xi_dst_mac iface) (xi_src_mac iface) pkt;
        Some (rc, pkt, note_request request fw)
      })"

definition set_local_l2_addrs :: "int \<Rightarrow> u32 \<Rightarrow> buf \<Rightarrow> forwarder \<Rightarrow> (int \<times> buf \<times> forwarder) option" where
  "set_local_l2_addrs local_idx dest_ip pkt fw =
     (if local_idx < 0 \<or> int (length (fw_locals fw)) \<le> local_idx then Some (-1, pkt, fw)
      else do {
        c \<leftarrow> at (fw_arp fw) (nat local_idx);
        (rc, pkt, request) \<leftarrow> local_rewrite_dest_mac c dest_ip pkt;
        Some (rc, pkt, note_request request fw)
      })"

text \<open>Sending the first bytes of a buffer on a WAN link and counting; the flag is \<^verbatim>\<open>wan_used\<close>.\<close>

definition send_to_wan :: "kernel_turns \<Rightarrow> nat \<Rightarrow> nat \<Rightarrow> buf \<Rightarrow> nat \<Rightarrow> forwarder \<Rightarrow> (bool \<times> forwarder) option" where
  "send_to_wan ks wan_idx tq pkt pkt_len fw = do {
     iface \<leftarrow> at (fw_wans fw) wan_idx;
     bytes \<leftarrow> rdn pkt 0 pkt_len;
     (ret, iface) \<leftarrow> interface_send_batch_queue ks tq bytes iface;
     let fw = fw\<lparr>fw_wans := (fw_wans fw)[wan_idx := iface]\<rparr>;
     Some (if ret = 0 then (True, fw\<lparr>fw_local_to_wan := fw_local_to_wan fw + 1\<rparr>) else (False, count_dropped fw))
   }"

definition flush_wan :: "bool \<Rightarrow> nat \<Rightarrow> nat \<Rightarrow> forwarder \<Rightarrow> forwarder" where
  "flush_wan used wan_idx tq fw =
     (if used \<and> wan_idx < length (fw_wans fw)
      then fw\<lparr>fw_wans := (fw_wans fw)[wan_idx := interface_send_flush_queue tq (fw_wans fw ! wan_idx)]\<rparr> else fw)"

text \<open>Giving the frame of the LAN packet back, the label \<^verbatim>\<open>release_local\<close>.\<close>

definition release_local :: "packet_job \<Rightarrow> forwarder \<Rightarrow> forwarder option" where
  "release_local job fw =
     (if 0 \<le> job_local_idx job \<and> job_local_idx job < int (length (fw_locals fw))
      then do {
        let i = nat (job_local_idx job);
        iface \<leftarrow> interface_recv_release_single_queue (nat (job_queue_idx job)) [job_addr job] (fw_locals fw ! i);
        Some (fw\<lparr>fw_locals := (fw_locals fw)[i := iface]\<rparr>)
      }
      else Some fw)"

section \<open>The worker: choosing\<close>

text \<open>
  What to do with a packet when encryption is on: drop it, send it as it is, or encrypt it with
  the context of a policy.  The number is the index of the policy, the C pointer \<^verbatim>\<open>cp\<close>.
\<close>

datatype crypto_choice = Choice_drop | Choice_plain "nat option" | Choice_encrypt nat packet_crypto_ctx

definition worker_policy :: "packet_env \<Rightarrow> int \<Rightarrow> flow5 \<Rightarrow> forwarder \<Rightarrow> (nat option \<times> forwarder) option" where
  "worker_policy env local_idx flow fw =
     (let (src_ip, dst_ip, src_port, dst_port, protocol) = flow;
          cfg = fw_cfg fw;
          select = crypto_select_policy_for_local cfg local_idx src_ip dst_ip src_port dst_port protocol
      in if protocol = 6
         then do {
           (pin, pins) \<leftarrow> tcp_policy_pin_lookup (rt_enabled (fw_rt fw)) (pe_pin_now env) (ac_policies cfg)
             (pt_ready (rt_active (fw_rt fw))) (fw_pins fw) src_ip dst_ip src_port dst_port;
           Some (case pin of Some pi \<Rightarrow> Some pi | None \<Rightarrow> select, fw\<lparr>fw_pins := pins\<rparr>)
         }
         else Some (select, fw))"

definition policy_ready_ctx :: "policy_table \<Rightarrow> nat \<Rightarrow> packet_crypto_ctx option option" where
  "policy_ready_ctx t pi =
     (if MAX_CRYPTO_POLICIES \<le> pi then Some None
      else do {
        ready \<leftarrow> at (pt_ready t) pi;
        if ready then map_option Some (at (pt_ctx t) pi) else Some None
      })"

definition worker_choice :: "nat option \<Rightarrow> forwarder \<Rightarrow> (crypto_choice \<times> forwarder) option" where
  "worker_choice cp fw =
     (case cp of
        None \<Rightarrow> Some (if ac_policies (fw_cfg fw) \<noteq> [] then Choice_drop else Choice_plain None, fw)
      | Some pi \<Rightarrow> do {
          p \<leftarrow> at (ac_policies (fw_cfg fw)) pi;
          if cp_action p = POLICY_ACTION_BYPASS then Some (Choice_plain (Some pi), fw)
          else do {
            ctx \<leftarrow> policy_ready_ctx (rt_active (fw_rt fw)) pi;
            Some (case ctx of
                None \<Rightarrow> (Choice_plain (Some pi), fw)
              | Some ctx \<Rightarrow> (Choice_encrypt pi ctx, fw\<lparr>fw_cs := crypto_apply_from_policy p (fw_cs fw)\<rparr>))
          }
        })"

text \<open>A TCP connection is pinned to a policy that bypasses or can encrypt.\<close>

definition worker_pin :: "packet_env \<Rightarrow> flow5 \<Rightarrow> crypto_choice \<Rightarrow> forwarder \<Rightarrow> forwarder" where
  "worker_pin env flow choice fw =
     (let (src_ip, dst_ip, src_port, dst_port, protocol) = flow;
          set = (\<lambda>pi. fw\<lparr>fw_pins := tcp_policy_pin_set (rt_enabled (fw_rt fw)) (pe_pin_now env) (pe_pin_malloc_ok env)
                  (fw_pins fw) src_ip dst_ip src_port dst_port (int pi)\<rparr>)
      in if protocol \<noteq> 6 then fw
         else case choice of
             Choice_drop \<Rightarrow> fw
           | Choice_encrypt pi ctx \<Rightarrow> set pi
           | Choice_plain None \<Rightarrow> fw
           | Choice_plain (Some pi) \<Rightarrow>
               if pi < MAX_CRYPTO_POLICIES \<and> cp_action (ac_policies (fw_cfg fw) ! pi) = POLICY_ACTION_BYPASS
               then set pi else fw)"

section \<open>The worker: sending\<close>

text \<open>The result of a sending stage: whether the code goes on to \<^verbatim>\<open>release_local\<close> directly, and
  \<^verbatim>\<open>wan_used\<close>.\<close>

type_synonym send_result = "(bool \<times> bool \<times> forwarder) option"

definition send_plain :: "packet_env \<Rightarrow> nat \<Rightarrow> nat \<Rightarrow> buf \<Rightarrow> nat \<Rightarrow> forwarder \<Rightarrow> send_result" where
  "send_plain env wan_idx tq pkt pkt_len fw = do {
     (rc, pkt, fw) \<leftarrow> set_wan_l2_addrs (int wan_idx) pkt fw;
     if rc \<noteq> 0 then Some (True, False, count_dropped fw)
     else do {
       (used, fw) \<leftarrow> send_to_wan (pe_turns1 env) wan_idx tq pkt pkt_len fw;
       Some (False, used, fw)
     }
   }"

text \<open>The two fragments of a split packet.\<close>

definition send_fragments ::
    "packet_env \<Rightarrow> nat \<Rightarrow> nat \<Rightarrow> buf \<times> nat \<Rightarrow> buf \<times> nat \<Rightarrow> forwarder \<Rightarrow> send_result" where
  "send_fragments env wan_idx tq frag1 frag2 fw = do {
     let (f1, l1) = frag1;
     let (f2, l2) = frag2;
     (rc, f1, fw) \<leftarrow> set_wan_l2_addrs (int wan_idx) f1 fw;
     if rc \<noteq> 0 then Some (True, False, count_dropped fw)
     else do {
       (rc, f2, fw) \<leftarrow> set_wan_l2_addrs (int wan_idx) f2 fw;
       if rc \<noteq> 0 then Some (True, False, count_dropped fw)
       else do {
         (used1, fw) \<leftarrow> send_to_wan (pe_turns1 env) wan_idx tq f1 l1 fw;
         (used2, fw) \<leftarrow> send_to_wan (pe_turns2 env) wan_idx tq f2 l2 fw;
         Some (False, used1 \<or> used2, fw)
       }
     }
   }"

text \<open>The test and the function for splitting at the layer of an action.\<close>

definition needs_split :: "int \<Rightarrow> crypto_state \<Rightarrow> nat \<Rightarrow> bool" where
  "needs_split action st pkt_len =
     (if action = POLICY_ACTION_ENCRYPT_L2 then frag_need_split_l2 st pkt_len
      else if action = POLICY_ACTION_ENCRYPT_L3 then frag_need_split st pkt_len
      else if action = POLICY_ACTION_ENCRYPT_L4 then frag_need_split_l4 st pkt_len
      else False)"

definition split_at ::
    "evp \<Rightarrow> int \<Rightarrow> packet_crypto_ctx \<Rightarrow> buf \<Rightarrow> nat \<Rightarrow> buf \<Rightarrow> buf \<Rightarrow> u64 \<Rightarrow> crypto_state \<Rightarrow> split_result" where
  "split_at E action ctx pkt pkt_len f1 f2 cnt st =
     (if action = POLICY_ACTION_ENCRYPT_L2 then frag_split_and_encrypt_l2 E ctx pkt pkt_len f1 f2 cnt st
      else if action = POLICY_ACTION_ENCRYPT_L3 then frag_split_and_encrypt E ctx pkt pkt_len f1 f2 cnt st
      else frag_split_and_encrypt_l4 E ctx pkt pkt_len f1 f2 cnt st)"

definition encrypt_at :: "evp \<Rightarrow> int \<Rightarrow> packet_crypto_ctx \<Rightarrow> buf \<Rightarrow> nat \<Rightarrow> crypto_state \<Rightarrow> crypto_result" where
  "encrypt_at E action ctx pkt pkt_len st =
     (if action = POLICY_ACTION_ENCRYPT_L2 then crypto_layer2_encrypt E ctx pkt pkt_len st
      else if action = POLICY_ACTION_ENCRYPT_L3 then crypto_layer3_encrypt E ctx pkt pkt_len st
      else if action = POLICY_ACTION_ENCRYPT_L4 then crypto_layer4_encrypt E ctx pkt pkt_len st
      else Some (-1, pkt, st))"

definition send_encrypted ::
    "evp \<Rightarrow> packet_env \<Rightarrow> nat \<Rightarrow> nat \<Rightarrow> crypto_policy \<Rightarrow> packet_crypto_ctx \<Rightarrow> buf \<Rightarrow> nat \<Rightarrow> forwarder \<Rightarrow> send_result" where
  "send_encrypted E env wan_idx tq cp ctx pkt pkt_len fw = do {
     (rc, pkt, fw) \<leftarrow> set_wan_l2_addrs (int wan_idx) pkt fw;
     if rc \<noteq> 0 then Some (True, False, count_dropped fw)
     else if needs_split (cp_action cp) (fw_cs fw) pkt_len then do {
       (rc, frag1, frag2, cnt, st) \<leftarrow>
         split_at E (cp_action cp) ctx pkt pkt_len (pe_f1 env) (pe_f2 env) (fw_pkt_id fw) (fw_cs fw);
       let fw = fw\<lparr>fw_pkt_id := cnt, fw_cs := st\<rparr>;
       if rc \<noteq> 0 then Some (True, False, count_dropped fw)
       else send_fragments env wan_idx tq frag1 frag2 fw
     }
     else do {
       (new_len, pkt, st) \<leftarrow> encrypt_at E (cp_action cp) ctx pkt pkt_len (fw_cs fw);
       let fw = fw\<lparr>fw_cs := st\<rparr>;
       if new_len < 0 then Some (True, False, count_dropped fw)
       else do {
         (used, fw) \<leftarrow> send_to_wan (pe_turns1 env) wan_idx tq pkt (nat new_len) fw;
         Some (False, used, fw)
       }
     }
   }"

text \<open>FIN or RST of a connection removes its pin.\<close>

definition worker_unpin :: "flow5 \<Rightarrow> byte option \<Rightarrow> forwarder \<Rightarrow> forwarder" where
  "worker_unpin flow tcp_flags fw =
     (let (src_ip, dst_ip, src_port, dst_port, protocol) = flow
      in case tcp_flags of
        None \<Rightarrow> fw
      | Some flags \<Rightarrow>
          if protocol = 6 \<and> flags AND (0x01 OR 0x04) \<noteq> 0
          then fw\<lparr>fw_pins := tcp_policy_pin_remove (rt_enabled (fw_rt fw)) (fw_pins fw) src_ip dst_ip src_port dst_port\<rparr>
          else fw)"

text \<open>The whole step after the packet has been parsed and its link chosen.\<close>

definition worker_send ::
    "evp \<Rightarrow> packet_env \<Rightarrow> packet_job \<Rightarrow> flow5 option \<Rightarrow> byte option \<Rightarrow> nat \<Rightarrow> nat \<Rightarrow> forwarder \<Rightarrow> send_result" where
  "worker_send E env job flow tcp_flags wan_idx tq fw =
     (let pkt = job_pkt job; pkt_len = job_pkt_len job
      in if \<not> rt_enabled (fw_rt fw) then send_plain env wan_idx tq pkt pkt_len fw
         else case flow of
           None \<Rightarrow> send_plain env wan_idx tq pkt pkt_len fw
         | Some f \<Rightarrow> do {
             (cp, fw) \<leftarrow> worker_policy env (job_local_idx job) f fw;
             (choice, fw) \<leftarrow> worker_choice cp fw;
             let fw = worker_pin env f choice fw;
             case choice of
               Choice_drop \<Rightarrow> Some (True, False, count_dropped fw)
             | Choice_plain _ \<Rightarrow> send_plain env wan_idx tq pkt pkt_len fw
             | Choice_encrypt pi ctx \<Rightarrow> do {
                 p \<leftarrow> at (ac_policies (fw_cfg fw)) pi;
                 (stop, used, fw) \<leftarrow> send_encrypted E env wan_idx tq p ctx pkt pkt_len fw;
                 Some (stop, used, if stop then fw else worker_unpin f tcp_flags fw)
               }
           })"

text \<open>The transmit queue of each link; a link without queues divides by zero.\<close>

definition wan_tx_queues :: "int \<Rightarrow> xsk_interface list \<Rightarrow> nat list option" where
  "wan_tx_queues base wans =
     (if \<exists>w \<in> set wans. xi_queues w = [] then None
      else Some (map (\<lambda>w. nat base mod length (xi_queues w)) wans))"

definition worker_job :: "evp \<Rightarrow> packet_env \<Rightarrow> packet_job \<Rightarrow> forwarder \<Rightarrow> forwarder option" where
  "worker_job E env job fw = do {
     tqs \<leftarrow> wan_tx_queues (job_tx_queue_base job) (fw_wans fw);
     flow \<leftarrow> parse_flow (job_pkt job) (job_pkt_len job);
     tcp_flags \<leftarrow> (case flow of
         Some (_, _, _, _, protocol) \<Rightarrow>
           if protocol = 6 then tcp_ipv4_tcp_flags (job_pkt job) (job_pkt_len job) else Some None
       | None \<Rightarrow> Some None);
     (w, ft) \<leftarrow> choose_wan (pe_flow_now env) (pe_flow_malloc_ok env) (fw_cfg fw) (fw_flows fw) (job_local_idx job)
       flow (job_pkt job) (job_pkt_len job) (int (length (fw_wans fw)));
     let wan_idx = nat w;
     let fw = fw\<lparr>fw_flows := ft\<rparr>;
     tq \<leftarrow> at tqs wan_idx;
     (stop, used, fw) \<leftarrow> worker_send E env job flow tcp_flags wan_idx tq fw;
     release_local job (if stop then fw else flush_wan used wan_idx tq fw)
   }"

end
