(* ===== verification/Receive.thy ===== *)
theory Receive
  imports Forwarder Reassembly
begin

text \<open>
  The receiving threads of \<^verbatim>\<open>src/src/core/forwarder.c\<close>: what the WAN threads do with a packet from
  the wire until it is on a LAN queue, what the LAN threads do without the worker, one
  iteration of each thread, and the pass of the garbage collector.

  The code keeps a second pointer to a received packet and its first length, \<^verbatim>\<open>wire_pkt\<close> and
  \<^verbatim>\<open>wire_len\<close>.  Decryption is in place, so behind that pointer is then the decrypted packet.
\<close>

section \<open>One received packet\<close>

text \<open>
  What the environment decides for one packet: the clock at each lookup of the previous tables
  and at each reassembly, the contents of the buffers on the stack, and the kernel's turns.
\<close>

record rx_env =
  rx_now_params :: u64
  rx_now_l2 :: u64
  rx_now_l3 :: u64
  rx_now_l4 :: u64
  rx_frag_now_l2 :: u64
  rx_frag_now_l3 :: u64
  rx_frag_now_l4 :: u64
  rx_reass_l2 :: buf
  rx_reass_l3 :: buf
  rx_reass_l4 :: buf
  rx_pin_now :: u64
  rx_pin_malloc_ok :: bool
  rx_turns :: kernel_turns

record queue_thread_args =
  qa_iface_idx :: nat
  qa_queue_idx :: nat
  qa_tx_queue_base :: nat
  qa_wan_worker_index :: int

text \<open>
  A stage drops the packet and counts it, keeps it back as the first fragment of a pair, or
  goes on with it.
\<close>

datatype rx_verdict = Rx_drop | Rx_hold | Rx_packet buf nat

definition scratch_size :: nat where "scratch_size = 8192"

definition is_ssh_flow :: "flow5 \<Rightarrow> bool" where
  "is_ssh_flow flow = (case flow of (_, _, src_port, dst_port, protocol) \<Rightarrow>
     protocol = 6 \<and> (src_port = 22 \<or> dst_port = 22))"

text \<open>After a reassembly that is complete the packet is copied back over the second fragment.\<close>

definition after_reassembly :: "buf \<Rightarrow> reassembly \<Rightarrow> (rx_verdict \<times> frag_table) option" where
  "after_reassembly pkt r = do {
     (rr, ft, out, n) \<leftarrow> r;
     if rr = 0 then Some (Rx_hold, ft)
     else if rr \<noteq> 1 then Some (Rx_drop, ft)
     else do {
       bytes \<leftarrow> rdn out 0 n;
       pkt \<leftarrow> wrn pkt 0 bytes;
       Some (Rx_packet pkt n, ft)
     }
   }"

text \<open>A fragment of any layer: find the key, decrypt, reassemble.\<close>

definition rx_fragment ::
    "(packet_crypto_ctx option \<times> crypto_state) option \<Rightarrow>
     (packet_crypto_ctx \<Rightarrow> crypto_state \<Rightarrow> (int \<times> u16 \<times> byte \<times> buf \<times> crypto_state) option) \<Rightarrow>
     (buf \<Rightarrow> nat \<Rightarrow> u16 \<Rightarrow> byte \<Rightarrow> reassembly) \<Rightarrow> frag_table \<Rightarrow> (rx_verdict \<times> frag_table \<times> crypto_state) option" where
  "rx_fragment resolved dec reass ft = do {
     (ctx, st) \<leftarrow> resolved;
     case ctx of
       None \<Rightarrow> Some (Rx_drop, ft, st)
     | Some ctx \<Rightarrow> do {
         (nd, pkt_id, frag_index, pkt, st) \<leftarrow> dec ctx st;
         if nd < 0 then Some (Rx_drop, ft, st)
         else do {
           (v, ft) \<leftarrow> after_reassembly pkt (reass pkt (nat nd) pkt_id frag_index);
           Some (v, ft, st)
         }
       }
   }"

definition decrypted :: "dispatch_result \<Rightarrow> (rx_verdict \<times> crypto_state) option" where
  "decrypted r = map_option (\<lambda>(rc, pkt, n, st). (if rc \<noteq> 0 then Rx_drop else Rx_packet pkt n, st)) r"

definition rx_layer2 :: "evp \<Rightarrow> rx_env \<Rightarrow> buf \<Rightarrow> nat \<Rightarrow> forwarder \<Rightarrow> (rx_verdict \<times> forwarder) option" where
  "rx_layer2 E env pkt pkt_len fw = do {
     (is_frag, _, _) \<leftarrow> frag_is_fragment_l2 (fw_cs fw) (ac_policies (fw_cfg fw)) pkt pkt_len;
     if is_frag then do {
       (v, ft, st) \<leftarrow> rx_fragment (forwarder_resolve_l2_decrypt_ctx (fw_rt fw) (fw_cfg fw) (rx_now_l2 env) pkt (fw_cs fw))
         (\<lambda>ctx. crypto_layer2_decrypt_fragment E ctx pkt pkt_len)
         (\<lambda>pkt n i j. frag_try_reassemble_l2 (rx_frag_now_l2 env) (fw_frag_l2 fw) pkt n i j (rx_reass_l2 env)) (fw_frag_l2 fw);
       Some (v, fw\<lparr>fw_frag_l2 := ft, fw_cs := st\<rparr>)
     }
     else do {
       (v, st) \<leftarrow> decrypted (decrypt_packet_auto_l2 E (fw_rt fw) (fw_cfg fw) (rx_now_l2 env) pkt pkt_len (fw_cs fw));
       Some (v, fw\<lparr>fw_cs := st\<rparr>)
     }
   }"

text \<open>With encryption at layer 3 the parameters are set before the packet is looked at; without a
  policy of the packet the defaults of the configuration.\<close>

definition rx_params :: "byte \<Rightarrow> rx_env \<Rightarrow> buf \<Rightarrow> nat \<Rightarrow> forwarder \<Rightarrow> forwarder option" where
  "rx_params l3_magic env pkt pkt_len fw =
     (let cfg = fw_cfg fw; st = fw_cs fw
      in if rt_enabled (fw_rt fw) \<and> rt_layer (fw_rt fw) = POLICY_ACTION_ENCRYPT_L3 \<and> ac_policies cfg \<noteq> [] then do {
           pid \<leftarrow> crypto_l3_extract_policy_id l3_magic st (ac_policies cfg) pkt pkt_len;
           r \<leftarrow> (case pid of
               None \<Rightarrow> Some None
             | Some policy_id \<Rightarrow>
                 pick_current_or_prev (\<lambda>cp. True) (fw_rt fw) cfg (rx_now_params env) POLICY_ACTION_ENCRYPT_L3 policy_id);
           Some (fw\<lparr>fw_cs := (case r of
               None \<Rightarrow> crypto_apply_default_from_cfg cfg st
             | Some (cp, _) \<Rightarrow> crypto_apply_from_policy cp st)\<rparr>)
         }
         else Some fw)"

text \<open>The layer-2 stage of the threads for layers 3 and 4: only packets with the marker byte.\<close>

definition rx_marked_layer2 :: "evp \<Rightarrow> rx_env \<Rightarrow> buf \<Rightarrow> nat \<Rightarrow> forwarder \<Rightarrow> (rx_verdict \<times> forwarder) option" where
  "rx_marked_layer2 E env pkt pkt_len fw = do {
     pkt_marker \<leftarrow> rd pkt 12;
     let fake_ipv4 = g_fake_ethertype_ipv4 (fw_cs fw);
     if fake_ipv4 \<noteq> 0 \<and> pkt_marker = ucast (drop_bit 8 fake_ipv4) then rx_layer2 E env pkt pkt_len fw
     else Some (Rx_packet pkt pkt_len, fw)
   }"

text \<open>The policy of an id for pinning; -1 for none.\<close>

definition inbound_policy :: "forwarder \<Rightarrow> int \<Rightarrow> byte option \<Rightarrow> int option" where
  "inbound_policy fw action pid =
     (case pid of
        None \<Rightarrow> Some (-1)
      | Some policy_id \<Rightarrow> policy_index_from_action_id_current (rt_active (fw_rt fw)) (fw_cfg fw) action policy_id)"

text \<open>The layer-3 stage also finds \<^verbatim>\<open>inbound_policy_pi\<close>.\<close>

definition rx_layer3 ::
    "evp \<Rightarrow> byte \<Rightarrow> rx_env \<Rightarrow> nat \<Rightarrow> buf \<Rightarrow> nat \<Rightarrow> forwarder \<Rightarrow> (rx_verdict \<times> int \<times> forwarder) option" where
  "rx_layer3 E l3_magic env wire_len pkt pkt_len fw = do {
     let cfg = fw_cfg fw;
     (is_frag, _, _) \<leftarrow> frag_is_fragment (fw_cs fw) (ac_policies cfg) pkt pkt_len;
     if is_frag then do {
       pid \<leftarrow> crypto_l3_extract_policy_id l3_magic (fw_cs fw) (ac_policies cfg) pkt pkt_len;
       pi \<leftarrow> inbound_policy fw POLICY_ACTION_ENCRYPT_L3 pid;
       (v, ft, st) \<leftarrow> rx_fragment
         (forwarder_resolve_l3_decrypt_ctx l3_magic (fw_rt fw) cfg (rx_now_l3 env) pkt pkt_len (fw_cs fw))
         (\<lambda>ctx. crypto_layer3_decrypt_fragment E ctx pkt pkt_len)
         (\<lambda>pkt n i j. frag_try_reassemble (rx_frag_now_l3 env) (fw_frag_l3 fw) pkt n i j (rx_reass_l3 env)) (fw_frag_l3 fw);
       Some (v, pi, fw\<lparr>fw_frag_l3 := ft, fw_cs := st\<rparr>)
     }
     else do {
       (v, st) \<leftarrow> decrypted (decrypt_packet_auto_by_action E l3_magic (fw_rt fw) cfg (rx_now_l3 env)
         POLICY_ACTION_ENCRYPT_L3 pkt pkt_len scratch_size (fw_cs fw));
       let fw = fw\<lparr>fw_cs := st\<rparr>;
       case v of
         Rx_packet wire_pkt n \<Rightarrow> do {
           pid \<leftarrow> crypto_l3_extract_policy_id l3_magic st (ac_policies cfg) wire_pkt wire_len;
           pi \<leftarrow> inbound_policy fw POLICY_ACTION_ENCRYPT_L3 pid;
           Some (v, pi, fw)
         }
       | _ \<Rightarrow> Some (v, -1, fw)
     }
   }"

text \<open>The layer-4 stage looks for the policy only when layer 3 found none, and not for the flows
  that the diagnosis logs.\<close>

definition rx_layer4 ::
    "evp \<Rightarrow> byte \<Rightarrow> rx_env \<Rightarrow> flow5 option \<Rightarrow> nat \<Rightarrow> int \<Rightarrow> buf \<Rightarrow> nat \<Rightarrow> forwarder \<Rightarrow> (rx_verdict \<times> int \<times> forwarder) option" where
  "rx_layer4 E l3_magic env wire_flow wire_len pi pkt pkt_len fw = do {
     let cfg = fw_cfg fw;
     (is_frag, _, _) \<leftarrow> frag_is_fragment_l4 (fw_cs fw) (ac_policies cfg) pkt pkt_len;
     if is_frag then do {
       (v, ft, st) \<leftarrow> rx_fragment
         (forwarder_resolve_l4_decrypt_ctx (fw_rt fw) cfg (rx_now_l4 env) pkt pkt_len (fw_cs fw))
         (\<lambda>ctx. crypto_layer4_decrypt_fragment E ctx pkt pkt_len)
         (\<lambda>pkt n i j. frag_try_reassemble_l4 (rx_frag_now_l4 env) (fw_frag_l4 fw) pkt n i j (rx_reass_l4 env)) (fw_frag_l4 fw);
       Some (v, pi, fw\<lparr>fw_frag_l4 := ft, fw_cs := st\<rparr>)
     }
     else do {
       (v, st) \<leftarrow> decrypted (decrypt_packet_auto_by_action E l3_magic (fw_rt fw) cfg (rx_now_l4 env)
         POLICY_ACTION_ENCRYPT_L4 pkt pkt_len scratch_size (fw_cs fw));
       let fw = fw\<lparr>fw_cs := st\<rparr>;
       case v of
         Rx_packet wire_pkt n \<Rightarrow>
           if (case wire_flow of None \<Rightarrow> False | Some f \<Rightarrow> is_ssh_flow f) \<or> 0 \<le> pi then Some (v, pi, fw)
           else do {
             pid \<leftarrow> crypto_l4_extract_policy_id_ipv4 (ac_policies cfg) wire_pkt wire_len;
             pi \<leftarrow> inbound_policy fw POLICY_ACTION_ENCRYPT_L4 (map_option fst pid);
             Some (v, pi, fw)
           }
       | _ \<Rightarrow> Some (v, pi, fw)
     }
   }"

section \<open>Delivering to the LAN\<close>

definition tx_queue_for_local :: "queue_thread_args \<Rightarrow> nat \<Rightarrow> flow5 option \<Rightarrow> nat" where
  "tx_queue_for_local args nq flow =
     (case flow of
        Some (src_ip, dst_ip, src_port, dst_port, protocol) \<Rightarrow>
          unat (flow_hash_local_tq src_ip dst_ip src_port dst_port protocol mod of_nat nq)
      | None \<Rightarrow> if 0 \<le> qa_wan_worker_index args then nat (qa_wan_worker_index args) mod nq
                else qa_tx_queue_base args mod nq)"

text \<open>
  The last part of all WAN threads.  The flag is the only difference: without encryption a
  packet whose LAN address is unknown is given back at once, although the whole batch is given
  back at the end.  The result is the LAN interface and queue used.
\<close>

definition deliver_local ::
    "queue_thread_args \<Rightarrow> kernel_turns \<Rightarrow> u64 option \<Rightarrow> buf \<Rightarrow> nat \<Rightarrow> forwarder \<Rightarrow>
     ((nat \<times> nat) option \<times> forwarder) option" where
  "deliver_local args ks release_on_miss pkt pkt_len fw = do {
     dest_ip \<leftarrow> get_dest_ip pkt pkt_len;
     if dest_ip = 0 then Some (None, (count_dropped fw)\<lparr>fw_dropped_bad_ip := fw_dropped_bad_ip fw + 1\<rparr>)
     else case config_find_local_for_ip (fw_cfg fw) dest_ip of
       None \<Rightarrow> Some (None, (count_dropped fw)\<lparr>fw_dropped_no_local_match := fw_dropped_no_local_match fw + 1\<rparr>)
     | Some local_idx \<Rightarrow> do {
         local_iface \<leftarrow> at (fw_locals fw) local_idx;
         flow \<leftarrow> parse_flow pkt pkt_len;
         let tq = tx_queue_for_local args (max 1 (length (xi_queues local_iface))) flow;
         (rc, pkt, fw) \<leftarrow> set_local_l2_addrs (int local_idx) dest_ip pkt fw;
         if rc \<noteq> 0 then (case release_on_miss of
             None \<Rightarrow> Some (None, count_dropped fw)
           | Some addr \<Rightarrow> do {
               wan \<leftarrow> at (fw_wans fw) (qa_iface_idx args);
               wan \<leftarrow> interface_recv_release_single_queue (qa_queue_idx args) [addr] wan;
               Some (None, (count_dropped fw)\<lparr>fw_wans := (fw_wans fw)[qa_iface_idx args := wan]\<rparr>)
             })
         else do {
           bytes \<leftarrow> rdn pkt 0 pkt_len;
           (ret, local_iface) \<leftarrow> interface_send_to_local_batch_queue ks tq bytes local_iface;
           let fw = fw\<lparr>fw_locals := (fw_locals fw)[local_idx := local_iface]\<rparr>;
           Some (if ret = 0 then (Some (local_idx, tq), fw\<lparr>fw_wan_to_local := fw_wan_to_local fw + 1\<rparr>)
                 else (None, (count_dropped fw)\<lparr>fw_dropped_local_tx_fail := fw_dropped_local_tx_fail fw + 1\<rparr>))
         }
       }
   }"

text \<open>Pinning the connection of a decrypted packet to the policy it came with.\<close>

definition pin_inbound :: "rx_env \<Rightarrow> int \<Rightarrow> buf \<Rightarrow> nat \<Rightarrow> forwarder \<Rightarrow> forwarder option" where
  "pin_inbound env pi pkt pkt_len fw =
     (if pi < 0 then Some fw
      else do {
        flow \<leftarrow> parse_flow pkt pkt_len;
        Some (case flow of
            Some (src_ip, dst_ip, src_port, dst_port, protocol) \<Rightarrow>
              if protocol = 6 then fw\<lparr>fw_pins := tcp_policy_pin_set (rt_enabled (fw_rt fw)) (rx_pin_now env)
                (rx_pin_malloc_ok env) (fw_pins fw) src_ip dst_ip src_port dst_port pi\<rparr> else fw
          | None \<Rightarrow> fw)
      })"

section \<open>Received packets, thread by thread\<close>

type_synonym rx_handler = "buf \<times> nat \<times> u64 \<Rightarrow> forwarder \<Rightarrow> ((nat \<times> nat) option \<times> forwarder) option"

text \<open>What is left of a packet after a stage: nothing more to do, or go on.\<close>

definition next_stage ::
    "rx_verdict \<Rightarrow> (buf \<Rightarrow> nat \<Rightarrow> forwarder \<Rightarrow> ('u option \<times> forwarder) option) \<Rightarrow> forwarder \<Rightarrow> ('u option \<times> forwarder) option" where
  "next_stage v k fw =
     (case v of Rx_drop \<Rightarrow> Some (None, count_dropped fw) | Rx_hold \<Rightarrow> Some (None, fw) | Rx_packet pkt n \<Rightarrow> k pkt n fw)"

definition wan_packet_l3l4 :: "evp \<Rightarrow> byte \<Rightarrow> queue_thread_args \<Rightarrow> rx_env \<Rightarrow> rx_handler" where
  "wan_packet_l3l4 E l3_magic args env p fw =
     (let (pkt, wire_len, addr) = p;
          deliver = (\<lambda>pi pkt n fw. do {
            fw \<leftarrow> pin_inbound env pi pkt n fw;
            deliver_local args (rx_turns env) None pkt n fw
          })
      in do {
        wire_flow \<leftarrow> parse_flow pkt wire_len;
        fw \<leftarrow> rx_params l3_magic env pkt wire_len fw;
        (v, fw) \<leftarrow> rx_marked_layer2 E env pkt wire_len fw;
        next_stage v (\<lambda>pkt n fw.
          if \<not> rt_enabled (fw_rt fw) then deliver (-1) pkt n fw
          else do {
            (v, pi, fw) \<leftarrow> rx_layer3 E l3_magic env wire_len pkt n fw;
            next_stage v (\<lambda>pkt n fw. do {
              (v, pi, fw) \<leftarrow> rx_layer4 E l3_magic env wire_flow wire_len pi pkt n fw;
              next_stage v (deliver pi) fw
            }) fw
          }) fw
      })"

definition wan_packet_l2 :: "evp \<Rightarrow> queue_thread_args \<Rightarrow> rx_env \<Rightarrow> rx_handler" where
  "wan_packet_l2 E args env p fw =
     (let (pkt, pkt_len, addr) = p
      in do {
        (v, fw) \<leftarrow> rx_layer2 E env pkt pkt_len fw;
        next_stage v (deliver_local args (rx_turns env) None) fw
      })"

text \<open>Here the bit of the queue is set without a test, which shifts too far from queue 32 on.\<close>

definition wan_packet_no_crypto :: "queue_thread_args \<Rightarrow> rx_env \<Rightarrow> rx_handler" where
  "wan_packet_no_crypto args env p fw =
     (let (pkt, pkt_len, addr) = p
      in do {
        (used, fw) \<leftarrow> deliver_local args (rx_turns env) (Some addr) pkt pkt_len fw;
        if (case used of None \<Rightarrow> False | Some (_, tq) \<Rightarrow> 32 \<le> tq) then None else Some (used, fw)
      })"

section \<open>LAN packets without the worker\<close>

text \<open>The result is the WAN link used; \<open>tqs\<close> are the transmit queues of the links.\<close>

type_synonym lan_handler = "buf \<times> nat \<times> u64 \<Rightarrow> forwarder \<Rightarrow> (nat option \<times> forwarder) option"

definition used_wan :: "nat \<Rightarrow> (bool \<times> forwarder) \<Rightarrow> nat option \<times> forwarder" where
  "used_wan wan_idx r = (if fst r then Some wan_idx else None, snd r)"

definition local_choose ::
    "packet_env \<Rightarrow> nat \<Rightarrow> buf \<Rightarrow> nat \<Rightarrow> forwarder \<Rightarrow> (flow5 option \<times> nat \<times> forwarder) option" where
  "local_choose env local_idx pkt pkt_len fw = do {
     flow \<leftarrow> parse_flow pkt pkt_len;
     (w, ft) \<leftarrow> choose_wan (pe_flow_now env) (pe_flow_malloc_ok env) (fw_cfg fw) (fw_flows fw) (int local_idx)
       flow pkt pkt_len (int (length (fw_wans fw)));
     Some (flow, nat w, fw\<lparr>fw_flows := ft\<rparr>)
   }"

definition local_packet_no_crypto :: "packet_env \<Rightarrow> nat \<Rightarrow> nat list \<Rightarrow> lan_handler" where
  "local_packet_no_crypto env local_idx tqs p fw = do {
     let (pkt, pkt_len, addr) = p;
     (flow, wan_idx, fw) \<leftarrow> local_choose env local_idx pkt pkt_len fw;
     tq \<leftarrow> at tqs wan_idx;
     (rc, pkt, fw) \<leftarrow> set_wan_l2_addrs (int wan_idx) pkt fw;
     if rc \<noteq> 0 then Some (None, count_dropped fw)
     else map_option (used_wan wan_idx) (send_to_wan (pe_turns1 env) wan_idx tq pkt pkt_len fw)
   }"

text \<open>
  What the layer-2 thread does with a packet: only policies of layer 2 encrypt, with their own
  context; without a policy the context of the configuration is used, unless the packet has a
  flow and there are policies.
\<close>

definition l2_choice :: "int \<Rightarrow> flow5 option \<Rightarrow> forwarder \<Rightarrow> (crypto_choice \<times> packet_crypto_ctx \<times> forwarder) option" where
  "l2_choice local_idx flow fw =
     (let cfg = fw_cfg fw; base = rt_base (fw_rt fw);
          cp = (case flow of
            None \<Rightarrow> None
          | Some (src_ip, dst_ip, src_port, dst_port, protocol) \<Rightarrow>
              crypto_select_policy_for_local cfg local_idx src_ip dst_ip src_port dst_port protocol)
      in case cp of
        None \<Rightarrow> Some (if flow \<noteq> None \<and> ac_policies cfg \<noteq> [] then Choice_drop else Choice_plain None, base, fw)
      | Some pi \<Rightarrow> do {
          p \<leftarrow> at (ac_policies cfg) pi;
          if cp_action p \<noteq> POLICY_ACTION_ENCRYPT_L2 then Some (Choice_plain (Some pi), base, fw)
          else do {
            ctx \<leftarrow> policy_ready_ctx (rt_active (fw_rt fw)) pi;
            Some (case ctx of
                None \<Rightarrow> (Choice_plain (Some pi), base, fw)
              | Some ctx \<Rightarrow> (Choice_encrypt pi ctx, ctx, fw\<lparr>fw_cs := crypto_apply_from_policy p (fw_cs fw)\<rparr>))
          }
        })"

definition encrypt_packet_with_ctx ::
    "evp \<Rightarrow> bool \<Rightarrow> packet_crypto_ctx \<Rightarrow> buf \<Rightarrow> nat \<Rightarrow> crypto_state \<Rightarrow> dispatch_result" where
  "encrypt_packet_with_ctx E crypto_enabled ctx pkt pkt_len st =
     (if \<not> crypto_enabled then Some (0, pkt, pkt_len, st)
      else do {
        (new_len, pkt, st) \<leftarrow> packet_encrypt E ctx pkt pkt_len st;
        if new_len < 0 then Some (-1, pkt, pkt_len, st) else Some (0, pkt, nat new_len, st)
      })"

definition send_encrypted_l2 ::
    "evp \<Rightarrow> packet_env \<Rightarrow> nat \<Rightarrow> nat \<Rightarrow> bool \<Rightarrow> packet_crypto_ctx \<Rightarrow> buf \<Rightarrow> nat \<Rightarrow> forwarder \<Rightarrow>
     (nat option \<times> forwarder) option" where
  "send_encrypted_l2 E env wan_idx tq with_policy ctx pkt pkt_len fw =
     (if with_policy \<and> frag_need_split_l2 (fw_cs fw) pkt_len then do {
        (rc, frag1, frag2, cnt, st) \<leftarrow>
          frag_split_and_encrypt_l2 E ctx pkt pkt_len (pe_f1 env) (pe_f2 env) (fw_pkt_id fw) (fw_cs fw);
        let fw = fw\<lparr>fw_pkt_id := cnt, fw_cs := st\<rparr>;
        if rc \<noteq> 0 then Some (None, count_dropped fw)
        else map_option (\<lambda>(_, used, fw). used_wan wan_idx (used, fw)) (send_fragments env wan_idx tq frag1 frag2 fw)
      }
      else do {
        (rc, pkt, n, st) \<leftarrow> encrypt_packet_with_ctx E (rt_enabled (fw_rt fw)) ctx pkt pkt_len (fw_cs fw);
        let fw = fw\<lparr>fw_cs := st\<rparr>;
        if rc \<noteq> 0 then Some (None, count_dropped fw)
        else map_option (used_wan wan_idx) (send_to_wan (pe_turns1 env) wan_idx tq pkt n fw)
      })"

definition local_packet_l2 :: "evp \<Rightarrow> packet_env \<Rightarrow> nat \<Rightarrow> nat list \<Rightarrow> lan_handler" where
  "local_packet_l2 E env local_idx tqs p fw = do {
     let (pkt, pkt_len, addr) = p;
     (flow, wan_idx, fw) \<leftarrow> local_choose env local_idx pkt pkt_len fw;
     tq \<leftarrow> at tqs wan_idx;
     (rc, pkt, fw) \<leftarrow> set_wan_l2_addrs (int wan_idx) pkt fw;
     if rc \<noteq> 0 then Some (None, count_dropped fw)
     else do {
       (choice, ctx, fw) \<leftarrow> l2_choice (int local_idx) flow fw;
       case choice of
         Choice_drop \<Rightarrow> Some (None, count_dropped fw)
       | Choice_plain (Some _) \<Rightarrow> map_option (used_wan wan_idx) (send_to_wan (pe_turns1 env) wan_idx tq pkt pkt_len fw)
       | Choice_plain None \<Rightarrow> send_encrypted_l2 E env wan_idx tq False ctx pkt pkt_len fw
       | Choice_encrypt _ _ \<Rightarrow> send_encrypted_l2 E env wan_idx tq True ctx pkt pkt_len fw
     }
   }"

section \<open>One iteration of each thread\<close>

text \<open>
  The packets of a batch: the memory from the first byte to the end of the frame, the length,
  and the address that is given back.
\<close>

definition received :: "xsk_interface \<Rightarrow> xsk_queue \<Rightarrow> desc \<Rightarrow> buf \<times> nat \<times> u64" where
  "received iface q d =
     (let a = unat (fst d); fs = unat (xi_frame_size iface)
      in (take (fs - a mod fs) (drop a (xq_bufs q)), unat (snd d), fst d))"

definition recv_batch ::
    "bool \<Rightarrow> kernel_turns \<Rightarrow> nat \<Rightarrow> xsk_interface \<Rightarrow> ((buf \<times> nat \<times> u64) list \<times> xsk_interface) option" where
  "recv_batch poll_ok ks queue_idx iface = do {
     (ds, iface) \<leftarrow> interface_recv_single_queue poll_ok ks queue_idx (xi_batch_size iface) iface;
     Some (if ds = [] then ([], iface) else (map (received iface (xi_queues iface ! queue_idx)) ds, iface))
   }"

text \<open>The loop over a batch; the \<open>n\<close>-th packet meets the \<open>n\<close>-th environment.\<close>

fun handle_all ::
    "(nat \<Rightarrow> buf \<times> nat \<times> u64 \<Rightarrow> forwarder \<Rightarrow> ('u option \<times> forwarder) option) \<Rightarrow> nat \<Rightarrow> (buf \<times> nat \<times> u64) list \<Rightarrow>
     forwarder \<Rightarrow> ('u list \<times> forwarder) option" where
  "handle_all h n [] fw = Some ([], fw)"
| "handle_all h n (p # ps) fw = do {
     (u, fw) \<leftarrow> h n p fw;
     (us, fw) \<leftarrow> handle_all h (Suc n) ps fw;
     Some (case u of None \<Rightarrow> us | Some u \<Rightarrow> u # us, fw)
   }"

text \<open>Only the first 32 queues have a bit in \<^verbatim>\<open>local_used_queues\<close>.\<close>

definition flush_locals :: "(nat \<times> nat) list \<Rightarrow> forwarder \<Rightarrow> forwarder" where
  "flush_locals used fw = fw\<lparr>fw_locals := map (\<lambda>(l, iface).
     foldl (\<lambda>iface q. if (l, q) \<in> set used then interface_send_flush_queue q iface else iface) iface
       [0..<min (length (xi_queues iface)) 32]) (enumerate 0 (fw_locals fw))\<rparr>"

definition flush_wans :: "nat list \<Rightarrow> nat list \<Rightarrow> forwarder \<Rightarrow> forwarder" where
  "flush_wans tqs used fw = fw\<lparr>fw_wans := map (\<lambda>(w, iface).
     if w \<in> set used then interface_send_flush_queue (tqs ! w) iface else iface) (enumerate 0 (fw_wans fw))\<rparr>"

definition wan_iteration ::
    "bool \<Rightarrow> kernel_turns \<Rightarrow> queue_thread_args \<Rightarrow> (forwarder \<Rightarrow> forwarder) \<Rightarrow> (nat \<Rightarrow> rx_handler) \<Rightarrow> forwarder \<Rightarrow> forwarder option" where
  "wan_iteration poll_ok ks args gc handler fw = do {
     let i = qa_iface_idx args;
     wan \<leftarrow> at (fw_wans fw) i;
     (ps, wan) \<leftarrow> recv_batch poll_ok ks (qa_queue_idx args) wan;
     let fw = fw\<lparr>fw_wans := (fw_wans fw)[i := wan]\<rparr>;
     if ps = [] then Some fw
     else do {
       (used, fw) \<leftarrow> handle_all handler 0 ps (gc fw);
       let fw = flush_locals used fw;
       wan \<leftarrow> at (fw_wans fw) i;
       wan \<leftarrow> interface_recv_release_single_queue (qa_queue_idx args) (map (snd \<circ> snd) ps) wan;
       Some (fw\<lparr>fw_wans := (fw_wans fw)[i := wan]\<rparr>)
     }
   }"

definition wan_queue_thread_l3l4 ::
    "evp \<Rightarrow> byte \<Rightarrow> bool \<Rightarrow> kernel_turns \<Rightarrow> u64 \<Rightarrow> u64 \<Rightarrow> (nat \<Rightarrow> rx_env) \<Rightarrow> queue_thread_args \<Rightarrow> forwarder \<Rightarrow> forwarder option" where
  "wan_queue_thread_l3l4 E l3_magic poll_ok ks now_l3 now_l4 envs args =
     wan_iteration poll_ok ks args
       (\<lambda>fw. fw\<lparr>fw_frag_l3 := frag_table_gc now_l3 (fw_frag_l3 fw), fw_frag_l4 := frag_table_gc now_l4 (fw_frag_l4 fw)\<rparr>)
       (\<lambda>n. wan_packet_l3l4 E l3_magic args (envs n))"

definition wan_queue_thread_l2 ::
    "evp \<Rightarrow> bool \<Rightarrow> kernel_turns \<Rightarrow> u64 \<Rightarrow> (nat \<Rightarrow> rx_env) \<Rightarrow> queue_thread_args \<Rightarrow> forwarder \<Rightarrow> forwarder option" where
  "wan_queue_thread_l2 E poll_ok ks now_l2 envs args =
     wan_iteration poll_ok ks args (\<lambda>fw. fw\<lparr>fw_frag_l2 := frag_table_gc now_l2 (fw_frag_l2 fw)\<rparr>)
       (\<lambda>n. wan_packet_l2 E args (envs n))"

definition wan_queue_thread_no_crypto ::
    "bool \<Rightarrow> kernel_turns \<Rightarrow> (nat \<Rightarrow> rx_env) \<Rightarrow> queue_thread_args \<Rightarrow> forwarder \<Rightarrow> forwarder option" where
  "wan_queue_thread_no_crypto poll_ok ks envs args =
     wan_iteration poll_ok ks args (\<lambda>fw. fw) (\<lambda>n. wan_packet_no_crypto args (envs n))"

definition local_iteration ::
    "bool \<Rightarrow> kernel_turns \<Rightarrow> queue_thread_args \<Rightarrow> (nat \<Rightarrow> nat list \<Rightarrow> lan_handler) \<Rightarrow> forwarder \<Rightarrow> forwarder option" where
  "local_iteration poll_ok ks args handler fw = do {
     let i = qa_iface_idx args;
     iface \<leftarrow> at (fw_locals fw) i;
     (ps, iface) \<leftarrow> recv_batch poll_ok ks (qa_queue_idx args) iface;
     let fw = fw\<lparr>fw_locals := (fw_locals fw)[i := iface]\<rparr>;
     if ps = [] then Some fw
     else do {
       tqs \<leftarrow> wan_tx_queues (int (qa_tx_queue_base args)) (fw_wans fw);
       (used, fw) \<leftarrow> handle_all (\<lambda>n. handler n tqs) 0 ps fw;
       let fw = flush_wans tqs used fw;
       iface \<leftarrow> at (fw_locals fw) i;
       iface \<leftarrow> interface_recv_release_single_queue (qa_queue_idx args) (map (snd \<circ> snd) ps) iface;
       Some (fw\<lparr>fw_locals := (fw_locals fw)[i := iface]\<rparr>)
     }
   }"

definition local_queue_thread_no_crypto ::
    "bool \<Rightarrow> kernel_turns \<Rightarrow> (nat \<Rightarrow> packet_env) \<Rightarrow> queue_thread_args \<Rightarrow> forwarder \<Rightarrow> forwarder option" where
  "local_queue_thread_no_crypto poll_ok ks envs args =
     local_iteration poll_ok ks args (\<lambda>n. local_packet_no_crypto (envs n) (qa_iface_idx args))"

definition local_queue_thread_l2 ::
    "evp \<Rightarrow> bool \<Rightarrow> kernel_turns \<Rightarrow> (nat \<Rightarrow> packet_env) \<Rightarrow> queue_thread_args \<Rightarrow> forwarder \<Rightarrow> forwarder option" where
  "local_queue_thread_l2 E poll_ok ks envs args =
     local_iteration poll_ok ks args (\<lambda>n. local_packet_l2 E (envs n) (qa_iface_idx args))"

text \<open>With the worker the LAN threads only queue jobs; a job that finds no room is dropped and its
  frame given back.\<close>

fun queue_jobs :: "queue_thread_args \<Rightarrow> (buf \<times> nat \<times> u64) list \<Rightarrow> worker_ring \<times> forwarder \<Rightarrow> (worker_ring \<times> forwarder) option" where
  "queue_jobs args [] s = Some s"
| "queue_jobs args ((pkt, len, addr) # ps) s = do {
     let (ring, fw) = s;
     let i = qa_iface_idx args;
     let (enqueued, ring) = ring_enqueue
       \<lparr>job_local_idx = int i, job_queue_idx = int (qa_queue_idx args), job_tx_queue_base = int (qa_tx_queue_base args),
        job_pkt = pkt, job_pkt_len = len, job_addr = addr\<rparr> ring;
     if enqueued then queue_jobs args ps (ring, fw)
     else do {
       iface \<leftarrow> at (fw_locals fw) i;
       iface \<leftarrow> interface_recv_release_single_queue (qa_queue_idx args) [addr] iface;
       queue_jobs args ps (ring, (count_dropped fw)\<lparr>fw_locals := (fw_locals fw)[i := iface]\<rparr>)
     }
   }"

definition local_queue_thread_l3l4 ::
    "bool \<Rightarrow> kernel_turns \<Rightarrow> queue_thread_args \<Rightarrow> worker_ring \<times> forwarder \<Rightarrow> (worker_ring \<times> forwarder) option" where
  "local_queue_thread_l3l4 poll_ok ks args s = do {
     let (ring, fw) = s;
     let i = qa_iface_idx args;
     iface \<leftarrow> at (fw_locals fw) i;
     (ps, iface) \<leftarrow> recv_batch poll_ok ks (qa_queue_idx args) iface;
     queue_jobs args ps (ring, fw\<lparr>fw_locals := (fw_locals fw)[i := iface]\<rparr>)
   }"

text \<open>The worker takes the oldest job; without one it yields.\<close>

definition worker_thread :: "evp \<Rightarrow> packet_env \<Rightarrow> worker_ring \<times> forwarder \<Rightarrow> (worker_ring \<times> forwarder) option" where
  "worker_thread E env s =
     (let (ring, fw) = s; (job, ring) = ring_dequeue ring
      in case job of None \<Rightarrow> Some (ring, fw) | Some job \<Rightarrow> map_option (Pair ring) (worker_job E env job fw))"

text \<open>One pass of the garbage collector, with its clocks.\<close>

definition gc_thread :: "u64 \<Rightarrow> u64 \<Rightarrow> u64 \<Rightarrow> u64 \<Rightarrow> u64 \<Rightarrow> forwarder \<Rightarrow> forwarder" where
  "gc_thread flow_now pin_now now_l2 now_l3 now_l4 fw =
     fw\<lparr>fw_flows := flow_table_gc flow_now (fw_flows fw),
        fw_pins := tcp_policy_pin_gc (rt_enabled (fw_rt fw)) pin_now (fw_pins fw),
        fw_frag_l2 := frag_table_gc now_l2 (fw_frag_l2 fw),
        fw_frag_l3 := frag_table_gc now_l3 (fw_frag_l3 fw),
        fw_frag_l4 := frag_table_gc now_l4 (fw_frag_l4 fw)\<rparr>"

end
