(* ===== verification/Ports.thy ===== *)
theory Ports
  imports Xsk
begin

text \<open>
  The interfaces as the packet threads see them: which packets each queue has been handed, and
  that a send, a flush or a release keeps the rings of every queue consistent.  An interface
  with a fixed queue is a packet port.
\<close>

section \<open>Whole interfaces\<close>

definition iface_ok :: "xsk_interface \<Rightarrow> bool" where
  "iface_ok iface \<longleftrightarrow> iface_geometry iface \<and>
     (\<forall>q \<in> set (xi_queues iface). queue_inv iface (mset (rx_frames iface q)) q)"

definition iface_sent :: "xsk_interface \<Rightarrow> buf list list" where
  "iface_sent iface = map queue_sent (xi_queues iface)"

text \<open>What never changes while the threads run.\<close>

definition link_shape :: "xsk_interface \<Rightarrow> nat \<times> u32 \<times> u32 \<times> u32 \<times> nat \<times> buf \<times> buf" where
  "link_shape iface = (xi_umem_size iface, xi_ring_size iface, xi_frame_size iface, xi_batch_size iface,
     length (xi_queues iface), xi_src_mac iface, xi_dst_mac iface)"

text \<open>Only the three sizes matter for the invariants of a queue.\<close>

lemma queue_inv_sizes:
  assumes "xi_umem_size i = xi_umem_size j" "xi_ring_size i = xi_ring_size j" "xi_frame_size i = xi_frame_size j"
  shows "iface_geometry i = iface_geometry j" "rx_frames i q = rx_frames j q" "queue_inv i M q = queue_inv j M q"
proof -
  have "frame_no i = frame_no j" "half_frames i = half_frames j"
    using assms by (simp_all add: frame_no_def half_frames_def fun_eq_iff)
  then show "iface_geometry i = iface_geometry j" "rx_frames i q = rx_frames j q" "queue_inv i M q = queue_inv j M q"
    using assms by (simp_all add: iface_geometry_def rx_frames_def queue_inv_def queue_rings_ok_def tx_pending_ok_def tx_frame_def)
qed

lemma iface_ok_queues:
  assumes "iface_ok i" and shape: "link_shape i' = link_shape i"
    and "\<And>k. k < length (xi_queues i) \<Longrightarrow> queue_inv i (mset (rx_frames i (xi_queues i' ! k))) (xi_queues i' ! k)"
  shows "iface_ok i'"
proof -
  have s: "xi_umem_size i' = xi_umem_size i" "xi_ring_size i' = xi_ring_size i" "xi_frame_size i' = xi_frame_size i"
      "length (xi_queues i') = length (xi_queues i)"
    using shape by (auto simp: link_shape_def)
  note sz = queue_inv_sizes [OF s(1-3)]
  show ?thesis using assms(1,3) s(4) by (auto simp: iface_ok_def sz in_set_conv_nth)
qed

text \<open>Changing one queue.\<close>

lemma iface_set_queue:
  assumes "iface_ok i" "k < length (xi_queues i)" "queue_inv i M q"
    and i': "xi_queues i' = (xi_queues i)[k := q]" "link_shape i' = link_shape i"
  shows "iface_ok i'" "iface_sent i' = (iface_sent i)[k := queue_sent q]"
proof -
  have "mset (rx_frames i q) = M" using assms(3) by (simp add: queue_inv_def)
  then show "iface_ok i'"
    using assms(1-3) i' by (intro iface_ok_queues [OF assms(1) i'(2)]) (auto simp: iface_ok_def nth_list_update)
  show "iface_sent i' = (iface_sent i)[k := queue_sent q]" using i'(1) by (simp add: iface_sent_def map_update)
qed

section \<open>Sending\<close>

definition handed_over :: "nat \<Rightarrow> buf \<Rightarrow> int \<Rightarrow> xsk_interface \<Rightarrow> buf list list" where
  "handed_over tq pkt ret iface =
     (if ret = 0 then (iface_sent iface)[tq := iface_sent iface ! tq @ [pkt]] else iface_sent iface)"

lemma iface_sent_nth: "k < length (xi_queues i) \<Longrightarrow> iface_sent i ! k = queue_sent (xi_queues i ! k)"
  by (simp add: iface_sent_def)

lemma send_on_ok:
  assumes i: "iface_ok i" and k: "k < length (xi_queues i)"
    and send: "\<And>q. queue_inv i (mset (rx_frames i q)) q \<Longrightarrow> send_ok i (mset (rx_frames i q)) q pkt (send pkt q)"
  obtains ret i' where "send_on send k pkt i = Some (ret, i')" "ret = 0 \<or> ret = -1" "iface_ok i'"
    "iface_sent i' = handed_over k pkt ret i" "link_shape i' = link_shape i"
proof -
  let ?q = "xi_queues i ! k"
  have "queue_inv i (mset (rx_frames i ?q)) ?q" using i k by (simp add: iface_ok_def)
  from send [OF this] obtain ret q' where s: "send pkt ?q = Some (ret, q')" "ret = 0 \<or> ret = -1"
      "queue_inv i (mset (rx_frames i ?q)) q'" "queue_sent q' = (if ret = 0 then queue_sent ?q @ [pkt] else queue_sent ?q)"
    by (auto simp: send_ok_def)
  define i' where "i' = (let j = i\<lparr>xi_queues := (xi_queues i)[k := q']\<rparr>
    in if ret = 0 then j\<lparr>xi_tx_packets := xi_tx_packets j + 1, xi_tx_bytes := xi_tx_bytes j + of_nat (length pkt)\<rparr> else j)"
  have r: "send_on send k pkt i = Some (ret, i')" using k s(1) by (simp add: send_on_def i'_def Let_def)
  have q: "xi_queues i' = (xi_queues i)[k := q']" and sh: "link_shape i' = link_shape i"
    by (simp_all add: i'_def Let_def link_shape_def)
  note ok = iface_set_queue [OF i k s(3) q sh]
  have "iface_sent i' = handed_over k pkt ret i"
    using ok(2) s(4) k iface_sent_nth [OF k]
    by (auto simp: handed_over_def) (metis list_update_id iface_sent_nth)
  then show ?thesis using that r s(2) ok(1) sh by blast
qed

lemma interface_send_ok:
  assumes "iface_ok i" "k < length (xi_queues i)" "kernels_ok i ks" "length pkt \<le> unat (xi_frame_size i)"
  obtains ret i' where "interface_send_batch_queue ks k pkt i = Some (ret, i')" "ret = 0 \<or> ret = -1" "iface_ok i'"
    "iface_sent i' = handed_over k pkt ret i" "link_shape i' = link_shape i"
  using send_on_ok [OF assms(1,2), of pkt "send_batch_on_queue ks i"] send_batch_on_queue_ok [OF _ assms(3) _ assms(4)]
    assms(1) unfolding interface_send_batch_queue_def iface_ok_def by metis

lemma interface_send_to_local_ok:
  assumes "iface_ok i" "k < length (xi_queues i)" "kernels_ok i ks" "length pkt \<le> unat (xi_frame_size i)"
  obtains ret i' where "interface_send_to_local_batch_queue ks k pkt i = Some (ret, i')" "ret = 0 \<or> ret = -1" "iface_ok i'"
    "iface_sent i' = handed_over k pkt ret i" "link_shape i' = link_shape i"
  using send_on_ok [OF assms(1,2), of pkt "send_to_local_on_queue ks i"] send_to_local_on_queue_ok [OF _ assms(3) _ assms(4)]
    assms(1) unfolding interface_send_to_local_batch_queue_def iface_ok_def by metis

section \<open>Flushing and giving back\<close>

lemma flush_ok:
  assumes "iface_ok i"
  shows "iface_ok (interface_send_flush_queue k i)" "iface_sent (interface_send_flush_queue k i) = iface_sent i"
    "link_shape (interface_send_flush_queue k i) = link_shape i"
proof -
  let ?i = "interface_send_flush_queue k i"
  have q: "queue_inv i M (q\<lparr>xq_pending_tx_count := 0\<rparr>) = queue_inv i M q" "rx_frames i (q\<lparr>xq_pending_tx_count := 0\<rparr>) = rx_frames i q"
      "queue_sent (q\<lparr>xq_pending_tx_count := 0\<rparr>) = queue_sent q" for M q
    by (simp_all add: queue_inv_def queue_rings_ok_def tx_pending_ok_def rx_frames_def queue_sent_def)
  show shape: "link_shape ?i = link_shape i"
    by (simp add: interface_send_flush_queue_def link_shape_def Let_def)
  show "iface_sent ?i = iface_sent i"
    by (auto simp: interface_send_flush_queue_def iface_sent_def Let_def map_update q list_update_same_conv)
  show "iface_ok ?i" using assms
    by (intro iface_ok_queues [OF assms shape])
       (auto simp: interface_send_flush_queue_def iface_ok_def Let_def nth_list_update q)
qed

lemma release_ok:
  assumes i: "iface_ok i" and k: "k < length (xi_queues i)"
    and room: "length (rx_frames i (xi_queues i ! k)) + length addrs \<le> unat (xi_ring_size i)"
    and half: "\<forall>a\<in>set addrs. frame_no i a < half_frames i"
  obtains i' where "interface_recv_release_single_queue k addrs i = Some i'" "iface_ok i'" "iface_sent i' = iface_sent i"
    "link_shape i' = link_shape i"
    "mset (rx_frames i (xi_queues i' ! k)) = mset (rx_frames i (xi_queues i ! k)) + mset (map (frame_no i) addrs)"
proof -
  let ?q = "xi_queues i ! k"
  have "queue_inv i (mset (rx_frames i ?q)) ?q" using i k by (simp add: iface_ok_def)
  from release_all_ok [OF this _ half] room obtain q' where r: "release_all addrs ?q = Some q'"
      "queue_inv i (mset (rx_frames i ?q) + mset (map (frame_no i) addrs)) q'" "queue_sent q' = queue_sent ?q"
    by auto
  define i' where "i' = i\<lparr>xi_queues := (xi_queues i)[k := q']\<rparr>"
  have q: "xi_queues i' = (xi_queues i)[k := q']" and sh: "link_shape i' = link_shape i"
    by (simp_all add: i'_def link_shape_def)
  note ok = iface_set_queue [OF i k r(2) q sh]
  have "iface_sent i' = iface_sent i" using ok(2) r(3) k by (metis iface_sent_nth list_update_id)
  moreover have "interface_recv_release_single_queue k addrs i = Some i'"
    using k r(1) by (simp add: interface_recv_release_single_queue_def i'_def)
  moreover have "mset (rx_frames i (xi_queues i' ! k)) = mset (rx_frames i ?q) + mset (map (frame_no i) addrs)"
    using r(2) k by (simp add: q queue_inv_def)
  ultimately show ?thesis using that ok(1) sh by blast
qed

end
