(* ===== verification/Sizes.thy ===== *)
theory Sizes
  imports Forwarder
begin

text \<open>
  Encryption and splitting work in place: the memory of a packet and of the fragment buffers
  keeps its size.
\<close>

lemma tunnel_header_length [len_dests]:
  "crypto_write_l3_tunnel_header a b c d e f = Some p' \<Longrightarrow> length p' = length a"
  by (auto simp: crypto_write_l3_tunnel_header_def Let_def split: bind_splits if_splits dest!: len_dests)

lemma write_counter_length [len_dests]: "crypto_write_counter p a b c d = Some p' \<Longrightarrow> length p' = length p"
  by (auto simp: crypto_write_counter_def Let_def split: bind_splits if_splits dest!: len_dests)

lemma l3_patch_length [len_dests]: "l3_patch_ipv4 p a b c = Some p' \<Longrightarrow> length p' = length p"
  by (auto simp: l3_patch_ipv4_def Let_def split: bind_splits if_splits dest!: len_dests)

lemma frag_tag_length [len_dests]: "write_frag_tag p a b c = Some p' \<Longrightarrow> length p' = length p"
  by (auto simp: write_frag_tag_def Let_def split: bind_splits if_splits dest!: len_dests)

lemma l4_header_length [len_dests]:
  "l4_write_tunnel_header st p off n k = Some p' \<Longrightarrow> length p' = length p"
  "l4_write_tunnel_header_frag st p off n k = Some p' \<Longrightarrow> length p' = length p"
  "l4_fix_ipv4_totlen_and_cksum p a b c = Some p' \<Longrightarrow> length p' = length p"
  "l3_write_tunnel_header_frag st p off n k = Some p' \<Longrightarrow> length p' = length p"
  by (auto simp: l4_write_tunnel_header_def l4_write_tunnel_header_frag_def l4_fix_ipv4_totlen_and_cksum_def
      l3_write_tunnel_header_frag_def dest!: len_dests)

lemma layer4_encrypt_length: "crypto_layer4_encrypt E ctx p n st = Some (rc, p', st') \<Longrightarrow> length p' = length p"
  by (auto simp: crypto_layer4_encrypt_def Let_def
      split: bind_splits if_splits option.splits prod.splits dest!: len_dests)

lemma layer3_encrypt_length: "crypto_layer3_encrypt E ctx p n st = Some (rc, p', st') \<Longrightarrow> length p' = length p"
  by (auto simp: crypto_layer3_encrypt_def Let_def
      split: bind_splits if_splits option.splits prod.splits dest!: len_dests)

lemma layer2_encrypt_length: "crypto_layer2_encrypt E ctx p n st = Some (rc, p', st') \<Longrightarrow> length p' = length p"
  by (auto simp: crypto_layer2_encrypt_def Let_def
      split: bind_splits if_splits option.splits prod.splits dest!: len_dests)

lemma encrypt_at_length: "encrypt_at E action ctx p n st = Some (rc, p', st') \<Longrightarrow> length p' = length p"
  by (auto simp: encrypt_at_def split: if_splits
      dest: layer4_encrypt_length layer3_encrypt_length layer2_encrypt_length)

lemma layer4_fragment_length:
  "crypto_layer4_encrypt_fragment_single E ctx eth ip ihl ports plain i j out mx st = Some (rc, out', n, st') \<Longrightarrow>
    length out' = length out"
  by (auto simp: crypto_layer4_encrypt_fragment_single_def Let_def
      split: bind_splits if_splits option.splits prod.splits dest!: len_dests)

lemma layer3_fragment_length:
  "crypto_layer3_encrypt_fragment_single E ctx eth ip ihl plain i j out mx st = Some (rc, out', n, st') \<Longrightarrow>
    length out' = length out"
  by (auto simp: crypto_layer3_encrypt_fragment_single_def Let_def
      split: bind_splits if_splits option.splits prod.splits dest!: len_dests)

lemma layer2_fragment_length:
  "crypto_layer2_encrypt_fragment_single E ctx eth plain i j out mx st = Some (rc, out', n, st') \<Longrightarrow>
    length out' = length out"
  by (auto simp: crypto_layer2_encrypt_fragment_single_def Let_def
      split: bind_splits if_splits option.splits prod.splits dest!: len_dests)

lemma encrypt_halves_length:
  assumes "encrypt_halves first second f2 cnt st = Some (rc, (g1, l1), (g2, l2), cnt', st')"
    and first: "\<And>s r g n s'. first s = Some (r, g, n, s') \<Longrightarrow> length g = length f1"
    and second: "\<And>s r g n s'. second s = Some (r, g, n, s') \<Longrightarrow> length g = length f2"
  shows "length g1 = length f1 \<and> length g2 = length f2"
proof -
  obtain r h n s where 1: "first st = Some (r, h, n, s)"
    using assms(1) by (auto simp: encrypt_halves_def split: bind_splits)
  show ?thesis using assms(1) first [OF 1] 1
    by (auto simp: encrypt_halves_def split: bind_splits if_splits intro: second)
qed

lemma split_at_length:
  assumes "split_at E action ctx p n f1 f2 cnt st = Some (rc, (g1, l1), (g2, l2), cnt', st')"
  shows "length g1 = length f1 \<and> length g2 = length f2"
  using assms
  by (auto simp: split_at_def frag_split_and_encrypt_l2_def frag_split_and_encrypt_def frag_split_and_encrypt_l4_def Let_def
      split: if_splits bind_splits option.splits prod.splits
      elim!: encrypt_halves_length
      dest: layer4_fragment_length layer3_fragment_length layer2_fragment_length)

end
