(* ===== verification/Worker.thy ===== *)
theory Worker
  imports Sizes Ports
begin

text \<open>
  What the worker guarantees: every packet of a job is either handed to the chosen link or
  counted as dropped, the LAN frame is given back, and which packets can leave as they came.
\<close>

section \<open>What a step did to the links\<close>

definition fw_ok :: "forwarder \<Rightarrow> bool" where
  "fw_ok fw \<longleftrightarrow> (\<forall>iface \<in> set (fw_wans fw) \<union> set (fw_locals fw). iface_ok iface)"

definition wan_sent :: "forwarder \<Rightarrow> buf list list list" where
  "wan_sent fw = map iface_sent (fw_wans fw)"

definition lan_sent :: "forwarder \<Rightarrow> buf list list list" where
  "lan_sent fw = map iface_sent (fw_locals fw)"

text \<open>The packets \<open>ps\<close> appended at queue \<open>q\<close> of link \<open>w\<close>.\<close>

definition append_sent :: "nat \<Rightarrow> nat \<Rightarrow> buf list \<Rightarrow> buf list list list \<Rightarrow> buf list list list" where
  "append_sent w q ps s = (if ps = [] then s else s[w := (s ! w)[q := s ! w ! q @ ps]])"

text \<open>
  From one state to the next, \<open>ps\<close> went to queue \<open>q\<close> of link \<open>w\<close>, \<open>d\<close> packets were counted as
  dropped, and the configuration, the keys and the shape of the links stayed.
\<close>

definition outcome :: "nat \<Rightarrow> nat \<Rightarrow> buf list \<Rightarrow> nat \<Rightarrow> forwarder \<Rightarrow> forwarder \<Rightarrow> bool" where
  "outcome w q ps d fw fw' \<longleftrightarrow> fw_ok fw' \<and> wan_sent fw' = append_sent w q ps (wan_sent fw) \<and> lan_sent fw' = lan_sent fw \<and>
     fw_local_to_wan fw' = fw_local_to_wan fw + of_nat (length ps) \<and>
     fw_total_dropped fw' = fw_total_dropped fw + of_nat d \<and>
     map link_shape (fw_wans fw') = map link_shape (fw_wans fw) \<and> fw_locals fw' = fw_locals fw \<and>
     fw_cfg fw' = fw_cfg fw \<and> fw_rt fw' = fw_rt fw"

lemma append_sent_append: "w < length s \<Longrightarrow> q < length (s ! w) \<Longrightarrow>
    append_sent w q ps' (append_sent w q ps s) = append_sent w q (ps @ ps') s"
  by (auto simp: append_sent_def)

lemma append_sent_Nil [simp]: "append_sent w q [] s = s"
  by (simp add: append_sent_def)

lemma outcome_trans:
  assumes "outcome w q ps d fw fw1" "outcome w q ps' d' fw1 fw2"
    and "w < length (fw_wans fw)" "q < length (xi_queues (fw_wans fw ! w))"
  shows "outcome w q (ps @ ps') (d + d') fw fw2"
proof -
  have "w < length (wan_sent fw)" "q < length (wan_sent fw ! w)" using assms(3,4) by (simp_all add: wan_sent_def iface_sent_def)
  then show ?thesis using assms(1,2) append_sent_append by (simp add: outcome_def add.assoc)
qed

text \<open>Steps that touch neither links nor counters.\<close>

lemma outcome_refl: "fw_ok fw \<Longrightarrow> fw_wans fw' = fw_wans fw \<Longrightarrow> fw_locals fw' = fw_locals fw \<Longrightarrow>
    fw_local_to_wan fw' = fw_local_to_wan fw \<Longrightarrow> fw_total_dropped fw' = fw_total_dropped fw \<Longrightarrow>
    fw_cfg fw' = fw_cfg fw \<Longrightarrow> fw_rt fw' = fw_rt fw \<Longrightarrow> outcome w q [] 0 fw fw'"
  by (simp add: outcome_def fw_ok_def wan_sent_def lan_sent_def)

lemma outcome_dropped: "fw_ok fw \<Longrightarrow> outcome w q [] 1 fw (count_dropped fw)"
  by (simp add: outcome_def fw_ok_def wan_sent_def lan_sent_def count_dropped_def)

lemma outcome_shape:
  assumes "outcome w q ps d fw fw'" "k < length (fw_wans fw)"
  shows "k < length (fw_wans fw')" "link_shape (fw_wans fw' ! k) = link_shape (fw_wans fw ! k)"
proof -
  have m: "map link_shape (fw_wans fw') = map link_shape (fw_wans fw)" using assms(1) by (simp add: outcome_def)
  then show k: "k < length (fw_wans fw')" using assms(2) by (metis length_map)
  show "link_shape (fw_wans fw' ! k) = link_shape (fw_wans fw ! k)" using m k assms(2) by (metis nth_map)
qed

section \<open>Sending on the chosen link\<close>

text \<open>What the theorems ask of the environment of a send: the kernel does nothing else than what
  AF_XDP documents, and the packet's memory fits into a frame of the link.\<close>

definition link_ready :: "forwarder \<Rightarrow> nat \<Rightarrow> nat \<Rightarrow> bool" where
  "link_ready fw w q \<longleftrightarrow> fw_ok fw \<and> w < length (fw_wans fw) \<and> q < length (xi_queues (fw_wans fw ! w))"

lemma link_ready_outcome: "link_ready fw w q \<Longrightarrow> outcome w q ps d fw fw' \<Longrightarrow> link_ready fw' w q"
  using outcome_shape [of w q ps d fw fw' w] by (auto simp: link_ready_def outcome_def link_shape_def)

lemma send_to_wan_ok:
  assumes ready: "link_ready fw w q" and ks: "kernels_ok (fw_wans fw ! w) ks"
    and len: "n \<le> length pkt" "n \<le> unat (xi_frame_size (fw_wans fw ! w))"
  obtains used fw' where "send_to_wan ks w q pkt n fw = Some (used, fw')"
    "outcome w q (if used then [take n pkt] else []) (if used then 0 else 1) fw fw'"
proof -
  let ?i = "fw_wans fw ! w"
  have i: "iface_ok ?i" "w < length (fw_wans fw)" "q < length (xi_queues ?i)"
    using ready by (auto simp: link_ready_def fw_ok_def)
  obtain ret i' where s: "interface_send_batch_queue ks q (take n pkt) ?i = Some (ret, i')" "ret = 0 \<or> ret = -1"
      "iface_ok i'" "iface_sent i' = handed_over q (take n pkt) ret ?i" "link_shape i' = link_shape ?i"
    by (rule interface_send_ok [OF i(1,3) ks, of "take n pkt"]) (use len in auto)
  define fw1 where "fw1 = fw\<lparr>fw_wans := (fw_wans fw)[w := i']\<rparr>"
  define fw' where "fw' = (if ret = 0 then fw1\<lparr>fw_local_to_wan := fw_local_to_wan fw1 + 1\<rparr> else count_dropped fw1)"
  have run: "send_to_wan ks w q pkt n fw = Some (ret = 0, fw')"
    using i(2) len s(1) by (simp add: send_to_wan_def fw'_def fw1_def Let_def)
  have ok: "fw_ok fw'" using ready s(3) i(2)
    by (auto simp: fw_ok_def link_ready_def fw'_def fw1_def count_dropped_def dest!: set_update_subset_insert [THEN subsetD])
  have "wan_sent fw' = (wan_sent fw)[w := iface_sent i']"
    by (simp add: wan_sent_def fw'_def fw1_def count_dropped_def map_update)
  then have "wan_sent fw' = append_sent w q (if ret = 0 then [take n pkt] else []) (wan_sent fw)"
    using s(4) i(2) by (auto simp: append_sent_def handed_over_def wan_sent_def list_update_same_conv)
  moreover have "map link_shape (fw_wans fw') = map link_shape (fw_wans fw)"
    using s(5) i(2) by (simp add: fw'_def fw1_def count_dropped_def map_update list_update_same_conv)
  ultimately have "outcome w q (if ret = 0 then [take n pkt] else []) (if ret = 0 then 0 else 1) fw fw'"
    using ok by (auto simp: outcome_def lan_sent_def fw'_def fw1_def count_dropped_def)
  then show ?thesis using that [OF run] by simp
qed

section \<open>The stages\<close>

text \<open>Hardware addresses have six bytes.\<close>

definition addresses_ok :: "forwarder \<Rightarrow> bool" where
  "addresses_ok fw \<longleftrightarrow> (\<forall>c \<in> set (fw_wan_arp fw) \<union> set (fw_arp fw). length (arp_if_mac c) = 6 \<and>
       length (arp_entries c) = ARP_CACHE_SIZE \<and> (\<forall>e \<in> set (arp_entries c). length (ae_mac e) = 6)) \<and>
     (\<forall>i \<in> set (fw_wans fw). length (xi_dst_mac i) = 6 \<and> length (xi_src_mac i) = 6)"

lemma arp_lookup_length:
  assumes "arp_cache_lookup c ip = Some mac" "\<forall>e \<in> set (arp_entries c). length (ae_mac e) = 6"
    and "length (arp_entries c) = ARP_CACHE_SIZE"
  shows "length mac = 6"
proof -
  have "arp_slot ip i < ARP_CACHE_SIZE" for i
    using word_and_le1 [of "arp_hash ip + of_nat i" 2047] by (simp add: arp_slot_def word_le_nat_alt and.commute)
  then show ?thesis using assms
    by (auto simp: arp_cache_lookup_def arp_probe_def Let_def split: option.splits if_splits)
qed

lemma set_wan_l2_addrs_ok:
  assumes "set_wan_l2_addrs w pkt fw = Some (rc, pkt', fw')"
  shows "length pkt' = length pkt" "fw' = fw\<lparr>fw_arp_requests := fw_arp_requests fw'\<rparr>"
  using assms
  by (auto simp: set_wan_l2_addrs_def wan_rewrite_dest_mac_def note_request_def Let_def
      split: if_splits bind_splits option.splits dest!: len_dests)

lemma set_wan_l2_addrs_outcome:
  assumes "set_wan_l2_addrs w pkt fw = Some (rc, pkt', fw')" "link_ready fw i q"
  shows "outcome i q [] 0 fw fw'" "link_ready fw' i q"
proof -
  have "fw_ok fw" using assms(2) by (simp add: link_ready_def)
  then show o: "outcome i q [] 0 fw fw'"
    by (rule outcome_refl) (subst set_wan_l2_addrs_ok(2) [OF assms(1)], simp)+
  show "link_ready fw' i q" by (rule link_ready_outcome [OF assms(2) o])
qed

text \<open>What leaves is the packet with other addresses.\<close>

lemma wan_rewrite_body:
  assumes "wan_rewrite_dest_mac c cfg d s pkt = Some (rc, pkt', r)"
    and "length d = 6" "length s = 6" "length (arp_if_mac c) = 6" "\<forall>e \<in> set (arp_entries c). length (ae_mac e) = 6"
    and "length (arp_entries c) = ARP_CACHE_SIZE"
  shows "drop 12 pkt' = drop 12 pkt"
  using assms arp_lookup_length [OF _ assms(5,6)]
  by (auto simp: wan_rewrite_dest_mac_def wrn_eq_Some_iff drop_append
      split: if_splits bind_splits option.splits)

lemma set_wan_l2_addrs_body:
  assumes "set_wan_l2_addrs w pkt fw = Some (rc, pkt', fw')" "addresses_ok fw"
  shows "drop 12 pkt' = drop 12 pkt"
proof (cases "w < 0 \<or> int (length (fw_wans fw)) \<le> w")
  case True
  then show ?thesis using assms(1) by (simp add: set_wan_l2_addrs_def)
next
  case False
  then obtain c wc r where r: "at (fw_wan_arp fw) (nat w) = Some c"
      "wan_rewrite_dest_mac c wc (xi_dst_mac (fw_wans fw ! nat w)) (xi_src_mac (fw_wans fw ! nat w)) pkt = Some (rc, pkt', r)"
    using assms(1) by (auto simp: set_wan_l2_addrs_def Let_def split: bind_splits)
  have "c \<in> set (fw_wan_arp fw)" "fw_wans fw ! nat w \<in> set (fw_wans fw)" using r(1) False by (auto simp: at_eq_Some_iff)
  then show ?thesis using assms(2) by (intro wan_rewrite_body [OF r(2)]) (auto simp: addresses_ok_def)
qed

text \<open>A packet on the wire and the memory it was taken from: the addresses aside they agree.\<close>

definition same_body :: "nat \<Rightarrow> buf \<Rightarrow> buf \<Rightarrow> bool" where
  "same_body n pkt p \<longleftrightarrow> length p = n \<and> drop 12 p = drop 12 (take n pkt)"

lemma same_body_take: "drop 12 pkt' = drop 12 pkt \<Longrightarrow> n \<le> length pkt' \<Longrightarrow> same_body n pkt (take n pkt')"
  by (simp add: same_body_def drop_take)

text \<open>The environment of a step on link \<open>w\<close>.\<close>

definition env_ok :: "packet_env \<Rightarrow> xsk_interface \<Rightarrow> bool" where
  "env_ok env iface \<longleftrightarrow> kernels_ok iface (pe_turns1 env) \<and> kernels_ok iface (pe_turns2 env) \<and>
     length (pe_f1 env) \<le> unat (xi_frame_size iface) \<and> length (pe_f2 env) \<le> unat (xi_frame_size iface)"

lemma env_ok_outcome: "w < length (fw_wans fw) \<Longrightarrow> outcome w q ps d fw fw' \<Longrightarrow>
    env_ok env (fw_wans fw' ! w) = env_ok env (fw_wans fw ! w)"
    "w < length (fw_wans fw) \<Longrightarrow> outcome w q ps d fw fw' \<Longrightarrow>
    xi_frame_size (fw_wans fw' ! w) = xi_frame_size (fw_wans fw ! w)"
  using outcome_shape(2) [of w q ps d fw fw' w] by (auto simp: env_ok_def link_shape_def)

text \<open>
  The result of a stage that had \<open>n\<close> packets to send: what was sent came from \<open>P\<close>, the rest was
  counted, and only a stage that sent nothing goes straight to the release.
\<close>

definition stage_ok :: "(buf \<Rightarrow> bool) \<Rightarrow> nat \<Rightarrow> nat \<Rightarrow> nat \<Rightarrow> forwarder \<Rightarrow> bool \<times> bool \<times> forwarder \<Rightarrow> bool" where
  "stage_ok P n w q fw r \<longleftrightarrow> (case r of (stop, used, fw') \<Rightarrow>
     \<exists>ps d. outcome w q ps d fw fw' \<and> (\<forall>p\<in>set ps. P p) \<and>
       (if stop then ps = [] \<and> d = 1 else length ps + d = n) \<and> (used \<longleftrightarrow> ps \<noteq> []))"

lemma send_stage:
  assumes "link_ready fw w q" "kernels_ok (fw_wans fw ! w) ks" "length pkt \<le> unat (xi_frame_size (fw_wans fw ! w))"
    and run: "send_to_wan ks w q pkt n fw = Some (used, fw')"
  shows "\<exists>ps d. outcome w q ps d fw fw' \<and> ps = (if used then [take n pkt] else []) \<and> length ps + d = 1"
    "n \<le> length pkt"
proof -
  show n: "n \<le> length pkt" using run by (auto simp: send_to_wan_def rdn_def split: bind_splits if_splits)
  obtain u f where "send_to_wan ks w q pkt n fw = Some (u, f)"
      "outcome w q (if u then [take n pkt] else []) (if u then 0 else 1) fw f"
    by (rule send_to_wan_ok [OF assms(1,2), of n pkt]) (use n assms(3) in auto)
  then show "\<exists>ps d. outcome w q ps d fw fw' \<and> ps = (if used then [take n pkt] else []) \<and> length ps + d = 1"
    using run by auto
qed

lemma stage_dropped:
  assumes "link_ready fw w q" "outcome w q [] 0 fw fw'"
  shows "stage_ok P n w q fw (True, False, count_dropped fw')"
proof -
  have "fw_ok fw'" using assms(2) by (simp add: outcome_def)
  from outcome_trans [OF assms(2) outcome_dropped [OF this]] assms(1)
  have "outcome w q [] 1 fw (count_dropped fw')" by (simp add: link_ready_def)
  then show ?thesis by (auto simp: stage_ok_def intro!: exI [of _ "[]"])
qed

lemma send_plain_ok:
  assumes ready: "link_ready fw w q" "env_ok env (fw_wans fw ! w)" "length pkt \<le> unat (xi_frame_size (fw_wans fw ! w))"
    and addr: "addresses_ok fw" and run: "send_plain env w q pkt n fw = Some r"
  shows "stage_ok (same_body n pkt) 1 w q fw r"
proof -
  obtain rc pkt1 fw1 where a: "set_wan_l2_addrs (int w) pkt fw = Some (rc, pkt1, fw1)"
    using run by (auto simp: send_plain_def split: bind_splits)
  note o1 = set_wan_l2_addrs_outcome [OF a ready(1)]
  have w: "w < length (fw_wans fw)" "q < length (xi_queues (fw_wans fw ! w))" using ready(1) by (auto simp: link_ready_def)
  have body: "drop 12 pkt1 = drop 12 pkt" by (rule set_wan_l2_addrs_body [OF a addr])
  have len: "length pkt1 = length pkt" by (rule set_wan_l2_addrs_ok(1) [OF a])
  have env: "env_ok env (fw_wans fw1 ! w)" "xi_frame_size (fw_wans fw1 ! w) = xi_frame_size (fw_wans fw ! w)"
    using env_ok_outcome [OF w(1) o1(1)] ready(2) by auto
  show ?thesis
  proof (cases "rc = 0")
    case False
    then show ?thesis using run a stage_dropped [OF ready(1) o1(1)] by (simp add: send_plain_def)
  next
    case True
    then obtain used fw2 where s: "send_to_wan (pe_turns1 env) w q pkt1 n fw1 = Some (used, fw2)" "r = (False, used, fw2)"
      using run a by (auto simp: send_plain_def split: bind_splits)
    have "kernels_ok (fw_wans fw1 ! w) (pe_turns1 env)" "length pkt1 \<le> unat (xi_frame_size (fw_wans fw1 ! w))"
      using env len ready(3) by (auto simp: env_ok_def)
    from send_stage [OF o1(2) this s(1)] obtain ps d where
      ps: "outcome w q ps d fw1 fw2" "ps = (if used then [take n pkt1] else [])" "length ps + d = 1" "n \<le> length pkt1" by auto
    have "outcome w q ps d fw fw2" using outcome_trans [OF o1(1) ps(1) w] by simp
    then show ?thesis unfolding stage_ok_def s(2) prod.case
      by (intro exI [of _ ps] exI [of _ d]) (use ps same_body_take [OF body ps(4)] in auto)
  qed
qed

lemma addresses_ok_step: "addresses_ok fw \<Longrightarrow> set_wan_l2_addrs w pkt fw = Some (rc, pkt', fw') \<Longrightarrow> addresses_ok fw'"
  by (drule set_wan_l2_addrs_ok(2), erule ssubst) (simp add: addresses_ok_def)

lemma env_ok_rewrite:
  assumes "set_wan_l2_addrs i pkt fw = Some (rc, pkt', fw')" "link_ready fw w q" "env_ok env (fw_wans fw ! w)"
  shows "env_ok env (fw_wans fw' ! w)" "xi_frame_size (fw_wans fw' ! w) = xi_frame_size (fw_wans fw ! w)"
  using set_wan_l2_addrs_ok(2) [OF assms(1)] assms(3) by (metis forwarder.select_convs(13) forwarder.surjective forwarder.update_convs(14))+

text \<open>Two sends in a row.\<close>

lemma send_two:
  assumes ready: "link_ready fw w q" "kernels_ok (fw_wans fw ! w) ks1" "kernels_ok (fw_wans fw ! w) ks2"
      "length f1 \<le> unat (xi_frame_size (fw_wans fw ! w))" "length f2 \<le> unat (xi_frame_size (fw_wans fw ! w))"
    and run: "send_to_wan ks1 w q f1 l1 fw = Some (used1, fw1)" "send_to_wan ks2 w q f2 l2 fw1 = Some (used2, fw2)"
  obtains ps d where "outcome w q ps d fw fw2" "length ps + d = 2" "set ps \<subseteq> {take l1 f1, take l2 f2}"
    "(used1 \<or> used2) = (ps \<noteq> [])" "l1 \<le> length f1" "l2 \<le> length f2"
proof -
  have w: "w < length (fw_wans fw)" "q < length (xi_queues (fw_wans fw ! w))" using ready(1) by (auto simp: link_ready_def)
  obtain ps d where 1: "outcome w q ps d fw fw1" "ps = (if used1 then [take l1 f1] else [])" "length ps + d = 1"
    using send_stage(1) [OF ready(1,2,4) run(1)] by blast
  have shape: "xi_frame_size (fw_wans fw1 ! w) = xi_frame_size (fw_wans fw ! w)" using env_ok_outcome(2) [OF w(1) 1(1)] .
  then have "kernels_ok (fw_wans fw1 ! w) ks2" "length f2 \<le> unat (xi_frame_size (fw_wans fw1 ! w))" using ready(3,5) by auto
  from send_stage [OF link_ready_outcome [OF ready(1) 1(1)] this run(2)] obtain ps' d' where
    2: "outcome w q ps' d' fw1 fw2" "ps' = (if used2 then [take l2 f2] else [])" "length ps' + d' = 1" "l2 \<le> length f2" by blast
  show ?thesis
    using that [OF outcome_trans [OF 1(1) 2(1) w]] 1(2,3) 2(2-4) send_stage(2) [OF ready(1,2,4) run(1)] by (auto split: if_splits)
qed

lemma send_fragments_ok:
  assumes ready: "link_ready fw w q" "env_ok env (fw_wans fw ! w)"
      "length f1 \<le> unat (xi_frame_size (fw_wans fw ! w))" "length f2 \<le> unat (xi_frame_size (fw_wans fw ! w))"
    and addr: "addresses_ok fw" and run: "send_fragments env w q (f1, l1) (f2, l2) fw = Some r"
  shows "stage_ok (\<lambda>p. same_body l1 f1 p \<or> same_body l2 f2 p) 2 w q fw r"
proof -
  obtain rc g1 fw1 where a: "set_wan_l2_addrs (int w) f1 fw = Some (rc, g1, fw1)"
    using run by (auto simp: send_fragments_def split: bind_splits)
  note o1 = set_wan_l2_addrs_outcome [OF a ready(1)]
  have w: "w < length (fw_wans fw)" "q < length (xi_queues (fw_wans fw ! w))" using ready(1) by (auto simp: link_ready_def)
  show ?thesis
  proof (cases "rc = 0")
    case False
    then show ?thesis using run a stage_dropped [OF ready(1) o1(1)] by (simp add: send_fragments_def)
  next
    case True
    then obtain rc2 g2 fw2 where b: "set_wan_l2_addrs (int w) f2 fw1 = Some (rc2, g2, fw2)"
      using run a by (auto simp: send_fragments_def split: bind_splits)
    note o2 = set_wan_l2_addrs_outcome [OF b o1(2)]
    have o12: "outcome w q [] 0 fw fw2" using outcome_trans [OF o1(1) o2(1) w] by simp
    show ?thesis
    proof (cases "rc2 = 0")
      case False
      then show ?thesis using run a b True stage_dropped [OF ready(1) o12] by (simp add: send_fragments_def)
    next
      case t2: True
      obtain used1 fw3 used2 fw4 where s: "send_to_wan (pe_turns1 env) w q g1 l1 fw2 = Some (used1, fw3)"
          "send_to_wan (pe_turns2 env) w q g2 l2 fw3 = Some (used2, fw4)" "r = (False, used1 \<or> used2, fw4)"
        using run a b True t2 by (auto simp: send_fragments_def split: bind_splits)
      note e1 = env_ok_rewrite [OF a ready(1,2)]
      note e2 = env_ok_rewrite [OF b o1(2) e1(1)]
      have len: "length g1 = length f1" "length g2 = length f2" using set_wan_l2_addrs_ok(1) a b by auto
      have body: "drop 12 g1 = drop 12 f1" "drop 12 g2 = drop 12 f2"
        using set_wan_l2_addrs_body [OF a addr] set_wan_l2_addrs_body [OF b addresses_ok_step [OF addr a]] by auto
      have k: "kernels_ok (fw_wans fw2 ! w) (pe_turns1 env)" "kernels_ok (fw_wans fw2 ! w) (pe_turns2 env)"
        "length g1 \<le> unat (xi_frame_size (fw_wans fw2 ! w))" "length g2 \<le> unat (xi_frame_size (fw_wans fw2 ! w))"
        using e1 e2 len ready(3,4) by (auto simp: env_ok_def)
      obtain ps d where ps: "outcome w q ps d fw2 fw4" "length ps + d = 2" "set ps \<subseteq> {take l1 g1, take l2 g2}"
        "(used1 \<or> used2) = (ps \<noteq> [])" "l1 \<le> length g1" "l2 \<le> length g2"
        by (rule send_two [OF o2(2) k s(1,2)]) (rule that)
      have "outcome w q ps d fw fw4" using outcome_trans [OF o12 ps(1) w] by simp
      then show ?thesis unfolding stage_ok_def s(3) prod.case
        by (intro exI [of _ ps] exI [of _ d])
          (use ps(2-6) same_body_take [OF body(1) ps(5)] same_body_take [OF body(2) ps(6)] in auto)
    qed
  qed
qed

text \<open>What may leave when a packet is to be encrypted: the output of the encryption or a fragment,
  made from the packet with other addresses and with the settings of the given state.\<close>

definition encrypted_from ::
    "evp \<Rightarrow> packet_env \<Rightarrow> int \<Rightarrow> packet_crypto_ctx \<Rightarrow> buf \<Rightarrow> nat \<Rightarrow> u64 \<Rightarrow> crypto_state \<Rightarrow> buf \<Rightarrow> bool" where
  "encrypted_from E env action ctx pkt n cnt st p \<longleftrightarrow> (\<exists>pkt'. length pkt' = length pkt \<and> drop 12 pkt' = drop 12 pkt \<and>
     ((\<not> needs_split action st n \<and>
       (\<exists>m out st'. encrypt_at E action ctx pkt' n st = Some (int m, out, st') \<and> p = take m out \<and> m \<le> length out)) \<or>
      (needs_split action st n \<and>
       (\<exists>g1 l1 g2 l2 cnt' st'. split_at E action ctx pkt' n (pe_f1 env) (pe_f2 env) cnt st =
           Some (0, (g1, l1), (g2, l2), cnt', st') \<and> (same_body l1 g1 p \<or> same_body l2 g2 p)))))"

lemma stage_ok_weaken:
  assumes "stage_ok P n w q fw r" "\<And>p. P p \<Longrightarrow> Q p"
  shows "stage_ok Q n w q fw r"
proof -
  obtain stop used fw2 where r: "r = (stop, used, fw2)" by (metis prod_cases3)
  show ?thesis using assms unfolding stage_ok_def r prod.case by blast
qed

lemma stage_ok_after:
  assumes "stage_ok P n w q fw1 r" "outcome w q [] 0 fw fw1" "link_ready fw w q"
  shows "stage_ok P n w q fw r"
proof -
  obtain stop used fw2 where r: "r = (stop, used, fw2)" by (metis prod_cases3)
  obtain ps d where ps: "outcome w q ps d fw1 fw2" "\<forall>p\<in>set ps. P p"
      "if stop then ps = [] \<and> d = 1 else length ps + d = n" "used \<longleftrightarrow> ps \<noteq> []"
    using assms(1) by (auto simp: stage_ok_def r)
  have "outcome w q ps d fw fw2"
    using outcome_trans [OF assms(2) ps(1)] assms(3) by (simp add: link_ready_def)
  then show ?thesis unfolding stage_ok_def r prod.case using ps by blast
qed

text \<open>The number of packets an encrypted packet becomes.\<close>

definition pieces :: "int \<Rightarrow> crypto_state \<Rightarrow> nat \<Rightarrow> nat" where
  "pieces action st n = (if needs_split action st n then 2 else 1)"

lemma send_encrypted_ok:
  assumes ready: "link_ready fw w q" "env_ok env (fw_wans fw ! w)" "length pkt \<le> unat (xi_frame_size (fw_wans fw ! w))"
    and addr: "addresses_ok fw" and run: "send_encrypted E env w q cp ctx pkt n fw = Some r"
  shows "stage_ok (encrypted_from E env (cp_action cp) ctx pkt n (fw_pkt_id fw) (fw_cs fw))
    (pieces (cp_action cp) (fw_cs fw) n) w q fw r"
proof -
  let ?P = "encrypted_from E env (cp_action cp) ctx pkt n (fw_pkt_id fw) (fw_cs fw)"
  obtain rc pkt1 fw1 where a: "set_wan_l2_addrs (int w) pkt fw = Some (rc, pkt1, fw1)"
    using run by (auto simp: send_encrypted_def split: bind_splits)
  note o1 = set_wan_l2_addrs_outcome [OF a ready(1)]
  note e1 = env_ok_rewrite [OF a ready(1,2)]
  note ad1 = addresses_ok_step [OF addr a]
  have st: "fw_cs fw1 = fw_cs fw" "fw_pkt_id fw1 = fw_pkt_id fw" by (subst set_wan_l2_addrs_ok(2) [OF a], simp)+
  have body: "drop 12 pkt1 = drop 12 pkt" by (rule set_wan_l2_addrs_body [OF a addr])
  have len: "length pkt1 = length pkt" by (rule set_wan_l2_addrs_ok(1) [OF a])
  have w: "w < length (fw_wans fw1)" using o1(2) by (simp add: link_ready_def)
  have quiet: "outcome w q [] 0 fw1 (fw1\<lparr>fw_pkt_id := c, fw_cs := s\<rparr>)" "outcome w q [] 0 fw1 (fw1\<lparr>fw_cs := s\<rparr>)" for c s
    using o1(2) by (auto intro!: outcome_refl simp: link_ready_def)
  show ?thesis
  proof (cases "rc = 0")
    case False
    then show ?thesis using run a stage_dropped [OF ready(1) o1(1)] by (simp add: send_encrypted_def)
  next
    case ok: True
    have main: "stage_ok ?P (pieces (cp_action cp) (fw_cs fw) n) w q fw1 r"
    proof (cases "needs_split (cp_action cp) (fw_cs fw) n")
      case split: True
      obtain rc2 g1 l1 g2 l2 cnt s where sp: "split_at E (cp_action cp) ctx pkt1 n (pe_f1 env) (pe_f2 env) (fw_pkt_id fw) (fw_cs fw) =
          Some (rc2, (g1, l1), (g2, l2), cnt, s)"
        using run a ok split st by (auto simp: send_encrypted_def split: bind_splits)
      let ?fw = "fw1\<lparr>fw_pkt_id := cnt, fw_cs := s\<rparr>"
      show ?thesis
      proof (cases "rc2 = 0")
        case False
        then have "r = (True, False, count_dropped ?fw)" using run a ok split st sp by (simp add: send_encrypted_def)
        then show ?thesis using stage_dropped [OF o1(2) quiet(1)] by simp
      next
        case True
        then have r: "send_fragments env w q (g1, l1) (g2, l2) ?fw = Some r"
          using run a ok split st sp by (simp add: send_encrypted_def)
        have fl: "length g1 \<le> unat (xi_frame_size (fw_wans ?fw ! w))" "length g2 \<le> unat (xi_frame_size (fw_wans ?fw ! w))"
          using split_at_length [OF sp] e1 by (auto simp: env_ok_def)
        have "addresses_ok ?fw" "env_ok env (fw_wans ?fw ! w)" using ad1 e1 by (simp_all add: addresses_ok_def)
        from send_fragments_ok [OF link_ready_outcome [OF o1(2) quiet(1)] this(2) fl this(1) r]
        have "stage_ok ?P 2 w q ?fw r"
          by (rule stage_ok_weaken) (use split sp True body len in \<open>auto simp: encrypted_from_def\<close>)
        then have "stage_ok ?P 2 w q fw1 r" by (rule stage_ok_after [OF _ quiet(1) o1(2)])
        then show ?thesis using split by (simp add: pieces_def)
      qed
    next
      case nosplit: False
      obtain m out s where en: "encrypt_at E (cp_action cp) ctx pkt1 n (fw_cs fw) = Some (m, out, s)"
        using run a ok nosplit st by (auto simp: send_encrypted_def split: bind_splits)
      let ?fw = "fw1\<lparr>fw_cs := s\<rparr>"
      show ?thesis
      proof (cases "m < 0")
        case True
        then have "r = (True, False, count_dropped ?fw)" using run a ok nosplit st en by (simp add: send_encrypted_def)
        then show ?thesis using stage_dropped [OF o1(2) quiet(2)] by simp
      next
        case False
        then obtain used fw2 where s: "send_to_wan (pe_turns1 env) w q out (nat m) ?fw = Some (used, fw2)" "r = (False, used, fw2)"
          using run a ok nosplit st en by (auto simp: send_encrypted_def split: bind_splits)
        have k: "kernels_ok (fw_wans ?fw ! w) (pe_turns1 env)" "length out \<le> unat (xi_frame_size (fw_wans ?fw ! w))"
          using e1 encrypt_at_length [OF en] len ready(3) by (auto simp: env_ok_def)
        note lr = link_ready_outcome [OF o1(2) quiet(2)]
        obtain ps d where ps: "outcome w q ps d ?fw fw2" "ps = (if used then [take (nat m) out] else [])" "length ps + d = 1"
          using send_stage(1) [OF lr k s(1)] by blast
        have "nat m \<le> length out" by (rule send_stage(2) [OF lr k s(1)])
        note en' = this nosplit en False body len
        have "?P (take (nat m) out)" unfolding encrypted_from_def
          by (rule exI [of _ pkt1]) (use en' in \<open>auto intro!: exI [of _ "nat m"]\<close>)
        then have "stage_ok ?P 1 w q ?fw r" unfolding stage_ok_def s(2) prod.case
          by (intro exI [of _ ps] exI [of _ d]) (use ps in auto)
        then have "stage_ok ?P 1 w q fw1 r" by (rule stage_ok_after [OF _ quiet(2) o1(2)])
        then show ?thesis using nosplit by (simp add: pieces_def)
      qed
    qed
    then show ?thesis by (rule stage_ok_after [OF _ o1(1) ready(1)])
  qed
qed

section \<open>A whole job\<close>

text \<open>What the code decides for a packet before it touches it.\<close>

definition job_plan :: "packet_env \<Rightarrow> packet_job \<Rightarrow> flow5 option \<Rightarrow> forwarder \<Rightarrow> crypto_choice option" where
  "job_plan env job flow fw =
     (if \<not> rt_enabled (fw_rt fw) then Some (Choice_plain None)
      else case flow of
        None \<Rightarrow> Some (Choice_plain None)
      | Some f \<Rightarrow> do {
          (cp, fw) \<leftarrow> worker_policy env (job_local_idx job) f fw;
          (choice, fw) \<leftarrow> worker_choice cp fw;
          Some choice
        })"

text \<open>What may then be sent, and how many packets there are to send.\<close>

definition planned :: "evp \<Rightarrow> packet_env \<Rightarrow> packet_job \<Rightarrow> forwarder \<Rightarrow> crypto_choice \<Rightarrow> buf \<Rightarrow> bool" where
  "planned E env job fw choice p = (case choice of
     Choice_drop \<Rightarrow> False
   | Choice_plain _ \<Rightarrow> same_body (job_pkt_len job) (job_pkt job) p
   | Choice_encrypt pi ctx \<Rightarrow>
       let cp = ac_policies (fw_cfg fw) ! pi
       in encrypted_from E env (cp_action cp) ctx (job_pkt job) (job_pkt_len job) (fw_pkt_id fw)
            (crypto_apply_from_policy cp (fw_cs fw)) p)"

definition planned_pieces :: "packet_job \<Rightarrow> forwarder \<Rightarrow> crypto_choice \<Rightarrow> nat" where
  "planned_pieces job fw choice = (case choice of
     Choice_encrypt pi ctx \<Rightarrow>
       let cp = ac_policies (fw_cfg fw) ! pi
       in pieces (cp_action cp) (crypto_apply_from_policy cp (fw_cs fw)) (job_pkt_len job)
   | _ \<Rightarrow> 1)"

lemma planned_pieces_le: "1 \<le> planned_pieces job fw choice \<and> planned_pieces job fw choice \<le> 2"
  by (auto simp: planned_pieces_def pieces_def Let_def split: crypto_choice.split)

lemma worker_policy_frame:
  "worker_policy env l f fw = Some (cp, fw') \<Longrightarrow> fw' = fw\<lparr>fw_pins := fw_pins fw'\<rparr>"
  by (auto simp: worker_policy_def Let_def split: prod.splits if_splits bind_splits)

lemma worker_choice_frame:
  assumes "worker_choice cp fw = Some (choice, fw')"
  shows "fw' = fw\<lparr>fw_cs := (case choice of
    Choice_encrypt pi ctx \<Rightarrow> crypto_apply_from_policy (ac_policies (fw_cfg fw) ! pi) (fw_cs fw) | _ \<Rightarrow> fw_cs fw)\<rparr>"
    "choice = Choice_encrypt pi ctx \<Longrightarrow> pi < length (ac_policies (fw_cfg fw))"
  using assms by (auto simp: worker_choice_def at_eq_Some_iff split: option.splits if_splits bind_splits)

lemma worker_pin_frame: "worker_pin env f choice fw = fw\<lparr>fw_pins := fw_pins (worker_pin env f choice fw)\<rparr>"
  by (auto simp: worker_pin_def Let_def split: prod.split crypto_choice.split option.split)

lemma worker_unpin_frame: "worker_unpin f flags fw = fw\<lparr>fw_pins := fw_pins (worker_unpin f flags fw)\<rparr>"
  by (auto simp: worker_unpin_def Let_def split: prod.split option.split)

lemma stage_ok_unpin:
  assumes "stage_ok P n w q fw (stop, used, fw')" "link_ready fw w q"
  shows "stage_ok P n w q fw (stop, used, if stop then fw' else worker_unpin f flags fw')"
proof (cases stop)
  case False
  obtain ps d where ps: "outcome w q ps d fw fw'" "\<forall>p\<in>set ps. P p" "length ps + d = n" "used \<longleftrightarrow> ps \<noteq> []"
    using assms(1) False by (auto simp: stage_ok_def)
  have "fw_ok fw'" using ps(1) by (simp add: outcome_def)
  then have "outcome w q [] 0 fw' (worker_unpin f flags fw')"
    by (rule outcome_refl) (subst worker_unpin_frame, simp)+
  from outcome_trans [OF ps(1) this] have "outcome w q ps d fw (worker_unpin f flags fw')"
    using assms(2) by (simp add: link_ready_def)
  then show ?thesis using False ps by (auto simp: stage_ok_def)
qed (use assms in simp)

lemma stage_plain: "stage_ok (same_body (job_pkt_len job) (job_pkt job)) 1 w q fw r \<Longrightarrow>
    stage_ok (planned E env job fw' (Choice_plain x)) (planned_pieces job fw' (Choice_plain x)) w q fw r"
  by (simp add: planned_def [abs_def] planned_pieces_def)

lemma worker_send_ok:
  assumes ready: "link_ready fw w q" "env_ok env (fw_wans fw ! w)" "length (job_pkt job) \<le> unat (xi_frame_size (fw_wans fw ! w))"
    and addr: "addresses_ok fw" and run: "worker_send E env job flow flags w q fw = Some r"
  obtains choice where "job_plan env job flow fw = Some choice"
    "stage_ok (planned E env job fw choice) (planned_pieces job fw choice) w q fw r"
proof (cases "rt_enabled (fw_rt fw) \<and> flow \<noteq> None")
  case False
  then have "send_plain env w q (job_pkt job) (job_pkt_len job) fw = Some r"
    using run by (cases flow) (auto simp: worker_send_def Let_def split: if_splits)
  from stage_plain [OF send_plain_ok [OF ready addr this]]
  have "stage_ok (planned E env job fw (Choice_plain None)) (planned_pieces job fw (Choice_plain None)) w q fw r" .
  moreover have "job_plan env job flow fw = Some (Choice_plain None)" using False by (cases flow) (auto simp: job_plan_def)
  ultimately show ?thesis using that by blast
next
  case True
  then obtain f where f: "flow = Some f" by auto
  obtain cp fw1 where p: "worker_policy env (job_local_idx job) f fw = Some (cp, fw1)"
    using run True f by (auto simp: worker_send_def Let_def split: bind_splits)
  obtain choice fw2 where c: "worker_choice cp fw1 = Some (choice, fw2)"
    using run True f p by (auto simp: worker_send_def Let_def split: bind_splits)
  define fw3 where "fw3 = worker_pin env f choice fw2"
  define C where "C = (case choice of
      Choice_encrypt pi ctx \<Rightarrow> crypto_apply_from_policy (ac_policies (fw_cfg fw) ! pi) (fw_cs fw) | _ \<Rightarrow> fw_cs fw)"
  obtain P1 where fr1: "fw1 = fw\<lparr>fw_pins := P1\<rparr>" using worker_policy_frame [OF p] by metis
  have fr2: "fw2 = fw\<lparr>fw_pins := P1, fw_cs := C\<rparr>"
    using worker_choice_frame(1) [OF c] by (simp add: fr1 C_def cong: crypto_choice.case_cong)
  obtain P3 where "fw3 = fw2\<lparr>fw_pins := P3\<rparr>"
    by (rule that [OF worker_pin_frame [of env f choice fw2, folded fw3_def]])
  then have fr3: "fw3 = fw\<lparr>fw_pins := P3, fw_cs := C\<rparr>" by (simp add: fr2)
  have o3: "outcome w q [] 0 fw fw3" unfolding fr3
    by (rule outcome_refl) (use ready(1) in \<open>simp_all add: link_ready_def\<close>)
  have plan: "job_plan env job flow fw = Some choice" using True f p c by (simp add: job_plan_def)
  have keep: "link_ready fw3 w q" "env_ok env (fw_wans fw3 ! w)" "addresses_ok fw3" "fw_wans fw3 = fw_wans fw"
      "fw_pkt_id fw3 = fw_pkt_id fw" "fw_cfg fw3 = fw_cfg fw"
    using link_ready_outcome [OF ready(1) o3] ready addr by (simp_all add: fr3 addresses_ok_def)
  have step: "stage_ok (planned E env job fw choice) (planned_pieces job fw choice) w q fw r"
    if "stage_ok (planned E env job fw choice) (planned_pieces job fw choice) w q fw3 r"
    by (rule stage_ok_after [OF that o3 ready(1)])
  show ?thesis
  proof (rule that [OF plan step], cases choice)
    case Choice_drop
    then have r: "r = (True, False, count_dropped fw3)" using run True f p c by (simp add: worker_send_def Let_def fw3_def)
    have "outcome w q [] 0 fw3 fw3" using keep(1) by (intro outcome_refl) (auto simp: link_ready_def)
    then show "stage_ok (planned E env job fw choice) (planned_pieces job fw choice) w q fw3 r"
      unfolding r by (rule stage_dropped [OF keep(1)])
  next
    case (Choice_plain x)
    then have "send_plain env w q (job_pkt job) (job_pkt_len job) fw3 = Some r"
      using run True f p c by (simp add: worker_send_def Let_def fw3_def)
    from send_plain_ok [OF keep(1,2) _ keep(3) this] ready(3) keep(4)
    show "stage_ok (planned E env job fw choice) (planned_pieces job fw choice) w q fw3 r"
      unfolding Choice_plain by (intro stage_plain) simp
  next
    case (Choice_encrypt pi ctx)
    define cp' where "cp' = ac_policies (fw_cfg fw) ! pi"
    have cs: "fw_cs fw3 = crypto_apply_from_policy cp' (fw_cs fw)" by (simp add: fr3 C_def Choice_encrypt cp'_def)
    have "pi < length (ac_policies (fw_cfg fw))"
      using worker_choice_frame(2) [OF c Choice_encrypt] by (simp add: fr1)
    then have "at (ac_policies (fw_cfg fw3)) pi = Some cp'" using keep(6) by (simp add: cp'_def)
    moreover have "worker_pin env f (Choice_encrypt pi ctx) fw2 = fw3" by (simp add: fw3_def Choice_encrypt)
    ultimately obtain stop used fw5 where s: "send_encrypted E env w q cp' ctx (job_pkt job) (job_pkt_len job) fw3 = Some (stop, used, fw5)"
        "r = (stop, used, if stop then fw5 else worker_unpin f flags fw5)"
      using run True f p c Choice_encrypt by (auto simp: worker_send_def Let_def split: bind_splits)
    have "planned E env job fw choice = encrypted_from E env (cp_action cp') ctx (job_pkt job) (job_pkt_len job) (fw_pkt_id fw3) (fw_cs fw3)"
      "planned_pieces job fw choice = pieces (cp_action cp') (fw_cs fw3) (job_pkt_len job)"
      by (simp_all add: planned_def [abs_def] planned_pieces_def Choice_encrypt cp'_def [symmetric] Let_def cs keep(5))
    then show "stage_ok (planned E env job fw choice) (planned_pieces job fw choice) w q fw3 r"
      using stage_ok_unpin [OF send_encrypted_ok [OF keep(1,2) _ keep(3) s(1)] keep(1), of f flags] ready(3) keep(4) s(2) by simp
  qed
qed

lemma release_local_ok:
  assumes ok: "fw_ok fw" and l: "job_local_idx job = int l" "l < length (fw_locals fw)"
    and q: "nat (job_queue_idx job) < length (xi_queues (fw_locals fw ! l))"
    and room: "length (rx_frames (fw_locals fw ! l) (xi_queues (fw_locals fw ! l) ! nat (job_queue_idx job))) <
      unat (xi_ring_size (fw_locals fw ! l))"
    and half: "frame_no (fw_locals fw ! l) (job_addr job) < half_frames (fw_locals fw ! l)"
    and run: "release_local job fw = Some fw'"
  obtains i' where "fw' = fw\<lparr>fw_locals := (fw_locals fw)[l := i']\<rparr>" "iface_ok i'" "iface_sent i' = iface_sent (fw_locals fw ! l)"
    "mset (rx_frames (fw_locals fw ! l) (xi_queues i' ! nat (job_queue_idx job))) =
      add_mset (frame_no (fw_locals fw ! l) (job_addr job))
        (mset (rx_frames (fw_locals fw ! l) (xi_queues (fw_locals fw ! l) ! nat (job_queue_idx job))))"
proof -
  let ?i = "fw_locals fw ! l"
  have i: "iface_ok ?i" using ok l by (simp add: fw_ok_def)
  obtain i' where r: "interface_recv_release_single_queue (nat (job_queue_idx job)) [job_addr job] ?i = Some i'" "iface_ok i'"
      "iface_sent i' = iface_sent ?i"
      "mset (rx_frames ?i (xi_queues i' ! nat (job_queue_idx job))) =
        mset (rx_frames ?i (xi_queues ?i ! nat (job_queue_idx job))) + mset (map (frame_no ?i) [job_addr job])"
    by (rule release_ok [OF i q, of "[job_addr job]"]) (use room half in \<open>auto intro: that\<close>)
  have "fw' = fw\<lparr>fw_locals := (fw_locals fw)[l := i']\<rparr>"
    using run l r(1) by (simp add: release_local_def)
  from that [OF this r(2,3)] r(4) show ?thesis by simp
qed

lemma flush_wan_same:
  "fw_ok fw \<Longrightarrow> outcome w q [] 0 fw (flush_wan used i tq fw)"
proof -
  assume ok: "fw_ok fw"
  show ?thesis
  proof (cases "used \<and> i < length (fw_wans fw)")
    case True
    then have iok: "iface_ok (fw_wans fw ! i)" using ok by (simp add: fw_ok_def)
    show ?thesis using True ok flush_ok [OF iok, of tq]
      by (auto simp: outcome_def flush_wan_def fw_ok_def wan_sent_def lan_sent_def map_update list_update_same_conv
          dest!: set_update_subset_insert [THEN subsetD])
  next
    case False
    then show ?thesis using ok by (auto simp: flush_wan_def intro: outcome_refl)
  qed
qed

text \<open>
  What a job meets: links that are consistent and match the configuration, a well-formed flow
  table, and a LAN frame that its queue has room for.
\<close>

definition job_ready :: "packet_env \<Rightarrow> packet_job \<Rightarrow> forwarder \<Rightarrow> bool" where
  "job_ready env job fw \<longleftrightarrow> fw_ok fw \<and> addresses_ok fw \<and>
     flow_inv (fw_flows fw) \<and> ft_wan_count (fw_flows fw) = int (length (ac_wans (fw_cfg fw))) \<and>
     length (fw_wans fw) = length (ac_wans (fw_cfg fw)) \<and>
     (\<forall>p \<in> set (ac_profiles (fw_cfg fw)). length (pr_wan_bandwidth_weight p) = length (pr_wan_indices p)) \<and>
     (\<forall>i \<in> set (fw_wans fw). env_ok env i \<and> length (job_pkt job) \<le> unat (xi_frame_size i)) \<and>
     0 \<le> job_local_idx job \<and> job_local_idx job < int (length (fw_locals fw)) \<and>
     (let i = fw_locals fw ! nat (job_local_idx job); q = nat (job_queue_idx job)
      in q < length (xi_queues i) \<and> length (rx_frames i (xi_queues i ! q)) < unat (xi_ring_size i) \<and>
         frame_no i (job_addr job) < half_frames i)"

lemma outcome_flows: "fw_ok fw \<Longrightarrow> outcome w q [] 0 fw (fw\<lparr>fw_flows := ft\<rparr>)"
  by (rule outcome_refl) simp_all

lemma job_plan_flows: "job_plan env job flow (fw\<lparr>fw_flows := ft\<rparr>) = job_plan env job flow fw"
  by (auto simp: job_plan_def worker_policy_def worker_choice_def Let_def Option.bind_assoc
      split: option.split prod.split bind_split intro!: arg_cong2 [where f = Option.bind])

lemma worker_job_ok:
  assumes ready: "job_ready env job fw" and run: "worker_job E env job fw = Some fw'"
  obtains flow choice w q ps d where "parse_flow (job_pkt job) (job_pkt_len job) = Some flow"
    "job_plan env job flow fw = Some choice" "w < length (fw_wans fw)"
    "allowed_wans (fw_cfg fw) (job_local_idx job) \<noteq> {} \<longrightarrow> int w \<in> allowed_wans (fw_cfg fw) (job_local_idx job)"
    "wan_sent fw' = append_sent w q ps (wan_sent fw)" "lan_sent fw' = lan_sent fw" "fw_ok fw'"
    "\<forall>p\<in>set ps. planned E env job fw choice p"
    "fw_local_to_wan fw' = fw_local_to_wan fw + of_nat (length ps)"
    "fw_total_dropped fw' = fw_total_dropped fw + of_nat d"
    "length ps + d = planned_pieces job fw choice \<or> ps = [] \<and> d = 1"
    "\<exists>l i'. job_local_idx job = int l \<and> fw_locals fw' = (fw_locals fw)[l := i'] \<and>
       mset (rx_frames (fw_locals fw ! l) (xi_queues i' ! nat (job_queue_idx job))) =
         add_mset (frame_no (fw_locals fw ! l) (job_addr job))
           (mset (rx_frames (fw_locals fw ! l) (xi_queues (fw_locals fw ! l) ! nat (job_queue_idx job))))"
proof -
  let ?n = "int (length (fw_wans fw))"
  obtain l where l: "job_local_idx job = int l" using ready by (auto simp: job_ready_def) (metis nonneg_int_cases)
  note rd = ready [unfolded job_ready_def l Let_def]
  have "length (fw_wans fw) \<noteq> 0" using rd by (auto simp: flow_inv_def)
  obtain tqs flow flags w0 ft where 1: "wan_tx_queues (job_tx_queue_base job) (fw_wans fw) = Some tqs"
      "parse_flow (job_pkt job) (job_pkt_len job) = Some flow"
      "choose_wan (pe_flow_now env) (pe_flow_malloc_ok env) (fw_cfg fw) (fw_flows fw) (job_local_idx job) flow
        (job_pkt job) (job_pkt_len job) ?n = Some (w0, ft)"
    and 2: "(do { tq \<leftarrow> at tqs (nat w0);
       (stop, used, fw1) \<leftarrow> worker_send E env job flow flags (nat w0) tq (fw\<lparr>fw_flows := ft\<rparr>);
       release_local job (if stop then fw1 else flush_wan used (nat w0) tq fw1) }) = Some fw'"
    using run by (auto simp: worker_job_def Let_def split: bind_splits)
  have "wan_choice_ok (fw_cfg fw) (job_local_idx job) (fw_flows fw) (w0, ft)"
    using 1(3) rd by (intro choose_wan_ok) auto
  then have w0: "0 \<le> w0" "w0 < ?n"
      "allowed_wans (fw_cfg fw) (job_local_idx job) \<noteq> {} \<longrightarrow> w0 \<in> allowed_wans (fw_cfg fw) (job_local_idx job)"
    using rd by (auto simp: wan_choice_ok_def)
  define w where "w = nat w0"
  have w: "w < length (fw_wans fw)" "int w = w0" using w0 by (auto simp: w_def)
  define fw0 where "fw0 = fw\<lparr>fw_flows := ft\<rparr>"
  obtain q stop used fw1 where q: "at tqs w = Some q" "worker_send E env job flow flags w q fw0 = Some (stop, used, fw1)"
      "release_local job (if stop then fw1 else flush_wan used w q fw1) = Some fw'"
    using 2 unfolding w_def [symmetric] fw0_def [symmetric] by (auto split: bind_splits)
  have qs: "q < length (xi_queues (fw_wans fw ! w))"
    using 1(1) q(1) w(1) by (auto simp: wan_tx_queues_def at_eq_Some_iff split: if_splits)
  have o0: "outcome w q [] 0 fw fw0" unfolding fw0_def using rd by (intro outcome_flows) simp
  have lr: "link_ready fw w q" "link_ready fw0 w q" using rd w qs by (auto simp: link_ready_def fw0_def fw_ok_def)
  have env: "env_ok env (fw_wans fw0 ! w)" "length (job_pkt job) \<le> unat (xi_frame_size (fw_wans fw0 ! w))" "addresses_ok fw0"
    using rd w(1) by (auto simp: fw0_def addresses_ok_def)
  obtain choice where c: "job_plan env job flow fw0 = Some choice"
      "stage_ok (planned E env job fw0 choice) (planned_pieces job fw0 choice) w q fw0 (stop, used, fw1)"
    by (rule worker_send_ok [OF lr(2) env q(2)]) (rule that)
  define fw2 where "fw2 = (if stop then fw1 else flush_wan used w q fw1)"
  obtain ps d where ps: "outcome w q ps d fw0 fw1" "\<forall>p\<in>set ps. planned E env job fw0 choice p"
      "length ps + d = planned_pieces job fw0 choice \<or> ps = [] \<and> d = 1"
    using c(2) by (auto simp: stage_ok_def split: if_splits)
  have wl: "w < length (fw_wans fw)" "q < length (xi_queues (fw_wans fw ! w))" using w(1) qs by auto
  have o1: "outcome w q ps d fw fw1" using outcome_trans [OF o0 ps(1) wl] by simp
  then have "fw_ok fw1" by (simp add: outcome_def)
  then have "outcome w q [] 0 fw1 fw2" using flush_wan_same [of fw1 w q used w q] by (simp add: fw2_def outcome_refl)
  from outcome_trans [OF o1 this wl] have o2: "outcome w q ps d fw fw2" by simp
  have loc: "fw_locals fw2 = fw_locals fw" "fw_ok fw2" using o2 by (auto simp: outcome_def)
  obtain i' where rel: "fw' = fw2\<lparr>fw_locals := (fw_locals fw2)[l := i']\<rparr>" "iface_ok i'"
      "iface_sent i' = iface_sent (fw_locals fw2 ! l)"
      "mset (rx_frames (fw_locals fw2 ! l) (xi_queues i' ! nat (job_queue_idx job))) =
        add_mset (frame_no (fw_locals fw2 ! l) (job_addr job))
          (mset (rx_frames (fw_locals fw2 ! l) (xi_queues (fw_locals fw2 ! l) ! nat (job_queue_idx job))))"
    by (rule release_local_ok [OF loc(2) l _ _ _ _ q(3) [folded fw2_def]])
      (use rd loc(1) in \<open>auto intro: that\<close>)
  have same: "planned E env job fw0 choice = planned E env job fw choice"
      "planned_pieces job fw0 choice = planned_pieces job fw choice"
    by (cases choice; simp add: fw0_def planned_def [abs_def] planned_pieces_def)+
  have lan: "lan_sent fw' = lan_sent fw" "fw_ok fw'"
    using rel(1,2,3) loc rd
    by (auto simp: lan_sent_def map_update list_update_same_conv fw_ok_def dest!: set_update_subset_insert [THEN subsetD])
  show ?thesis
    by (rule that [OF 1(2) c(1) [unfolded fw0_def job_plan_flows] w(1)])
      (use w0 w(2) o2 rel loc lan ps(2,3) same l in \<open>auto simp: outcome_def wan_sent_def\<close>)
qed

text \<open>A job whose frame has room can always be given back.\<close>

lemma release_local_total:
  assumes ready: "job_ready env job fw" and fw1: "fw_ok fw1" "fw_locals fw1 = fw_locals fw"
  shows "\<exists>fw'. release_local job fw1 = Some fw'"
proof -
  obtain l where l: "job_local_idx job = int l" using ready by (auto simp: job_ready_def) (metis nonneg_int_cases)
  note rd = ready [unfolded job_ready_def l Let_def]
  let ?i = "fw_locals fw ! l"
  have i: "iface_ok ?i" "l < length (fw_locals fw)" using fw1 rd by (auto simp: fw_ok_def)
  obtain i' where "interface_recv_release_single_queue (nat (job_queue_idx job)) [job_addr job] ?i = Some i'"
    by (rule release_ok [OF i(1), of "nat (job_queue_idx job)" "[job_addr job]"]) (use rd in auto)
  then show ?thesis using l i(2) fw1(2) by (simp add: release_local_def)
qed

section \<open>Properties\<close>


text \<open>A gateway with one LAN interface and one WAN link.\<close>

definition sample_link :: xsk_interface where
  "sample_link = sample_iface\<lparr>xi_umem_size := 16384, xi_frame_size := 2048,
     xi_queues := [sample_queue\<lparr>xq_bufs := replicate 16384 0\<rparr>], xi_src_mac := replicate 6 4, xi_dst_mac := replicate 6 5\<rparr>"

definition sample_gateway_cfg :: app_config where
  "sample_gateway_cfg = sample_cfg\<lparr>ac_wans := [sample_wan\<lparr>wc_dst_ip := 0\<rparr>],
     ac_profiles := [sample_profile\<lparr>pr_wan_indices := [0], pr_wan_bandwidth_weight := [1]\<rparr>],
     ac_policies := [sample_policy_l4]\<rparr>"

definition sample_forwarder :: "crypto_runtime \<Rightarrow> forwarder" where
  "sample_forwarder rt = \<lparr>fw_cfg = sample_gateway_cfg, fw_rt = rt, fw_cs = sample_st,
     fw_flows = flow_table_init (Some (replicate 16 1000)) 1 0, fw_pins = pin_empty,
     fw_arp = [arp_empty], fw_wan_arp = [arp_empty], fw_frag_l2 = frag_table_init, fw_frag_l3 = frag_table_init,
     fw_frag_l4 = frag_table_init, fw_pkt_id = 0, fw_locals = [sample_link], fw_wans = [sample_link],
     fw_arp_requests = [], fw_local_to_wan = 0, fw_wan_to_local = 0, fw_total_dropped = 0, fw_dropped_bad_ip = 0,
     fw_dropped_no_local_match = 0, fw_dropped_local_tx_fail = 0\<rparr>"

definition sample_env :: packet_env where
  "sample_env = \<lparr>pe_flow_now = 5, pe_flow_malloc_ok = True, pe_pin_now = 5, pe_pin_malloc_ok = True,
     pe_turns1 = [], pe_turns2 = [], pe_f1 = [], pe_f2 = []\<rparr>"

definition sample_job :: "buf \<Rightarrow> nat \<Rightarrow> packet_job" where
  "sample_job pkt n = \<lparr>job_local_idx = 0, job_queue_idx = 0, job_tx_queue_base = 0, job_pkt = pkt, job_pkt_len = n, job_addr = 2048\<rparr>"

lemma sample_link_ok: "iface_ok sample_link"
proof -
  let ?q = "sample_queue\<lparr>xq_bufs := replicate 16384 0\<rparr>"
  have "iface_geometry sample_link"
    by (simp add: iface_geometry_def half_frames_def sample_link_def sample_iface_def)
  moreover have "queue_rings_ok sample_link ?q"
    by (simp add: queue_rings_ok_def prod_ok_def cons_ok_def sample_queue_def sample_link_def sample_iface_def sample_ring_wf)
      (simp add: sample_ring_def ring_used_def)
  moreover have "ring_used (xq_tx ?q) = 0" "ring_used (xq_fill ?q) = 0" "ring_used (xq_rx ?q) = 0"
    by (simp_all add: sample_queue_def sample_ring_def ring_used_def)
  ultimately show ?thesis
    by (simp add: iface_ok_def queue_inv_def tx_pending_ok_def sample_link_def rx_frames_def Xsk.ring_items_def)
qed

lemma sample_link_fields [simp]:
  "length (xi_queues sample_link) = 1" "xi_queues sample_link \<noteq> []" "xi_frame_size sample_link = 2048"
  "xi_src_mac sample_link = replicate 6 4" "xi_dst_mac sample_link = replicate 6 5"
  by (simp_all add: sample_link_def)

lemma sample_flows: "flow_inv (flow_table_init (Some (replicate 16 1000)) 1 0)"
  using flow_reachable_inv [OF flow_reachable.init [of "replicate 16 1000" 1]] by simp

lemma sample_job_ready: "length pkt \<le> 2048 \<Longrightarrow> job_ready sample_env (sample_job pkt n) (sample_forwarder rt)"
proof -
  have "length (rx_frames sample_link (xi_queues sample_link ! 0)) = 0" "frame_no sample_link 2048 < half_frames sample_link"
      "xi_ring_size sample_link = 2"
    by (simp_all add: rx_frames_def sample_link_def sample_queue_def sample_ring_def ring_used_def
        frame_no_def half_frames_def sample_iface_def)
  moreover have "addresses_ok (sample_forwarder rt)"
    by (auto simp: addresses_ok_def sample_forwarder_def arp_empty_def)
  moreover assume "length pkt \<le> 2048"
  ultimately show ?thesis
    using sample_link_ok sample_flows
    by (simp add: job_ready_def sample_forwarder_def fw_ok_def sample_gateway_cfg_def sample_job_def env_ok_def
        sample_env_def flow_table_init_def Let_def)
qed

lemma sample_plain_runs:
  assumes "length pkt \<le> 2048" "14 \<le> length pkt" "n \<le> length pkt" and "parse_flow pkt n = Some flow"
    and flags: "(case flow of Some (_, _, _, _, protocol) \<Rightarrow> if protocol = 6 then tcp_ipv4_tcp_flags pkt n else Some None
      | None \<Rightarrow> Some None) = Some flags"
    and ch: "choose_wan 5 True sample_gateway_cfg (flow_table_init (Some (replicate 16 1000)) 1 0) 0 flow pkt n 1 = Some (0, ft)"
    and plain: "worker_send E sample_env (sample_job pkt n) flow flags 0 0 ((sample_forwarder rt)\<lparr>fw_flows := ft\<rparr>) =
      send_plain sample_env 0 0 pkt n ((sample_forwarder rt)\<lparr>fw_flows := ft\<rparr>)"
  shows "\<exists>fw'. worker_job E sample_env (sample_job pkt n) (sample_forwarder rt) = Some fw'"
proof -
  let ?fw0 = "sample_forwarder rt" and ?job = "sample_job pkt n"
  define fw where "fw = ?fw0\<lparr>fw_flows := ft\<rparr>"
  have tq: "wan_tx_queues 0 [sample_link] = Some [0]" by (simp add: wan_tx_queues_def)
  obtain rc pkt1 fw1 where a: "set_wan_l2_addrs (int 0) pkt fw = Some (rc, pkt1, fw1)"
    using assms(2) by (simp add: fw_def set_wan_l2_addrs_def sample_forwarder_def sample_gateway_cfg_def sample_defs wan_rewrite_dest_mac_def wrn_def)
  have ready: "link_ready fw 0 0" using sample_link_ok by (simp add: fw_def link_ready_def fw_ok_def sample_forwarder_def)
  note o1 = set_wan_l2_addrs_outcome [OF a ready]
  have rd: "job_ready sample_env ?job ?fw0" by (rule sample_job_ready [OF assms(1)])
  have ad: "addresses_ok fw" using rd by (simp add: job_ready_def fw_def addresses_ok_def)
  have ev: "env_ok sample_env (fw_wans fw ! 0)" by (simp add: fw_def sample_forwarder_def env_ok_def sample_env_def)
  have lf: "length pkt \<le> unat (xi_frame_size (fw_wans fw ! 0))" using assms(1) by (simp add: fw_def sample_forwarder_def)
  have len: "length pkt1 = length pkt" by (rule set_wan_l2_addrs_ok(1) [OF a])
  obtain stop used fw2 where s: "send_plain sample_env 0 0 pkt n fw = Some (stop, used, fw2)"
  proof (cases "rc = 0")
    case True
    have k: "kernels_ok (fw_wans fw1 ! 0) []" "n \<le> unat (xi_frame_size (fw_wans fw1 ! 0))"
      using env_ok_rewrite [OF a ready ev] lf assms(1,3) by (auto simp: env_ok_def fw_def sample_forwarder_def)
    obtain used fw2 where "send_to_wan [] 0 0 pkt1 n fw1 = Some (used, fw2)"
      by (rule send_to_wan_ok [OF o1(2) k(1) _ k(2), of pkt1]) (use assms(3) len in \<open>auto intro: that\<close>)
    then show ?thesis using a True by (intro that [of False used fw2]) (simp add: send_plain_def sample_env_def)
  next
    case False
    then show ?thesis using a by (intro that [of True False "count_dropped fw1"]) (simp add: send_plain_def)
  qed
  have "stage_ok (same_body n pkt) 1 0 0 fw (stop, used, fw2)"
    by (rule send_plain_ok [OF ready ev lf ad s])
  then have fw2: "fw_ok fw2" "fw_locals fw2 = fw_locals ?fw0" by (auto simp: stage_ok_def outcome_def fw_def)
  define fw3 where "fw3 = (if stop then fw2 else flush_wan used 0 0 fw2)"
  have "outcome 0 0 [] 0 fw2 fw3" using flush_wan_same [OF fw2(1)] outcome_refl [OF fw2(1)] by (simp add: fw3_def)
  then have fw3: "fw_ok fw3" "fw_locals fw3 = fw_locals ?fw0" using fw2 by (auto simp: outcome_def)
  obtain fw' where rel: "release_local ?job fw3 = Some fw'" using release_local_total [OF rd fw3] by blast
  have flds: "fw_wans ?fw0 = [sample_link]" "fw_rt ?fw0 = rt" "fw_cfg ?fw0 = sample_gateway_cfg"
      "fw_flows ?fw0 = flow_table_init (Some (replicate 16 1000)) 1 0" "job_pkt ?job = pkt" "job_pkt_len ?job = n"
      "job_local_idx ?job = 0" "job_tx_queue_base ?job = 0" "pe_flow_now sample_env = 5" "pe_flow_malloc_ok sample_env = True"
    by (simp_all add: sample_forwarder_def sample_job_def sample_env_def)
  have "worker_job E sample_env ?job ?fw0 = Some fw'"
    unfolding worker_job_def flds Let_def fw_def [symmetric]
    using assms(4) ch tq rel plain s flags by (simp add: flds fw3_def fw_def [symmetric] split: if_splits)
  then show ?thesis by blast
qed

lemma sample_job_runs:
  assumes "length pkt \<le> 2048" "14 \<le> length pkt" "n \<le> length pkt" "\<not> rt_enabled rt"
    and "parse_flow pkt n = Some None"
  shows "\<exists>fw'. worker_job E sample_env (sample_job pkt n) (sample_forwarder rt) = Some fw'"
proof (rule sample_plain_runs [OF assms(1-3,5)])
  show "choose_wan 5 True sample_gateway_cfg (flow_table_init (Some (replicate 16 1000)) 1 0) 0 None pkt n 1 =
      Some (0, flow_table_init (Some (replicate 16 1000)) 1 0)"
    using assms(3) by (simp add: choose_wan_def select_wan_idx_nonip_flow_def pkt_l2_sig_def select_wan_idx_for_packet_def
        sample_gateway_cfg_def sample_defs config_select_profile_for_local_def)
qed (use assms(4) in \<open>simp_all add: worker_send_def sample_job_def sample_forwarder_def Let_def\<close>)

definition plain_rt :: crypto_runtime where
  "plain_rt = \<lparr>rt_enabled = False, rt_layer = 3, rt_base = sample_ctx, rt_active = empty_table, rt_prev = empty_table,
     rt_prev_grace_until_ms = 0\<rparr>"



text \<open>A TCP segment to port 80 under a layer-4 policy whose key is not in place.\<close>

definition sample_segment :: buf where
  "sample_segment = replicate 12 0 @ [8, 0] @ [0x45, 0, 0, 40, 0, 0, 0, 0, 64, 6, 0, 0, 10, 0, 0, 1, 10, 0, 0, 2] @
     [0x10, 0, 0, 80, 0, 0, 0, 0, 0, 0, 0, 0, 0x50, 2, 0, 0, 0, 0, 0, 0]"

definition keyless_rt :: crypto_runtime where
  "keyless_rt = plain_rt\<lparr>rt_enabled := True\<rparr>"

lemma sample_segment_flow:
  "parse_flow sample_segment 54 = Some (Some (0x0100000A, 0x0200000A, 4096, 80, 6))"
  "tcp_ipv4_tcp_flags sample_segment 54 = Some (Some 2)"
  by code_simp+

lemma sample_segment_policy:
  "crypto_select_policy_for_local sample_gateway_cfg 0 0x0100000A 0x0200000A 4096 80 6 = Some 0"
  by (simp add: crypto_select_policy_for_local_def config_select_profile_for_local_def config_select_crypto_policy_def
      sample_gateway_cfg_def sample_defs sample_policy_l4_def policy_pass_accepts_def crypto_policy_match_packet_def
      cidr_match_with_negate_def port_in_range_def Let_def)

lemma sample_segment_choice:
  "worker_policy sample_env 0 (0x0100000A, 0x0200000A, 4096, 80, 6) ((sample_forwarder keyless_rt)\<lparr>fw_flows := ft\<rparr>) =
    Some (Some 0, (sample_forwarder keyless_rt)\<lparr>fw_flows := ft\<rparr>)"
  "worker_choice (Some 0) ((sample_forwarder keyless_rt)\<lparr>fw_flows := ft\<rparr>) =
    Some (Choice_plain (Some 0), (sample_forwarder keyless_rt)\<lparr>fw_flows := ft\<rparr>)"
  "cp_action (ac_policies sample_gateway_cfg ! 0) = POLICY_ACTION_ENCRYPT_L4"
proof -
  have "tcp_policy_pin_lookup True 5 ps rs pin_empty s d sp dp = Some (None, pin_empty)" for ps rs s d sp dp
    by (simp add: tcp_policy_pin_lookup_def pin_empty_def tcp_policy_pin_init_def Let_def)
  then show "worker_policy sample_env 0 (0x0100000A, 0x0200000A, 4096, 80, 6) ((sample_forwarder keyless_rt)\<lparr>fw_flows := ft\<rparr>) =
      Some (Some 0, (sample_forwarder keyless_rt)\<lparr>fw_flows := ft\<rparr>)"
    by (simp add: worker_policy_def sample_forwarder_def sample_env_def keyless_rt_def plain_rt_def sample_segment_policy)
  show "worker_choice (Some 0) ((sample_forwarder keyless_rt)\<lparr>fw_flows := ft\<rparr>) =
      Some (Choice_plain (Some 0), (sample_forwarder keyless_rt)\<lparr>fw_flows := ft\<rparr>)"
    by (simp add: worker_choice_def sample_forwarder_def sample_gateway_cfg_def sample_policy_l4_def policy_ready_ctx_def
        keyless_rt_def plain_rt_def empty_table_def at_eq_Some_iff)
  show "cp_action (ac_policies sample_gateway_cfg ! 0) = POLICY_ACTION_ENCRYPT_L4"
    by (simp add: sample_gateway_cfg_def sample_policy_l4_def)
qed

lemma sample_segment_runs:
  "\<exists>fw'. worker_job E sample_env (sample_job sample_segment 54) (sample_forwarder keyless_rt) = Some fw'"
proof -
  let ?ft = "flow_table_init (Some (replicate 16 1000)) 1 0" and ?f = "(0x0100000A, 0x0200000A, 4096, 80, 6) :: flow5"
  have l: "length sample_segment = 54" by (simp add: sample_segment_def)
  obtain w ft where ch: "choose_wan 5 True sample_gateway_cfg ?ft 0 (Some ?f) sample_segment 54 1 = Some (w, ft)"
    by (simp add: choose_wan_def select_wan_idx_for_packet_def sample_gateway_cfg_def sample_defs
        config_select_profile_for_local_def usable_wans_def)
  have ch': "choose_wan 5 True sample_gateway_cfg ?ft 0 (Some ?f) sample_segment 54 (int (length (ac_wans sample_gateway_cfg))) = Some (w, ft)"
    using ch by (simp add: sample_gateway_cfg_def)
  have "0 \<le> w \<and> w < int (length (ac_wans sample_gateway_cfg))"
    using choose_wan_ok [OF sample_flows _ _ ch']
    by (simp add: wan_choice_ok_def sample_gateway_cfg_def sample_defs flow_table_init_def)
  then have w: "w = 0" by (simp add: sample_gateway_cfg_def)
  show ?thesis
  proof (rule sample_plain_runs [OF _ _ _ sample_segment_flow(1) _ ch [unfolded w]])
    show "(case Some ?f of Some (_, _, _, _, protocol) \<Rightarrow> if protocol = 6 then tcp_ipv4_tcp_flags sample_segment 54 else Some None
        | None \<Rightarrow> Some None) = Some (Some 2)" by (simp add: sample_segment_flow)
    show "worker_send E sample_env (sample_job sample_segment 54) (Some ?f) (Some 2) 0 0 ((sample_forwarder keyless_rt)\<lparr>fw_flows := ft\<rparr>) =
        send_plain sample_env 0 0 sample_segment 54 ((sample_forwarder keyless_rt)\<lparr>fw_flows := ft\<rparr>)"
      using sample_segment_choice(1,2) [of ft] sample_segment_choice(3)
      by (simp add: worker_send_def sample_job_def worker_pin_def Let_def sample_forwarder_def keyless_rt_def)
  qed (simp_all add: l)
qed


end
