(* ===== verification/Text.thy ===== *)
theory Text
  imports Config
begin

text \<open>
  The text parsers: the functions of the C library that the readers of the configuration use
  (\<^verbatim>\<open>strtol\<close>, \<^verbatim>\<open>atoi\<close>, \<^verbatim>\<open>sscanf\<close>, \<^verbatim>\<open>strcasecmp\<close>, \<^verbatim>\<open>strtok_r\<close>, \<^verbatim>\<open>inet_pton\<close>), the parsers of
  \<^verbatim>\<open>src/db/config.c\<close> and those of \<^verbatim>\<open>src/db/db_config.c\<close>.

  A C string is the list of its characters before the terminating zero.  Converting digits to an
  \<^verbatim>\<open>int\<close> that cannot hold the number is undefined behaviour of \<^verbatim>\<open>atoi\<close> and \<^verbatim>\<open>sscanf\<close>: the outer
  \<^term>\<open>None\<close>.
\<close>

section \<open>The C library\<close>

definition is_space :: "char \<Rightarrow> bool" where
  "is_space c \<longleftrightarrow> c = CHR '' '' \<or> (let n = (of_char c :: nat) in 9 \<le> n \<and> n \<le> 13)"

definition is_blank :: "char \<Rightarrow> bool" where
  "is_blank c \<longleftrightarrow> c = CHR '' '' \<or> c = CHR 0x09"

text \<open>The value of a digit; 36 for every other character.\<close>

definition digit_val :: "char \<Rightarrow> nat" where
  "digit_val c = (let n = of_char c in
     if 48 \<le> n \<and> n \<le> 57 then n - 48
     else if 97 \<le> n \<and> n \<le> 122 then n - 87
     else if 65 \<le> n \<and> n \<le> 90 then n - 55
     else 36)"

definition numeral_of :: "int \<Rightarrow> string \<Rightarrow> int" where
  "numeral_of base ds = foldl (\<lambda>v c. v * base + int (digit_val c)) 0 ds"

definition scan_number :: "int \<Rightarrow> string \<Rightarrow> (int \<times> string) option" where
  "scan_number base s = (let ds = takeWhile (\<lambda>c. int (digit_val c) < base) s
     in if ds = [] then None else Some (numeral_of base ds, drop (length ds) s))"

definition scan_sign :: "string \<Rightarrow> bool \<times> string" where
  "scan_sign s = (case s of
     [] \<Rightarrow> (False, [])
   | c # r \<Rightarrow> if c = CHR ''-'' then (True, r) else if c = CHR ''+'' then (False, r) else (False, s))"

definition scan_int :: "string \<Rightarrow> (int \<times> string) option" where
  "scan_int s = (let (neg, r) = scan_sign (dropWhile is_space s)
     in map_option (\<lambda>(n, r). (if neg then - n else n, r)) (scan_number 10 r))"

text \<open>\<^verbatim>\<open>strtol(s, &end, 10)\<close>: the value and what \<^verbatim>\<open>end\<close> points at.\<close>

definition strtol :: "string \<Rightarrow> int \<times> string" where
  "strtol s = (case scan_int s of
     None \<Rightarrow> (0, s)
   | Some (v, r) \<Rightarrow> (max (- (2 ^ 63)) (min (2 ^ 63 - 1) v), r))"

definition as_int :: "int \<Rightarrow> int option" where
  "as_int v = (if - (2 ^ 31) \<le> v \<and> v < 2 ^ 31 then Some v else None)"

definition atoi :: "string \<Rightarrow> int option" where
  "atoi s = (case scan_int s of None \<Rightarrow> Some 0 | Some (v, r) \<Rightarrow> as_int v)"

text \<open>The conversion \<^verbatim>\<open>%d\<close>; the inner \<^term>\<open>None\<close> is a matching failure.\<close>

definition scan_d :: "string \<Rightarrow> (int \<times> string) option option" where
  "scan_d s = (case scan_int s of
     None \<Rightarrow> Some None
   | Some (v, r) \<Rightarrow> map_option (\<lambda>v. Some (v, r)) (as_int v))"

text \<open>
  The conversion \<^verbatim>\<open>%x\<close> with a field width: white space is skipped and not counted; a sign and the
  prefix \<^verbatim>\<open>0x\<close> are accepted.
\<close>

definition scan_x :: "nat \<Rightarrow> string \<Rightarrow> (u32 \<times> string) option option" where
  "scan_x width s =
     (let s = dropWhile is_space s;
          (neg, b) = scan_sign (take width s);
          b = (if take 2 b = ''0x'' \<or> take 2 b = ''0X'' then drop 2 b else b)
      in case scan_number 16 b of
           None \<Rightarrow> Some None
         | Some (n, r) \<Rightarrow>
             if 2 ^ 32 \<le> n then None
             else Some (Some (word_of_int (if neg then - n else n), drop (length (take width s) - length r) s)))"

definition lower :: "char \<Rightarrow> char" where
  "lower c = (let n = (of_char c :: nat) in if 65 \<le> n \<and> n \<le> 90 then char_of (n + 32) else c)"

text \<open>\<^verbatim>\<open>strcasecmp(a, b) == 0\<close>.\<close>

definition same_text :: "string \<Rightarrow> string \<Rightarrow> bool" where
  "same_text a b \<longleftrightarrow> map lower a = map lower b"

fun split_on :: "char \<Rightarrow> string \<Rightarrow> string list" where
  "split_on sep [] = [[]]"
| "split_on sep (c # s) = (if c = sep then [] # split_on sep s
     else case split_on sep s of t # ts \<Rightarrow> (c # t) # ts | [] \<Rightarrow> [[c]])"

text \<open>The tokens that \<^verbatim>\<open>strtok_r\<close> finds: empty ones are skipped.\<close>

definition tokens :: "char \<Rightarrow> string \<Rightarrow> string list" where
  "tokens sep s = filter (\<lambda>t. t \<noteq> []) (split_on sep s)"

text \<open>\<^verbatim>\<open>inet_pton(AF_INET)\<close>: four decimal numbers up to 255 without leading zeros.\<close>

definition octet :: "string \<Rightarrow> byte option" where
  "octet s =
     (if s \<noteq> [] \<and> length s \<le> 3 \<and> list_all (\<lambda>c. digit_val c < 10) s \<and> numeral_of 10 s \<le> 255 \<and>
         (1 < length s \<longrightarrow> hd s \<noteq> CHR ''0'')
      then Some (word_of_int (numeral_of 10 s)) else None)"

definition inet_pton :: "string \<Rightarrow> u32 option" where
  "inet_pton s = (case split_on (CHR ''.'') s of
     [a, b, c, d] \<Rightarrow> do {
       a \<leftarrow> octet a; b \<leftarrow> octet b; c \<leftarrow> octet c; d \<leftarrow> octet d;
       Some (host32 a b c d)
     }
   | _ \<Rightarrow> None)"

section \<open>Addresses, masks and keys\<close>

text \<open>\<^term>\<open>None\<close> is the return value -1 where nothing is undefined.\<close>

definition parse_mac :: "string \<Rightarrow> buf option option" where
  "parse_mac str =
     (let colon = (\<lambda>x. case x of Some (v, c # r) \<Rightarrow> if c = CHR '':'' then Some (v, r) else None | _ \<Rightarrow> None);
          next_group = (\<lambda>(vs, s). do {
            x \<leftarrow> scan_x (length s) s;
            Some (map_option (\<lambda>(v, r). (vs @ [v], r)) (colon x)) });
          step = (\<lambda>st. do { st \<leftarrow> st; case st of None \<Rightarrow> Some None | Some p \<Rightarrow> next_group p })
      in do {
        st \<leftarrow> step (step (step (step (step (Some (Some ([], str)))))));
        case st of
          None \<Rightarrow> Some None
        | Some (vs, s) \<Rightarrow> do {
            x \<leftarrow> scan_x (length s) s;
            Some (map_option (\<lambda>(v, r). map ucast (vs @ [v])) x)
          }
      })"

definition parse_ipv4_netmask_be :: "string \<Rightarrow> u32 option" where
  "parse_ipv4_netmask_be s = (case inet_pton s of
     None \<Rightarrow> None
   | Some a \<Rightarrow> if ipv4_mask_be_is_contiguous a then Some a else None)"

definition parse_suffix :: "string \<Rightarrow> u32 option" where
  "parse_suffix suffix =
     (if CHR ''.'' \<in> set suffix then parse_ipv4_netmask_be suffix
      else let (plen, end) = strtol suffix
        in if end \<noteq> [] \<or> plen < 0 \<or> plen > 32 then None else Some (ipv4_prefix_to_mask_be plen))"

text \<open>Address, mask and network.\<close>

definition parse_ip_cidr :: "string \<Rightarrow> (u32 \<times> u32 \<times> u32) option" where
  "parse_ip_cidr str =
     (let buf = take 127 str;
          ip_part = dropWhile is_blank (takeWhile (\<lambda>c. c \<noteq> CHR ''/'') buf);
          rest = dropWhile (\<lambda>c. c \<noteq> CHR ''/'') buf;
          suffix = dropWhile is_blank (tl rest)
      in if rest \<noteq> [] \<and> suffix = [] then None
         else do {
           ip \<leftarrow> inet_pton ip_part;
           netmask \<leftarrow> (if rest \<noteq> [] then parse_suffix suffix else Some (ipv4_prefix_to_mask_be 32));
           Some (ip, netmask, ip AND netmask)
         })"

text \<open>The hexadecimal key; a prefix of the output is written before a failure.\<close>

fun hex_bytes :: "nat \<Rightarrow> string \<Rightarrow> buf \<Rightarrow> (bool \<times> buf) option" where
  "hex_bytes 0 s out = Some (True, out)"
| "hex_bytes (Suc n) s out = do {
     x \<leftarrow> scan_x 2 s;
     case x of
       None \<Rightarrow> Some (False, out)
     | Some (v, r) \<Rightarrow> hex_bytes n (drop 2 s) (out @ [ucast v])
   }"

definition parse_hex_bytes :: "string \<Rightarrow> buf \<Rightarrow> nat \<Rightarrow> (int \<times> buf) option" where
  "parse_hex_bytes str out expected_len =
     (if length str \<noteq> expected_len * 2 then Some (-1, out)
      else do {
        (ok, written) \<leftarrow> hex_bytes expected_len str [];
        out \<leftarrow> wrn out 0 written;
        Some (if ok then 0 else -1, out)
      })"

text \<open>The address of an interface as the kernel reports it: whether the socket opened, and the results
  of the two \<^verbatim>\<open>ioctl\<close> calls.\<close>

definition local_config_fill_ipv4_from_iface ::
    "bool \<Rightarrow> u32 option \<Rightarrow> u32 option \<Rightarrow> local_config \<Rightarrow> int \<times> local_config" where
  "local_config_fill_ipv4_from_iface socket_ok addr netmask l =
     (if lc_ifname l = [] then (-1, l)
      else if \<not> socket_ok then (-1, l)
      else case addr of
        None \<Rightarrow> (-1, l)
      | Some ip \<Rightarrow>
          let m = (case netmask of Some m \<Rightarrow> m | None \<Rightarrow> htonl 0xFFFFFFFF)
          in (0, l\<lparr>lc_ip := ip, lc_netmask := m, lc_network := ip AND m\<rparr>))"

section \<open>Printing and parsing\<close>

fun decimal :: "nat \<Rightarrow> string" where
  "decimal n = (if n < 10 then [] else decimal (n div 10)) @ [char_of (48 + n mod 10)]"

declare decimal.simps [simp del]

definition dotted :: "nat \<Rightarrow> nat \<Rightarrow> nat \<Rightarrow> nat \<Rightarrow> string" where
  "dotted a b c d = decimal a @ ''.'' @ decimal b @ ''.'' @ decimal c @ ''.'' @ decimal d"

definition address :: "nat \<Rightarrow> nat \<Rightarrow> nat \<Rightarrow> nat \<Rightarrow> u32" where
  "address a b c d = host32 (of_nat a) (of_nat b) (of_nat c) (of_nat d)"

definition is_digit :: "char \<Rightarrow> bool" where
  "is_digit c \<longleftrightarrow> digit_val c < 10"

lemma is_digit_of_char: "is_digit c \<longleftrightarrow> 48 \<le> (of_char c :: nat) \<and> (of_char c :: nat) \<le> 57"
  by (auto simp: is_digit_def digit_val_def Let_def)

lemma digit_val_char_of [simp]: "d < 10 \<Longrightarrow> digit_val (char_of (48 + d)) = d"
  by (simp add: digit_val_def Let_def)

lemma is_digit_neq [simp]:
  "is_digit c \<Longrightarrow> c \<noteq> CHR ''.''" "is_digit c \<Longrightarrow> c \<noteq> CHR ''/''" "is_digit c \<Longrightarrow> c \<noteq> CHR ''-''"
  "is_digit c \<Longrightarrow> c \<noteq> CHR ''+''" "is_digit c \<Longrightarrow> \<not> is_space c" "is_digit c \<Longrightarrow> \<not> is_blank c" "is_digit c \<Longrightarrow> c \<noteq> CHR ''!''"
  "is_digit c \<Longrightarrow> c \<noteq> CHR ''*''" "is_digit c \<Longrightarrow> c \<noteq> CHR '',''"
  by (auto simp: is_digit_of_char is_space_def is_blank_def Let_def)

lemma decimal_digits: "c \<in> set (decimal n) \<Longrightarrow> is_digit c"
proof (induction n rule: decimal.induct)
  case (1 n)
  then show ?case by (subst (asm) (2) decimal.simps) (auto simp: is_digit_def split: if_splits)
qed

lemma decimal_not_Nil [simp]: "decimal n \<noteq> []"
  by (subst decimal.simps) simp

lemma decimal_Cons: obtains c ds where "decimal n = c # ds" "is_digit c" "\<forall>d\<in>set ds. is_digit d"
  using decimal_digits [of _ n] decimal_not_Nil [of n] by (metis list.set_intros neq_Nil_conv)

lemma numeral_of_snoc [simp]: "numeral_of b (ds @ [c]) = numeral_of b ds * b + int (digit_val c)"
  by (simp add: numeral_of_def)

lemma numeral_of_Nil [simp]: "numeral_of b [] = 0"
  by (simp add: numeral_of_def)

lemma numeral_decimal [simp]: "numeral_of 10 (decimal n) = int n"
proof (induction n rule: decimal.induct)
  case (1 n)
  have u: "numeral_of 10 (decimal n) = (if n < 10 then 0 else numeral_of 10 (decimal (n div 10))) * 10 + int (n mod 10)"
    by (subst decimal.simps) (simp only: numeral_of_snoc digit_val_char_of mod_less_divisor, simp)
  show ?case
  proof (cases "n < 10")
    case True
    then show ?thesis using u by simp
  next
    case False
    have "numeral_of 10 (decimal n) = int (n div 10) * 10 + int (n mod 10)" using u 1 [OF False] False by simp
    also have "\<dots> = int n" by presburger
    finally show ?thesis .
  qed
qed

lemma scan_number_decimal:
  assumes "r = [] \<or> \<not> is_digit (hd r)"
  shows "scan_number 10 (decimal n @ r) = Some (int n, r)"
proof -
  have "takeWhile (\<lambda>c. int (digit_val c) < 10) r = []" using assms by (cases r) (auto simp: is_digit_def)
  then have "takeWhile (\<lambda>c. int (digit_val c) < 10) (decimal n @ r) = decimal n"
    using decimal_digits [of _ n] by (simp add: is_digit_def)
  then show ?thesis by (simp add: scan_number_def)
qed

lemma scan_int_decimal:
  assumes "r = [] \<or> \<not> is_digit (hd r)"
  shows "scan_int (decimal n @ r) = Some (int n, r)"
proof -
  obtain c ds where d: "decimal n = c # ds" "is_digit c" by (rule decimal_Cons)
  then have "scan_sign (dropWhile is_space (decimal n @ r)) = (False, decimal n @ r)"
    by (simp add: scan_sign_def)
  then show ?thesis using scan_number_decimal [OF assms] by (simp add: scan_int_def)
qed

lemma split_on_no_sep [simp]: "sep \<notin> set s \<Longrightarrow> split_on sep s = [s]"
  by (induction s) auto

lemma split_on_append [simp]: "sep \<notin> set s \<Longrightarrow> split_on sep (s @ sep # r) = s # split_on sep r"
  by (induction s) auto

lemma decimal_leading: "9 < n \<Longrightarrow> hd (decimal n) \<noteq> CHR ''0''"
proof (induction n rule: decimal.induct)
  case (1 n)
  then have "hd (decimal n) = hd (decimal (n div 10))" by (subst decimal.simps) (simp add: hd_append)
  moreover have "hd (decimal (n div 10)) \<noteq> CHR ''0''"
  proof (cases "n div 10 < 10")
    case True
    have "n div 10 \<noteq> 0" using 1(2) by simp
    moreover have "decimal (n div 10) = [char_of (48 + n div 10)]" using True by (subst decimal.simps) simp
    moreover have "char_of (48 + m) \<noteq> CHR ''0''" if "m \<noteq> 0" "m < 10" for m :: nat
    proof
      assume "char_of (48 + m) = CHR ''0''"
      from arg_cong [OF this, of digit_val] show False using that by (simp add: digit_val_def)
    qed
    ultimately show ?thesis using True by simp
  qed (use 1 in simp)
  ultimately show ?case by simp
qed

lemma decimal_length: "n < 1000 \<Longrightarrow> length (decimal n) \<le> 3" "length (decimal n) = 1 \<longleftrightarrow> n < 10"
proof -
  have one: "length (decimal m) = 1" if "m < 10" for m using that by (subst decimal.simps) simp
  have more: "length (decimal m) = Suc (length (decimal (m div 10)))" if "\<not> m < 10" for m
    using that by (subst decimal.simps) simp
  show "length (decimal n) = 1 \<longleftrightarrow> n < 10" using one [of n] more [of n] by (cases "n < 10") auto
  have "length (decimal m) \<le> 2" if "m < 100" for m
    using that one [of m] more [of m] one [of "m div 10"] by (cases "m < 10") auto
  then show "length (decimal n) \<le> 3" if "n < 1000"
    using that one [of n] more [of n] by (cases "n < 10") auto
qed

lemma octet_decimal: "n \<le> 255 \<Longrightarrow> octet (decimal n) = Some (of_nat n)"
  using decimal_length [of n] decimal_leading [of n] decimal_digits [of _ n]
  by (auto simp: octet_def list_all_iff is_digit_def)

lemma dot_not_decimal [simp]: "CHR ''.'' \<notin> set (decimal n)" "CHR ''/'' \<notin> set (decimal n)"
  using decimal_digits [of _ n] is_digit_neq(1,2) by blast+

lemma inet_pton_dotted:
  "a \<le> 255 \<Longrightarrow> b \<le> 255 \<Longrightarrow> c \<le> 255 \<Longrightarrow> d \<le> 255 \<Longrightarrow>
    inet_pton (dotted a b c d) = Some (address a b c d)"
  by (simp add: inet_pton_def dotted_def octet_decimal address_def)

lemma decimal_length_le: "n < 1000 \<Longrightarrow> length (decimal n) \<le> 3"
  by (rule decimal_length)

lemma dotted_shape:
  "CHR ''/'' \<notin> set (dotted a b c d)" "CHR ''.'' \<in> set (dotted a b c d)" "dotted a b c d \<noteq> []"
  "dropWhile is_blank (dotted a b c d) = dotted a b c d"
proof -
  obtain x xs where "decimal a = x # xs" "is_digit x" by (rule decimal_Cons)
  then show "dropWhile is_blank (dotted a b c d) = dotted a b c d" by (simp add: dotted_def)
qed (simp_all add: dotted_def)

lemma dotted_length: "a \<le> 255 \<Longrightarrow> b \<le> 255 \<Longrightarrow> c \<le> 255 \<Longrightarrow> d \<le> 255 \<Longrightarrow> length (dotted a b c d) \<le> 15"
  using decimal_length_le [of a] decimal_length_le [of b] decimal_length_le [of c] decimal_length_le [of d]
  by (simp add: dotted_def)

text \<open>An address followed by a suffix that the buffer of the parser can hold.\<close>

lemma parse_ip_cidr_suffix:
  assumes "a \<le> 255" "b \<le> 255" "c \<le> 255" "d \<le> 255" and "length suf \<le> 111" "suf \<noteq> []" "dropWhile is_blank suf = suf"
  shows "parse_ip_cidr (dotted a b c d @ CHR ''/'' # suf) =
    map_option (\<lambda>m. (address a b c d, m,
      address a b c d AND m)) (parse_suffix suf)"
proof -
  have s: "take 127 (dotted a b c d @ CHR ''/'' # suf) = dotted a b c d @ CHR ''/'' # suf"
    using dotted_length [OF assms(1-4)] assms(5) by simp
  have t: "takeWhile (\<lambda>c. c \<noteq> CHR ''/'') (dotted a b c d @ CHR ''/'' # suf) = dotted a b c d"
    "dropWhile (\<lambda>c. c \<noteq> CHR ''/'') (dotted a b c d @ CHR ''/'' # suf) = CHR ''/'' # suf"
    using dotted_shape(1) [of a b c d] by (auto simp: takeWhile_append dropWhile_append)
  show ?thesis unfolding parse_ip_cidr_def Let_def s t using assms
    by (cases "parse_suffix suf") (simp_all add: dotted_shape inet_pton_dotted)
qed

text \<open>C27: Addresses in dotted notation with a prefix length, or with a mask in dotted notation when the
  mask is contiguous, are read as what they denote; an address alone has all mask bits set.\<close>

theorem ip_cidr_roundtrip:
  assumes "a \<le> 255" "b \<le> 255" "c \<le> 255" "d \<le> 255" and "e \<le> 255" "f \<le> 255" "g \<le> 255" "h \<le> 255"
    and "p \<le> 32"
  shows "parse_ip_cidr (dotted a b c d @ ''/'' @ decimal p) =
      Some (address a b c d, ipv4_prefix_to_mask_be (int p), address a b c d AND ipv4_prefix_to_mask_be (int p)) \<and>
    parse_ip_cidr (dotted a b c d @ ''/'' @ dotted e f g h) =
      (if ipv4_mask_be_is_contiguous (address e f g h) then Some (address a b c d, address e f g h, address a b c d AND address e f g h) else None) \<and>
    parse_ip_cidr (dotted a b c d) = Some (address a b c d, NOT 0, address a b c d)"
proof (intro conjI)
  obtain x xs where x: "decimal p = x # xs" "is_digit x" by (rule decimal_Cons)
  have "dropWhile is_blank (decimal p) = decimal p" using x by simp
  moreover have "parse_suffix (decimal p) = Some (ipv4_prefix_to_mask_be (int p))"
    using assms(9) scan_int_decimal [of "[]" p] by (simp add: parse_suffix_def strtol_def)
  ultimately show "parse_ip_cidr (dotted a b c d @ ''/'' @ decimal p) =
      Some (address a b c d, ipv4_prefix_to_mask_be (int p), address a b c d AND ipv4_prefix_to_mask_be (int p))"
    using parse_ip_cidr_suffix [OF assms(1-4), of "decimal p"] decimal_length_le [of p] assms(9) by simp
  show "parse_ip_cidr (dotted a b c d @ ''/'' @ dotted e f g h) =
      (if ipv4_mask_be_is_contiguous (address e f g h) then Some (address a b c d, address e f g h, address a b c d AND address e f g h) else None)"
    using parse_ip_cidr_suffix [OF assms(1-4), of "dotted e f g h"] dotted_length [OF assms(5-8)]
    by (simp add: dotted_shape parse_suffix_def parse_ipv4_netmask_be_def inet_pton_dotted assms(5-8))
  have t: "take 127 (dotted a b c d) = dotted a b c d" "takeWhile (\<lambda>c. c \<noteq> CHR ''/'') (dotted a b c d) = dotted a b c d"
    "dropWhile (\<lambda>c. c \<noteq> CHR ''/'') (dotted a b c d) = []"
    using dotted_shape(1) [of a b c d] dotted_length [OF assms(1-4)] by (auto simp: takeWhile_eq_all_conv)
  have "ipv4_prefix_to_mask_be 32 = NOT 0" by (simp add: ipv4_prefix_to_mask_be_def htonl_def host32_def)
  then show "parse_ip_cidr (dotted a b c d) = Some (address a b c d, NOT 0, address a b c d)"
    unfolding parse_ip_cidr_def Let_def t by (simp add: dotted_shape inet_pton_dotted assms(1-4))
qed

theorem ip_cidr_roundtrip_witness:
  "parse_ip_cidr (dotted 10 0 7 9 @ ''/'' @ decimal 16) = Some (0x0907000A, ipv4_prefix_to_mask_be 16, 0x0907000A AND ipv4_prefix_to_mask_be 16)"
  using ip_cidr_roundtrip [of 10 0 7 9 255 255 0 0 16] by (simp add: address_def host32_def)

end
