(* ===== verification/DbConfig.thy ===== *)
theory DbConfig
  imports Text
begin

text \<open>
  Reading a profile from the database, \<^verbatim>\<open>src/db/db_config.c\<close>.  The results of the queries are the
  input: per query the rows, or \<^term>\<open>None\<close> when it failed; a column that may be \<^verbatim>\<open>NULL\<close> is an
  option, and its text is then empty.  The SQL and the library that runs it are outside of the
  model, and so is SHA-256, a parameter.

  A step yields \<^term>\<open>None\<close> for undefined behaviour, \<^term>\<open>Some None\<close> for the return value -1.
\<close>

section \<open>Fields\<close>

definition str_is_any :: "string option \<Rightarrow> bool" where
  "str_is_any v = (case v of
     None \<Rightarrow> True
   | Some s \<Rightarrow> let s = dropWhile is_blank s in s = [] \<or> same_text s ''any'' \<or> s = ''*'')"

text \<open>\<^verbatim>\<open>sscanf(v, "%d-%d", &a, &b) == 2\<close>, and one with a single \<^verbatim>\<open>%d\<close>.\<close>

definition scan_range :: "string \<Rightarrow> (int \<times> int) option option" where
  "scan_range v = do {
     x \<leftarrow> scan_d v;
     case x of
       Some (a, c # r) \<Rightarrow>
         if c = CHR ''-'' then do { y \<leftarrow> scan_d r; Some (map_option (\<lambda>(b, _). (a, b)) y) } else Some None
     | _ \<Rightarrow> Some None
   }"

definition parse_port_range :: "string \<Rightarrow> (int \<times> int) option option" where
  "parse_port_range v =
     (if str_is_any (Some v) then Some (Some (-1, -1))
      else do {
        two \<leftarrow> scan_range v;
        case two of
          Some (a, b) \<Rightarrow>
            if a \<ge> 0 \<and> b \<ge> a \<and> b \<le> 65535 then Some (Some (a, b))
            else do {
              one \<leftarrow> scan_d v;
              Some (case one of Some (a, _) \<Rightarrow> if a \<ge> 0 \<and> a \<le> 65535 then Some (a, a) else None | None \<Rightarrow> None)
            }
        | None \<Rightarrow> do {
              one \<leftarrow> scan_d v;
              Some (case one of Some (a, _) \<Rightarrow> if a \<ge> 0 \<and> a \<le> 65535 then Some (a, a) else None | None \<Rightarrow> None)
            }
      })"

definition parse_ipv4_addr :: "string \<Rightarrow> u32 option" where
  "parse_ipv4_addr v =
     (if v = [] then None else inet_pton (takeWhile (\<lambda>c. c \<noteq> CHR ''/'') (take 63 v)))"

definition parse_protocol_name :: "string option \<Rightarrow> byte option" where
  "parse_protocol_name v = (case v of
     None \<Rightarrow> Some POLICY_PROTO_ANY
   | Some s \<Rightarrow>
       if str_is_any v then Some POLICY_PROTO_ANY
       else if same_text s ''tcp'' then Some 6
       else if same_text s ''udp'' then Some 17
       else if same_text s ''icmp'' then Some 1
       else if same_text s ''ospf'' then Some 89
       else map_option word_of_int (atoi s))"

definition parse_action_name :: "string \<Rightarrow> int option" where
  "parse_action_name v =
     (if same_text v ''bypass'' then Some POLICY_ACTION_BYPASS
      else if same_text v ''L2'' \<or> same_text v ''encrypt_l2'' \<or> same_text v ''encrypt l2'' then Some POLICY_ACTION_ENCRYPT_L2
      else if same_text v ''L3'' \<or> same_text v ''encrypt_l3'' \<or> same_text v ''encrypt l3'' then Some POLICY_ACTION_ENCRYPT_L3
      else if same_text v ''L4'' \<or> same_text v ''encrypt_l4'' \<or> same_text v ''encrypt l4'' then Some POLICY_ACTION_ENCRYPT_L4
      else atoi v)"

text \<open>Whether any address is meant, the negation, network and mask.\<close>

definition parse_cidr_any_or_negated :: "string \<Rightarrow> (bool \<times> bool \<times> u32 \<times> u32) option" where
  "parse_cidr_any_or_negated v_in =
     (if str_is_any (Some v_in) then Some (True, False, 0, 0)
      else let v = dropWhile is_blank v_in;
               neg = (v \<noteq> [] \<and> hd v = CHR ''!'');
               v = (if neg then dropWhile is_blank (tl v) else v)
        in case parse_ip_cidr v of
             None \<Rightarrow> None
           | Some (ip, netmask, net) \<Rightarrow> Some (False, neg, net, netmask))"

definition trim_spaces_inplace :: "string \<Rightarrow> string" where
  "trim_spaces_inplace s = rev (dropWhile is_blank (rev (dropWhile is_blank s)))"

abbreviation (input) MAX_CIDR_LIST_ITEMS :: nat where "MAX_CIDR_LIST_ITEMS \<equiv> 32"
abbreviation (input) MAX_CIDR_ITEM_LEN :: nat where "MAX_CIDR_ITEM_LEN \<equiv> 96"

fun split_items :: "nat \<Rightarrow> nat \<Rightarrow> string list \<Rightarrow> string list option" where
  "split_items max_out count [] = Some []"
| "split_items max_out count (tok # toks) =
     (if count \<ge> max_out then None
      else let tok = trim_spaces_inplace tok
        in if tok = [] then None
           else map_option (\<lambda>out. take (MAX_CIDR_ITEM_LEN - 1) tok # out) (split_items max_out (count + 1) toks))"

definition split_cidr_list :: "string \<Rightarrow> nat \<Rightarrow> string list option" where
  "split_cidr_list input max_out =
     (if max_out = 0 then None
      else let buf = trim_spaces_inplace (take 1023 input)
        in if buf = [] then None
           else case split_items max_out 0 (tokens (CHR '','') buf) of
             None \<Rightarrow> None
           | Some out \<Rightarrow> if out = [] then None else Some out)"

definition ne_fill_str_list :: "string option \<Rightarrow> nat \<Rightarrow> string list" where
  "ne_fill_str_list joined max_out = (case joined of
     None \<Rightarrow> [''ANY'']
   | Some s \<Rightarrow> if s = [] then [''ANY''] else
       (case split_cidr_list s max_out of None \<Rightarrow> [''ANY''] | Some out \<Rightarrow> out))"

text \<open>Mode and key width.\<close>

definition ne_parse_method :: "string option \<Rightarrow> int \<times> int" where
  "ne_parse_method v = (case v of
     None \<Rightarrow> (CRYPTO_MODE_GCM, 128)
   | Some s \<Rightarrow>
       if s = [] then (CRYPTO_MODE_GCM, 128)
       else if same_text s ''aes-gcm-128'' then (CRYPTO_MODE_GCM, 128)
       else if same_text s ''aes-gcm-256'' then (CRYPTO_MODE_GCM, 256)
       else if same_text s ''aes-ctr-128'' then (CRYPTO_MODE_CTR, 128)
       else if same_text s ''aes-ctr-256'' then (CRYPTO_MODE_CTR, 256)
       else (CRYPTO_MODE_GCM, 128))"

text \<open>The key in hexadecimal, or the hash of a text that is none.\<close>

definition ne_fill_policy_key :: "(string \<Rightarrow> buf) \<Rightarrow> string option \<Rightarrow> nat \<Rightarrow> buf option" where
  "ne_fill_policy_key sha256 enc_key key_len_bytes =
     (let out = replicate 32 0 in
      case enc_key of
        None \<Rightarrow> Some out
      | Some s \<Rightarrow>
          if s = [] then Some out
          else do {
            (rc, out) \<leftarrow> parse_hex_bytes s out key_len_bytes;
            if rc = 0 then Some out
            else do { md \<leftarrow> rdn (sha256 s) 0 key_len_bytes; wrn out 0 md }
          })"

definition ne_cidr_buf_with_invert :: "string \<Rightarrow> bool \<Rightarrow> string" where
  "ne_cidr_buf_with_invert tok invert_db =
     (if invert_db \<and> (tok = [] \<or> hd tok \<noteq> CHR ''!'') then CHR ''!'' # take 96 tok else take 97 tok)"

section \<open>Wire identifiers\<close>

text \<open>The first free identifier is taken when that of the row is not in the range or in use.\<close>

definition alloc_wire_policy_id :: "int \<Rightarrow> bool list \<Rightarrow> int \<times> bool list" where
  "alloc_wire_policy_id db_row_id used =
     (if db_row_id \<ge> 1 \<and> db_row_id \<le> 255 \<and> \<not> used ! nat db_row_id
      then (db_row_id, used[nat db_row_id := True])
      else case find (\<lambda>j. \<not> used ! j) [1..<256] of
        Some j \<Rightarrow> (int j, used[j := True])
      | None \<Rightarrow> (-1, used))"

type_synonym key_wire_map = "(buf \<times> int) list"

definition ne_wire_id_for_encrypt_key ::
    "key_wire_map \<Rightarrow> nat \<Rightarrow> bool list \<Rightarrow> buf \<Rightarrow> int \<Rightarrow> int \<times> key_wire_map \<times> bool list" where
  "ne_wire_id_for_encrypt_key wmap map_sz used key db_policy_id =
     (if key = [] then (let (wid, used) = alloc_wire_policy_id db_policy_id used in (wid, wmap, used))
      else case map_of wmap key of
        Some wid \<Rightarrow> (wid, wmap, used)
      | None \<Rightarrow>
          let (wid, used) = alloc_wire_policy_id db_policy_id used
          in if wid < 0 then (-1, wmap, used)
             else (wid, if length wmap < map_sz then wmap @ [(key, wid)] else wmap, used))"

section \<open>Rows\<close>

record wan_row =
  wr_ifname :: string
  wr_dst_ip :: string
  wr_src_mac :: "string option"
  wr_dst_mac :: "string option"

record policy_row =
  row_id :: string
  row_priority :: string
  row_action :: string
  row_proto :: "string option"
  row_src_ip :: "string option"
  row_invert_src_ip :: string
  row_dst_ip :: "string option"
  row_invert_dst_ip :: string
  row_src_port :: "string option"
  row_dst_port :: "string option"
  row_method :: "string option"
  row_encryption_key :: "string option"
  row_nonce :: "string option"

text \<open>What the queries for one profile return.  A row of the profile is its number and whether it is
  enabled; a WAN of the profile has a weight when the result has such a column.\<close>

record profile_rows =
  q_connected :: bool
  q_exists :: "unit list option"
  q_lan :: "string list option"
  q_wan :: "wan_row list option"
  q_profile :: "(string \<times> string) list option"
  q_profile_lan :: "string list option"
  q_profile_wan :: "(string \<times> string option) list option"
  q_policies :: "policy_row list option"

abbreviation (input) MAX_PROFILE_INTERFACES :: nat where "MAX_PROFILE_INTERFACES \<equiv> 16"
abbreviation (input) NE_KEY_WIRE_MAP_MAX :: nat where "NE_KEY_WIRE_MAP_MAX \<equiv> 64"

type_synonym 'a loaded = "'a option option"

definition and_then :: "'a loaded \<Rightarrow> ('a \<Rightarrow> 'b loaded) \<Rightarrow> 'b loaded" where
  "and_then x f = (case x of None \<Rightarrow> None | Some None \<Rightarrow> Some None | Some (Some v) \<Rightarrow> f v)"

fun each :: "('a \<Rightarrow> 's \<Rightarrow> 's loaded) \<Rightarrow> 'a list \<Rightarrow> 's \<Rightarrow> 's loaded" where
  "each f [] s = Some (Some s)"
| "each f (x # xs) s = and_then (f x s) (each f xs)"

section \<open>Interfaces\<close>

definition default_local :: "app_config \<Rightarrow> local_config" where
  "default_local cfg = \<lparr>lc_ifname = [], lc_ip = 0, lc_netmask = 0, lc_network = 0, lc_src_mac = replicate 6 0,
     lc_dst_mac = replicate 6 0, lc_umem_mb = 2048, lc_ring_size = 262144, lc_batch_size = global_batch_size cfg,
     lc_frame_size = global_frame_size cfg, lc_queue_count = 1\<rparr>"

definition load_local_row :: "string \<Rightarrow> app_config \<Rightarrow> app_config loaded" where
  "load_local_row v cfg =
     (if MAX_INTERFACES \<le> length (ac_locals cfg) then None
      else if v = [] then Some None
      else Some (Some (cfg\<lparr>ac_locals := ac_locals cfg @ [(default_local cfg)\<lparr>lc_ifname := take 15 v\<rparr>]\<rparr>)))"

definition load_local_rows :: "app_config \<Rightarrow> string list \<Rightarrow> app_config loaded" where
  "load_local_rows cfg rows =
     (if length rows = 0 then Some None
      else if length rows > MAX_INTERFACES then Some None
      else each load_local_row rows cfg)"

definition default_wan :: "app_config \<Rightarrow> wan_config" where
  "default_wan cfg = \<lparr>wc_ifname = [], wc_dst_ip = 0, wc_src_mac = replicate 6 0, wc_dst_mac = replicate 6 0,
     wc_window_size = 10240 * 1024, wc_umem_mb = 256, wc_ring_size = 32768, wc_batch_size = global_batch_size cfg,
     wc_frame_size = global_frame_size cfg, wc_queue_count = 1\<rparr>"

text \<open>A MAC address column that is present and not empty replaces the address, when it can be read.\<close>

definition mac_column :: "string option \<Rightarrow> buf \<Rightarrow> buf option" where
  "mac_column col mac = (case col of
     None \<Rightarrow> Some mac
   | Some v \<Rightarrow> if v = [] then Some mac
       else do { m \<leftarrow> parse_mac v; Some (case m of Some b \<Rightarrow> b | None \<Rightarrow> mac) })"

definition load_wan_row :: "wan_row \<Rightarrow> app_config \<Rightarrow> app_config loaded" where
  "load_wan_row row cfg =
     (if MAX_INTERFACES \<le> length (ac_wans cfg) then None
      else if wr_ifname row = [] then Some None
      else do {
        let dst_ip = (case parse_ipv4_addr (wr_dst_ip row) of Some ip \<Rightarrow> ip | None \<Rightarrow> 0);
        src_mac \<leftarrow> mac_column (wr_src_mac row) (replicate 6 0);
        dst_mac \<leftarrow> mac_column (wr_dst_mac row) (replicate 6 0);
        let wan = (default_wan cfg)\<lparr>wc_ifname := take 15 (wr_ifname row), wc_dst_ip := dst_ip,
          wc_src_mac := src_mac, wc_dst_mac := dst_mac\<rparr>;
        Some (Some (cfg\<lparr>ac_wans := ac_wans cfg @ [wan]\<rparr>))
      })"

definition load_wan_rows :: "app_config \<Rightarrow> wan_row list \<Rightarrow> app_config loaded" where
  "load_wan_rows cfg rows =
     (if length rows = 0 then Some None
      else if length rows > MAX_INTERFACES then Some None
      else each load_wan_row rows cfg)"

definition find_local_index_by_ifname :: "app_config \<Rightarrow> string \<Rightarrow> nat option" where
  "find_local_index_by_ifname cfg ifname = find (\<lambda>i. lc_ifname (ac_locals cfg ! i) = ifname) [0..<length (ac_locals cfg)]"

definition find_wan_index_by_ifname :: "app_config \<Rightarrow> string \<Rightarrow> nat option" where
  "find_wan_index_by_ifname cfg ifname = find (\<lambda>i. wc_ifname (ac_wans cfg ! i) = ifname) [0..<length (ac_wans cfg)]"

text \<open>The loops over the rows of a profile end when its array is full.\<close>

fun profile_append_locals :: "app_config \<Rightarrow> string list \<Rightarrow> profile_config \<Rightarrow> profile_config" where
  "profile_append_locals cfg [] p = p"
| "profile_append_locals cfg (ifname # rows) p =
     (if length (pr_local_indices p) \<ge> MAX_PROFILE_INTERFACES then p
      else case find_local_index_by_ifname cfg ifname of
        Some li \<Rightarrow> profile_append_locals cfg rows (p\<lparr>pr_local_indices := pr_local_indices p @ [int li]\<rparr>)
      | None \<Rightarrow> profile_append_locals cfg rows p)"

fun profile_append_wans_from_rows ::
    "app_config \<Rightarrow> (string \<times> string option) list \<Rightarrow> profile_config \<Rightarrow> profile_config option" where
  "profile_append_wans_from_rows cfg [] p = Some p"
| "profile_append_wans_from_rows cfg ((ifname, weight) # rows) p =
     (if length (pr_wan_indices p) \<ge> MAX_PROFILE_INTERFACES then Some p
      else case find_wan_index_by_ifname cfg ifname of
        Some wi \<Rightarrow> do {
          w \<leftarrow> (case weight of Some t \<Rightarrow> atoi t | None \<Rightarrow> Some 0);
          profile_append_wans_from_rows cfg rows
            (p\<lparr>pr_wan_indices := pr_wan_indices p @ [int wi], pr_wan_bandwidth_weight := pr_wan_bandwidth_weight p @ [w]\<rparr>)
        }
      | None \<Rightarrow> profile_append_wans_from_rows cfg rows p)"

section \<open>Policies\<close>

definition zero_policy :: crypto_policy where
  "zero_policy = \<lparr>cp_id = 0, cp_db_id = 0, cp_priority = 0, cp_action = 0, cp_protocol = 0, cp_src_port_from = 0,
     cp_src_port_to = 0, cp_dst_port_from = 0, cp_dst_port_to = 0, cp_src_any = False, cp_dst_any = False,
     cp_src_negate = False, cp_dst_negate = False, cp_src_net = 0, cp_src_mask = 0, cp_dst_net = 0, cp_dst_mask = 0,
     cp_crypto_mode = 0, cp_aes_bits = 0, cp_nonce_size = 0, cp_key = replicate 32 0\<rparr>"

text \<open>The fields that all policies made from one row share.\<close>

definition policy_base ::
    "(string \<Rightarrow> buf) \<Rightarrow> policy_row \<Rightarrow> key_wire_map \<times> bool list \<Rightarrow> (crypto_policy \<times> key_wire_map \<times> bool list) loaded" where
  "policy_base sha256 row ids = do {
     let (wmap, used) = ids;
     db_policy_id \<leftarrow> atoi (row_id row);
     priority \<leftarrow> atoi (row_priority row);
     action \<leftarrow> parse_action_name (row_action row);
     protocol \<leftarrow> parse_protocol_name (row_proto row);
     let cp = zero_policy\<lparr>cp_db_id := db_policy_id, cp_priority := priority, cp_action := action, cp_protocol := protocol\<rparr>;
     if action = POLICY_ACTION_BYPASS
     then Some (Some (cp\<lparr>cp_crypto_mode := CRYPTO_MODE_GCM, cp_aes_bits := 128, cp_nonce_size := 12\<rparr>, wmap, used))
     else do {
       let (mode, bits) = ne_parse_method (row_method row);
       nonce \<leftarrow> (case row_nonce row of None \<Rightarrow> Some 12 | Some t \<Rightarrow> atoi t);
       let bits = (if bits \<noteq> 256 then 128 else bits);
       let nonce = (if nonce \<le> 0 then 12 else nonce);
       let key_len = (if bits = 256 then 32 else 16);
       key \<leftarrow> ne_fill_policy_key sha256 (row_encryption_key row) key_len;
       let (wire_id, wmap, used) = ne_wire_id_for_encrypt_key wmap NE_KEY_WIRE_MAP_MAX used (take key_len key) db_policy_id;
       if wire_id < 0 then Some None
       else Some (Some (cp\<lparr>cp_crypto_mode := mode, cp_aes_bits := bits, cp_nonce_size := nat nonce, cp_key := key,
         cp_id := wire_id\<rparr>, wmap, used))
     }
   }"

definition port_or_any :: "string \<Rightarrow> (int \<times> int) option" where
  "port_or_any v = do { r \<leftarrow> parse_port_range v; Some (case r of Some p \<Rightarrow> p | None \<Rightarrow> (-1, -1)) }"

definition cidr_or_any :: "string \<Rightarrow> bool \<times> bool \<times> u32 \<times> u32" where
  "cidr_or_any v = (case parse_cidr_any_or_negated v of Some r \<Rightarrow> r | None \<Rightarrow> (True, False, 0, 0))"

text \<open>One policy per combination of source, destination and ports: the policies of the configuration
  and the indices of the profile.\<close>

definition expand_policy ::
    "crypto_policy \<Rightarrow> bool \<Rightarrow> bool \<Rightarrow> string \<times> string \<times> string \<times> string \<Rightarrow>
     crypto_policy list \<times> int list \<Rightarrow> (crypto_policy list \<times> int list) loaded" where
  "expand_policy cp invert_src invert_dst items st =
     (let (src, dst, sp, dp) = items; (policies, indices) = st
      in if length policies \<ge> MAX_CRYPTO_POLICIES \<or> length indices \<ge> MAX_CRYPTO_POLICIES then Some None
         else do {
           (sf, t) \<leftarrow> port_or_any sp;
           (df, dt) \<leftarrow> port_or_any dp;
           let (sany, sneg, snet, smask) = cidr_or_any (ne_cidr_buf_with_invert src invert_src);
           let (dany, dneg, dnet, dmask) = cidr_or_any (ne_cidr_buf_with_invert dst invert_dst);
           Some (Some (policies @ [cp\<lparr>cp_src_port_from := sf, cp_src_port_to := t, cp_dst_port_from := df, cp_dst_port_to := dt,
               cp_src_any := sany, cp_src_negate := sneg, cp_src_net := snet, cp_src_mask := smask,
               cp_dst_any := dany, cp_dst_negate := dneg, cp_dst_net := dnet, cp_dst_mask := dmask\<rparr>],
             indices @ [int (length policies)]))
         })"

type_synonym policy_state = "(crypto_policy list \<times> int list) \<times> key_wire_map \<times> bool list"

definition load_policy_row :: "(string \<Rightarrow> buf) \<Rightarrow> policy_row \<Rightarrow> policy_state \<Rightarrow> policy_state loaded" where
  "load_policy_row sha256 row st =
     (let (lists, ids) = st
      in and_then (policy_base sha256 row ids) (\<lambda>(cp, ids).
         let srcs = ne_fill_str_list (row_src_ip row) MAX_CIDR_LIST_ITEMS;
             dsts = ne_fill_str_list (row_dst_ip row) MAX_CIDR_LIST_ITEMS;
             sps = ne_fill_str_list (row_src_port row) MAX_CIDR_LIST_ITEMS;
             dps = ne_fill_str_list (row_dst_port row) MAX_CIDR_LIST_ITEMS
         in and_then
           (each (expand_policy cp (row_invert_src_ip row = ''t'') (row_invert_dst_ip row = ''t''))
             (List.product srcs (List.product dsts (List.product sps dps))) lists)
           (\<lambda>lists. Some (Some (lists, ids)))))"

definition load_profiles_and_policies ::
    "(string \<Rightarrow> buf) \<Rightarrow> profile_rows \<Rightarrow> app_config \<Rightarrow> app_config loaded" where
  "load_profiles_and_policies sha256 q cfg =
     (case q_profile q of
        None \<Rightarrow> Some None
      | Some [] \<Rightarrow> Some None
      | Some ((pid, enabled) # _) \<Rightarrow>
          if 32 \<le> length (ac_profiles cfg) then None
          else do {
            pid \<leftarrow> atoi pid;
            enabled \<leftarrow> atoi enabled;
            let p = \<lparr>pr_id = pid, pr_enabled = (enabled \<noteq> 0), pr_local_indices = [], pr_wan_indices = [],
              pr_wan_bandwidth_weight = [], pr_policy_indices = []\<rparr>;
            let p = profile_append_locals cfg (case q_profile_lan q of Some rows \<Rightarrow> rows | None \<Rightarrow> []) p;
            p \<leftarrow> profile_append_wans_from_rows cfg (case q_profile_wan q of Some rows \<Rightarrow> rows | None \<Rightarrow> []) p;
            case q_policies q of
              None \<Rightarrow> Some None
            | Some rows \<Rightarrow>
                and_then (each (load_policy_row sha256) rows
                    ((ac_policies cfg, pr_policy_indices p), [], True # replicate 255 False))
                  (\<lambda>((policies, indices), _).
                    Some (Some (cfg\<lparr>ac_profiles := ac_profiles cfg @ [p\<lparr>pr_policy_indices := indices\<rparr>],
                      ac_policies := policies\<rparr>)))
          })"

section \<open>The settings that follow from the policies\<close>

definition apply_crypto_derived_from_policies :: "app_config \<Rightarrow> app_config" where
  "apply_crypto_derived_from_policies cfg =
     (let cfg = cfg\<lparr>ac_crypto_enabled := False, ac_encrypt_layer := 0, ac_fake_protocol := 0, ac_fake_ethertype_ipv4 := 0,
            ac_crypto_mode := CRYPTO_MODE_CTR, ac_aes_bits := 128, ac_nonce_size := 12, ac_crypto_key := replicate 32 0\<rparr>
      in if ac_policies cfg = [] then cfg
         else let ps = take MAX_CRYPTO_POLICIES (ac_policies cfg);
                  has = (\<lambda>a. list_ex (\<lambda>cp. cp_action cp = a) ps);
                  has_l2 = has POLICY_ACTION_ENCRYPT_L2;
                  has_l3 = has POLICY_ACTION_ENCRYPT_L3;
                  has_l4 = has POLICY_ACTION_ENCRYPT_L4;
                  first_key = find (\<lambda>cp. cp_action cp \<noteq> POLICY_ACTION_BYPASS \<and> list_ex (\<lambda>b. b \<noteq> 0) (cp_key cp)) ps;
                  on = (has_l2 \<or> has_l3 \<or> has_l4);
                  cfg = cfg\<lparr>ac_crypto_enabled := on\<rparr>;
                  cfg = (if on then cfg\<lparr>ac_encrypt_layer := (if has_l3 \<or> has_l4 then 3 else if has_l2 then 2 else 4)\<rparr> else cfg);
                  cfg = (case first_key of
                      Some cp \<Rightarrow> if on
                        then cfg\<lparr>ac_crypto_mode := cp_crypto_mode cp, ac_aes_bits := (if cp_aes_bits cp = 256 then 256 else 128),
                               ac_nonce_size := (if cp_nonce_size cp > 0 then cp_nonce_size cp else 12), ac_crypto_key := cp_key cp\<rparr>
                        else cfg
                    | None \<Rightarrow> cfg);
                  cfg = (if has_l3 \<or> has_l4 then cfg\<lparr>ac_fake_protocol := 99\<rparr> else cfg)
              in if has_l2 then cfg\<lparr>ac_fake_ethertype_ipv4 := 0x88b5\<rparr> else cfg)"

section \<open>Loading\<close>

definition empty_config :: app_config where
  "empty_config = \<lparr>global_frame_size = 4096, global_batch_size = 64, ac_locals = [], ac_wans = [],
     ac_crypto_enabled = False, ac_crypto_key = replicate 32 0, ac_encrypt_layer = 0, ac_fake_ethertype_ipv4 = 0,
     ac_fake_protocol = 0, ac_crypto_mode = 0, ac_nonce_size = 0, ac_aes_bits = 0, ac_profiles = [], ac_policies = []\<rparr>"

definition fetch_config_from_db :: "(string \<Rightarrow> buf) \<Rightarrow> profile_rows \<Rightarrow> app_config \<Rightarrow> app_config loaded" where
  "fetch_config_from_db sha256 q cfg =
     and_then (case q_exists q of Some (_ # _) \<Rightarrow> Some (Some cfg) | _ \<Rightarrow> Some None) (\<lambda>cfg.
     and_then (case q_lan q of Some rows \<Rightarrow> load_local_rows cfg rows | None \<Rightarrow> Some None) (\<lambda>cfg.
     and_then (case q_wan q of Some rows \<Rightarrow> load_wan_rows cfg rows | None \<Rightarrow> Some None) (\<lambda>cfg.
     load_profiles_and_policies sha256 q cfg)))"

definition config_load_from_db :: "(string \<Rightarrow> buf) \<Rightarrow> profile_rows \<Rightarrow> app_config loaded" where
  "config_load_from_db sha256 q =
     (if \<not> q_connected q then Some None
      else and_then (fetch_config_from_db sha256 q empty_config) (\<lambda>cfg.
        let cfg = apply_crypto_derived_from_policies cfg
        in case config_validate cfg of Inl _ \<Rightarrow> Some None | Inr _ \<Rightarrow> Some (Some cfg)))"

section \<open>What the loader guarantees\<close>

lemma and_then_eq_Some: "and_then x f = Some (Some y) \<longleftrightarrow> (\<exists>v. x = Some (Some v) \<and> f v = Some (Some y))"
  by (auto simp: and_then_def split: option.split)

lemma each_invariant:
  assumes "each f xs s = Some (Some s')" "P s"
    and "\<And>x s s'. x \<in> set xs \<Longrightarrow> P s \<Longrightarrow> f x s = Some (Some s') \<Longrightarrow> P s'"
  shows "P s'"
  using assms by (induction xs arbitrary: s) (auto simp: and_then_eq_Some)

definition ports_ok :: "int \<times> int \<Rightarrow> bool" where
  "ports_ok r \<longleftrightarrow> r = (-1, -1) \<or> (0 \<le> fst r \<and> fst r \<le> snd r \<and> snd r \<le> 65535)"

lemma parse_port_range_ok: "parse_port_range v = Some (Some r) \<Longrightarrow> ports_ok r"
  by (auto simp: parse_port_range_def ports_ok_def split: if_splits bind_splits option.splits)

lemma port_or_any_ok: "port_or_any v = Some r \<Longrightarrow> ports_ok r"
  by (auto simp: port_or_any_def ports_ok_def dest: parse_port_range_ok split: bind_splits option.splits)

text \<open>The part of a policy that all policies of a row share.\<close>

definition policy_key :: "crypto_policy \<Rightarrow> buf" where
  "policy_key p = take (if cp_aes_bits p = 256 then 32 else 16) (cp_key p)"

definition base_ok :: "crypto_policy \<Rightarrow> bool" where
  "base_ok p \<longleftrightarrow> length (cp_key p) = 32 \<and> cp_aes_bits p \<in> {128, 256} \<and> 0 < cp_nonce_size p \<and>
     cp_crypto_mode p \<in> {CRYPTO_MODE_CTR, CRYPTO_MODE_GCM} \<and>
     (if cp_action p = POLICY_ACTION_BYPASS then cp_id p = 0 else 1 \<le> cp_id p \<and> cp_id p \<le> 255)"

definition policy_wf :: "crypto_policy \<Rightarrow> bool" where
  "policy_wf p \<longleftrightarrow> base_ok p \<and> ports_ok (cp_src_port_from p, cp_src_port_to p) \<and>
     ports_ok (cp_dst_port_from p, cp_dst_port_to p)"

definition encrypts :: "crypto_policy \<Rightarrow> bool" where
  "encrypts p \<longleftrightarrow> cp_action p \<noteq> POLICY_ACTION_BYPASS"

text \<open>An identifier in use stands for one key: the identifiers with their keys, of the policies and of
  the map, form a function into the identifiers marked as used.\<close>

definition names_ok :: "(int \<times> buf) set \<Rightarrow> bool list \<Rightarrow> bool" where
  "names_ok S used \<longleftrightarrow> length used = 256 \<and> used ! 0 \<and> single_valued S \<and>
     (\<forall>x \<in> S. 1 \<le> fst x \<and> fst x \<le> 255 \<and> used ! nat (fst x))"

definition names :: "crypto_policy list \<Rightarrow> key_wire_map \<Rightarrow> (int \<times> buf) set" where
  "names ps wmap = (\<lambda>p. (cp_id p, policy_key p)) ` {p \<in> set ps. encrypts p} \<union> (\<lambda>(k, w). (w, k)) ` set wmap"

lemma names_ok_mono: "names_ok S used \<Longrightarrow> T \<subseteq> S \<Longrightarrow> names_ok T used"
  unfolding names_ok_def by (meson single_valued_subset subsetD)

lemma names_ok_fresh:
  assumes "names_ok S used" "1 \<le> w" "w \<le> 255" "\<not> used ! nat w"
  shows "names_ok (insert (w, k) S) (used[nat w := True])"
proof -
  have "(w, k') \<notin> S" for k' using assms by (auto simp: names_ok_def)
  then have "single_valued (insert (w, k) S)" using assms(1) by (auto simp: names_ok_def single_valued_def)
  moreover have "nat w < length used" using assms by (simp add: names_ok_def)
  ultimately show ?thesis using assms by (auto simp: names_ok_def nth_list_update)
qed

lemma names_join:
  "names (ps @ [p]) wmap = (if encrypts p then insert (cp_id p, policy_key p) (names ps wmap) else names ps wmap)"
  by (auto simp: names_def)

lemma alloc_wire_policy_id_ok:
  assumes "alloc_wire_policy_id db used = (w, used')" "0 \<le> w"
  shows "1 \<le> w \<and> w \<le> 255 \<and> \<not> used ! nat w \<and> used' = used[nat w := True]"
  using assms by (auto simp: alloc_wire_policy_id_def split: if_splits option.splits dest!: find_SomeD)

lemma ne_wire_id_ok:
  assumes "ne_wire_id_for_encrypt_key wmap n used key db = (w, wmap', used')" "0 \<le> w" "names_ok (names ps wmap) used"
  shows "names_ok (insert (w, key) (names ps wmap')) used'"
proof (cases "key \<noteq> [] \<and> (\<exists>w. map_of wmap key = Some w)")
  case True
  then have "(key, w) \<in> set wmap" "wmap' = wmap" "used' = used"
    using assms(1) by (auto simp: ne_wire_id_for_encrypt_key_def split: option.splits dest: map_of_SomeD)
  then have "insert (w, key) (names ps wmap') = names ps wmap" "used' = used" by (force simp: names_def)+
  then show ?thesis using assms(3) by simp
next
  case False
  obtain w' used'' where a: "alloc_wire_policy_id db used = (w', used'')" by fastforce
  have "w' = w" "used' = used''" "wmap' = wmap \<or> wmap' = wmap @ [(key, w)]"
    using False a assms(1,2) by (auto simp: ne_wire_id_for_encrypt_key_def split: option.splits if_splits)
  then have "insert (w, key) (names ps wmap') = insert (w, key) (names ps wmap)" by (auto simp: names_def)
  then show ?thesis using names_ok_fresh [OF assms(3)] alloc_wire_policy_id_ok [of db used w used'] a assms(2)
      \<open>w' = w\<close> \<open>used' = used''\<close> by simp
qed

lemma ne_fill_policy_key_length: "ne_fill_policy_key sha k n = Some key \<Longrightarrow> length key = 32"
  by (auto simp: ne_fill_policy_key_def parse_hex_bytes_def Let_def split: option.splits if_splits bind_splits dest!: wrn_length)

lemma ne_parse_method_mode: "ne_parse_method v = (m, b) \<Longrightarrow> m \<in> {CRYPTO_MODE_CTR, CRYPTO_MODE_GCM}"
  by (auto simp: ne_parse_method_def split: option.splits if_splits)

lemma policy_base_ok:
  assumes "policy_base sha row (wmap, used) = Some (Some (cp, wmap', used'))" "names_ok (names ps wmap) used"
  shows "base_ok cp" "names_ok (names (ps @ [cp]) wmap') used'" "names_ok (names ps wmap') used'"
proof -
  have "base_ok cp \<and> names_ok (names (ps @ [cp]) wmap') used'"
  proof (cases "parse_action_name (row_action row) = Some 0")
    case True
    then show ?thesis using assms by (auto simp: policy_base_def Let_def base_ok_def zero_policy_def names_join encrypts_def
          split: bind_splits)
  next
    case False
    obtain db prio action proto where p: "atoi (row_id row) = Some db" "atoi (row_priority row) = Some prio"
      "parse_action_name (row_action row) = Some action" "parse_protocol_name (row_proto row) = Some proto"
      using assms(1) by (auto simp: policy_base_def split: bind_splits)
    have action: "action \<noteq> 0" using False p(3) by simp
    obtain mode bits where m: "ne_parse_method (row_method row) = (mode, bits)" by fastforce
    obtain nonce where n: "(case row_nonce row of None \<Rightarrow> Some 12 | Some t \<Rightarrow> atoi t) = Some nonce"
      using assms(1) action by (auto simp: policy_base_def Let_def p m split: bind_splits)
    define kl where "kl = (if (if bits \<noteq> 256 then 128 else bits) = 256 then 32 else 16 :: nat)"
    have kl: "kl = (if bits = 256 then 32 else 16)" by (simp add: kl_def)
    obtain key where key: "ne_fill_policy_key sha (row_encryption_key row) kl = Some key"
      using assms(1) action unfolding policy_base_def Let_def by (auto simp: p m n kl_def [symmetric] split: bind_splits)
    obtain w wm us where w0: "ne_wire_id_for_encrypt_key wmap 64 used (take kl key) db = (w, wm, us)" by (metis prod_cases3)
    have "\<not> w < 0" "wm = wmap'" "us = used'" and cp: "cp = zero_policy\<lparr>cp_db_id := db, cp_priority := prio, cp_action := action,
        cp_protocol := proto, cp_crypto_mode := mode, cp_aes_bits := (if bits \<noteq> 256 then 128 else bits),
        cp_nonce_size := nat (if nonce \<le> 0 then 12 else nonce), cp_key := key, cp_id := w\<rparr>"
      using assms(1) action unfolding policy_base_def Let_def
      by (simp_all add: p m n kl_def [symmetric] key w0 split: if_split_asm)
    then have w: "ne_wire_id_for_encrypt_key wmap 64 used (take kl key) db = (w, wmap', used')" "0 \<le> w" using w0 by auto
    have "policy_key cp = take kl key" by (simp add: policy_key_def cp kl)
    then have nm: "names_ok (names (ps @ [cp]) wmap') used'"
      using ne_wire_id_ok [OF w assms(2)] action by (simp add: names_join encrypts_def cp)
    then have "1 \<le> cp_id cp \<and> cp_id cp \<le> 255" using action by (simp add: names_ok_def names_join encrypts_def cp)
    then show ?thesis
      using nm ne_fill_policy_key_length [OF key] ne_parse_method_mode [OF m] action by (auto simp: base_ok_def cp)
  qed
  then show "base_ok cp" "names_ok (names (ps @ [cp]) wmap') used'" by auto
  then show "names_ok (names ps wmap') used'" by (rule_tac names_ok_mono) (auto simp: names_join)
qed

definition lists_ok :: "crypto_policy list \<times> int list \<Rightarrow> bool" where
  "lists_ok st \<longleftrightarrow> (case st of (ps, is) \<Rightarrow> list_all policy_wf ps \<and> length ps \<le> MAX_CRYPTO_POLICIES \<and>
     length is \<le> MAX_CRYPTO_POLICIES \<and> (\<forall>i \<in> set is. 0 \<le> i \<and> i < int (length ps)))"

definition policy_state_ok :: "policy_state \<Rightarrow> bool" where
  "policy_state_ok st \<longleftrightarrow> (case st of (ls, wmap, used) \<Rightarrow> lists_ok ls \<and> names_ok (names (fst ls) wmap) used)"

lemma expand_policy_ok:
  assumes "expand_policy cp isrc idst items (ps, is) = Some (Some (ps', is'))" "lists_ok (ps, is)" "base_ok cp"
    and "names_ok (names (ps @ [cp]) wmap) used"
  shows "lists_ok (ps', is')" "names_ok (names (ps' @ [cp]) wmap) used"
proof -
  obtain q where q: "ps' = ps @ [q]" "is' = is @ [int (length ps)]" "policy_wf q" "cp_id q = cp_id cp"
      "policy_key q = policy_key cp" "encrypts q = encrypts cp" and l: "length ps < 128" "length is < 128"
    using assms(1,3) by (auto simp: expand_policy_def Let_def policy_wf_def base_ok_def policy_key_def encrypts_def
        dest!: port_or_any_ok split: prod.splits if_splits bind_splits)
  show "lists_ok (ps', is')" using assms(2) q l by (auto simp: lists_ok_def)
  have "names (ps @ [q, cp]) wmap = names (ps @ [cp]) wmap" using q(4-6) by (auto simp: names_def)
  then show "names_ok (names (ps' @ [cp]) wmap) used" using assms(4) q(1) by simp
qed

lemma load_policy_row_ok:
  assumes "load_policy_row sha row st = Some (Some st')" "policy_state_ok st"
  shows "policy_state_ok st'"
proof -
  obtain ps "is" wmap used where st: "st = ((ps, is), wmap, used)" by (metis surj_pair)
  obtain cp wmap' used' f xs ps' is' where b: "policy_base sha row (wmap, used) = Some (Some (cp, wmap', used'))"
    and e: "each (expand_policy cp (row_invert_src_ip row = ''t'') (row_invert_dst_ip row = ''t'')) xs (ps, is) = Some (Some (ps', is'))"
    and st': "st' = ((ps', is'), wmap', used')"
    using assms(1) by (auto simp: load_policy_row_def st and_then_eq_Some Let_def)
  have n: "names_ok (names ps wmap) used" "lists_ok (ps, is)" using assms(2) by (simp_all add: policy_state_ok_def st)
  note base = policy_base_ok [OF b n(1)]
  have "lists_ok (ps', is') \<and> names_ok (names (fst (ps', is') @ [cp]) wmap') used'"
    by (rule each_invariant [OF e, where P = "\<lambda>s. lists_ok s \<and> names_ok (names (fst s @ [cp]) wmap') used'"])
      (use base n(2) in \<open>auto dest: expand_policy_ok\<close>)
  moreover have "names ps' wmap' \<subseteq> names (ps' @ [cp]) wmap'" by (auto simp: names_join)
  ultimately show ?thesis using names_ok_mono by (auto simp: policy_state_ok_def st')
qed

section \<open>Well-formed configurations\<close>

definition in_range :: "nat \<Rightarrow> int list \<Rightarrow> bool" where
  "in_range n is \<longleftrightarrow> (\<forall>i \<in> set is. 0 \<le> i \<and> i < int n)"

definition profile_wf :: "app_config \<Rightarrow> profile_config \<Rightarrow> bool" where
  "profile_wf cfg p \<longleftrightarrow>
     length (pr_local_indices p) \<le> MAX_PROFILE_INTERFACES \<and> in_range (length (ac_locals cfg)) (pr_local_indices p) \<and>
     length (pr_wan_indices p) \<le> MAX_PROFILE_INTERFACES \<and> in_range (length (ac_wans cfg)) (pr_wan_indices p) \<and>
     length (pr_wan_bandwidth_weight p) = length (pr_wan_indices p) \<and>
     length (pr_policy_indices p) \<le> MAX_CRYPTO_POLICIES \<and> in_range (length (ac_policies cfg)) (pr_policy_indices p)"

definition config_wf :: "app_config \<Rightarrow> bool" where
  "config_wf cfg \<longleftrightarrow> length (ac_locals cfg) \<le> MAX_INTERFACES \<and> length (ac_wans cfg) \<le> MAX_INTERFACES \<and>
     length (ac_profiles cfg) \<le> 32 \<and> length (ac_policies cfg) \<le> MAX_CRYPTO_POLICIES \<and>
     list_all (profile_wf cfg) (ac_profiles cfg)"

definition one_key_per_id :: "crypto_policy list \<Rightarrow> bool" where
  "one_key_per_id ps \<longleftrightarrow> (\<forall>p \<in> set ps. \<forall>q \<in> set ps. encrypts p \<and> encrypts q \<and> cp_id p = cp_id q \<longrightarrow> policy_key p = policy_key q)"

lemma in_names: "p \<in> set ps \<Longrightarrow> encrypts p \<Longrightarrow> (cp_id p, policy_key p) \<in> names ps wmap"
  unfolding names_def by blast

lemma names_ok_one_key:
  assumes "names_ok (names ps wmap) used"
  shows "one_key_per_id ps"
  unfolding one_key_per_id_def
proof (intro ballI impI)
  fix p q assume a: "p \<in> set ps" "q \<in> set ps" "encrypts p \<and> encrypts q \<and> cp_id p = cp_id q"
  then have "(cp_id q, policy_key p) \<in> names ps wmap" "(cp_id q, policy_key q) \<in> names ps wmap"
    using in_names [of p ps wmap] in_names [of q ps wmap] by auto
  then show "policy_key p = policy_key q"
    using assms unfolding names_ok_def by (blast dest: single_valuedD)
qed

lemma find_index_in_range: "find P [0..<n] = Some i \<Longrightarrow> i < n"
  by (simp add: find_upt_Some_iff)

lemma profile_append_locals_ok:
  "profile_wf cfg p \<Longrightarrow> profile_wf cfg (profile_append_locals cfg rows p)"
proof (induction cfg rows p rule: profile_append_locals.induct)
  case (2 cfg ifname rows p)
  show ?case
  proof (cases "find_local_index_by_ifname cfg ifname")
    case None
    then show ?thesis using 2 by auto
  next
    case (Some li)
    then have "li < length (ac_locals cfg)" by (auto simp: find_local_index_by_ifname_def dest!: find_index_in_range)
    then have "length (pr_local_indices p) < 16 \<Longrightarrow> profile_wf cfg (p\<lparr>pr_local_indices := pr_local_indices p @ [int li]\<rparr>)"
      using 2(3) by (auto simp: profile_wf_def in_range_def)
    then show ?thesis using 2 Some by auto
  qed
qed simp

lemma profile_append_wans_ok:
  "profile_wf cfg p \<Longrightarrow> profile_append_wans_from_rows cfg rows p = Some p' \<Longrightarrow> profile_wf cfg p'"
proof (induction cfg rows p rule: profile_append_wans_from_rows.induct)
  case (2 cfg ifname weight rows p)
  show ?case
  proof (cases "find_wan_index_by_ifname cfg ifname")
    case None
    then show ?thesis using 2 by (auto split: if_splits)
  next
    case (Some wi)
    then have "wi < length (ac_wans cfg)" by (auto simp: find_wan_index_by_ifname_def dest!: find_index_in_range)
    then have "length (pr_wan_indices p) < 16 \<Longrightarrow> profile_wf cfg
        (p\<lparr>pr_wan_indices := pr_wan_indices p @ [int wi], pr_wan_bandwidth_weight := pr_wan_bandwidth_weight p @ [w]\<rparr>)" for w
      using 2(3) by (auto simp: profile_wf_def in_range_def)
    then show ?thesis using 2(2-4) Some by (auto split: if_splits bind_splits)
  qed
qed simp

lemma profile_wf_cong:
  "length (ac_locals cfg) = length (ac_locals cfg') \<Longrightarrow> length (ac_wans cfg) = length (ac_wans cfg') \<Longrightarrow>
    length (ac_policies cfg) = length (ac_policies cfg') \<Longrightarrow> profile_wf cfg p = profile_wf cfg' p"
  by (simp add: profile_wf_def)

lemma each_local_rows:
  "each load_local_row rows cfg = Some (Some cfg') \<Longrightarrow>
    \<exists>L. cfg' = cfg\<lparr>ac_locals := ac_locals cfg @ L\<rparr> \<and> length L = length rows"
proof (induction rows arbitrary: cfg)
  case (Cons r rows)
  obtain c where c: "load_local_row r cfg = Some (Some c)" "each load_local_row rows c = Some (Some cfg')"
    using Cons.prems by (auto simp: and_then_eq_Some)
  obtain x where "c = cfg\<lparr>ac_locals := ac_locals cfg @ [x]\<rparr>"
    using c(1) by (auto simp: load_local_row_def Let_def split: if_splits bind_splits)
  then have x: "each load_local_row rows (cfg\<lparr>ac_locals := ac_locals cfg @ [x]\<rparr>) = Some (Some cfg')" using c(2) by simp
  obtain L where "cfg' = cfg\<lparr>ac_locals := ac_locals cfg @ x # L\<rparr>" "length L = length rows"
    using Cons.IH [OF x] by auto
  then show ?case by (intro exI [of _ "x # L"]) simp
qed simp

lemma each_wan_rows:
  "each load_wan_row rows cfg = Some (Some cfg') \<Longrightarrow>
    \<exists>L. cfg' = cfg\<lparr>ac_wans := ac_wans cfg @ L\<rparr> \<and> length L = length rows"
proof (induction rows arbitrary: cfg)
  case (Cons r rows)
  obtain c where c: "load_wan_row r cfg = Some (Some c)" "each load_wan_row rows c = Some (Some cfg')"
    using Cons.prems by (auto simp: and_then_eq_Some)
  obtain x where "c = cfg\<lparr>ac_wans := ac_wans cfg @ [x]\<rparr>"
    using c(1) by (auto simp: load_wan_row_def Let_def split: if_splits bind_splits)
  then have x: "each load_wan_row rows (cfg\<lparr>ac_wans := ac_wans cfg @ [x]\<rparr>) = Some (Some cfg')" using c(2) by simp
  obtain L where "cfg' = cfg\<lparr>ac_wans := ac_wans cfg @ x # L\<rparr>" "length L = length rows"
    using Cons.IH [OF x] by auto
  then show ?case by (intro exI [of _ "x # L"]) simp
qed simp

lemma load_local_rows_ok:
  assumes "load_local_rows cfg rows = Some (Some cfg')" "ac_locals cfg = []"
  obtains L where "cfg' = cfg\<lparr>ac_locals := L\<rparr>" "length L \<le> 16" "L \<noteq> []"
proof -
  have e: "each load_local_row rows cfg = Some (Some cfg')" "rows \<noteq> []" "length rows \<le> 16"
    using assms(1) by (auto simp: load_local_rows_def split: if_splits)
  obtain L where "cfg' = cfg\<lparr>ac_locals := L\<rparr>" "length L = length rows" using each_local_rows [OF e(1)] assms(2) by auto
  moreover have "L \<noteq> []" using e(2) calculation(2) by auto
  ultimately show ?thesis using e(3) that [of L] by simp
qed

lemma load_wan_rows_ok:
  assumes "load_wan_rows cfg rows = Some (Some cfg')" "ac_wans cfg = []"
  obtains L where "cfg' = cfg\<lparr>ac_wans := L\<rparr>" "length L \<le> 16" "L \<noteq> []"
proof -
  have e: "each load_wan_row rows cfg = Some (Some cfg')" "rows \<noteq> []" "length rows \<le> 16"
    using assms(1) by (auto simp: load_wan_rows_def split: if_splits)
  obtain L where "cfg' = cfg\<lparr>ac_wans := L\<rparr>" "length L = length rows" using each_wan_rows [OF e(1)] assms(2) by auto
  moreover have "L \<noteq> []" using e(2) calculation(2) by auto
  ultimately show ?thesis using e(3) that [of L] by simp
qed

lemma load_profiles_and_policies_ok:
  assumes "load_profiles_and_policies sha q cfg = Some (Some cfg')" "ac_policies cfg = []" "ac_profiles cfg = []"
  obtains p ps where "cfg' = cfg\<lparr>ac_profiles := [p], ac_policies := ps\<rparr>" "profile_wf cfg' p" "length ps \<le> MAX_CRYPTO_POLICIES"
    "list_all policy_wf ps" "one_key_per_id ps"
proof -
  obtain pid en rest where qp: "q_profile q = Some ((pid, en) # rest)"
    using assms(1) by (auto simp: load_profiles_and_policies_def split: option.splits list.splits)
  obtain i e p0 p rows ps "is" ids where p0: "p0 = \<lparr>pr_id = i, pr_enabled = e, pr_local_indices = [], pr_wan_indices = [],
              pr_wan_bandwidth_weight = [], pr_policy_indices = []\<rparr>"
    and p: "profile_append_wans_from_rows cfg (case q_profile_wan q of Some rows \<Rightarrow> rows | None \<Rightarrow> [])
        (profile_append_locals cfg (case q_profile_lan q of Some rows \<Rightarrow> rows | None \<Rightarrow> []) p0) = Some p"
    and run: "each (load_policy_row sha) rows (([], pr_policy_indices p), [], True # replicate 255 False) = Some (Some ((ps, is), ids))"
    and cfg': "cfg' = cfg\<lparr>ac_profiles := [p\<lparr>pr_policy_indices := is\<rparr>], ac_policies := ps\<rparr>"
    using assms unfolding load_profiles_and_policies_def qp
    by (auto simp: and_then_eq_Some Let_def split: option.splits bind_splits if_splits)
  have "profile_wf cfg p0" by (simp add: p0 profile_wf_def in_range_def)
  then have wf: "profile_wf cfg p" using p by (blast intro: profile_append_wans_ok profile_append_locals_ok)
  then have "pr_policy_indices p = []" using assms(2) by (cases "pr_policy_indices p") (auto simp: profile_wf_def in_range_def)
  then have "policy_state_ok (([], pr_policy_indices p), [], True # replicate 255 False)"
    by (simp add: policy_state_ok_def lists_ok_def names_ok_def names_def single_valued_def)
  with run have ok: "policy_state_ok ((ps, is), ids)"
    by (rule each_invariant) (rule load_policy_row_ok)
  then have l: "lists_ok (ps, is)" "one_key_per_id ps" by (auto simp: policy_state_ok_def intro: names_ok_one_key)
  have "profile_wf cfg' (p\<lparr>pr_policy_indices := is\<rparr>)"
    using wf l(1) by (simp add: profile_wf_def cfg' lists_ok_def in_range_def)
  then show ?thesis using that [OF cfg'] l by (auto simp: lists_ok_def)
qed

lemma apply_crypto_derived_frame [simp]:
  "ac_locals (apply_crypto_derived_from_policies cfg) = ac_locals cfg"
  "ac_wans (apply_crypto_derived_from_policies cfg) = ac_wans cfg"
  "ac_profiles (apply_crypto_derived_from_policies cfg) = ac_profiles cfg"
  "ac_policies (apply_crypto_derived_from_policies cfg) = ac_policies cfg"
  by (auto simp: apply_crypto_derived_from_policies_def Let_def split: option.split)

lemma config_load_ok:
  assumes "config_load_from_db sha q = Some (Some cfg)"
  obtains p where "ac_profiles cfg = [p]" "profile_wf cfg p" "ac_locals cfg \<noteq> []" "length (ac_locals cfg) \<le> MAX_INTERFACES"
    "ac_wans cfg \<noteq> []" "length (ac_wans cfg) \<le> MAX_INTERFACES" "length (ac_policies cfg) \<le> MAX_CRYPTO_POLICIES"
    "list_all policy_wf (ac_policies cfg)" "one_key_per_id (ac_policies cfg)" "config_validate cfg = Inr ()"
proof -
  obtain rows1 rows2 c1 c2 c3 where l: "load_local_rows empty_config rows1 = Some (Some c1)"
    "load_wan_rows c1 rows2 = Some (Some c2)" "load_profiles_and_policies sha q c2 = Some (Some c3)"
    and cfg: "cfg = apply_crypto_derived_from_policies c3" "config_validate cfg = Inr ()"
    using assms by (auto simp: config_load_from_db_def fetch_config_from_db_def and_then_eq_Some Let_def
        split: if_splits option.splits list.splits sum.splits)
  obtain L where L: "c1 = empty_config\<lparr>ac_locals := L\<rparr>" "length L \<le> 16" "L \<noteq> []"
    by (rule load_local_rows_ok [OF l(1)]) (simp add: empty_config_def)
  obtain W where W: "c2 = c1\<lparr>ac_wans := W\<rparr>" "length W \<le> 16" "W \<noteq> []"
    by (rule load_wan_rows_ok [OF l(2)]) (simp_all add: empty_config_def L)
  obtain p ps where p: "c3 = c2\<lparr>ac_profiles := [p], ac_policies := ps\<rparr>" "profile_wf c3 p" "length ps \<le> MAX_CRYPTO_POLICIES"
      "list_all policy_wf ps" "one_key_per_id ps"
    by (rule load_profiles_and_policies_ok [OF l(3)]) (simp_all add: empty_config_def L W)
  have "profile_wf cfg p" using p(2) by (subst profile_wf_cong [of _ c3]) (simp_all add: cfg)
  then show ?thesis using that [of p] cfg L W p by simp
qed

text \<open>C26: Whatever the database holds, a configuration that loads is well formed: its indices name
  interfaces and policies that exist, ports are ranges, key sizes and modes are supported, and an
  identifier on the wire stands for one key.\<close>

theorem loaded_config_wf:
  assumes "config_load_from_db sha256 q = Some (Some cfg)"
  shows "config_wf cfg \<and> list_all policy_wf (ac_policies cfg) \<and> one_key_per_id (ac_policies cfg) \<and>
    config_validate cfg = Inr ()"
proof -
  obtain p where "ac_profiles cfg = [p]" "profile_wf cfg p" "ac_locals cfg \<noteq> []" "length (ac_locals cfg) \<le> MAX_INTERFACES"
    "ac_wans cfg \<noteq> []" "length (ac_wans cfg) \<le> MAX_INTERFACES" "length (ac_policies cfg) \<le> MAX_CRYPTO_POLICIES"
    "list_all policy_wf (ac_policies cfg)" "one_key_per_id (ac_policies cfg)" "config_validate cfg = Inr ()"
    by (rule config_load_ok [OF assms])
  then show ?thesis by (simp add: config_wf_def)
qed

text \<open>A profile with a layer-4 policy for two sources, and a bypass.\<close>

definition sample_row :: policy_row where
  "sample_row = \<lparr>row_id = ''7'', row_priority = ''10'', row_action = ''L4'', row_proto = Some ''tcp'',
     row_src_ip = Some ''10.0.0.0/8, !192.168.0.0/16'', row_invert_src_ip = ''f'', row_dst_ip = None,
     row_invert_dst_ip = ''f'', row_src_port = Some '''', row_dst_port = Some ''80-90'', row_method = Some ''AES-GCM-128'',
     row_encryption_key = Some ''secret'', row_nonce = Some ''12''\<rparr>"

definition sample_rows :: profile_rows where
  "sample_rows = \<lparr>q_connected = True, q_exists = Some [()], q_lan = Some [''lan0''],
     q_wan = Some [\<lparr>wr_ifname = ''wan0'', wr_dst_ip = ''203.0.113.9/32'', wr_src_mac = None, wr_dst_mac = None\<rparr>],
     q_profile = Some [(''3'', ''1'')], q_profile_lan = Some [''lan0''], q_profile_wan = Some [(''wan0'', Some ''40'')],
     q_policies = Some [sample_row, sample_row\<lparr>row_id := ''1'', row_action := ''bypass'', row_src_ip := None\<rparr>]\<rparr>"

definition sample_db_policy :: crypto_policy where
  "sample_db_policy = zero_policy\<lparr>cp_id := 7, cp_db_id := 7, cp_priority := 10, cp_action := POLICY_ACTION_ENCRYPT_L4, cp_protocol := 6,
     cp_src_port_from := -1, cp_src_port_to := -1, cp_dst_port_from := 80, cp_dst_port_to := 90, cp_dst_any := True,
     cp_crypto_mode := CRYPTO_MODE_GCM, cp_aes_bits := 128, cp_nonce_size := 12, cp_key := replicate 16 7 @ replicate 16 0\<rparr>"

definition sample_loaded :: app_config where
  "sample_loaded = empty_config\<lparr>ac_locals := [(default_local empty_config)\<lparr>lc_ifname := ''lan0''\<rparr>],
     ac_wans := [(default_wan empty_config)\<lparr>wc_ifname := ''wan0'', wc_dst_ip := 0x097100CB\<rparr>],
     ac_crypto_enabled := True, ac_encrypt_layer := 3, ac_fake_protocol := 99, ac_crypto_mode := CRYPTO_MODE_GCM, ac_aes_bits := 128,
     ac_nonce_size := 12, ac_crypto_key := replicate 16 7 @ replicate 16 0,
     ac_profiles := [\<lparr>pr_id = 3, pr_enabled = True, pr_local_indices = [0], pr_wan_indices = [0],
       pr_wan_bandwidth_weight = [40], pr_policy_indices = [0, 1, 2]\<rparr>],
     ac_policies := [sample_db_policy\<lparr>cp_src_net := 0x0A, cp_src_mask := 0xFF\<rparr>,
       sample_db_policy\<lparr>cp_src_negate := True, cp_src_net := 0xA8C0, cp_src_mask := 0xFFFF\<rparr>,
       sample_db_policy\<lparr>cp_id := 0, cp_db_id := 1, cp_action := POLICY_ACTION_BYPASS, cp_src_any := True, cp_key := replicate 32 0\<rparr>]\<rparr>"

lemma sample_rows_load: "config_load_from_db (\<lambda>s. replicate 32 7) sample_rows = Some (Some sample_loaded)"
  by code_simp

theorem loaded_config_wf_witness:
  "config_load_from_db (\<lambda>s. replicate 32 7) sample_rows = Some (Some sample_loaded) \<and>
    config_wf sample_loaded \<and> one_key_per_id (ac_policies sample_loaded)"
  using loaded_config_wf [OF sample_rows_load] sample_rows_load by simp

section \<open>Port ranges\<close>

lemma str_is_any_decimal: "\<not> str_is_any (Some (decimal a @ r))"
proof -
  obtain c ds where d: "decimal a = c # ds" "is_digit c" by (rule decimal_Cons)
  have "lower c \<noteq> CHR ''a''" using d(2) by (auto simp: lower_def is_digit_of_char Let_def)
  then have "\<not> same_text (decimal a @ r) ''any''" by (auto simp: same_text_def d lower_def)
  then show ?thesis using d by (auto simp: str_is_any_def)
qed

lemma scan_d_decimal: "a < 2 ^ 31 \<Longrightarrow> r = [] \<or> \<not> is_digit (hd r) \<Longrightarrow> scan_d (decimal a @ r) = Some (Some (int a, r))"
  by (simp add: scan_d_def scan_int_decimal as_int_def)

text \<open>C29: A range in order is read as it is written, a single port as a range of one.  A range that is
  not in order, or that ends above 65535, becomes its first port, without an error; and a first
  port above 65535 makes the policy match every port.\<close>

theorem port_range_spec:
  assumes "a < 2 ^ 31" "b < 2 ^ 31"
  shows "port_or_any (decimal a @ ''-'' @ decimal b) =
      Some (if a \<le> b \<and> b \<le> 65535 then (int a, int b) else if a \<le> 65535 then (int a, int a) else (-1, -1)) \<and>
    port_or_any (decimal a) = Some (if a \<le> 65535 then (int a, int a) else (-1, -1))"
proof -
  obtain c ds where d: "decimal b = c # ds" "is_digit c" by (rule decimal_Cons)
  have "\<not> is_digit (CHR ''-'')" by (simp add: is_digit_of_char)
  then have s: "scan_d (decimal a @ ''-'' @ decimal b) = Some (Some (int a, CHR ''-'' # decimal b))"
    using scan_d_decimal [OF assms(1), of "''-'' @ decimal b"] by simp
  have e: "scan_d (decimal a) = Some (Some (int a, []))" "scan_d (decimal b) = Some (Some (int b, []))"
    using scan_d_decimal [OF assms(1), of "[]"] scan_d_decimal [OF assms(2), of "[]"] by simp_all
  have "scan_range (decimal a @ ''-'' @ decimal b) = Some (Some (int a, int b))" "scan_range (decimal a) = Some None"
    unfolding scan_range_def s e by (simp_all add: e)
  then show ?thesis
    using str_is_any_decimal [of a "''-'' @ decimal b"] str_is_any_decimal [of a "[]"] s e
    by (auto simp: port_or_any_def parse_port_range_def)
qed

theorem port_range_spec_witness:
  "port_or_any (decimal 80 @ ''-'' @ decimal 90) = Some (80, 90) \<and> port_or_any (decimal 90 @ ''-'' @ decimal 80) = Some (90, 90) \<and>
    port_or_any (decimal 70000) = Some (-1, -1)"
  using port_range_spec [of 80 90] port_range_spec [of 90 80] port_range_spec [of 70000 0] by simp

end
