(* ===== verification/Merge.thy ===== *)
theory Merge
  imports DbConfig Runtime
begin

text \<open>
  Merging the configurations of the active profiles, \<^verbatim>\<open>src/db/db_runtime.c\<close>: interfaces of the
  same name become one, policies get identifiers that no earlier policy has, and the indices of
  the profiles are translated.  The database is a function from the number of a profile to the
  results of its queries.
\<close>

section \<open>Definitions\<close>

definition find_local_by_ifname :: "app_config \<Rightarrow> string \<Rightarrow> nat option" where
  "find_local_by_ifname cfg ifname = find (\<lambda>i. lc_ifname (ac_locals cfg ! i) = ifname) [0..<length (ac_locals cfg)]"

definition find_wan_by_ifname :: "app_config \<Rightarrow> string \<Rightarrow> nat option" where
  "find_wan_by_ifname cfg ifname = find (\<lambda>i. wc_ifname (ac_wans cfg ! i) = ifname) [0..<length (ac_wans cfg)]"

definition append_local_unique :: "app_config \<Rightarrow> local_config \<Rightarrow> int \<times> app_config" where
  "append_local_unique dst src_loc = (case find_local_by_ifname dst (lc_ifname src_loc) of
     Some idx \<Rightarrow> (int idx, dst)
   | None \<Rightarrow>
       if length (ac_locals dst) \<ge> MAX_INTERFACES then (-1, dst)
       else (int (length (ac_locals dst)), dst\<lparr>ac_locals := ac_locals dst @ [src_loc]\<rparr>))"

definition append_wan_unique :: "app_config \<Rightarrow> wan_config \<Rightarrow> int \<times> app_config" where
  "append_wan_unique dst src_wan = (case find_wan_by_ifname dst (wc_ifname src_wan) of
     Some idx \<Rightarrow> (int idx, dst)
   | None \<Rightarrow>
       if length (ac_wans dst) \<ge> MAX_INTERFACES then (-1, dst)
       else (int (length (ac_wans dst)), dst\<lparr>ac_wans := ac_wans dst @ [src_wan]\<rparr>))"

definition collect_used_wire_ids :: "app_config \<Rightarrow> bool list" where
  "collect_used_wire_ids dst =
     foldl (\<lambda>used p. if cp_id p \<ge> 1 \<and> cp_id p \<le> 255 then used[nat (cp_id p) := True] else used)
       (replicate 256 False) (ac_policies dst)"

definition append_policy_unique :: "app_config \<Rightarrow> crypto_policy \<Rightarrow> int \<times> app_config" where
  "append_policy_unique dst cp =
     (if length (ac_policies dst) \<ge> MAX_CRYPTO_POLICIES then (-1, dst)
      else let used = collect_used_wire_ids dst; wid = cp_id cp;
               found = (if wid < 1 \<or> wid > 255 \<or> used ! nat wid
                 then map_option int (find (\<lambda>j. \<not> used ! j) [1..<256]) else Some wid)
        in case found of
             None \<Rightarrow> (-1, dst)
           | Some wid \<Rightarrow>
               (int (length (ac_policies dst)), dst\<lparr>ac_policies := ac_policies dst @ [cp\<lparr>cp_id := wid\<rparr>]\<rparr>))"

text \<open>The loops that fill \<^verbatim>\<open>local_map\<close>, \<^verbatim>\<open>wan_map\<close> and \<^verbatim>\<open>policy_map\<close>.\<close>

fun append_all ::
    "(app_config \<Rightarrow> 'a \<Rightarrow> int \<times> app_config) \<Rightarrow> 'a list \<Rightarrow> int list \<times> app_config \<Rightarrow> (int list \<times> app_config) option" where
  "append_all f [] st = Some st"
| "append_all f (x # xs) (m, dst) =
     (let (i, dst) = f dst x in if i < 0 then None else append_all f xs (m @ [i], dst))"

text \<open>The loops that translate the indices of a profile: an index outside of the source is skipped,
  and a full array ends the loop.\<close>

fun remap :: "nat \<Rightarrow> int list \<Rightarrow> int list \<Rightarrow> int list \<Rightarrow> int list" where
  "remap limit m [] out = out"
| "remap limit m (i # is) out =
     (if i < 0 \<or> i \<ge> int (length m) then remap limit m is out
      else if length out \<ge> limit then out
      else remap limit m is (out @ [m ! nat i]))"

fun remap_wans :: "int list \<Rightarrow> (int \<times> int) list \<Rightarrow> (int \<times> int) list \<Rightarrow> (int \<times> int) list" where
  "remap_wans m [] out = out"
| "remap_wans m ((i, w) # is) out =
     (if i < 0 \<or> i \<ge> int (length m) then remap_wans m is out
      else if length out \<ge> MAX_PROFILE_INTERFACES then out
      else remap_wans m is (out @ [(m ! nat i, w)]))"

definition merge_profile :: "int list \<Rightarrow> int list \<Rightarrow> int list \<Rightarrow> profile_config \<Rightarrow> profile_config" where
  "merge_profile local_map wan_map policy_map sp =
     (let wans = remap_wans wan_map (zip (pr_wan_indices sp) (pr_wan_bandwidth_weight sp)) []
      in \<lparr>pr_id = pr_id sp, pr_enabled = pr_enabled sp,
          pr_local_indices = remap MAX_PROFILE_INTERFACES local_map (pr_local_indices sp) [],
          pr_wan_indices = map fst wans, pr_wan_bandwidth_weight = map snd wans,
          pr_policy_indices = remap MAX_CRYPTO_POLICIES policy_map (take MAX_CRYPTO_POLICIES (pr_policy_indices sp)) []\<rparr>)"

fun merge_profiles :: "(profile_config \<Rightarrow> profile_config) \<Rightarrow> profile_config list \<Rightarrow> app_config \<Rightarrow> app_config option" where
  "merge_profiles f [] dst = Some dst"
| "merge_profiles f (sp # sps) dst =
     (if length (ac_profiles dst) \<ge> 32 then None
      else merge_profiles f sps (dst\<lparr>ac_profiles := ac_profiles dst @ [f sp]\<rparr>))"

definition merge_one_config :: "app_config \<Rightarrow> app_config \<Rightarrow> app_config loaded" where
  "merge_one_config dst src =
     (if length (ac_locals src) > MAX_INTERFACES \<or> length (ac_wans src) > MAX_INTERFACES \<or>
         length (ac_policies src) > MAX_CRYPTO_POLICIES then None
      else Some (do {
        (local_map, dst) \<leftarrow> append_all append_local_unique (ac_locals src) ([], dst);
        (wan_map, dst) \<leftarrow> append_all append_wan_unique (ac_wans src) ([], dst);
        (policy_map, dst) \<leftarrow> append_all append_policy_unique (ac_policies src) ([], dst);
        merge_profiles (merge_profile local_map wan_map policy_map) (ac_profiles src) dst
      }))"

definition merge_next :: "(string \<Rightarrow> buf) \<Rightarrow> (int \<Rightarrow> profile_rows) \<Rightarrow> int \<Rightarrow> app_config \<Rightarrow> app_config loaded" where
  "merge_next sha256 db pid merged = and_then (config_load_from_db sha256 (db pid)) (merge_one_config merged)"

definition merged_settings :: "app_config \<Rightarrow> app_config" where
  "merged_settings merged =
     (let merged = merged\<lparr>ac_crypto_enabled := (ac_policies merged \<noteq> [])\<rparr>
      in if ac_crypto_enabled merged
         then let cp = ac_policies merged ! 0
           in merged\<lparr>ac_encrypt_layer := 3, ac_fake_protocol := 99, ac_fake_ethertype_ipv4 := 0x88b5,
                ac_crypto_mode := cp_crypto_mode cp, ac_aes_bits := cp_aes_bits cp, ac_nonce_size := cp_nonce_size cp,
                ac_crypto_key := cp_key cp\<rparr>
         else merged)"

definition build_merged_config :: "(string \<Rightarrow> buf) \<Rightarrow> (int \<Rightarrow> profile_rows) \<Rightarrow> int list \<Rightarrow> app_config loaded" where
  "build_merged_config sha256 db ids =
     and_then (each (merge_next sha256 db) ids empty_config) (\<lambda>merged.
       let merged = merged_settings merged
       in case config_validate merged of Inl _ \<Rightarrow> Some None | Inr _ \<Rightarrow> Some (Some merged))"


section \<open>Free identifiers\<close>

lemma foldl_used:
  assumes "length used = 256"
  shows "length (foldl (\<lambda>used p. if cp_id p \<ge> 1 \<and> cp_id p \<le> 255 then used[nat (cp_id p) := True] else used) used ps) = 256 \<and>
    (\<forall>j. 1 \<le> j \<longrightarrow> j \<le> 255 \<longrightarrow>
      foldl (\<lambda>used p. if cp_id p \<ge> 1 \<and> cp_id p \<le> 255 then used[nat (cp_id p) := True] else used) used ps ! j =
        (used ! j \<or> (\<exists>p \<in> set ps. cp_id p = int j)))"
  using assms
proof (induction ps arbitrary: used)
  case (Cons p ps)
  then show ?case by (auto simp: nth_list_update)
qed simp

lemma collect_used_iff: "1 \<le> j \<Longrightarrow> j \<le> 255 \<Longrightarrow>
    collect_used_wire_ids dst ! j \<longleftrightarrow> (\<exists>p \<in> set (ac_policies dst). cp_id p = int j)"
  using foldl_used [of "replicate 256 False" "ac_policies dst"] by (simp add: collect_used_wire_ids_def)

text \<open>A policy without its identifier.\<close>

definition anonymous :: "crypto_policy \<Rightarrow> crypto_policy" where
  "anonymous p = p\<lparr>cp_id := 0\<rparr>"

definition ids_unique :: "crypto_policy list \<Rightarrow> bool" where
  "ids_unique ps \<longleftrightarrow> distinct (map cp_id ps) \<and> (\<forall>p \<in> set ps. 1 \<le> cp_id p \<and> cp_id p \<le> 255)"

lemma append_policy_ok:
  assumes "append_policy_unique dst cp = (i, dst')" "0 \<le> i" "ids_unique (ac_policies dst)"
  obtains q where "dst' = dst\<lparr>ac_policies := ac_policies dst @ [q]\<rparr>" "i = int (length (ac_policies dst))"
    "anonymous q = anonymous cp" "ids_unique (ac_policies dst @ [q])" "length (ac_policies dst) < MAX_CRYPTO_POLICIES"
proof -
  define found where "found = (if cp_id cp < 1 \<or> cp_id cp > 255 \<or> collect_used_wire_ids dst ! nat (cp_id cp)
     then map_option int (find (\<lambda>j. \<not> collect_used_wire_ids dst ! j) [1..<256]) else Some (cp_id cp))"
  obtain w where f: "found = Some w" and d: "dst' = dst\<lparr>ac_policies := ac_policies dst @ [cp\<lparr>cp_id := w\<rparr>]\<rparr>"
      "i = int (length (ac_policies dst))" "length (ac_policies dst) < MAX_CRYPTO_POLICIES"
    using assms(1,2) unfolding append_policy_unique_def Let_def found_def [symmetric]
    by (auto split: if_splits option.splits)
  have "1 \<le> w \<and> w \<le> 255 \<and> \<not> collect_used_wire_ids dst ! nat w"
  proof (cases "cp_id cp < 1 \<or> cp_id cp > 255 \<or> collect_used_wire_ids dst ! nat (cp_id cp)")
    case True
    then obtain j where j: "find (\<lambda>j. \<not> collect_used_wire_ids dst ! j) [1..<256] = Some j" "w = int j"
      using f by (auto simp: found_def)
    from find_SomeD [OF j(1)] show ?thesis using j(2) by simp
  next
    case False
    then show ?thesis using f by (simp add: found_def)
  qed
  with d have w: "dst' = dst\<lparr>ac_policies := ac_policies dst @ [cp\<lparr>cp_id := w\<rparr>]\<rparr>" "i = int (length (ac_policies dst))"
      "length (ac_policies dst) < MAX_CRYPTO_POLICIES" "1 \<le> w" "w \<le> 255" "\<not> collect_used_wire_ids dst ! nat w" by auto
  have "1 \<le> nat w" "nat w \<le> 255" "int (nat w) = w" using w(4,5) by auto
  then have "w \<notin> cp_id ` set (ac_policies dst)" using collect_used_iff [of "nat w" dst] w(6) by (auto simp: image_iff)
  then have "ids_unique (ac_policies dst @ [cp\<lparr>cp_id := w\<rparr>])" using assms(3) w(4,5) by (auto simp: ids_unique_def)
  then show ?thesis using that [OF w(1,2)] w(3) by (simp add: anonymous_def)
qed

text \<open>With fewer than 128 policies there is always a free identifier.\<close>

lemma append_policy_total:
  assumes "length (ac_policies dst) < MAX_CRYPTO_POLICIES"
  shows "0 \<le> fst (append_policy_unique dst cp)"
proof -
  let ?taken = "(\<lambda>p. nat (cp_id p)) ` set (ac_policies dst)"
  have "card ?taken \<le> length (ac_policies dst)" by (rule le_trans [OF card_image_le card_length]) simp
  then have "card ?taken < card {1..255 :: nat}" using assms by simp
  then obtain j where j: "j \<in> {1..255}" "j \<notin> ?taken" by (meson card_mono finite_imageI finite_set leD subsetI)
  then have "\<not> collect_used_wire_ids dst ! j" using collect_used_iff [of j dst] by (auto simp: image_iff)
  then have "find (\<lambda>j. \<not> collect_used_wire_ids dst ! j) [1..<256] \<noteq> None"
    using j by (auto simp: find_None_iff)
  then show ?thesis using assms by (auto simp: append_policy_unique_def Let_def)
qed

section \<open>Translating indices\<close>

text \<open>The numbers \<open>is\<close> name, in \<open>ys\<close>, what \<open>xs\<close> lists.\<close>

definition translates :: "int list \<Rightarrow> 'k list \<Rightarrow> 'k list \<Rightarrow> bool" where
  "translates is xs ys \<longleftrightarrow> length is = length xs \<and>
     (\<forall>j < length xs. 0 \<le> is ! j \<and> is ! j < int (length ys) \<and> ys ! nat (is ! j) = xs ! j)"

lemma translates_append: "translates is xs ys \<Longrightarrow> translates is xs (ys @ zs)"
  by (auto simp: translates_def nth_append nat_less_iff)

lemma translates_snoc: "translates is xs ys \<Longrightarrow> 0 \<le> i \<Longrightarrow> i < int (length ys) \<Longrightarrow> ys ! nat i = x \<Longrightarrow>
    translates (is @ [i]) (xs @ [x]) ys"
  by (auto simp: translates_def nth_append less_Suc_eq)

text \<open>A loop whose step appends to a list of keys, keeps an invariant and a frame.\<close>

lemma append_all_ok:
  assumes run: "append_all f xs (m, dst) = Some (m', dst')"
    and start: "translates m done (key dst)" "I dst"
    and step: "\<And>x dst i dst'. f dst x = (i, dst') \<Longrightarrow> 0 \<le> i \<Longrightarrow> I dst \<Longrightarrow>
      I dst' \<and> (\<exists>ys. key dst' = key dst @ ys) \<and> i < int (length (key dst')) \<and> key dst' ! nat i = k x"
  shows "translates m' (done @ map k xs) (key dst') \<and> I dst'"
  using run start
proof (induction xs arbitrary: m dst "done")
  case (Cons x xs)
  obtain i dst1 where f: "f dst x = (i, dst1)" by fastforce
  then have i: "0 \<le> i" and rest: "append_all f xs (m @ [i], dst1) = Some (m', dst')"
    using Cons.prems(1) by (auto split: if_splits)
  from step [OF f i Cons.prems(3)] obtain ys where s: "I dst1" "key dst1 = key dst @ ys"
      "i < int (length (key dst1))" "key dst1 ! nat i = k x" by blast
  have "translates (m @ [i]) (done @ [k x]) (key dst1)"
    using translates_snoc [OF translates_append [OF Cons.prems(2)] i] s by metis
  from Cons.IH [OF rest this s(1)] show ?case by simp
qed auto

lemma remap_in_range:
  "in_range (length m) is \<Longrightarrow> length out + length is \<le> limit \<Longrightarrow> remap limit m is out = out @ map (\<lambda>i. m ! nat i) is"
  by (induction limit m "is" out rule: remap.induct) (auto simp: in_range_def)

lemma remap_wans_in_range:
  "in_range (length m) (map fst is) \<Longrightarrow> length out + length is \<le> MAX_PROFILE_INTERFACES \<Longrightarrow>
    remap_wans m is out = out @ map (\<lambda>(i, w). (m ! nat i, w)) is"
  by (induction m "is" out rule: remap_wans.induct) (auto simp: in_range_def)

lemma translates_nth: "translates m xs ys \<Longrightarrow> in_range (length xs) is \<Longrightarrow>
    in_range (length ys) (map (\<lambda>i. m ! nat i) is) \<and> map (\<lambda>i. ys ! nat (m ! nat i)) is = map (\<lambda>i. xs ! nat i) is"
  by (auto simp: translates_def in_range_def nat_less_iff)

section \<open>What a profile says\<close>

text \<open>The interfaces of a profile by name, its weights, and its policies without their identifiers.\<close>

definition profile_view ::
    "app_config \<Rightarrow> profile_config \<Rightarrow> int \<times> bool \<times> string list \<times> string list \<times> int list \<times> crypto_policy list" where
  "profile_view cfg p = (pr_id p, pr_enabled p,
     map (\<lambda>i. map lc_ifname (ac_locals cfg) ! nat i) (pr_local_indices p),
     map (\<lambda>i. map wc_ifname (ac_wans cfg) ! nat i) (pr_wan_indices p), pr_wan_bandwidth_weight p,
     map (\<lambda>i. map anonymous (ac_policies cfg) ! nat i) (pr_policy_indices p))"

lemma merge_profile_ok:
  assumes "profile_wf src sp"
    and "translates lm (map lc_ifname (ac_locals src)) (map lc_ifname (ac_locals dst))"
    and "translates wm (map wc_ifname (ac_wans src)) (map wc_ifname (ac_wans dst))"
    and "translates pm (map anonymous (ac_policies src)) (map anonymous (ac_policies dst))"
  shows "profile_wf dst (merge_profile lm wm pm sp) \<and> profile_view dst (merge_profile lm wm pm sp) = profile_view src sp"
proof -
  note wf = assms(1) [unfolded profile_wf_def]
  have len: "length lm = length (ac_locals src)" "length wm = length (ac_wans src)" "length pm = length (ac_policies src)"
    using assms(2-4) by (simp_all add: translates_def)
  have w: "map fst (zip (pr_wan_indices sp) (pr_wan_bandwidth_weight sp)) = pr_wan_indices sp" using wf by simp
  have z: "map (\<lambda>x. wm ! nat (fst x)) (zip (pr_wan_indices sp) (pr_wan_bandwidth_weight sp)) =
      map (\<lambda>i. wm ! nat i) (pr_wan_indices sp)"
    using arg_cong [OF w, of "map (\<lambda>i. wm ! nat i)"] by (simp add: comp_def)
  have m: "merge_profile lm wm pm sp = \<lparr>pr_id = pr_id sp, pr_enabled = pr_enabled sp,
      pr_local_indices = map (\<lambda>i. lm ! nat i) (pr_local_indices sp), pr_wan_indices = map (\<lambda>i. wm ! nat i) (pr_wan_indices sp),
      pr_wan_bandwidth_weight = pr_wan_bandwidth_weight sp, pr_policy_indices = map (\<lambda>i. pm ! nat i) (pr_policy_indices sp)\<rparr>"
    using wf remap_in_range [of lm "pr_local_indices sp" "[]" 16] remap_in_range [of pm "pr_policy_indices sp" "[]" 128]
      remap_wans_in_range [of wm "zip (pr_wan_indices sp) (pr_wan_bandwidth_weight sp)" "[]"]
    by (simp add: merge_profile_def len w z comp_def case_prod_beta)
  show ?thesis
    using wf translates_nth [OF assms(2), of "pr_local_indices sp"] translates_nth [OF assms(3), of "pr_wan_indices sp"]
      translates_nth [OF assms(4), of "pr_policy_indices sp"]
    by (simp add: m profile_wf_def profile_view_def comp_def)
qed

section \<open>One step of the merge\<close>

definition merged_ok :: "app_config \<Rightarrow> bool" where
  "merged_ok cfg \<longleftrightarrow> config_wf cfg \<and> distinct (map lc_ifname (ac_locals cfg)) \<and> distinct (map wc_ifname (ac_wans cfg)) \<and>
     ids_unique (ac_policies cfg)"

text \<open>A configuration that has grown at the end of its arrays.\<close>

definition grown :: "app_config \<Rightarrow> app_config \<Rightarrow> bool" where
  "grown a b \<longleftrightarrow> ac_profiles b = ac_profiles a \<and>
     (\<exists>ls ws ps. map lc_ifname (ac_locals b) = map lc_ifname (ac_locals a) @ ls \<and>
       map wc_ifname (ac_wans b) = map wc_ifname (ac_wans a) @ ws \<and>
       map anonymous (ac_policies b) = map anonymous (ac_policies a) @ ps)"

lemma grown_refl: "grown a a"
  by (simp add: grown_def)

lemma grown_trans: "grown a b \<Longrightarrow> grown b c \<Longrightarrow> grown a c"
  unfolding grown_def by (metis append.assoc)

lemma grown_lengths:
  assumes "grown a b"
  shows "length (ac_locals a) \<le> length (ac_locals b)" "length (ac_wans a) \<le> length (ac_wans b)"
    "length (ac_policies a) \<le> length (ac_policies b)"
proof -
  obtain ls ws ps where "map lc_ifname (ac_locals b) = map lc_ifname (ac_locals a) @ ls"
      "map wc_ifname (ac_wans b) = map wc_ifname (ac_wans a) @ ws"
      "map anonymous (ac_policies b) = map anonymous (ac_policies a) @ ps"
    using assms by (auto simp: grown_def)
  from this [THEN arg_cong [of _ _ length]]
  show "length (ac_locals a) \<le> length (ac_locals b)" "length (ac_wans a) \<le> length (ac_wans b)"
    "length (ac_policies a) \<le> length (ac_policies b)" by simp_all
qed

lemma in_range_mono: "in_range n is \<Longrightarrow> n \<le> n' \<Longrightarrow> in_range n' is"
  by (auto simp: in_range_def)

lemma nth_grown: "ys' = ys @ zs \<Longrightarrow> in_range (length ys) is \<Longrightarrow> map (\<lambda>i. ys' ! nat i) is = map (\<lambda>i. ys ! nat i) is"
  by (auto simp: in_range_def nth_append nat_less_iff)

lemma profile_grown:
  assumes "grown a b" "profile_wf a p"
  shows "profile_wf b p" "profile_view b p = profile_view a p"
proof -
  show "profile_wf b p" using assms(2) grown_lengths [OF assms(1)] in_range_mono by (simp add: profile_wf_def) blast
  obtain ls ws ps where g: "map lc_ifname (ac_locals b) = map lc_ifname (ac_locals a) @ ls"
      "map wc_ifname (ac_wans b) = map wc_ifname (ac_wans a) @ ws"
      "map anonymous (ac_policies b) = map anonymous (ac_policies a) @ ps"
    using assms(1) by (auto simp: grown_def)
  show "profile_view b p = profile_view a p"
    using assms(2) nth_grown [OF g(1), of "pr_local_indices p"] nth_grown [OF g(2), of "pr_wan_indices p"]
      nth_grown [OF g(3), of "pr_policy_indices p"]
    by (simp add: profile_view_def profile_wf_def)
qed

lemma append_local_ok:
  assumes "append_local_unique dst x = (i, dst')" "0 \<le> i" "merged_ok dst"
  shows "merged_ok dst' \<and> grown dst dst' \<and> ac_wans dst' = ac_wans dst \<and> ac_policies dst' = ac_policies dst \<and>
    i < int (length (ac_locals dst')) \<and> map lc_ifname (ac_locals dst') ! nat i = lc_ifname x"
proof (cases "find_local_by_ifname dst (lc_ifname x)")
  case (Some j)
  then have "dst' = dst" "i = int j" using assms(1) by (simp_all add: append_local_unique_def)
  moreover have "j < length (ac_locals dst)" "lc_ifname (ac_locals dst ! j) = lc_ifname x"
    using Some by (auto simp: find_local_by_ifname_def find_upt_Some_iff)
  ultimately show ?thesis using assms(3) by (simp add: grown_refl)
next
  case None
  then have new: "lc_ifname x \<notin> lc_ifname ` set (ac_locals dst)"
    by (auto simp: find_local_by_ifname_def find_upt_None_iff in_set_conv_nth)
  have d: "dst' = dst\<lparr>ac_locals := ac_locals dst @ [x]\<rparr>" "i = int (length (ac_locals dst))" "length (ac_locals dst) < 16"
    using assms(1,2) None by (auto simp: append_local_unique_def split: if_splits)
  have g: "grown dst dst'" by (simp add: grown_def d)
  moreover have "list_all (profile_wf dst') (ac_profiles dst')"
    using assms(3) profile_grown(1) [OF g] g by (auto simp: merged_ok_def config_wf_def list_all_iff grown_def)
  ultimately show ?thesis using assms(3) new d by (simp add: merged_ok_def config_wf_def nth_append)
qed

lemma append_wan_ok:
  assumes "append_wan_unique dst x = (i, dst')" "0 \<le> i" "merged_ok dst"
  shows "merged_ok dst' \<and> grown dst dst' \<and> ac_locals dst' = ac_locals dst \<and> ac_policies dst' = ac_policies dst \<and>
    i < int (length (ac_wans dst')) \<and> map wc_ifname (ac_wans dst') ! nat i = wc_ifname x"
proof (cases "find_wan_by_ifname dst (wc_ifname x)")
  case (Some j)
  then have "dst' = dst" "i = int j" using assms(1) by (simp_all add: append_wan_unique_def)
  moreover have "j < length (ac_wans dst)" "wc_ifname (ac_wans dst ! j) = wc_ifname x"
    using Some by (auto simp: find_wan_by_ifname_def find_upt_Some_iff)
  ultimately show ?thesis using assms(3) by (simp add: grown_refl)
next
  case None
  then have new: "wc_ifname x \<notin> wc_ifname ` set (ac_wans dst)"
    by (auto simp: find_wan_by_ifname_def find_upt_None_iff in_set_conv_nth)
  have d: "dst' = dst\<lparr>ac_wans := ac_wans dst @ [x]\<rparr>" "i = int (length (ac_wans dst))" "length (ac_wans dst) < 16"
    using assms(1,2) None by (auto simp: append_wan_unique_def split: if_splits)
  have g: "grown dst dst'" by (simp add: grown_def d)
  moreover have "list_all (profile_wf dst') (ac_profiles dst')"
    using assms(3) profile_grown(1) [OF g] g by (auto simp: merged_ok_def config_wf_def list_all_iff grown_def)
  ultimately show ?thesis using assms(3) new d by (simp add: merged_ok_def config_wf_def nth_append)
qed

lemma append_policy_step:
  assumes "append_policy_unique dst x = (i, dst')" "0 \<le> i" "merged_ok dst"
  shows "merged_ok dst' \<and> grown dst dst' \<and> ac_locals dst' = ac_locals dst \<and> ac_wans dst' = ac_wans dst \<and>
    i < int (length (ac_policies dst')) \<and> map anonymous (ac_policies dst') ! nat i = anonymous x"
proof -
  have "ids_unique (ac_policies dst)" using assms(3) by (simp add: merged_ok_def)
  from append_policy_ok [OF assms(1,2) this] obtain q where
    d: "dst' = dst\<lparr>ac_policies := ac_policies dst @ [q]\<rparr>" "i = int (length (ac_policies dst))" and
    q: "anonymous q = anonymous x" "ids_unique (ac_policies dst @ [q])" "length (ac_policies dst) < MAX_CRYPTO_POLICIES" .
  have g: "grown dst dst'" by (simp add: grown_def d)
  moreover have "list_all (profile_wf dst') (ac_profiles dst')"
    using assms(3) profile_grown(1) [OF g] g by (auto simp: merged_ok_def config_wf_def list_all_iff grown_def)
  ultimately show ?thesis using assms(3) d q by (simp add: merged_ok_def config_wf_def nth_append)
qed

lemma translates_grown: "translates m xs ys \<Longrightarrow> ys' = ys @ zs \<Longrightarrow> translates m xs ys'"
  by (simp add: translates_append)

lemma merge_profiles_ok:
  assumes "merge_profiles f sps dst = Some dst'" "merged_ok dst"
    and "\<And>d sp. sp \<in> set sps \<Longrightarrow> ac_locals d = ac_locals dst \<Longrightarrow> ac_wans d = ac_wans dst \<Longrightarrow> ac_policies d = ac_policies dst \<Longrightarrow>
      profile_wf d (f sp)"
  shows "merged_ok dst' \<and> dst' = dst\<lparr>ac_profiles := ac_profiles dst @ map f sps\<rparr>"
  using assms
proof (induction sps arbitrary: dst)
  case (Cons sp sps)
  let ?d = "dst\<lparr>ac_profiles := ac_profiles dst @ [f sp]\<rparr>"
  have l: "length (ac_profiles dst) < 32" and run: "merge_profiles f sps ?d = Some dst'"
    using Cons.prems(1) by (auto split: if_splits)
  have "profile_wf ?d (f sp)" by (rule Cons.prems(3)) simp_all
  moreover have "profile_wf ?d p \<longleftrightarrow> profile_wf dst p" for p by (rule profile_wf_cong) simp_all
  ultimately have "merged_ok ?d" using Cons.prems(2) l by (simp add: merged_ok_def config_wf_def list_all_iff)
  then have h: "merged_ok dst' \<and> dst' = ?d\<lparr>ac_profiles := ac_profiles ?d @ map f sps\<rparr>"
    by (rule Cons.IH [OF run]) (use Cons.prems(3) in simp)
  show ?case using conjunct1 [OF h] conjunct2 [OF h] by (intro conjI) (assumption, simp)
qed simp

lemma merge_one_config_ok:
  assumes "merge_one_config dst src = Some (Some dst')" "merged_ok dst" "config_wf src"
  shows "merged_ok dst' \<and> map (profile_view dst') (ac_profiles dst') =
    map (profile_view dst) (ac_profiles dst) @ map (profile_view src) (ac_profiles src)"
proof -
  obtain lm d1 wm d2 pm d3 where r: "append_all append_local_unique (ac_locals src) ([], dst) = Some (lm, d1)"
    "append_all append_wan_unique (ac_wans src) ([], d1) = Some (wm, d2)"
    "append_all append_policy_unique (ac_policies src) ([], d2) = Some (pm, d3)"
    "merge_profiles (merge_profile lm wm pm) (ac_profiles src) d3 = Some dst'"
    using assms(1) by (auto simp: merge_one_config_def split: if_splits bind_splits)
  have g0: "\<And>a b. grown a b \<Longrightarrow> \<exists>ys. map lc_ifname (ac_locals b) = map lc_ifname (ac_locals a) @ ys"
    "\<And>a b. grown a b \<Longrightarrow> \<exists>ys. map wc_ifname (ac_wans b) = map wc_ifname (ac_wans a) @ ys"
    "\<And>a b. grown a b \<Longrightarrow> \<exists>ys. map anonymous (ac_policies b) = map anonymous (ac_policies a) @ ys"
    by (auto simp: grown_def)
  have a: "translates lm ([] @ map lc_ifname (ac_locals src)) (map lc_ifname (ac_locals d1)) \<and> (merged_ok d1 \<and> grown dst d1)"
  proof (rule append_all_ok [OF r(1), where I = "\<lambda>c. merged_ok c \<and> grown dst c"])
    fix x c i c' assume "append_local_unique c x = (i, c')" "0 \<le> i" "merged_ok c \<and> grown dst c"
    with append_local_ok [of c x i c'] show "(merged_ok c' \<and> grown dst c') \<and>
      (\<exists>ys. map lc_ifname (ac_locals c') = map lc_ifname (ac_locals c) @ ys) \<and>
      i < int (length (map lc_ifname (ac_locals c'))) \<and> map lc_ifname (ac_locals c') ! nat i = lc_ifname x"
      using grown_trans g0(1) by (auto simp del: nth_map)
  qed (simp_all add: translates_def assms(2) grown_refl)
  have b: "translates wm ([] @ map wc_ifname (ac_wans src)) (map wc_ifname (ac_wans d2)) \<and>
      (merged_ok d2 \<and> grown d1 d2 \<and> ac_locals d2 = ac_locals d1)"
  proof (rule append_all_ok [OF r(2), where I = "\<lambda>c. merged_ok c \<and> grown d1 c \<and> ac_locals c = ac_locals d1"])
    fix x c i c' assume "append_wan_unique c x = (i, c')" "0 \<le> i" "merged_ok c \<and> grown d1 c \<and> ac_locals c = ac_locals d1"
    with append_wan_ok [of c x i c'] show "(merged_ok c' \<and> grown d1 c' \<and> ac_locals c' = ac_locals d1) \<and>
      (\<exists>ys. map wc_ifname (ac_wans c') = map wc_ifname (ac_wans c) @ ys) \<and>
      i < int (length (map wc_ifname (ac_wans c'))) \<and> map wc_ifname (ac_wans c') ! nat i = wc_ifname x"
      using grown_trans g0(2) by (auto simp del: nth_map)
  qed (simp_all add: translates_def a grown_refl)
  have c: "translates pm ([] @ map anonymous (ac_policies src)) (map anonymous (ac_policies d3)) \<and>
      (merged_ok d3 \<and> grown d2 d3 \<and> ac_locals d3 = ac_locals d2 \<and> ac_wans d3 = ac_wans d2)"
  proof (rule append_all_ok [OF r(3), where I = "\<lambda>c. merged_ok c \<and> grown d2 c \<and> ac_locals c = ac_locals d2 \<and> ac_wans c = ac_wans d2"])
    fix x c i c' assume "append_policy_unique c x = (i, c')" "0 \<le> i"
      "merged_ok c \<and> grown d2 c \<and> ac_locals c = ac_locals d2 \<and> ac_wans c = ac_wans d2"
    with append_policy_step [of c x i c'] show "(merged_ok c' \<and> grown d2 c' \<and> ac_locals c' = ac_locals d2 \<and> ac_wans c' = ac_wans d2) \<and>
      (\<exists>ys. map anonymous (ac_policies c') = map anonymous (ac_policies c) @ ys) \<and>
      i < int (length (map anonymous (ac_policies c'))) \<and> map anonymous (ac_policies c') ! nat i = anonymous x"
      using grown_trans g0(3) by (auto simp del: nth_map)
  qed (simp_all add: translates_def b grown_refl)
  have prof: "profile_wf d (merge_profile lm wm pm sp) \<and> profile_view d (merge_profile lm wm pm sp) = profile_view src sp"
    if "sp \<in> set (ac_profiles src)" "ac_locals d = ac_locals d3" "ac_wans d = ac_wans d3" "ac_policies d = ac_policies d3" for d sp
    by (rule merge_profile_ok) (use that a b c assms(3) in \<open>simp_all add: config_wf_def list_all_iff\<close>)
  have m: "merged_ok dst' \<and> dst' = d3\<lparr>ac_profiles := ac_profiles d3 @ map (merge_profile lm wm pm) (ac_profiles src)\<rparr>"
    by (rule merge_profiles_ok [OF r(4)]) (use c prof in auto)
  have g: "grown dst d3" using a b c grown_trans by blast
  have "profile_view dst' p = profile_view d3 p" for p using conjunct2 [OF m] by (simp add: profile_view_def)
  moreover have "profile_view d3 p = profile_view dst p" if "p \<in> set (ac_profiles dst)" for p
    using profile_grown(2) [OF g] assms(2) that by (simp add: merged_ok_def config_wf_def list_all_iff)
  moreover have "ac_profiles dst' = ac_profiles dst @ map (merge_profile lm wm pm) (ac_profiles src)"
    using conjunct2 [OF m] g by (simp add: grown_def)
  ultimately show ?thesis using conjunct1 [OF m] prof by simp
qed

lemma append_policies_all:
  "append_all append_policy_unique ps (m, dst) = Some (m', dst') \<Longrightarrow> ids_unique (ac_policies dst) \<Longrightarrow>
    map anonymous (ac_policies dst') = map anonymous (ac_policies dst) @ map anonymous ps"
proof (induction ps arbitrary: m dst)
  case (Cons p ps)
  obtain i d where a: "append_policy_unique dst p = (i, d)" by fastforce
  then have i: "0 \<le> i" and run: "append_all append_policy_unique ps (m @ [i], d) = Some (m', dst')"
    using Cons.prems(1) by (auto split: if_splits)
  obtain q where q: "d = dst\<lparr>ac_policies := ac_policies dst @ [q]\<rparr>" "anonymous q = anonymous p" "ids_unique (ac_policies dst @ [q])"
    by (rule append_policy_ok [OF a i Cons.prems(2)]) (rule that)
  from Cons.IH [OF run] q show ?case by simp
qed simp

lemma append_all_frame:
  assumes "append_all f xs (m, dst) = Some (m', dst')" "\<And>x d i d'. f d x = (i, d') \<Longrightarrow> g d' = g d"
  shows "g dst' = g dst"
  using assms(1) by (induction xs arbitrary: m dst) (auto split: prod.splits if_splits dest: assms(2))

lemma merge_profiles_frame: "merge_profiles f sps dst = Some dst' \<Longrightarrow> ac_policies dst' = ac_policies dst"
  by (induction sps arbitrary: dst) (auto split: if_splits)

lemma merge_one_policies:
  assumes "merge_one_config dst src = Some (Some dst')" "merged_ok dst"
  shows "map anonymous (ac_policies dst') = map anonymous (ac_policies dst) @ map anonymous (ac_policies src)"
proof -
  obtain lm d1 wm d2 pm d3 where r: "append_all append_local_unique (ac_locals src) ([], dst) = Some (lm, d1)"
    "append_all append_wan_unique (ac_wans src) ([], d1) = Some (wm, d2)"
    "append_all append_policy_unique (ac_policies src) ([], d2) = Some (pm, d3)"
    "merge_profiles (merge_profile lm wm pm) (ac_profiles src) d3 = Some dst'"
    using assms(1) by (auto simp: merge_one_config_def split: if_splits bind_splits)
  have "ac_policies d1 = ac_policies dst"
    by (rule append_all_frame [OF r(1)]) (auto simp: append_local_unique_def split: option.splits if_splits)
  moreover have "ac_policies d2 = ac_policies d1"
    by (rule append_all_frame [OF r(2)]) (auto simp: append_wan_unique_def split: option.splits if_splits)
  ultimately show ?thesis
    using append_policies_all [OF r(3)] merge_profiles_frame [OF r(4)] assms(2) by (simp add: merged_ok_def)
qed

section \<open>The merged configuration\<close>

text \<open>The configurations that the profiles load.\<close>

definition loads :: "(string \<Rightarrow> buf) \<Rightarrow> (int \<Rightarrow> profile_rows) \<Rightarrow> int list \<Rightarrow> app_config list \<Rightarrow> bool" where
  "loads sha256 db ids cs \<longleftrightarrow> map (\<lambda>pid. config_load_from_db sha256 (db pid)) ids = map (\<lambda>c. Some (Some c)) cs"

lemma merge_all_ok:
  assumes "each (merge_next sha db) ids dst = Some (Some dst')" "merged_ok dst"
  shows "\<exists>cs. loads sha db ids cs \<and> merged_ok dst' \<and>
    map (profile_view dst') (ac_profiles dst') = map (profile_view dst) (ac_profiles dst) @
      concat (map (\<lambda>c. map (profile_view c) (ac_profiles c)) cs) \<and>
    map anonymous (ac_policies dst') = map anonymous (ac_policies dst) @ concat (map (\<lambda>c. map anonymous (ac_policies c)) cs)"
  using assms
proof (induction ids arbitrary: dst)
  case Nil
  then show ?case by (intro exI [of _ "[]"]) (simp add: loads_def)
next
  case (Cons pid ids)
  obtain d where d: "merge_next sha db pid dst = Some (Some d)" and run: "each (merge_next sha db) ids d = Some (Some dst')"
    using Cons.prems(1) by (auto simp: and_then_eq_Some)
  obtain c where c: "config_load_from_db sha (db pid) = Some (Some c)" "merge_one_config dst c = Some (Some d)"
    using d by (auto simp: and_then_eq_Some merge_next_def)
  obtain p where "ac_profiles c = [p]" "profile_wf c p" "length (ac_locals c) \<le> MAX_INTERFACES"
    "length (ac_wans c) \<le> MAX_INTERFACES" "length (ac_policies c) \<le> MAX_CRYPTO_POLICIES"
    by (rule config_load_ok [OF c(1)])
  then have "config_wf c" by (simp add: config_wf_def)
  note m = merge_one_config_ok [OF c(2) Cons.prems(2) this] and p = merge_one_policies [OF c(2) Cons.prems(2)]
  from Cons.IH [OF run conjunct1 [OF m]] obtain cs where cs: "loads sha db ids cs" "merged_ok dst'"
    "map (profile_view dst') (ac_profiles dst') = map (profile_view d) (ac_profiles d) @
      concat (map (\<lambda>c. map (profile_view c) (ac_profiles c)) cs)"
    "map anonymous (ac_policies dst') = map anonymous (ac_policies d) @ concat (map (\<lambda>c. map anonymous (ac_policies c)) cs)"
    by blast
  have "loads sha db (pid # ids) (c # cs)" using c(1) cs(1) by (simp add: loads_def)
  then show ?case using cs m p by (intro exI [of _ "c # cs"]) simp
qed

lemma merged_settings_frame [simp]:
  "ac_locals (merged_settings cfg) = ac_locals cfg" "ac_wans (merged_settings cfg) = ac_wans cfg"
  "ac_profiles (merged_settings cfg) = ac_profiles cfg" "ac_policies (merged_settings cfg) = ac_policies cfg"
  by (simp_all add: merged_settings_def Let_def)

lemma merged_ok_settings: "merged_ok (merged_settings cfg) = merged_ok cfg" "profile_view (merged_settings cfg) p = profile_view cfg p"
  by (simp_all add: merged_ok_def config_wf_def profile_view_def list_all_iff profile_wf_def)

lemma build_merged_ok:
  assumes "build_merged_config sha256 db ids = Some (Some cfg)"
  obtains cs where "loads sha256 db ids cs" "merged_ok cfg" "config_validate cfg = Inr ()"
    "map (profile_view cfg) (ac_profiles cfg) = concat (map (\<lambda>c. map (profile_view c) (ac_profiles c)) cs)"
    "map anonymous (ac_policies cfg) = concat (map (\<lambda>c. map anonymous (ac_policies c)) cs)"
proof -
  obtain m where m0: "each (merge_next sha256 db) ids empty_config = Some (Some m)"
      "(case config_validate (merged_settings m) of Inl _ \<Rightarrow> Some None | Inr _ \<Rightarrow> Some (Some (merged_settings m))) = Some (Some cfg)"
    using assms by (auto simp: build_merged_config_def and_then_eq_Some Let_def)
  then have m: "each (merge_next sha256 db) ids empty_config = Some (Some m)" "cfg = merged_settings m"
      "config_validate cfg = Inr ()" by (auto split: sum.splits)
  have "merged_ok empty_config" by (simp add: merged_ok_def config_wf_def empty_config_def ids_unique_def)
  from merge_all_ok [OF m(1) this] obtain cs where cs: "loads sha256 db ids cs" "merged_ok m"
    "map (profile_view m) (ac_profiles m) = concat (map (\<lambda>c. map (profile_view c) (ac_profiles c)) cs)"
    "map anonymous (ac_policies m) = concat (map (\<lambda>c. map anonymous (ac_policies c)) cs)"
    by (auto simp: empty_config_def)
  have "profile_view cfg = profile_view m" by (rule ext) (simp add: m(2) merged_ok_settings)
  then show ?thesis using that [OF cs(1)] cs m(2,3) by (simp add: merged_ok_settings)
qed

lemma wire_id_unique:
  assumes "ids_unique ps" "p \<in> set ps" "q \<in> set ps" "wire_id p = wire_id q"
  shows "p = q"
proof -
  have "uint (wire_id r) = cp_id r" if "r \<in> set ps" for r
  proof -
    have "1 \<le> cp_id r" "cp_id r \<le> 255" using assms(1) that by (auto simp: ids_unique_def)
    then show ?thesis by (simp add: wire_id_def uint_word_of_int)
  qed
  from this [OF assms(2)] this [OF assms(3)] have "uint (wire_id p) = cp_id p" "uint (wire_id q) = cp_id q" .
  then have "cp_id p = cp_id q" using assms(4) by simp
  then show ?thesis using assms by (auto simp: ids_unique_def distinct_map inj_on_def)
qed

lemma ids_unique_owns:
  assumes "ids_unique (ac_policies cfg)" "p \<in> set (ac_policies cfg)" "serviceable p" "0 \<le> cp_action p" "cp_action p \<le> 4"
  shows "owns_wire_id cfg p"
proof -
  have s: "serves (nat (cp_action p)) (wire_id p) p" using assms(3-5) by (simp add: serves_def)
  then obtain q where q: "find (serves (nat (cp_action p)) (wire_id p)) (ac_policies cfg) = Some q"
    using assms(2) by (cases "find (serves (nat (cp_action p)) (wire_id p)) (ac_policies cfg)") (auto simp: find_None_iff)
  then have "wire_id q = wire_id p" "q \<in> set (ac_policies cfg)" by (auto simp: serves_def dest!: find_SomeD)
  then show ?thesis using q wire_id_unique [OF assms(1) _ assms(2)] by (simp add: owns_wire_id_def)
qed

text \<open>C24: Whatever the database holds and whichever profiles are active, a configuration that the merge
  accepts is well formed: interface names are distinct, profiles name interfaces and policies that
  exist, every policy has an identifier of its own that fits into the byte on the wire, and every
  policy that can encrypt is the one that received packets with its identifier find.\<close>

theorem merged_config_wf:
  assumes "build_merged_config sha256 db ids = Some (Some cfg)"
  shows "config_wf cfg \<and> distinct (map lc_ifname (ac_locals cfg)) \<and> distinct (map wc_ifname (ac_wans cfg)) \<and>
    distinct (map wire_id (ac_policies cfg)) \<and> (\<forall>p \<in> set (ac_policies cfg). 1 \<le> cp_id p \<and> cp_id p \<le> 255) \<and>
    (\<forall>p \<in> set (ac_policies cfg). serviceable p \<and> 0 \<le> cp_action p \<and> cp_action p \<le> 4 \<longrightarrow> owns_wire_id cfg p) \<and>
    config_validate cfg = Inr ()"
proof -
  obtain cs where m: "merged_ok cfg" "config_validate cfg = Inr ()" by (rule build_merged_ok [OF assms]) (rule that)
  then have u: "ids_unique (ac_policies cfg)" by (simp add: merged_ok_def)
  then have "inj_on wire_id (set (ac_policies cfg))" using wire_id_unique by (auto simp: inj_on_def)
  then have "distinct (map wire_id (ac_policies cfg))" using u by (simp add: distinct_map ids_unique_def)
  then show ?thesis using m u ids_unique_owns by (auto simp: merged_ok_def ids_unique_def)
qed

text \<open>C25: Merging keeps what every profile says: in the merged configuration each profile names the same
  interfaces, with the same weights, and the same policies in the same order, as when it was
  loaded; only the identifiers of the policies may differ.\<close>

theorem merge_keeps_profiles:
  assumes "build_merged_config sha256 db ids = Some (Some cfg)"
  shows "\<exists>cs. loads sha256 db ids cs \<and>
    map (profile_view cfg) (ac_profiles cfg) = concat (map (\<lambda>c. map (profile_view c) (ac_profiles c)) cs) \<and>
    map anonymous (ac_policies cfg) = concat (map (\<lambda>c. map anonymous (ac_policies c)) cs)"
proof -
  obtain cs where "loads sha256 db ids cs"
    "map (profile_view cfg) (ac_profiles cfg) = concat (map (\<lambda>c. map (profile_view c) (ac_profiles c)) cs)"
    "map anonymous (ac_policies cfg) = concat (map (\<lambda>c. map anonymous (ac_policies c)) cs)"
    by (rule build_merged_ok [OF assms]) (rule that)
  then show ?thesis by blast
qed

section \<open>Two profiles\<close>

text \<open>Two profiles hold the rows of the example and share both interfaces.  In each of them the
  identifier 7 stood for both policies of its row, whose keys are equal; after the merge no two
  policies share an identifier, and the bypass uses one up.\<close>

definition sample_premerged :: app_config where
  "sample_premerged = empty_config\<lparr>ac_locals := ac_locals sample_loaded, ac_wans := ac_wans sample_loaded,
     ac_profiles := [ac_profiles sample_loaded ! 0, (ac_profiles sample_loaded ! 0)\<lparr>pr_policy_indices := [3, 4, 5]\<rparr>],
     ac_policies := map2 (\<lambda>p i. p\<lparr>cp_id := i\<rparr>) (ac_policies sample_loaded @ ac_policies sample_loaded) [7, 1, 2, 3, 4, 5]\<rparr>"

definition sample_merged :: app_config where
  "sample_merged = merged_settings sample_premerged"

lemma sample_merge_steps:
  "and_then (merge_one_config empty_config sample_loaded) (\<lambda>m. merge_one_config m sample_loaded) = Some (Some sample_premerged)"
  "config_validate (merged_settings sample_premerged) = Inr ()"
  by code_simp+

lemma sample_merge: "build_merged_config (\<lambda>s. replicate 32 7) (\<lambda>i. sample_rows) [3, 4] = Some (Some sample_merged)"
proof -
  have nx: "merge_next (\<lambda>s. replicate 32 7) (\<lambda>i. sample_rows) i c = merge_one_config c sample_loaded" for i c
    by (simp add: merge_next_def sample_rows_load and_then_def)
  have e: "each f [x] s = f x s" for f :: "int \<Rightarrow> app_config \<Rightarrow> app_config loaded" and x s
    by (simp add: and_then_def split: option.split)
  have "each (merge_next (\<lambda>s. replicate 32 7) (\<lambda>i. sample_rows)) [3, 4] empty_config =
      and_then (merge_one_config empty_config sample_loaded) (\<lambda>m. merge_one_config m sample_loaded)"
    unfolding each.simps(2) [of _ 3] e nx ..
  then have "build_merged_config (\<lambda>s. replicate 32 7) (\<lambda>i. sample_rows) [3, 4] = and_then (Some (Some sample_premerged))
      (\<lambda>m. case config_validate (merged_settings m) of Inl _ \<Rightarrow> Some None | Inr _ \<Rightarrow> Some (Some (merged_settings m)))"
    unfolding build_merged_config_def Let_def sample_merge_steps(1) by simp
  then show ?thesis by (simp add: and_then_def sample_merge_steps(2) sample_merged_def)
qed

theorem merged_config_wf_witness:
  "distinct (map wire_id (ac_policies sample_merged)) \<and> map cp_id (ac_policies sample_loaded) = [7, 7, 0] \<and>
    map cp_id (ac_policies sample_merged) = [7, 1, 2, 3, 4, 5]"
  using merged_config_wf [OF sample_merge]
  by (simp add: sample_merged_def sample_premerged_def sample_loaded_def sample_db_policy_def)

theorem merge_keeps_profiles_witness:
  "\<exists>cs. loads (\<lambda>s. replicate 32 7) (\<lambda>i. sample_rows) [3, 4] cs \<and>
    map (profile_view sample_merged) (ac_profiles sample_merged) = concat (map (\<lambda>c. map (profile_view c) (ac_profiles c)) cs)"
  using merge_keeps_profiles [OF sample_merge] by blast

end
