(* ===== verification/Lifecycle.thy ===== *)
theory Lifecycle
  imports Receive Text Worker
begin

text \<open>
  Starting, reloading and stopping the forwarder, \<^verbatim>\<open>src/src/core/forwarder.c\<close>: what
  \<^verbatim>\<open>forwarder_init\<close> and \<^verbatim>\<open>forwarder_reload_config\<close> do to the shared state, and which threads the
  four \<^verbatim>\<open>forwarder_run_\<close> functions start.

  What the system answers while the interfaces are set up is a record: whether the process was
  told to stop when the code looks, the interfaces that were created, and the ARP caches, with
  what their listeners have learned, at the moment in which they are read.  The calls that only
  act on the kernel and on the handles of theories \<^verbatim>\<open>Filters\<close> and \<^verbatim>\<open>Setup\<close>
  (\<^verbatim>\<open>interface_xdp_detach_all_from_config\<close>, \<^verbatim>\<open>interface_reset_redirect_maps\<close>,
  \<^verbatim>\<open>interface_set_queue_count\<close>, \<^verbatim>\<open>interface_push_encrypt_filters\<close>) change nothing of the state here.
\<close>

section \<open>What the system answers\<close>

record setup_env =
  su_stop_start :: bool
  su_stop_lan :: "nat \<Rightarrow> bool"
  su_stop_lan_arp :: "nat \<Rightarrow> bool"
  su_stop_wan :: "nat \<Rightarrow> bool"
  su_stop_wan_arp :: "nat \<Rightarrow> bool"
  su_stop_end :: bool
  su_now :: u64
  su_lan_iface :: "nat \<Rightarrow> xsk_interface option"
  su_wan_iface :: "nat \<Rightarrow> xsk_interface option"
  su_lan_arp :: "nat \<Rightarrow> int \<times> arp_cache"
  su_wan_arp :: "nat \<Rightarrow> int \<times> arp_cache"
  su_socket_ok :: "nat \<Rightarrow> bool"
  su_addr :: "nat \<Rightarrow> u32 option"
  su_netmask :: "nat \<Rightarrow> u32 option"

section \<open>The crypto part of the start\<close>

abbreviation (input) FORWARDER_XSK_QUEUE_COUNT :: int where "FORWARDER_XSK_QUEUE_COUNT \<equiv> 1"

definition with_queue_counts :: "app_config \<Rightarrow> app_config" where
  "with_queue_counts cfg = cfg\<lparr>
     ac_locals := map (\<lambda>l. l\<lparr>lc_queue_count := FORWARDER_XSK_QUEUE_COUNT\<rparr>) (ac_locals cfg),
     ac_wans := map (\<lambda>w. w\<lparr>wc_queue_count := FORWARDER_XSK_QUEUE_COUNT\<rparr>) (ac_wans cfg)\<rparr>"

text \<open>The tables in use become the previous ones; without any, the previous ones are cleared.\<close>

definition save_previous :: "u64 \<Rightarrow> crypto_runtime \<Rightarrow> crypto_runtime" where
  "save_previous now rt =
     (if pt_policies (rt_active rt) \<noteq> []
      then rt\<lparr>rt_prev := rt_active rt, rt_prev_grace_until_ms := now + POLICY_RELOAD_GRACE_MS\<rparr>
      else rt\<lparr>rt_prev := (rt_prev rt)\<lparr>pt_ready := replicate MAX_CRYPTO_POLICIES False,
                pt_index := (\<lambda>a id. -1), pt_policies := []\<rparr>, rt_prev_grace_until_ms := 0\<rparr>)"

definition set_crypto_params :: "app_config \<Rightarrow> crypto_state \<Rightarrow> crypto_state" where
  "set_crypto_params cfg st = st\<lparr>g_encrypt_layer := ac_encrypt_layer cfg,
     g_crypto_mode := ac_crypto_mode cfg, g_nonce_size := ac_nonce_size cfg\<rparr>"

definition set_fake_protocol :: "app_config \<Rightarrow> crypto_state \<Rightarrow> crypto_state" where
  "set_fake_protocol cfg st =
     (if ac_encrypt_layer cfg = 3
      then st\<lparr>g_fake_protocol := (if ac_fake_protocol cfg \<noteq> 0 then ac_fake_protocol cfg else 99)\<rparr> else st)"

text \<open>Return value, whether a policy encrypts at layer 2, and the changed state.\<close>

definition init_crypto ::
    "evp \<Rightarrow> u64 \<Rightarrow> app_config \<Rightarrow> crypto_runtime \<Rightarrow> crypto_state \<Rightarrow>
     int \<times> bool \<times> app_config \<times> crypto_runtime \<times> crypto_state" where
  "init_crypto E now cfg rt st =
     (let rt = rt\<lparr>rt_enabled := ac_crypto_enabled cfg, rt_layer := ac_encrypt_layer cfg\<rparr>
      in if \<not> rt_enabled rt then (0, False, cfg, rt\<lparr>rt_active := (rt_active rt)\<lparr>pt_policies := []\<rparr>\<rparr>, st)
      else let rt = save_previous now rt;
             (rc, ctx, st) = packet_crypto_init E (st\<lparr>g_aes_bits := ac_aes_bits cfg\<rparr>) (ac_crypto_key cfg);
             rt = rt\<lparr>rt_base := ctx\<rparr>
        in if rc \<noteq> 0 then (-1, False, cfg, rt, st)
        else let (t, has_l2, st) = rebuild_crypto_runtime E cfg (rt_active rt) st;
               st = set_crypto_params cfg st;
               cfg = (if has_l2 \<and> ac_fake_ethertype_ipv4 cfg = 0
                      then cfg\<lparr>ac_fake_ethertype_ipv4 := 0x88b5\<rparr> else cfg);
               st = (if has_l2 then st\<lparr>g_fake_ethertype_ipv4 := ac_fake_ethertype_ipv4 cfg\<rparr> else st)
          in (0, has_l2, cfg, rt\<lparr>rt_active := t\<rparr>, set_fake_protocol cfg st))"

section \<open>Interfaces\<close>

text \<open>
  The loops that create the interfaces: they end at a stop or at the first failure.  The result
  says whether all of them are there.
\<close>

fun init_interfaces ::
    "(nat \<Rightarrow> bool) \<Rightarrow> (nat \<Rightarrow> xsk_interface option) \<Rightarrow> nat \<Rightarrow> nat \<Rightarrow> xsk_interface list \<Rightarrow>
     bool \<times> xsk_interface list" where
  "init_interfaces stop iface i 0 done = (True, done)"
| "init_interfaces stop iface i (Suc n) done =
     (if stop i then (False, done)
      else case iface i of
          None \<Rightarrow> (False, done)
        | Some x \<Rightarrow> init_interfaces stop iface (Suc i) n (done @ [x]))"

text \<open>Behind a next hop, the addresses of a WAN interface come from ARP only.\<close>

definition forget_macs :: "wan_config \<Rightarrow> xsk_interface \<Rightarrow> xsk_interface" where
  "forget_macs w x = (if wc_dst_ip w \<noteq> 0
     then x\<lparr>xi_dst_mac := replicate 6 0, xi_src_mac := replicate 6 0\<rparr> else x)"

definition lan_arp_step :: "setup_env \<Rightarrow> nat \<Rightarrow> app_config \<Rightarrow> forwarder \<Rightarrow> app_config \<times> forwarder" where
  "lan_arp_step su i cfg fw =
     (let (rc, c) = su_lan_arp su i; fw = fw\<lparr>fw_arp := (fw_arp fw)[i := c]\<rparr>
      in if rc \<noteq> 0 then (cfg, fw)
      else let (_, l) = local_config_fill_ipv4_from_iface (su_socket_ok su i) (su_addr su i) (su_netmask su i)
                 (ac_locals cfg ! i);
             cfg = cfg\<lparr>ac_locals := (ac_locals cfg)[i := l]\<rparr>;
             fw = fold note_request (map (arp_send_request c) (lan_arp_resolve_policy_hosts cfg (int i))) fw;
             cfg = local_sync_primary_peer_mac c cfg (int i);
             l = (ac_locals cfg ! i)\<lparr>lc_src_mac := arp_if_mac c\<rparr>;
             x = (fw_locals fw ! i)\<lparr>xi_src_mac := arp_if_mac c, xi_dst_mac := lc_dst_mac l\<rparr>
        in (cfg\<lparr>ac_locals := (ac_locals cfg)[i := l]\<rparr>, fw\<lparr>fw_locals := (fw_locals fw)[i := x]\<rparr>))"

definition wan_arp_step :: "setup_env \<Rightarrow> nat \<Rightarrow> app_config \<Rightarrow> forwarder \<Rightarrow> app_config \<times> forwarder" where
  "wan_arp_step su i cfg fw =
     (let w = ac_wans cfg ! i
      in if wc_dst_ip w = 0 then (cfg, fw)
      else let (rc, c) = su_wan_arp su i; fw = fw\<lparr>fw_wan_arp := (fw_wan_arp fw)[i := c]\<rparr>
        in if rc \<noteq> 0 then (cfg, fw)
        else let x = (fw_wans fw ! i)\<lparr>xi_src_mac := arp_if_mac c\<rparr>; w = w\<lparr>wc_src_mac := arp_if_mac c\<rparr>;
               (w, x) = (case arp_cache_lookup c (wc_dst_ip w) of
                   None \<Rightarrow> (w, x)
                 | Some mac \<Rightarrow> (w\<lparr>wc_dst_mac := mac\<rparr>, x\<lparr>xi_dst_mac := mac\<rparr>))
          in (cfg\<lparr>ac_wans := (ac_wans cfg)[i := w]\<rparr>, fw\<lparr>fw_wans := (fw_wans fw)[i := x]\<rparr>))"

fun arp_loop ::
    "(nat \<Rightarrow> bool) \<Rightarrow> (nat \<Rightarrow> app_config \<Rightarrow> forwarder \<Rightarrow> app_config \<times> forwarder) \<Rightarrow> nat \<Rightarrow> nat \<Rightarrow>
     app_config \<times> forwarder \<Rightarrow> bool \<times> app_config \<times> forwarder" where
  "arp_loop stop step i 0 s = (True, s)"
| "arp_loop stop step i (Suc n) s =
     (if stop i then (False, s) else arp_loop stop step (Suc i) n (step i (fst s) (snd s)))"

section \<open>Start, reload and stop\<close>

definition window_sizes :: "app_config \<Rightarrow> u32 list" where
  "window_sizes cfg = compute_profile_weighted_wan_windows cfg
     (map (\<lambda>i. if i < length (ac_wans cfg) then wc_window_size (ac_wans cfg ! i) else 0) [0..<MAX_INTERFACES])
     (int (length (ac_wans cfg)))"

definition init_tables :: "app_config \<Rightarrow> forwarder \<Rightarrow> forwarder" where
  "init_tables cfg fw = fw\<lparr>
     fw_flows := flow_table_init (Some (window_sizes cfg)) (int (length (ac_wans cfg))) (ft_next_wan (fw_flows fw)),
     fw_frag_l2 := frag_table_init, fw_frag_l3 := frag_table_init, fw_frag_l4 := frag_table_init,
     fw_pins := tcp_policy_pin_init (fw_pins fw)\<rparr>"

definition clear_forwarder :: "forwarder \<Rightarrow> forwarder" where
  "clear_forwarder fw = fw\<lparr>fw_locals := [], fw_wans := [], fw_local_to_wan := 0, fw_wan_to_local := 0,
     fw_total_dropped := 0, fw_dropped_bad_ip := 0, fw_dropped_no_local_match := 0, fw_dropped_local_tx_fail := 0\<rparr>"

definition release_tables :: "forwarder \<Rightarrow> forwarder" where
  "release_tables fw = fw\<lparr>fw_flows := flow_table_cleanup (fw_flows fw), fw_pins := tcp_policy_pin_cleanup (fw_pins fw),
     fw_locals := [], fw_wans := []\<rparr>"

text \<open>
  The caller's configuration is changed in place, so it is part of the result; the forwarder
  keeps a pointer to it, \<^term>\<open>fw_cfg\<close>.
\<close>

definition forwarder_init :: "evp \<Rightarrow> setup_env \<Rightarrow> app_config \<Rightarrow> forwarder \<Rightarrow> int \<times> app_config \<times> forwarder" where
  "forwarder_init E su cfg fw =
     (if su_stop_start su then (-1, cfg, fw)
      else let cfg = with_queue_counts cfg;
             (rc, has_l2, cfg, rt, st) = init_crypto E (su_now su) cfg (fw_rt fw) (fw_cs fw);
             fw = (clear_forwarder fw)\<lparr>fw_rt := rt, fw_cs := st\<rparr>
        in if rc \<noteq> 0 then (-1, cfg, fw\<lparr>fw_cfg := cfg\<rparr>)
        else let fw = init_tables cfg fw;
               (ok1, ls) = init_interfaces (su_stop_lan su) (su_lan_iface su) 0 (length (ac_locals cfg)) [];
               (ok2, cfg, fw) = (if ok1
                  then arp_loop (su_stop_lan_arp su) (lan_arp_step su) 0 (length ls) (cfg, fw\<lparr>fw_locals := ls\<rparr>)
                  else (False, cfg, fw));
               (ok3, ws) = (if ok2 then init_interfaces (su_stop_wan su) (su_wan_iface su) 0 (length (ac_wans cfg)) []
                  else (False, []));
               ws = map2 forget_macs (ac_wans cfg) ws;
               (ok4, cfg, fw) = (if ok3
                  then arp_loop (su_stop_wan_arp su) (wan_arp_step su) 0 (length ws) (cfg, fw\<lparr>fw_wans := ws\<rparr>)
                  else (False, cfg, fw))
          in if ok4 \<and> \<not> su_stop_end su then (0, cfg, fw\<lparr>fw_cfg := cfg\<rparr>)
             else (-1, cfg, (release_tables fw)\<lparr>fw_cfg := cfg\<rparr>))"

text \<open>
  The reload; \<^verbatim>\<open>g_reload_pause\<close> and the wait for the packets in flight, which exclude the packet
  threads meanwhile, are the theory of the gate.  Windows and addresses stay as they were.
\<close>

definition reload_crypto :: "evp \<Rightarrow> app_config \<Rightarrow> forwarder \<Rightarrow> forwarder" where
  "reload_crypto E cfg fw =
     (let (t, has_l2, st) = rebuild_crypto_runtime E cfg (rt_active (fw_rt fw)) (fw_cs fw);
          st = set_crypto_params cfg st;
          st = (if has_l2 then st\<lparr>g_fake_ethertype_ipv4 := ac_fake_ethertype_ipv4 cfg\<rparr> else st)
      in fw\<lparr>fw_rt := (fw_rt fw)\<lparr>rt_active := t\<rparr>, fw_cs := set_fake_protocol cfg st,
            fw_pins := tcp_policy_pin_clear_all (fw_pins fw)\<rparr>)"

definition forwarder_reload_config :: "evp \<Rightarrow> app_config \<Rightarrow> forwarder \<Rightarrow> int \<times> app_config \<times> forwarder" where
  "forwarder_reload_config E cfg fw =
     (if \<not> same_topology (fw_cfg fw) cfg then (-1, cfg, fw)
      else let need_crypto = crypto_runtime_changed (fw_cfg fw) cfg;
             need_forwarding = forwarding_runtime_changed (fw_cfg fw) cfg
        in if \<not> need_crypto \<and> \<not> need_forwarding then (0, cfg, fw\<lparr>fw_cfg := cfg\<rparr>)
        else let cfg = with_queue_counts cfg;
               fw = fw\<lparr>fw_cfg := cfg, fw_rt := (fw_rt fw)\<lparr>rt_enabled := ac_crypto_enabled cfg,
                        rt_layer := ac_encrypt_layer cfg\<rparr>\<rparr>
          in (0, cfg, if ac_crypto_enabled cfg \<and> need_crypto then reload_crypto E cfg fw else fw))"

definition forwarder_cleanup :: "forwarder \<Rightarrow> forwarder" where
  "forwarder_cleanup fw = release_tables
     (if rt_enabled (fw_rt fw)
      then let (ctx, st) = packet_crypto_cleanup (rt_base (fw_rt fw)) (fw_cs fw)
        in fw\<lparr>fw_rt := (fw_rt fw)\<lparr>rt_base := ctx\<rparr>, fw_cs := st\<rparr>
      else fw)"

section \<open>The threads\<close>

datatype thread_body =
    Local_queue_thread_no_crypto | Wan_queue_thread_no_crypto | Local_queue_thread_l2 | Wan_queue_thread_l2
  | Local_queue_thread_l3l4 | Wan_queue_thread_l3l4 | Worker_thread | Gc_thread

type_synonym thread = "thread_body \<times> queue_thread_args option"

definition local_threads :: "thread_body \<Rightarrow> forwarder \<Rightarrow> thread list" where
  "local_threads body fw = concat (map (\<lambda>i. map (\<lambda>q. (body,
       Some \<lparr>qa_iface_idx = i, qa_queue_idx = q, qa_tx_queue_base = q, qa_wan_worker_index = -1\<rparr>))
     [0..<length (xi_queues (fw_locals fw ! i))]) [0..<length (fw_locals fw)])"

fun wan_threads :: "thread_body \<Rightarrow> nat \<Rightarrow> int \<Rightarrow> xsk_interface list \<Rightarrow> thread list" where
  "wan_threads body i wan_worker_idx [] = []"
| "wan_threads body i wan_worker_idx (x # xs) =
     map (\<lambda>q. (body, Some \<lparr>qa_iface_idx = i, qa_queue_idx = q, qa_tx_queue_base = q,
                           qa_wan_worker_index = wan_worker_idx + int q\<rparr>)) [0..<length (xi_queues x)]
     @ wan_threads body (Suc i) (wan_worker_idx + int (length (xi_queues x))) xs"

text \<open>The length of the arrays \<^verbatim>\<open>threads\<close> and \<^verbatim>\<open>args\<close>.\<close>

definition queue_total :: "forwarder \<Rightarrow> nat" where
  "queue_total fw = sum_list (map (\<lambda>x. length (xi_queues x)) (fw_locals fw))
     + sum_list (map (\<lambda>x. length (xi_queues x)) (fw_wans fw))"

text \<open>The four functions: the length of the arrays, the threads without arguments that are not in
  them, and the threads in them.  \<^term>\<open>None\<close> is a failing allocation.\<close>

definition run_threads ::
    "bool \<Rightarrow> thread_body \<Rightarrow> thread_body \<Rightarrow> thread list \<Rightarrow> nat \<Rightarrow> forwarder \<Rightarrow> (nat \<times> thread list \<times> thread list) option" where
  "run_threads alloc_ok local_body wan_body workers n fw =
     (if \<not> alloc_ok then None
      else Some (n, [(Gc_thread, None)], local_threads local_body fw @ wan_threads wan_body 0 0 (fw_wans fw) @ workers))"

definition forwarder_run_no_crypto :: "bool \<Rightarrow> forwarder \<Rightarrow> (nat \<times> thread list \<times> thread list) option" where
  "forwarder_run_no_crypto alloc_ok fw =
     run_threads alloc_ok Local_queue_thread_no_crypto Wan_queue_thread_no_crypto [] (queue_total fw) fw"

definition forwarder_run_l2 :: "bool \<Rightarrow> forwarder \<Rightarrow> (nat \<times> thread list \<times> thread list) option" where
  "forwarder_run_l2 alloc_ok fw =
     run_threads alloc_ok Local_queue_thread_l2 Wan_queue_thread_l2 [] (queue_total fw) fw"

definition forwarder_run_l3 :: "bool \<Rightarrow> forwarder \<Rightarrow> (nat \<times> thread list \<times> thread list) option" where
  "forwarder_run_l3 alloc_ok fw =
     run_threads alloc_ok Local_queue_thread_l3l4 Wan_queue_thread_l3l4 [(Worker_thread, None)] (queue_total fw + 1) fw"

definition forwarder_run_l4 :: "bool \<Rightarrow> forwarder \<Rightarrow> (nat \<times> thread list \<times> thread list) option" where
  "forwarder_run_l4 alloc_ok fw =
     run_threads alloc_ok Local_queue_thread_l3l4 Wan_queue_thread_l3l4 [(Worker_thread, None)] (queue_total fw + 1) fw"

definition forwarder_run :: "bool \<Rightarrow> forwarder \<Rightarrow> (nat \<times> thread list \<times> thread list) option" where
  "forwarder_run alloc_ok fw =
     (if \<not> rt_enabled (fw_rt fw) then forwarder_run_no_crypto alloc_ok fw
      else if rt_layer (fw_rt fw) = 2 then forwarder_run_l2 alloc_ok fw
      else if rt_layer (fw_rt fw) = 3 then forwarder_run_l3 alloc_ok fw
      else if rt_layer (fw_rt fw) = 4 then forwarder_run_l4 alloc_ok fw
      else forwarder_run_l3 alloc_ok fw)"

section \<open>What the start and the reload change\<close>

text \<open>Everything of a configuration but the addresses that ARP finds.\<close>

definition same_settings :: "app_config \<Rightarrow> app_config \<Rightarrow> bool" where
  "same_settings a b \<longleftrightarrow>
     ac_policies a = ac_policies b \<and> ac_profiles a = ac_profiles b \<and>
     ac_crypto_enabled a = ac_crypto_enabled b \<and> ac_encrypt_layer a = ac_encrypt_layer b \<and>
     ac_crypto_mode a = ac_crypto_mode b \<and> ac_aes_bits a = ac_aes_bits b \<and>
     ac_nonce_size a = ac_nonce_size b \<and> ac_fake_protocol a = ac_fake_protocol b \<and>
     map lc_ifname (ac_locals a) = map lc_ifname (ac_locals b) \<and>
     map wc_ifname (ac_wans a) = map wc_ifname (ac_wans b)"

lemma same_settings_refl [simp]: "same_settings a a" by (simp add: same_settings_def)

lemma same_settings_trans [trans]: "same_settings a b \<Longrightarrow> same_settings b c \<Longrightarrow> same_settings a c"
  by (simp add: same_settings_def)

lemma with_queue_counts_same [simp]: "same_settings cfg (with_queue_counts cfg)"
  by (simp add: same_settings_def with_queue_counts_def comp_def)

lemma with_queue_counts_crypto [simp]:
  "ac_crypto_enabled (with_queue_counts cfg) = ac_crypto_enabled cfg"
  "ac_encrypt_layer (with_queue_counts cfg) = ac_encrypt_layer cfg"
  by (simp_all add: with_queue_counts_def)

lemma map_update_same: "(i < length xs \<Longrightarrow> f x = f (xs ! i)) \<Longrightarrow> map f (xs[i := x]) = map f xs"
  by (cases "i < length xs") (simp_all add: map_update list_update_same_conv list_update_beyond)

lemma fill_ifname: "lc_ifname (snd (local_config_fill_ipv4_from_iface ok a m l)) = lc_ifname l"
  by (simp add: local_config_fill_ipv4_from_iface_def Let_def split: option.split)

lemma sync_same: "same_settings cfg (local_sync_primary_peer_mac c cfg i)"
  by (simp add: same_settings_def local_sync_primary_peer_mac_def Let_def map_update_same)

lemma note_requests_rt: "fw_rt (fold note_request rs fw) = fw_rt fw \<and> fw_cs (fold note_request rs fw) = fw_cs fw"
  by (induction rs arbitrary: fw) (simp_all add: note_request_def split: option.split)

lemma lan_arp_step_same:
  assumes "lan_arp_step su i cfg fw = (cfg', fw')"
  shows "same_settings cfg cfg' \<and> fw_rt fw' = fw_rt fw"
proof (cases "fst (su_lan_arp su i) = 0")
  case False
  then show ?thesis using assms by (auto simp: lan_arp_step_def Let_def split: prod.splits)
next
  case True
  obtain c where c: "su_lan_arp su i = (0, c)" using True by (cases "su_lan_arp su i") auto
  define l where "l = snd (local_config_fill_ipv4_from_iface (su_socket_ok su i) (su_addr su i) (su_netmask su i) (ac_locals cfg ! i))"
  define cfg1 where "cfg1 = cfg\<lparr>ac_locals := (ac_locals cfg)[i := l]\<rparr>"
  define cfg2 where "cfg2 = local_sync_primary_peer_mac c cfg1 (int i)"
  have e: "cfg' = cfg2\<lparr>ac_locals := (ac_locals cfg2)[i := (ac_locals cfg2 ! i)\<lparr>lc_src_mac := arp_if_mac c\<rparr>]\<rparr>"
    "fw_rt fw' = fw_rt fw"
    using assms by (auto simp: lan_arp_step_def c Let_def case_prod_beta cfg2_def cfg1_def l_def note_requests_rt)
  have "same_settings cfg cfg1" by (simp add: cfg1_def same_settings_def map_update_same l_def fill_ifname)
  also have "same_settings cfg1 cfg2" unfolding cfg2_def by (rule sync_same)
  also have "same_settings cfg2 cfg'" by (simp add: e same_settings_def map_update_same)
  finally show ?thesis using e(2) by simp
qed

lemma wan_arp_step_same:
  assumes "wan_arp_step su i cfg fw = (cfg', fw')"
  shows "same_settings cfg cfg' \<and> fw_rt fw' = fw_rt fw"
  using assms by (auto simp: wan_arp_step_def Let_def same_settings_def map_update_same split: if_splits prod.splits option.splits)

lemma arp_loop_same:
  assumes "\<And>i cfg fw cfg' fw'. step i cfg fw = (cfg', fw') \<Longrightarrow> same_settings cfg cfg' \<and> fw_rt fw' = fw_rt fw"
    and "arp_loop stop step i n (cfg, fw) = (ok, cfg', fw')"
  shows "same_settings cfg cfg' \<and> fw_rt fw' = fw_rt fw"
  using assms(2)
proof (induction n arbitrary: i cfg fw)
  case (Suc n)
  obtain cfg1 fw1 where s: "step i cfg fw = (cfg1, fw1)" by fastforce
  show ?case
  proof (cases "stop i")
    case False
    then have "same_settings cfg1 cfg' \<and> fw_rt fw' = fw_rt fw1" using Suc s by simp
    with assms(1) [OF s] show ?thesis using same_settings_trans by auto
  qed (use Suc.prems in simp)
qed simp

text \<open>The tables that serve a configuration.\<close>

definition tables_match :: "evp \<Rightarrow> app_config \<Rightarrow> crypto_runtime \<Rightarrow> bool" where
  "tables_match E cfg rt \<longleftrightarrow> contexts_ok E (rt_active rt) \<and>
     rt_enabled rt = ac_crypto_enabled cfg \<and> rt_layer rt = ac_encrypt_layer cfg \<and>
     (ac_crypto_enabled cfg \<longrightarrow>
        (let cps = take MAX_CRYPTO_POLICIES (ac_policies cfg)
         in pt_policies (rt_active rt) = cps \<and> length (pt_ready (rt_active rt)) = MAX_CRYPTO_POLICIES \<and>
            (\<forall>i < length cps. pt_ready (rt_active rt) ! i = serviceable (cps ! i)) \<and>
            pt_index (rt_active rt) = index_spec cps))"

lemma tables_match_same: "same_settings a b \<Longrightarrow> tables_match E a rt \<Longrightarrow> tables_match E b rt"
  by (simp add: tables_match_def same_settings_def)

lemma rebuild_match:
  assumes "evp_ctx_new E" "contexts_ok E (rt_active rt)" "rebuild_crypto_runtime E cfg (rt_active rt) st = (t, h, st')"
    and "rt_enabled rt = ac_crypto_enabled cfg" "rt_layer rt = ac_encrypt_layer cfg"
  shows "tables_match E cfg (rt\<lparr>rt_active := t\<rparr>)"
proof -
  note spec = rebuild_computes_spec' [OF assms(1-3)]
  then have "contexts_ok E t" by (blast intro: runtime_table_contexts)
  then show ?thesis using spec assms(4,5) by (auto simp: tables_match_def Let_def nth_append)
qed

lemma save_previous_fields: "rt_active (save_previous now rt) = rt_active rt \<and>
    rt_enabled (save_previous now rt) = rt_enabled rt \<and> rt_layer (save_previous now rt) = rt_layer rt"
  by (simp add: save_previous_def)

lemma save_previous_first: "pt_policies (rt_active rt) = [] \<Longrightarrow> pt_policies (rt_prev (save_previous now rt)) = []"
  by (simp add: save_previous_def)

lemma init_crypto_match:
  assumes E: "evp_ctx_new E" and old: "contexts_ok E (rt_active rt)"
    and init: "init_crypto E now cfg rt st = (rc, h, cfg', rt', st')"
  shows "rc = 0 \<and> same_settings cfg cfg' \<and> tables_match E cfg' rt' \<and>
    (pt_policies (rt_active rt) = [] \<longrightarrow> pt_policies (rt_prev rt) = [] \<longrightarrow> pt_policies (rt_prev rt') = [])"
proof (cases "ac_crypto_enabled cfg")
  case False
  then have "rc = 0" "cfg' = cfg" "rt' = rt\<lparr>rt_enabled := False, rt_layer := ac_encrypt_layer cfg,
      rt_active := (rt_active rt)\<lparr>pt_policies := []\<rparr>\<rparr>"
    using init by (auto simp: init_crypto_def)
  then show ?thesis using old False by (simp add: tables_match_def contexts_ok_def)
next
  case True
  define rt1 where "rt1 = save_previous now (rt\<lparr>rt_enabled := True, rt_layer := ac_encrypt_layer cfg\<rparr>)"
  obtain ctx st1 where p: "packet_crypto_init E (st\<lparr>g_aes_bits := ac_aes_bits cfg\<rparr>) (ac_crypto_key cfg) = (0, ctx, st1)"
    using E by (simp add: packet_crypto_init_def Let_def)
  obtain t h1 st2 where r: "rebuild_crypto_runtime E cfg (rt_active rt) st1 = (t, h1, st2)" by (metis prod_cases3)
  have f: "rt_active rt1 = rt_active rt" "rt_enabled rt1" "rt_layer rt1 = ac_encrypt_layer cfg"
    by (simp_all add: rt1_def save_previous_fields)
  have e: "rc = 0" "rt' = rt1\<lparr>rt_base := ctx, rt_active := t\<rparr>" "same_settings cfg cfg'"
    using init True p r f(1) by (auto simp: init_crypto_def rt1_def [symmetric] same_settings_def Let_def)
  have "tables_match E cfg ((rt1\<lparr>rt_base := ctx\<rparr>)\<lparr>rt_active := t\<rparr>)"
    by (rule rebuild_match [OF E]) (use old r f True in auto)
  then have "tables_match E cfg' rt'" using tables_match_same [OF e(3)] e(2) by simp
  then show ?thesis using e save_previous_first [of "rt\<lparr>rt_enabled := True, rt_layer := ac_encrypt_layer cfg\<rparr>" now]
    by (simp add: rt1_def)
qed

lemma forwarder_init_match:
  assumes E: "evp_ctx_new E" and old: "contexts_ok E (rt_active (fw_rt fw))" and go: "\<not> su_stop_start su"
    and init: "forwarder_init E su cfg fw = (rc, cfg', fw')"
  shows "same_settings cfg cfg' \<and> fw_cfg fw' = cfg' \<and> tables_match E cfg' (fw_rt fw') \<and> (rc = 0 \<or> rc = -1) \<and>
    (pt_policies (rt_active (fw_rt fw)) = [] \<longrightarrow> pt_policies (rt_prev (fw_rt fw)) = [] \<longrightarrow>
       pt_policies (rt_prev (fw_rt fw')) = [])"
proof -
  obtain rc1 h cfg1 rt st where c: "init_crypto E (su_now su) (with_queue_counts cfg) (fw_rt fw) (fw_cs fw) = (rc1, h, cfg1, rt, st)"
    by (metis prod_cases5)
  note m = init_crypto_match [OF E old c]
  define fw1 where "fw1 = init_tables cfg1 ((clear_forwarder fw)\<lparr>fw_rt := rt, fw_cs := st\<rparr>)"
  have rt1: "fw_rt fw1 = rt" by (simp add: fw1_def init_tables_def)
  obtain ok1 ls where l: "init_interfaces (su_stop_lan su) (su_lan_iface su) 0 (length (ac_locals cfg1)) [] = (ok1, ls)" by fastforce
  obtain ok2 cfg2 fw2 where a: "(if ok1
      then arp_loop (su_stop_lan_arp su) (lan_arp_step su) 0 (length ls) (cfg1, fw1\<lparr>fw_locals := ls\<rparr>)
      else (False, cfg1, fw1)) = (ok2, cfg2, fw2)" by (metis prod_cases3)
  obtain ok3 ws where w: "(if ok2 then init_interfaces (su_stop_wan su) (su_wan_iface su) 0 (length (ac_wans cfg2)) []
      else (False, [])) = (ok3, ws)" by fastforce
  obtain ok4 cfg4 fw4 where b: "(let ws = map2 forget_macs (ac_wans cfg2) ws in if ok3
      then arp_loop (su_stop_wan_arp su) (wan_arp_step su) 0 (length ws) (cfg2, fw2\<lparr>fw_wans := ws\<rparr>)
      else (False, cfg2, fw2)) = (ok4, cfg4, fw4)" by (metis prod_cases3)
  have rc1: "rc1 = 0" using m by simp
  have "forwarder_init E su cfg fw = (if ok4 \<and> \<not> su_stop_end su then (0, cfg4, fw4\<lparr>fw_cfg := cfg4\<rparr>)
      else (-1, cfg4, (release_tables fw4)\<lparr>fw_cfg := cfg4\<rparr>))"
    by (simp only: forwarder_init_def Let_def c prod.case go rc1 if_False simp_thms
        fw1_def [symmetric] l a w b [unfolded Let_def])
  then have e: "cfg' = cfg4" "(rc, fw') = (if ok4 \<and> \<not> su_stop_end su then (0, fw4\<lparr>fw_cfg := cfg4\<rparr>)
      else (-1, (release_tables fw4)\<lparr>fw_cfg := cfg4\<rparr>))"
    using init by (auto split: if_splits)
  have s2: "same_settings cfg1 cfg2 \<and> fw_rt fw2 = rt"
    using arp_loop_same [OF lan_arp_step_same] a rt1 by (fastforce split: if_splits)
  have s4: "same_settings cfg2 cfg4 \<and> fw_rt fw4 = fw_rt fw2"
    using arp_loop_same [OF wan_arp_step_same] b by (fastforce simp: Let_def split: if_splits)
  have "same_settings cfg1 cfg4" using s2 s4 same_settings_trans by blast
  moreover have "same_settings cfg cfg1" using m same_settings_trans [OF with_queue_counts_same] by blast
  ultimately have "same_settings cfg cfg'" "tables_match E cfg' rt"
    using m e(1) same_settings_trans tables_match_same by blast+
  then show ?thesis using e s2 s4 m by (auto simp: release_tables_def split: if_splits)
qed

lemma forwarder_init_stopped: "su_stop_start su \<Longrightarrow> forwarder_init E su cfg fw = (-1, cfg, fw)"
  by (simp add: forwarder_init_def)

lemma unchanged_match:
  assumes "\<not> crypto_runtime_changed a b" "tables_match E a rt"
  shows "tables_match E b rt"
proof -
  have "take MAX_CRYPTO_POLICIES (ac_policies a) = take MAX_CRYPTO_POLICIES (ac_policies b)"
    using assms(1) by (intro nth_equalityI) (auto simp: crypto_runtime_changed_def same_crypto_policy_eq)
  then show ?thesis using assms by (simp add: tables_match_def crypto_runtime_changed_def)
qed

lemma same_topology_names: "same_topology a b \<longleftrightarrow>
    map lc_ifname (ac_locals a) = map lc_ifname (ac_locals b) \<and> map wc_ifname (ac_wans a) = map wc_ifname (ac_wans b)"
  unfolding same_topology_def list.rel_eq [symmetric] list.rel_map
  by (auto dest: list_all2_lengthD)

lemma reload_match:
  assumes E: "evp_ctx_new E" and m: "tables_match E (fw_cfg fw) (fw_rt fw)"
    and run: "forwarder_reload_config E cfg fw = (rc, cfg', fw')"
  shows "same_settings cfg cfg' \<and> rt_prev (fw_rt fw') = rt_prev (fw_rt fw) \<and>
    (rc = 0 \<and> same_topology (fw_cfg fw) cfg \<and> fw_cfg fw' = cfg' \<and> tables_match E cfg' (fw_rt fw') \<or>
     rc = -1 \<and> \<not> same_topology (fw_cfg fw) cfg \<and> cfg' = cfg \<and> fw' = fw)"
proof (cases "same_topology (fw_cfg fw) cfg")
  case False
  then show ?thesis using run by (auto simp: forwarder_reload_config_def)
next
  case True
  show ?thesis
  proof (cases "crypto_runtime_changed (fw_cfg fw) cfg")
    case False
    define rt where "rt = (fw_rt fw)\<lparr>rt_enabled := ac_crypto_enabled cfg, rt_layer := ac_encrypt_layer cfg\<rparr>"
    have mc: "tables_match E cfg (fw_rt fw)" by (rule unchanged_match [OF False m])
    then have rt: "rt = fw_rt fw" by (cases "fw_rt fw") (simp add: rt_def tables_match_def)
    have "rc = 0" "fw_cfg fw' = cfg'" "cfg' = cfg \<or> cfg' = with_queue_counts cfg" "fw_rt fw' = fw_rt fw"
      using run True False rt
      by (auto simp: forwarder_reload_config_def rt_def Let_def split: if_splits)
    then show ?thesis using True mc tables_match_same [OF with_queue_counts_same mc] by auto
  next
    case changed: True
    define rt where "rt = (fw_rt fw)\<lparr>rt_enabled := ac_crypto_enabled cfg, rt_layer := ac_encrypt_layer cfg\<rparr>"
    obtain t h st where r: "rebuild_crypto_runtime E (with_queue_counts cfg) (rt_active (fw_rt fw)) (fw_cs fw) = (t, h, st)"
      by (metis prod_cases3)
    have old: "contexts_ok E (rt_active (fw_rt fw))" using m by (simp add: tables_match_def)
    have e: "rc = 0" "cfg' = with_queue_counts cfg" "fw_cfg fw' = cfg'"
      "fw_rt fw' = (if ac_crypto_enabled cfg then rt\<lparr>rt_active := t\<rparr> else rt)"
      using run True changed r
      by (auto simp: forwarder_reload_config_def rt_def reload_crypto_def Let_def)
    have "tables_match E cfg' (fw_rt fw')"
    proof (cases "ac_crypto_enabled cfg")
      case True
      have "tables_match E (with_queue_counts cfg) (rt\<lparr>rt_active := t\<rparr>)"
        by (rule rebuild_match [OF E]) (use old r in \<open>auto simp: rt_def\<close>)
      then show ?thesis using True e by simp
    next
      case False
      then show ?thesis using e old by (simp add: tables_match_def rt_def)
    qed
    then show ?thesis using e True by (simp add: rt_def)
  qed
qed

text \<open>In matching tables a policy that owns its identifier is found, and what is found belongs to a
  policy of the configuration and is its own context.\<close>

lemma match_finds:
  assumes m: "tables_match E cfg rt" and on: "ac_crypto_enabled cfg" and len: "length (ac_policies cfg) \<le> MAX_CRYPTO_POLICIES"
    and owns: "owns_wire_id cfg cp" and guard: "guard cp"
  shows "pick_current_or_prev guard rt cfg now (cp_action cp) (wire_id cp) = Some (Some (cp, policy_ctx E cp))"
proof -
  from owns obtain i where i: "i < length (ac_policies cfg)" "ac_policies cfg ! i = cp"
    "serves (nat (cp_action cp)) (wire_id cp) cp" "index_spec (ac_policies cfg) (nat (cp_action cp)) (wire_id cp) = int i"
    by (rule owns_wire_idD)
  have pols: "take MAX_CRYPTO_POLICIES (ac_policies cfg) = ac_policies cfg" using len by simp
  have t: "pt_policies (rt_active rt) = ac_policies cfg" "length (pt_ready (rt_active rt)) = MAX_CRYPTO_POLICIES"
    "length (pt_ctx (rt_active rt)) = MAX_CRYPTO_POLICIES" "pt_ready (rt_active rt) ! i" "pt_ctx (rt_active rt) ! i = policy_ctx E cp"
    "pt_index (rt_active rt) = index_spec (ac_policies cfg)"
    using m on i unfolding tables_match_def pols Let_def by (auto simp: contexts_ok_def serves_def)
  then show ?thesis using i len guard
    by (simp add: pick_current_or_prev_def pick_policy_def at_eq_Some_iff [THEN iffD2])
qed

section \<open>Every queue has its thread\<close>

fun lan_body :: "thread_body \<Rightarrow> bool" where
  "lan_body Local_queue_thread_no_crypto = True"
| "lan_body Local_queue_thread_l2 = True"
| "lan_body Local_queue_thread_l3l4 = True"
| "lan_body _ = False"

text \<open>The queue from which a thread receives: whether it is on the LAN side, interface and queue.\<close>

definition thread_slot :: "thread \<Rightarrow> (bool \<times> nat \<times> nat) option" where
  "thread_slot t = map_option (\<lambda>a. (lan_body (fst t), qa_iface_idx a, qa_queue_idx a)) (snd t)"

definition queue_slots :: "thread list \<Rightarrow> (bool \<times> nat \<times> nat) list" where
  "queue_slots ts = List.map_filter thread_slot ts"

definition receive_queues :: "bool \<Rightarrow> xsk_interface list \<Rightarrow> (bool \<times> nat \<times> nat) set" where
  "receive_queues lan xs = {(lan, i, q) | i q. i < length xs \<and> q < length (xi_queues (xs ! i))}"

definition wan_workers :: "thread list \<Rightarrow> int list" where
  "wan_workers ts = List.map_filter (\<lambda>t. map_option qa_wan_worker_index (if lan_body (fst t) then None else snd t)) ts"

definition grid :: "bool \<Rightarrow> nat \<Rightarrow> nat \<Rightarrow> (nat \<Rightarrow> nat) \<Rightarrow> (bool \<times> nat \<times> nat) list" where
  "grid lan i n f = concat (map (\<lambda>j. map (\<lambda>q. (lan, i + j, q)) [0..<f j]) [0..<n])"

lemma grid_Suc: "grid lan i (Suc n) f = grid lan i n f @ map (\<lambda>q. (lan, i + n, q)) [0..<f n]"
  by (simp add: grid_def)

lemma grid_shift: "grid lan i (Suc n) f = map (\<lambda>q. (lan, i, q)) [0..<f 0] @ grid lan (Suc i) n (\<lambda>j. f (Suc j))"
  by (induction n) (simp_all add: grid_Suc, simp add: grid_def)

lemma grid_set: "set (grid lan i n f) = {(lan, i + j, q) | j q. j < n \<and> q < f j}"
  by (auto simp: grid_def)

lemma grid_distinct: "distinct (grid lan i n f)"
proof (induction n)
  case (Suc n)
  then show ?case by (auto simp: grid_Suc grid_set distinct_map inj_on_def)
qed (simp add: grid_def)

lemma queue_slots_append [simp]: "queue_slots (xs @ ys) = queue_slots xs @ queue_slots ys"
  by (simp add: queue_slots_def List.map_filter_def)

lemma wan_workers_append [simp]: "wan_workers (xs @ ys) = wan_workers xs @ wan_workers ys"
  by (simp add: wan_workers_def List.map_filter_def)

lemma queue_slots_Nil [simp]: "queue_slots [] = []" "wan_workers [] = []"
  by (simp_all add: queue_slots_def wan_workers_def List.map_filter_def)

lemma local_threads_slots:
  assumes "lan_body b"
  shows "queue_slots (local_threads b fw) = grid True 0 (length (fw_locals fw)) (\<lambda>i. length (xi_queues (fw_locals fw ! i)))"
    and "wan_workers (local_threads b fw) = []"
    and "length (local_threads b fw) = sum_list (map (\<lambda>x. length (xi_queues x)) (fw_locals fw))"
proof -
  have *: "queue_slots (concat tss) = concat (map queue_slots tss)" "wan_workers (concat tss) = concat (map wan_workers tss)" for tss
    by (induction tss) simp_all
  show "queue_slots (local_threads b fw) = grid True 0 (length (fw_locals fw)) (\<lambda>i. length (xi_queues (fw_locals fw ! i)))"
    using assms unfolding local_threads_def * grid_def
    by (auto simp: queue_slots_def thread_slot_def comp_def List.map_filter_def intro!: arg_cong [where f=concat])
  show "wan_workers (local_threads b fw) = []"
    using assms unfolding local_threads_def * by (auto simp: wan_workers_def List.map_filter_def comp_def)
  show "length (local_threads b fw) = sum_list (map (\<lambda>x. length (xi_queues x)) (fw_locals fw))"
    by (simp add: local_threads_def length_concat comp_def) (metis (no_types, lifting) map_nth map_map comp_def map_eq_conv)
qed

lemma wan_threads_slots:
  assumes "\<not> lan_body b"
  shows "queue_slots (wan_threads b i w xs) = grid False i (length xs) (\<lambda>j. length (xi_queues (xs ! j))) \<and>
    length (wan_threads b i w xs) = sum_list (map (\<lambda>x. length (xi_queues x)) xs) \<and>
    wan_workers (wan_threads b i w xs) = map (\<lambda>k. w + int k) [0..<sum_list (map (\<lambda>x. length (xi_queues x)) xs)]"
proof (induction xs arbitrary: i w)
  case Nil
  then show ?case by (simp add: grid_def)
next
  case (Cons x xs)
  let ?n = "length (xi_queues x)"
  have hd: "queue_slots (map (\<lambda>q. (b, Some \<lparr>qa_iface_idx = i, qa_queue_idx = q, qa_tx_queue_base = q, qa_wan_worker_index = w + int q\<rparr>)) [0..<?n])
      = map (\<lambda>q. (False, i, q)) [0..<?n]"
    "wan_workers (map (\<lambda>q. (b, Some \<lparr>qa_iface_idx = i, qa_queue_idx = q, qa_tx_queue_base = q, qa_wan_worker_index = w + int q\<rparr>)) [0..<?n])
      = map (\<lambda>k. w + int k) [0..<?n]"
    using assms by (simp_all add: queue_slots_def wan_workers_def thread_slot_def List.map_filter_def comp_def)
  have shift: "map (\<lambda>k. w + int n + int k) [0..<m] = map (\<lambda>k. w + int k) [n..<n + m]" for n m
    by (rule nth_equalityI) auto
  have up: "[0..<n + m] = [0..<n] @ [n..<n + m]" for n m :: nat by (rule upt_add_eq_append) simp
  note IH = Cons.IH [of "Suc i" "w + int ?n"]
  have "queue_slots (wan_threads b i w (x # xs)) = grid False i (length (x # xs)) (\<lambda>j. length (xi_queues ((x # xs) ! j)))"
    using IH by (simp only: wan_threads.simps queue_slots_append hd length_Cons grid_shift nth_Cons_0 nth_Cons_Suc)
  moreover have "length (wan_threads b i w (x # xs)) = sum_list (map (\<lambda>x. length (xi_queues x)) (x # xs))"
    using IH by simp
  moreover have "wan_workers (wan_threads b i w (x # xs)) = map (\<lambda>k. w + int k) [0..<sum_list (map (\<lambda>x. length (xi_queues x)) (x # xs))]"
    using IH by (simp only: wan_threads.simps wan_workers_append hd shift list.map(2) sum_list.Cons up map_append)
  ultimately show ?case by blast
qed

text \<open>C36: Whatever layer is configured, the threads that the forwarder starts fit the arrays that were
  allocated for them, every receive queue of every interface belongs to exactly one of them, the
  threads of the WAN side are numbered consecutively, and a worker runs exactly when the LAN
  threads hand their packets to one.\<close>

theorem every_queue_has_its_thread:
  assumes "forwarder_run alloc_ok fw = Some (n, loose, ts)"
  shows "length ts = n \<and> distinct (queue_slots ts) \<and>
    set (queue_slots ts) = receive_queues True (fw_locals fw) \<union> receive_queues False (fw_wans fw) \<and>
    wan_workers ts = map int [0..<length (wan_workers ts)] \<and>
    ((Worker_thread, None) \<in> set ts \<longleftrightarrow> rt_enabled (fw_rt fw) \<and> rt_layer (fw_rt fw) \<noteq> 2)"
proof -
  define lan wan where "lan = (if \<not> rt_enabled (fw_rt fw) then Local_queue_thread_no_crypto
      else if rt_layer (fw_rt fw) = 2 then Local_queue_thread_l2 else Local_queue_thread_l3l4)"
    and "wan = (if \<not> rt_enabled (fw_rt fw) then Wan_queue_thread_no_crypto
      else if rt_layer (fw_rt fw) = 2 then Wan_queue_thread_l2 else Wan_queue_thread_l3l4)"
  define ws :: "thread list" where "ws = (if rt_enabled (fw_rt fw) \<and> rt_layer (fw_rt fw) \<noteq> 2 then [(Worker_thread, None)] else [])"
  have bodies: "lan_body lan" "\<not> lan_body wan" by (simp_all add: lan_def wan_def)
  have ts: "n = queue_total fw + length ws" "ts = local_threads lan fw @ wan_threads wan 0 0 (fw_wans fw) @ ws"
    using assms by (auto simp: forwarder_run_def forwarder_run_no_crypto_def forwarder_run_l2_def forwarder_run_l3_def
        forwarder_run_l4_def run_threads_def lan_def wan_def ws_def split: if_splits)
  have w: "queue_slots ws = []" "wan_workers ws = []"
    by (simp_all add: ws_def queue_slots_def wan_workers_def thread_slot_def List.map_filter_def)
  have worker: "(Worker_thread, None) \<notin> set (local_threads lan fw)" "(Worker_thread, None) \<notin> set (wan_threads wan i k xs)" for i k xs
    by (auto simp: local_threads_def) (induction xs arbitrary: i k, auto)
  note l = local_threads_slots [OF bodies(1), of fw] and r = wan_threads_slots [OF bodies(2), of 0 0 "fw_wans fw"]
  have "distinct (queue_slots ts)"
    using l r w grid_distinct by (auto simp: ts(2) grid_set)
  moreover have "set (queue_slots ts) = receive_queues True (fw_locals fw) \<union> receive_queues False (fw_wans fw)"
    using l r w by (auto simp: ts(2) grid_set receive_queues_def)
  moreover have "wan_workers ts = map int [0..<length (wan_workers ts)]" using l r w by (simp add: ts(2))
  moreover have "length ts = n" using l r by (simp add: ts queue_total_def)
  moreover have "(Worker_thread, None) \<in> set ts \<longleftrightarrow> rt_enabled (fw_rt fw) \<and> rt_layer (fw_rt fw) \<noteq> 2"
    using worker by (simp add: ts(2) ws_def)
  ultimately show ?thesis by blast
qed

text \<open>A gateway with one queue on each side: two queue threads and the worker.\<close>

theorem every_queue_has_its_thread_witness:
  "\<exists>loose ts. forwarder_run True (sample_forwarder (plain_rt\<lparr>rt_enabled := True\<rparr>)) = Some (3, loose, ts) \<and>
    set (queue_slots ts) = {(True, 0, 0), (False, 0, 0)} \<and> (Worker_thread, None) \<in> set ts"
proof -
  let ?fw = "sample_forwarder (plain_rt\<lparr>rt_enabled := True\<rparr>)"
  have f: "fw_locals ?fw = [sample_link]" "fw_wans ?fw = [sample_link]" "fw_rt ?fw = plain_rt\<lparr>rt_enabled := True\<rparr>"
    "rt_layer plain_rt = 3" by (simp_all add: sample_forwarder_def plain_rt_def)
  obtain loose ts where r: "forwarder_run True ?fw = Some (3, loose, ts)"
    by (simp add: forwarder_run_def f forwarder_run_l3_def run_threads_def queue_total_def)
  have "receive_queues lan [sample_link] = {(lan, 0, 0)}" for lan by (auto simp: receive_queues_def)
  then show ?thesis using every_queue_has_its_thread [OF r] r f by (simp add: insert_commute)
qed

end
