(* ===== verification/Daemon.thy ===== *)
theory Daemon
  imports Lifecycle Merge
begin

text \<open>
  The daemon, \<^verbatim>\<open>src/main.c\<close>: the set of active profiles, the two slots of configurations, the
  forwarder thread, and what a notification of the database does.

  Notifications are handled by the main thread, the forwarder runs in a thread of its own; the
  step relation interleaves them with the signals.  The start of the forwarder is one step: the
  code lets the main thread reload while the forwarder thread is still inside \<^verbatim>\<open>forwarder_init\<close>,
  a race that this model does not show.  The forwarder keeps a pointer into the slots; it is
  the index of the slot, and \<^term>\<open>fw_cfg\<close> is what the pointer shows.
\<close>

section \<open>Identifiers\<close>

abbreviation (input) INT_MAX :: int where "INT_MAX \<equiv> 2 ^ 31 - 1"
abbreviation (input) MAX_ACTIVE_PROFILE_IDS :: nat where "MAX_ACTIVE_PROFILE_IDS \<equiv> 32"

definition parse_notify_profile_id :: "string option \<Rightarrow> int" where
  "parse_notify_profile_id payload = (case payload of
     None \<Rightarrow> -1
   | Some s \<Rightarrow>
       if s = [] then -1
       else let (v, rest) = strtol s
         in if rest \<noteq> [] \<or> v \<le> 0 \<or> v > INT_MAX then -1 else v)"

definition parse_profile_id_token :: "string \<Rightarrow> int option" where
  "parse_profile_id_token token =
     (if token = [] then None
      else let (v, rest) = strtol token
        in if rest \<noteq> [] \<or> v \<le> 0 \<or> v > INT_MAX then None else Some v)"

text \<open>The arguments behind the name of the program; \<^term>\<open>None\<close> is the return value -1.\<close>

fun parse_args :: "string list \<Rightarrow> int \<Rightarrow> int option" where
  "parse_args [] out_id = Some out_id"
| "parse_args (arg # args) out_id =
     (if arg = ''-id'' \<or> arg = ''--id'' then
        if out_id \<ge> 0 then None
        else (case args of
            [] \<Rightarrow> None
          | token # rest \<Rightarrow>
              (case parse_profile_id_token token of None \<Rightarrow> None | Some v \<Rightarrow> parse_args rest v))
      else if take 4 arg = ''-id='' \<or> take 5 arg = ''--id='' then
        if out_id \<ge> 0 then None
        else (let id_str = (if arg ! 1 = CHR ''-'' then tl (dropWhile (\<lambda>c. c \<noteq> CHR ''='') arg) else drop 4 arg)
              in case parse_profile_id_token id_str of None \<Rightarrow> None | Some v \<Rightarrow> parse_args args v)
      else None)"

definition parse_startup_profile_id :: "string list \<Rightarrow> int option" where
  "parse_startup_profile_id args = parse_args args (-1)"

text \<open>1 for a new identifier, 0 for a known one, -1 for a full set.\<close>

definition active_ids_add :: "int \<Rightarrow> int list \<Rightarrow> int \<times> int list" where
  "active_ids_add pid ids =
     (if pid \<in> set ids then (0, ids)
      else if length ids \<ge> MAX_ACTIVE_PROFILE_IDS then (-1, ids)
      else (1, ids @ [pid]))"

definition active_ids_remove :: "int \<Rightarrow> int list \<Rightarrow> bool \<times> int list" where
  "active_ids_remove pid ids = (pid \<in> set ids, filter (\<lambda>x. x \<noteq> pid) ids)"

section \<open>State\<close>

datatype thread_state = No_thread | Created | Forwarding | Ended

text \<open>\<^verbatim>\<open>dm_forwarder_runs\<close> is the variable \<^verbatim>\<open>running\<close> of \<^verbatim>\<open>forwarder.c\<close>, \<^verbatim>\<open>dm_running\<close> the field of
  \<^verbatim>\<open>runtime_state\<close>; \<^verbatim>\<open>dm_fwd_cfg\<close> is the slot that \<^verbatim>\<open>fwd->cfg\<close> points to.\<close>

record daemon =
  dm_forwarder_runs :: bool
  dm_stop_requested :: bool
  dm_has_thread :: bool
  dm_running :: bool
  dm_slots :: "app_config list"
  dm_active_slot :: nat
  dm_fwd_cfg :: "nat option"
  dm_fw :: forwarder
  dm_thread :: thread_state
  dm_ids :: "int list"
  dm_exited :: bool

definition slot_in_use :: "daemon \<Rightarrow> app_config" where
  "slot_in_use d = dm_slots d ! dm_active_slot d"

text \<open>What the database and the system answer while one notification is handled.\<close>

record notify_env =
  nt_exists :: bool
  nt_rows :: "int \<Rightarrow> profile_rows"
  nt_calloc_ok :: bool
  nt_create_ok :: bool

section \<open>The main thread\<close>

definition runtime_start :: "bool \<Rightarrow> app_config \<Rightarrow> daemon \<Rightarrow> int \<times> daemon" where
  "runtime_start create_ok cfg d =
     (let d = d\<lparr>dm_active_slot := 0, dm_slots := (dm_slots d)[0 := cfg], dm_running := False\<rparr>
      in if \<not> create_ok then (-1, d) else (0, d\<lparr>dm_has_thread := True, dm_thread := Created\<rparr>))"

definition reload_next_slot :: "evp \<Rightarrow> app_config \<Rightarrow> daemon \<Rightarrow> int \<times> daemon" where
  "reload_next_slot E merged d =
     (let next_slot = 1 - dm_active_slot d; d = d\<lparr>dm_slots := (dm_slots d)[next_slot := merged]\<rparr>
      in case dm_fwd_cfg d of
           None \<Rightarrow> (-1, d)
         | Some k \<Rightarrow>
             let (rc, cfg, fw) = forwarder_reload_config E merged ((dm_fw d)\<lparr>fw_cfg := dm_slots d ! k\<rparr>);
                 d = d\<lparr>dm_slots := (dm_slots d)[next_slot := cfg], dm_fw := fw\<rparr>
             in if rc = 0 then (0, d\<lparr>dm_fwd_cfg := Some next_slot, dm_active_slot := next_slot\<rparr>) else (-1, d))"

definition apply_active_configs ::
    "evp \<Rightarrow> (string \<Rightarrow> buf) \<Rightarrow> notify_env \<Rightarrow> int list \<Rightarrow> daemon \<Rightarrow> (int \<times> daemon) option" where
  "apply_active_configs E sha256 ne ids d =
     (if \<not> nt_calloc_ok ne then Some (-1, d)
      else case build_merged_config sha256 (nt_rows ne) ids of
          None \<Rightarrow> None
        | Some None \<Rightarrow> Some (-1, d)
        | Some (Some merged) \<Rightarrow>
            Some (if \<not> dm_has_thread d then runtime_start (nt_create_ok ne) merged d
                  else reload_next_slot E merged d))"

text \<open>
  Joining the forwarder thread lets it come to its end: before the start it sees that it should
  stop, and a forwarder that runs leaves its loop and cleans up.
\<close>

definition thread_finish :: "daemon \<Rightarrow> daemon" where
  "thread_finish d = (case dm_thread d of
     Forwarding \<Rightarrow> d\<lparr>dm_fw := forwarder_cleanup (dm_fw d), dm_running := False, dm_thread := Ended\<rparr>
   | Created \<Rightarrow> d\<lparr>dm_running := False, dm_thread := Ended\<rparr>
   | _ \<Rightarrow> d)"

definition runtime_stop_forwarder :: "daemon \<Rightarrow> daemon" where
  "runtime_stop_forwarder d =
     (if \<not> dm_has_thread d then d
      else let d = thread_finish (d\<lparr>dm_forwarder_runs := False\<rparr>)
        in d\<lparr>dm_has_thread := False, dm_running := False, dm_thread := No_thread\<rparr>)"

definition load_profile_and_run ::
    "evp \<Rightarrow> (string \<Rightarrow> buf) \<Rightarrow> notify_env \<Rightarrow> int \<Rightarrow> daemon \<Rightarrow> (int \<times> daemon) option" where
  "load_profile_and_run E sha256 ne pid d =
     (let d = (if dm_has_thread d then d else d\<lparr>dm_ids := []\<rparr>);
          (added, ids) = active_ids_add pid (dm_ids d)
      in if added < 0 then Some (-1, d)
         else if added = 0 then Some (1, d)
         else let d = d\<lparr>dm_ids := ids\<rparr>
           in case apply_active_configs E sha256 ne ids d of
                None \<Rightarrow> None
              | Some (rc, d) \<Rightarrow>
                  Some (if rc \<noteq> 0 then (-1, d\<lparr>dm_ids := snd (active_ids_remove pid (dm_ids d))\<rparr>) else (0, d)))"

definition handle_profile_notify ::
    "evp \<Rightarrow> (string \<Rightarrow> buf) \<Rightarrow> notify_env \<Rightarrow> int \<Rightarrow> daemon \<Rightarrow> (int \<times> daemon) option" where
  "handle_profile_notify E sha256 ne pid d =
     (if nt_exists ne
      then case load_profile_and_run E sha256 ne pid d of
          None \<Rightarrow> None
        | Some (lr, d) \<Rightarrow> Some (if lr = 1 then 0 else if lr \<noteq> 0 then -1 else 0, d)
      else let (removed, ids) = active_ids_remove pid (dm_ids d)
        in if \<not> removed then Some (0, d)
           else let d = d\<lparr>dm_ids := ids\<rparr>
             in if ids = [] then Some (0, runtime_stop_forwarder d)
                else case apply_active_configs E sha256 ne ids d of
                    None \<Rightarrow> None
                  | Some (rc, d) \<Rightarrow> Some (if rc \<noteq> 0 then -1 else 0, d))"

text \<open>One notification of the main loop.\<close>

definition main_notify ::
    "evp \<Rightarrow> (string \<Rightarrow> buf) \<Rightarrow> notify_env \<Rightarrow> string option \<Rightarrow> daemon \<Rightarrow> daemon option" where
  "main_notify E sha256 ne payload d =
     (let pid = parse_notify_profile_id payload
      in if pid \<le> 0 then Some d else map_option snd (handle_profile_notify E sha256 ne pid d))"

section \<open>Threads and signals\<close>

text \<open>
  The forwarder thread until it forwards or ends.  \<open>sig\<close>: a signal arrives before the last look at
  \<^verbatim>\<open>running\<close>; \<open>late\<close>: one arrives between that look and the assignment in \<^verbatim>\<open>forwarder_run\<close>, which
  then undoes it.
\<close>

definition thread_start :: "evp \<Rightarrow> setup_env \<Rightarrow> bool \<Rightarrow> bool \<Rightarrow> bool \<Rightarrow> daemon \<Rightarrow> daemon" where
  "thread_start E su alloc_ok sig late d =
     (let (rc, cfg, fw) = forwarder_init E su (slot_in_use d) (dm_fw d);
          d = d\<lparr>dm_slots := (dm_slots d)[dm_active_slot d := cfg], dm_fw := fw,
                dm_fwd_cfg := (if su_stop_start su then dm_fwd_cfg d else Some (dm_active_slot d)),
                dm_forwarder_runs := dm_forwarder_runs d \<and> \<not> sig, dm_stop_requested := dm_stop_requested d \<or> sig\<rparr>
      in if rc \<noteq> 0 then d\<lparr>dm_running := False, dm_thread := Ended\<rparr>
         else if \<not> dm_forwarder_runs d
         then d\<lparr>dm_fw := forwarder_cleanup fw, dm_running := False, dm_thread := Ended\<rparr>
         else let d = d\<lparr>dm_stop_requested := dm_stop_requested d \<or> late\<rparr>
           in (case forwarder_run alloc_ok fw of
                 None \<Rightarrow> d\<lparr>dm_fw := forwarder_cleanup fw, dm_running := False, dm_thread := Ended\<rparr>
               | Some _ \<Rightarrow> d\<lparr>dm_running := True, dm_thread := Forwarding\<rparr>))"

definition on_stop_signal :: "daemon \<Rightarrow> daemon" where
  "on_stop_signal d = d\<lparr>dm_stop_requested := True, dm_forwarder_runs := False\<rparr>"

text \<open>A stop that the code sees during the set-up comes from a signal.\<close>

definition stops_seen :: "setup_env \<Rightarrow> bool" where
  "stops_seen su \<longleftrightarrow> su_stop_end su \<or>
     (\<exists>i < MAX_INTERFACES. su_stop_lan su i \<or> su_stop_lan_arp su i \<or> su_stop_wan su i \<or> su_stop_wan_arp su i)"

inductive daemon_step :: "evp \<Rightarrow> (string \<Rightarrow> buf) \<Rightarrow> daemon \<Rightarrow> daemon \<Rightarrow> bool" for E sha256 where
  notify: "\<not> dm_exited d \<Longrightarrow> main_notify E sha256 ne payload d = Some d' \<Longrightarrow> daemon_step E sha256 d d'"
| signal: "\<not> dm_exited d \<Longrightarrow> daemon_step E sha256 d (on_stop_signal d)"
| start: "dm_thread d = Created \<Longrightarrow> su_stop_start su = (\<not> dm_forwarder_runs d) \<Longrightarrow> (stops_seen su \<longrightarrow> sig) \<Longrightarrow>
    daemon_step E sha256 d (thread_start E su alloc_ok sig late d)"
| finish: "dm_thread d = Forwarding \<Longrightarrow> \<not> dm_forwarder_runs d \<Longrightarrow> daemon_step E sha256 d (thread_finish d)"
| shutdown: "\<not> dm_exited d \<Longrightarrow> dm_stop_requested d \<Longrightarrow>
    daemon_step E sha256 d ((runtime_stop_forwarder d)\<lparr>dm_exited := True\<rparr>)"

abbreviation daemon_steps :: "evp \<Rightarrow> (string \<Rightarrow> buf) \<Rightarrow> daemon \<Rightarrow> daemon \<Rightarrow> bool" where
  "daemon_steps E sha256 \<equiv> (daemon_step E sha256)\<^sup>*\<^sup>*"

text \<open>The process when \<^verbatim>\<open>main\<close> begins: static variables and the memory from \<^verbatim>\<open>calloc\<close> are zero.\<close>

definition zero_ctx :: packet_crypto_ctx where
  "zero_ctx = \<lparr>pc_master_key = replicate 32 0, pc_keys = replicate 3 (replicate 32 0), pc_initialized = False\<rparr>"

definition zero_table :: policy_table where
  "zero_table = \<lparr>pt_policies = [], pt_ctx = replicate MAX_CRYPTO_POLICIES zero_ctx,
     pt_ready = replicate MAX_CRYPTO_POLICIES False, pt_index = (\<lambda>a id. 0)\<rparr>"

definition zero_config :: app_config where
  "zero_config = empty_config\<lparr>global_frame_size := 0, global_batch_size := 0\<rparr>"

definition zero_arp :: arp_cache where
  "zero_arp = \<lparr>arp_entries = replicate ARP_CACHE_SIZE \<lparr>ae_ip = 0, ae_mac = replicate 6 0, ae_last_seen_sec = 0\<rparr>,
     arp_raw_fd = 0, arp_ifindex = 0, arp_ifname = [], arp_if_mac = replicate 6 0, arp_if_ip = 0,
     arp_persist_dirty = False\<rparr>"

definition forwarder_zero :: forwarder where
  "forwarder_zero = \<lparr>fw_cfg = zero_config,
     fw_rt = \<lparr>rt_enabled = False, rt_layer = 0, rt_base = zero_ctx, rt_active = zero_table, rt_prev = zero_table,
              rt_prev_grace_until_ms = 0\<rparr>,
     fw_cs = crypto_state_init, fw_flows = flow_table_init None 0 0,
     fw_pins = \<lparr>pin_inited = False, pin_buckets = (\<lambda>_. [])\<rparr>, fw_arp = replicate MAX_INTERFACES zero_arp,
     fw_wan_arp = replicate MAX_INTERFACES zero_arp, fw_frag_l2 = frag_table_init, fw_frag_l3 = frag_table_init,
     fw_frag_l4 = frag_table_init, fw_pkt_id = 0, fw_locals = [], fw_wans = [], fw_arp_requests = [],
     fw_local_to_wan = 0, fw_wan_to_local = 0, fw_total_dropped = 0, fw_dropped_bad_ip = 0,
     fw_dropped_no_local_match = 0, fw_dropped_local_tx_fail = 0\<rparr>"

definition daemon_init :: daemon where
  "daemon_init = \<lparr>dm_forwarder_runs = True, dm_stop_requested = False, dm_has_thread = False, dm_running = False,
     dm_slots = [zero_config, zero_config], dm_active_slot = 0, dm_fwd_cfg = None, dm_fw = forwarder_zero,
     dm_thread = No_thread, dm_ids = [], dm_exited = False\<rparr>"

section \<open>A forwarder that has ended never comes back\<close>

definition dead :: "daemon \<Rightarrow> bool" where
  "dead d \<longleftrightarrow> dm_thread d \<noteq> Forwarding \<and> (dm_has_thread d \<longleftrightarrow> dm_thread d \<noteq> No_thread) \<and>
     (dm_thread d = Ended \<or> \<not> dm_forwarder_runs d)"

text \<open>What the operations of the main thread leave alone.\<close>

lemma reload_next_slot_control:
  assumes "reload_next_slot E merged d = (rc, d')"
  shows "dm_thread d' = dm_thread d \<and> dm_has_thread d' = dm_has_thread d \<and> dm_forwarder_runs d' = dm_forwarder_runs d \<and>
    dm_ids d' = dm_ids d"
  using assms by (auto simp: reload_next_slot_def Let_def split: option.splits prod.splits if_splits)

lemma apply_active_configs_control:
  assumes "apply_active_configs E sha256 ne ids d = Some (rc, d')"
  shows "dm_forwarder_runs d' = dm_forwarder_runs d \<and> dm_ids d' = dm_ids d \<and>
    (dm_has_thread d' = dm_has_thread d \<and> dm_thread d' = dm_thread d \<or>
     \<not> dm_has_thread d \<and> dm_has_thread d' \<and> dm_thread d' = Created)"
proof (cases "nt_calloc_ok ne")
  case True
  then obtain r where r: "build_merged_config sha256 (nt_rows ne) ids = Some r"
    using assms by (auto simp: apply_active_configs_def split: option.splits)
  show ?thesis
  proof (cases r)
    case None
    then show ?thesis using assms True r by (auto simp: apply_active_configs_def)
  next
    case (Some merged)
    then have e: "(if \<not> dm_has_thread d then runtime_start (nt_create_ok ne) merged d
        else reload_next_slot E merged d) = (rc, d')"
      using assms True r by (simp add: apply_active_configs_def)
    show ?thesis
    proof (cases "dm_has_thread d")
      case True
      then show ?thesis using e reload_next_slot_control [of E merged d rc d'] by simp
    next
      case False
      then show ?thesis using e by (auto simp: runtime_start_def Let_def split: if_splits)
    qed
  qed
qed (use assms in \<open>auto simp: apply_active_configs_def\<close>)

lemma runtime_stop_control:
  "\<not> dm_forwarder_runs (runtime_stop_forwarder d) \<or> runtime_stop_forwarder d = d \<and> \<not> dm_has_thread d"
  "dm_has_thread d \<longleftrightarrow> dm_thread d \<noteq> No_thread \<Longrightarrow>
    dm_thread (runtime_stop_forwarder d) = No_thread \<and> \<not> dm_has_thread (runtime_stop_forwarder d)"
  "dm_ids (runtime_stop_forwarder d) = dm_ids d"
  by (auto simp: runtime_stop_forwarder_def thread_finish_def Let_def split: thread_state.split)

lemma apply_active_configs_dead:
  "apply_active_configs E sha256 ne ids d = Some (rc, d') \<Longrightarrow> dead d \<Longrightarrow> dead d'"
  using apply_active_configs_control [of E sha256 ne ids d rc d'] by (auto simp: dead_def)

text \<open>A property of the state that the identifiers do not touch, and that applying a configuration and
  stopping keep, is kept by every notification.\<close>

lemma main_notify_keeps:
  assumes step: "main_notify E sha256 ne payload d = Some d'" and P: "P d"
    and ids: "\<And>d pids. P d \<Longrightarrow> P (d\<lparr>dm_ids := pids\<rparr>)"
    and apply_keeps: "\<And>d ids rc d'. P d \<Longrightarrow> apply_active_configs E sha256 ne ids d = Some (rc, d') \<Longrightarrow> P d'"
    and stop: "\<And>d. P d \<Longrightarrow> P (runtime_stop_forwarder d)"
  shows "P d'"
proof -
  let ?pid = "parse_notify_profile_id payload"
  show ?thesis
  proof (cases "?pid \<le> 0")
    case True
    then show ?thesis using step P by (simp add: main_notify_def)
  next
    case False
    then obtain rc where h: "handle_profile_notify E sha256 ne ?pid d = Some (rc, d')"
      using step by (auto simp: main_notify_def)
    show ?thesis
    proof (cases "nt_exists ne")
      case True
      then obtain lr where l: "load_profile_and_run E sha256 ne ?pid d = Some (lr, d')"
        using h by (auto simp: handle_profile_notify_def split: option.splits)
      define d1 where "d1 = (if dm_has_thread d then d else d\<lparr>dm_ids := []\<rparr>)"
      have "P d1" using P ids by (simp add: d1_def)
      then have ap: "P d'" if "apply_active_configs E sha256 ne pids (d1\<lparr>dm_ids := pids\<rparr>) = Some (rc, d')" for pids rc d'
        by (rule apply_keeps [OF ids that])
      show ?thesis
        using l \<open>P d1\<close> unfolding load_profile_and_run_def Let_def d1_def [symmetric]
        by (auto split: prod.splits option.splits if_splits intro: ids dest: ap)
    next
      case False
      have ap: "P d'" if "apply_active_configs E sha256 ne pids (d\<lparr>dm_ids := pids\<rparr>) = Some (rc, d')" for pids rc d'
        by (rule apply_keeps [OF ids that]) (rule P)
      show ?thesis using h False P
        by (auto simp: handle_profile_notify_def Let_def split: prod.splits option.splits if_splits intro: ids stop dest: ap)
    qed
  qed
qed

lemma runtime_stop_dead: "dead d \<Longrightarrow> dead (runtime_stop_forwarder d)"
  using runtime_stop_control [of d] by (auto simp: dead_def)

lemma dead_step:
  assumes "daemon_step E sha256 d d'" "dead d"
  shows "dead d'"
  using assms
proof cases
  case (notify ne payload)
  show ?thesis
    by (rule main_notify_keeps [OF notify(2), of dead])
      (use assms(2) apply_active_configs_dead runtime_stop_dead in \<open>auto simp: dead_def [of "_\<lparr>dm_ids := _\<rparr>"] dead_def [symmetric]\<close>)
next
  case (start su sig alloc_ok late)
  then have "su_stop_start su" using assms(2) by (auto simp: dead_def)
  then show ?thesis using assms(2) start by (simp add: thread_start_def forwarder_init_stopped dead_def)
next
  case finish
  then show ?thesis using assms(2) by (simp add: dead_def)
next
  case shutdown
  then show ?thesis using assms(2) runtime_stop_control [of d] by (auto simp: dead_def)
qed (use assms(2) in \<open>simp add: dead_def on_stop_signal_def\<close>)

lemma dead_steps:
  assumes "daemon_steps E sha256 d d'" "dead d"
  shows "dead d'"
  using assms by (induction rule: rtranclp_induct) (auto intro: dead_step)

section \<open>The invariant\<close>

definition ids_ok :: "int list \<Rightarrow> bool" where
  "ids_ok ids \<longleftrightarrow> distinct ids \<and> length ids \<le> MAX_ACTIVE_PROFILE_IDS"

definition good_config :: "app_config \<Rightarrow> bool" where
  "good_config cfg \<longleftrightarrow> length (ac_policies cfg) \<le> MAX_CRYPTO_POLICIES \<and> ids_unique (ac_policies cfg)"

definition daemon_inv :: "evp \<Rightarrow> daemon \<Rightarrow> bool" where
  "daemon_inv E d \<longleftrightarrow>
     length (dm_slots d) = 2 \<and> dm_active_slot d < 2 \<and>
     (dm_has_thread d \<longleftrightarrow> dm_thread d \<noteq> No_thread) \<and>
     pt_policies (rt_prev (fw_rt (dm_fw d))) = [] \<and> contexts_ok E (rt_active (fw_rt (dm_fw d))) \<and>
     (dm_forwarder_runs d \<and> (dm_thread d = No_thread \<or> dm_thread d = Created) \<longrightarrow>
        dm_fwd_cfg d = None \<and> pt_policies (rt_active (fw_rt (dm_fw d))) = []) \<and>
     (dm_thread d = Created \<longrightarrow> good_config (slot_in_use d)) \<and>
     (dm_thread d = Forwarding \<longrightarrow> dm_fwd_cfg d = Some (dm_active_slot d) \<and> good_config (slot_in_use d) \<and>
        tables_match E (slot_in_use d) (fw_rt (dm_fw d)))"

lemma good_config_same: "same_settings a b \<Longrightarrow> good_config a \<Longrightarrow> good_config b"
  by (simp add: good_config_def same_settings_def)

lemma merged_good:
  assumes "build_merged_config sha256 db ids = Some (Some cfg)"
  shows "good_config cfg"
proof -
  obtain cs where "merged_ok cfg" by (rule build_merged_ok [OF assms]) (rule that)
  then show ?thesis by (simp add: good_config_def merged_ok_def config_wf_def)
qed

text \<open>A reload keeps the contexts right even where the tables did not match before.\<close>

lemma reload_contexts:
  assumes E: "evp_ctx_new E" and old: "contexts_ok E (rt_active (fw_rt fw))"
    and run: "forwarder_reload_config E cfg fw = (rc, cfg', fw')"
  shows "contexts_ok E (rt_active (fw_rt fw')) \<and> rt_prev (fw_rt fw') = rt_prev (fw_rt fw)"
proof -
  obtain t h st where r: "rebuild_crypto_runtime E (with_queue_counts cfg) (rt_active (fw_rt fw)) (fw_cs fw) = (t, h, st)"
    by (metis prod_cases3)
  then have "contexts_ok E t" using rebuild_computes_spec' [OF E old] by (blast intro: runtime_table_contexts)
  then show ?thesis using run r old
    by (auto simp: forwarder_reload_config_def reload_crypto_def Let_def split: if_splits)
qed

lemma cleanup_rt: "rt_active (fw_rt (forwarder_cleanup fw)) = rt_active (fw_rt fw)"
    "rt_prev (fw_rt (forwarder_cleanup fw)) = rt_prev (fw_rt fw)"
  by (simp_all add: forwarder_cleanup_def release_tables_def split: prod.split)

text \<open>The slot that is written is never the one in use.\<close>

lemma reload_next_slot_inv:
  assumes E: "evp_ctx_new E" and inv: "daemon_inv E d" and good: "good_config merged"
    and run: "reload_next_slot E merged d = (rc, d')" and th: "dm_has_thread d"
  shows "daemon_inv E d'"
proof -
  let ?nx = "1 - dm_active_slot d"
  have "dm_active_slot d < 2" using inv by (simp add: daemon_inv_def)
  then have nx: "?nx < 2" "?nx \<noteq> dm_active_slot d" by arith+
  have len: "length (dm_slots d) = 2" using inv by (simp add: daemon_inv_def)
  define s where "s = (dm_slots d)[?nx := merged]"
  show ?thesis
  proof (cases "dm_fwd_cfg d")
    case None
    then have "d' = d\<lparr>dm_slots := s\<rparr>" using run by (simp add: reload_next_slot_def Let_def s_def)
    then show ?thesis using inv nx None by (auto simp: daemon_inv_def slot_in_use_def s_def)
  next
    case (Some k)
    obtain rc1 cfg fw where r1: "forwarder_reload_config E merged ((dm_fw d)\<lparr>fw_cfg := s ! k\<rparr>) = (rc1, cfg, fw)"
      by (metis prod_cases3)
    then have r: "forwarder_reload_config E merged ((dm_fw d)\<lparr>fw_cfg := s ! k\<rparr>) = (rc1, cfg, fw)"
        "d' = (if rc1 = 0 then d\<lparr>dm_slots := s[?nx := cfg], dm_fw := fw, dm_fwd_cfg := Some ?nx, dm_active_slot := ?nx\<rparr>
               else d\<lparr>dm_slots := s[?nx := cfg], dm_fw := fw\<rparr>)"
      using run Some by (auto simp: reload_next_slot_def Let_def s_def)
    have c: "contexts_ok E (rt_active (fw_rt fw)) \<and> rt_prev (fw_rt fw) = rt_prev (fw_rt (dm_fw d))"
      using reload_contexts [OF E _ r(1)] inv by (simp add: daemon_inv_def)
    have slots: "s[?nx := cfg] ! ?nx = cfg" "s[?nx := cfg] ! dm_active_slot d = slot_in_use d" "length (s[?nx := cfg]) = 2"
      using nx len by (simp_all add: s_def slot_in_use_def)
    have runs: "dm_forwarder_runs d \<longrightarrow> dm_thread d = Forwarding \<or> dm_thread d = Ended"
      using inv Some th by (cases "dm_thread d") (auto simp: daemon_inv_def)
    have same: "same_settings merged cfg"
      using r(1) by (auto simp: forwarder_reload_config_def Let_def split: if_splits)
    have cfg_good: "good_config cfg" by (rule good_config_same [OF same good])
    have fwd: "dm_thread d = Forwarding \<longrightarrow> (rc1 = 0 \<longrightarrow> tables_match E cfg (fw_rt fw)) \<and>
        (rc1 \<noteq> 0 \<longrightarrow> tables_match E (slot_in_use d) (fw_rt fw))"
    proof
      assume f: "dm_thread d = Forwarding"
      then have "s ! k = slot_in_use d" using inv Some nx by (auto simp: daemon_inv_def s_def slot_in_use_def)
      then have m: "tables_match E (fw_cfg ((dm_fw d)\<lparr>fw_cfg := s ! k\<rparr>)) (fw_rt ((dm_fw d)\<lparr>fw_cfg := s ! k\<rparr>))"
        using inv f by (simp add: daemon_inv_def)
      show "(rc1 = 0 \<longrightarrow> tables_match E cfg (fw_rt fw)) \<and> (rc1 \<noteq> 0 \<longrightarrow> tables_match E (slot_in_use d) (fw_rt fw))"
        using reload_match [OF E m r(1)] inv f by (auto simp: daemon_inv_def)
    qed
    show ?thesis
    proof (cases "rc1 = 0")
      case True
      then show ?thesis using inv c slots runs cfg_good fwd r(2) nx th
        by (auto simp: daemon_inv_def slot_in_use_def)
    next
      case False
      then show ?thesis using inv c slots runs fwd r(2)
        by (auto simp: daemon_inv_def slot_in_use_def)
    qed
  qed
qed

lemma apply_active_configs_inv:
  assumes E: "evp_ctx_new E" and inv: "daemon_inv E d"
    and run: "apply_active_configs E sha256 ne ids d = Some (rc, d')"
  shows "daemon_inv E d'"
proof -
  consider "d' = d" | merged where "build_merged_config sha256 (nt_rows ne) ids = Some (Some merged)"
      "(if \<not> dm_has_thread d then runtime_start (nt_create_ok ne) merged d else reload_next_slot E merged d) = (rc, d')"
    using run by (auto simp: apply_active_configs_def split: if_splits option.splits)
  then show ?thesis
  proof cases
    case 2
    note good = merged_good [OF 2(1)]
    show ?thesis
    proof (cases "dm_has_thread d")
      case True
      then show ?thesis using reload_next_slot_inv [OF E inv good] 2(2) by simp
    next
      case False
      then show ?thesis using 2(2) inv good
        by (cases "dm_slots d") (auto simp: runtime_start_def daemon_inv_def slot_in_use_def Let_def split: if_splits)
    qed
  qed (use inv in simp)
qed

lemma thread_start_inv:
  assumes E: "evp_ctx_new E" and inv: "daemon_inv E d" and created: "dm_thread d = Created"
    and stop: "su_stop_start su = (\<not> dm_forwarder_runs d)"
  shows "daemon_inv E (thread_start E su alloc_ok sig late d)"
proof (cases "dm_forwarder_runs d")
  case False
  then show ?thesis using inv created stop
    by (simp add: thread_start_def forwarder_init_stopped daemon_inv_def slot_in_use_def)
next
  case True
  obtain rc cfg fw where i: "forwarder_init E su (slot_in_use d) (dm_fw d) = (rc, cfg, fw)" by (metis prod_cases3)
  have first: "pt_policies (rt_active (fw_rt (dm_fw d))) = []" "pt_policies (rt_prev (fw_rt (dm_fw d))) = []"
    "contexts_ok E (rt_active (fw_rt (dm_fw d)))" using inv created True by (simp_all add: daemon_inv_def)
  have m: "same_settings (slot_in_use d) cfg" "tables_match E cfg (fw_rt fw)" "pt_policies (rt_prev (fw_rt fw)) = []"
    using forwarder_init_match [OF E first(3) _ i] first(1,2) stop True by auto
  have good: "good_config cfg" using good_config_same [OF m(1)] inv created by (simp add: daemon_inv_def)
  have slot: "(dm_slots d)[dm_active_slot d := cfg] ! dm_active_slot d = cfg" using inv by (simp add: daemon_inv_def)
  have "contexts_ok E (rt_active (fw_rt fw))" using m(2) by (simp add: tables_match_def)
  then show ?thesis using inv created m good slot stop True
    unfolding thread_start_def i Let_def prod.case
    by (cases "forwarder_run alloc_ok fw") (simp_all add: daemon_inv_def slot_in_use_def cleanup_rt)
qed

lemma thread_finish_inv: "daemon_inv E d \<Longrightarrow> daemon_inv E (thread_finish d)"
  by (cases "dm_thread d") (simp_all add: thread_finish_def daemon_inv_def slot_in_use_def cleanup_rt)

lemma runtime_stop_inv: "daemon_inv E d \<Longrightarrow> daemon_inv E (runtime_stop_forwarder d)"
  by (cases "dm_thread d")
    (simp_all add: runtime_stop_forwarder_def thread_finish_def daemon_inv_def slot_in_use_def cleanup_rt Let_def)

lemma daemon_inv_ids: "daemon_inv E (d\<lparr>dm_ids := pids\<rparr>) = daemon_inv E d"
    "daemon_inv E (d\<lparr>dm_exited := b\<rparr>) = daemon_inv E d"
  by (simp_all add: daemon_inv_def slot_in_use_def)

lemma daemon_step_inv:
  assumes E: "evp_ctx_new E" and step: "daemon_step E sha256 d d'" and inv: "daemon_inv E d"
  shows "daemon_inv E d'"
  using step
proof cases
  case (notify ne payload)
  show ?thesis
    by (rule main_notify_keeps [OF notify(2), of "daemon_inv E"], rule inv)
      (simp_all add: daemon_inv_ids apply_active_configs_inv [OF E] runtime_stop_inv)
next
  case signal
  then show ?thesis using inv by (simp add: on_stop_signal_def daemon_inv_def slot_in_use_def)
next
  case (start su sig alloc_ok late)
  then show ?thesis using thread_start_inv [OF E inv] by simp
next
  case finish
  then show ?thesis using thread_finish_inv [OF inv] by simp
next
  case shutdown
  then show ?thesis using runtime_stop_inv [OF inv] by (simp add: daemon_inv_ids)
qed

lemma daemon_init_inv: "daemon_inv E daemon_init"
  by (simp add: daemon_inv_def daemon_init_def forwarder_zero_def zero_table_def contexts_ok_def)

lemma daemon_reachable_inv:
  assumes "evp_ctx_new E" "daemon_steps E sha256 daemon_init d"
  shows "daemon_inv E d"
  using assms(2) by (induction rule: rtranclp_induct) (auto intro: daemon_init_inv daemon_step_inv [OF assms(1)])

text \<open>The set of active identifiers.\<close>

lemma active_ids_add_ok: "ids_ok ids \<Longrightarrow> ids_ok (snd (active_ids_add pid ids))"
  by (simp add: ids_ok_def active_ids_add_def)

lemma active_ids_remove_ok: "ids_ok ids \<Longrightarrow> ids_ok (snd (active_ids_remove pid ids))"
  using length_filter_le [of "\<lambda>x. x \<noteq> pid" ids] unfolding ids_ok_def active_ids_remove_def snd_conv
  by (metis distinct_filter le_trans)

lemma active_ids_undo:
  assumes "active_ids_add pid ids = (1, ids')"
  shows "snd (active_ids_remove pid ids') = ids"
  using assms by (auto simp: active_ids_add_def active_ids_remove_def filter_id_conv split: if_splits)

section \<open>Loading\<close>

lemma first_load:
  assumes "\<not> dm_has_thread d" "nt_exists ne" "nt_calloc_ok ne" "nt_create_ok ne"
    and "build_merged_config sha256 (nt_rows ne) [pid] = Some (Some merged)"
  shows "handle_profile_notify E sha256 ne pid d = Some (0, d\<lparr>dm_ids := [pid], dm_active_slot := 0,
    dm_slots := (dm_slots d)[0 := merged], dm_running := False, dm_has_thread := True, dm_thread := Created\<rparr>)"
  using assms by (simp add: handle_profile_notify_def load_profile_and_run_def active_ids_add_def apply_active_configs_def
      runtime_start_def Let_def)

text \<open>Setting up the interfaces of a machine on which everything works but ARP.\<close>

definition quiet_setup :: setup_env where
  "quiet_setup = \<lparr>su_stop_start = False, su_stop_lan = (\<lambda>_. False), su_stop_lan_arp = (\<lambda>_. False),
     su_stop_wan = (\<lambda>_. False), su_stop_wan_arp = (\<lambda>_. False), su_stop_end = False, su_now = 1,
     su_lan_iface = (\<lambda>_. Some sample_link), su_wan_iface = (\<lambda>_. Some sample_link),
     su_lan_arp = (\<lambda>_. (-1, zero_arp)), su_wan_arp = (\<lambda>_. (-1, zero_arp)),
     su_socket_ok = (\<lambda>_. True), su_addr = (\<lambda>_. None), su_netmask = (\<lambda>_. None)\<rparr>"

lemma init_interfaces_all: "fst (init_interfaces (\<lambda>_. False) (\<lambda>_. Some x) i n xs)"
  by (induction n arbitrary: i xs) auto

lemma arp_loop_all: "fst (arp_loop (\<lambda>_. False) step i n s)"
  by (induction n arbitrary: i s) auto

lemma quiet_setup_succeeds:
  assumes "evp_ctx_new E" "contexts_ok E (rt_active (fw_rt fw))"
  shows "fst (forwarder_init E quiet_setup cfg fw) = 0"
proof -
  obtain rc1 h cfg1 rt st where c: "init_crypto E (su_now quiet_setup) (with_queue_counts cfg) (fw_rt fw) (fw_cs fw) = (rc1, h, cfg1, rt, st)"
    by (metis prod_cases5)
  have rc: "rc1 = 0" using init_crypto_match [OF assms c] by simp
  show ?thesis
    using init_interfaces_all [of sample_link 0 "length (ac_locals cfg1)" "[]"] arp_loop_all
    unfolding forwarder_init_def c Let_def prod.case rc
    by (simp add: quiet_setup_def case_prod_beta init_interfaces_all)
qed

lemma thread_start_forwards:
  assumes "evp_ctx_new E" "contexts_ok E (rt_active (fw_rt (dm_fw d)))" "dm_forwarder_runs d"
  shows "dm_thread (thread_start E quiet_setup True False False d) = Forwarding \<and>
    dm_ids (thread_start E quiet_setup True False False d) = dm_ids d"
proof -
  obtain rc cfg fw where i: "forwarder_init E quiet_setup (slot_in_use d) (dm_fw d) = (rc, cfg, fw)" by (metis prod_cases3)
  then have "rc = 0" using quiet_setup_succeeds [OF assms(1,2), of "slot_in_use d"] by simp
  moreover have "forwarder_run True fw \<noteq> None"
    by (simp add: forwarder_run_def forwarder_run_no_crypto_def forwarder_run_l2_def forwarder_run_l3_def forwarder_run_l4_def
        run_threads_def)
  ultimately show ?thesis using i assms(3) by (auto simp: thread_start_def Let_def)
qed

text \<open>A daemon that was told about one profile and forwards.\<close>

abbreviation sample_sha :: "string \<Rightarrow> buf" where "sample_sha \<equiv> \<lambda>s. replicate 32 7"

definition sample_notify :: notify_env where
  "sample_notify = \<lparr>nt_exists = True, nt_rows = (\<lambda>i. sample_rows), nt_calloc_ok = True, nt_create_ok = True\<rparr>"

lemma sample_alone_steps:
  "case merge_one_config empty_config sample_loaded of Some (Some m) \<Rightarrow>
     map lc_ifname (ac_locals m) = map lc_ifname (ac_locals sample_merged) \<and>
     map wc_ifname (ac_wans m) = map wc_ifname (ac_wans sample_merged) \<and> config_validate (merged_settings m) = Inr () \<and> ac_crypto_enabled (merged_settings m) \<and> ac_policies m = map2 (\<lambda>p i. p\<lparr>cp_id := i\<rparr>)
       (ac_policies sample_loaded) [7, 1, 2] | _ \<Rightarrow> False"
  by code_simp

definition sample_alone :: app_config where
  "sample_alone = (case merge_one_config empty_config sample_loaded of Some (Some m) \<Rightarrow> merged_settings m | _ \<Rightarrow> zero_config)"

lemma sample_alone_merge: "build_merged_config sample_sha (\<lambda>i. sample_rows) [pid] = Some (Some sample_alone)"
    "ac_crypto_enabled sample_alone"
    "ac_policies sample_alone = map2 (\<lambda>p i. p\<lparr>cp_id := i\<rparr>) (ac_policies sample_loaded) [7, 1, 2]"
    "same_topology sample_alone sample_merged"
proof -
  obtain m where m: "merge_one_config empty_config sample_loaded = Some (Some m)" "config_validate (merged_settings m) = Inr ()"
      "ac_crypto_enabled (merged_settings m)" "ac_policies m = map2 (\<lambda>p i. p\<lparr>cp_id := i\<rparr>) (ac_policies sample_loaded) [7, 1, 2]"
      "map lc_ifname (ac_locals m) = map lc_ifname (ac_locals sample_merged)"
      "map wc_ifname (ac_wans m) = map wc_ifname (ac_wans sample_merged)"
    using sample_alone_steps by (auto split: option.splits)
  have nx: "merge_next sample_sha (\<lambda>i. sample_rows) i c = merge_one_config c sample_loaded" for i c
    by (simp add: merge_next_def sample_rows_load and_then_def)
  have "each (merge_next sample_sha (\<lambda>i. sample_rows)) [pid] empty_config = Some (Some m)"
    unfolding each.simps nx m(1) by (simp add: and_then_def)
  then show "build_merged_config sample_sha (\<lambda>i. sample_rows) [pid] = Some (Some sample_alone)"
    using m(2) by (simp add: build_merged_config_def and_then_def Let_def sample_alone_def m(1))
  show "ac_crypto_enabled sample_alone" using m(3) by (simp add: sample_alone_def m(1))
  show "ac_policies sample_alone = map2 (\<lambda>p i. p\<lparr>cp_id := i\<rparr>) (ac_policies sample_loaded) [7, 1, 2]"
    using m(4) by (simp add: sample_alone_def m(1) merged_settings_def Let_def)
  show "same_topology sample_alone sample_merged"
    using m(5,6) by (simp add: same_topology_names sample_alone_def m(1) merged_settings_def Let_def)
qed

definition sample_created :: daemon where
  "sample_created = daemon_init\<lparr>dm_ids := [3], dm_slots := [sample_alone, zero_config], dm_has_thread := True,
     dm_thread := Created\<rparr>"

definition sample_daemon :: daemon where
  "sample_daemon = thread_start sample_evp quiet_setup True False False sample_created"

lemma sample_evp_new: "evp_ctx_new sample_evp" by (simp add: sample_evp_def)

lemma sample_created_step: "daemon_step sample_evp sample_sha daemon_init sample_created"
proof -
  have "parse_notify_profile_id (Some ''3'') = 3" by code_simp
  moreover have "handle_profile_notify sample_evp sample_sha sample_notify 3 daemon_init = Some (0, sample_created)"
    using first_load [of daemon_init sample_notify sample_sha 3 sample_alone sample_evp] sample_alone_merge
    by (simp add: sample_notify_def daemon_init_def sample_created_def)
  ultimately have "main_notify sample_evp sample_sha sample_notify (Some ''3'') daemon_init = Some sample_created"
    by (simp add: main_notify_def)
  then show ?thesis by (rule daemon_step.notify [rotated]) (simp add: daemon_init_def)
qed

lemma sample_daemon_reached: "daemon_steps sample_evp sample_sha daemon_init sample_daemon"
    "dm_thread sample_daemon = Forwarding" "dm_ids sample_daemon = [3]"
proof -
  have "daemon_step sample_evp sample_sha sample_created sample_daemon"
    unfolding sample_daemon_def
    by (rule daemon_step.start) (simp_all add: sample_created_def daemon_init_def quiet_setup_def stops_seen_def)
  with sample_created_step show "daemon_steps sample_evp sample_sha daemon_init sample_daemon" by simp
  have "contexts_ok sample_evp (rt_active (fw_rt (dm_fw sample_created)))" "dm_forwarder_runs sample_created"
    by (simp_all add: sample_created_def daemon_init_def forwarder_zero_def zero_table_def contexts_ok_def)
  from thread_start_forwards [OF sample_evp_new this]
  show "dm_thread sample_daemon = Forwarding" "dm_ids sample_daemon = [3]"
    by (simp_all add: sample_daemon_def sample_created_def)
qed

section \<open>Properties\<close>



text \<open>C34: Once the last profile of a running daemon is deleted, no sequence of notifications, signals and
  thread switches makes it forward again; yet loading a profile reports success and enters it into
  the set of active profiles.  \<^verbatim>\<open>forwarder_stop\<close> clears \<^verbatim>\<open>running\<close>, and nothing sets it again before
  \<^verbatim>\<open>forwarder_init\<close> looks at it.\<close>

theorem stopped_for_good:
  assumes "evp_ctx_new E" and "daemon_steps E sha256 daemon_init d" and "dm_thread d = Forwarding" and "dm_ids d = [pid]"
    and "\<not> nt_exists ne" and "handle_profile_notify E sha256 ne pid d = Some (rc, d1)"
  shows "rc = 0 \<and> dm_ids d1 = [] \<and>
    (\<forall>d2. daemon_steps E sha256 d1 d2 \<longrightarrow> dm_thread d2 \<noteq> Forwarding) \<and>
    (\<forall>ne2 pid2 merged. nt_exists ne2 \<longrightarrow> nt_calloc_ok ne2 \<longrightarrow> nt_create_ok ne2 \<longrightarrow>
       build_merged_config sha256 (nt_rows ne2) [pid2] = Some (Some merged) \<longrightarrow>
       (\<exists>d2. handle_profile_notify E sha256 ne2 pid2 d1 = Some (0, d2) \<and> dm_ids d2 = [pid2] \<and> dead d2))"
proof -
  have inv: "daemon_inv E d" by (rule daemon_reachable_inv [OF assms(1,2)])
  have d1: "rc = 0" "d1 = runtime_stop_forwarder (d\<lparr>dm_ids := []\<rparr>)"
    using assms(4-6) by (simp_all add: handle_profile_notify_def active_ids_remove_def)
  have th: "dm_has_thread (d\<lparr>dm_ids := []\<rparr>) \<longleftrightarrow> dm_thread (d\<lparr>dm_ids := []\<rparr>) \<noteq> No_thread" "dm_has_thread d"
    using inv assms(3) by (auto simp: daemon_inv_def)
  have stopped: "dm_thread d1 = No_thread" "\<not> dm_has_thread d1" "\<not> dm_forwarder_runs d1" "dm_ids d1 = []"
    using runtime_stop_control(1) [of "d\<lparr>dm_ids := []\<rparr>"] runtime_stop_control(2) [OF th(1)]
      runtime_stop_control(3) [of "d\<lparr>dm_ids := []\<rparr>"] th(2) by (auto simp: d1)
  then have dead: "dead d1" by (simp add: dead_def)
  have "\<exists>d2. handle_profile_notify E sha256 ne2 pid2 d1 = Some (0, d2) \<and> dm_ids d2 = [pid2] \<and> dead d2"
    if "nt_exists ne2" "nt_calloc_ok ne2" "nt_create_ok ne2" "build_merged_config sha256 (nt_rows ne2) [pid2] = Some (Some merged)"
    for ne2 pid2 merged
    unfolding first_load [OF stopped(2) that] using stopped(3) by (simp add: dead_def)
  then show ?thesis using d1(1) stopped(4) dead_steps [OF _ dead] by (auto simp: dead_def)
qed

theorem stopped_for_good_witness:
  "\<exists>d1 d2. handle_profile_notify sample_evp sample_sha (sample_notify\<lparr>nt_exists := False\<rparr>) 3 sample_daemon = Some (0, d1) \<and>
    handle_profile_notify sample_evp sample_sha sample_notify 3 d1 = Some (0, d2) \<and> dm_ids d2 = [3] \<and>
    (\<forall>d3. daemon_steps sample_evp sample_sha d1 d3 \<longrightarrow> dm_thread d3 \<noteq> Forwarding)"
proof -
  obtain d1 where h: "handle_profile_notify sample_evp sample_sha (sample_notify\<lparr>nt_exists := False\<rparr>) 3 sample_daemon = Some (0, d1)"
    by (simp add: handle_profile_notify_def active_ids_remove_def sample_daemon_reached(3) sample_notify_def)
  have n: "\<not> nt_exists (sample_notify\<lparr>nt_exists := False\<rparr>)" "nt_exists sample_notify" "nt_calloc_ok sample_notify"
    "nt_create_ok sample_notify" "nt_rows sample_notify = (\<lambda>i. sample_rows)" by (simp_all add: sample_notify_def)
  from stopped_for_good [OF sample_evp_new sample_daemon_reached n(1) h] show ?thesis
    using h n(2-5) sample_alone_merge(1) by metis
qed

text \<open>Applying configurations while the forwarder runs: either the new one is in use, or nothing that is in
  use has changed.\<close>

lemma apply_running:
  assumes E: "evp_ctx_new E" and inv: "daemon_inv E d" and th: "dm_thread d = Forwarding"
    and run: "apply_active_configs E sha256 ne ids d = Some (rc, d')"
  shows "dm_ids d' = dm_ids d \<and> dm_thread d' = Forwarding \<and>
    (rc = 0 \<and> (\<exists>merged. build_merged_config sha256 (nt_rows ne) ids = Some (Some merged) \<and>
        same_settings merged (slot_in_use d') \<and> same_topology (slot_in_use d) merged) \<or>
     rc = -1 \<and> slot_in_use d' = slot_in_use d \<and> dm_fwd_cfg d' = dm_fwd_cfg d \<and> dm_active_slot d' = dm_active_slot d \<and>
        fw_rt (dm_fw d') = fw_rt (dm_fw d))"
proof -
  have has: "dm_has_thread d" "dm_fwd_cfg d = Some (dm_active_slot d)" "tables_match E (slot_in_use d) (fw_rt (dm_fw d))"
    "length (dm_slots d) = 2" "dm_active_slot d < 2"
    using inv th by (auto simp: daemon_inv_def)
  consider "d' = d" "rc = -1" | merged where "build_merged_config sha256 (nt_rows ne) ids = Some (Some merged)"
      "reload_next_slot E merged d = (rc, d')"
    using run has(1) by (auto simp: apply_active_configs_def split: if_splits option.splits)
  then show ?thesis
  proof cases
    case 1
    then show ?thesis using th by simp
  next
    case 2
    let ?nx = "1 - dm_active_slot d"
    have nx: "?nx < 2" "?nx \<noteq> dm_active_slot d" using has(5) by arith+
    define s where "s = (dm_slots d)[?nx := merged]"
    have sk: "s ! dm_active_slot d = slot_in_use d" using nx by (simp add: s_def slot_in_use_def)
    obtain rc1 cfg fw where r: "forwarder_reload_config E merged ((dm_fw d)\<lparr>fw_cfg := slot_in_use d\<rparr>) = (rc1, cfg, fw)"
      by (metis prod_cases3)
    have e: "rc = (if rc1 = 0 then 0 else -1)"
        "d' = (if rc1 = 0 then d\<lparr>dm_slots := s[?nx := cfg], dm_fw := fw, dm_fwd_cfg := Some ?nx, dm_active_slot := ?nx\<rparr>
               else d\<lparr>dm_slots := s[?nx := cfg], dm_fw := fw\<rparr>)"
      using 2(2) r has(2) sk by (auto simp: reload_next_slot_def Let_def s_def)
    have m: "tables_match E (fw_cfg ((dm_fw d)\<lparr>fw_cfg := slot_in_use d\<rparr>)) (fw_rt ((dm_fw d)\<lparr>fw_cfg := slot_in_use d\<rparr>))"
      using has(3) by simp
    have slots: "s[?nx := cfg] ! ?nx = cfg" "s[?nx := cfg] ! dm_active_slot d = slot_in_use d"
      using nx has(4) by (simp_all add: s_def slot_in_use_def)
    from reload_match [OF E m r] show ?thesis
      using 2(1) e slots th by (auto simp: slot_in_use_def)
  qed
qed

text \<open>C35: A notification that loads another profile into a running daemon is all or nothing: on success
  the profile is active and the configuration in use is the merge of all active profiles; on
  failure the active profiles and the configuration in use are what they were.\<close>

theorem load_all_or_nothing:
  assumes "evp_ctx_new E" and "daemon_steps E sha256 daemon_init d" and "dm_thread d = Forwarding"
    and "nt_exists ne" and "pid \<notin> set (dm_ids d)" and "handle_profile_notify E sha256 ne pid d = Some (rc, d')"
  shows "dm_thread d' = Forwarding \<and>
    (rc = 0 \<and> dm_ids d' = dm_ids d @ [pid] \<and>
       (\<exists>merged. build_merged_config sha256 (nt_rows ne) (dm_ids d') = Some (Some merged) \<and>
          same_settings merged (slot_in_use d')) \<or>
     rc = -1 \<and> dm_ids d' = dm_ids d \<and> slot_in_use d' = slot_in_use d \<and> dm_fwd_cfg d' = dm_fwd_cfg d \<and>
       fw_rt (dm_fw d') = fw_rt (dm_fw d))"
proof -
  have inv: "daemon_inv E d" by (rule daemon_reachable_inv [OF assms(1,2)])
  then have has: "dm_has_thread d" using assms(3) by (simp add: daemon_inv_def)
  let ?ids = "dm_ids d @ [pid]" and ?d = "d\<lparr>dm_ids := dm_ids d @ [pid]\<rparr>"
  show ?thesis
  proof (cases "length (dm_ids d) \<ge> MAX_ACTIVE_PROFILE_IDS")
    case True
    then show ?thesis using assms(3-6) has
      by (simp add: handle_profile_notify_def load_profile_and_run_def active_ids_add_def Let_def)
  next
    case False
    have undo: "snd (active_ids_remove pid ?ids) = dm_ids d"
      using active_ids_undo [of pid "dm_ids d" ?ids] False assms(5) by (simp add: active_ids_add_def)
    obtain rc1 d1 where a: "apply_active_configs E sha256 ne ?ids ?d = Some (rc1, d1)"
      "(rc, d') = (if rc1 \<noteq> 0 then (-1, d1\<lparr>dm_ids := snd (active_ids_remove pid (dm_ids d1))\<rparr>) else (0, d1))"
      using assms(4-6) has False
      by (auto simp: handle_profile_notify_def load_profile_and_run_def active_ids_add_def Let_def split: option.splits if_splits)
    have "daemon_inv E ?d" using inv by (simp add: daemon_inv_ids)
    from apply_running [OF assms(1) this _ a(1)] show ?thesis
      using a(2) assms(3) undo by (auto simp: slot_in_use_def split: if_splits)
  qed
qed

lemma failed_result:
  fixes x :: "(int \<times> daemon) option"
  assumes "(case x of None \<Rightarrow> None | Some (rc, d) \<Rightarrow> Some (if rc \<noteq> 0 then -1 else 0, d)) = Some (-1 :: int, d')"
  obtains rc where "x = Some (rc, d')" "rc \<noteq> 0"
proof (cases x)
  case (Some y)
  obtain rc e where y: "y = (rc, e)" by fastforce
  show ?thesis using assms that Some y by (cases "rc = 0") simp_all
qed (use assms in simp)

text \<open>A deletion is not: when applying the remaining profiles fails, the deleted profile has left the
  set of active profiles, but the configuration in use still holds its policies.\<close>

theorem failed_delete_keeps_policies:
  assumes "evp_ctx_new E" and "daemon_steps E sha256 daemon_init d" and "dm_thread d = Forwarding"
    and "\<not> nt_exists ne" and "pid \<in> set (dm_ids d)" and "filter (\<lambda>x. x \<noteq> pid) (dm_ids d) \<noteq> []"
    and "handle_profile_notify E sha256 ne pid d = Some (-1, d')"
  shows "dm_thread d' = Forwarding \<and> pid \<notin> set (dm_ids d') \<and> dm_fwd_cfg d' = Some (dm_active_slot d') \<and>
    slot_in_use d' = slot_in_use d \<and> fw_rt (dm_fw d') = fw_rt (dm_fw d)"
proof -
  have inv: "daemon_inv E d" by (rule daemon_reachable_inv [OF assms(1,2)])
  let ?ids = "filter (\<lambda>x. x \<noteq> pid) (dm_ids d)"
  have "(case apply_active_configs E sha256 ne ?ids (d\<lparr>dm_ids := ?ids\<rparr>) of
      None \<Rightarrow> None | Some (rc, d) \<Rightarrow> Some (if rc \<noteq> 0 then -1 else 0, d)) = Some (-1 :: int, d')"
    using assms(4,5,7) unfolding handle_profile_notify_def active_ids_remove_def Let_def prod.case
    by (simp only: assms(4,6) if_False if_True simp_thms)
  then obtain rc1 where a: "apply_active_configs E sha256 ne ?ids (d\<lparr>dm_ids := ?ids\<rparr>) = Some (rc1, d')" "rc1 \<noteq> 0"
    by (rule failed_result)
  have "daemon_inv E (d\<lparr>dm_ids := ?ids\<rparr>)" using inv by (simp add: daemon_inv_ids)
  note r = apply_running [OF assms(1) this _ a(1)]
  have same: "slot_in_use (d\<lparr>dm_ids := ?ids\<rparr>) = slot_in_use d" by (simp add: slot_in_use_def)
  have ids: "dm_ids d' = ?ids \<and> dm_thread d' = Forwarding" using conjunct1 [OF r] conjunct1 [OF conjunct2 [OF r]] assms(3) by simp
  have "slot_in_use d' = slot_in_use d \<and> dm_fwd_cfg d' = dm_fwd_cfg d \<and>
    dm_active_slot d' = dm_active_slot d \<and> fw_rt (dm_fw d') = fw_rt (dm_fw d)"
    using conjunct2 [OF conjunct2 [OF r]] a(2) assms(3) unfolding same by simp
  moreover have "dm_fwd_cfg d = Some (dm_active_slot d)" using inv assms(3) by (simp add: daemon_inv_def)
  ultimately show ?thesis using ids by simp
qed

lemma sample_daemon_topology: "same_topology (slot_in_use sample_daemon) sample_merged"
proof -
  have c: "contexts_ok sample_evp (rt_active (fw_rt (dm_fw sample_created)))"
    by (simp add: sample_created_def daemon_init_def forwarder_zero_def zero_table_def contexts_ok_def)
  obtain rc cfg fw where i: "forwarder_init sample_evp quiet_setup (slot_in_use sample_created) (dm_fw sample_created) = (rc, cfg, fw)"
    by (metis prod_cases3)
  have "\<not> su_stop_start quiet_setup" by (simp add: quiet_setup_def)
  from forwarder_init_match [OF sample_evp_new c this i] have "same_settings sample_alone cfg"
    by (simp add: slot_in_use_def sample_created_def daemon_init_def)
  moreover have "slot_in_use sample_daemon = cfg"
    unfolding sample_daemon_def thread_start_def i Let_def prod.case
    by (simp add: slot_in_use_def sample_created_def daemon_init_def split: option.split)
  ultimately show ?thesis using sample_alone_merge(4) by (simp add: same_topology_names same_settings_def)
qed

text \<open>A second profile is loaded, and a deletion then fails for want of memory.\<close>

lemma sample_second:
  obtains d2 where "handle_profile_notify sample_evp sample_sha sample_notify 4 sample_daemon = Some (0, d2)"
    "daemon_steps sample_evp sample_sha daemon_init d2"
proof -
  have inv: "daemon_inv sample_evp sample_daemon" by (rule daemon_reachable_inv [OF sample_evp_new sample_daemon_reached(1)])
  have has: "dm_has_thread sample_daemon" "dm_fwd_cfg sample_daemon = Some (dm_active_slot sample_daemon)"
      "length (dm_slots sample_daemon) = 2" "dm_active_slot sample_daemon < 2"
    using inv sample_daemon_reached(2) by (auto simp: daemon_inv_def)
  have "1 - dm_active_slot sample_daemon \<noteq> dm_active_slot sample_daemon" using has(4) by arith
  then have "(dm_slots sample_daemon)[1 - dm_active_slot sample_daemon := sample_merged] ! dm_active_slot sample_daemon
      = slot_in_use sample_daemon" by (simp add: slot_in_use_def)
  moreover have "fst (forwarder_reload_config sample_evp sample_merged ((dm_fw sample_daemon)\<lparr>fw_cfg := slot_in_use sample_daemon\<rparr>)) = 0"
    using sample_daemon_topology by (simp add: forwarder_reload_config_def Let_def)
  ultimately have "fst (reload_next_slot sample_evp sample_merged (sample_daemon\<lparr>dm_ids := [3, 4]\<rparr>)) = 0"
    using has(2) by (simp add: reload_next_slot_def Let_def case_prod_beta)
  then obtain d2 where "reload_next_slot sample_evp sample_merged (sample_daemon\<lparr>dm_ids := [3, 4]\<rparr>) = (0, d2)"
    by (metis prod.collapse)
  then have h: "handle_profile_notify sample_evp sample_sha sample_notify 4 sample_daemon = Some (0, d2)"
    using has(1) sample_merge sample_daemon_reached(3)
    by (simp add: handle_profile_notify_def load_profile_and_run_def active_ids_add_def apply_active_configs_def sample_notify_def)
  have "parse_notify_profile_id (Some ''4'') = 4" by code_simp
  then have "main_notify sample_evp sample_sha sample_notify (Some ''4'') sample_daemon = Some d2"
    by (simp add: main_notify_def h)
  moreover have "\<not> dm_exited sample_daemon"
    by (auto simp: sample_daemon_def thread_start_def sample_created_def daemon_init_def Let_def split: prod.splits option.splits)
  ultimately have "daemon_step sample_evp sample_sha sample_daemon d2" by (rule daemon_step.notify [rotated])
  with sample_daemon_reached(1) have "daemon_steps sample_evp sample_sha daemon_init d2" by simp
  then show ?thesis using h that by blast
qed

theorem load_all_or_nothing_witness:
  "\<exists>d2. handle_profile_notify sample_evp sample_sha sample_notify 4 sample_daemon = Some (0, d2) \<and>
    dm_ids d2 = [3, 4] \<and> same_settings sample_merged (slot_in_use d2)"
proof -
  obtain d2 where h: "handle_profile_notify sample_evp sample_sha sample_notify 4 sample_daemon = Some (0, d2)"
    by (rule sample_second) (rule that)
  have n: "nt_exists sample_notify" "nt_rows sample_notify = (\<lambda>i. sample_rows)" "4 \<notin> set (dm_ids sample_daemon)"
    by (simp_all add: sample_notify_def sample_daemon_reached(3))
  from load_all_or_nothing [OF sample_evp_new sample_daemon_reached(1,2) n(1,3) h] show ?thesis
    using h n(2) sample_merge sample_daemon_reached(3) by auto
qed

theorem failed_delete_keeps_policies_witness:
  "\<exists>d2 d3. handle_profile_notify sample_evp sample_sha sample_notify 4 sample_daemon = Some (0, d2) \<and>
    handle_profile_notify sample_evp sample_sha (sample_notify\<lparr>nt_exists := False, nt_calloc_ok := False\<rparr>) 3 d2 = Some (-1, d3) \<and>
    3 \<notin> set (dm_ids d3) \<and> slot_in_use d3 = slot_in_use d2"
proof -
  obtain d2 where h: "handle_profile_notify sample_evp sample_sha sample_notify 4 sample_daemon = Some (0, d2)"
      "daemon_steps sample_evp sample_sha daemon_init d2" by (rule sample_second) (rule that)
  have inv: "daemon_inv sample_evp sample_daemon" by (rule daemon_reachable_inv [OF sample_evp_new sample_daemon_reached(1)])
  have "dm_has_thread sample_daemon" using inv sample_daemon_reached(2) by (simp add: daemon_inv_def)
  then obtain d1 where a: "apply_active_configs sample_evp sample_sha sample_notify [3, 4] (sample_daemon\<lparr>dm_ids := [3, 4]\<rparr>) = Some (0, d2)"
    using h(1) sample_daemon_reached(3)
    by (auto simp: handle_profile_notify_def load_profile_and_run_def active_ids_add_def sample_notify_def
        split: option.splits if_splits)
  then have ids: "dm_ids d2 = [3, 4]" "dm_thread d2 = Forwarding"
    using apply_running [OF sample_evp_new _ _ a] inv sample_daemon_reached(2) by (simp_all add: daemon_inv_ids)
  let ?ne = "sample_notify\<lparr>nt_exists := False, nt_calloc_ok := False\<rparr>"
  have h3: "handle_profile_notify sample_evp sample_sha ?ne 3 d2 = Some (-1, d2\<lparr>dm_ids := [4]\<rparr>)"
    by (simp add: handle_profile_notify_def active_ids_remove_def ids apply_active_configs_def)
  from failed_delete_keeps_policies [OF sample_evp_new h(2) ids(2) _ _ _ h3] show ?thesis
    using h(1) h3 ids(1) by fastforce
qed

text \<open>The identifier that \<^verbatim>\<open>notify_profile_load\<close> prints with \<^verbatim>\<open>%d\<close> is the one the daemon reads.\<close>

lemma notified_id_read_back:
  assumes "0 < n" and "int n \<le> INT_MAX"
  shows "parse_notify_profile_id (Some (decimal n)) = int n"
    and "parse_profile_id_token (decimal n) = Some (int n)"
    and "parse_startup_profile_id [''-id'', decimal n] = Some (int n)"
    and "parse_startup_profile_id [''-id='' @ decimal n] = Some (int n)"
proof -
  have s: "strtol (decimal n) = (int n, [])"
    using scan_int_decimal [of "[]" n] assms by (simp add: strtol_def)
  show "parse_notify_profile_id (Some (decimal n)) = int n"
    and t: "parse_profile_id_token (decimal n) = Some (int n)"
    using assms by (simp_all add: parse_notify_profile_id_def parse_profile_id_token_def s)
  show "parse_startup_profile_id [''-id'', decimal n] = Some (int n)"
    and "parse_startup_profile_id [''-id='' @ decimal n] = Some (int n)"
    by (simp_all add: parse_startup_profile_id_def t)
qed

end
