(* ===== verification/Delivery.thy ===== *)
theory Delivery
  imports Lifecycle
begin

text \<open>
  End to end at layer 4: what the WAN thread of the receiving gateway does with a packet that the
  worker of the sending gateway put on the wire.
\<close>

section \<open>Parsing stays inside the packet\<close>

lemma crypto_eth_ipv4_offset_total: "n \<le> length pkt \<Longrightarrow> crypto_eth_ipv4_offset pkt n \<noteq> None"
  by (simp add: crypto_eth_ipv4_offset_def)

lemma parse_flow_total: "n \<le> length pkt \<Longrightarrow> parse_flow pkt n \<noteq> None"
  using crypto_eth_ipv4_offset_total [of n pkt]
  by (auto simp: parse_flow_def Let_def rd32_def split: option.split)

lemma get_dest_ip_total: "n \<le> length pkt \<Longrightarrow> \<exists>ip. get_dest_ip pkt n = Some ip"
  by (cases "n < 34") (auto simp: get_dest_ip_def rd32_def)

lemma get_dest_ip_cong: "take n pkt = take n pkt' \<Longrightarrow> n \<le> length pkt \<Longrightarrow> n \<le> length pkt' \<Longrightarrow> get_dest_ip pkt n = get_dest_ip pkt' n"
  using nth_take [of _ n pkt] nth_take [of _ n pkt']
  by (simp add: get_dest_ip_def rd32_def)

lemma l4_extract_total:
  assumes "n \<le> length pkt"
  shows "\<exists>r. crypto_l4_extract_policy_id_ipv4 policies pkt n = Some r"
proof -
  have "\<exists>b. tunnel_match POLICY_ACTION_ENCRYPT_L4 CRYPTO_L4_TUNNEL_MAGIC pkt n off c = Some b" for off c
    using assms by (auto simp: tunnel_match_def)
  then have fp: "first_policy (tunnel_match POLICY_ACTION_ENCRYPT_L4 CRYPTO_L4_TUNNEL_MAGIC pkt n off) cs =
      Some (find (\<lambda>c. tunnel_match POLICY_ACTION_ENCRYPT_L4 CRYPTO_L4_TUNNEL_MAGIC pkt n off c = Some True) cs)" for off cs
    by (rule first_policy_total)
  obtain l3 where "crypto_eth_ipv4_offset pkt n = Some l3" using crypto_eth_ipv4_offset_total [OF assms] by auto
  then show ?thesis using assms
    by (simp add: crypto_l4_extract_policy_id_ipv4_def Let_def fp)
qed

section \<open>Delivering to the LAN\<close>

text \<open>What the LAN side needs: consistent interfaces that match the configuration, frames that hold the
  packet, and a kernel that does what AF_XDP documents.\<close>

definition lan_ready :: "kernel_turns \<Rightarrow> nat \<Rightarrow> forwarder \<Rightarrow> bool" where
  "lan_ready ks n fw \<longleftrightarrow> fw_ok fw \<and> addresses_ok fw \<and> length (fw_locals fw) = length (ac_locals (fw_cfg fw)) \<and>
     length (fw_locals fw) \<le> length (fw_arp fw) \<and>
     (\<forall>x \<in> set (fw_locals fw). xi_queues x \<noteq> [] \<and> length (xi_queues x) < 2 ^ 32 \<and> n \<le> unat (xi_frame_size x) \<and> kernels_ok x ks)"

text \<open>
  A packet of length \<open>n\<close> is appended, with the hardware addresses of its destination and of the
  interface and nothing else changed, to a queue of the LAN interface that owns its
  destination; or it is counted as dropped, which for a destination that is owned and whose
  address is known means that the queue of the interface was full.
\<close>

definition delivered :: "(nat \<times> nat) option \<Rightarrow> nat \<Rightarrow> buf \<Rightarrow> forwarder \<Rightarrow> forwarder \<Rightarrow> bool" where
  "delivered used n pkt fw fw' \<longleftrightarrow> (\<exists>ip. get_dest_ip pkt n = Some ip \<and> (case used of
     Some (l, tq) \<Rightarrow> config_find_local_for_ip (fw_cfg fw) ip = Some l \<and>
       tq < length (xi_queues (fw_locals fw ! l)) \<and> fw_total_dropped fw' = fw_total_dropped fw \<and>
       (\<exists>mac. arp_cache_lookup (fw_arp fw ! l) ip = Some mac \<and>
          lan_sent fw' = append_sent l tq [mac @ arp_if_mac (fw_arp fw ! l) @ drop 12 (take n pkt)] (lan_sent fw))
   | None \<Rightarrow> lan_sent fw' = lan_sent fw \<and> fw_total_dropped fw' = fw_total_dropped fw + 1 \<and>
       (\<forall>l mac. ip \<noteq> 0 \<and> config_find_local_for_ip (fw_cfg fw) ip = Some l \<and> arp_cache_lookup (fw_arp fw ! l) ip = Some mac \<longrightarrow>
          fw_dropped_local_tx_fail fw' = fw_dropped_local_tx_fail fw + 1)))"

lemma tx_queue_for_local_less:
  assumes "0 < nq" "nq < 2 ^ 32"
  shows "tx_queue_for_local args nq flow < nq"
proof -
  have "unat (of_nat nq :: u32) = nq" using assms by (simp add: unat_of_nat take_bit_nat_eq_self)
  then have "unat (h mod (of_nat nq :: u32)) < nq" for h using assms(1) by (simp add: unat_mod)
  then show ?thesis using assms(1) by (auto simp: tx_queue_for_local_def split: option.split)
qed

lemma set_local_l2_addrs_ok:
  assumes "lan_ready ks n fw" "l < length (fw_locals fw)" "12 \<le> length pkt" "ip \<noteq> 0"
  obtains mac where "arp_cache_lookup (fw_arp fw ! l) ip = Some mac"
      "set_local_l2_addrs (int l) ip pkt fw = Some (0, mac @ arp_if_mac (fw_arp fw ! l) @ drop 12 pkt, fw)"
      "length mac = 6" "length (arp_if_mac (fw_arp fw ! l)) = 6"
  | reqs where "arp_cache_lookup (fw_arp fw ! l) ip = None"
      "set_local_l2_addrs (int l) ip pkt fw = Some (-1, pkt, fw\<lparr>fw_arp_requests := reqs\<rparr>)"
proof -
  let ?c = "fw_arp fw ! l"
  have l: "l < length (fw_arp fw)" using assms(1,2) by (simp add: lan_ready_def)
  then have c: "length (arp_if_mac ?c) = 6" "\<forall>e \<in> set (arp_entries ?c). length (ae_mac e) = 6"
      "length (arp_entries ?c) = ARP_CACHE_SIZE"
    using assms(1) by (auto simp: lan_ready_def addresses_ok_def)
  show ?thesis
  proof (cases "arp_cache_lookup ?c ip")
    case None
    have "\<exists>reqs. note_request r fw = fw\<lparr>fw_arp_requests := reqs\<rparr>" for r
      by (cases r) (auto simp: note_request_def intro: exI [of _ "fw_arp_requests fw"])
    then obtain reqs where "note_request (arp_send_request ?c ip) fw = fw\<lparr>fw_arp_requests := reqs\<rparr>" by blast
    then show ?thesis using that(2) [OF None] None assms(2,4) l
      by (simp add: set_local_l2_addrs_def local_rewrite_dest_mac_def)
  next
    case (Some mac)
    have m: "length mac = 6" by (rule arp_lookup_length [OF Some c(2,3)])
    have "wrn pkt 0 mac = Some (mac @ drop 6 pkt)" "wrn (mac @ drop 6 pkt) 6 (arp_if_mac ?c) = Some (mac @ arp_if_mac ?c @ drop 12 pkt)"
      using m c(1) assms(3) by (simp_all add: wrn_def)
    then show ?thesis using that(1) [OF Some _ m c(1)] Some assms(2,4) l
      by (simp add: set_local_l2_addrs_def local_rewrite_dest_mac_def note_request_def)
  qed
qed

lemma get_dest_ip_length: "get_dest_ip pkt n = Some ip \<Longrightarrow> ip \<noteq> 0 \<Longrightarrow> 34 \<le> n"
  by (auto simp: get_dest_ip_def split: if_splits)

lemma config_find_local_less: "config_find_local_for_ip cfg ip = Some l \<Longrightarrow> l < length (ac_locals cfg)"
  unfolding config_find_local_for_ip_def by (drule find_SomeD) simp

text \<open>Appending to one queue of one LAN interface.\<close>

lemma lan_sent_update:
  assumes "l < length (fw_locals fw)" "iface_sent i' = handed_over tq p ret (fw_locals fw ! l)"
  shows "lan_sent (fw\<lparr>fw_locals := (fw_locals fw)[l := i']\<rparr>) = append_sent l tq (if ret = 0 then [p] else []) (lan_sent fw)"
  using assms by (auto simp: lan_sent_def append_sent_def handed_over_def map_update list_update_same_conv)

lemma deliver_local_ok:
  assumes ready: "lan_ready ks n fw" and n: "n \<le> length pkt"
  shows "\<exists>used fw'. deliver_local args ks None pkt n fw = Some (used, fw') \<and> delivered used n pkt fw fw'"
proof -
  obtain ip where ip: "get_dest_ip pkt n = Some ip" using get_dest_ip_total [OF n] by blast
  show ?thesis
  proof (cases "ip = 0 \<or> config_find_local_for_ip (fw_cfg fw) ip = None")
    case True
    then show ?thesis using ip by (auto simp: deliver_local_def delivered_def count_dropped_def lan_sent_def)
  next
    case False
    then obtain l where l: "config_find_local_for_ip (fw_cfg fw) ip = Some l" "ip \<noteq> 0" by auto
    have ll: "l < length (fw_locals fw)" using config_find_local_less [OF l(1)] ready by (simp add: lan_ready_def)
    let ?i = "fw_locals fw ! l"
    have i: "?i \<in> set (fw_locals fw)" using ll by simp
    then have iok: "iface_ok ?i" "xi_queues ?i \<noteq> []" "length (xi_queues ?i) < 2 ^ 32" "n \<le> unat (xi_frame_size ?i)" "kernels_ok ?i ks"
      using ready by (auto simp: lan_ready_def fw_ok_def)
    have n34: "34 \<le> n" by (rule get_dest_ip_length [OF ip l(2)])
    obtain flow where flow: "parse_flow pkt n = Some flow" using parse_flow_total [OF n] by auto
    define tq where "tq = tx_queue_for_local args (max 1 (length (xi_queues ?i))) flow"
    have nq: "max 1 (length (xi_queues ?i)) = length (xi_queues ?i)" using iok(2) by (cases "xi_queues ?i") auto
    have tqe: "tx_queue_for_local args (max (Suc 0) (length (xi_queues ?i))) flow = tq"
        "tx_queue_for_local args (length (xi_queues ?i)) flow = tq" using nq by (simp_all add: tq_def)
    have tq: "tq < length (xi_queues ?i)" using tx_queue_for_local_less [of "length (xi_queues ?i)"] iok(2,3) nq
      by (simp add: tq_def)
    have "12 \<le> length pkt" using n n34 by simp
    from set_local_l2_addrs_ok [OF ready ll this l(2)] show ?thesis
    proof cases
      case (1 mac)
      let ?p = "mac @ arp_if_mac (fw_arp fw ! l) @ drop 12 pkt"
      have p: "rdn ?p 0 n = Some (mac @ arp_if_mac (fw_arp fw ! l) @ drop 12 (take n pkt))"
        using 1(3,4) n n34 by (simp add: rdn_def take_drop)
      let ?b = "mac @ arp_if_mac (fw_arp fw ! l) @ drop 12 (take n pkt)"
      have "length ?b \<le> unat (xi_frame_size ?i)" using iok(4) 1(3,4) n n34 by simp
      from interface_send_to_local_ok [OF iok(1) tq iok(5) this]
      obtain ret i' where s: "interface_send_to_local_batch_queue ks tq ?b ?i = Some (ret, i')" "ret = 0 \<or> ret = -1"
          "iface_sent i' = handed_over tq ?b ret ?i" by blast
      note sent = lan_sent_update [OF ll s(3)]
      from s(2) show ?thesis
      proof
        assume ret: "ret = 0"
        show ?thesis using ip l ll flow 1(1,2) p s(1) sent tq ret
          by (auto simp: deliver_local_def delivered_def tqe lan_sent_def)
      next
        assume ret: "ret = -1"
        show ?thesis using ip l ll flow 1(1,2) p s(1) sent ret
          by (auto simp: deliver_local_def delivered_def tqe lan_sent_def append_sent_def count_dropped_def)
      qed
    next
      case (2 reqs)
      then show ?thesis using ip l ll flow
        by (auto simp: deliver_local_def delivered_def lan_sent_def count_dropped_def)
    qed
  qed
qed

section \<open>The stages before layer 4\<close>

text \<open>The parameters after the first stage, for a packet without the marker of layer 3.\<close>

definition rx_state :: "forwarder \<Rightarrow> crypto_state" where
  "rx_state fw = (if rt_enabled (fw_rt fw) \<and> rt_layer (fw_rt fw) = POLICY_ACTION_ENCRYPT_L3 \<and> ac_policies (fw_cfg fw) \<noteq> []
     then crypto_apply_default_from_cfg (fw_cfg fw) (fw_cs fw) else fw_cs fw)"

text \<open>The markers of the other layers cannot be taken for a TCP or UDP packet of IPv4.\<close>

definition markers_distinct :: "forwarder \<Rightarrow> bool" where
  "markers_distinct fw \<longleftrightarrow> g_fake_protocol (fw_cs fw) \<notin> {6, 17} \<and> ac_fake_protocol (fw_cfg fw) \<notin> {6, 17} \<and>
     (g_fake_ethertype_ipv4 (fw_cs fw) = 0 \<or> (ucast (drop_bit 8 (g_fake_ethertype_ipv4 (fw_cs fw))) :: byte) \<noteq> 8)"

definition ipv4_frame :: "buf \<Rightarrow> nat \<Rightarrow> bool" where
  "ipv4_frame pkt n \<longleftrightarrow> 34 \<le> n \<and> n \<le> length pkt \<and> pkt ! 12 = 8 \<and> pkt ! 13 = 0 \<and> (pkt ! 23 = 6 \<or> pkt ! 23 = 17)"

lemma layer3_silent:
  assumes "ipv4_frame pkt n" "g_fake_protocol st \<notin> {6, 17}"
  shows "crypto_l3_extract_policy_id l3_magic st policies pkt n = Some None"
    "frag_is_fragment st policies pkt n = Some (False, 0, 0)"
  using assms
  by (auto simp: ipv4_frame_def crypto_l3_extract_policy_id_def frag_is_fragment_def frag_require_ipv4_def Let_def)

lemma rx_params_silent:
  assumes "ipv4_frame pkt n" "markers_distinct fw"
  shows "rx_params l3_magic env pkt n fw = Some (fw\<lparr>fw_cs := rx_state fw\<rparr>)"
  using assms layer3_silent(1) [OF assms(1)]
  by (simp add: rx_params_def rx_state_def markers_distinct_def Let_def)

lemma rx_state_marks: "markers_distinct fw \<Longrightarrow> markers_distinct (fw\<lparr>fw_cs := rx_state fw\<rparr>)"
  by (auto simp: markers_distinct_def rx_state_def crypto_apply_default_from_cfg_def Let_def)

lemma rx_marked_silent:
  assumes "ipv4_frame pkt n" "markers_distinct fw"
  shows "rx_marked_layer2 E env pkt n fw = Some (Rx_packet pkt n, fw)"
  using assms by (auto simp: rx_marked_layer2_def ipv4_frame_def markers_distinct_def)

lemma rx_layer3_silent:
  assumes "ipv4_frame pkt n" "markers_distinct fw" "rt_enabled (fw_rt fw)" "ac_policies (fw_cfg fw) \<noteq> []"
  shows "rx_layer3 E l3_magic env n pkt n fw = Some (Rx_packet pkt n, -1, fw)"
  using assms layer3_silent [OF assms(1)]
  by (simp add: rx_layer3_def markers_distinct_def decrypted_def decrypt_packet_auto_by_action_def
      crypto_decrypt_packet_auto_by_action_def inbound_policy_def)

section \<open>Layer 4\<close>

lemma not_fragment_l4:
  fixes G tail :: buf
  assumes G: "length G = 18 + ihl" "ihl = ihl_bytes (G ! 14)" "20 \<le> ihl"
    and cp: "cpw \<in> set (take MAX_CRYPTO_POLICIES policies)" "cp_action cpw = POLICY_ACTION_ENCRYPT_L4"
      "0 < cp_nonce_size cpw" "length nonce = cp_nonce_size cpw"
    and uniform: "\<And>c. c \<in> set policies \<Longrightarrow> cp_action c = POLICY_ACTION_ENCRYPT_L4 \<Longrightarrow> cp_nonce_size c = cp_nonce_size cpw"
    and len: "length G + length nonce + 2 \<le> m"
  defines "W \<equiv> G @ nonce @ [wire_id cpw, CRYPTO_L4_TUNNEL_MAGIC] @ tail"
  assumes W: "ipv4_frame W m"
  shows "frag_is_fragment_l4 st policies W m = Some (False, 0, 0)"
proof -
  have "first_policy (tunnel_match POLICY_ACTION_ENCRYPT_L4 CRYPTO_L4_FRAG_MAGIC W m (length G))
      (take MAX_CRYPTO_POLICIES policies) = Some None"
    using first_tunnel_match [OF cp uniform len, of CRYPTO_L4_FRAG_MAGIC CRYPTO_L4_TUNNEL_MAGIC tail]
    by (auto simp: W_def split: option.splits)
  moreover have "W ! 14 = G ! 14" using G by (simp add: W_def nth_append)
  moreover have "14 + ihl + L4_WIRE_PORT_LEN = length G" using G(1) by simp
  ultimately show ?thesis using W G(2) [symmetric]
    by (auto simp: frag_is_fragment_l4_def ipv4_frame_def Let_def)
qed

lemma inbound_policy_total:
  assumes "length (pt_ready (rt_active (fw_rt fw))) = MAX_CRYPTO_POLICIES"
  shows "\<exists>pi. inbound_policy fw action pid = Some pi"
  using assms by (auto simp: inbound_policy_def policy_index_from_action_id_current_def Let_def split: option.split)

lemma pin_inbound_total:
  assumes "n \<le> length pkt"
  shows "\<exists>pins. pin_inbound env pi pkt n fw = Some (fw\<lparr>fw_pins := pins\<rparr>)"
proof -
  obtain flow where f: "parse_flow pkt n = Some flow" using parse_flow_total [OF assms] by auto
  have same: "\<exists>pins. fw = fw\<lparr>fw_pins := pins\<rparr>" by (rule exI [of _ "fw_pins fw"]) simp
  have other: "\<exists>pins'. fw\<lparr>fw_pins := pins\<rparr> = fw\<lparr>fw_pins := pins'\<rparr>" for pins by blast
  show ?thesis using f by (auto simp: pin_inbound_def same other split: option.split)
qed

lemma rx_layer4_wire:
  fixes G tail :: buf
  assumes G: "crypto_eth_ipv4_offset G (length G) = Some (int 14)" "ihl = ihl_bytes (G ! 14)"
      "20 \<le> ihl" "length G = 14 + ihl + 4" "G ! (14 + 9) = 6 \<or> G ! (14 + 9) = 17"
    and cp: "cp_action cp = POLICY_ACTION_ENCRYPT_L4" "0 < cp_nonce_size cp" "length nonce = cp_nonce_size cp"
    and known: "cp \<in> set (take MAX_CRYPTO_POLICIES (ac_policies (fw_cfg fw)))"
    and uniform: "\<forall>c \<in> set (ac_policies (fw_cfg fw)). cp_action c = POLICY_ACTION_ENCRYPT_L4 \<longrightarrow>
      cp_nonce_size c = cp_nonce_size cp"
    and on: "rt_enabled (fw_rt fw)" "length (pt_ready (rt_active (fw_rt fw))) = MAX_CRYPTO_POLICIES"
    and served: "policy_served (dc_current (forwarder_dispatch_ctx (fw_rt fw) (fw_cfg fw) (rx_now_l4 env))) cp ctx'"
    and len: "length G + length nonce + 2 \<le> m" "14 + ihl + 8 \<le> m" "n < m" "m < 2 ^ 31"
  defines "W \<equiv> G @ nonce @ [wire_id cp, CRYPTO_L4_TUNNEL_MAGIC] @ tail"
  assumes W: "ipv4_frame W m"
    and dec: "crypto_layer4_decrypt E ctx' W m (crypto_apply_from_policy cp (fw_cs fw)) = Some (int n, dec, st2)"
  shows "\<exists>pi. rx_layer4 E l3_magic env wire_flow m (-1) W m fw = Some (Rx_packet dec n, pi, fw\<lparr>fw_cs := st2\<rparr>)"
proof -
  let ?cfg = "fw_cfg fw" and ?dctx = "forwarder_dispatch_ctx (fw_rt fw) (fw_cfg fw) (rx_now_l4 env)"
  have u: "\<And>c. c \<in> set (ac_policies ?cfg) \<Longrightarrow> cp_action c = POLICY_ACTION_ENCRYPT_L4 \<Longrightarrow> cp_nonce_size c = cp_nonce_size cp"
    using uniform by blast
  have frag: "frag_is_fragment_l4 (fw_cs fw) (ac_policies ?cfg) W m = Some (False, 0, 0)"
    unfolding W_def by (rule not_fragment_l4 [OF _ G(2,3) known cp u len(1)]) (use G(4) W in \<open>simp_all add: W_def\<close>)
  have run: "decrypt_packet_auto_by_action E l3_magic (fw_rt fw) ?cfg (rx_now_l4 env) POLICY_ACTION_ENCRYPT_L4 W m scratch_size (fw_cs fw) =
      Some (0, dec, n, st2)"
    using dispatch_l4_wire [OF G cp known cp(1) refl uniform disjI1 [OF served] len, where tail = tail and E = E and r = "fw_cs fw"]
      dec on(1) by (simp add: decrypt_packet_auto_by_action_def W_def)
  have "m \<le> length dec" using l4_decrypt_length [OF dec] W by (simp add: ipv4_frame_def)
  then obtain pid where pid: "crypto_l4_extract_policy_id_ipv4 (ac_policies ?cfg) dec m = Some pid"
    using l4_extract_total by blast
  obtain pi where "inbound_policy (fw\<lparr>fw_cs := st2\<rparr>) POLICY_ACTION_ENCRYPT_L4 (map_option fst pid) = Some pi"
    using inbound_policy_total [of "fw\<lparr>fw_cs := st2\<rparr>"] on(2) by auto
  then show ?thesis using frag run pid
    by (cases "case wire_flow of None \<Rightarrow> False | Some f \<Rightarrow> is_ssh_flow f") (simp_all add: rx_layer4_def decrypted_def Let_def)
qed

section \<open>A received packet of layer 4\<close>

lemma match_served:
  assumes m: "tables_match E cfg rt" and on: "ac_crypto_enabled cfg" and len: "length (ac_policies cfg) \<le> MAX_CRYPTO_POLICIES"
    and owns: "owns_wire_id cfg cp"
  shows "policy_served (dc_current (forwarder_dispatch_ctx rt cfg now)) cp (policy_ctx E cp)"
proof -
  from owns obtain i where i: "i < length (ac_policies cfg)" "ac_policies cfg ! i = cp"
    "serves (nat (cp_action cp)) (wire_id cp) cp" "index_spec (ac_policies cfg) (nat (cp_action cp)) (wire_id cp) = int i"
    by (rule owns_wire_idD)
  have pols: "take MAX_CRYPTO_POLICIES (ac_policies cfg) = ac_policies cfg" using len by simp
  have t: "length (pt_ready (rt_active rt)) = MAX_CRYPTO_POLICIES"
    "length (pt_ctx (rt_active rt)) = MAX_CRYPTO_POLICIES" "pt_ready (rt_active rt) ! i" "pt_ctx (rt_active rt) ! i = policy_ctx E cp"
    "pt_index (rt_active rt) = index_spec (ac_policies cfg)" "0 \<le> cp_action cp" "cp_action cp \<le> POLICY_ACTION_ENCRYPT_L4"
    using m on i unfolding tables_match_def pols Let_def by (auto simp: contexts_ok_def serves_def split: if_splits)
  then show ?thesis using i len
    by (auto simp: policy_served_def forwarder_dispatch_ctx_def lookup_policy_index_def Let_def at_eq_Some_iff)
qed

text \<open>The receiving gateway knows the policy: its tables match its configuration and the policy owns
  its identifier there.\<close>

definition knows_policy :: "evp \<Rightarrow> crypto_policy \<Rightarrow> forwarder \<Rightarrow> bool" where
  "knows_policy E cp fw \<longleftrightarrow> tables_match E (fw_cfg fw) (fw_rt fw) \<and> ac_crypto_enabled (fw_cfg fw) \<and>
     length (ac_policies (fw_cfg fw)) \<le> MAX_CRYPTO_POLICIES \<and> owns_wire_id (fw_cfg fw) cp \<and>
     cp_action cp = POLICY_ACTION_ENCRYPT_L4 \<and> 32 \<le> length (cp_key cp) \<and>
     (\<forall>c \<in> set (ac_policies (fw_cfg fw)). cp_action c = POLICY_ACTION_ENCRYPT_L4 \<longrightarrow> cp_nonce_size c = cp_nonce_size cp)"

lemma delivered_fields:
  assumes "delivered used n pkt (fw\<lparr>fw_cs := c, fw_pins := p\<rparr>) fw'"
  shows "delivered used n pkt fw fw'"
  using assms by (cases used) (auto simp: delivered_def lan_sent_def)

lemma delivered_cong:
  assumes "delivered used n pkt fw fw'" "drop 12 (take n pkt) = drop 12 (take n pkt')" "get_dest_ip pkt n = get_dest_ip pkt' n"
  shows "delivered used n pkt' fw fw'"
  using assms by (cases used) (auto simp: delivered_def)

lemma lan_ready_fields: "lan_ready ks n (fw\<lparr>fw_cs := c, fw_pins := p\<rparr>) = lan_ready ks n fw"
  by (simp add: lan_ready_def fw_ok_def addresses_ok_def)

lemma wire_delivered:
  fixes G tail :: buf
  assumes G: "crypto_eth_ipv4_offset G (length G) = Some (int 14)" "ihl = ihl_bytes (G ! 14)"
      "20 \<le> ihl" "length G = 14 + ihl + 4" "G ! (14 + 9) = 6 \<or> G ! (14 + 9) = 17"
    and knows: "knows_policy E cp fw" and marks: "markers_distinct fw"
    and cp: "0 < cp_nonce_size cp" "length nonce = cp_nonce_size cp"
    and len: "length G + length nonce + 2 \<le> m" "14 + ihl + 8 \<le> m" "n < m" "m < 2 ^ 31"
  defines "W \<equiv> G @ nonce @ [wire_id cp, CRYPTO_L4_TUNNEL_MAGIC] @ tail"
  assumes m: "m \<le> length W"
    and dec: "crypto_layer4_decrypt E (policy_ctx E cp) W m (crypto_apply_from_policy cp (rx_state fw)) = Some (int n, dec, st2)"
    and lan: "lan_ready (rx_turns env) n fw"
  shows "\<exists>used fw'. wan_packet_l3l4 E l3_magic args env (W, m, addr) fw = Some (used, fw') \<and> delivered used n dec fw fw'"
proof -
  let ?fw = "fw\<lparr>fw_cs := rx_state fw\<rparr>"
  have k: "tables_match E (fw_cfg fw) (fw_rt fw)" "ac_crypto_enabled (fw_cfg fw)" "owns_wire_id (fw_cfg fw) cp"
      "cp_action cp = POLICY_ACTION_ENCRYPT_L4"
      "\<forall>c \<in> set (ac_policies (fw_cfg fw)). cp_action c = POLICY_ACTION_ENCRYPT_L4 \<longrightarrow> cp_nonce_size c = cp_nonce_size cp"
      and pols: "take MAX_CRYPTO_POLICIES (ac_policies (fw_cfg fw)) = ac_policies (fw_cfg fw)"
    using knows by (simp_all add: knows_policy_def)
  have mem: "cp \<in> set (ac_policies (fw_cfg fw))" using k(3) by (auto elim!: owns_wire_idD)
  have on: "rt_enabled (fw_rt fw)" "length (pt_ready (rt_active (fw_rt fw))) = MAX_CRYPTO_POLICIES"
    using k(1,2) by (simp_all add: tables_match_def Let_def)
  have "rd16 G 12 = Some 0x0800" using G(1,4) by (auto simp: crypto_eth_ipv4_offset_def split: if_splits)
  then have "be16 (G ! 12) (G ! 13) = 0x0800" using G(4) by simp
  then have "hi8 (0x0800 :: u16) = G ! 12" "lo8 (0x0800 :: u16) = G ! 13" by (metis hi8_be16, metis lo8_be16)
  then have "G ! 12 = 8" "G ! 13 = 0" by (simp_all add: hi8_def lo8_def)
  then have W: "ipv4_frame W m" using G(3-5) m len(2) by (auto simp: ipv4_frame_def W_def nth_append)
  have served: "policy_served (dc_current (forwarder_dispatch_ctx (fw_rt fw) (fw_cfg fw) (rx_now_l4 env))) cp (policy_ctx E cp)"
    by (rule match_served [OF k(1,2) _ k(3)]) (use knows in \<open>simp add: knows_policy_def\<close>)
  obtain flow where flow: "parse_flow W m = Some flow" using parse_flow_total [OF m] by auto
  obtain pi where l4: "rx_layer4 E l3_magic env flow m (-1) W m ?fw = Some (Rx_packet dec n, pi, fw\<lparr>fw_cs := st2\<rparr>)"
    using rx_layer4_wire [OF G k(4) cp, where fw = ?fw and env = env and E = E and ctx' = "policy_ctx E cp" and tail = tail]
      k(5) pols mem on served len dec W unfolding W_def by fastforce
  have n: "n \<le> length dec" using l4_decrypt_length [OF dec] m len(3) by simp
  obtain pins where pin: "pin_inbound env pi dec n (fw\<lparr>fw_cs := st2\<rparr>) = Some (fw\<lparr>fw_cs := st2, fw_pins := pins\<rparr>)"
    using pin_inbound_total [OF n, of env pi "fw\<lparr>fw_cs := st2\<rparr>"] by auto
  have "lan_ready (rx_turns env) n (fw\<lparr>fw_cs := st2, fw_pins := pins\<rparr>)" using lan by (simp only: lan_ready_fields)
  from deliver_local_ok [OF this n] obtain used fw' where
    d: "deliver_local args (rx_turns env) None dec n (fw\<lparr>fw_cs := st2, fw_pins := pins\<rparr>) = Some (used, fw')"
      "delivered used n dec (fw\<lparr>fw_cs := st2, fw_pins := pins\<rparr>) fw'" by blast
  note marks' = rx_state_marks [OF marks]
  have "rx_layer3 E l3_magic env m W m ?fw = Some (Rx_packet W m, -1, ?fw)"
    by (rule rx_layer3_silent [OF W marks']) (use on(1) mem in auto)
  then show ?thesis
    using flow rx_params_silent [OF W marks] rx_marked_silent [OF W marks'] l4 pin d(1) delivered_fields [OF d(2)] on(1)
    by (simp add: wan_packet_l3l4_def next_stage_def)
qed

section \<open>From the worker to the LAN\<close>

lemma nth_tail:
  assumes "drop 12 q = drop 12 p" "length q = length p" "12 \<le> i" "i < length p"
  shows "q ! i = p ! i"
proof -
  have "q ! i = drop 12 q ! (i - 12)" "p ! i = drop 12 p ! (i - 12)" using assms(2-4) by simp_all
  then show ?thesis using assms(1) by simp
qed

lemma rd_tail:
  assumes "drop 12 q = drop 12 p" "length q = length p" "12 \<le> i"
  shows "rd q i = rd p i"
  using nth_tail [OF assms] assms(2) by (simp add: rd_def)

lemma rd16_tail:
  assumes "drop 12 q = drop 12 p" "length q = length p" "12 \<le> i"
  shows "rd16 q i = rd16 p i"
  using rd_tail [OF assms(1,2)] assms(3) by (simp add: rd16_def)

lemma l4_packet_tail:
  assumes "drop 12 q = drop 12 p" "length q = length p" "l4_packet p n 14 ihl"
  shows "l4_packet q n 14 ihl"
proof -
  note rds = rd_tail [OF assms(1,2)]
  have n: "34 \<le> n" "n \<le> length p" using assms(3) by (auto simp: l4_packet_def)
  have "crypto_eth_ipv4_offset q n = crypto_eth_ipv4_offset p n"
    by (simp add: crypto_eth_ipv4_offset_def rd16_tail [OF assms(1,2)] cong: if_cong)
  moreover have "get_transport_hdr_size q (14 + k) pr m = get_transport_hdr_size p (14 + k) pr m" for k pr m
    by (simp add: get_transport_hdr_size_def rds)
  moreover have "q ! 14 = p ! 14" "q ! 23 = p ! 23" using nth_tail [OF assms(1,2)] n by auto
  ultimately show ?thesis using assms(2,3) by (auto simp: l4_packet_def)
qed

lemma patched_behind: "patched (a @ b) (length a + off) n t = a @ patched b off n t"
  by (simp add: patched_def Let_def list_update_append add.assoc)

lemma patched_tail:
  assumes "drop 12 q = drop 12 p" "12 \<le> length p" "12 \<le> length q" "patched p 14 n t = p"
  shows "patched q 14 n t = q"
proof -
  have split: "patched b 14 n t = take 12 b @ patched (drop 12 b) 2 n t" if "12 \<le> length b" for b
    using that patched_behind [of "take 12 b" "drop 12 b" 2 n t] by simp
  have "take 12 p @ patched (drop 12 p) 2 n t = take 12 p @ drop 12 p"
    using assms(4) split [OF assms(2)] by simp
  then have "patched (drop 12 p) 2 n t = drop 12 p" by (rule same_append_eq [THEN iffD1])
  then show ?thesis using split [OF assms(3)] assms(1) append_take_drop_id [of 12 q] by simp
qed

lemma get_dest_ip_tail:
  assumes "drop 12 q = drop 12 p" "length q = length p"
  shows "get_dest_ip q n = get_dest_ip p n"
  using rd_tail [OF assms] rd16_tail [OF assms] by (simp add: get_dest_ip_def rd32_def cong: if_cong)

lemma l4_packet_delivered:
  assumes ready: "crypto_ready E (crypto_apply_from_policy cp s)" "crypto_ready E (crypto_apply_from_policy cp (rx_state fw))"
      "same_policy (crypto_apply_from_policy cp s) (crypto_apply_from_policy cp (rx_state fw))"
    and receiver: "knows_policy E cp fw" "markers_distinct fw" "lan_ready (rx_turns env) n fw"
    and pkt: "l4_packet packet n 14 ihl" "n + l4_overhead (crypto_apply_from_policy cp s) \<le> length packet"
      "patched packet 14 ihl (of_nat (n - 14)) = packet"
    and sent: "crypto_layer4_encrypt E (policy_ctx E cp) packet n (crypto_apply_from_policy cp s) = Some (int m, out, s')"
    and frame: "take m frame = take m out" "m \<le> length frame"
  shows "\<exists>used fw'. wan_packet_l3l4 E l3_magic args env (frame, m, addr) fw = Some (used, fw') \<and> delivered used n packet fw fw'"
proof -
  let ?st = "crypto_apply_from_policy cp s" and ?rx = "crypto_apply_from_policy cp (rx_state fw)"
  have ns: "g_nonce_size ?st = cp_nonce_size cp" "g_policy_id ?st = wire_id cp"
    by (simp_all add: crypto_apply_from_policy_def Let_def)
  have pos: "0 < cp_nonce_size cp" "cp_nonce_size cp \<le> 16" using ready(1) ns(1) by (auto simp: crypto_ready_def)
  have ov: "l4_overhead ?st = cp_nonce_size cp + 2 + tag_size ?st" "l4_overhead ?st \<le> 34"
    using l4_overhead_le [OF ready(1)] by (simp_all add: l4_overhead_def packet_crypto_get_tunnel_hdr_size_def ns)
  have p: "20 \<le> ihl" "14 + ihl + 8 \<le> n" "n < 2 ^ 30" using pkt(1) by (auto simp: l4_packet_def)
  have "ctx_ok (policy_ctx E cp)" by (rule policy_ctx_ok) (use ready(1) receiver(1) in \<open>simp_all add: crypto_ready_def knows_policy_def\<close>)
  from l4_transfer_any [OF ready this this refl pkt] obtain G nonce body st1 where t:
      "crypto_layer4_encrypt E (policy_ctx E cp) packet n ?st = Some (int (n + l4_overhead ?st),
        G @ nonce @ [wire_id cp, CRYPTO_L4_TUNNEL_MAGIC] @ body @ drop (n + l4_overhead ?st) packet, st1)"
      "length (G @ nonce @ [wire_id cp, CRYPTO_L4_TUNNEL_MAGIC] @ body) = n + l4_overhead ?st"
      "\<forall>rest. \<exists>dec st2. crypto_layer4_decrypt E (policy_ctx E cp) (G @ nonce @ [wire_id cp, CRYPTO_L4_TUNNEL_MAGIC] @ body @ rest)
        (n + l4_overhead ?st) ?rx = Some (int n, dec, st2) \<and> take n dec = take n packet \<and> crypto_ready E st2"
      "length G = 14 + ihl + 4" "crypto_eth_ipv4_offset G (length G) = Some (int 14)"
      "ihl = ihl_bytes (G ! 14)" "G ! (14 + 9) = 6 \<or> G ! (14 + 9) = 17" "length nonce = cp_nonce_size cp"
    unfolding ns by blast
  have m: "m = n + l4_overhead ?st" using sent t(1) by simp
  then have out: "out = G @ nonce @ [wire_id cp, CRYPTO_L4_TUNNEL_MAGIC] @ body @ drop m packet" using sent t(1) by simp
  have "out = (G @ nonce @ [wire_id cp, CRYPTO_L4_TUNNEL_MAGIC] @ body) @ drop m packet" using out by simp
  then have "take m out = G @ nonce @ [wire_id cp, CRYPTO_L4_TUNNEL_MAGIC] @ body"
    using t(2) m append_eq_conv_conj by metis
  then have "frame = G @ nonce @ [wire_id cp, CRYPTO_L4_TUNNEL_MAGIC] @ (body @ drop m frame)"
    using frame(1) append_take_drop_id [of m frame] by simp
  then obtain tail rest where W: "frame = G @ nonce @ [wire_id cp, CRYPTO_L4_TUNNEL_MAGIC] @ tail" and tail: "tail = body @ rest" by blast
  obtain dec st2 where dec: "crypto_layer4_decrypt E (policy_ctx E cp) frame m ?rx = Some (int n, dec, st2)"
      "take n dec = take n packet"
    using t(3) [THEN spec, of rest] unfolding W m tail by blast
  have len: "length G + length nonce + 2 \<le> m" "14 + ihl + 8 \<le> m" "n < m" "m < 2 ^ 31"
    using p ov t(4,8) pos m by simp_all
  have "\<exists>used fw'. wan_packet_l3l4 E l3_magic args env (frame, m, addr) fw = Some (used, fw') \<and> delivered used n dec fw fw'"
    unfolding W by (rule wire_delivered [OF t(5,6) p(1) t(4,7) receiver(1,2) pos(1) t(8) len]) (use W dec(1) receiver(3) frame(2) in simp_all)
  moreover have "get_dest_ip dec n = get_dest_ip packet n"
    by (rule get_dest_ip_cong [OF dec(2)]) (use pkt(1) l4_decrypt_length [OF dec(1)] frame(2) m in \<open>simp_all add: l4_packet_def\<close>)
  ultimately show ?thesis using delivered_cong dec(2) by metis
qed


text \<open>A receiving gateway with the LAN of the packet behind it and the host's address in its cache.\<close>

definition sample_receiver :: forwarder where
  "sample_receiver = (sample_forwarder sample_rt)\<lparr>
     fw_cfg := sample_gateway_cfg\<lparr>ac_encrypt_layer := 4, ac_locals := [sample_local\<lparr>lc_network := 0x0000000A\<rparr>]\<rparr>,
     fw_arp := [arp_cache_insert 7 arp_empty 0x0200000A [2, 0, 0, 0, 0, 9]]\<rparr>"

definition sample_rx :: rx_env where
  "sample_rx = \<lparr>rx_now_params = 5, rx_now_l2 = 5, rx_now_l3 = 5, rx_now_l4 = 5, rx_frag_now_l2 = 5, rx_frag_now_l3 = 5,
     rx_frag_now_l4 = 5, rx_reass_l2 = [], rx_reass_l3 = [], rx_reass_l4 = [], rx_pin_now = 5, rx_pin_malloc_ok = True,
     rx_turns = []\<rparr>"

lemma sample_receiver_fields:
  "fw_cs sample_receiver = sample_st" "fw_rt sample_receiver = sample_rt" "rt_layer sample_rt = 4" "rt_enabled sample_rt"
  "ac_policies (fw_cfg sample_receiver) = [sample_policy_l4]" "ac_crypto_enabled (fw_cfg sample_receiver)"
  "ac_encrypt_layer (fw_cfg sample_receiver) = 4" "ac_fake_protocol (fw_cfg sample_receiver) = 99"
  by (simp_all add: sample_receiver_def sample_forwarder_def sample_rt_def sample_gateway_cfg_def sample_cfg_def)

lemma sample_receiver_ready:
  "knows_policy sample_evp sample_policy_l4 sample_receiver" "markers_distinct sample_receiver"
  "lan_ready [] 50 sample_receiver" "rx_state sample_receiver = sample_st"
proof -
  note f = sample_receiver_fields
  obtain h st' where r: "rebuild_crypto_runtime sample_evp sample_cfg_l4 empty_table sample_st = (rt_active sample_rt, h, st')"
    by (cases "rebuild_crypto_runtime sample_evp sample_cfg_l4 empty_table sample_st") (simp add: sample_rt_def)
  have "evp_ctx_new sample_evp" by (simp add: sample_evp_def)
  note spec = rebuild_computes_spec' [OF this runtime_table_contexts [OF empty_table_ok] r]
  have "owns_wire_id (fw_cfg sample_receiver) sample_policy_l4"
    using sample_owns f(5) by (simp add: owns_wire_id_def sample_cfg_l4_def)
  moreover have "tables_match sample_evp (fw_cfg sample_receiver) (fw_rt sample_receiver)"
    using spec f by (auto simp: tables_match_def contexts_ok_def runtime_table_ok_def sample_cfg_l4_def)
  ultimately show "knows_policy sample_evp sample_policy_l4 sample_receiver"
    using f sample_policy_l4_key(1) by (simp add: knows_policy_def sample_apply)
  show "markers_distinct sample_receiver"
    using f by (simp add: markers_distinct_def sample_st_def crypto_state_init_def)
  show "lan_ready [] 50 sample_receiver"
    using sample_link_ok
    by (auto simp: lan_ready_def sample_receiver_def sample_forwarder_def fw_ok_def addresses_ok_def sample_gateway_cfg_def
        arp_cache_insert_def arp_empty_def set_update_memI nth_list_update split: option.split dest!: set_update_subset_insert [THEN subsetD])
  show "rx_state sample_receiver = sample_st" using f by (simp add: rx_state_def)
qed


end
