(* ===== verification/DeliveryL2.thy ===== *)
theory DeliveryL2
  imports Delivery
begin

text \<open>
  End to end at layer 2: what the WAN thread of a gateway for layer 2 does with a packet that another
  gateway encrypted at that layer.  A whole packet is told from a fragment by one byte of its
  ciphertext, so delivery depends on that byte.
\<close>

section \<open>Whole packets are not taken for fragments\<close>

lemma not_fragment_l2:
  assumes "m \<le> length W" and "W ! (14 + ns) \<noteq> L2_FRAG_MAGIC"
    and uniform: "\<And>c. c \<in> set policies \<Longrightarrow> cp_action c = POLICY_ACTION_ENCRYPT_L2 \<Longrightarrow> cp_nonce_size c = ns"
  shows "frag_is_fragment_l2 st policies W m = Some (False, 0, 0)"
proof -
  have none: "first_policy (\<lambda>cp.
      if cp_action cp \<noteq> POLICY_ACTION_ENCRYPT_L2 \<or> cp_nonce_size cp = 0 then Some False
      else if 14 + cp_nonce_size cp + 1 + CRYPTO_L2_FRAG_TAG_SIZE > m then Some False
      else do { b \<leftarrow> rd W (14 + cp_nonce_size cp); Some (b = L2_FRAG_MAGIC) }) cs = Some None" if "set cs \<subseteq> set policies" for cs
    using that
  proof (induction cs)
    case (Cons c cs)
    then have "c \<in> set policies" by simp
    then show ?case using Cons assms(1,2) uniform [of c] by (auto simp: rd_def)
  qed simp
  have "l2_has_fake_marker st W \<noteq> None" if "\<not> m < 23"
    using assms(1) that by (cases "g_fake_ethertype_ipv4 st = 0") (simp_all add: l2_has_fake_marker_def)
  then obtain b where "m < 23 \<or> l2_has_fake_marker st W = Some b" by (cases "m < 23") auto
  then show ?thesis using none [of "take MAX_CRYPTO_POLICIES policies"] set_take_subset [of MAX_CRYPTO_POLICIES policies]
    by (auto simp: frag_is_fragment_l2_def)
qed

section \<open>A received packet of layer 2\<close>

definition knows_l2_policy :: "evp \<Rightarrow> crypto_policy \<Rightarrow> forwarder \<Rightarrow> bool" where
  "knows_l2_policy E cp fw \<longleftrightarrow> tables_match E (fw_cfg fw) (fw_rt fw) \<and> ac_crypto_enabled (fw_cfg fw) \<and>
     length (ac_policies (fw_cfg fw)) \<le> MAX_CRYPTO_POLICIES \<and> owns_wire_id (fw_cfg fw) cp \<and>
     cp_action cp = POLICY_ACTION_ENCRYPT_L2 \<and> 32 \<le> length (cp_key cp) \<and>
     (\<forall>c \<in> set (ac_policies (fw_cfg fw)). cp_action c = POLICY_ACTION_ENCRYPT_L2 \<longrightarrow> cp_nonce_size c = cp_nonce_size cp)"

lemma hi8_shift: "hi8 x = ucast (drop_bit 8 x)"
  by (simp add: hi8_def)

lemma rx_layer2_wire:
  assumes knows: "knows_l2_policy E cp fw" and fake: "g_fake_ethertype_ipv4 (fw_cs fw) \<noteq> 0"
    and W: "m \<le> length W" "14 \<le> length W" "W ! 12 = hi8 (g_fake_ethertype_ipv4 (fw_cs fw))" "W ! 13 = wire_id cp"
      "W ! (14 + cp_nonce_size cp) \<noteq> L2_FRAG_MAGIC"
    and dec: "crypto_layer2_decrypt E (policy_ctx E cp) W m (crypto_apply_from_policy cp (fw_cs fw)) = Some (int n, dec, st2)"
  shows "rx_layer2 E env W m fw = Some (Rx_packet dec n, fw\<lparr>fw_cs := st2\<rparr>)"
proof -
  have k: "tables_match E (fw_cfg fw) (fw_rt fw)" "ac_crypto_enabled (fw_cfg fw)" "owns_wire_id (fw_cfg fw) cp"
      "cp_action cp = POLICY_ACTION_ENCRYPT_L2" "length (ac_policies (fw_cfg fw)) \<le> MAX_CRYPTO_POLICIES"
    using knows by (simp_all add: knows_l2_policy_def)
  have frag: "frag_is_fragment_l2 (fw_cs fw) (ac_policies (fw_cfg fw)) W m = Some (False, 0, 0)"
    by (rule not_fragment_l2 [OF W(1,5)]) (use knows in \<open>auto simp: knows_l2_policy_def\<close>)
  have on: "rt_enabled (fw_rt fw)" using k(1,2) by (simp add: tables_match_def)
  have ne: "ac_policies (fw_cfg fw) \<noteq> []" using k(3) by (auto elim!: owns_wire_idD)
  have pick: "pick_current_or_prev (\<lambda>cp. True) (fw_rt fw) (fw_cfg fw) (rx_now_l2 env) POLICY_ACTION_ENCRYPT_L2 (wire_id cp) =
      Some (Some (cp, policy_ctx E cp))"
    using match_finds [OF k(1,2,5,3), of "\<lambda>cp. True"] k(4) by simp
  have layer: "g_encrypt_layer (crypto_apply_from_policy cp (fw_cs fw)) = 2" using k(4)
    by (simp add: crypto_apply_from_policy_def Let_def)
  show ?thesis using frag on ne pick layer dec W(2-4) fake
    by (simp add: rx_layer2_def decrypt_packet_auto_l2_def packet_decrypt_def decrypted_def rd_def hi8_shift [symmetric])
qed

lemma delivered_state:
  "delivered used n pkt (fw\<lparr>fw_cs := c\<rparr>) fw' \<Longrightarrow> delivered used n pkt fw fw'"
  by (cases used) (auto simp: delivered_def lan_sent_def)

lemma lan_ready_state: "lan_ready ks n (fw\<lparr>fw_cs := c\<rparr>) = lan_ready ks n fw"
  by (simp add: lan_ready_def fw_ok_def addresses_ok_def)

section \<open>From one gateway to the LAN of the other\<close>

lemma l2_packet_delivered:
  fixes packet :: buf
  assumes ready: "crypto_ready E (crypto_apply_from_policy cp s)" "crypto_ready E (crypto_apply_from_policy cp (fw_cs fw))"
      "same_policy (crypto_apply_from_policy cp s) (crypto_apply_from_policy cp (fw_cs fw))"
    and receiver: "knows_l2_policy E cp fw" "g_fake_ethertype_ipv4 (fw_cs fw) \<noteq> 0" "lan_ready (rx_turns env) n fw"
    and pkt: "l2_packet packet n" "n < 2 ^ 29" "n + l2_overhead (crypto_apply_from_policy cp s) \<le> length packet"
      "l2_payload_ok (crypto_apply_from_policy cp s) (drop 14 (take n packet))"
    and sent: "crypto_layer2_encrypt E (policy_ctx E cp) packet n (crypto_apply_from_policy cp s) = Some (int m, out, s')"
    and frame: "take m frame = take m out" "m \<le> length frame" "frame ! (14 + cp_nonce_size cp) \<noteq> L2_FRAG_MAGIC"
  shows "\<exists>used fw'. wan_packet_l2 E args env (frame, m, addr) fw = Some (used, fw') \<and> delivered used n packet fw fw'"
proof -
  let ?st = "crypto_apply_from_policy cp s" and ?rx = "crypto_apply_from_policy cp (fw_cs fw)"
  define M plain where "M = take 12 packet" and "plain = drop 14 (take n packet)"
  note pol = same_policyD [OF ready(3)]
  have ns: "g_nonce_size ?st = cp_nonce_size cp" "g_policy_id ?st = wire_id cp"
      "g_fake_ethertype_ipv4 ?rx = g_fake_ethertype_ipv4 (fw_cs fw)"
    by (simp_all add: crypto_apply_from_policy_def Let_def)
  then have fake: "g_fake_ethertype_ipv4 ?st \<noteq> 0" "hi8 (g_fake_ethertype_ipv4 ?st) = hi8 (g_fake_ethertype_ipv4 (fw_cs fw))"
    using receiver(2) pol(5) by simp_all
  have E: "evp_ok E" using ready(1) by (simp add: crypto_ready_def)
  have p: "22 \<le> n" "n \<le> length packet" "packet ! 12 = 8" "packet ! 13 = 0" using pkt(1) by (auto simp: l2_packet_def)
  have lens: "length M = 12" "length plain = n - 14" using p by (simp_all add: M_def plain_def)
  have ctx: "ctx_ok (policy_ctx E cp)"
    by (rule policy_ctx_ok [OF E]) (use receiver(1) in \<open>simp add: knows_l2_policy_def\<close>)
  obtain nonce st1 where e: "crypto_layer2_encrypt E (policy_ctx E cp) packet n ?st = Some (int (n + l2_overhead ?st),
        M @ [hi8 (g_fake_ethertype_ipv4 ?st), g_policy_id ?st] @ nonce @
          fst (seal_ref E ?st (current_key (policy_ctx E cp)) nonce plain) @ snd (seal_ref E ?st (current_key (policy_ctx E cp)) nonce plain) @
          drop (n + l2_overhead ?st) packet, st1)" "length nonce = g_nonce_size ?st"
    using l2_encrypt_wire [OF ready(1) ctx pkt(1) fake(1) pkt(3)] by (auto simp: M_def plain_def Let_def)
  define ct tag where "ct = fst (seal_ref E ?st (current_key (policy_ctx E cp)) nonce plain)"
    and "tag = snd (seal_ref E ?st (current_key (policy_ctx E cp)) nonce plain)"
  define wire where "wire = M @ [hi8 (g_fake_ethertype_ipv4 (fw_cs fw)), wire_id cp] @ nonce @ ct @ tag"
  have m: "m = n + l2_overhead ?st" and out: "out = wire @ drop m packet"
    using sent e(1) by (auto simp: wire_def ct_def tag_def ns fake(2) simp flip: of_nat_add)
  have lc: "length ct = n - 14" "length tag = tag_size ?st" using E lens(2) by (simp_all add: ct_def tag_def seal_ref_lengths)
  have lw: "length wire = m" using lens lc e(2) m p(1) by (simp add: wire_def l2_overhead_def)
  have "take m frame = wire" using frame(1) lw out by simp
  then have W: "frame = wire @ drop m frame" by (metis append_take_drop_id)
  have first: "ct ! 0 \<noteq> L2_FRAG_MAGIC"
  proof -
    have "wire ! (14 + cp_nonce_size cp) = ct ! 0" using lens(1) e(2) ns(1) lc(1) p(1) by (simp add: wire_def nth_append)
    moreover have "14 + cp_nonce_size cp < length wire" using lens(1) e(2) ns(1) lc(1) p(1) by (simp add: wire_def)
    ultimately show ?thesis using frame(3) W by (metis nth_append)
  qed
  have pay: "l2_payload_ok ?rx plain" using pkt(4) pol(1) by (simp add: l2_payload_ok_def plain_def)
  have nonce: "length nonce = g_nonce_size ?rx" "g_fake_ethertype_ipv4 ?rx \<noteq> 0" "2 \<le> length plain" "length plain < 2 ^ 29"
    using e(2) pol(2) receiver(2) ns(3) lens(2) p(1) pkt(2) by simp_all
  have first': "fst (seal_ref E ?rx (current_key (policy_ctx E cp)) nonce plain) ! 0 \<noteq> L2_FRAG_MAGIC"
    using first pol(9) by (simp add: ct_def)
  obtain R st2 where d: "crypto_layer2_decrypt E (policy_ctx E cp) frame (14 + l2_overhead ?rx + length plain) ?rx =
      Some (int (14 + length plain), M @ [8, 0] @ plain @ R, st2)"
  proof -
    have "M @ [hi8 (g_fake_ethertype_ipv4 ?rx), wire_id cp] @ nonce @
        fst (seal_ref E ?rx (current_key (policy_ctx E cp)) nonce plain) @
        snd (seal_ref E ?rx (current_key (policy_ctx E cp)) nonce plain) @ drop m frame = frame"
      unfolding pol(9) using W by (simp add: wire_def ct_def tag_def ns(3))
    with that show ?thesis
      using l2_decrypt_wire [OF ready(2) ctx lens(1) nonce(2,1) pay nonce(3,4) first', of "wire_id cp" "drop m frame"] by auto
  qed
  define dec where "dec = M @ [8, 0] @ plain @ R"
  have sizes: "14 + l2_overhead ?rx + length plain = m" "14 + length plain = n"
    using lens(2) p(1) by (simp_all add: m l2_overhead_def pol)
  then have dec: "crypto_layer2_decrypt E (policy_ctx E cp) frame m ?rx = Some (int n, dec, st2)" using d by (simp add: dec_def)
  have head: "frame ! 12 = hi8 (g_fake_ethertype_ipv4 (fw_cs fw))" "frame ! 13 = wire_id cp"
    using lens(1) by (subst W, simp add: wire_def nth_append)+
  have "14 \<le> length frame" using frame(2) lw lens(1) by (simp add: wire_def)
  from rx_layer2_wire [OF receiver(1,2) frame(2) this head frame(3) dec]
  have rx: "rx_layer2 E env frame m fw = Some (Rx_packet dec n, fw\<lparr>fw_cs := st2\<rparr>)" .
  have same: "take n dec = take n packet"
  proof -
    have "packet = (M @ [8, 0] @ plain) @ drop n packet" using l2_split [of n packet] p by (simp add: M_def plain_def)
    moreover have "length (M @ [8, 0] @ plain) = n" using lens p(1) by simp
    ultimately have "take n packet = M @ [8, 0] @ plain" by (metis append_eq_conv_conj)
    moreover have "take n dec = M @ [8, 0] @ plain"
      using \<open>length (M @ [8, 0] @ plain) = n\<close> unfolding dec_def by (metis append.assoc append_eq_conv_conj)
    ultimately show ?thesis by simp
  qed
  have n: "n \<le> length dec" using lens p(1) by (simp add: dec_def)
  have "lan_ready (rx_turns env) n (fw\<lparr>fw_cs := st2\<rparr>)" using receiver(3) by (simp only: lan_ready_state)
  from deliver_local_ok [OF this n] obtain used fw' where
    l: "deliver_local args (rx_turns env) None dec n (fw\<lparr>fw_cs := st2\<rparr>) = Some (used, fw')"
      "delivered used n dec (fw\<lparr>fw_cs := st2\<rparr>) fw'" by blast
  have "delivered used n packet fw fw'"
    by (rule delivered_cong [OF delivered_state [OF l(2)]]) (use same get_dest_ip_cong [OF same n p(2)] in simp_all)
  then show ?thesis using rx l(1) by (simp add: wan_packet_l2_def next_stage_def)
qed

lemma l2_packet_tail:
  assumes "drop 12 q = drop 12 p" "length q = length p" "l2_packet p n"
  shows "l2_packet q n" "drop 14 (take n q) = drop 14 (take n p)"
proof -
  show "l2_packet q n" using assms nth_tail [OF assms(1,2), of 12] nth_tail [OF assms(1,2), of 13] by (simp add: l2_packet_def)
  have "drop 2 (drop 12 q) = drop 2 (drop 12 p)" using assms(1) by simp
  then show "drop 14 (take n q) = drop 14 (take n p)" by (simp add: drop_take)
qed

text \<open>C2: From one gateway to the LAN of the other at layer 2: a packet that was encrypted without being
  split, received by a gateway for layer 2 that knows the policy, leaves with every byte but the
  hardware addresses as it was encrypted, on the LAN interface that owns its destination, or is
  counted as dropped; unless the first byte of its ciphertext is the marker of fragments.\<close>

theorem layer2_packet_arrives:
  assumes "crypto_ready E (crypto_apply_from_policy cp s)" "crypto_ready E (crypto_apply_from_policy cp (fw_cs fw))"
      "same_policy (crypto_apply_from_policy cp s) (crypto_apply_from_policy cp (fw_cs fw))"
    and receiver: "knows_l2_policy E cp fw" "g_fake_ethertype_ipv4 (fw_cs fw) \<noteq> 0" "lan_ready (rx_turns env) n fw"
    and pkt: "l2_packet packet n" "n < 2 ^ 29" "n + l2_overhead (crypto_apply_from_policy cp s) \<le> length packet"
      "l2_payload_ok (crypto_apply_from_policy cp s) (drop 14 (take n packet))"
    and sent: "encrypted_from E tx POLICY_ACTION_ENCRYPT_L2 (policy_ctx E cp) packet n cnt (crypto_apply_from_policy cp s) p"
      "\<not> needs_split POLICY_ACTION_ENCRYPT_L2 (crypto_apply_from_policy cp s) n"
    and frame: "take (length p) frame = p" "frame ! (14 + cp_nonce_size cp) \<noteq> L2_FRAG_MAGIC"
  shows "\<exists>used fw'. wan_packet_l2 E args env (frame, length p, addr) fw = Some (used, fw') \<and> delivered used n packet fw fw'"
proof -
  obtain q m out s' where q: "length q = length packet" "drop 12 q = drop 12 packet"
      and e: "crypto_layer2_encrypt E (policy_ctx E cp) q n (crypto_apply_from_policy cp s) = Some (int m, out, s')"
      and p: "p = take m out" "m \<le> length out"
    using sent by (auto simp: encrypted_from_def encrypt_at_def)
  have m: "length p = m" using p by simp
  have f: "take m frame = take m out" using p frame(1) m by simp
  then have "length (take m frame) = m" using p by simp
  then have fl: "m \<le> length frame" by simp
  note tail = l2_packet_tail [OF q(2,1) pkt(1)]
  from l2_packet_delivered [OF assms(1-6) tail(1) pkt(2) _ _ e f fl frame(2), of args addr] pkt(3,4) q(1) tail(2)
  obtain used fw' where "wan_packet_l2 E args env (frame, m, addr) fw = Some (used, fw')" "delivered used n q fw fw'" by auto
  moreover have "drop 12 (take n q) = drop 12 (take n packet)" using q(2) by (simp add: drop_take)
  ultimately show ?thesis using delivered_cong get_dest_ip_tail [OF q(2,1)] m by metis
qed

text \<open>A gateway for layer 2 with the LAN of the packet behind it and the host's address in its cache.\<close>

definition sample_policy_l2 :: crypto_policy where
  "sample_policy_l2 = sample_policy\<lparr>cp_action := POLICY_ACTION_ENCRYPT_L2\<rparr>"

definition sample_cfg_l2 :: app_config where
  "sample_cfg_l2 = sample_cfg\<lparr>ac_policies := [sample_policy_l2], ac_encrypt_layer := 2\<rparr>"

definition sample_rt_l2 :: crypto_runtime where
  "sample_rt_l2 = \<lparr>rt_enabled = True, rt_layer = 2, rt_base = sample_ctx,
     rt_active = fst (rebuild_crypto_runtime sample_evp sample_cfg_l2 empty_table sample_st),
     rt_prev = empty_table, rt_prev_grace_until_ms = 0\<rparr>"

definition sample_receiver_l2 :: forwarder where
  "sample_receiver_l2 = sample_receiver\<lparr>fw_rt := sample_rt_l2,
     fw_cfg := (fw_cfg sample_receiver)\<lparr>ac_encrypt_layer := 2, ac_policies := [sample_policy_l2]\<rparr>\<rparr>"

lemma sample_apply_l2 [simp]:
  "crypto_ready sample_evp (crypto_apply_from_policy sample_policy_l2 sample_st)"
  "same_policy (crypto_apply_from_policy sample_policy_l2 sample_st) (crypto_apply_from_policy sample_policy_l2 sample_st)"
  "l2_overhead (crypto_apply_from_policy sample_policy_l2 sample_st) = 28"
  "is_gcm_mode (crypto_apply_from_policy sample_policy_l2 sample_st)"
  "g_fake_ethertype_ipv4 (crypto_apply_from_policy sample_policy_l2 sample_st) = 0x88B5"
  "g_nonce_size (crypto_apply_from_policy sample_policy_l2 sample_st) = 12"
  "wire_id sample_policy_l2 = 7" "cp_action sample_policy_l2 = 2" "cp_nonce_size sample_policy_l2 = 12"
  "length (cp_key sample_policy_l2) = 32" "serviceable sample_policy_l2"
  by (simp_all add: crypto_ready_def same_policy_def crypto_apply_from_policy_def sample_policy_l2_def sample_policy_def
      sample_st_def crypto_state_init_def Let_def l2_overhead_def tag_size_def is_gcm_mode_def wire_id_def serviceable_def list_all_iff)

lemma sample_receiver_l2_ready:
  "knows_l2_policy sample_evp sample_policy_l2 sample_receiver_l2" "fw_cs sample_receiver_l2 = sample_st"
  "lan_ready [] 50 sample_receiver_l2"
proof -
  obtain h st' where r: "rebuild_crypto_runtime sample_evp sample_cfg_l2 empty_table sample_st = (rt_active sample_rt_l2, h, st')"
    by (cases "rebuild_crypto_runtime sample_evp sample_cfg_l2 empty_table sample_st") (simp add: sample_rt_l2_def)
  have "evp_ctx_new sample_evp" by (simp add: sample_evp_def)
  note spec = rebuild_computes_spec' [OF this runtime_table_contexts [OF empty_table_ok] r]
  have f: "fw_rt sample_receiver_l2 = sample_rt_l2" "ac_policies (fw_cfg sample_receiver_l2) = [sample_policy_l2]"
      "ac_crypto_enabled (fw_cfg sample_receiver_l2)" "ac_encrypt_layer (fw_cfg sample_receiver_l2) = 2"
    using sample_receiver_fields(6) by (simp_all add: sample_receiver_l2_def)
  have "owns_wire_id (fw_cfg sample_receiver_l2) sample_policy_l2"
    using f(2) by (simp add: owns_wire_id_def serves_def)
  moreover have "tables_match sample_evp (fw_cfg sample_receiver_l2) (fw_rt sample_receiver_l2)"
    using spec f by (auto simp: tables_match_def contexts_ok_def runtime_table_ok_def sample_cfg_l2_def sample_rt_l2_def)
  ultimately show "knows_l2_policy sample_evp sample_policy_l2 sample_receiver_l2"
    using f by (simp add: knows_l2_policy_def)
  show "fw_cs sample_receiver_l2 = sample_st" using sample_receiver_fields(1) by (simp add: sample_receiver_l2_def)
  show "lan_ready [] 50 sample_receiver_l2" using sample_receiver_ready(3)
    by (simp add: lan_ready_def sample_receiver_l2_def fw_ok_def addresses_ok_def)
qed

theorem layer2_packet_arrives_witness:
  "\<exists>p used fw'. encrypted_from sample_evp sample_env POLICY_ACTION_ENCRYPT_L2 (policy_ctx sample_evp sample_policy_l2)
      sample_packet 50 0 (crypto_apply_from_policy sample_policy_l2 sample_st) p \<and>
    wan_packet_l2 sample_evp \<lparr>qa_iface_idx = 0, qa_queue_idx = 0, qa_tx_queue_base = 0, qa_wan_worker_index = 0\<rparr>
      sample_rx (p, length p, 0) sample_receiver_l2 = Some (used, fw') \<and>
    delivered used 50 sample_packet sample_receiver_l2 fw'"
proof -
  let ?st = "crypto_apply_from_policy sample_policy_l2 sample_st" and ?ctx = "policy_ctx sample_evp sample_policy_l2"
  have ctx: "ctx_ok ?ctx" by (rule policy_ctx_ok) simp_all
  have pkt: "l2_packet sample_packet 50" "l2_payload_ok ?st (drop 14 (take 50 sample_packet))"
    by (simp_all add: l2_packet_def l2_payload_ok_def)
  obtain nonce st1 where e: "crypto_layer2_encrypt sample_evp ?ctx sample_packet 50 ?st = Some (78,
      take 12 sample_packet @ [hi8 0x88B5, g_policy_id ?st] @ nonce @
      fst (seal_ref sample_evp ?st (current_key ?ctx) nonce (drop 14 (take 50 sample_packet))) @
      snd (seal_ref sample_evp ?st (current_key ?ctx) nonce (drop 14 (take 50 sample_packet))) @ drop 78 sample_packet, st1)"
      "length nonce = 12"
    using l2_encrypt_wire [OF sample_apply_l2(1) ctx pkt(1)] by (auto simp: Let_def)
  define out where "out = take 12 sample_packet @ [hi8 0x88B5, g_policy_id ?st] @ nonce @
      fst (seal_ref sample_evp ?st (current_key ?ctx) nonce (drop 14 (take 50 sample_packet))) @
      snd (seal_ref sample_evp ?st (current_key ?ctx) nonce (drop 14 (take 50 sample_packet))) @ drop 78 sample_packet"
  have first: "fst (seal_ref sample_evp ?st (current_key ?ctx) nonce (drop 14 (take 50 sample_packet))) ! 0 \<noteq> L2_FRAG_MAGIC"
    by (simp add: seal_ref_def Let_def sample_evp_def cipher_of_def)
  note lens = seal_ref_lengths [OF sample_evp_ok, of ?st "current_key ?ctx" nonce "drop 14 (take 50 sample_packet)"]
  have o: "78 \<le> length out" "take 78 out ! (14 + cp_nonce_size sample_policy_l2) \<noteq> L2_FRAG_MAGIC"
    using e(2) lens first by (simp_all add: out_def nth_append tag_size_def)
  have ns: "\<not> needs_split POLICY_ACTION_ENCRYPT_L2 ?st 50"
    by (simp add: needs_split_def frag_need_split_l2_def crypto_layer2_frag_meta_len_def tag_size_def)
  have s: "encrypted_from sample_evp sample_env POLICY_ACTION_ENCRYPT_L2 ?ctx sample_packet 50 0 ?st (take 78 out)"
    unfolding encrypted_from_def using e(1) ns o(1)
    by (intro exI [of _ sample_packet]) (auto simp: encrypt_at_def out_def intro!: exI [of _ 78])
  have frame: "take (length (take 78 out)) (take 78 out) = take 78 out" by (rule take_all) simp
  have lan: "lan_ready (rx_turns sample_rx) 50 sample_receiver_l2" using sample_receiver_l2_ready(3) by (simp add: sample_rx_def)
  have "g_fake_ethertype_ipv4 (fw_cs sample_receiver_l2) \<noteq> 0"
    using sample_receiver_l2_ready(2) by (simp add: sample_st_def)
  from layer2_packet_arrives [OF _ _ _ sample_receiver_l2_ready(1) this lan pkt(1) _ _ pkt(2) s ns frame o(2)] s
  show ?thesis by (intro exI [of _ "take 78 out"]) (simp add: sample_receiver_l2_ready(2))
qed

end
