(* ===== verification/Filters.thy ===== *)
theory Filters
  imports Config
begin

text \<open>
  The filter maps of the XDP programs, \<^verbatim>\<open>src/src/core/interface.c\<close>: the registered bundles of maps,
  the packing of the encryption policies of all profiles into one array of rules, and the
  update of the maps at start and reload.

  A map of the kernel is a function of its file descriptor and key.  Whether an update of a key
  succeeds is an input; what \<^verbatim>\<open>if_nametoindex\<close> answers is a function of the name.
\<close>

section \<open>Bundles of maps\<close>

abbreviation (input) MAX_PROFILES :: nat where "MAX_PROFILES \<equiv> 32"
abbreviation (input) MAX_PROFILES_BPF :: nat where "MAX_PROFILES_BPF \<equiv> 32"
abbreviation (input) MAX_ENCRYPT_PACK_BPF :: nat where "MAX_ENCRYPT_PACK_BPF \<equiv> 128"

record encrypt_bundle =
  eb_ctrl_fd :: int
  eb_meta_fd :: int
  eb_pack_fd :: int
  eb_ingress_fd :: int
  eb_ifindex :: u32

text \<open>The five arrays and \<^verbatim>\<open>encrypt_bundle_count\<close> are one list.\<close>

definition interface_reset_redirect_maps :: "encrypt_bundle list" where
  "interface_reset_redirect_maps = []"

definition register_encrypt_bundle ::
    "int \<Rightarrow> int \<Rightarrow> int \<Rightarrow> int \<Rightarrow> u32 \<Rightarrow> encrypt_bundle list \<Rightarrow> encrypt_bundle list" where
  "register_encrypt_bundle ctrl_fd meta_fd enc_fd ingress_fd ifindex bs =
     (if ctrl_fd < 0 \<or> meta_fd < 0 \<or> enc_fd < 0 then bs
      else if length bs \<ge> MAX_INTERFACES then bs
      else bs @ [\<lparr>eb_ctrl_fd = ctrl_fd, eb_meta_fd = meta_fd, eb_pack_fd = enc_fd,
                  eb_ingress_fd = ingress_fd, eb_ifindex = ifindex\<rparr>])"

section \<open>Packing\<close>

record xdp_encrypt_rule_user =
  er_src_net :: u32
  er_src_mask :: u32
  er_dst_net :: u32
  er_dst_mask :: u32
  er_flags :: u32
  er_protocol :: byte
  er_src_port_from :: int
  er_src_port_to :: int
  er_dst_port_from :: int
  er_dst_port_to :: int

record xdp_profile_meta_user =
  pm_enabled :: u32
  pm_enc_start :: u32
  pm_enc_num :: u32

record xdp_encrypt_ctrl_user =
  ec_profile_count :: u32
  ec_require_filter :: u32

definition zero_rule :: xdp_encrypt_rule_user where
  "zero_rule = \<lparr>er_src_net = 0, er_src_mask = 0, er_dst_net = 0, er_dst_mask = 0, er_flags = 0, er_protocol = 0,
     er_src_port_from = 0, er_src_port_to = 0, er_dst_port_from = 0, er_dst_port_to = 0\<rparr>"

definition zero_meta :: xdp_profile_meta_user where
  "zero_meta = \<lparr>pm_enabled = 0, pm_enc_start = 0, pm_enc_num = 0\<rparr>"

definition crypto_policy_is_encrypt_action :: "crypto_policy \<Rightarrow> bool" where
  "crypto_policy_is_encrypt_action cp \<longleftrightarrow> cp_action cp = POLICY_ACTION_ENCRYPT_L2 \<or>
     cp_action cp = POLICY_ACTION_ENCRYPT_L3 \<or> cp_action cp = POLICY_ACTION_ENCRYPT_L4"

definition policy_index_encrypts :: "app_config \<Rightarrow> int \<Rightarrow> bool" where
  "policy_index_encrypts cfg pix \<longleftrightarrow> \<not> (pix < 0 \<or> pix \<ge> int (length (ac_policies cfg))) \<and>
     crypto_policy_is_encrypt_action (ac_policies cfg ! nat pix)"

text \<open>The same search decides the warning and \<^verbatim>\<open>require_filter\<close>.\<close>

definition cfg_has_encrypt_policies :: "app_config \<Rightarrow> bool" where
  "cfg_has_encrypt_policies cfg \<longleftrightarrow>
     list_ex (\<lambda>p. list_ex (policy_index_encrypts cfg) (pr_policy_indices p)) (take MAX_PROFILES (ac_profiles cfg))"

text \<open>\<^verbatim>\<open>XDP_RULE_SRC_ANY\<close>, \<^verbatim>\<open>XDP_RULE_DST_ANY\<close>, \<^verbatim>\<open>XDP_RULE_SRC_NEG\<close> and \<^verbatim>\<open>XDP_RULE_DST_NEG\<close> are the
  first four bits.\<close>

definition rule_flags :: "crypto_policy \<Rightarrow> u32" where
  "rule_flags cp =
     (let flags = 0;
          flags = (if cp_src_any cp then flags OR 1 else flags);
          flags = (if cp_dst_any cp then flags OR 2 else flags);
          flags = (if cp_src_negate cp then flags OR 4 else flags)
      in if cp_dst_negate cp then flags OR 8 else flags)"

definition rule_of :: "crypto_policy \<Rightarrow> xdp_encrypt_rule_user" where
  "rule_of cp = \<lparr>er_src_net = cp_src_net cp, er_src_mask = cp_src_mask cp, er_dst_net = cp_dst_net cp,
     er_dst_mask = cp_dst_mask cp, er_flags = rule_flags cp, er_protocol = cp_protocol cp,
     er_src_port_from = cp_src_port_from cp, er_src_port_to = cp_src_port_to cp,
     er_dst_port_from = cp_dst_port_from cp, er_dst_port_to = cp_dst_port_to cp\<rparr>"

text \<open>The filled part of \<^verbatim>\<open>encrypt_pack\<close> is a list, its length \<^verbatim>\<open>enc_pos\<close>; the number is \<^verbatim>\<open>added_enc\<close>.\<close>

fun pack_policies ::
    "app_config \<Rightarrow> int list \<Rightarrow> xdp_encrypt_rule_user list \<Rightarrow> nat \<Rightarrow> xdp_encrypt_rule_user list \<times> nat" where
  "pack_policies cfg [] pack added = (pack, added)"
| "pack_policies cfg (pix # js) pack added =
     (if pix < 0 \<or> pix \<ge> int (length (ac_policies cfg)) then pack_policies cfg js pack added
      else let cp = ac_policies cfg ! nat pix
        in if \<not> crypto_policy_is_encrypt_action cp then pack_policies cfg js pack added
        else if length pack \<ge> MAX_ENCRYPT_PACK_BPF then (pack, added)
        else pack_policies cfg js (pack @ [rule_of cp]) (added + 1))"

fun pack_profiles ::
    "app_config \<Rightarrow> profile_config list \<Rightarrow> xdp_encrypt_rule_user list \<Rightarrow>
     xdp_profile_meta_user list \<times> xdp_encrypt_rule_user list" where
  "pack_profiles cfg [] pack = ([], pack)"
| "pack_profiles cfg (p # ps) pack =
     (let enc_start = length pack;
          (pack, added) = pack_policies cfg (pr_policy_indices p) pack 0;
          m = \<lparr>pm_enabled = (if pr_enabled p then 1 else 0), pm_enc_start = of_nat enc_start, pm_enc_num = of_nat added\<rparr>;
          (ms, pack) = pack_profiles cfg ps pack
      in (m # ms, pack))"

text \<open>The three values that are pushed; both arrays are filled up with zeros.\<close>

definition encrypt_filters ::
    "app_config \<Rightarrow> xdp_encrypt_ctrl_user \<times> xdp_profile_meta_user list \<times> xdp_encrypt_rule_user list" where
  "encrypt_filters cfg =
     (let npc = min (length (ac_profiles cfg)) MAX_PROFILES_BPF;
          (ms, pack) = pack_profiles cfg (take npc (ac_profiles cfg)) []
      in (\<lparr>ec_profile_count = of_nat npc, ec_require_filter = (if cfg_has_encrypt_policies cfg then 1 else 0)\<rparr>,
          ms @ replicate (MAX_PROFILES_BPF - length ms) zero_meta,
          pack @ replicate (MAX_ENCRYPT_PACK_BPF - length pack) zero_rule))"

section \<open>Pushing\<close>

record bpf_maps =
  bm_ctrl :: "int \<Rightarrow> xdp_encrypt_ctrl_user"
  bm_meta :: "int \<Rightarrow> u32 \<Rightarrow> xdp_profile_meta_user"
  bm_rules :: "int \<Rightarrow> u32 \<Rightarrow> xdp_encrypt_rule_user"
  bm_ingress :: "int \<Rightarrow> u32 \<rightharpoonup> u32"

text \<open>An array is written key by key until an update fails.\<close>

fun update_array :: "(u32 \<Rightarrow> bool) \<Rightarrow> nat \<Rightarrow> 'v list \<Rightarrow> (u32 \<Rightarrow> 'v) \<Rightarrow> u32 \<Rightarrow> 'v" where
  "update_array fails k [] m = m"
| "update_array fails k (v # vs) m =
     (if fails (of_nat k) then m else update_array fails (Suc k) vs (m(of_nat k := v)))"

text \<open>The profile of an interface: the first LAN interface of that number decides, and the WAN
  interfaces only when it gave none.\<close>

definition profile_of_ifindex :: "(string \<Rightarrow> u32) \<Rightarrow> app_config \<Rightarrow> u32 \<Rightarrow> nat option" where
  "profile_of_ifindex nametoindex cfg ifix =
     (let lan = (case find (\<lambda>j. nametoindex (lc_ifname (ac_locals cfg ! j)) = ifix) [0..<length (ac_locals cfg)] of
            None \<Rightarrow> None | Some j \<Rightarrow> config_select_profile_for_local cfg (int j))
      in case lan of
          Some prof \<Rightarrow> Some prof
        | None \<Rightarrow> (case find (\<lambda>j. nametoindex (wc_ifname (ac_wans cfg ! j)) = ifix) [0..<length (ac_wans cfg)] of
            None \<Rightarrow> None | Some j \<Rightarrow> config_select_profile_for_wan cfg (int j)))"

definition push_ingress ::
    "(string \<Rightarrow> u32) \<Rightarrow> (int \<Rightarrow> u32 \<Rightarrow> bool) \<Rightarrow> app_config \<Rightarrow> encrypt_bundle \<Rightarrow> bpf_maps \<Rightarrow> bpf_maps" where
  "push_ingress nametoindex fails cfg b m =
     (let ip_fd = eb_ingress_fd b; ifix = eb_ifindex b; npc = min (length (ac_profiles cfg)) MAX_PROFILES_BPF
      in if \<not> (ip_fd \<ge> 0 \<and> ifix \<noteq> 0) \<or> fails ip_fd ifix then m
      else m\<lparr>bm_ingress := (bm_ingress m)(ip_fd := (bm_ingress m ip_fd)(ifix :=
             (case profile_of_ifindex nametoindex cfg ifix of
                Some prof \<Rightarrow> if prof < npc then Some (of_nat prof) else None
              | None \<Rightarrow> None)))\<rparr>)"

definition push_bundle ::
    "(string \<Rightarrow> u32) \<Rightarrow> (int \<Rightarrow> u32 \<Rightarrow> bool) \<Rightarrow> app_config \<Rightarrow> encrypt_bundle \<Rightarrow> bool \<times> bpf_maps \<Rightarrow> bool \<times> bpf_maps" where
  "push_bundle nametoindex fails cfg b s =
     (let (ok, m) = s; (ctrl, meta, pack) = encrypt_filters cfg
      in if fails (eb_ctrl_fd b) 0 then (ok, m)
      else let m = m\<lparr>bm_ctrl := (bm_ctrl m)(eb_ctrl_fd b := ctrl)\<rparr>;
               m = m\<lparr>bm_meta := (bm_meta m)(eb_meta_fd b := update_array (fails (eb_meta_fd b)) 0 meta (bm_meta m (eb_meta_fd b)))\<rparr>;
               m = m\<lparr>bm_rules := (bm_rules m)(eb_pack_fd b := update_array (fails (eb_pack_fd b)) 0 pack (bm_rules m (eb_pack_fd b)))\<rparr>
           in (True, push_ingress nametoindex fails cfg b m))"

definition interface_push_encrypt_filters ::
    "(string \<Rightarrow> u32) \<Rightarrow> (int \<Rightarrow> u32 \<Rightarrow> bool) \<Rightarrow> app_config \<Rightarrow> encrypt_bundle list \<Rightarrow> bpf_maps \<Rightarrow> int \<times> bpf_maps" where
  "interface_push_encrypt_filters nametoindex fails cfg bs m =
     (if bs = [] then (0, m)
      else let (ok, m) = fold (push_bundle nametoindex fails cfg) bs (False, m) in (if ok then 0 else -1, m))"

section \<open>Packing keeps the order of the policies\<close>

text \<open>What the rules of a profile are meant to be.\<close>

definition profile_rules :: "app_config \<Rightarrow> profile_config \<Rightarrow> xdp_encrypt_rule_user list" where
  "profile_rules cfg p =
     map (\<lambda>pix. rule_of (ac_policies cfg ! nat pix)) (filter (policy_index_encrypts cfg) (pr_policy_indices p))"

lemma pack_policies_spec:
  assumes "length pack \<le> MAX_ENCRYPT_PACK_BPF"
  shows "pack_policies cfg js pack added =
    (let new = take (MAX_ENCRYPT_PACK_BPF - length pack)
        (map (\<lambda>pix. rule_of (ac_policies cfg ! nat pix)) (filter (policy_index_encrypts cfg) js))
     in (pack @ new, added + length new))"
  using assms
proof (induction js arbitrary: pack added)
  case (Cons pix js)
  show ?case
  proof (cases "policy_index_encrypts cfg pix \<and> length pack < MAX_ENCRYPT_PACK_BPF")
    case True
    then have "MAX_ENCRYPT_PACK_BPF - length pack = Suc (MAX_ENCRYPT_PACK_BPF - Suc (length pack))" by linarith
    then show ?thesis
      using True Cons.IH [of "pack @ [rule_of (ac_policies cfg ! nat pix)]" "added + 1"]
      by (simp add: policy_index_encrypts_def Let_def)
  next
    case False
    then show ?thesis using Cons.IH [OF Cons.prems, of added] Cons.prems
      by (auto simp: policy_index_encrypts_def Let_def)
  qed
qed (simp add: Let_def)

lemma pack_profiles_spec:
  assumes "length pack \<le> MAX_ENCRYPT_PACK_BPF" and "pack_profiles cfg ps pack = (ms, pack')"
  shows "length ms = length ps \<and> length pack' \<le> MAX_ENCRYPT_PACK_BPF \<and> (\<exists>ext. pack' = pack @ ext) \<and>
    (\<forall>i < length ps. pm_enabled (ms ! i) = (if pr_enabled (ps ! i) then 1 else 0) \<and>
       (let start = length pack + sum_list (map (\<lambda>p. length (profile_rules cfg p)) (take i ps));
            rules = take (MAX_ENCRYPT_PACK_BPF - start) (profile_rules cfg (ps ! i))
        in pm_enc_start (ms ! i) = of_nat (min MAX_ENCRYPT_PACK_BPF start) \<and> pm_enc_num (ms ! i) = of_nat (length rules) \<and>
           take (length rules) (drop (min MAX_ENCRYPT_PACK_BPF start) pack') = rules))"
  using assms
proof (induction ps arbitrary: pack ms pack')
  case (Cons p ps)
  define new where "new = take (MAX_ENCRYPT_PACK_BPF - length pack) (profile_rules cfg p)"
  have pp: "pack_policies cfg (pr_policy_indices p) pack 0 = (pack @ new, length new)"
    using pack_policies_spec [OF Cons.prems(1)] by (simp add: new_def profile_rules_def Let_def)
  obtain ms1 where r: "pack_profiles cfg ps (pack @ new) = (ms1, pack')"
      "ms = \<lparr>pm_enabled = (if pr_enabled p then 1 else 0), pm_enc_start = of_nat (length pack), pm_enc_num = of_nat (length new)\<rparr> # ms1"
    using Cons.prems(2) pp by (auto simp: Let_def split: prod.splits)
  have len: "length (pack @ new) \<le> MAX_ENCRYPT_PACK_BPF" using Cons.prems(1) by (simp add: new_def)
  note IH = Cons.IH [OF len r(1)]
  have full: "min MAX_ENCRYPT_PACK_BPF (length pack + length new + k) = min MAX_ENCRYPT_PACK_BPF (length pack + (length (profile_rules cfg p) + k))"
      "MAX_ENCRYPT_PACK_BPF - (length pack + length new + k) = MAX_ENCRYPT_PACK_BPF - (length pack + (length (profile_rules cfg p) + k))" for k
    using Cons.prems(1) by (auto simp: new_def min_def)
  from IH obtain ext where ext: "pack' = (pack @ new) @ ext" by blast
  show ?case
  proof (intro conjI allI impI)
    show "length ms = length (p # ps)" "length pack' \<le> MAX_ENCRYPT_PACK_BPF" "\<exists>ext. pack' = pack @ ext"
      using IH r(2) by auto
  next
    fix i assume i: "i < length (p # ps)"
    show "pm_enabled (ms ! i) = (if pr_enabled ((p # ps) ! i) then 1 else 0)" using IH r(2) i by (cases i) auto
    show "let start = length pack + sum_list (map (\<lambda>p. length (profile_rules cfg p)) (take i (p # ps)));
            rules = take (MAX_ENCRYPT_PACK_BPF - start) (profile_rules cfg ((p # ps) ! i))
        in pm_enc_start (ms ! i) = of_nat (min MAX_ENCRYPT_PACK_BPF start) \<and> pm_enc_num (ms ! i) = of_nat (length rules) \<and>
           take (length rules) (drop (min MAX_ENCRYPT_PACK_BPF start) pack') = rules"
    proof (cases i)
      case 0
      have start: "length pack + sum_list (map (\<lambda>p. length (profile_rules cfg p)) (take 0 (p # ps))) = length pack"
          "take (MAX_ENCRYPT_PACK_BPF - length pack) (profile_rules cfg ((p # ps) ! 0)) = new"
          "min MAX_ENCRYPT_PACK_BPF (length pack) = length pack"
        using Cons.prems(1) by (simp_all add: new_def)
      show ?thesis unfolding 0 Let_def start using r(2) ext by simp
    next
      case (Suc j)
      then have "j < length ps" using i by simp
      with IH have "let start = length (pack @ new) + sum_list (map (\<lambda>p. length (profile_rules cfg p)) (take j ps));
            rules = take (MAX_ENCRYPT_PACK_BPF - start) (profile_rules cfg (ps ! j))
        in pm_enc_start (ms1 ! j) = of_nat (min MAX_ENCRYPT_PACK_BPF start) \<and> pm_enc_num (ms1 ! j) = of_nat (length rules) \<and>
           take (length rules) (drop (min MAX_ENCRYPT_PACK_BPF start) pack') = rules" by blast
      then show ?thesis unfolding Let_def length_append full using Suc r(2) by simp
    qed
  qed
qed simp

section \<open>What the kernel holds after a push\<close>

lemma update_array_all:
  assumes "\<And>k. \<not> fails k" "k + length vs \<le> 2 ^ 32"
  shows "update_array fails k vs m x = (if k \<le> unat x \<and> unat x < k + length vs then vs ! (unat x - k) else m x)"
  using assms(2)
proof (induction vs arbitrary: k m)
  case (Cons v vs)
  have "unat (of_nat k :: u32) = k" using Cons.prems by (simp add: unat_of_nat take_bit_nat_eq_self)
  then have "x = of_nat k \<longleftrightarrow> unat x = k" by (simp add: word_unat_eq_iff)
  then show ?case using Cons assms(1) by (auto simp: nth_Cons' Suc_diff_le)
qed auto

lemma update_array_nth:
  assumes "\<And>k. \<not> fails k" "k < length vs" "length vs \<le> 2 ^ 32"
  shows "update_array fails 0 vs g (of_nat k) = vs ! k"
proof -
  have "unat (of_nat k :: u32) = k" using assms(2,3) by (simp add: unat_of_nat take_bit_nat_eq_self)
  then show ?thesis using update_array_all [of fails 0 vs g "of_nat k"] assms by simp
qed

text \<open>The rules that the maps of a bundle hold for a profile: the part of the array that the entry of
  the profile names.\<close>

definition kernel_rules :: "bpf_maps \<Rightarrow> encrypt_bundle \<Rightarrow> nat \<Rightarrow> xdp_encrypt_rule_user list" where
  "kernel_rules m b pi =
     (let e = bm_meta m (eb_meta_fd b) (of_nat pi)
      in map (\<lambda>k. bm_rules m (eb_pack_fd b) (pm_enc_start e + of_nat k)) [0..<unat (pm_enc_num e)])"

text \<open>A bundle holds the filters of the configuration.\<close>

definition holds_filters :: "app_config \<Rightarrow> bpf_maps \<Rightarrow> encrypt_bundle \<Rightarrow> bool" where
  "holds_filters cfg m b \<longleftrightarrow> (let (ctrl, meta, pack) = encrypt_filters cfg
     in bm_ctrl m (eb_ctrl_fd b) = ctrl \<and>
        (\<forall>k < length meta. bm_meta m (eb_meta_fd b) (of_nat k) = meta ! k) \<and>
        (\<forall>k < length pack. bm_rules m (eb_pack_fd b) (of_nat k) = pack ! k))"

lemma encrypt_filters_lengths:
  "length (fst (snd (encrypt_filters cfg))) = MAX_PROFILES_BPF" "length (snd (snd (encrypt_filters cfg))) = MAX_ENCRYPT_PACK_BPF"
proof -
  obtain ms pack where r: "pack_profiles cfg (take (min (length (ac_profiles cfg)) MAX_PROFILES_BPF) (ac_profiles cfg)) [] = (ms, pack)"
    by (cases "pack_profiles cfg (take (min (length (ac_profiles cfg)) MAX_PROFILES_BPF) (ac_profiles cfg)) []")
  then show "length (fst (snd (encrypt_filters cfg))) = MAX_PROFILES_BPF" "length (snd (snd (encrypt_filters cfg))) = MAX_ENCRYPT_PACK_BPF"
    using pack_profiles_spec [OF _ r] by (simp_all add: encrypt_filters_def Let_def)
qed

lemma push_bundle_holds:
  assumes "\<And>fd k. \<not> fails fd k" "push_bundle nametoindex fails cfg b (ok, m) = (ok', m')"
  shows "ok' \<and> holds_filters cfg m' b \<and> (\<forall>b'. holds_filters cfg m b' \<longrightarrow> holds_filters cfg m' b')"
proof -
  obtain ctrl meta pack where f: "encrypt_filters cfg = (ctrl, meta, pack)" by (metis prod_cases3)
  have len: "length meta = MAX_PROFILES_BPF" "length pack = MAX_ENCRYPT_PACK_BPF" using encrypt_filters_lengths [of cfg] f by simp_all
  have ing: "bm_ctrl (push_ingress nametoindex fails cfg b m) = bm_ctrl m" "bm_meta (push_ingress nametoindex fails cfg b m) = bm_meta m"
      "bm_rules (push_ingress nametoindex fails cfg b m) = bm_rules m" for m
    by (simp_all add: push_ingress_def Let_def)
  have r: "ok' = True" "m' = push_ingress nametoindex fails cfg b
      (m\<lparr>bm_ctrl := (bm_ctrl m)(eb_ctrl_fd b := ctrl),
         bm_meta := (bm_meta m)(eb_meta_fd b := update_array (fails (eb_meta_fd b)) 0 meta (bm_meta m (eb_meta_fd b))),
         bm_rules := (bm_rules m)(eb_pack_fd b := update_array (fails (eb_pack_fd b)) 0 pack (bm_rules m (eb_pack_fd b)))\<rparr>)"
    using assms by (simp_all add: push_bundle_def f Let_def)
  show ?thesis using len by (auto simp: r holds_filters_def f ing update_array_nth assms(1))
qed

lemma push_all_hold:
  assumes "\<And>fd k. \<not> fails fd k" "fold (push_bundle nametoindex fails cfg) bs (ok, m) = (ok', m')"
  shows "(bs \<noteq> [] \<longrightarrow> ok') \<and> (\<forall>b. b \<in> set bs \<or> holds_filters cfg m b \<longrightarrow> holds_filters cfg m' b)"
  using assms(2)
proof (induction bs arbitrary: ok m)
  case (Cons b bs)
  obtain ok1 m1 where r: "push_bundle nametoindex fails cfg b (ok, m) = (ok1, m1)" by force
  note first = push_bundle_holds [OF assms(1) r]
  have run: "fold (push_bundle nametoindex fails cfg) bs (ok1, m1) = (ok', m')" using Cons.prems r by simp
  show ?case using Cons.IH [OF run] first run by (cases bs) auto
qed simp

lemma holds_filters_rules:
  assumes h: "holds_filters cfg m b" and pi: "pi < min (length (ac_profiles cfg)) MAX_PROFILES_BPF"
  shows "pm_enabled (bm_meta m (eb_meta_fd b) (of_nat pi)) = (if pr_enabled (ac_profiles cfg ! pi) then 1 else 0)"
    "kernel_rules m b pi = take (MAX_ENCRYPT_PACK_BPF - sum_list (map (\<lambda>p. length (profile_rules cfg p)) (take pi (ac_profiles cfg))))
       (profile_rules cfg (ac_profiles cfg ! pi))"
proof -
  define ps where "ps = take (min (length (ac_profiles cfg)) MAX_PROFILES_BPF) (ac_profiles cfg)"
  obtain ms pack where r: "pack_profiles cfg ps [] = (ms, pack)" by (cases "pack_profiles cfg ps []")
  have p: "pi < length ps" "ps ! pi = ac_profiles cfg ! pi" "take pi ps = take pi (ac_profiles cfg)"
    using pi by (auto simp: ps_def min_def)
  define start where "start = sum_list (map (\<lambda>p. length (profile_rules cfg p)) (take pi (ac_profiles cfg)))"
  define rules where "rules = take (MAX_ENCRYPT_PACK_BPF - start) (profile_rules cfg (ac_profiles cfg ! pi))"
  have spec: "length ms = length ps" "length pack \<le> MAX_ENCRYPT_PACK_BPF" "pm_enabled (ms ! pi) = (if pr_enabled (ac_profiles cfg ! pi) then 1 else 0)"
      "pm_enc_start (ms ! pi) = of_nat (min MAX_ENCRYPT_PACK_BPF start)" "pm_enc_num (ms ! pi) = of_nat (length rules)"
      "take (length rules) (drop (min MAX_ENCRYPT_PACK_BPF start) pack) = rules"
    using pack_profiles_spec [OF _ r] p by (auto simp: Let_def start_def rules_def)
  have le: "length ps \<le> MAX_PROFILES_BPF" by (simp add: ps_def)
  have meta: "bm_meta m (eb_meta_fd b) (of_nat pi) = ms ! pi"
    using h p(1) spec(1) le r by (auto simp: holds_filters_def encrypt_filters_def ps_def [symmetric] Let_def nth_append)
  then show "pm_enabled (bm_meta m (eb_meta_fd b) (of_nat pi)) = (if pr_enabled (ac_profiles cfg ! pi) then 1 else 0)"
    using spec(3) by simp
  have num: "unat (of_nat (length rules) :: u32) = length rules"
    by (simp add: unat_of_nat take_bit_nat_eq_self rules_def)
  have array: "\<forall>k < length pack. bm_rules m (eb_pack_fd b) (of_nat k) = pack ! k"
    using h spec(2) r by (auto simp: holds_filters_def encrypt_filters_def ps_def [symmetric] Let_def nth_append)
  have rule: "bm_rules m (eb_pack_fd b) (of_nat (min MAX_ENCRYPT_PACK_BPF start) + of_nat k) = rules ! k" if k: "k < length rules" for k
  proof -
    have "length rules \<le> length pack - min MAX_ENCRYPT_PACK_BPF start" by (metis spec(6) length_take length_drop min.cobounded1)
    then have in_pack: "min MAX_ENCRYPT_PACK_BPF start + k < length pack" using k by simp
    moreover have "rules ! k = pack ! (min MAX_ENCRYPT_PACK_BPF start + k)"
      using arg_cong [OF spec(6), of "\<lambda>xs. xs ! k"] k in_pack by simp
    ultimately show ?thesis using array [rule_format, OF in_pack] by (simp only: of_nat_add)
  qed
  show "kernel_rules m b pi = take (MAX_ENCRYPT_PACK_BPF - sum_list (map (\<lambda>p. length (profile_rules cfg p)) (take pi (ac_profiles cfg))))
       (profile_rules cfg (ac_profiles cfg ! pi))"
    unfolding start_def [symmetric] rules_def [symmetric]
    by (rule nth_equalityI) (simp_all add: kernel_rules_def meta spec(4,5) num rule Let_def)
qed

text \<open>The entry of an interface in the map of the profiles.\<close>

definition ingress_entry :: "(string \<Rightarrow> u32) \<Rightarrow> app_config \<Rightarrow> u32 \<Rightarrow> u32 option" where
  "ingress_entry nametoindex cfg ifix = (case profile_of_ifindex nametoindex cfg ifix of
     Some prof \<Rightarrow> if prof < min (length (ac_profiles cfg)) MAX_PROFILES_BPF then Some (of_nat prof) else None
   | None \<Rightarrow> None)"

lemma push_all_ingress:
  assumes "\<And>fd k. \<not> fails fd k" "fold (push_bundle nametoindex fails cfg) bs (ok, m) = (ok', m')"
    and "(b \<in> set bs \<and> 0 \<le> eb_ingress_fd b \<and> eb_ifindex b \<noteq> 0) \<or>
      bm_ingress m (eb_ingress_fd b) (eb_ifindex b) = ingress_entry nametoindex cfg (eb_ifindex b)"
  shows "bm_ingress m' (eb_ingress_fd b) (eb_ifindex b) = ingress_entry nametoindex cfg (eb_ifindex b)"
  using assms(2,3)
proof (induction bs arbitrary: ok m)
  case (Cons b1 bs)
  obtain ok1 m1 where r: "push_bundle nametoindex fails cfg b1 (ok, m) = (ok1, m1)" by force
  have i: "bm_ingress m1 fd x = (if 0 \<le> eb_ingress_fd b1 \<and> eb_ifindex b1 \<noteq> 0 \<and> fd = eb_ingress_fd b1 \<and> x = eb_ifindex b1
      then ingress_entry nametoindex cfg x else bm_ingress m fd x)" for fd x
    using r assms(1) by (auto simp: push_bundle_def push_ingress_def ingress_entry_def Let_def split: prod.splits)
  have run: "fold (push_bundle nametoindex fails cfg) bs (ok1, m1) = (ok', m')" using Cons.prems(1) r by simp
  show ?case by (rule Cons.IH [OF run]) (use Cons.prems(2) i in auto)
qed auto

text \<open>C39: After a push in which every update succeeds, each registered bundle holds the filters of the
  configuration: for every profile exactly the rules of its encryption policies, in their order,
  as long as the 128 places last, and for its interface the profile that serves it.\<close>

theorem filters_pushed:
  assumes "\<And>fd k. \<not> fails fd k" and "b \<in> set bs"
    and "interface_push_encrypt_filters nametoindex fails cfg bs m = (ret, m')"
  shows "ret = 0 \<and>
    bm_ctrl m' (eb_ctrl_fd b) = \<lparr>ec_profile_count = of_nat (min (length (ac_profiles cfg)) MAX_PROFILES_BPF),
      ec_require_filter = (if cfg_has_encrypt_policies cfg then 1 else 0)\<rparr> \<and>
    (\<forall>pi < min (length (ac_profiles cfg)) MAX_PROFILES_BPF.
       pm_enabled (bm_meta m' (eb_meta_fd b) (of_nat pi)) = (if pr_enabled (ac_profiles cfg ! pi) then 1 else 0) \<and>
       kernel_rules m' b pi = take (MAX_ENCRYPT_PACK_BPF - sum_list (map (\<lambda>p. length (profile_rules cfg p)) (take pi (ac_profiles cfg))))
         (profile_rules cfg (ac_profiles cfg ! pi))) \<and>
    (0 \<le> eb_ingress_fd b \<and> eb_ifindex b \<noteq> 0 \<longrightarrow>
       bm_ingress m' (eb_ingress_fd b) (eb_ifindex b) = ingress_entry nametoindex cfg (eb_ifindex b))"
proof -
  obtain ok where run: "fold (push_bundle nametoindex fails cfg) bs (False, m) = (ok, m')" "ret = (if ok then 0 else -1)" "bs \<noteq> []"
    using assms(2,3) by (auto simp: interface_push_encrypt_filters_def split: if_splits prod.splits)
  note hold = push_all_hold [OF assms(1) run(1)]
  then have h: "holds_filters cfg m' b" using assms(2) by blast
  then have "bm_ctrl m' (eb_ctrl_fd b) = \<lparr>ec_profile_count = of_nat (min (length (ac_profiles cfg)) MAX_PROFILES_BPF),
      ec_require_filter = (if cfg_has_encrypt_policies cfg then 1 else 0)\<rparr>"
    by (auto simp: holds_filters_def encrypt_filters_def Let_def split: prod.splits)
  then show ?thesis
    using run(2,3) hold holds_filters_rules [OF h] push_all_ingress [OF assms(1) run(1), of b] assms(2) by auto
qed

theorem filters_pushed_witness:
  "\<exists>ret m'. interface_push_encrypt_filters (\<lambda>name. if name = ''lan0'' then 3 else 0) (\<lambda>fd k. False) sample_cfg
      (register_encrypt_bundle 5 6 7 8 3 interface_reset_redirect_maps)
      \<lparr>bm_ctrl = (\<lambda>_. undefined), bm_meta = (\<lambda>_ _. zero_meta), bm_rules = (\<lambda>_ _. zero_rule), bm_ingress = (\<lambda>_ _. None)\<rparr> = (ret, m') \<and>
    ret = 0 \<and> kernel_rules m' \<lparr>eb_ctrl_fd = 5, eb_meta_fd = 6, eb_pack_fd = 7, eb_ingress_fd = 8, eb_ifindex = 3\<rparr> 0 = [rule_of sample_policy] \<and>
    bm_ingress m' 8 3 = Some 0"
proof -
  let ?b = "\<lparr>eb_ctrl_fd = 5, eb_meta_fd = 6, eb_pack_fd = 7, eb_ingress_fd = 8, eb_ifindex = 3\<rparr>" and ?n = "\<lambda>name. if name = ''lan0'' then 3 else 0 :: u32"
  let ?m = "\<lparr>bm_ctrl = (\<lambda>_. undefined), bm_meta = (\<lambda>_ _. zero_meta), bm_rules = (\<lambda>_ _. zero_rule), bm_ingress = (\<lambda>_ _. None)\<rparr>"
  obtain ret m' where r: "interface_push_encrypt_filters ?n (\<lambda>fd k. False) sample_cfg
      (register_encrypt_bundle 5 6 7 8 3 interface_reset_redirect_maps) ?m = (ret, m')" by force
  have "profile_rules sample_cfg (ac_profiles sample_cfg ! 0) = [rule_of sample_policy]" "length (ac_profiles sample_cfg) = 1"
    by (simp_all add: profile_rules_def sample_cfg_def sample_profile_def policy_index_encrypts_def
        crypto_policy_is_encrypt_action_def sample_policy_def)
  moreover have "ingress_entry ?n sample_cfg 3 = Some 0"
    by (simp add: ingress_entry_def profile_of_ifindex_def config_select_profile_for_local_def sample_cfg_def sample_profile_def sample_local_def)
  ultimately show ?thesis
    using filters_pushed [OF _ _ r, of ?b] r by (simp add: register_encrypt_bundle_def interface_reset_redirect_maps_def)
qed

end
