(* ===== verification/Setup.thy ===== *)
theory Setup
  imports Filters Ports
begin

text \<open>
  Creating and cleaning up the interfaces, \<^verbatim>\<open>src/src/core/interface.c\<close>: what the process acquires
  and gives back (BPF objects, packet memory, its registration with the kernel, sockets), and
  the sizes, addresses and queues with which an interface starts.

  A resource is a number that was never used before, with its kind.  Giving back a resource that
  the process does not hold (a second \<^verbatim>\<open>free\<close> or \<^verbatim>\<open>xsk_socket__delete\<close>) is undefined behaviour,
  \<^term>\<open>None\<close>.  A pointer is a number, the null pointer \<^term>\<open>None\<close>; a pointer to something that was
  given back stays what it was.  Writing the fake ethertype to the map of the WAN program, whose failure
  is only printed, is left out.  What each call of the system answers is an input, also the rings
  that the kernel hands out with a socket.
\<close>

section \<open>Resources\<close>

datatype resource_kind = Bpf_object | Packet_memory | Umem | Xsk_socket

record system_state =
  ss_live :: "(nat \<times> resource_kind) set"
  ss_next :: nat
  ss_attached :: "u32 set"

definition acquire :: "resource_kind \<Rightarrow> system_state \<Rightarrow> nat \<times> system_state" where
  "acquire k s = (ss_next s, s\<lparr>ss_live := insert (ss_next s, k) (ss_live s), ss_next := ss_next s + 1\<rparr>)"

definition give_back :: "resource_kind \<Rightarrow> nat \<Rightarrow> system_state \<Rightarrow> system_state option" where
  "give_back k h s = (if (h, k) \<in> ss_live s then Some (s\<lparr>ss_live := ss_live s - {(h, k)}\<rparr>) else None)"

text \<open>\<^verbatim>\<open>if (p) free(p)\<close>.\<close>

definition give_back_if :: "resource_kind \<Rightarrow> nat option \<Rightarrow> system_state \<Rightarrow> system_state option" where
  "give_back_if k p s = (case p of None \<Rightarrow> Some s | Some h \<Rightarrow> give_back k h s)"

section \<open>Interfaces\<close>

text \<open>The pointers of a queue and of an interface; \<^verbatim>\<open>queue_count\<close> is the length of the list.\<close>

record queue_handles =
  qh_xsk :: "nat option"
  qh_umem :: "nat option"
  qh_bufs :: "nat option"

record iface_handles =
  ih_ifindex :: u32
  ih_queues :: "queue_handles list"
  ih_own :: queue_handles
  ih_data :: xsk_interface

definition zero_queue :: queue_handles where
  "zero_queue = \<lparr>qh_xsk = None, qh_umem = None, qh_bufs = None\<rparr>"

definition zero_data :: xsk_interface where
  "zero_data = \<lparr>xi_umem_size = 0, xi_ring_size = 0, xi_frame_size = 0, xi_batch_size = 0, xi_queues = [],
     xi_src_mac = replicate 6 0, xi_dst_mac = replicate 6 0, xi_rx_packets = 0, xi_tx_packets = 0, xi_tx_bytes = 0\<rparr>"

definition zero_iface :: iface_handles where
  "zero_iface = \<lparr>ih_ifindex = 0, ih_queues = [], ih_own = zero_queue, ih_data = zero_data\<rparr>"

text \<open>The fields that \<^verbatim>\<open>interface_init_wan_rx\<close> takes from the configuration.\<close>

definition interface_of_wan :: "wan_config \<Rightarrow> xsk_interface" where
  "interface_of_wan w =
     \<lparr>xi_umem_size = unat (wc_umem_mb w) * 1024 * 1024, xi_ring_size = wc_ring_size w, xi_frame_size = wc_frame_size w,
      xi_batch_size = wc_batch_size w, xi_queues = [], xi_src_mac = wc_src_mac w, xi_dst_mac = wc_dst_mac w,
      xi_rx_packets = 0, xi_tx_packets = 0, xi_tx_bytes = 0\<rparr>"

text \<open>What the system answers while an interface is created.  The descriptors of the filter maps
  are -1 where the object has no such map.\<close>

record create_env =
  ce_ifindex :: u32
  ce_file :: bool
  ce_open :: bool
  ce_load :: bool
  ce_program :: bool
  ce_xsks_map :: bool
  ce_filter_fds :: "int \<times> int \<times> int \<times> int"
  ce_bufs :: "nat \<Rightarrow> bool"
  ce_umem :: "nat \<Rightarrow> bool"
  ce_socket :: "nat \<Rightarrow> bool"
  ce_rings :: "nat \<Rightarrow> xsk_queue"
  ce_map_update :: "nat \<Rightarrow> bool"
  ce_attach :: bool

abbreviation (input) XSK_QUEUE_COUNT :: nat where "XSK_QUEUE_COUNT \<equiv> 1"

text \<open>One pass of the loop over the queues; nothing is returned when a call fails.  At last the first
  frames are offered to the kernel.\<close>

definition create_queue ::
    "create_env \<Rightarrow> xsk_interface \<Rightarrow> nat \<Rightarrow> system_state \<Rightarrow> ((queue_handles \<times> xsk_queue) option \<times> system_state) option" where
  "create_queue env data q s =
     (if \<not> ce_bufs env q then Some (None, s)
      else let (bufs, s) = acquire Packet_memory s
        in if \<not> ce_umem env q then do {
             s \<leftarrow> give_back Packet_memory bufs s;
             Some (None, s)
           }
        else let (umem, s) = acquire Umem s
        in if \<not> ce_socket env q then do {
             s \<leftarrow> give_back Umem umem s;
             s \<leftarrow> give_back Packet_memory bufs s;
             Some (None, s)
           }
        else let (xsk, s) = acquire Xsk_socket s
        in if \<not> ce_map_update env q then do {
             s \<leftarrow> give_back Xsk_socket xsk s;
             s \<leftarrow> give_back Umem umem s;
             s \<leftarrow> give_back Packet_memory bufs s;
             Some (None, s)
           }
        else do {
          queue \<leftarrow> queue_fill data (ce_rings env q);
          Some (Some (\<lparr>qh_xsk = Some xsk, qh_umem = Some umem, qh_bufs = Some bufs\<rparr>, queue), s)
        })"

text \<open>The flag says whether all queues are there; \<open>n\<close> are left.\<close>

fun create_queues ::
    "create_env \<Rightarrow> nat \<Rightarrow> nat \<Rightarrow> iface_handles \<Rightarrow> system_state \<Rightarrow> (bool \<times> iface_handles \<times> system_state) option" where
  "create_queues env q 0 iface s = Some (True, iface, s)"
| "create_queues env q (Suc n) iface s = do {
     (r, s) \<leftarrow> create_queue env (ih_data iface) q s;
     case r of
       None \<Rightarrow> Some (False, iface, s)
     | Some (h, queue) \<Rightarrow> create_queues env (Suc q) n
         (iface\<lparr>ih_queues := ih_queues iface @ [h],
                ih_data := (ih_data iface)\<lparr>xi_queues := xi_queues (ih_data iface) @ [queue]\<rparr>\<rparr>) s
   }"

definition release_queue :: "queue_handles \<Rightarrow> system_state \<Rightarrow> system_state option" where
  "release_queue h s = do {
     s \<leftarrow> give_back_if Xsk_socket (qh_xsk h) s;
     s \<leftarrow> give_back_if Umem (qh_umem h) s;
     give_back_if Packet_memory (qh_bufs h) s
   }"

fun release_queues :: "queue_handles list \<Rightarrow> system_state \<Rightarrow> system_state option" where
  "release_queues [] s = Some s"
| "release_queues (h # hs) s = do { s \<leftarrow> release_queue h s; release_queues hs s }"

definition interface_xdp_try_detach :: "u32 \<Rightarrow> system_state \<Rightarrow> system_state" where
  "interface_xdp_try_detach ifindex s = s\<lparr>ss_attached := ss_attached s - {ifindex}\<rparr>"

text \<open>\<^verbatim>\<open>err_queues\<close>: the pointers in the interface stay as they are.\<close>

definition err_queues :: "iface_handles \<Rightarrow> nat \<Rightarrow> system_state \<Rightarrow> system_state option" where
  "err_queues iface obj s = do {
     s \<leftarrow> release_queues (ih_queues iface) s;
     give_back Bpf_object obj (interface_xdp_try_detach (ih_ifindex iface) s)
   }"

text \<open>The XDP object, up to the map of the sockets; nothing is returned when a call fails.\<close>

definition load_object :: "create_env \<Rightarrow> system_state \<Rightarrow> (nat option \<times> system_state) option" where
  "load_object env s =
     (if \<not> ce_file env \<or> \<not> ce_open env then Some (None, s)
      else let (obj, s) = acquire Bpf_object s
        in if \<not> ce_load env \<or> \<not> ce_program env \<or> \<not> ce_xsks_map env then do {
             s \<leftarrow> give_back Bpf_object obj s;
             Some (None, s)
           }
        else Some (Some obj, s))"

definition register_filters :: "create_env \<Rightarrow> encrypt_bundle list \<Rightarrow> encrypt_bundle list" where
  "register_filters env bs = (case ce_filter_fds env of (ctrl_fd, meta_fd, enc_fd, ingress_fd) \<Rightarrow>
     if ctrl_fd \<ge> 0 \<and> meta_fd \<ge> 0 \<and> enc_fd \<ge> 0
     then register_encrypt_bundle ctrl_fd meta_fd enc_fd ingress_fd (ce_ifindex env) bs else bs)"

type_synonym created = "int \<times> iface_handles \<times> encrypt_bundle list \<times> system_state"

text \<open>Both kinds of interface are created alike, with the sizes and addresses of \<open>data\<close>; \<open>own\<close> is what the
  interface keeps itself of its queues.\<close>

definition create_interface ::
    "(queue_handles list \<Rightarrow> queue_handles) \<Rightarrow> xsk_interface \<Rightarrow> create_env \<Rightarrow> encrypt_bundle list \<Rightarrow> system_state \<Rightarrow> created option" where
  "create_interface own data env bs s =
     (let iface = zero_iface\<lparr>ih_ifindex := ce_ifindex env,
            ih_data := zero_data\<lparr>xi_src_mac := xi_src_mac data, xi_dst_mac := xi_dst_mac data\<rparr>\<rparr>
      in if ih_ifindex iface = 0 then Some (-1, iface, bs, s)
      else do {
        (obj, s) \<leftarrow> load_object env (interface_xdp_try_detach (ih_ifindex iface) s);
        case obj of
          None \<Rightarrow> Some (-1, iface, bs, s)
        | Some obj \<Rightarrow> do {
            let bs = register_filters env bs;
            (ok, iface, s) \<leftarrow> create_queues env 0 XSK_QUEUE_COUNT (iface\<lparr>ih_data := data\<rparr>) s;
            if ok \<and> ce_attach env
            then Some (0, iface\<lparr>ih_own := own (ih_queues iface)\<rparr>, bs,
                   s\<lparr>ss_attached := insert (ih_ifindex iface) (ss_attached s)\<rparr>)
            else do {
              s \<leftarrow> err_queues iface obj s;
              Some (-1, iface, bs, s)
            }
          }
      })"

definition interface_init_local :: "local_config \<Rightarrow> create_env \<Rightarrow> encrypt_bundle list \<Rightarrow> system_state \<Rightarrow> created option" where
  "interface_init_local l = create_interface (\<lambda>qs. zero_queue) (interface_of_local l)"

text \<open>The interface of a WAN link also keeps the pointers of its first queue.\<close>

definition interface_init_wan_rx :: "wan_config \<Rightarrow> create_env \<Rightarrow> encrypt_bundle list \<Rightarrow> system_state \<Rightarrow> created option" where
  "interface_init_wan_rx w =
     create_interface (\<lambda>qs. \<lparr>qh_xsk = qh_xsk (hd qs), qh_umem = None, qh_bufs = qh_bufs (hd qs)\<rparr>) (interface_of_wan w)"

definition interface_cleanup :: "iface_handles \<Rightarrow> system_state \<Rightarrow> (iface_handles \<times> system_state) option" where
  "interface_cleanup iface s = do {
     let s = (if ih_ifindex iface \<noteq> 0 then interface_xdp_try_detach (ih_ifindex iface) s else s);
     s \<leftarrow> release_queues (ih_queues iface) s;
     s \<leftarrow> (if ih_queues iface = [] then release_queue (ih_own iface) s else Some s);
     Some (zero_iface, s)
   }"

text \<open>At the start XDP programs of an earlier run are detached.\<close>

definition detach_name :: "(string \<Rightarrow> u32) \<Rightarrow> string \<Rightarrow> system_state \<Rightarrow> system_state" where
  "detach_name nametoindex name s =
     (if name = [] then s
      else let ix = nametoindex name in if ix \<noteq> 0 then interface_xdp_try_detach ix s else s)"

definition interface_xdp_detach_all_from_config :: "(string \<Rightarrow> u32) \<Rightarrow> app_config \<Rightarrow> system_state \<Rightarrow> system_state" where
  "interface_xdp_detach_all_from_config nametoindex cfg s =
     (let s = fold (\<lambda>l. detach_name nametoindex (lc_ifname l)) (take MAX_INTERFACES (ac_locals cfg)) s
      in fold (\<lambda>w. detach_name nametoindex (wc_ifname w)) (take MAX_INTERFACES (ac_wans cfg)) s)"

section \<open>Queue counts of the hardware\<close>

text \<open>What \<^verbatim>\<open>ETHTOOL_GCHANNELS\<close> answers; no answer when the socket or the call fails.\<close>

record ethtool_channels =
  ch_max_rx :: u32
  ch_max_combined :: u32
  ch_rx_count :: u32
  ch_tx_count :: u32
  ch_combined_count :: u32

definition get_rx_queue_count :: "ethtool_channels option \<Rightarrow> int" where
  "get_rx_queue_count channels =
     (case channels of
        None \<Rightarrow> 1
      | Some c \<Rightarrow> let count = sint (ch_combined_count c);
                    count = (if count = 0 then sint (ch_rx_count c) else count);
                    count = (if count = 0 then 1 else count)
                in if count > 64 then 64 else count)"

text \<open>The result, and the channels that are asked for with \<^verbatim>\<open>ETHTOOL_SCHANNELS\<close>, which \<open>set_ok\<close> answers.\<close>

definition interface_set_queue_count ::
    "int \<Rightarrow> ethtool_channels option \<Rightarrow> (ethtool_channels \<Rightarrow> bool) \<Rightarrow> int \<times> ethtool_channels option" where
  "interface_set_queue_count desired_count channels set_ok =
     (let desired_count = (if desired_count < 1 then 1 else desired_count);
          desired_count = (if desired_count > int XSK_QUEUE_COUNT then int XSK_QUEUE_COUNT else desired_count)
      in case channels of
        None \<Rightarrow> (-1, None)
      | Some c \<Rightarrow>
          let max_combined = sint (ch_max_combined c); max_rx = sint (ch_max_rx c);
              current = sint (if ch_combined_count c \<noteq> 0 then ch_combined_count c else ch_rx_count c)
          in if max_combined > 0 then
               let target = (if desired_count > max_combined then max_combined else desired_count)
               in if target = sint (ch_combined_count c) then (target, None)
               else let c = c\<lparr>ch_combined_count := word_of_int target, ch_rx_count := 0, ch_tx_count := 0\<rparr>
               in (if set_ok c then target else if current > 0 then current else 1, Some c)
             else if max_rx > 0 then
               let target = (if desired_count > max_rx then max_rx else desired_count)
               in if target = sint (ch_rx_count c) then (target, None)
               else let c = c\<lparr>ch_rx_count := word_of_int target\<rparr>
               in (if set_ok c then target else if current > 0 then current else 1, Some c)
             else (1, None))"

text \<open>One queue is asked for whatever was desired, so a second queue is never in use.\<close>

lemma set_queue_count_one:
  "fst (interface_set_queue_count d channels set_ok) = 1 \<or>
   fst (interface_set_queue_count d channels set_ok) = -1 \<and> channels = None \<or>
   (\<exists>c. snd (interface_set_queue_count d channels set_ok) = Some c \<and> \<not> set_ok c)"
  by (auto simp: interface_set_queue_count_def Let_def split: option.splits)

section \<open>All interfaces of a forwarder\<close>

fun cleanup_all :: "iface_handles list \<Rightarrow> system_state \<Rightarrow> system_state option" where
  "cleanup_all [] s = Some s"
| "cleanup_all (i # is) s = do { (_, s) \<leftarrow> interface_cleanup i s; cleanup_all is s }"

text \<open>The loop over the LAN interfaces: after a failure the interface is cleaned up although it was
  not counted.\<close>

fun open_locals ::
    "(local_config \<times> create_env) list \<Rightarrow> iface_handles list \<Rightarrow> encrypt_bundle list \<Rightarrow> system_state \<Rightarrow>
     (bool \<times> iface_handles list \<times> encrypt_bundle list \<times> system_state) option" where
  "open_locals [] is bs s = Some (True, is, bs, s)"
| "open_locals ((l, env) # envs) is bs s = do {
     (rc, iface, bs, s) \<leftarrow> interface_init_local l env bs s;
     if rc \<noteq> 0 then do {
       (_, s) \<leftarrow> interface_cleanup iface s;
       Some (False, is, bs, s)
     }
     else open_locals envs (is @ [iface]) bs s
   }"

fun open_wans ::
    "(wan_config \<times> create_env) list \<Rightarrow> iface_handles list \<Rightarrow> encrypt_bundle list \<Rightarrow> system_state \<Rightarrow>
     (bool \<times> iface_handles list \<times> encrypt_bundle list \<times> system_state) option" where
  "open_wans [] is bs s = Some (True, is, bs, s)"
| "open_wans ((w, env) # envs) is bs s = do {
     (rc, iface, bs, s) \<leftarrow> interface_init_wan_rx w env bs s;
     if rc \<noteq> 0 then Some (False, is, bs, s) else open_wans envs (is @ [iface]) bs s
   }"

text \<open>
  What \<^verbatim>\<open>forwarder_init\<close> does with the interfaces when nobody tells it to stop; the flag says
  whether it goes on, otherwise all that was created is cleaned up.  Then \<^verbatim>\<open>forwarder_cleanup\<close>.
\<close>

definition forwarder_open ::
    "(local_config \<times> create_env) list \<Rightarrow> (wan_config \<times> create_env) list \<Rightarrow> system_state \<Rightarrow>
     (bool \<times> iface_handles list \<times> iface_handles list \<times> encrypt_bundle list \<times> system_state) option" where
  "forwarder_open lan wan s = do {
     (ok, locals, bs, s) \<leftarrow> open_locals lan [] interface_reset_redirect_maps s;
     if \<not> ok then do {
       s \<leftarrow> cleanup_all locals s;
       Some (False, locals, [], bs, s)
     }
     else do {
       (ok, wans, bs, s) \<leftarrow> open_wans wan [] bs s;
       if \<not> ok then do {
         s \<leftarrow> cleanup_all wans s;
         s \<leftarrow> cleanup_all locals s;
         Some (False, locals, wans, bs, s)
       }
       else Some (True, locals, wans, bs, s)
     }
   }"

definition forwarder_close :: "iface_handles list \<Rightarrow> iface_handles list \<Rightarrow> system_state \<Rightarrow> system_state option" where
  "forwarder_close locals wans s = do { s \<leftarrow> cleanup_all locals s; cleanup_all wans s }"

section \<open>Giving back\<close>

definition queue_resources :: "queue_handles \<Rightarrow> (nat \<times> resource_kind) list" where
  "queue_resources h = (case qh_xsk h of None \<Rightarrow> [] | Some x \<Rightarrow> [(x, Xsk_socket)]) @
     (case qh_umem h of None \<Rightarrow> [] | Some u \<Rightarrow> [(u, Umem)]) @ (case qh_bufs h of None \<Rightarrow> [] | Some b \<Rightarrow> [(b, Packet_memory)])"

definition iface_resources :: "iface_handles \<Rightarrow> (nat \<times> resource_kind) list" where
  "iface_resources i = concat (map queue_resources (ih_queues i))"

lemma diff_diff: "A - B - C = A - (B \<union> C)" by auto

lemma release_queue_ok:
  assumes "distinct (queue_resources h)" "set (queue_resources h) \<subseteq> ss_live s"
  shows "release_queue h s = Some (s\<lparr>ss_live := ss_live s - set (queue_resources h)\<rparr>)"
  using assms
  by (cases "qh_xsk h"; cases "qh_umem h"; cases "qh_bufs h")
    (simp_all add: release_queue_def queue_resources_def give_back_if_def give_back_def diff_diff insert_commute)

lemma release_queues_ok:
  assumes "distinct (concat (map queue_resources hs))" "set (concat (map queue_resources hs)) \<subseteq> ss_live s"
  shows "release_queues hs s = Some (s\<lparr>ss_live := ss_live s - set (concat (map queue_resources hs))\<rparr>)"
  using assms
proof (induction hs arbitrary: s)
  case (Cons h hs)
  let ?s = "s\<lparr>ss_live := ss_live s - set (queue_resources h)\<rparr>"
  have 1: "release_queue h s = Some ?s" by (rule release_queue_ok) (use Cons.prems in auto)
  have "release_queues hs ?s = Some (?s\<lparr>ss_live := ss_live ?s - set (concat (map queue_resources hs))\<rparr>)"
    by (rule Cons.IH) (use Cons.prems in auto)
  then show ?case using 1 by (simp add: diff_diff del: set_concat)
qed simp

text \<open>Nothing but the given interfaces and \<open>N\<close> BPF objects is held in addition to \<open>L\<close>.\<close>

definition running :: "(nat \<times> resource_kind) set \<Rightarrow> nat \<Rightarrow> iface_handles list \<Rightarrow> system_state \<Rightarrow> bool" where
  "running L N xs s \<longleftrightarrow> (\<forall>r \<in> ss_live s. fst r < ss_next s) \<and> (\<forall>i \<in> set xs. ih_queues i \<noteq> []) \<and>
     distinct (concat (map iface_resources xs)) \<and>
     (\<exists>objs. finite objs \<and> card objs = N \<and> (\<forall>r \<in> objs. snd r = Bpf_object) \<and> L \<inter> objs = {} \<and>
        L \<inter> set (concat (map iface_resources xs)) = {} \<and>
        ss_live s = L \<union> objs \<union> set (concat (map iface_resources xs)))"

lemma running_swap: "running L N (xs @ ys) s \<Longrightarrow> running L N (ys @ xs) s"
  by (auto simp: running_def Un_ac Int_commute)

lemma resources_no_object: "r \<in> set (iface_resources i) \<Longrightarrow> snd r \<noteq> Bpf_object"
  by (auto simp: iface_resources_def queue_resources_def split: option.splits)

lemma cleanup_running:
  assumes "running L N (i # xs) s"
  shows "\<exists>s'. interface_cleanup i s = Some (zero_iface, s') \<and> running L N xs s'"
proof -
  let ?R = "set (iface_resources i)" and ?X = "set (concat (map iface_resources xs))"
  define t where "t = (if ih_ifindex i \<noteq> 0 then interface_xdp_try_detach (ih_ifindex i) s else s)"
  have t: "ss_live t = ss_live s" "ss_next t = ss_next s" by (simp_all add: t_def interface_xdp_try_detach_def)
  obtain objs where o: "finite objs" "card objs = N" "\<forall>r \<in> objs. snd r = Bpf_object" "L \<inter> objs = {}"
      "L \<inter> (?R \<union> ?X) = {}" "ss_live s = L \<union> objs \<union> (?R \<union> ?X)"
    using assms by (auto simp: running_def)
  have d: "distinct (iface_resources i)" "?R \<inter> ?X = {}" "distinct (concat (map iface_resources xs))" "ih_queues i \<noteq> []"
    using assms by (auto simp: running_def)
  have r: "release_queues (ih_queues i) t = Some (t\<lparr>ss_live := ss_live s - ?R\<rparr>)"
    using release_queues_ok [of "ih_queues i" t] d(1) o(6) unfolding iface_resources_def [symmetric] t by auto
  have "objs \<inter> ?R = {}" using o(3) resources_no_object by blast
  then have "ss_live s - ?R = L \<union> objs \<union> ?X" using o(5,6) d(2) by auto
  then have "running L N xs (t\<lparr>ss_live := ss_live s - ?R\<rparr>)"
    using assms o d(3) t(2) unfolding running_def by (auto intro!: exI [of _ objs])
  then show ?thesis using r d(4) by (auto simp: interface_cleanup_def t_def [symmetric] Let_def)
qed

lemma cleanup_all_running: "running L N (xs @ ys) s \<Longrightarrow> \<exists>s'. cleanup_all xs s = Some s' \<and> running L N ys s'"
proof (induction xs arbitrary: s)
  case (Cons i xs)
  from Cons.prems have "running L N (i # (xs @ ys)) s" by simp
  from cleanup_running [OF this] obtain s1 where s1: "interface_cleanup i s = Some (zero_iface, s1)" "running L N (xs @ ys) s1" by blast
  from Cons.IH [OF s1(2)] s1(1) show ?case by auto
qed simp

section \<open>Creating\<close>

text \<open>Every step up to the last one succeeds; the last one is attaching the XDP program.\<close>

definition prepared :: "create_env \<Rightarrow> bool" where
  "prepared env \<longleftrightarrow> ce_ifindex env \<noteq> 0 \<and> ce_file env \<and> ce_open env \<and> ce_load env \<and> ce_program env \<and> ce_xsks_map env \<and>
     ce_bufs env 0 \<and> ce_umem env 0 \<and> ce_socket env 0 \<and> ce_map_update env 0"

text \<open>The kernel hands out empty rings of the sizes asked for, and the sizes are usable.\<close>

definition rings_given :: "xsk_interface \<Rightarrow> create_env \<Rightarrow> bool" where
  "rings_given data env \<longleftrightarrow> xi_queues data = [] \<and> iface_geometry data \<and> queue_created data (ce_rings env 0) \<and>
     unat (xi_ring_size data) * unat (xi_frame_size data) \<le> 2 ^ 32"

lemma first_fill:
  assumes "rings_given data env"
  obtains q where "queue_fill data (ce_rings env 0) = Some q" "iface_ok (data\<lparr>xi_queues := [q]\<rparr>)"
proof -
  obtain q where q: "queue_fill data (ce_rings env 0) = Some q" "queue_inv data (mset [0..<unat (xi_ring_size data)]) q"
    using queue_fill_ok [of data "ce_rings env 0"] assms by (auto simp: rings_given_def)
  then have "queue_inv data (mset (rx_frames data q)) q" by (simp add: queue_inv_def)
  moreover note queue_inv_sizes [of "data\<lparr>xi_queues := [q]\<rparr>" data]
  ultimately show ?thesis using that [OF q(1)] assms by (simp add: iface_ok_def rings_given_def)
qed

lemma create_queue_cases:
  assumes "\<forall>r \<in> ss_live s. fst r < ss_next s" and "queue_fill data (ce_rings env q) = Some queue"
  obtains s' where "create_queue env data q s = Some (None, s')" "ss_live s' = ss_live s" "ss_next s \<le> ss_next s'"
      "\<not> (ce_bufs env q \<and> ce_umem env q \<and> ce_socket env q \<and> ce_map_update env q)"
  | n where "n = ss_next s" "ce_bufs env q \<and> ce_umem env q \<and> ce_socket env q \<and> ce_map_update env q"
      "create_queue env data q s = Some (Some (\<lparr>qh_xsk = Some (n + 2), qh_umem = Some (n + 1), qh_bufs = Some n\<rparr>, queue),
         s\<lparr>ss_live := {(n + 2, Xsk_socket), (n + 1, Umem), (n, Packet_memory)} \<union> ss_live s, ss_next := n + 3\<rparr>)"
proof -
  have new: "(ss_next s + k, r) \<notin> ss_live s" "(ss_next s, r) \<notin> ss_live s" "(Suc (ss_next s), r) \<notin> ss_live s"
      "(Suc (Suc (ss_next s)), r) \<notin> ss_live s" for k r
    using assms(1) by fastforce+
  show ?thesis
  proof (cases "ce_bufs env q \<and> ce_umem env q \<and> ce_socket env q \<and> ce_map_update env q")
    case True
    then show ?thesis using that(2) [of "ss_next s"] assms(2) by (simp add: create_queue_def acquire_def)
  next
    case False
    then show ?thesis
      by (intro that(1) [of "snd (the (create_queue env data q s))"])
        (auto simp: create_queue_def acquire_def give_back_def new)
  qed
qed

lemma load_object_cases:
  assumes "\<forall>r \<in> ss_live s. fst r < ss_next s"
  obtains s' where "load_object env s = Some (None, s')" "ss_live s' = ss_live s" "ss_next s \<le> ss_next s'"
      "\<not> (ce_file env \<and> ce_open env \<and> ce_load env \<and> ce_program env \<and> ce_xsks_map env)"
  | "ce_file env \<and> ce_open env \<and> ce_load env \<and> ce_program env \<and> ce_xsks_map env"
      "load_object env s = Some (Some (ss_next s),
         s\<lparr>ss_live := insert (ss_next s, Bpf_object) (ss_live s), ss_next := ss_next s + 1\<rparr>)"
proof (cases "ce_file env \<and> ce_open env \<and> ce_load env \<and> ce_program env \<and> ce_xsks_map env")
  case True
  then show ?thesis using that(2) by (simp add: load_object_def acquire_def)
next
  case False
  have "(ss_next s, r) \<notin> ss_live s" for r using assms by fastforce
  then show ?thesis using False
    by (intro that(1) [of "snd (the (load_object env s))"]) (auto simp: load_object_def acquire_def give_back_def)
qed

lemma err_queues_ok:
  assumes "distinct (iface_resources iface)" "set (iface_resources iface) \<subseteq> ss_live s" "(obj, Bpf_object) \<in> ss_live s"
  obtains s' where "err_queues iface obj s = Some s'" "ss_next s' = ss_next s"
    "ss_live s' = ss_live s - set (iface_resources iface) - {(obj, Bpf_object)}"
proof -
  have "(obj, Bpf_object) \<notin> set (iface_resources iface)" using resources_no_object by fastforce
  moreover have "release_queues (ih_queues iface) s = Some (s\<lparr>ss_live := ss_live s - set (iface_resources iface)\<rparr>)"
    using release_queues_ok assms(1,2) unfolding iface_resources_def by blast
  ultimately show ?thesis using that assms(3)
    by (simp add: err_queues_def give_back_def interface_xdp_try_detach_def)
qed

text \<open>The three outcomes of creating an interface: it is there; only attaching failed, and the pointers of
  its queue are left dangling; something before failed.\<close>

definition first_queue :: "nat \<Rightarrow> queue_handles list" where
  "first_queue n = [\<lparr>qh_xsk = Some (n + 3), qh_umem = Some (n + 2), qh_bufs = Some (n + 1)\<rparr>]"

definition created_ok :: "system_state \<Rightarrow> iface_handles \<Rightarrow> system_state \<Rightarrow> bool" where
  "created_ok s i s' \<longleftrightarrow> ih_queues i = first_queue (ss_next s) \<and> iface_ok (ih_data i) \<and> length (xi_queues (ih_data i)) = 1 \<and>
     ss_next s' = ss_next s + 4 \<and>
     ss_live s' = insert (ss_next s, Bpf_object) (set (iface_resources i) \<union> ss_live s)"

lemma first_queue_resources:
  "ih_queues i = first_queue n \<Longrightarrow> iface_resources i = [(n + 3, Xsk_socket), (n + 2, Umem), (n + 1, Packet_memory)]"
  by (simp add: first_queue_def iface_resources_def queue_resources_def)

lemma create_queues_one:
  "create_queue env (ih_data iface) 0 s = Some (None, s') \<Longrightarrow> create_queues env 0 XSK_QUEUE_COUNT iface s = Some (False, iface, s')"
  "create_queue env (ih_data iface) 0 s = Some (Some (h, queue), s') \<Longrightarrow> create_queues env 0 XSK_QUEUE_COUNT iface s =
     Some (True, iface\<lparr>ih_queues := ih_queues iface @ [h],
       ih_data := (ih_data iface)\<lparr>xi_queues := xi_queues (ih_data iface) @ [queue]\<rparr>\<rparr>, s')"
  by simp_all

text \<open>After the object is loaded: the queue, and attaching.\<close>

lemma attach_cases:
  assumes fresh: "\<forall>r \<in> ss_live s. fst r < ss_next s"
    and s1: "ss_next s1 = ss_next s + 1" "ss_live s1 = insert (ss_next s, Bpf_object) (ss_live s)"
    and iface: "ih_queues iface = []" "ih_own iface = zero_queue" "ih_data iface = data" and rings: "rings_given data env"
  obtains (failed) s2 s3 where "create_queues env 0 XSK_QUEUE_COUNT iface s1 = Some (False, iface, s2)"
      "err_queues iface (ss_next s) s2 = Some s3" "ss_live s3 = ss_live s" "ss_next s \<le> ss_next s3"
      "\<not> (ce_bufs env 0 \<and> ce_umem env 0 \<and> ce_socket env 0 \<and> ce_map_update env 0)"
  | (queues) i s2 s3 where "create_queues env 0 XSK_QUEUE_COUNT iface s1 = Some (True, i, s2)"
      "ce_bufs env 0 \<and> ce_umem env 0 \<and> ce_socket env 0 \<and> ce_map_update env 0" "created_ok s i s2"
      "err_queues i (ss_next s) s2 = Some s3" "ss_live s3 = ss_live s" "ss_next s \<le> ss_next s3"
proof -
  have f1: "\<forall>r \<in> ss_live s1. fst r < ss_next s1" using fresh s1 by auto
  have new: "(ss_next s, k) \<notin> ss_live s" "(ss_next s + j, k) \<notin> ss_live s" for j k using fresh by fastforce+
  obtain q where q: "queue_fill data (ce_rings env 0) = Some q" "iface_ok (data\<lparr>xi_queues := [q]\<rparr>)"
    using first_fill [OF rings] by blast
  have none: "xi_queues data = []" using rings by (simp add: rings_given_def)
  show ?thesis
  proof (cases rule: create_queue_cases [OF f1 q(1)])
    case (1 s2)
    have "set (iface_resources iface) \<subseteq> ss_live s2" "distinct (iface_resources iface)" "(ss_next s, Bpf_object) \<in> ss_live s2"
      using 1(2) s1(2) iface(1) by (simp_all add: iface_resources_def)
    from err_queues_ok [OF this(2,1,3)] obtain s3 where e: "err_queues iface (ss_next s) s2 = Some s3" "ss_next s3 = ss_next s2"
        "ss_live s3 = ss_live s2 - set (iface_resources iface) - {(ss_next s, Bpf_object)}" by blast
    have "ss_live s3 = ss_live s" using e(3) 1(2) s1(2) new(1) iface(1) by (auto simp: iface_resources_def)
    moreover have "ss_next s \<le> ss_next s3" using e(2) 1(3) s1(1) by simp
    moreover have "create_queues env 0 XSK_QUEUE_COUNT iface s1 = Some (False, iface, s2)"
      by (rule create_queues_one(1)) (simp only: iface(3) 1(1))
    ultimately show ?thesis using failed e(1) 1(4) by blast
  next
    case (2 n)
    define i where "i = iface\<lparr>ih_queues := first_queue (ss_next s), ih_data := data\<lparr>xi_queues := [q]\<rparr>\<rparr>"
    define s2 where "s2 = s1\<lparr>ss_live := {(n + 2, Xsk_socket), (n + 1, Umem), (n, Packet_memory)} \<union> ss_live s1, ss_next := n + 3\<rparr>"
    have i: "ih_queues i = first_queue (ss_next s)" "ih_data i = data\<lparr>xi_queues := [q]\<rparr>" by (simp_all add: i_def)
    note res = first_queue_resources [OF i(1)]
    have n: "n = ss_next s + 1" using 2(1) s1(1) by simp
    have live: "ss_live s2 = insert (ss_next s, Bpf_object) (set (iface_resources i) \<union> ss_live s)" "ss_next s2 = ss_next s + 4"
      using s1(2) n unfolding res by (auto simp: s2_def numeral_3_eq_3)
    have run: "create_queues env 0 XSK_QUEUE_COUNT iface s1 = Some (True, i, s2)"
      unfolding s2_def by (subst create_queues_one(2)) (auto simp: 2(3) iface(1,3) none n i_def first_queue_def numeral_3_eq_3)
    have "distinct (iface_resources i)" "set (iface_resources i) \<subseteq> ss_live s2" "(ss_next s, Bpf_object) \<in> ss_live s2"
      unfolding live(1) unfolding res by auto
    from err_queues_ok [OF this] obtain s3 where e: "err_queues i (ss_next s) s2 = Some s3" "ss_next s3 = ss_next s2"
        "ss_live s3 = ss_live s2 - set (iface_resources i) - {(ss_next s, Bpf_object)}" by blast
    have "ss_live s3 = ss_live s" proof -
      have "set (iface_resources i) \<inter> ss_live s = {}" using new(2) [of 1] new(2) [of 2] new(2) [of 3] unfolding res by simp
      then show ?thesis using e(3) new(1) unfolding live(1) by blast
    qed
    moreover have "created_ok s i s2" using i q(2) live by (simp add: created_ok_def)
    moreover have "ss_next s \<le> ss_next s3" using e(2) live(2) by simp
    ultimately show ?thesis using queues [OF run 2(2)] e(1) by blast
  qed
qed

lemma create_cases:
  assumes fresh: "\<forall>r \<in> ss_live s. fst r < ss_next s" and rings: "rings_given data env"
  obtains (created) i bs' s' where "prepared env" "ce_attach env" "create_interface own data env bs s = Some (0, i, bs', s')" "created_ok s i s'"
  | (not_attached) i bs' s' where "prepared env" "\<not> ce_attach env" "create_interface own data env bs s = Some (-1, i, bs', s')"
      "ih_queues i = first_queue (ss_next s)" "ss_live s' = ss_live s" "ss_next s \<le> ss_next s'"
  | (failed) i bs' s' where "\<not> prepared env" "create_interface own data env bs s = Some (-1, i, bs', s')" "ih_queues i = []" "ih_own i = zero_queue"
      "ss_live s' = ss_live s" "ss_next s \<le> ss_next s'"
proof -
  define t where "t = interface_xdp_try_detach (ce_ifindex env) s"
  have t: "ss_live t = ss_live s" "ss_next t = ss_next s" by (simp_all add: t_def interface_xdp_try_detach_def)
  define i0 where "i0 = zero_iface\<lparr>ih_ifindex := ce_ifindex env,
    ih_data := zero_data\<lparr>xi_src_mac := xi_src_mac data, xi_dst_mac := xi_dst_mac data\<rparr>\<rparr>"
  have i0: "ih_ifindex i0 = ce_ifindex env" "ih_queues i0 = []" "ih_own i0 = zero_queue" by (simp_all add: i0_def zero_iface_def)
  note start = create_interface_def [of own data env bs s, folded i0_def, unfolded Let_def i0, folded t_def]
  show ?thesis
  proof (cases "ce_ifindex env = 0")
    case True
    then show ?thesis using failed [of i0 bs s] i0 by (simp add: start prepared_def)
  next
    case index: False
    from t fresh have "\<forall>r \<in> ss_live t. fst r < ss_next t" by simp
    then show ?thesis
    proof (cases rule: load_object_cases [where env = env])
      case (1 s1)
      then show ?thesis using index t failed [of i0 bs s1] i0 by (auto simp: start prepared_def)
    next
      case obj: 2
      define s1 where "s1 = t\<lparr>ss_live := insert (ss_next t, Bpf_object) (ss_live t), ss_next := ss_next t + 1\<rparr>"
      define iface where "iface = i0\<lparr>ih_data := data\<rparr>"
      have s1: "ss_next s1 = ss_next s + 1" "ss_live s1 = insert (ss_next s, Bpf_object) (ss_live s)" by (simp_all add: s1_def t)
      have iface: "ih_queues iface = []" "ih_own iface = zero_queue" "ih_data iface = data" by (simp_all add: iface_def i0)
      have load: "load_object env t = Some (Some (ss_next s), s1)" using obj t by (simp add: s1_def)
      show ?thesis
      proof (cases rule: attach_cases [OF fresh s1 iface rings])
        case failed': (1 s2 s3)
        then have "create_interface own data env bs s = Some (-1, iface, register_filters env bs, s3)"
          using index load by (simp add: start iface_def [symmetric] del: create_queues.simps One_nat_def)
        then show ?thesis using failed [of iface "register_filters env bs" s3] failed' iface by (auto simp: prepared_def)
      next
        case q: (2 i s2 s3)
        have prep: "prepared env" using index obj q(2) by (simp add: prepared_def)
        show ?thesis
        proof (cases "ce_attach env")
          case True
          then have "create_interface own data env bs s = Some (0, i\<lparr>ih_own := own (ih_queues i)\<rparr>, register_filters env bs,
              s2\<lparr>ss_attached := insert (ih_ifindex i) (ss_attached s2)\<rparr>)"
            using index load q(1) by (simp add: start iface_def [symmetric] del: create_queues.simps One_nat_def)
          then show ?thesis using created [OF prep True] q(3) by (simp add: created_ok_def iface_resources_def)
        next
          case False
          then have "create_interface own data env bs s = Some (-1, i, register_filters env bs, s3)"
            using index load q(1,4) by (simp add: start iface_def [symmetric] del: create_queues.simps One_nat_def)
          then show ?thesis using not_attached [OF prep False] q(3,5,6) by (simp add: created_ok_def)
        qed
      qed
    qed
  qed
qed

section \<open>What a start leaves behind\<close>

lemma running_created:
  assumes r: "running L N xs s" and c: "created_ok s i s'"
  shows "running L (N + 1) (xs @ [i]) s'"
proof -
  define n X where "n = ss_next s" and "X = set (concat (map iface_resources xs))"
  obtain objs where o: "finite objs" "card objs = N" "\<forall>r \<in> objs. snd r = Bpf_object" "L \<inter> objs = {}" "L \<inter> X = {}"
      "ss_live s = L \<union> objs \<union> X" using r unfolding running_def X_def by blast
  have fresh: "\<forall>r \<in> ss_live s. fst r < n" using r by (simp add: running_def n_def)
  have i: "ih_queues i \<noteq> []" "iface_resources i = [(n + 3, Xsk_socket), (n + 2, Umem), (n + 1, Packet_memory)]"
    using c by (simp_all add: created_ok_def first_queue_resources n_def) (simp add: first_queue_def)
  have s': "ss_next s' = n + 4" "ss_live s' = insert (n, Bpf_object) (set (iface_resources i) \<union> ss_live s)"
    using c by (simp_all add: created_ok_def n_def)
  have "ss_live s \<inter> insert (n, Bpf_object) (set (iface_resources i)) = {}" using fresh unfolding i(2) by fastforce
  then have notin: "(n, Bpf_object) \<notin> objs" "L \<inter> insert (n, Bpf_object) objs = {}" "L \<inter> (X \<union> set (iface_resources i)) = {}"
      "X \<inter> set (iface_resources i) = {}" using o(4-6) by blast+
  have bound: "\<forall>r \<in> ss_live s'. fst r < ss_next s'" using fresh unfolding s' i(2) by force
  have dist: "distinct (concat (map iface_resources (xs @ [i])))"
    using r notin(4) by (simp add: running_def X_def i(2))
  have union: "set (concat (map iface_resources (xs @ [i]))) = X \<union> set (iface_resources i)" by (simp add: X_def)
  have "finite (insert (n, Bpf_object) objs)" "card (insert (n, Bpf_object) objs) = N + 1" "\<forall>r \<in> insert (n, Bpf_object) objs. snd r = Bpf_object"
      "ss_live s' = L \<union> insert (n, Bpf_object) objs \<union> (X \<union> set (iface_resources i))"
    using o(1-3,6) notin(1) s'(2) by auto
  then show ?thesis using r i(1) bound dist notin(2,3) unfolding running_def union by (auto simp del: set_concat)
qed

lemma running_same: "running L N xs s \<Longrightarrow> ss_live s' = ss_live s \<Longrightarrow> ss_next s \<le> ss_next s' \<Longrightarrow> running L N xs s'"
  by (force simp: running_def)

text \<open>Cleaning up an interface whose queue was given back is a second release.\<close>

lemma cleanup_dangling:
  assumes "\<forall>r \<in> ss_live s. fst r < n" "ih_queues i = first_queue n"
  shows "interface_cleanup i s = None"
proof -
  have "(n + 3, Xsk_socket) \<notin> ss_live s" using assms(1) by fastforce
  then show ?thesis using assms(2)
    by (simp add: interface_cleanup_def first_queue_def release_queue_def give_back_if_def give_back_def
        interface_xdp_try_detach_def Let_def)
qed

lemma cleanup_empty:
  assumes "ih_queues i = []" "ih_own i = zero_queue"
  shows "\<exists>s'. interface_cleanup i s = Some (zero_iface, s') \<and> ss_live s' = ss_live s \<and> ss_next s' = ss_next s"
  using assms by (simp add: interface_cleanup_def release_queue_def give_back_if_def zero_queue_def interface_xdp_try_detach_def Let_def)

text \<open>The first interface that is not created, if it is one that is prepared but not attached.\<close>

definition attach_fails :: "create_env list \<Rightarrow> bool" where
  "attach_fails envs \<longleftrightarrow> (case find (\<lambda>e. \<not> (prepared e \<and> ce_attach e)) envs of None \<Rightarrow> False | Some e \<Rightarrow> prepared e)"

text \<open>A start that opened some of the interfaces.\<close>

definition opened :: "(nat \<times> resource_kind) set \<Rightarrow> nat \<Rightarrow> create_env list \<Rightarrow> iface_handles list \<Rightarrow>
    bool \<times> iface_handles list \<times> encrypt_bundle list \<times> system_state \<Rightarrow> bool" where
  "opened L N envs xs r \<longleftrightarrow> (case r of (ok, ys, bs, s) \<Rightarrow> (ok \<longleftrightarrow> (\<forall>e \<in> set envs. prepared e \<and> ce_attach e)) \<and>
     (\<exists>zs. ys = xs @ zs \<and> length zs \<le> length envs \<and> (ok \<longrightarrow> length zs = length envs) \<and> (\<forall>z \<in> set zs. iface_ok (ih_data z)) \<and> running L (N + length zs) ys s))"

lemma opened_none: "\<not> (prepared e \<and> ce_attach e) \<Longrightarrow> running L N xs s \<Longrightarrow> opened L N (e # envs) xs (False, xs, bs, s)"
  by (auto simp: opened_def)

lemma opened_more: "prepared e \<Longrightarrow> ce_attach e \<Longrightarrow> iface_ok (ih_data i) \<Longrightarrow> opened L (N + 1) envs (xs @ [i]) r \<Longrightarrow> opened L N (e # envs) xs r"
  by (auto simp: opened_def)

definition lan_given :: "(local_config \<times> create_env) list \<Rightarrow> bool" where
  "lan_given envs \<longleftrightarrow> (\<forall>(l, e) \<in> set envs. rings_given (interface_of_local l) e)"

definition wan_given :: "(wan_config \<times> create_env) list \<Rightarrow> bool" where
  "wan_given envs \<longleftrightarrow> (\<forall>(w, e) \<in> set envs. rings_given (interface_of_wan w) e)"

lemma open_locals_result:
  assumes "running L N xs s" "lan_given envs"
  shows "if attach_fails (map snd envs) then open_locals envs xs bs s = None
    else \<exists>r. open_locals envs xs bs s = Some r \<and> opened L N (map snd envs) xs r"
  using assms
proof (induction envs arbitrary: N xs bs s)
  case Nil
  then show ?case by (auto simp: attach_fails_def opened_def)
next
  case (Cons le envs)
  obtain l env where le: "le = (l, env)" by force
  have fresh: "\<forall>r \<in> ss_live s. fst r < ss_next s" using Cons.prems(1) by (simp add: running_def)
  have rings: "rings_given (interface_of_local l) env" "lan_given envs" using Cons.prems(2) by (simp_all add: lan_given_def le)
  show ?case
  proof (cases rule: create_cases [OF fresh rings(1), where own = "\<lambda>qs. zero_queue" and bs = bs])
    case (1 i bs1 s1)
    have "attach_fails (map snd (le # envs)) = attach_fails (map snd envs)"
        "open_locals (le # envs) xs bs s = open_locals envs (xs @ [i]) bs1 s1"
      using 1 by (simp_all add: attach_fails_def interface_init_local_def le)
    moreover have "iface_ok (ih_data i)" using 1(4) by (simp add: created_ok_def)
    ultimately show ?thesis
      using Cons.IH [OF running_created [OF Cons.prems(1) 1(4)] rings(2), of bs1] opened_more [OF 1(1,2)] by (auto simp: le)
  next
    case (2 i bs1 s1)
    have "interface_cleanup i s1 = None" by (rule cleanup_dangling [OF _ 2(4)]) (use fresh 2 in simp)
    then show ?thesis using 2 by (simp add: attach_fails_def interface_init_local_def le)
  next
    case (3 i bs1 s1)
    obtain s2 where c: "interface_cleanup i s1 = Some (zero_iface, s2)" "ss_live s2 = ss_live s1" "ss_next s2 = ss_next s1"
      using cleanup_empty [OF 3(3,4)] by blast
    have "running L N xs s2" by (rule running_same [OF Cons.prems(1)]) (use c 3 in simp_all)
    from opened_none [OF _ this, of env "map snd envs" bs1] 3(1) c(1) 3(2) show ?thesis
      by (simp add: attach_fails_def interface_init_local_def le)
  qed
qed

lemma open_wans_result:
  assumes "running L N xs s" "wan_given envs"
  shows "\<exists>r. open_wans envs xs bs s = Some r \<and> opened L N (map snd envs) xs r"
  using assms
proof (induction envs arbitrary: N xs bs s)
  case Nil
  then show ?case by (auto simp: opened_def)
next
  case (Cons we envs)
  obtain w env where we: "we = (w, env)" by force
  have fresh: "\<forall>r \<in> ss_live s. fst r < ss_next s" using Cons.prems(1) by (simp add: running_def)
  have rings: "rings_given (interface_of_wan w) env" "wan_given envs" using Cons.prems(2) by (simp_all add: wan_given_def we)
  show ?case
  proof (cases rule: create_cases [OF fresh rings(1), where bs = bs and
        own = "\<lambda>qs. \<lparr>qh_xsk = qh_xsk (hd qs), qh_umem = None, qh_bufs = qh_bufs (hd qs)\<rparr>"])
    case (1 i bs1 s1)
    moreover have "iface_ok (ih_data i)" using 1(4) by (simp add: created_ok_def)
    ultimately show ?thesis
      using Cons.IH [OF running_created [OF Cons.prems(1) 1(4)] rings(2), of bs1] opened_more [OF 1(1,2)]
      by (auto simp: interface_init_wan_rx_def we)
  next
    case (2 i bs1 s1)
    have "running L N xs s1" by (rule running_same [OF Cons.prems(1) 2(5,6)])
    from opened_none [OF _ this, of env "map snd envs" bs1] 2(2,3) show ?thesis by (simp add: interface_init_wan_rx_def we)
  next
    case (3 i bs1 s1)
    have "running L N xs s1" by (rule running_same [OF Cons.prems(1) 3(5,6)])
    from opened_none [OF _ this, of env "map snd envs" bs1] 3(1,2) show ?thesis by (simp add: interface_init_wan_rx_def we)
  qed
qed

lemma running_start: "\<forall>r \<in> ss_live s. fst r < ss_next s \<Longrightarrow> running (ss_live s) 0 [] s"
  by (auto simp: running_def)

lemma running_compose:
  assumes "running L N xs s" "running (ss_live s) M ys s'"
  shows "running L (N + M) (xs @ ys) s'"
proof -
  define X Y where "X = set (concat (map iface_resources xs))" and "Y = set (concat (map iface_resources ys))"
  obtain o1 where 1: "finite o1" "card o1 = N" "\<forall>r \<in> o1. snd r = Bpf_object" "L \<inter> o1 = {}" "L \<inter> X = {}" "ss_live s = L \<union> o1 \<union> X"
    using assms(1) unfolding running_def X_def by blast
  obtain o2 where 2: "finite o2" "card o2 = M" "\<forall>r \<in> o2. snd r = Bpf_object" "ss_live s \<inter> o2 = {}" "ss_live s \<inter> Y = {}"
      "ss_live s' = ss_live s \<union> o2 \<union> Y"
    using assms(2) unfolding running_def Y_def by blast
  have "o1 \<inter> o2 = {}" "X \<inter> Y = {}" using 1(6) 2(4,5) by blast+
  then have "card (o1 \<union> o2) = N + M" "finite (o1 \<union> o2)" "\<forall>r \<in> o1 \<union> o2. snd r = Bpf_object" "L \<inter> (o1 \<union> o2) = {}" "L \<inter> (X \<union> Y) = {}"
      "ss_live s' = L \<union> (o1 \<union> o2) \<union> (X \<union> Y)"
    using 1 2 by (auto simp: card_Un_disjoint)
  moreover have "set (concat (map iface_resources (xs @ ys))) = X \<union> Y" by (simp add: X_def Y_def)
  moreover have "distinct (concat (map iface_resources (xs @ ys)))"
    using assms \<open>X \<inter> Y = {}\<close> by (simp add: running_def X_def Y_def)
  moreover have "\<forall>r \<in> ss_live s'. fst r < ss_next s'" "\<forall>i \<in> set (xs @ ys). ih_queues i \<noteq> []" using assms by (auto simp: running_def)
  ultimately show ?thesis unfolding running_def by blast
qed

text \<open>Besides what was held before, the process holds \<open>N\<close> BPF objects and nothing else.\<close>

definition only_objects_more :: "system_state \<Rightarrow> nat \<Rightarrow> system_state \<Rightarrow> bool" where
  "only_objects_more s N s' \<longleftrightarrow> (\<exists>objs. card objs = N \<and> finite objs \<and> (\<forall>r \<in> objs. snd r = Bpf_object) \<and>
     ss_live s \<inter> objs = {} \<and> ss_live s' = ss_live s \<union> objs)"

lemma running_none: "running (ss_live s) N [] s' \<Longrightarrow> only_objects_more s N s'"
  by (auto simp: running_def only_objects_more_def)

lemma cleanup_two:
  assumes "running L N (xs @ ys) s"
  shows "\<exists>s'. (do { s \<leftarrow> cleanup_all xs s; cleanup_all ys s }) = Some s' \<and> running L N [] s'"
  using cleanup_all_running [OF assms] cleanup_all_running [of L N ys "[]"] by fastforce

lemma forwarder_open_result:
  assumes fresh: "\<forall>r \<in> ss_live s. fst r < ss_next s" and given: "lan_given lan" "wan_given wan"
  shows "if attach_fails (map snd lan) then forwarder_open lan wan s = None
    else \<exists>ok ls ws bs s'. forwarder_open lan wan s = Some (ok, ls, ws, bs, s') \<and>
      (ok \<longleftrightarrow> (\<forall>e \<in> snd ` set lan \<union> snd ` set wan. prepared e \<and> ce_attach e)) \<and>
      (\<forall>i \<in> set ls \<union> set ws. iface_ok (ih_data i)) \<and>
      (if ok then length ls = length lan \<and> length ws = length wan \<and> running (ss_live s) (length ls + length ws) (ls @ ws) s'
       else running (ss_live s) (length ls + length ws) [] s')"
proof -
  note lan = open_locals_result [OF running_start [OF fresh] given(1), of interface_reset_redirect_maps]
  show ?thesis
  proof (cases "attach_fails (map snd lan)")
    case True
    then show ?thesis using lan by (simp add: forwarder_open_def)
  next
    case False
    then obtain r where r: "open_locals lan [] interface_reset_redirect_maps s = Some r" "opened (ss_live s) 0 (map snd lan) [] r"
      using lan by auto
    obtain ok ls bs s1 where t: "r = (ok, ls, bs, s1)" by (cases r)
    have l: "open_locals lan [] interface_reset_redirect_maps s = Some (ok, ls, bs, s1)"
        "ok \<longleftrightarrow> (\<forall>e \<in> snd ` set lan. prepared e \<and> ce_attach e)" "ok \<longrightarrow> length ls = length lan"
        "\<forall>z \<in> set ls. iface_ok (ih_data z)" "running (ss_live s) (length ls) ls s1"
      using r unfolding t by (simp_all add: opened_def)
    show ?thesis
    proof (cases ok)
      case False
      obtain s2 where "cleanup_all ls s1 = Some s2" "running (ss_live s) (length ls) [] s2"
        using cleanup_all_running [of "ss_live s" "length ls" ls "[]" s1] l(5) by auto
      then show ?thesis using l False \<open>\<not> attach_fails (map snd lan)\<close> by (auto simp: forwarder_open_def)
    next
      case True
      have "\<forall>r \<in> ss_live s1. fst r < ss_next s1" using l(5) by (simp add: running_def)
      from open_wans_result [OF running_start [OF this] given(2), of bs] obtain r where
        r: "open_wans wan [] bs s1 = Some r" "opened (ss_live s1) 0 (map snd wan) [] r" by blast
      obtain ok' ws bs' s2 where t: "r = (ok', ws, bs', s2)" by (cases r)
      have w: "open_wans wan [] bs s1 = Some (ok', ws, bs', s2)" "ok' \<longleftrightarrow> (\<forall>e \<in> snd ` set wan. prepared e \<and> ce_attach e)"
          "ok' \<longrightarrow> length ws = length wan" "\<forall>z \<in> set ws. iface_ok (ih_data z)" "running (ss_live s1) (length ws) ws s2"
        using r unfolding t by (simp_all add: opened_def)
      note all = running_compose [OF l(5) w(5)]
      obtain s3 where "(do { s \<leftarrow> cleanup_all ws s2; cleanup_all ls s }) = Some s3" "running (ss_live s) (length ls + length ws) [] s3"
        using cleanup_two [OF running_swap [OF all]] by blast
      then show ?thesis using l w all True \<open>\<not> attach_fails (map snd lan)\<close>
        by (cases ok') (auto simp: forwarder_open_def bind_eq_Some_conv)
    qed
  qed
qed


text \<open>C38: A start in which the first LAN interface that fails is complete up to attaching its XDP program gives
  the same socket and memory back twice: the failing function already did it, left the pointers, and
  the caller cleans the interface up once more.  No other failure of a start is undefined.\<close>

theorem lan_attach_failure_released_twice:
  assumes "\<forall>r \<in> ss_live s. fst r < ss_next s" "lan_given lan" "wan_given wan"
  shows "forwarder_open lan wan s = None \<longleftrightarrow> attach_fails (map snd lan)"
  using forwarder_open_result [OF assms] by (auto split: if_splits)

text \<open>A gateway of two interfaces, once with all answers positive and once without attaching.\<close>

definition sample_create :: create_env where
  "sample_create = \<lparr>ce_ifindex = 3, ce_file = True, ce_open = True, ce_load = True, ce_program = True, ce_xsks_map = True,
     ce_filter_fds = (5, 6, 7, 8), ce_bufs = (\<lambda>q. True), ce_umem = (\<lambda>q. True), ce_socket = (\<lambda>q. True), ce_rings = (\<lambda>q. sample_queue\<lparr>xq_bufs := replicate 1048576 0\<rparr>),
     ce_map_update = (\<lambda>q. True), ce_attach = True\<rparr>"

definition sample_small_lan :: local_config where
  "sample_small_lan = sample_local\<lparr>lc_umem_mb := 1, lc_ring_size := 2, lc_frame_size := 2048\<rparr>"

definition sample_small_wan :: wan_config where
  "sample_small_wan = sample_wan\<lparr>wc_umem_mb := 1, wc_ring_size := 2, wc_frame_size := 2048\<rparr>"

definition sample_system :: system_state where
  "sample_system = \<lparr>ss_live = {}, ss_next = 0, ss_attached = {}\<rparr>"

lemma sample_given: "lan_given [(sample_small_lan, sample_create\<lparr>ce_attach := b\<rparr>)]" "wan_given [(sample_small_wan, sample_create)]"
proof -
  let ?q = "sample_queue\<lparr>xq_bufs := replicate 1048576 0\<rparr>"
  have rings: "queue_created data ?q" if "xi_ring_size data = 2" "xi_umem_size data = 1048576" "xi_frame_size data = 2048" for data
    using that by (simp add: queue_created_def queue_rings_ok_def prod_ok_def cons_ok_def sample_queue_def sample_ring_wf)
      (simp add: sample_ring_def ring_used_def)
  show "lan_given [(sample_small_lan, sample_create\<lparr>ce_attach := b\<rparr>)]" "wan_given [(sample_small_wan, sample_create)]"
    using rings
    by (simp_all add: lan_given_def wan_given_def rings_given_def interface_of_local_def interface_of_wan_def sample_small_lan_def
        sample_small_wan_def sample_create_def iface_geometry_def half_frames_def)
qed


theorem lan_attach_failure_released_twice_witness:
  "forwarder_open [(sample_small_lan, sample_create\<lparr>ce_attach := False\<rparr>)] [(sample_small_wan, sample_create)] sample_system = None"
  using lan_attach_failure_released_twice [OF _ sample_given(1) [of False] sample_given(2), of sample_system]
  by (simp add: sample_system_def sample_create_def attach_fails_def prepared_def)

end
