(* ===== verification/DbEnv.thy ===== *)
theory DbEnv
  imports Text
begin

text \<open>
  The environment of the daemon, \<^verbatim>\<open>src/src/db/db_env.c\<close>: reading the assignments of
  \<^verbatim>\<open>/opt/SEP/be/.env\<close> and filling in the connection parameters of the database.

  The environment of the process is a map from names to values.  A file is the list of its
  characters; what \<^verbatim>\<open>access\<close> and \<^verbatim>\<open>fopen\<close> answer is an input.  A line in the buffer is a C string,
  so it ends at the first zero character.
\<close>

type_synonym environment = "string \<Rightarrow> string option"

abbreviation (input) newline :: char where "newline \<equiv> CHR 0x0A"
abbreviation (input) carriage_return :: char where "carriage_return \<equiv> CHR 0x0D"
abbreviation (input) nul :: char where "nul \<equiv> CHR 0x00"
abbreviation (input) double_quote :: char where "double_quote \<equiv> CHR 0x22"
abbreviation (input) single_quote :: char where "single_quote \<equiv> CHR 0x27"

section \<open>One line\<close>

definition allowed_keys :: "string list" where
  "allowed_keys = [''POSTGRES_SERVER'', ''POSTGRES_HOST'', ''POSTGRES_PORT'', ''POSTGRES_USER'', ''POSTGRES_DB'',
     ''POSTGRES_PASSWORD'']"

definition ne_env_key_allowed :: "string \<Rightarrow> bool" where
  "ne_env_key_allowed key \<longleftrightarrow> key \<noteq> [] \<and> list_ex (\<lambda>a. key = a) allowed_keys"

definition strip_env_quotes :: "string \<Rightarrow> string" where
  "strip_env_quotes val =
     (if length val \<ge> 2 \<and> hd val = double_quote \<and> last val = double_quote then butlast (tl val)
      else if length val \<ge> 2 \<and> hd val = single_quote \<and> last val = single_quote then butlast (tl val)
      else val)"

text \<open>\<^verbatim>\<open>while (end > key && ...)\<close>: the first character of the key is never looked at.\<close>

definition drop_trailing :: "(char \<Rightarrow> bool) \<Rightarrow> string \<Rightarrow> string" where
  "drop_trailing P s = rev (dropWhile P (rev s))"

definition trim_key :: "string \<Rightarrow> string" where
  "trim_key key = (case key of [] \<Rightarrow> [] | c # r \<Rightarrow> c # drop_trailing is_blank r)"

definition env_line :: "string \<Rightarrow> environment \<Rightarrow> environment" where
  "env_line line env =
     (let p = dropWhile is_blank (takeWhile (\<lambda>c. c \<noteq> nul) line)
      in if p = [] \<or> hd p = newline \<or> hd p = CHR ''#'' then env
      else if take 9 p \<noteq> ''POSTGRES_'' then env
      else if CHR ''='' \<notin> set p then env
      else let key = trim_key (takeWhile (\<lambda>c. c \<noteq> CHR ''='') p);
               val = dropWhile is_blank (tl (dropWhile (\<lambda>c. c \<noteq> CHR ''='') p));
               val = drop_trailing (\<lambda>c. c = newline \<or> c = carriage_return) val;
               val = strip_env_quotes val
           in if key \<noteq> [] \<and> val \<noteq> [] \<and> ne_env_key_allowed key then env(key \<mapsto> val) else env)"

section \<open>The file\<close>

text \<open>\<^verbatim>\<open>fgets(line, n + 1, f)\<close>: up to \<open>n\<close> characters, not beyond a newline, and what is left.\<close>

definition fgets :: "nat \<Rightarrow> string \<Rightarrow> string \<times> string" where
  "fgets n s = (let l = takeWhile (\<lambda>c. c \<noteq> newline) (take n s)
     in if length l < length (take n s) then (l @ [newline], drop (length l + 1) s) else (take n s, drop n s))"

abbreviation (input) LINE_MAX :: nat where "LINE_MAX \<equiv> 2047"

lemma fgets_shorter: "s \<noteq> [] \<Longrightarrow> 0 < n \<Longrightarrow> length (snd (fgets n s)) < length s"
  by (auto simp: fgets_def Let_def)

function env_lines :: "string \<Rightarrow> environment \<Rightarrow> environment" where
  "env_lines s env = (if s = [] then env
     else env_lines (snd (fgets LINE_MAX s)) (env_line (fst (fgets LINE_MAX s)) env))"
  by auto

termination by (relation "measure (\<lambda>(s, env). length s)") (simp_all add: fgets_shorter)

declare env_lines.simps [simp del]

definition ne_sync_pgpassword :: "environment \<Rightarrow> environment" where
  "ne_sync_pgpassword env = (case env ''POSTGRES_PASSWORD'' of
     Some pass \<Rightarrow> if pass \<noteq> [] then env(''PGPASSWORD'' \<mapsto> pass) else env
   | None \<Rightarrow> env)"

definition ne_load_env_file :: "string option \<Rightarrow> environment \<Rightarrow> int \<times> environment" where
  "ne_load_env_file file env = (case file of
     None \<Rightarrow> (-1, env)
   | Some s \<Rightarrow> (0, ne_sync_pgpassword (env_lines s env)))"

definition load_ne_env :: "bool \<Rightarrow> string option \<Rightarrow> environment \<Rightarrow> int \<times> environment" where
  "load_ne_env readable file env = (if \<not> readable then (-1, env) else ne_load_env_file file env)"

section \<open>The connection\<close>

record ne_postgres_conn =
  conn_keywords :: "string option list"
  conn_values :: "string option list"

definition resolve_db_password :: "environment \<Rightarrow> string option" where
  "resolve_db_password env =
     (let p = env ''POSTGRES_PASSWORD''
      in if p \<noteq> None \<and> p \<noteq> Some [] then p
      else let p = env ''PGPASSWORD''
        in if p \<noteq> None \<and> p \<noteq> Some [] then p else None)"

definition ne_postgres_conn_fill :: "environment \<Rightarrow> int \<times> ne_postgres_conn" where
  "ne_postgres_conn_fill env =
     (let unset = (\<lambda>v. v = None \<or> v = Some []);
          host = env ''POSTGRES_SERVER'';
          host = (if unset host then env ''POSTGRES_HOST'' else host);
          port = env ''POSTGRES_PORT''; user = env ''POSTGRES_USER''; dbname = env ''POSTGRES_DB'';
          pass = resolve_db_password env
      in if unset host \<or> unset port \<or> unset user \<or> unset dbname \<or> unset pass
         then (-1, \<lparr>conn_keywords = replicate 7 None, conn_values = replicate 7 None\<rparr>)
         else (0, \<lparr>conn_keywords = map Some [''host'', ''port'', ''dbname'', ''user'', ''password'', ''connect_timeout''] @ [None],
                   conn_values = [host, port, dbname, user, pass, Some ''10'', None]\<rparr>))"

text \<open>An identifier on the command line; nothing is written when it is refused.\<close>

definition parse_config_id_arg :: "string \<Rightarrow> int option" where
  "parse_config_id_arg s =
     (if s = [] then None
      else if \<not> list_all (\<lambda>c. 48 \<le> (of_char c :: nat) \<and> (of_char c :: nat) \<le> 57) s then None
      else let v = fst (strtol s) in if v < 0 \<or> v > 2 ^ 31 - 1 then None else Some v)"

section \<open>Any file\<close>

text \<open>What a line can do: nothing, or give an allowed name a value that is not empty.\<close>

lemma env_line_effect:
  "env_line line env = env \<or>
   (\<exists>key val. env_line line env = env(key \<mapsto> val) \<and> key \<in> set allowed_keys \<and> val \<noteq> [])"
proof -
  define p where "p = dropWhile is_blank (takeWhile (\<lambda>c. c \<noteq> nul) line)"
  define key where "key = trim_key (takeWhile (\<lambda>c. c \<noteq> CHR ''='') p)"
  define val where "val = strip_env_quotes (drop_trailing (\<lambda>c. c = newline \<or> c = carriage_return)
    (dropWhile is_blank (tl (dropWhile (\<lambda>c. c \<noteq> CHR ''='') p))))"
  have "env_line line env = env \<or> env_line line env = env(key \<mapsto> val) \<and> val \<noteq> [] \<and> ne_env_key_allowed key"
    unfolding env_line_def Let_def p_def [symmetric] key_def [symmetric] val_def [symmetric] by simp
  moreover have "key \<in> set allowed_keys" if "ne_env_key_allowed key"
    using that by (simp add: ne_env_key_allowed_def list_ex_iff)
  ultimately show ?thesis by blast
qed

definition env_extends :: "string set \<Rightarrow> environment \<Rightarrow> environment \<Rightarrow> bool" where
  "env_extends K env env' \<longleftrightarrow> (\<forall>k. env' k = env k \<or> k \<in> K \<and> (\<exists>v. env' k = Some v \<and> v \<noteq> []))"

lemma env_extends_trans: "env_extends K e e' \<Longrightarrow> env_extends K e' e'' \<Longrightarrow> env_extends K e e''"
  unfolding env_extends_def
proof
  fix k
  assume a: "\<forall>k. e' k = e k \<or> k \<in> K \<and> (\<exists>v. e' k = Some v \<and> v \<noteq> [])" and b: "\<forall>k. e'' k = e' k \<or> k \<in> K \<and> (\<exists>v. e'' k = Some v \<and> v \<noteq> [])"
  show "e'' k = e k \<or> k \<in> K \<and> (\<exists>v. e'' k = Some v \<and> v \<noteq> [])" using spec [OF a, of k] spec [OF b, of k] by fastforce
qed

lemma env_extends_mono: "env_extends K e e' \<Longrightarrow> K \<subseteq> K' \<Longrightarrow> env_extends K' e e'"
  by (auto simp: env_extends_def)

lemma env_line_extends: "env_extends (set allowed_keys) env (env_line line env)"
  using env_line_effect [of line env] by (auto simp: env_extends_def split: if_splits)

lemma env_lines_extend: "env_extends (set allowed_keys) env (env_lines s env)"
proof (induction s env rule: env_lines.induct)
  case (1 s env)
  show ?case
  proof (cases "s = []")
    case True
    then show ?thesis by (simp add: env_lines.simps env_extends_def)
  next
    case False
    then show ?thesis using env_extends_trans [OF env_line_extends 1 [OF False]] by (simp add: env_lines.simps [of s])
  qed
qed

lemma sync_extends: "env_extends {''PGPASSWORD''} env (ne_sync_pgpassword env)"
  by (auto simp: ne_sync_pgpassword_def env_extends_def split: option.splits)

text \<open>Whatever the file holds, only the allowed names and \<^verbatim>\<open>PGPASSWORD\<close> change, nothing is removed
  or made empty, and an error changes nothing.\<close>

lemma load_ne_env_extends:
  assumes "load_ne_env readable file env = (rc, env')"
  shows "env_extends (insert ''PGPASSWORD'' (set allowed_keys)) env env'" "rc \<noteq> 0 \<Longrightarrow> env' = env"
proof -
  have s: "env_extends (insert ''PGPASSWORD'' (set allowed_keys)) env (ne_sync_pgpassword (env_lines s env))" for s
    by (rule env_extends_trans [OF env_extends_mono [OF env_lines_extend] env_extends_mono [OF sync_extends]]) auto
  have "env_extends K env env" for K by (simp add: env_extends_def)
  then show "env_extends (insert ''PGPASSWORD'' (set allowed_keys)) env env'" "rc \<noteq> 0 \<Longrightarrow> env' = env"
    using assms s by (auto simp: load_ne_env_def ne_load_env_file_def split: if_splits option.splits)
qed

section \<open>A file that was written\<close>

datatype env_entry = Remark string | Setting string string

fun print_entry :: "env_entry \<Rightarrow> string" where
  "print_entry (Remark r) = CHR ''#'' # r @ [newline]"
| "print_entry (Setting k v) = k @ CHR ''='' # double_quote # v @ [double_quote, newline]"

fun entry_ok :: "env_entry \<Rightarrow> bool" where
  "entry_ok (Remark r) \<longleftrightarrow> newline \<notin> set r \<and> length r \<le> 2045"
| "entry_ok (Setting k v) \<longleftrightarrow> k \<in> set allowed_keys \<and> v \<noteq> [] \<and> newline \<notin> set v \<and> nul \<notin> set v \<and> length v \<le> 2026"

fun entry_effect :: "env_entry \<Rightarrow> environment \<Rightarrow> environment" where
  "entry_effect (Remark r) env = env"
| "entry_effect (Setting k v) env = env(k \<mapsto> v)"

fun settings :: "env_entry list \<Rightarrow> (string \<times> string) list" where
  "settings [] = []"
| "settings (Remark r # es) = settings es"
| "settings (Setting k v # es) = (k, v) # settings es"

lemma fgets_line:
  assumes "newline \<notin> set l" "length l < n"
  shows "fgets n (l @ newline # rest) = (l @ [newline], rest)"
proof -
  have "take n (l @ newline # rest) = l @ newline # take (n - length l - 1) rest"
    using assms(2) by (simp add: take_Cons' take_append)
  moreover have "takeWhile (\<lambda>c. c \<noteq> newline) (l @ newline # r) = l" for r
    using assms(1) by (auto simp: takeWhile_append)
  ultimately show ?thesis by (simp add: fgets_def Let_def)
qed

lemma allowed_shape:
  assumes "k \<in> set allowed_keys"
  obtains c r where "k = c # r" "c \<noteq> CHR ''#''" "c \<noteq> newline" "\<not> is_blank c" "take 9 k = ''POSTGRES_''" "9 \<le> length k"
    "length k \<le> 17" "newline \<notin> set k" "nul \<notin> set k" "CHR ''='' \<notin> set k" "trim_key k = k"
proof -
  have a: "\<forall>k \<in> set allowed_keys. (\<exists>c r. k = c # r \<and> c \<noteq> CHR ''#'' \<and> c \<noteq> newline \<and> \<not> is_blank c) \<and> take 9 k = ''POSTGRES_'' \<and> 9 \<le> length k \<and>
    length k \<le> 17 \<and> newline \<notin> set k \<and> nul \<notin> set k \<and> CHR ''='' \<notin> set k \<and> trim_key k = k"
    by (simp add: allowed_keys_def is_blank_def trim_key_def drop_trailing_def)
  show ?thesis using bspec [OF a assms] by (auto intro: that)
qed

lemma env_line_entry:
  assumes "entry_ok e"
  shows "env_line (print_entry e) env = entry_effect e env"
proof (cases e)
  case (Remark r)
  then show ?thesis by (simp add: env_line_def is_blank_def)
next
  case (Setting k v)
  let ?q = double_quote
  have v: "v \<noteq> []" "nul \<notin> set v" and k: "k \<in> set allowed_keys" using assms Setting by auto
  obtain c r where c: "k = c # r" "c \<noteq> CHR ''#''" "c \<noteq> newline" "\<not> is_blank c" "take 9 k = ''POSTGRES_''" "9 \<le> length k"
    "nul \<notin> set k" "CHR ''='' \<notin> set k" "trim_key k = k" by (rule allowed_shape [OF k])
  let ?line = "k @ CHR ''='' # ?q # v @ [?q, newline]"
  have p: "dropWhile is_blank (takeWhile (\<lambda>c. c \<noteq> nul) ?line) = ?line"
    using v(2) c(4,7) by (subst takeWhile_eq_all_conv [THEN iffD2]) (auto simp: c(1))
  have key: "takeWhile (\<lambda>c. c \<noteq> CHR ''='') ?line = k" "dropWhile (\<lambda>c. c \<noteq> CHR ''='') ?line = CHR ''='' # ?q # v @ [?q, newline]"
    using c(8) by (auto simp: takeWhile_append dropWhile_append)
  have val: "strip_env_quotes (drop_trailing (\<lambda>c. c = newline \<or> c = carriage_return) (dropWhile is_blank (?q # v @ [?q, newline]))) = v"
    by (simp add: drop_trailing_def strip_env_quotes_def is_blank_def)
  have "ne_env_key_allowed k" using k c(1) by (auto simp: ne_env_key_allowed_def list_ex_iff)
  moreover have "take 9 ?line = ''POSTGRES_''" using c(5,6) by simp
  ultimately show ?thesis using Setting v(1) c(1-3,9)
    unfolding Setting env_line_def Let_def print_entry.simps p key list.sel val by simp
qed

lemma print_entry_line:
  assumes "entry_ok e"
  obtains l where "print_entry e = l @ [newline]" "newline \<notin> set l" "length l < LINE_MAX"
proof (cases e)
  case (Setting k v)
  then have k: "k \<in> set allowed_keys" and v: "newline \<notin> set v" "length v \<le> 2026" using assms by auto
  obtain "newline \<notin> set k" "length k \<le> 17" by (rule allowed_shape [OF k])
  then show ?thesis using that [of "k @ CHR ''='' # double_quote # v @ [double_quote]"] Setting v by simp
qed (use that [of "CHR ''#'' # _"] assms in simp)

lemma env_lines_entries:
  "list_all entry_ok es \<Longrightarrow> env_lines (concat (map print_entry es)) env = fold entry_effect es env"
proof (induction es arbitrary: env)
  case Nil
  then show ?case by (simp add: env_lines.simps)
next
  case (Cons e es)
  from Cons.prems have e: "entry_ok e" "list_all entry_ok es" by simp_all
  obtain l where l: "print_entry e = l @ [newline]" "newline \<notin> set l" "length l < LINE_MAX" by (rule print_entry_line [OF e(1)])
  have "fgets LINE_MAX (concat (map print_entry (e # es))) = (print_entry e, concat (map print_entry es))"
    using fgets_line [OF l(2,3)] l(1) by simp
  then show ?case using Cons.IH [OF e(2)] env_line_entry [OF e(1)] l(1) by (subst env_lines.simps) simp
qed

lemma fold_entries: "fold entry_effect es env k = (case map_of (rev (settings es)) k of None \<Rightarrow> env k | Some v \<Rightarrow> Some v)"
proof (induction es arbitrary: env)
  case (Cons e es)
  then show ?case by (cases e) (auto simp: map_add_def split: option.splits)
qed simp

lemma sync_at: "k \<noteq> ''PGPASSWORD'' \<Longrightarrow> ne_sync_pgpassword env k = env k"
  "ne_sync_pgpassword env ''PGPASSWORD'' = (if env ''POSTGRES_PASSWORD'' = None \<or> env ''POSTGRES_PASSWORD'' = Some [] then env ''PGPASSWORD''
     else env ''POSTGRES_PASSWORD'')"
  by (auto simp: ne_sync_pgpassword_def split: option.splits)

text \<open>C28: A file of remarks and settings \<^verbatim>\<open>NAME="value"\<close> with allowed names, lines that fit the buffer and
  values without a newline, whatever quotes and blanks they hold, gives every name its last
  value and leaves all other variables as they were; the password is copied to \<^verbatim>\<open>PGPASSWORD\<close>.\<close>

theorem env_file_roundtrip:
  assumes "list_all entry_ok es"
    and "load_ne_env True (Some (concat (map print_entry es))) env = (rc, env')"
  shows "rc = 0 \<and>
    (\<forall>k. k \<noteq> ''PGPASSWORD'' \<longrightarrow> env' k = (case map_of (rev (settings es)) k of Some v \<Rightarrow> Some v | None \<Rightarrow> env k)) \<and>
    env' ''PGPASSWORD'' = (if env' ''POSTGRES_PASSWORD'' = None \<or> env' ''POSTGRES_PASSWORD'' = Some [] then env ''PGPASSWORD''
      else env' ''POSTGRES_PASSWORD'')"
proof -
  have pg: "map_of (rev (settings es)) ''PGPASSWORD'' = None"
  proof -
    have "fst x \<in> set allowed_keys" if "x \<in> set (settings es)" for x
      using that assms(1) by (induction es rule: settings.induct) auto
    then show ?thesis by (force simp: map_of_eq_None_iff allowed_keys_def)
  qed
  have "rc = 0" "env' = ne_sync_pgpassword (fold entry_effect es env)"
    using assms by (simp_all add: load_ne_env_def ne_load_env_file_def env_lines_entries)
  then show ?thesis by (simp add: sync_at fold_entries pg)
qed

theorem env_file_roundtrip_witness:
  "\<exists>env'. load_ne_env True (Some (concat (map print_entry [Remark '' the database'', Setting ''POSTGRES_USER'' ''ne'',
       Setting ''POSTGRES_PASSWORD'' '' a'', Setting ''POSTGRES_USER'' ''ip'']))) (\<lambda>_. None) = (0, env') \<and>
    env' ''POSTGRES_USER'' = Some ''ip'' \<and> env' ''PGPASSWORD'' = Some '' a'' \<and> env' ''PATH'' = None"
proof -
  let ?es = "[Remark '' the database'', Setting ''POSTGRES_USER'' ''ne'', Setting ''POSTGRES_PASSWORD'' '' a'', Setting ''POSTGRES_USER'' ''ip'']"
  have ok: "list_all entry_ok ?es" by (simp add: allowed_keys_def)
  obtain rc env' where r: "load_ne_env True (Some (concat (map print_entry ?es))) (\<lambda>_. None) = (rc, env')" by force
  show ?thesis using env_file_roundtrip [OF ok r] r by (intro exI [of _ env']) (simp del: print_entry.simps)
qed

text \<open>A blank behind the closing quote keeps both quotes in the value.\<close>

lemma trailing_blank_keeps_quotes:
  assumes "v \<noteq> []" "nul \<notin> set v" "newline \<notin> set v"
  shows "env_line (''POSTGRES_USER='' @ [double_quote] @ v @ [double_quote, CHR '' '', newline]) env ''POSTGRES_USER'' =
    Some ([double_quote] @ v @ [double_quote, CHR '' ''])"
proof -
  have t: "takeWhile (\<lambda>c. c \<noteq> nul) (''POSTGRES_USER='' @ [double_quote] @ v @ [double_quote, CHR '' '', newline]) =
      ''POSTGRES_USER='' @ [double_quote] @ v @ [double_quote, CHR '' '', newline]"
    using assms(2) by (auto simp: takeWhile_eq_all_conv)
  show ?thesis unfolding env_line_def t Let_def
    by (simp add: is_blank_def trim_key_def drop_trailing_def strip_env_quotes_def ne_env_key_allowed_def allowed_keys_def)
qed

section \<open>The connection\<close>

text \<open>After a file was read, libpq's own variable for the password and the one of the connection agree.\<close>

lemma password_after_load:
  assumes "load_ne_env True (Some s) env = (rc, env')" "env' ''POSTGRES_PASSWORD'' = Some pass" "pass \<noteq> []"
  shows "resolve_db_password env' = Some pass \<and> env' ''PGPASSWORD'' = Some pass"
  using assms by (auto simp: load_ne_env_def ne_load_env_file_def sync_at resolve_db_password_def)

lemma conn_fill_ok:
  assumes "ne_postgres_conn_fill env = (0, conn)"
  shows "length (conn_keywords conn) = 7 \<and> length (conn_values conn) = 7 \<and>
    (\<forall>i < 6. conn_keywords conn ! i \<noteq> None \<and> (\<exists>v. conn_values conn ! i = Some v \<and> v \<noteq> [])) \<and>
    conn_keywords conn ! 6 = None \<and> conn_values conn ! 6 = None"
proof -
  have six: "i < 6 \<longleftrightarrow> i = 0 \<or> i = 1 \<or> i = 2 \<or> i = 3 \<or> i = 4 \<or> i = 5" for i :: nat by auto
  show ?thesis using assms by (auto simp: ne_postgres_conn_fill_def Let_def six split: if_splits)
qed

lemma config_id_roundtrip: "parse_config_id_arg (decimal n) = (if n < 2 ^ 31 then Some (int n) else None)"
proof -
  have "list_all (\<lambda>c. 48 \<le> (of_char c :: nat) \<and> (of_char c :: nat) \<le> 57) (decimal n)"
    using decimal_digits [of _ n] by (auto simp: list_all_iff is_digit_of_char)
  moreover have "fst (strtol (decimal n)) = min (2 ^ 63 - 1) (int n)"
    using scan_int_decimal [of "[]" n] by (simp add: strtol_def)
  ultimately show ?thesis by (auto simp: parse_config_id_arg_def)
qed

end
