(* ===== verification/Spec2Isabelle.thy ===== *)
theory Spec2Isabelle
  imports FlowTable Reassembly Runtime PolicyPin ArpCache Ring Xdp Xsk Flow Forwarder Receive Ports Sizes Worker Merge Lifecycle Daemon DeliveryL2 Filters Setup DbEnv
begin

text \<open>
  A development beside the network encryptor \<^verbatim>\<open>ne_ip\<close>, a gateway in C that takes LAN packets
  from AF_XDP sockets, encrypts them at layer 2, 3 or 4 as the configured policies say,
  spreads them over several WAN links, and does the reverse on the other side.

  \<^bold>\<open>The program.\<close>  Two XDP programs (\<^verbatim>\<open>src/bpf\<close>) decide which frames reach the process.
  \<^verbatim>\<open>src/core/interface.c\<close> moves frames between the process and the kernel.  The threads of
  \<^verbatim>\<open>src/core/forwarder.c\<close> read packets, select a policy (\<^verbatim>\<open>src/db/config.c\<close>) or take the one
  pinned to the TCP connection, choose a WAN link (\<^verbatim>\<open>src/core/flow_table.c\<close>), encrypt
  (\<^verbatim>\<open>src/crypto\<close>), split packets that grow too long (\<^verbatim>\<open>src/core/fragment.c\<close>), rewrite the
  Ethernet addresses (\<^verbatim>\<open>src/core/wan_arp.c\<close>) and send.  Received packets are decrypted with the
  key that their policy id names, reassembled and sent to the LAN.  A reload swaps the
  configuration while the threads run.

  \<^bold>\<open>Theories and code.\<close>

  \<^item> \<^verbatim>\<open>Prelude\<close>: bytes, buffers with checked access, byte order, unsigned subtraction,
    lists updated at the first match, weighted choice.
  \<^item> \<^verbatim>\<open>Interfaces\<close>: the contracts as locales: a keyed store, a store that evicts, a bounded
    queue, a packet port.
  \<^item> \<^verbatim>\<open>Config\<close>: \<^verbatim>\<open>src/inc/config.h\<close>, \<^verbatim>\<open>src/src/db/config.c\<close>: validation, network masks, selection
    of profile, WAN and crypto policy.
  \<^item> \<^verbatim>\<open>FlowTable\<close>: \<^verbatim>\<open>src/src/core/flow_table.c\<close>: chained table of flows, round robin, expiry.
  \<^item> \<^verbatim>\<open>Checksum\<close>, \<^verbatim>\<open>PacketCrypto\<close>: \<^verbatim>\<open>src/src/crypto/packet_crypto.c\<close>: checksums; settings, keys,
    nonces, cached cipher contexts, tunnel headers.
  \<^item> \<^verbatim>\<open>Layer4\<close>, \<^verbatim>\<open>Layer3\<close>, \<^verbatim>\<open>Layer2\<close>: \<^verbatim>\<open>src/src/crypto/crypto_layer4.c\<close> and its siblings: whole
    packets and single fragments, both ways.
  \<^item> \<^verbatim>\<open>Fragment\<close>, \<^verbatim>\<open>Reassembly\<close>: \<^verbatim>\<open>src/src/core/fragment.c\<close>: splitting and reassembling.
  \<^item> \<^verbatim>\<open>Dispatch\<close>: \<^verbatim>\<open>src/src/crypto/crypto_dispatch.c\<close>: which key for a received packet.
  \<^item> \<^verbatim>\<open>Runtime\<close>: the crypto tables of \<^verbatim>\<open>forwarder.c\<close>, rebuilt at start and reload.
  \<^item> \<^verbatim>\<open>PolicyPin\<close>: the policies pinned to TCP connections in \<^verbatim>\<open>forwarder.c\<close>.
  \<^item> \<^verbatim>\<open>Ring\<close>: the ring between receiving threads and worker, and the gate of the reload.
  \<^item> \<^verbatim>\<open>ArpCache\<close>: \<^verbatim>\<open>src/src/core/wan_arp.c\<close>.
  \<^item> \<^verbatim>\<open>Xsk\<close>: the rings of \<^verbatim>\<open>src/include/xdp/xsk.h\<close> and the queues of \<^verbatim>\<open>src/src/core/interface.c\<close>;
    \<^verbatim>\<open>Ports\<close>, \<^verbatim>\<open>Sizes\<close>: its port contract and the geometry of a validated interface.
  \<^item> \<^verbatim>\<open>Xdp\<close>: \<^verbatim>\<open>src/bpf/xdp_redirect.c\<close> and \<^verbatim>\<open>src/bpf/xdp_wan_redirect.c\<close>.
  \<^item> \<^verbatim>\<open>Flow\<close>, \<^verbatim>\<open>Forwarder\<close>, \<^verbatim>\<open>Receive\<close>, \<^verbatim>\<open>Worker\<close>: the packet threads of \<^verbatim>\<open>forwarder.c\<close>: parsing and
    the choice of the WAN link; the threads without encryption; the threads that receive from
    the WAN; the worker that encrypts.
  \<^item> \<^verbatim>\<open>Text\<close>, \<^verbatim>\<open>DbConfig\<close>: the text functions of the C library that the parsers call, the parsers of
    \<^verbatim>\<open>config.c\<close>, and \<^verbatim>\<open>src/src/db/db_config.c\<close> from the rows of its queries to a configuration.
  \<^item> \<^verbatim>\<open>Merge\<close>: \<^verbatim>\<open>src/src/db/db_runtime.c\<close>: the configurations of the active profiles in one.
  \<^item> \<^verbatim>\<open>Lifecycle\<close>: \<^verbatim>\<open>forwarder_init\<close>, \<^verbatim>\<open>forwarder_reload_config\<close>, \<^verbatim>\<open>forwarder_cleanup\<close> and the threads
    that the \<^verbatim>\<open>forwarder_run\<close> functions create.
  \<^item> \<^verbatim>\<open>Daemon\<close>: \<^verbatim>\<open>src/main.c\<close>: the active profiles, the two slots of configurations, the forwarder
    thread and the signals as a step relation.
  \<^item> \<^verbatim>\<open>Filters\<close>: the filter maps that \<^verbatim>\<open>interface.c\<close> fills from the configuration for the XDP programs.
  \<^item> \<^verbatim>\<open>Setup\<close>: the interfaces created and cleaned up in \<^verbatim>\<open>interface.c\<close> and \<^verbatim>\<open>forwarder.c\<close>: what is acquired
    and given back, and the sizes and queues an interface starts with.
  \<^item> \<^verbatim>\<open>DbEnv\<close>: \<^verbatim>\<open>src/src/db/db_env.c\<close>: the settings read from a file and the connection parameters.
  \<^item> \<^verbatim>\<open>Delivery\<close>, \<^verbatim>\<open>DeliveryL2\<close>: a packet of layer 4, and one of layer 2, from one gateway to the LAN of
    the other.

  \<^bold>\<open>Conventions.\<close>  A buffer is the list of its bytes; every access is checked, and \<^term>\<open>None\<close>
  stands for undefined behaviour of the C program (an access outside of an array, a division by
  zero), so a theorem that a result is \<^term>\<open>Some r\<close> is a theorem of memory safety.  Results of C
  functions keep their numbers: -1 is an error.  Machine integers are words of their width;
  lengths are natural numbers with the unsigned wrap of a subtraction written out.  Global and
  thread-local variables are fields of a record that is passed on.  Linked lists are lists, an
  array of chains a function from the bucket; a function that holds a lock is one step.

  \<^bold>\<open>Parameters.\<close>  OpenSSL is the record \<^verbatim>\<open>evp\<close>; the hypothesis \<^verbatim>\<open>evp_ok\<close> states that a stream cipher
  and an authenticated cipher undo what they did with the same key and nonce and keep lengths,
  nothing about secrecy.  Clocks, results of allocation and of system calls are arguments.  The
  kernel side of AF_XDP is the relation \<^verbatim>\<open>kernel_step\<close>.  The macro \<^verbatim>\<open>CRYPTO_L3_TUNNEL_MAGIC\<close>,
  which the repository uses and defines nowhere, is a parameter.  SHA-256, with which the loader
  derives a wire identifier from a key, and the rows that the queries return are arguments.

  \<^bold>\<open>What the lemmas show.\<close>  Decryption inverts encryption at every layer, for whole packets, for
  fragments and through splitting and reassembling; two gateways that rebuilt their tables from
  one configuration deliver packets end to end.  The flow table and the ARP table implement
  finite maps; policies stay pinned; policy and WAN selection meet their specifications.  The
  worker ring is a first-in first-out queue; a reload excludes packet processing and can finish.
  A queue of an interface never leaves its memory, hands packets to the kernel in order and
  unchanged, and loses no frame.  The XDP programs read inside the frame and classify exactly.
  The worker sends a packet whose policy has a key only encrypted under that key, and every
  packet of a job is either handed to the chosen link or counted as dropped; what is sent at
  layer 4, or at layer 2, leaves the receiving gateway unchanged on the LAN that owns the destination.  A configuration
  that loads is well formed, and merging keeps each profile as it was loaded.  In every reachable
  state of the daemon a running forwarder serves exactly the configuration of the active slot.
  The filter maps encode the encrypting policies of each profile.  An interface starts consistent, with
  its first frames offered to the kernel, and a start and a stop leave nothing behind but the loaded
  BPF objects, except where a LAN program cannot be attached.
  Some theorems state where the code does not do what it means to.

  \<^bold>\<open>Bounds.\<close>  Loops over lists and bytes are structural recursions; folding carries terminates
  because the sum decreases; probing the ARP table takes at most its size; the two retry loops
  of the send functions have the bounds of the source, 8 and 10001 attempts.  No fuel is used.

  \<^bold>\<open>Not modelled.\<close>  The endless loops around one iteration of the packet threads, pinning to a CPU
  and diagnostic output; what the libraries do while XDP objects are loaded and sockets are created; the
  functions of \<^verbatim>\<open>interface.c\<close> without a caller; the SQL text and the connection to the database; of
  \<^verbatim>\<open>main.c\<close> the printing, the connection and the waiting for notifications; the diagnosis
  (\<^verbatim>\<open>main_diag.c\<close>, printing); the vendored headers under \<^verbatim>\<open>src/include/bpf\<close>.
\<close>

end
